(* ===== verification/Prelude.thy ===== *)
theory Prelude
  imports Main "HOL-Library.Word" "HOL-Library.Multiset"
begin

text \<open>
  Shared vocabulary of the development: Rust's integer types and their checked, saturating and
  casting operations; results (\<open>Ok\<close>/\<open>Err\<close>) as sums with sequencing and guards; loops that stop
  at the first error; and generic lemmas on lists and sums that the components use.

  Unsigned integers are \<open>nat\<close> and signed ones \<open>int\<close>, with the width written in the operation where
  an operation can leave the type (\<open>checked\<close>, \<open>saturating\<close>, casts). Bytes and the 32-bit raw values
  of the packed wire format are machine words.
\<close>

named_theorems range_simps \<open>bounds of the machine integer types\<close>
named_theorems sat_simps \<open>unfolding of the saturating and checked operations\<close>

subsection \<open>Names of the source's types\<close>

type_synonym u8 = "8 word"
type_synonym u32 = nat
type_synonym u64 = nat
type_synonym u128 = nat
type_synonym usize = nat
type_synonym i8 = int
type_synonym i32 = int
type_synonym i64 = int
type_synonym raw32 = "32 word"
type_synonym bytes = "8 word list"

subsection \<open>Ranges\<close>

definition u8_max :: nat where "u8_max = 255"
definition u16_max :: nat where "u16_max = 65535"
definition u32_max :: nat where "u32_max = 4294967295"
definition u64_max :: nat where "u64_max = 18446744073709551615"
definition u128_max :: nat where "u128_max = 340282366920938463463374607431768211455"
definition i32_min :: int where "i32_min = -2147483648"
definition i32_max :: int where "i32_max = 2147483647"
definition i64_min :: int where "i64_min = -9223372036854775808"
definition i64_max :: int where "i64_max = 9223372036854775807"

definition in_i32 :: "int \<Rightarrow> bool" where
  "in_i32 v \<longleftrightarrow> i32_min \<le> v \<and> v \<le> i32_max"

definition in_i64 :: "int \<Rightarrow> bool" where
  "in_i64 v \<longleftrightarrow> i64_min \<le> v \<and> v \<le> i64_max"

lemmas int_ranges [range_simps] =
  u8_max_def u16_max_def u32_max_def u64_max_def u128_max_def i32_min_def i32_max_def
  i64_min_def i64_max_def in_i32_def in_i64_def

subsection \<open>Checked and saturating operations\<close>

definition sat_add :: "nat \<Rightarrow> nat \<Rightarrow> nat \<Rightarrow> nat" where
  "sat_add m a b = min (a + b) m"

definition sat_mul :: "nat \<Rightarrow> nat \<Rightarrow> nat \<Rightarrow> nat" where
  "sat_mul m a b = min (a * b) m"

definition sat_sub :: "nat \<Rightarrow> nat \<Rightarrow> nat" where
  "sat_sub a b = (if b \<le> a then a - b else 0)"

definition checked_add :: "nat \<Rightarrow> nat \<Rightarrow> nat \<Rightarrow> nat option" where
  "checked_add m a b = (if a + b \<le> m then Some (a + b) else None)"

definition checked_mul :: "nat \<Rightarrow> nat \<Rightarrow> nat \<Rightarrow> nat option" where
  "checked_mul m a b = (if a * b \<le> m then Some (a * b) else None)"

definition checked_add_i64 :: "int \<Rightarrow> int \<Rightarrow> int option" where
  "checked_add_i64 a b = (if in_i64 (a + b) then Some (a + b) else None)"

definition clamp_i64 :: "int \<Rightarrow> int" where
  "clamp_i64 x = max i64_min (min i64_max x)"

definition sat_add_i64 :: "int \<Rightarrow> int \<Rightarrow> int" where
  "sat_add_i64 a b = clamp_i64 (a + b)"

definition sat_sub_i64 :: "int \<Rightarrow> int \<Rightarrow> int" where
  "sat_sub_i64 a b = clamp_i64 (a - b)"

definition sat_mul_i64 :: "int \<Rightarrow> int \<Rightarrow> int" where
  "sat_mul_i64 a b = clamp_i64 (a * b)"

lemmas sat_ops [sat_simps] =
  sat_add_def sat_mul_def sat_sub_def checked_add_def checked_mul_def checked_add_i64_def
  clamp_i64_def sat_add_i64_def sat_sub_i64_def sat_mul_i64_def

lemma sat_add_le [simp]: "sat_add m a b \<le> m"
  by (simp add: sat_simps)

lemma sat_add_id: "a + b \<le> m \<Longrightarrow> sat_add m a b = a + b"
  by (simp add: sat_simps)

lemma sat_sub_eq [simp]: "sat_sub a b = a - b"
  by (simp add: sat_simps)

lemma checked_add_Some_iff: "checked_add m a b = Some c \<longleftrightarrow> c = a + b \<and> a + b \<le> m"
  by (auto simp: sat_simps)

lemma checked_mul_Some_iff: "checked_mul m a b = Some c \<longleftrightarrow> c = a * b \<and> a * b \<le> m"
  by (auto simp: sat_simps)

lemma checked_add_i64_Some_iff:
  "checked_add_i64 a b = Some c \<longleftrightarrow> c = a + b \<and> in_i64 (a + b)"
  by (auto simp: checked_add_i64_def)

lemma clamp_i64_in [simp]: "in_i64 (clamp_i64 x)"
  by (simp add: clamp_i64_def range_simps)

lemma clamp_i64_id: "in_i64 x \<Longrightarrow> clamp_i64 x = x"
  by (simp add: clamp_i64_def in_i64_def)

lemma clamp_i64_mono: "x \<le> y \<Longrightarrow> clamp_i64 x \<le> clamp_i64 y"
  by (auto simp: clamp_i64_def)

subsection \<open>Casts between 32-bit types\<close>

text \<open>\<open>value as u32\<close> for an \<open>i32\<close>, and \<open>raw as i32\<close> for a \<open>u32\<close>.\<close>

definition as_u32 :: "int \<Rightarrow> raw32" where
  "as_u32 v = word_of_int v"

definition as_i32 :: "raw32 \<Rightarrow> int" where
  "as_i32 w = sint w"

definition to_be_bytes :: "raw32 \<Rightarrow> bytes" where
  "to_be_bytes w = [ucast (drop_bit 24 w), ucast (drop_bit 16 w), ucast (drop_bit 8 w), ucast w]"

definition from_be_bytes :: "u8 \<Rightarrow> u8 \<Rightarrow> u8 \<Rightarrow> u8 \<Rightarrow> raw32" where
  "from_be_bytes a b c d =
     or (or (or (push_bit 24 (ucast a)) (push_bit 16 (ucast b))) (push_bit 8 (ucast c))) (ucast d)"

lemma as_i32_range: "in_i32 (as_i32 w)"
  using sint_ge [of w] sint_lt [of w] by (simp add: as_i32_def range_simps)

lemma as_i32_as_u32: "in_i32 v \<Longrightarrow> as_i32 (as_u32 v) = v"
  by (simp add: as_i32_def as_u32_def signed_of_int signed_take_bit_int_eq_self_iff range_simps)

lemma as_u32_as_i32: "as_u32 (as_i32 w) = w"
  by (simp add: as_i32_def as_u32_def)

lemma as_u32_inject: "in_i32 v \<Longrightarrow> in_i32 w \<Longrightarrow> as_u32 v = as_u32 w \<longleftrightarrow> v = w"
  by (metis as_i32_as_u32)

lemma length_to_be_bytes [simp]: "length (to_be_bytes w) = 4"
  by (simp add: to_be_bytes_def)

lemma from_to_be_bytes:
  "to_be_bytes w = [a, b, c, d] \<Longrightarrow> from_be_bytes a b c d = w"
proof -
  assume *: "to_be_bytes w = [a, b, c, d]"
  have "bit (from_be_bytes a b c d) n = bit w n" if "n < 32" for n
  proof -
    from that consider "n < 8" | "8 \<le> n" "n < 16" | "16 \<le> n" "n < 24" | "24 \<le> n" "n < 32"
      by linarith
    then show ?thesis using *
      by cases (auto simp: to_be_bytes_def from_be_bytes_def bit_simps)
  qed
  then show ?thesis by (intro bit_word_eqI) simp
qed

lemma to_be_bytes_inject [simp]: "to_be_bytes v = to_be_bytes w \<longleftrightarrow> v = w"
proof
  assume eq: "to_be_bytes v = to_be_bytes w"
  obtain a b c d where abcd: "to_be_bytes v = [a, b, c, d]"
    by (auto simp: to_be_bytes_def)
  from from_to_be_bytes [OF abcd] from_to_be_bytes [OF abcd [unfolded eq]]
  show "v = w" by simp
qed simp

subsection \<open>Results: sequencing with early return, and guards\<close>

text \<open>\<open>x?\<close> followed by the rest of the function, and \<open>ensure!(b, e)\<close>.\<close>

definition and_then :: "'e + 'a \<Rightarrow> ('a \<Rightarrow> 'e + 'b) \<Rightarrow> 'e + 'b" where
  "and_then x f = (case x of Inl e \<Rightarrow> Inl e | Inr v \<Rightarrow> f v)"

definition ensure :: "bool \<Rightarrow> 'e \<Rightarrow> 'e + 'a \<Rightarrow> 'e + 'a" where
  "ensure b e k = (if b then k else Inl e)"

definition ok_or :: "'a option \<Rightarrow> 'e \<Rightarrow> 'e + 'a" where
  "ok_or x e = (case x of None \<Rightarrow> Inl e | Some v \<Rightarrow> Inr v)"

definition map_err :: "('e \<Rightarrow> 'f) \<Rightarrow> 'e + 'a \<Rightarrow> 'f + 'a" where
  "map_err g x = (case x of Inl e \<Rightarrow> Inl (g e) | Inr v \<Rightarrow> Inr v)"

definition is_ok :: "'e + 'a \<Rightarrow> bool" where
  "is_ok x = (case x of Inl _ \<Rightarrow> False | Inr _ \<Rightarrow> True)"

text \<open>A loop that pushes one fallible result per element and returns the first error.\<close>

fun collect_res :: "('a \<Rightarrow> 'e + 'b) \<Rightarrow> 'a list \<Rightarrow> 'e + 'b list" where
  "collect_res f [] = Inr []"
| "collect_res f (x # xs) =
     (case f x of Inl e \<Rightarrow> Inl e
      | Inr y \<Rightarrow> (case collect_res f xs of Inl e \<Rightarrow> Inl e | Inr ys \<Rightarrow> Inr (y # ys)))"

lemma and_then_simps [simp]:
  "and_then (Inl e) f = Inl e" "and_then (Inr v) f = f v"
  by (simp_all add: and_then_def)

lemma and_then_Inr_iff [simp]:
  "and_then x f = Inr y \<longleftrightarrow> (\<exists>v. x = Inr v \<and> f v = Inr y)"
  by (cases x) simp_all

lemma and_then_Inl_iff:
  "and_then x f = Inl e \<longleftrightarrow> x = Inl e \<or> (\<exists>v. x = Inr v \<and> f v = Inl e)"
  by (cases x) simp_all

lemma ensure_simps [simp]: "ensure True e k = k" "ensure False e k = Inl e"
  by (simp_all add: ensure_def)

lemma ensure_Inr_iff [simp]: "ensure b e k = Inr y \<longleftrightarrow> b \<and> k = Inr y"
  by (simp add: ensure_def)

lemma ensure_Inl_iff: "ensure b e k = Inl f \<longleftrightarrow> (\<not> b \<and> f = e) \<or> (b \<and> k = Inl f)"
  by (auto simp: ensure_def)

lemma ok_or_simps [simp]: "ok_or None e = Inl e" "ok_or (Some v) e = Inr v"
  by (simp_all add: ok_or_def)

lemma ok_or_Inr_iff [simp]: "ok_or x e = Inr v \<longleftrightarrow> x = Some v"
  by (cases x) simp_all

lemma ok_or_Inl_iff: "ok_or x e = Inl f \<longleftrightarrow> x = None \<and> f = e"
  by (cases x) auto

lemma map_err_simps [simp]: "map_err g (Inl e) = Inl (g e)" "map_err g (Inr v) = Inr v"
  by (simp_all add: map_err_def)

lemma map_err_Inr_iff [simp]: "map_err g x = Inr v \<longleftrightarrow> x = Inr v"
  by (cases x) simp_all

lemma is_ok_simps [simp]: "is_ok (Inl e) = False" "is_ok (Inr v) = True"
  by (simp_all add: is_ok_def)

lemma is_ok_iff: "is_ok x \<longleftrightarrow> (\<exists>v. x = Inr v)"
  by (cases x) simp_all

lemma collect_res_length: "collect_res f xs = Inr ys \<Longrightarrow> length ys = length xs"
  by (induction xs arbitrary: ys) (auto split: sum.splits)

lemma collect_res_nth:
  "collect_res f xs = Inr ys \<Longrightarrow> i < length xs \<Longrightarrow> f (xs ! i) = Inr (ys ! i)"
proof (induction xs arbitrary: ys i)
  case (Cons x xs)
  then show ?case by (cases i) (auto split: sum.splits)
qed simp

lemma collect_res_Inr_iff:
  "collect_res f xs = Inr ys \<longleftrightarrow> list_all2 (\<lambda>x y. f x = Inr y) xs ys"
proof (induction xs arbitrary: ys)
  case (Cons x xs)
  show ?case
  proof (cases ys)
    case Nil
    then show ?thesis by (auto split: sum.splits)
  next
    case (Cons y zs)
    then show ?thesis using Cons.IH [of zs] by (fastforce split: sum.splits)
  qed
qed auto

lemma collect_res_ok:
  "(\<And>x. x \<in> set xs \<Longrightarrow> f x = Inr (g x)) \<Longrightarrow> collect_res f xs = Inr (map g xs)"
  by (induction xs) auto

lemma collect_res_set:
  "collect_res f xs = Inr ys \<Longrightarrow> y \<in> set ys \<Longrightarrow> \<exists>x \<in> set xs. f x = Inr y"
  by (induction xs arbitrary: ys) (auto split: sum.splits)

lemma collect_res_Inl:
  "collect_res f xs = Inl e \<Longrightarrow> \<exists>x \<in> set xs. f x = Inl e"
  by (induction xs) (auto split: sum.splits)

subsection \<open>Lists\<close>

text \<open>\<open>iter().position(|v| v == x)\<close>: the first index.\<close>

fun position :: "'a list \<Rightarrow> 'a \<Rightarrow> nat option" where
  "position [] x = None"
| "position (y # ys) x = (if y = x then Some 0 else map_option Suc (position ys x))"

lemma position_Some: "position xs x = Some i \<Longrightarrow> i < length xs \<and> xs ! i = x"
  by (induction xs arbitrary: i) (auto split: if_splits)

lemma position_None_iff: "position xs x = None \<longleftrightarrow> x \<notin> set xs"
  by (induction xs) auto

lemma position_distinct:
  "distinct xs \<Longrightarrow> i < length xs \<Longrightarrow> position xs (xs ! i) = Some i"
proof (induction xs arbitrary: i)
  case (Cons x xs)
  then show ?case by (cases i) auto
qed simp

lemma distinct_nth_inj:
  "distinct xs \<Longrightarrow> i < length xs \<Longrightarrow> j < length xs \<Longrightarrow> xs ! i = xs ! j \<longleftrightarrow> i = j"
  by (rule nth_eq_iff_index_eq)

lemma sorted_mset_unique: "sorted xs \<Longrightarrow> sorted ys \<Longrightarrow> mset xs = mset ys \<Longrightarrow> xs = ys"
  by (metis properties_for_sort)

lemma sort_eq_iff_mset: "sort xs = sort ys \<longleftrightarrow> mset xs = mset ys"
  by (metis mset_sort properties_for_sort sorted_sort)

lemma sort_Nil_iff [simp]: "sort xs = [] \<longleftrightarrow> xs = []"
  by (metis length_0_conv length_sort)

lemma concat_fixed_inject:
  assumes "\<And>x. length (f x) = n" and "n > 0" and "\<And>x y. f x = f y \<Longrightarrow> x = y"
    and "concat (map f xs) = concat (map f ys)"
  shows "xs = ys"
  using assms(4)
proof (induction xs arbitrary: ys)
  case Nil
  show ?case
  proof (cases ys)
    case (Cons y zs)
    with Nil have "f y = []" by simp
    with assms(1) [of y] assms(2) show ?thesis by simp
  qed simp
next
  case (Cons x xs)
  show ?case
  proof (cases ys)
    case Nil
    with Cons.prems have "f x = []" by simp
    with assms(1) [of x] assms(2) show ?thesis by simp
  next
    case (Cons y zs)
    with Cons.prems have "f x @ concat (map f xs) = f y @ concat (map f zs)" by simp
    with assms(1) have "f x = f y" and "concat (map f xs) = concat (map f zs)"
      by (metis append_eq_append_conv)+
    with Cons.IH assms(3) Cons show ?thesis by simp
  qed
qed

lemma sum_list_bounded:
  fixes f :: "'a \<Rightarrow> int"
  assumes "\<And>x. x \<in> set xs \<Longrightarrow> \<bar>f x\<bar> \<le> m"
  shows "\<bar>sum_list (map f xs)\<bar> \<le> m * int (length xs)"
  using assms
proof (induction xs)
  case (Cons x xs)
  then have "\<bar>f x\<bar> \<le> m" and "\<bar>sum_list (map f xs)\<bar> \<le> m * int (length xs)" by simp_all
  then show ?case by (simp add: algebra_simps)
qed simp

subsection \<open>Loops over index ranges\<close>

text \<open>The pairs that \<open>for i in 0..n { for j in i+1..n {..} }\<close> visits, in order.\<close>

definition index_pairs :: "nat \<Rightarrow> (nat \<times> nat) list" where
  "index_pairs n = concat (map (\<lambda>i. map (Pair i) [i + 1..<n]) [0..<n])"

lemma fold_nested:
  "fold (\<lambda>i. fold (f i) (g i)) xs a = fold (\<lambda>(i, j). f i j) (concat (map (\<lambda>i. map (Pair i) (g i)) xs)) a"
proof (induction xs arbitrary: a)
  case (Cons x xs)
  have "fold (f x) ys b = fold (\<lambda>(i, j). f i j) (map (Pair x) ys) b" for ys b
    by (induction ys arbitrary: b) simp_all
  with Cons show ?case by simp
qed simp

lemma fold_index_pairs:
  "fold (\<lambda>i. fold (f i) [i + 1..<n]) [0..<n] a = fold (\<lambda>(i, j). f i j) (index_pairs n) a"
  unfolding index_pairs_def by (rule fold_nested)

lemma set_index_pairs [simp]: "set (index_pairs n) = {(i, j). i < j \<and> j < n}"
  by (auto simp: index_pairs_def image_iff intro!: bexI)

lemma length_index_pairs: "2 * length (index_pairs n) = n * (n - 1)"
proof -
  have "length (index_pairs n) = (\<Sum>i<n. n - Suc i)"
    by (simp add: index_pairs_def length_concat comp_def interv_sum_list_conv_sum_set_nat atLeast0LessThan)
  also have "\<dots> = (\<Sum>i<n. i)" by (rule sum.nat_diff_reindex)
  finally have "2 * length (index_pairs n) = 2 * (\<Sum>i<n. i)" by simp
  also have "\<dots> = n * (n - 1)" by (induction n) (auto simp: algebra_simps)
  finally show ?thesis .
qed

lemma length_fold_update: "length (fold (\<lambda>c md. if P c then md[c := f c (md ! c)] else md) cs md) = length md"
  by (induction cs arbitrary: md) simp_all

lemma nth_fold_update:
  assumes "k \<le> length md" "c < length md"
  shows "fold (\<lambda>c md. if P c then md[c := f c (md ! c)] else md) [0..<k] md ! c =
    (if c < k \<and> P c then f c (md ! c) else md ! c)"
  using assms by (induction k) (auto simp: nth_list_update length_fold_update less_Suc_eq)

subsection \<open>Rounded shares\<close>

lemma mult_div_split: "(a::nat) * e div y = a * (e div y) + a * (e mod y) div y" if "0 < y"
proof -
  have "a * e = a * (e div y) * y + a * (e mod y)"
    by (metis add_mult_distrib2 mult.assoc mult_div_mod_eq mult.commute)
  then show ?thesis using that by (simp add: div_mult_self3 add.commute)
qed

lemma sum_floors_le: "sum_list (map (\<lambda>r. f r * t div d) rs) \<le> sum_list (map f rs) * t div (d::nat)"
proof (induction rs)
  case (Cons r rs)
  have "f r * t div d + sum_list (map f rs) * t div d \<le> (f r * t + sum_list (map f rs) * t) div d"
    unfolding div_add1_eq [of "f r * t" _ d] by simp
  then show ?case using Cons by (simp add: distrib_right)
qed simp

end
