(* ===== verification/Validation_Base.thy ===== *)
theory Validation_Base
  imports Prelude
begin

text \<open>
  \<open>crates/quantum-validation\<close>: the error type (\<open>errors.rs\<close>), the fixed-point helpers (\<open>fixed.rs\<close>),
  the spin checks and the \<open>TopologyIndex\<close> (\<open>validation.rs\<close>).

  The index is the association list of the inserted (node, position) pairs: \<open>new\<close> fails on a
  duplicate key, so the list has one entry per key, and the order of a \<open>BTreeMap\<close> is never observed.
\<close>

subsection \<open>Errors and fixed point\<close>

datatype validation_error =
    EmptyNodes
  | EmptyFieldValues
  | EmptyAllowedValues
  | InvalidEncodedValue raw32
  | EncodingTooWide nat
  | PackedSolutionLengthMismatch usize usize
  | SolutionLengthMismatch usize usize
  | FieldLengthMismatch usize usize
  | EdgeWeightLengthMismatch usize usize
  | InvalidSpinValue usize i8
  | DuplicateNode u32
  | UnknownNodeInEdge u32
  | ArithmeticOverflow

definition MILLI_SCALE :: int where
  "MILLI_SCALE = 1000"

text \<open>Division by zero panics (\<open>None\<close>); the addition wraps at 64 bits.\<close>

definition round_div_u64 :: "u64 \<Rightarrow> u64 \<Rightarrow> u64 option" where
  "round_div_u64 numerator denominator =
     (if denominator = 0 then None
      else Some (((numerator + denominator div 2) mod 2 ^ 64) div denominator))"

subsection \<open>Spins\<close>

definition is_spin :: "i8 \<Rightarrow> bool" where
  "is_spin s \<longleftrightarrow> s = -1 \<or> s = 1"

definition validate_spins :: "i8 list \<Rightarrow> bool" where
  "validate_spins spins = list_all is_spin spins"

definition validate_solution_set :: "i8 list list \<Rightarrow> usize \<Rightarrow> bool" where
  "validate_solution_set solutions expected_len =
     list_all (\<lambda>spins. length spins = expected_len \<and> validate_spins spins) solutions"

fun ensure_valid_spins_from :: "usize \<Rightarrow> i8 list \<Rightarrow> validation_error + unit" where
  "ensure_valid_spins_from index [] = Inr ()"
| "ensure_valid_spins_from index (spin # spins) =
     (if \<not> is_spin spin then Inl (InvalidSpinValue index spin)
      else ensure_valid_spins_from (Suc index) spins)"

definition ensure_valid_spins :: "i8 list \<Rightarrow> validation_error + unit" where
  "ensure_valid_spins spins = ensure_valid_spins_from 0 spins"

subsection \<open>The topology index\<close>

record topology_index =
  positions :: "(u32 \<times> usize) list"

fun insert_positions ::
    "(u32 \<times> usize) list \<Rightarrow> usize \<Rightarrow> u32 list \<Rightarrow> validation_error + (u32 \<times> usize) list" where
  "insert_positions ps pos [] = Inr ps"
| "insert_positions ps pos (node # nodes) =
     (if map_of ps node \<noteq> None then Inl (DuplicateNode node)
      else insert_positions (ps @ [(node, pos)]) (Suc pos) nodes)"

fun check_endpoints :: "(u32 \<times> usize) list \<Rightarrow> (u32 \<times> u32) list \<Rightarrow> validation_error + unit" where
  "check_endpoints ps [] = Inr ()"
| "check_endpoints ps ((u, v) # edges) =
     (if map_of ps u = None then Inl (UnknownNodeInEdge u)
      else if map_of ps v = None then Inl (UnknownNodeInEdge v)
      else check_endpoints ps edges)"

definition topology_index_new :: "u32 list \<Rightarrow> (u32 \<times> u32) list \<Rightarrow> validation_error + topology_index" where
  "topology_index_new nodes edges =
     and_then (insert_positions [] 0 nodes) (\<lambda>ps.
     and_then (check_endpoints ps edges) (\<lambda>_.
       Inr \<lparr>positions = ps\<rparr>))"

definition index_len :: "topology_index \<Rightarrow> usize" where
  "index_len ix = length (positions ix)"

definition index_position :: "topology_index \<Rightarrow> u32 \<Rightarrow> usize option" where
  "index_position ix node = map_of (positions ix) node"

subsection \<open>Lemmas on spins\<close>

lemma is_spin_simps [simp]: "is_spin 1" "is_spin (-1)"
  by (simp_all add: is_spin_def)

lemma is_spin_square: "is_spin s \<Longrightarrow> s * s = 1"
  by (auto simp: is_spin_def)

lemma is_spin_abs: "is_spin s \<Longrightarrow> \<bar>s\<bar> = 1"
  by (auto simp: is_spin_def)

lemma is_spin_mult: "is_spin s \<Longrightarrow> is_spin t \<Longrightarrow> is_spin (s * t)"
  by (auto simp: is_spin_def)

lemma validate_spins_nth: "validate_spins s \<Longrightarrow> i < length s \<Longrightarrow> is_spin (s ! i)"
  by (simp add: validate_spins_def list_all_length)

lemma validate_spins_simps [simp]:
  "validate_spins []" "validate_spins (x # xs) \<longleftrightarrow> is_spin x \<and> validate_spins xs"
  by (simp_all add: validate_spins_def)

lemma ensure_valid_spins_from_iff:
  "ensure_valid_spins_from i s = Inr u \<longleftrightarrow> validate_spins s"
  by (induction i s rule: ensure_valid_spins_from.induct) auto

lemma ensure_valid_spins_iff [simp]: "ensure_valid_spins s = Inr u \<longleftrightarrow> validate_spins s"
  by (simp add: ensure_valid_spins_def ensure_valid_spins_from_iff)

lemma ensure_valid_spins_from_Inl:
  "ensure_valid_spins_from i s = Inl e \<Longrightarrow>
     \<exists>k < length s. e = InvalidSpinValue (i + k) (s ! k) \<and> \<not> is_spin (s ! k) \<and>
       (\<forall>m < k. is_spin (s ! m))"
proof (induction i s rule: ensure_valid_spins_from.induct)
  case (2 index spin spins)
  show ?case
  proof (cases "is_spin spin")
    case True
    with 2 obtain k where "k < length spins" "e = InvalidSpinValue (Suc index + k) (spins ! k)"
      "\<not> is_spin (spins ! k)" "\<forall>m < k. is_spin (spins ! m)" by auto
    with True show ?thesis by (intro exI [of _ "Suc k"]) (auto simp: less_Suc_eq_0_disj)
  next
    case False
    with 2 show ?thesis by (intro exI [of _ 0]) simp
  qed
qed simp

text \<open>The error names the first invalid spin.\<close>

lemma ensure_valid_spins_Inl:
  "ensure_valid_spins s = Inl e \<Longrightarrow>
     \<exists>k < length s. e = InvalidSpinValue k (s ! k) \<and> \<not> is_spin (s ! k) \<and> (\<forall>m < k. is_spin (s ! m))"
  using ensure_valid_spins_from_Inl [of 0 s e] by (simp add: ensure_valid_spins_def)

lemma validate_solution_set_iff:
  "validate_solution_set ss n \<longleftrightarrow> (\<forall>s \<in> set ss. length s = n \<and> validate_spins s)"
  by (simp add: validate_solution_set_def list_all_iff)

subsection \<open>Lemmas on the topology index\<close>

lemma insert_positions_Inr_iff:
  "insert_positions ps pos nodes = Inr qs \<longleftrightarrow>
     distinct nodes \<and> set nodes \<inter> fst ` set ps = {} \<and>
     qs = ps @ zip nodes [pos..<pos + length nodes]"
proof (induction ps pos nodes arbitrary: qs rule: insert_positions.induct)
  case (2 ps pos node nodes)
  have "[pos..<pos + length (node # nodes)] = pos # [Suc pos..<Suc pos + length nodes]"
    by (simp add: upt_rec)
  then show ?case using 2 by (auto simp: map_of_eq_None_iff)
qed auto

lemma insert_positions_Inl:
  "insert_positions ps pos nodes = Inl e \<Longrightarrow>
     \<exists>node \<in> set nodes. e = DuplicateNode node \<and> (node \<in> fst ` set ps \<or> \<not> distinct nodes)"
proof (induction ps pos nodes rule: insert_positions.induct)
  case (2 ps pos node nodes)
  show ?case
  proof (cases "map_of ps node")
    case None
    with 2 obtain n where "n \<in> set nodes" "e = DuplicateNode n"
      "n \<in> fst ` set (ps @ [(node, pos)]) \<or> \<not> distinct nodes" by auto
    then show ?thesis by auto
  next
    case (Some p)
    then have "node \<in> fst ` set ps" by (metis fst_conv image_eqI map_of_SomeD)
    with 2 Some show ?thesis by auto
  qed
qed simp

lemma check_endpoints_iff:
  "check_endpoints ps edges = Inr u \<longleftrightarrow>
     (\<forall>(a, b) \<in> set edges. map_of ps a \<noteq> None \<and> map_of ps b \<noteq> None)"
  by (induction ps edges rule: check_endpoints.induct) auto

lemma check_endpoints_Inl:
  "check_endpoints ps edges = Inl e \<Longrightarrow>
     \<exists>(a, b) \<in> set edges. \<exists>n \<in> {a, b}. e = UnknownNodeInEdge n \<and> map_of ps n = None"
  by (induction ps edges rule: check_endpoints.induct) (auto split: if_splits)

lemma map_of_zip_upt:
  "distinct ns \<Longrightarrow> map_of (zip ns [0..<length ns]) u = Some p \<longleftrightarrow> p < length ns \<and> ns ! p = u"
proof
  assume d: "distinct ns"
  assume "map_of (zip ns [0..<length ns]) u = Some p"
  then have "(u, p) \<in> set (zip ns [0..<length ns])" by (rule map_of_SomeD)
  then show "p < length ns \<and> ns ! p = u" by (auto simp: set_zip)
next
  assume d: "distinct ns" and "p < length ns \<and> ns ! p = u"
  then show "map_of (zip ns [0..<length ns]) u = Some p"
    by (auto intro!: map_of_is_SomeI simp: set_zip)
qed

lemma map_of_zip_upt_None:
  "map_of (zip ns [0..<length ns]) u = None \<longleftrightarrow> u \<notin> set ns"
  by (simp add: map_of_zip_is_None)

definition edges_known :: "u32 list \<Rightarrow> (u32 \<times> u32) list \<Rightarrow> bool" where
  "edges_known nodes edges = list_all (\<lambda>(u, v). u \<in> set nodes \<and> v \<in> set nodes) edges"

lemma topology_index_new_Inr_iff:
  "topology_index_new nodes edges = Inr ix \<longleftrightarrow>
     distinct nodes \<and> edges_known nodes edges \<and> positions ix = zip nodes [0..<length nodes]"
proof -
  have "check_endpoints (zip nodes [0..<length nodes]) edges = Inr u \<longleftrightarrow> edges_known nodes edges" for u
    by (auto simp: check_endpoints_iff edges_known_def list_all_iff map_of_zip_upt_None
          simp del: not_None_eq)
  then show ?thesis
    by (cases ix) (auto simp: topology_index_new_def insert_positions_Inr_iff)
qed

lemma topology_index_new_Inl:
  assumes "topology_index_new nodes edges = Inl e"
  shows "(\<exists>n \<in> set nodes. e = DuplicateNode n \<and> \<not> distinct nodes) \<or>
    (\<exists>(a, b) \<in> set edges. \<exists>n \<in> {a, b}. e = UnknownNodeInEdge n \<and> n \<notin> set nodes \<and> distinct nodes)"
proof -
  consider (dup) "insert_positions [] 0 nodes = Inl e"
    | (edge) ps where "insert_positions [] 0 nodes = Inr ps" "check_endpoints ps edges = Inl e"
    using assms by (auto simp: topology_index_new_def and_then_Inl_iff)
  then show ?thesis
  proof cases
    case dup
    then show ?thesis using insert_positions_Inl [OF dup] by auto
  next
    case edge
    then have "distinct nodes" "ps = zip nodes [0..<length nodes]"
      by (simp_all add: insert_positions_Inr_iff)
    with check_endpoints_Inl [OF edge(2)] show ?thesis
      by (fastforce simp: map_of_zip_upt_None)
  qed
qed

text \<open>
  What a caller of the index may rely on: it exists exactly for duplicate-free nodes with known
  edge endpoints, counts the nodes, and maps a node to the one position where it stands.
\<close>

locale node_index =
  fixes new_index :: "u32 list \<Rightarrow> (u32 \<times> u32) list \<Rightarrow> validation_error + 'ix"
    and len :: "'ix \<Rightarrow> usize"
    and pos :: "'ix \<Rightarrow> u32 \<Rightarrow> usize option"
  assumes new_ok_iff: "is_ok (new_index nodes edges) \<longleftrightarrow> distinct nodes \<and> edges_known nodes edges"
    and len_new: "new_index nodes edges = Inr ix \<Longrightarrow> len ix = length nodes"
    and pos_new: "new_index nodes edges = Inr ix \<Longrightarrow>
      pos ix u = Some p \<longleftrightarrow> p < length nodes \<and> nodes ! p = u"
begin

lemma pos_endpoint:
  assumes "new_index nodes edges = Inr ix" and "(u, v) \<in> set edges"
  shows "\<exists>p q. pos ix u = Some p \<and> pos ix v = Some q \<and> p < len ix \<and> q < len ix"
proof -
  from assms(1) new_ok_iff [of nodes edges] have "edges_known nodes edges" by (simp add: is_ok_def)
  with assms(2) have "u \<in> set nodes" "v \<in> set nodes" by (auto simp: edges_known_def list_all_iff)
  then obtain p q where "p < length nodes" "nodes ! p = u" "q < length nodes" "nodes ! q = v"
    by (auto simp: in_set_conv_nth)
  with pos_new [OF assms(1)] len_new [OF assms(1)] show ?thesis by auto
qed

lemma pos_agrees_with_scan:
  assumes "new_index nodes edges = Inr ix"
  shows "pos ix u = position nodes u"
proof (cases "position nodes u")
  case None
  then show ?thesis
    using pos_new [OF assms, of u] by (metis nth_mem not_None_eq position_None_iff)
next
  case (Some p)
  with position_Some [OF Some] pos_new [OF assms, of u p] show ?thesis by simp
qed

lemma pos_inj:
  assumes "new_index nodes edges = Inr ix" and "pos ix u = Some p" and "pos ix v = Some p"
  shows "u = v"
  using assms pos_new by metis

end

interpretation ti: node_index topology_index_new index_len index_position
proof unfold_locales
  fix nodes edges
  show "is_ok (topology_index_new nodes edges) \<longleftrightarrow> distinct nodes \<and> edges_known nodes edges"
    using topology_index_new_Inr_iff [of nodes edges "\<lparr>positions = zip nodes [0..<length nodes]\<rparr>"]
    by (auto simp: is_ok_iff topology_index_new_Inr_iff intro: exI [of _ "\<lparr>positions = _\<rparr>"])
next
  fix nodes edges ix
  assume "topology_index_new nodes edges = Inr ix"
  then show "index_len ix = length nodes"
    by (simp add: topology_index_new_Inr_iff index_len_def)
next
  fix nodes edges ix u p
  assume "topology_index_new nodes edges = Inr ix"
  then show "index_position ix u = Some p \<longleftrightarrow> p < length nodes \<and> nodes ! p = u"
    by (auto simp: topology_index_new_Inr_iff index_position_def set_zip)
qed

end
