(* ===== verification/Puzzle_Spec.thy ===== *)
theory Puzzle_Spec
  imports Validation_Base
begin

text \<open>
  \<open>crates/quantum-validation/src/puzzle_spec.rs\<close>: the \<open>AllowedValueSpec\<close> of a puzzle parameter, its
  bit width, the decoding of one raw value, sampling from the puzzle's random generator, and the
  canonical byte form that the topology hash uses. \<open>RngCore\<close> is third-party code: \<open>next_u32\<close> is a
  parameter of the definitions that draw from it.
\<close>

subsection \<open>Data and operations\<close>

datatype allowed_value_spec =
    Set "i32 list"
  | IntegerRange i32 i32
  | ContinuousRange i32 i32

definition MAX_INDEXED_BITS :: nat where
  "MAX_INDEXED_BITS = 8"

text \<open>\<open>u64::leading_zeros\<close>.\<close>

fun bit_length :: "nat \<Rightarrow> nat" where
  "bit_length n = (if n = 0 then 0 else Suc (bit_length (n div 2)))"

declare bit_length.simps [simp del]

definition leading_zeros_u64 :: "u64 \<Rightarrow> nat" where
  "leading_zeros_u64 n = 64 - bit_length n"

definition bits_for_count :: "u64 \<Rightarrow> nat" where
  "bits_for_count c = (if c \<le> 1 then 1 else 64 - leading_zeros_u64 (c - 1))"

definition check_indexed_bits :: "nat \<Rightarrow> validation_error + unit" where
  "check_indexed_bits bits =
     (if bits > MAX_INDEXED_BITS then Inl (EncodingTooWide bits) else Inr ())"

text \<open>\<open>(max as i64 - min as i64 + 1) as u64\<close>: the cast wraps on inverted bounds.\<close>

definition range_span :: "i32 \<Rightarrow> i32 \<Rightarrow> u64" where
  "range_span lo hi = nat ((hi - lo + 1) mod 2 ^ 64)"

fun bits_per_value :: "allowed_value_spec \<Rightarrow> validation_error + nat" where
  "bits_per_value (Set vals) =
     (if vals = [] then Inl EmptyAllowedValues
      else let bits = bits_for_count (length vals)
           in and_then (check_indexed_bits bits) (\<lambda>_. Inr bits))"
| "bits_per_value (IntegerRange lo hi) =
     (if hi < lo then Inl EmptyAllowedValues
      else let bits = bits_for_count (range_span lo hi)
           in and_then (check_indexed_bits bits) (\<lambda>_.
              let scaled_min = sat_mul_i64 lo MILLI_SCALE;
                  scaled_max = sat_mul_i64 hi MILLI_SCALE
              in if scaled_min < i32_min \<or> scaled_max > i32_max then Inl ArithmeticOverflow
                 else Inr bits))"
| "bits_per_value (ContinuousRange lo hi) =
     (if hi < lo then Inl EmptyAllowedValues else Inr 32)"

fun decode_value :: "allowed_value_spec \<Rightarrow> raw32 \<Rightarrow> validation_error + i32" where
  "decode_value (Set vals) raw =
     (if unat raw < length vals then Inr (vals ! unat raw) else Inl (InvalidEncodedValue raw))"
| "decode_value (IntegerRange lo hi) raw =
     (if unat raw \<ge> range_span lo hi then Inl (InvalidEncodedValue raw)
      else let v = sat_mul_i64 (sat_add_i64 lo (int (unat raw))) MILLI_SCALE
           in if in_i32 v then Inr v else Inl ArithmeticOverflow)"
| "decode_value (ContinuousRange lo hi) raw =
     (let v = as_i32 raw
      in if v < lo \<or> v > hi then Inl (InvalidEncodedValue raw) else Inr v)"

fun sample_value ::
    "('r \<Rightarrow> u32 \<times> 'r) \<Rightarrow> allowed_value_spec \<Rightarrow> 'r \<Rightarrow> validation_error + (i32 \<times> 'r)" where
  "sample_value next_u32 (Set vals) rng =
     (if vals = [] then Inl EmptyAllowedValues
      else let (x, rng') = next_u32 rng in Inr (vals ! (x mod length vals), rng'))"
| "sample_value next_u32 (IntegerRange lo hi) rng =
     (if hi < lo then Inl EmptyAllowedValues
      else let (x, rng') = next_u32 rng; offset = x mod range_span lo hi
           in and_then (decode_value (IntegerRange lo hi) (of_nat offset)) (\<lambda>v. Inr (v, rng')))"
| "sample_value next_u32 (ContinuousRange lo hi) rng =
     (if hi < lo then Inl EmptyAllowedValues
      else let (x, rng') = next_u32 rng; offset = x mod range_span lo hi
           in Inr (as_i32 (as_u32 (sat_add_i64 lo (int offset))), rng'))"

definition be_i32 :: "i32 \<Rightarrow> bytes" where
  "be_i32 v = to_be_bytes (as_u32 v)"

fun windows_sorted :: "i32 list \<Rightarrow> bool" where
  "windows_sorted (a # b # xs) = (a \<le> b \<and> windows_sorted (b # xs))"
| "windows_sorted xs = True"

fun canonical_bytes :: "allowed_value_spec \<Rightarrow> bytes" where
  "canonical_bytes (Set vals) =
     0 # (if windows_sorted vals then concat (map be_i32 vals)
          else concat (map be_i32 (sort vals)))"
| "canonical_bytes (IntegerRange lo hi) = 1 # be_i32 lo @ be_i32 hi"
| "canonical_bytes (ContinuousRange lo hi) = 2 # be_i32 lo @ be_i32 hi"

subsection \<open>The values a specification allows\<close>

fun allows :: "allowed_value_spec \<Rightarrow> i32 \<Rightarrow> bool" where
  "allows (Set vals) v \<longleftrightarrow> v \<in> set vals"
| "allows (IntegerRange lo hi) v \<longleftrightarrow> v mod MILLI_SCALE = 0 \<and> lo \<le> v div MILLI_SCALE \<and> v div MILLI_SCALE \<le> hi"
| "allows (ContinuousRange lo hi) v \<longleftrightarrow> lo \<le> v \<and> v \<le> hi"

text \<open>The Rust types: every number of a specification is an \<open>i32\<close>, and a set is a slice.\<close>

fun spec_typed :: "allowed_value_spec \<Rightarrow> bool" where
  "spec_typed (Set vals) \<longleftrightarrow> list_all in_i32 vals \<and> length vals \<le> u64_max"
| "spec_typed (IntegerRange lo hi) \<longleftrightarrow> in_i32 lo \<and> in_i32 hi"
| "spec_typed (ContinuousRange lo hi) \<longleftrightarrow> in_i32 lo \<and> in_i32 hi"

text \<open>Number of raw patterns that decode to a value of an indexed specification.\<close>

fun value_count :: "allowed_value_spec \<Rightarrow> nat" where
  "value_count (Set vals) = length vals"
| "value_count (IntegerRange lo hi) = nat (hi - lo + 1)"
| "value_count (ContinuousRange lo hi) = 2 ^ 32"

subsection \<open>Bit widths\<close>

lemma bit_length_bounds: "n < 2 ^ bit_length n \<and> (n > 0 \<longrightarrow> 2 ^ (bit_length n - 1) \<le> n)"
proof (induction n rule: bit_length.induct)
  case (1 n)
  show ?case
  proof (cases "n = 0")
    case False
    then have IH: "n div 2 < 2 ^ bit_length (n div 2)"
      "n div 2 > 0 \<longrightarrow> 2 ^ (bit_length (n div 2) - 1) \<le> n div 2"
      using 1 by simp_all
    have eq: "bit_length n = Suc (bit_length (n div 2))"
      using False by (simp add: bit_length.simps [of n])
    have upper: "n < 2 ^ bit_length n" using IH(1) by (simp add: eq)
    have lower: "2 ^ (bit_length n - 1) \<le> n"
    proof (cases "n div 2 = 0")
      case True
      with False show ?thesis by (simp add: eq bit_length.simps [of 0])
    next
      case nz: False
      then obtain k where k: "bit_length (n div 2) = Suc k"
        by (simp add: bit_length.simps [of "n div 2"])
      with IH(2) nz have "2 ^ k \<le> n div 2" by simp
      then show ?thesis by (simp add: eq k)
    qed
    from upper lower show ?thesis by simp
  qed (simp add: bit_length.simps)
qed

lemma bit_length_le: "n < 2 ^ k \<Longrightarrow> bit_length n \<le> k"
proof (rule ccontr)
  assume n: "n < 2 ^ k" and "\<not> bit_length n \<le> k"
  then have k: "k \<le> bit_length n - 1" by simp
  have "n > 0" using \<open>\<not> bit_length n \<le> k\<close> by (cases "n = 0") (simp_all add: bit_length.simps)
  with bit_length_bounds [of n] have "2 ^ (bit_length n - 1) \<le> n" by simp
  moreover have "(2::nat) ^ k \<le> 2 ^ (bit_length n - 1)" using k by simp
  ultimately show False using n by linarith
qed

lemma bits_for_count_pos: "bits_for_count c \<ge> 1"
proof (cases "c \<le> 1")
  case False
  then have "c - 1 \<noteq> 0" by simp
  then have "bit_length (c - 1) \<ge> 1" by (subst bit_length.simps) simp
  with False show ?thesis by (simp add: bits_for_count_def leading_zeros_u64_def)
qed (simp add: bits_for_count_def)

lemma bits_for_count_enough: "c \<le> 2 ^ 64 \<Longrightarrow> c \<le> 2 ^ bits_for_count c"
proof (cases "c \<le> 1")
  case False
  assume "c \<le> 2 ^ 64"
  then have "bit_length (c - 1) \<le> 64" using False by (intro bit_length_le) auto
  then have eq: "bits_for_count c = bit_length (c - 1)"
    using False by (simp add: bits_for_count_def leading_zeros_u64_def)
  have "c - 1 < 2 ^ bit_length (c - 1)" using bit_length_bounds by blast
  then show ?thesis unfolding eq by linarith
qed (simp add: bits_for_count_def)

lemma bits_for_count_minimal: "2 \<le> c \<Longrightarrow> c \<le> 2 ^ 64 \<Longrightarrow> 2 ^ (bits_for_count c - 1) < c"
proof -
  assume c: "2 \<le> c" "c \<le> 2 ^ 64"
  then have "bit_length (c - 1) \<le> 64" by (intro bit_length_le) auto
  then have eq: "bits_for_count c = bit_length (c - 1)"
    using c by (simp add: bits_for_count_def leading_zeros_u64_def)
  have "2 ^ (bit_length (c - 1) - 1) \<le> c - 1" using bit_length_bounds [of "c - 1"] c by simp
  then show ?thesis using c unfolding eq by linarith
qed

lemma check_indexed_bits_iff [simp]: "check_indexed_bits b = Inr u \<longleftrightarrow> b \<le> MAX_INDEXED_BITS"
  by (auto simp: check_indexed_bits_def)

lemma range_span_eq:
  "in_i32 lo \<Longrightarrow> in_i32 hi \<Longrightarrow> lo \<le> hi \<Longrightarrow> range_span lo hi = nat (hi - lo + 1)"
  by (simp add: range_span_def range_simps)

lemma range_span_bounds:
  assumes "in_i32 lo" "in_i32 hi" "lo \<le> hi"
  shows "0 < range_span lo hi" "range_span lo hi \<le> 2 ^ 32" "int (range_span lo hi) = hi - lo + 1"
  using assms by (auto simp: range_span_eq range_simps)

lemma sat_mul_milli: "in_i32 v \<Longrightarrow> sat_mul_i64 v MILLI_SCALE = v * 1000"
  by (simp add: sat_mul_i64_def MILLI_SCALE_def clamp_i64_id range_simps)

lemma bits_per_value_cases:
  assumes "bits_per_value spec = Inr b" and "spec_typed spec"
  shows "1 \<le> b \<and> value_count spec \<le> 2 ^ b \<and> 0 < value_count spec \<and>
    (case spec of ContinuousRange lo hi \<Rightarrow> b = 32 | _ \<Rightarrow> b \<le> MAX_INDEXED_BITS)"
proof (cases spec)
  case (Set vals)
  with assms have "b = bits_for_count (length vals)" "b \<le> MAX_INDEXED_BITS" "vals \<noteq> []"
    "length vals \<le> 2 ^ 64"
    by (auto simp: Let_def u64_max_def split: if_splits)
  then show ?thesis using bits_for_count_enough bits_for_count_pos Set by auto
next
  case (IntegerRange lo hi)
  with assms have "b = bits_for_count (range_span lo hi)" "b \<le> MAX_INDEXED_BITS" "lo \<le> hi"
    "in_i32 lo" "in_i32 hi"
    by (auto simp: Let_def split: if_splits)
  then show ?thesis
    using bits_for_count_enough [of "range_span lo hi"] bits_for_count_pos range_span_bounds [of lo hi]
      IntegerRange by (auto simp: range_span_eq)
next
  case (ContinuousRange lo hi)
  with assms show ?thesis by (auto split: if_splits)
qed

lemma bits_per_value_minimal:
  assumes "bits_per_value spec = Inr b" and "spec_typed spec" and "2 \<le> value_count spec"
    and "b \<le> MAX_INDEXED_BITS"
  shows "2 ^ (b - 1) < value_count spec"
proof (cases spec)
  case (Set vals)
  with assms have "b = bits_for_count (length vals)" "length vals \<le> 2 ^ 64"
    by (auto simp: Let_def u64_max_def split: if_splits)
  with bits_for_count_minimal [of "length vals"] assms(3) Set show ?thesis by simp
next
  case (IntegerRange lo hi)
  with assms have "in_i32 lo" "in_i32 hi" "lo \<le> hi" "b = bits_for_count (range_span lo hi)"
    by (auto simp: Let_def split: if_splits)
  with bits_for_count_minimal [of "range_span lo hi"] range_span_bounds [of lo hi] assms(3)
    IntegerRange show ?thesis by (simp add: range_span_eq)
next
  case (ContinuousRange lo hi)
  with assms show ?thesis by (auto simp: MAX_INDEXED_BITS_def split: if_splits)
qed

subsection \<open>Decoding and sampling yield allowed values\<close>

lemma decode_integer_range:
  assumes "in_i32 lo" "in_i32 hi" "lo \<le> hi" "unat raw < range_span lo hi"
  shows "decode_value (IntegerRange lo hi) raw =
    (let v = (lo + int (unat raw)) * 1000 in if in_i32 v then Inr v else Inl ArithmeticOverflow)"
proof -
  have "int (unat raw) < hi - lo + 1" using assms range_span_bounds(3) [OF assms(1-3)] by linarith
  moreover have "0 \<le> int (unat raw)" by simp
  ultimately have k: "in_i32 (lo + int (unat raw))"
    using assms(1,2) unfolding range_simps by linarith
  then have "sat_add_i64 lo (int (unat raw)) = lo + int (unat raw)"
    by (simp add: sat_add_i64_def clamp_i64_id range_simps)
  with assms k show ?thesis by (simp add: sat_mul_milli Let_def not_le)
qed

lemma decode_value_allowed:
  assumes "decode_value spec raw = Inr v" and "spec_typed spec" and "is_ok (bits_per_value spec)"
  shows "allows spec v \<and> in_i32 v"
proof (cases spec)
  case (Set vals)
  with assms show ?thesis by (auto simp: list_all_length split: if_splits)
next
  case (IntegerRange lo hi)
  with assms have t: "in_i32 lo" "in_i32 hi" "lo \<le> hi"
    by (auto simp: is_ok_iff Let_def split: if_splits)
  have u: "unat raw < range_span lo hi" using assms(1) IntegerRange by (auto split: if_splits)
  with assms(1) IntegerRange decode_integer_range [OF t u] have "v = (lo + int (unat raw)) * 1000" "in_i32 v"
    by (auto simp: Let_def split: if_splits)
  moreover have "lo \<le> lo + int (unat raw)" "lo + int (unat raw) \<le> hi"
    using u range_span_bounds(3) [OF t] by linarith+
  ultimately show ?thesis using IntegerRange by (simp add: MILLI_SCALE_def del: of_nat_unat)
next
  case (ContinuousRange lo hi)
  with assms as_i32_range show ?thesis by (auto simp: Let_def split: if_splits)
qed

lemma integer_range_scaled:
  assumes "is_ok (bits_per_value (IntegerRange lo hi))" and "in_i32 lo" "in_i32 hi"
    and "lo \<le> k" "k \<le> hi"
  shows "in_i32 (k * 1000)"
  using assms by (auto simp: is_ok_iff Let_def sat_mul_milli range_simps split: if_splits)

text \<open>A specification that passed registration can always be sampled.\<close>

lemma sample_value_allowed:
  assumes b: "is_ok (bits_per_value spec)" and t: "spec_typed spec" and r: "fst (next_u32 rng) \<le> u32_max"
  shows "\<exists>v. sample_value next_u32 spec rng = Inr (v, snd (next_u32 rng)) \<and> allows spec v \<and> in_i32 v"
proof (cases spec)
  case (Set vals)
  with b have "vals \<noteq> []" by (auto simp: is_ok_iff split: if_splits)
  with Set t show ?thesis
    by (cases "next_u32 rng") (auto simp: list_all_length)
next
  case (IntegerRange lo hi)
  with b t have lo: "in_i32 lo" "in_i32 hi" "lo \<le> hi"
    by (auto simp: is_ok_iff Let_def split: if_splits)
  obtain x rng' where x: "next_u32 rng = (x, rng')" by (cases "next_u32 rng")
  let ?o = "x mod range_span lo hi"
  have o: "?o < range_span lo hi" "?o < 2 ^ 32"
    using range_span_bounds [OF lo] r x
    by (auto simp: u32_max_def intro: le_less_trans [OF mod_less_eq_dividend])
  then have u: "unat (of_nat ?o :: raw32) = ?o" by (simp add: unat_of_nat)
  have "lo + int ?o \<le> hi" using o(1) range_span_bounds(3) [OF lo] by linarith
  moreover have "in_i32 ((lo + int ?o) * 1000)"
    using integer_range_scaled [of lo hi "lo + int ?o"] b lo IntegerRange calculation by simp
  ultimately show ?thesis
    using IntegerRange lo x u o(1) decode_integer_range [OF lo, of "of_nat ?o"]
    by (auto simp: Let_def MILLI_SCALE_def)
next
  case (ContinuousRange lo hi)
  with b t have lo: "in_i32 lo" "in_i32 hi" "lo \<le> hi"
    by (auto simp: is_ok_iff split: if_splits)
  obtain x rng' where x: "next_u32 rng = (x, rng')" by (cases "next_u32 rng")
  let ?o = "x mod range_span lo hi"
  have "?o < range_span lo hi" using range_span_bounds [OF lo] by simp
  then have v: "lo \<le> lo + int ?o" "lo + int ?o \<le> hi" using range_span_bounds(3) [OF lo] by linarith+
  with lo have "in_i32 (lo + int ?o)" by (auto simp: range_simps)
  then show ?thesis using ContinuousRange lo x v
    by (simp add: sat_add_i64_def clamp_i64_id as_i32_as_u32 range_simps)
qed

text \<open>
  What the model generator and the packed decoder rely on: values they obtain from a specification
  are allowed by it.
\<close>

locale value_source =
  fixes valid :: "'s \<Rightarrow> bool"
    and decode :: "'s \<Rightarrow> raw32 \<Rightarrow> validation_error + i32"
    and allowed :: "'s \<Rightarrow> i32 \<Rightarrow> bool"
  assumes decode_allowed: "valid sp \<Longrightarrow> decode sp raw = Inr v \<Longrightarrow> allowed sp v \<and> in_i32 v"
begin

lemma decode_all_allowed:
  "valid sp \<Longrightarrow> collect_res (\<lambda>x. decode sp (f x)) xs = Inr vs \<Longrightarrow> v \<in> set vs \<Longrightarrow> allowed sp v \<and> in_i32 v"
  by (meson collect_res_set decode_allowed)

end

definition spec_valid :: "allowed_value_spec \<Rightarrow> bool" where
  "spec_valid spec \<longleftrightarrow> spec_typed spec \<and> is_ok (bits_per_value spec)"

interpretation puzzle_values: value_source spec_valid decode_value allows
  by unfold_locales (auto simp: spec_valid_def dest: decode_value_allowed)

text \<open>Evaluation of specifications at concrete values.\<close>

lemmas spec_eval = spec_valid_def is_ok_def bits_for_count_def leading_zeros_u64_def bit_length.simps
  check_indexed_bits_def MAX_INDEXED_BITS_def range_simps

subsection \<open>Canonical bytes\<close>

lemma windows_sorted_iff [simp]: "windows_sorted xs \<longleftrightarrow> sorted xs"
proof (induction xs rule: windows_sorted.induct)
  case (1 a b xs)
  then show ?case by (auto dest: order_trans)
qed simp_all

lemma canonical_bytes_Set: "canonical_bytes (Set vals) = 0 # concat (map be_i32 (sort vals))"
  by (simp add: sorted_sort_id)

lemma length_be_i32 [simp]: "length (be_i32 v) = 4"
  by (simp add: be_i32_def)

lemma be_i32_inject: "in_i32 v \<Longrightarrow> in_i32 w \<Longrightarrow> be_i32 v = be_i32 w \<longleftrightarrow> v = w"
  by (simp add: be_i32_def as_u32_inject)

lemma concat_be_i32_inject:
  assumes "list_all in_i32 xs" "list_all in_i32 ys"
    and "concat (map be_i32 xs) = concat (map be_i32 ys)"
  shows "xs = ys"
proof -
  have "concat (map to_be_bytes (map as_u32 xs)) = concat (map to_be_bytes (map as_u32 ys))"
    using assms(3) by (simp add: be_i32_def [abs_def] comp_def)
  then have "map as_u32 xs = map as_u32 ys"
    by (rule concat_fixed_inject [where n = 4, rotated -1]) simp_all
  then have "map as_i32 (map as_u32 xs) = map as_i32 (map as_u32 ys)" by simp
  moreover have "map as_i32 (map as_u32 zs) = zs" if "list_all in_i32 zs" for zs
    using that by (induction zs) (simp_all add: as_i32_as_u32)
  ultimately show ?thesis using assms by simp
qed

text \<open>Two specifications that mean the same thing to a puzzle: sets up to order, ranges exactly.\<close>

fun same_spec :: "allowed_value_spec \<Rightarrow> allowed_value_spec \<Rightarrow> bool" where
  "same_spec (Set xs) (Set ys) \<longleftrightarrow> mset xs = mset ys"
| "same_spec a b \<longleftrightarrow> a = b"

lemma list_all_sort [simp]: "list_all P (sort xs) = list_all P xs"
  by (simp add: list_all_iff)

lemma canonical_bytes_iff:
  assumes "spec_typed a" "spec_typed b"
  shows "canonical_bytes a = canonical_bytes b \<longleftrightarrow> same_spec a b"
proof (cases a; cases b)
  fix xs ys assume ab: "a = Set xs" "b = Set ys"
  have "concat (map be_i32 (sort xs)) = concat (map be_i32 (sort ys)) \<longleftrightarrow> sort xs = sort ys"
    using assms ab concat_be_i32_inject [of "sort xs" "sort ys"] by auto
  then show ?thesis using ab by (simp add: canonical_bytes_Set sort_eq_iff_mset del: canonical_bytes.simps)
qed (use assms in \<open>auto simp: be_i32_inject\<close>)

end
