(* ===== verification/Packed.thy ===== *)
theory Packed
  imports Puzzle_Spec
begin

text \<open>
  \<open>crates/quantum-validation/src/packed.rs\<close>: the bit-packed wire format of submitted solutions.
  A spin takes \<open>bits_per_value\<close> bits, least significant bit of byte 0 first, or four big-endian
  bytes under a continuous range. Bytes are 8-bit words and raw values 32-bit words, so the shifts,
  masks and truncating casts are the source's. \<open>usize\<close> has the 32 bits of the Wasm runtime.
\<close>

subsection \<open>Operations\<close>

definition usize_max :: nat where
  "usize_max = u32_max"

definition packed_solution_byte_len :: "usize \<Rightarrow> allowed_value_spec \<Rightarrow> validation_error + usize" where
  "packed_solution_byte_len num_spins spec =
     and_then (bits_per_value spec) (\<lambda>bits_per_spin.
       Inr (sat_add usize_max (sat_mul usize_max num_spins bits_per_spin) 7 div 8))"

definition read_raw :: "bytes \<Rightarrow> nat \<Rightarrow> usize \<Rightarrow> raw32" where
  "read_raw packed bits_per_spin spin_index =
     (let mask = (if bits_per_spin = 32 then - 1 else push_bit bits_per_spin 1 - 1);
          bit_offset = spin_index * bits_per_spin;
          byte_index = bit_offset div 8;
          intra_byte = bit_offset mod 8;
          b0 = ucast (packed ! byte_index) :: raw32;
          b1 = (if byte_index + 1 < length packed then ucast (packed ! (byte_index + 1)) else 0) :: raw32
      in and (drop_bit intra_byte (or b0 (push_bit 8 b1))) mask)"

definition decode_indexed ::
    "bytes \<Rightarrow> usize \<Rightarrow> nat \<Rightarrow> allowed_value_spec \<Rightarrow> validation_error + i32 list" where
  "decode_indexed packed num_spins bits_per_spin spec =
     collect_res (\<lambda>spin_index. decode_value spec (read_raw packed bits_per_spin spin_index)) [0..<num_spins]"

definition decode_continuous ::
    "bytes \<Rightarrow> usize \<Rightarrow> allowed_value_spec \<Rightarrow> validation_error + i32 list" where
  "decode_continuous packed num_spins spec =
     collect_res (\<lambda>spin_index.
       let offset = spin_index * 4
       in if offset + 4 \<le> length packed
          then decode_value spec (from_be_bytes (packed ! offset) (packed ! (offset + 1))
                 (packed ! (offset + 2)) (packed ! (offset + 3)))
          else Inl (PackedSolutionLengthMismatch (num_spins * 4) (length packed)))
       [0..<num_spins]"

definition unpack_solution ::
    "bytes \<Rightarrow> usize \<Rightarrow> allowed_value_spec \<Rightarrow> validation_error + i32 list" where
  "unpack_solution packed num_spins spec =
     and_then (bits_per_value spec) (\<lambda>bits_per_spin.
     and_then (packed_solution_byte_len num_spins spec) (\<lambda>expected.
       if length packed \<noteq> expected then Inl (PackedSolutionLengthMismatch expected (length packed))
       else if bits_per_spin = 32 then decode_continuous packed num_spins spec
       else decode_indexed packed num_spins bits_per_spin spec))"

text \<open>Rust's \<open>/\<close> and \<open>%\<close> on \<open>i32\<close> truncate towards zero.\<close>

definition trunc_div :: "int \<Rightarrow> int \<Rightarrow> int" where
  "trunc_div a b = sgn a * sgn b * (\<bar>a\<bar> div \<bar>b\<bar>)"

definition trunc_rem :: "int \<Rightarrow> int \<Rightarrow> int" where
  "trunc_rem a b = a - b * trunc_div a b"

fun encode_value :: "i32 \<Rightarrow> allowed_value_spec \<Rightarrow> validation_error + raw32" where
  "encode_value v (Set vals) =
     (case position vals v of
        Some i \<Rightarrow> Inr (of_nat i)
      | None \<Rightarrow> Inl (InvalidEncodedValue (as_u32 v)))"
| "encode_value v (IntegerRange lo hi) =
     (if trunc_rem v MILLI_SCALE \<noteq> 0 then Inl (InvalidEncodedValue (as_u32 v))
      else let whole = trunc_div v MILLI_SCALE
           in if whole < lo \<or> whole > hi then Inl (InvalidEncodedValue (as_u32 v))
              else Inr (as_u32 (whole - lo)))"
| "encode_value v (ContinuousRange lo hi) =
     (if v < lo \<or> v > hi then Inl (InvalidEncodedValue (as_u32 v)) else Inr (as_u32 v))"

text \<open>The body of the packing loop for one raw value, on the output buffer.\<close>

definition write_raw :: "nat \<Rightarrow> usize \<Rightarrow> raw32 \<Rightarrow> bytes \<Rightarrow> bytes" where
  "write_raw bits_per_spin spin_index raw out =
     (let bit_offset = spin_index * bits_per_spin;
          byte_index = bit_offset div 8;
          intra_byte = bit_offset mod 8;
          shifted = push_bit intra_byte raw;
          out1 = out[byte_index := or (out ! byte_index) (ucast (and shifted 255))]
      in if byte_index + 1 < length out1
         then out1[byte_index + 1 :=
                or (out1 ! (byte_index + 1)) (ucast (and (drop_bit 8 shifted) 255))]
         else out1)"

fun pack_indexed_loop ::
    "nat \<Rightarrow> allowed_value_spec \<Rightarrow> usize \<Rightarrow> i32 list \<Rightarrow> bytes \<Rightarrow> validation_error + bytes" where
  "pack_indexed_loop b spec i [] out = Inr out"
| "pack_indexed_loop b spec i (spin # spins) out =
     and_then (encode_value spin spec) (\<lambda>raw.
       pack_indexed_loop b spec (Suc i) spins (write_raw b i raw out))"

fun pack_continuous_loop :: "usize \<Rightarrow> i32 list \<Rightarrow> bytes \<Rightarrow> bytes" where
  "pack_continuous_loop i [] out = out"
| "pack_continuous_loop i (spin # spins) out =
     pack_continuous_loop (Suc i) spins
       (take (i * 4) out @ to_be_bytes (as_u32 spin) @ drop (i * 4 + 4) out)"

definition pack_solution :: "i32 list \<Rightarrow> allowed_value_spec \<Rightarrow> validation_error + bytes" where
  "pack_solution spins spec =
     and_then (bits_per_value spec) (\<lambda>bits_per_spin.
     and_then (packed_solution_byte_len (length spins) spec) (\<lambda>byte_len.
       let out = replicate byte_len 0
       in if bits_per_spin = 32 then Inr (pack_continuous_loop 0 spins out)
          else pack_indexed_loop bits_per_spin spec 0 spins out))"

fun spin_signs_from :: "usize \<Rightarrow> i32 list \<Rightarrow> validation_error + i8 list" where
  "spin_signs_from index [] = Inr []"
| "spin_signs_from index (v # vs) =
     (if sgn v = 0 then Inl (InvalidSpinValue index 0)
      else and_then (spin_signs_from (Suc index) vs) (\<lambda>ss. Inr (sgn v # ss)))"

definition spin_signs :: "i32 list \<Rightarrow> validation_error + i8 list" where
  "spin_signs milli = spin_signs_from 0 milli"

subsection \<open>One value: encoding and decoding\<close>

lemma trunc_div_exact: "trunc_div (k * 1000) 1000 = k"
  by (cases k rule: linorder_cases [of _ 0]) (simp_all add: trunc_div_def abs_mult sgn_mult)

lemma trunc_rem_exact: "trunc_rem (k * 1000) 1000 = 0"
  by (simp add: trunc_rem_def trunc_div_exact)

lemma unat_as_u32: "0 \<le> d \<Longrightarrow> nat d < 2 ^ 32 \<Longrightarrow> unat (as_u32 d) = nat d"
  by (simp add: as_u32_def unsigned_of_int take_bit_int_eq_self nat_less_iff)

lemma encode_value_ok:
  assumes v: "spec_valid spec" and a: "allows spec x" and x: "in_i32 x"
    and b: "bits_per_value spec = Inr b"
  shows "\<exists>raw. encode_value x spec = Inr raw \<and> unat raw < 2 ^ b \<and> decode_value spec raw = Inr x"
proof -
  have c: "value_count spec \<le> 2 ^ b" using bits_per_value_cases [OF b] v by (simp add: spec_valid_def)
  show ?thesis
  proof (cases spec)
    case (Set vals)
    with a obtain i where i: "position vals x = Some i"
      by (metis allows.simps(1) not_None_eq position_None_iff)
    then have "i < length vals" "vals ! i = x" by (simp_all add: position_Some)
    moreover have "b \<le> 8" using Set b v bits_per_value_cases [OF b]
      by (simp add: spec_valid_def MAX_INDEXED_BITS_def)
    ultimately have lt: "i < 2 ^ 8" using c Set
      by (metis (mono_tags, lifting) less_le_trans one_le_numeral power_increasing value_count.simps(1))
    then have "unat (of_nat i :: raw32) = i" by (simp add: unat_of_nat)
    with i \<open>i < length vals\<close> \<open>vals ! i = x\<close> c Set show ?thesis by simp
  next
    case (IntegerRange lo hi)
    with v have t: "in_i32 lo" "in_i32 hi" "lo \<le> hi"
      by (auto simp: spec_valid_def is_ok_iff Let_def split: if_splits)
    define k where "k = x div 1000"
    with a IntegerRange have k: "x = k * 1000" "lo \<le> k" "k \<le> hi"
      by (auto simp: MILLI_SCALE_def)
    have n: "nat (k - lo) < range_span lo hi" "nat (k - lo) < 2 ^ 32"
      using k range_span_bounds [OF t] by linarith+
    then have u: "unat (as_u32 (k - lo)) = nat (k - lo)" using k by (intro unat_as_u32) simp_all
    have "decode_value (IntegerRange lo hi) (as_u32 (k - lo)) = Inr x"
      using decode_integer_range [OF t, of "as_u32 (k - lo)"] n u k x by (simp add: Let_def)
    moreover have "encode_value x (IntegerRange lo hi) = Inr (as_u32 (k - lo))"
      using k by (simp add: MILLI_SCALE_def trunc_div_exact trunc_rem_exact)
    moreover have "nat (k - lo) < 2 ^ b" using c n(1) IntegerRange t by (simp add: range_span_eq)
    ultimately show ?thesis using IntegerRange u by (intro exI [of _ "as_u32 (k - lo)"]) simp
  next
    case (ContinuousRange lo hi)
    with b have "b = 32" by (auto split: if_splits)
    moreover have "unat (as_u32 x) < 2 ^ 32" using unsigned_less [of "as_u32 x"] by simp
    ultimately show ?thesis using ContinuousRange a x by (simp add: as_i32_as_u32 Let_def)
  qed
qed

subsection \<open>The bit layout of the indexed format\<close>

text \<open>
  \<open>filled b R n out\<close>: the buffer holds exactly the bits of the first \<open>n\<close> raw values, value \<open>i\<close> at
  the bit positions \<open>i * b\<close> to \<open>i * b + b - 1\<close>.
\<close>

definition filled :: "nat \<Rightarrow> (nat \<Rightarrow> raw32) \<Rightarrow> nat \<Rightarrow> bytes \<Rightarrow> bool" where
  "filled b R n out \<longleftrightarrow>
     (\<forall>p < 8 * length out. bit (out ! (p div 8)) (p mod 8) \<longleftrightarrow> p div b < n \<and> bit (R (p div b)) (p mod b))"

definition narrow :: "nat \<Rightarrow> (nat \<Rightarrow> raw32) \<Rightarrow> bool" where
  "narrow b R \<longleftrightarrow> (\<forall>i m. bit (R i) m \<longrightarrow> m < b)"

lemma bit_small: "unat (w :: 'a::len word) < 2 ^ b \<Longrightarrow> bit w m \<Longrightarrow> m < b"
proof -
  assume w: "unat w < 2 ^ b" and m: "bit w m"
  have "bit (unat w) m" using m by (simp add: bit_unsigned_iff)
  moreover have "unat w = take_bit b (unat w)" using w by (simp add: take_bit_nat_eq_self)
  ultimately show "m < b" by (metis bit_take_bit_iff)
qed

lemma length_write_raw [simp]: "length (write_raw b i raw out) = length out"
  by (simp add: write_raw_def Let_def)

lemma bit_write_raw:
  assumes "j < length out" "t < 8" "i * b div 8 < length out"
  shows "bit (write_raw b i raw out ! j) t \<longleftrightarrow>
    bit (out ! j) t \<or>
    (j = i * b div 8 \<and> bit (push_bit (i * b mod 8) raw) t) \<or>
    (j = i * b div 8 + 1 \<and> bit (push_bit (i * b mod 8) raw) (t + 8))"
proof -
  have m: "bit (ucast (and w 255) :: u8) t \<longleftrightarrow> bit w t" for w :: raw32
  proof -
    have "and w 255 = take_bit 8 w" by (simp add: take_bit_eq_mask mask_eq_exp_minus_1)
    then show ?thesis using assms(2) by (simp add: bit_simps)
  qed
  show ?thesis using assms
    by (auto simp: write_raw_def Let_def m bit_or_iff bit_drop_bit_eq nth_list_update add.commute)
qed

lemma div_eq_iff_window: "0 < b \<Longrightarrow> p div b = i \<longleftrightarrow> i * b \<le> p \<and> p < i * b + b" for b :: nat
  using div_times_less_eq_dividend [of p b] dividend_less_div_times [of b p]
  by (auto intro: div_nat_eqI simp: mult.commute add.commute)

lemma next_byte_offset:
  "p = 8 * (q + 1) + t \<Longrightarrow> n = 8 * q + r \<Longrightarrow> r < 8 \<Longrightarrow> p - n = t + 8 - r \<and> n \<le> p" for p :: nat
  by auto

lemma next_byte_bound: "8 \<le> r + m \<Longrightarrow> 8 * q + r + b \<le> 8 * l \<Longrightarrow> m < b \<Longrightarrow> q + 1 < l" for l :: nat
  by linarith

lemma byte_split:
  fixes n m :: nat
  assumes "m < 8"
  shows "(n + m) div 8 = (if n mod 8 + m < 8 then n div 8 else n div 8 + 1)"
    and "(n + m) mod 8 = (if n mod 8 + m < 8 then n mod 8 + m else n mod 8 + m - 8)"
proof -
  define q r where "q = n div 8" and "r = n mod 8"
  then have n: "n = 8 * q + r" and r: "r < 8" by simp_all
  have m8: "(n + m) mod 8 = (r + m) mod 8" and d8: "(n + m) div 8 = q + (r + m) div 8"
    unfolding n add.assoc by simp_all
  show "(n + m) mod 8 = (if n mod 8 + m < 8 then n mod 8 + m else n mod 8 + m - 8)"
    using assms r unfolding m8 r_def [symmetric] by (auto simp: mod_if)
  show "(n + m) div 8 = (if n mod 8 + m < 8 then n div 8 else n div 8 + 1)"
    using assms r unfolding d8 r_def [symmetric] q_def [symmetric] by (auto simp: div_if)
qed

lemma window_bits:
  assumes "0 < b" and "\<And>m. bit (r :: raw32) m \<Longrightarrow> m < b"
  shows "p div b = i \<and> bit r (p mod b) \<longleftrightarrow> i * b \<le> p \<and> bit r (p - i * b)"
proof -
  have "p mod b = p - i * b" if "i * b \<le> p" "p < i * b + b"
  proof -
    have "p div b = i" using div_eq_iff_window [OF assms(1), of p i] that by simp
    then show ?thesis by (metis minus_div_mult_eq_mod)
  qed
  then show ?thesis using assms div_eq_iff_window [OF assms(1), of p i]
    by (metis add.commute less_diff_conv2)
qed

lemma filled_step:
  assumes f: "filled b R i out" and r: "narrow b R" and b: "0 < b" "b \<le> 8"
    and len: "Suc i * b \<le> 8 * length out"
  shows "filled b R (Suc i) (write_raw b i (R i) out)"
  unfolding filled_def
proof (intro allI impI)
  fix p assume "p < 8 * length (write_raw b i (R i) out)"
  then have p: "p < 8 * length out" by simp
  let ?j = "p div 8" and ?t = "p mod 8" and ?o = "i * b"
  let ?new = "(?j = ?o div 8 \<and> bit (push_bit (?o mod 8) (R i)) ?t) \<or>
    (?j = ?o div 8 + 1 \<and> bit (push_bit (?o mod 8) (R i)) (?t + 8))"
  have j: "?j < length out" "?o div 8 < length out" using p len b by auto
  have nar: "bit (R i) m \<Longrightarrow> m < b" for m using r by (simp add: narrow_def)
  have "?new \<longleftrightarrow> ?o \<le> p \<and> bit (R i) (p - ?o)"
  proof -
    consider "?j < ?o div 8" | "?j = ?o div 8" | "?j = ?o div 8 + 1" | "?j > ?o div 8 + 1" by linarith
    then show ?thesis
    proof cases
      case 1
      then have "p < ?o" by (meson div_le_mono not_le)
      with 1 show ?thesis by simp
    next
      case 2
      have po: "p = 8 * (?o div 8) + ?t" "?o = 8 * (?o div 8) + ?o mod 8"
        using 2 by (metis mult_div_mod_eq)+
      then have "p - ?o = ?t - ?o mod 8" "?o \<le> p \<longleftrightarrow> ?o mod 8 \<le> ?t" by linarith+
      then show ?thesis using 2 by (auto simp: bit_push_bit_iff)
    next
      case 3
      have po: "p = 8 * (?o div 8 + 1) + ?t" "?o = 8 * (?o div 8) + ?o mod 8"
        using 3 by (metis mult_div_mod_eq)+
      have "p - ?o = ?t + 8 - ?o mod 8 \<and> ?o \<le> p" by (rule next_byte_offset [OF po]) simp
      then show ?thesis using 3 by (auto simp: bit_push_bit_iff)
    next
      case 4
      have po: "p = 8 * ?j + ?t" "?o = 8 * (?o div 8) + ?o mod 8" by (metis mult_div_mod_eq)+
      moreover have "?o mod 8 < 8" by simp
      ultimately have "p - ?o \<ge> 8" using 4 by linarith
      with nar b have "\<not> bit (R i) (p - ?o)" by (meson le_trans not_le)
      with 4 show ?thesis by simp
    qed
  qed
  moreover have "p div b < Suc i \<and> bit (R (p div b)) (p mod b) \<longleftrightarrow>
      (p div b < i \<and> bit (R (p div b)) (p mod b)) \<or> (p div b = i \<and> bit (R i) (p mod b))"
    by (auto simp: less_Suc_eq)
  moreover have "p div b = i \<and> bit (R i) (p mod b) \<longleftrightarrow> ?o \<le> p \<and> bit (R i) (p - ?o)"
    by (rule window_bits) (use b nar in simp_all)
  moreover have "bit (write_raw b i (R i) out ! ?j) ?t \<longleftrightarrow> bit (out ! ?j) ?t \<or> ?new"
    by (rule bit_write_raw) (use j in simp_all)
  ultimately show "bit (write_raw b i (R i) out ! ?j) ?t \<longleftrightarrow>
      p div b < Suc i \<and> bit (R (p div b)) (p mod b)"
    using f p unfolding filled_def by auto
qed

lemma filled_zero: "filled b R 0 (replicate n 0)"
  by (auto simp: filled_def)

lemma pack_indexed_loop_filled:
  assumes "\<And>k. k < length spins \<Longrightarrow> encode_value (spins ! k) spec = Inr (R (i + k))"
    and "narrow b R" and "0 < b" "b \<le> 8" and "(i + length spins) * b \<le> 8 * length out"
    and "filled b R i out"
  shows "\<exists>out'. pack_indexed_loop b spec i spins out = Inr out' \<and> length out' = length out \<and>
    filled b R (i + length spins) out'"
  using assms(1,5,6)
proof (induction spins arbitrary: i out)
  case (Cons spin spins)
  have e: "encode_value spin spec = Inr (R i)" using Cons.prems(1) [of 0] by simp
  have "Suc i * b \<le> (i + length (spin # spins)) * b" by (rule mult_le_mono1) simp
  then have f: "filled b R (Suc i) (write_raw b i (R i) out)"
    using Cons.prems(2) by (intro filled_step [OF Cons.prems(3) assms(2-4)]) linarith
  have "\<And>k. k < length spins \<Longrightarrow> encode_value (spins ! k) spec = Inr (R (Suc i + k))"
    using Cons.prems(1) [of "Suc _"] by simp
  with Cons.IH [OF this _ f] Cons.prems(2) e show ?case by simp
qed simp

lemma bit_read_raw:
  assumes "b \<le> 8" "m < 32"
  shows "bit (read_raw packed b i) m \<longleftrightarrow> m < b \<and>
    (if i * b mod 8 + m < 8 then bit (packed ! (i * b div 8)) (i * b mod 8 + m)
     else i * b div 8 + 1 < length packed \<and> bit (packed ! (i * b div 8 + 1)) (i * b mod 8 + m - 8))"
proof -
  define k where "k = i * b mod 8"
  define q where "q = i * b div 8"
  have k: "k < 8" by (simp add: k_def)
  have msk: "push_bit b 1 - 1 = (mask b :: raw32)" by (simp add: mask_eq_exp_minus_1 push_bit_eq_mult)
  have r: "read_raw packed b i = and (drop_bit k (or (ucast (packed ! q))
      (push_bit 8 (if q + 1 < length packed then ucast (packed ! (q + 1)) else 0)))) (mask b)"
    using assms(1) by (simp only: read_raw_def Let_def msk k_def q_def) simp
  show ?thesis unfolding r k_def [symmetric] q_def [symmetric]
    using assms k by (auto simp: bit_simps dest: bit_imp_le_length)
qed

lemma read_raw_filled:
  assumes f: "filled b R n packed" and r: "narrow b R" and b: "0 < b" "b \<le> 8"
    and len: "n * b \<le> 8 * length packed" and i: "i < n"
  shows "read_raw packed b i = R i"
proof (rule bit_word_eqI)
  fix m assume m32: "m < LENGTH(32)"
  let ?o = "i * b"
  have bound: "?o + b \<le> 8 * length packed"
  proof -
    have "Suc i * b \<le> n * b" using i by (intro mult_le_mono1) simp
    with len show ?thesis by simp
  qed
  show "bit (read_raw packed b i) m \<longleftrightarrow> bit (R i) m"
  proof (cases "m < b")
    case False
    then show ?thesis using r b m32 by (auto simp: bit_read_raw narrow_def)
  next
    case True
    then have "?o + m < 8 * length packed" "(?o + m) div b = i" "(?o + m) mod b = m"
      using bound b by simp_all
    then have win: "bit (packed ! ((?o + m) div 8)) ((?o + m) mod 8) \<longleftrightarrow> bit (R i) m"
      using f i unfolding filled_def by metis
    have nxt: "?o div 8 + 1 < length packed" if "8 \<le> ?o mod 8 + m"
      using next_byte_bound [of "?o mod 8" m "?o div 8" b "length packed"] that bound True by simp
    note byte_split [of m ?o]
    with win nxt True b show ?thesis using m32 by (auto simp: bit_read_raw)
  qed
qed

subsection \<open>Packing and unpacking whole solutions\<close>

lemma packed_solution_byte_len_eq:
  assumes "bits_per_value spec = Inr b" and "n * b + 7 \<le> usize_max"
  shows "packed_solution_byte_len n spec = Inr ((n * b + 7) div 8)"
  using assms by (simp add: packed_solution_byte_len_def sat_simps)

lemma pack_continuous_loop_step:
  assumes "length pre = i * 4" and "length post = length spins * 4"
  shows "pack_continuous_loop i spins (pre @ post) = pre @ concat (map be_i32 spins)"
  using assms
proof (induction spins arbitrary: i pre post)
  case (Cons spin spins)
  have "length (pre @ to_be_bytes (as_u32 spin)) = Suc i * 4" using Cons.prems by simp
  moreover have "length (drop 4 post) = length spins * 4" using Cons.prems by simp
  ultimately show ?case using Cons.IH [of "pre @ to_be_bytes (as_u32 spin)" "Suc i" "drop 4 post"] Cons.prems
    by (simp add: be_i32_def)
qed simp

lemma concat_be_i32_nth:
  "i < length xs \<Longrightarrow> j < 4 \<Longrightarrow> concat (map be_i32 xs) ! (i * 4 + j) = be_i32 (xs ! i) ! j"
proof (induction xs arbitrary: i)
  case (Cons x xs)
  then show ?case
    by (cases i) (simp_all add: nth_append)
qed simp

lemma length_concat_be_i32 [simp]: "length (concat (map be_i32 xs)) = length xs * 4"
  by (induction xs) simp_all

lemma decode_continuous_concat:
  assumes "\<And>x. x \<in> set spins \<Longrightarrow> decode_value spec (as_u32 x) = Inr x"
  shows "decode_continuous (concat (map be_i32 spins)) (length spins) spec = Inr spins"
proof -
  let ?p = "concat (map be_i32 spins)"
  have "from_be_bytes (?p ! (i * 4)) (?p ! (i * 4 + 1)) (?p ! (i * 4 + 2)) (?p ! (i * 4 + 3)) =
      as_u32 (spins ! i)" if "i < length spins" for i
    using that concat_be_i32_nth [OF that, of 0] concat_be_i32_nth [OF that, of 1]
      concat_be_i32_nth [OF that, of 2] concat_be_i32_nth [OF that, of 3]
    by (intro from_to_be_bytes) (auto simp: be_i32_def to_be_bytes_def)
  then have "decode_continuous ?p (length spins) spec = Inr (map ((!) spins) [0..<length spins])"
    unfolding decode_continuous_def Let_def
    by (intro collect_res_ok) (use assms in \<open>auto simp: Let_def\<close>)
  then show ?thesis by (simp add: map_nth)
qed

lemma pack_indexed_roundtrip:
  assumes b: "bits_per_value spec = Inr b" "0 < b" "b \<le> 8"
    and n: "length spins * b + 7 \<le> usize_max"
    and e: "\<And>x. x \<in> set spins \<Longrightarrow>
      \<exists>raw. encode_value x spec = Inr raw \<and> unat raw < 2 ^ b \<and> decode_value spec raw = Inr x"
  shows "\<exists>packed. pack_solution spins spec = Inr packed \<and> unpack_solution packed (length spins) spec = Inr spins"
proof -
  obtain enc where enc: "\<And>x. x \<in> set spins \<Longrightarrow>
      encode_value x spec = Inr (enc x) \<and> unat (enc x) < 2 ^ b \<and> decode_value spec (enc x) = Inr x"
    using e by metis
  define R where "R i = (if i < length spins then enc (spins ! i) else 0)" for i
  have "unat (R i) < 2 ^ b" for i using enc [of "spins ! i"] by (simp add: R_def)
  then have nar: "narrow b R" unfolding narrow_def by (metis bit_small)
  let ?n = "length spins" and ?len = "(length spins * b + 7) div 8"
  have cap: "?n * b \<le> 8 * ?len" by linarith
  obtain packed where packed: "pack_indexed_loop b spec 0 spins (replicate ?len 0) = Inr packed"
    "length packed = ?len" "filled b R ?n packed"
    using pack_indexed_loop_filled [of spins spec R 0 b "replicate ?len 0"] enc nar b cap filled_zero
    by (auto simp: R_def)
  have "decode_indexed packed ?n b spec = Inr (map ((!) spins) [0..<?n])"
    unfolding decode_indexed_def
  proof (rule collect_res_ok)
    fix i assume "i \<in> set [0..<?n]"
    then show "decode_value spec (read_raw packed b i) = Inr (spins ! i)"
      using read_raw_filled [OF packed(3) nar b(2,3), of i] cap packed(2) enc by (simp add: R_def)
  qed
  then show ?thesis using b n packed
    by (simp add: pack_solution_def unpack_solution_def packed_solution_byte_len_eq map_nth)
qed

lemma pack_unpack_ok:
  assumes v: "spec_valid spec" and a: "list_all (allows spec) spins" "list_all in_i32 spins"
    and n: "length spins * 32 + 7 \<le> usize_max"
  shows "\<exists>packed. pack_solution spins spec = Inr packed \<and> unpack_solution packed (length spins) spec = Inr spins"
proof -
  obtain b where b: "bits_per_value spec = Inr b" using v by (auto simp: spec_valid_def is_ok_iff)
  have e: "\<exists>raw. encode_value x spec = Inr raw \<and> unat raw < 2 ^ b \<and> decode_value spec raw = Inr x"
    if "x \<in> set spins" for x
    using encode_value_ok [OF v _ _ b, of x] that a by (simp add: list_all_iff)
  have bc: "1 \<le> b" "b \<le> 8 \<or> (b = 32 \<and> (\<exists>lo hi. spec = ContinuousRange lo hi))"
    using bits_per_value_cases [OF b] v
    by (auto simp: spec_valid_def MAX_INDEXED_BITS_def split: allowed_value_spec.splits)
  show ?thesis
  proof (cases "b \<le> 8")
    case True
    have "length spins * b \<le> length spins * 32" using True by simp
    with n have "length spins * b + 7 \<le> usize_max" by linarith
    with b bc True e show ?thesis by (intro pack_indexed_roundtrip) auto
  next
    case False
    with bc obtain lo hi where s: "spec = ContinuousRange lo hi" "b = 32" by auto
    have d: "decode_value spec (as_u32 x) = Inr x" if "x \<in> set spins" for x
      using e [OF that] s by (auto split: if_splits)
    have len: "packed_solution_byte_len (length spins) spec = Inr (length spins * 4)"
      using packed_solution_byte_len_eq [OF b] n s by simp
    have "pack_solution spins spec = Inr (concat (map be_i32 spins))"
      using pack_continuous_loop_step [of "[]" 0 "replicate (length spins * 4) 0" spins] b s len
      by (simp add: pack_solution_def)
    then show ?thesis using decode_continuous_concat [OF d] b s len
      by (simp add: unpack_solution_def)
  qed
qed

text \<open>
  C37: packing a solution whose values the specification allows succeeds, and unpacking the packed
  bytes for the same number of spins gives the solution back, for every valid specification and every
  length whose bits a \<open>usize\<close> can count.
\<close>

theorem pack_unpack_roundtrip:
  assumes v: "spec_valid spec" and a: "list_all (allows spec) spins" "list_all in_i32 spins"
    and n: "length spins * 32 + 7 \<le> usize_max"
  shows "\<exists>packed. pack_solution spins spec = Inr packed \<and> unpack_solution packed (length spins) spec = Inr spins"
  using assms by (rule pack_unpack_ok)

text \<open>Whatever bytes are submitted, an accepted unpacking has one allowed value per spin.\<close>

lemma unpack_solution_sound:
  assumes v: "spec_valid spec" and u: "unpack_solution packed n spec = Inr spins"
  shows "length spins = n \<and> list_all (allows spec) spins \<and> list_all in_i32 spins"
proof -
  consider "decode_continuous packed n spec = Inr spins"
    | b where "decode_indexed packed n b spec = Inr spins"
    using u by (auto simp: unpack_solution_def split: if_splits)
  then show ?thesis
  proof cases
    case 1
    have "\<exists>raw. decode_value spec raw = Inr x" if "x \<in> set spins" for x
      using collect_res_set [OF 1 [unfolded decode_continuous_def] that]
      by (auto simp: Let_def split: if_splits)
    then show ?thesis using puzzle_values.decode_allowed [OF v] collect_res_length [OF 1 [unfolded decode_continuous_def]]
      by (auto simp: list_all_iff)
  next
    case 2
    then show ?thesis using puzzle_values.decode_all_allowed [OF v, of "read_raw packed b"]
        collect_res_length [OF 2 [unfolded decode_indexed_def]]
      by (auto simp: list_all_iff decode_indexed_def)
  qed
qed

lemma unpack_solution_length_error:
  assumes "bits_per_value spec = Inr b" and "n * b + 7 \<le> usize_max"
    and "length packed \<noteq> (n * b + 7) div 8"
  shows "unpack_solution packed n spec =
    Inl (PackedSolutionLengthMismatch ((n * b + 7) div 8) (length packed))"
  using assms by (simp add: unpack_solution_def packed_solution_byte_len_eq)

subsection \<open>The wire format, read off the bytes\<close>

text \<open>
  What bytes stand for, independently of the decoder: bit \<open>m\<close> of value \<open>i\<close> is bit \<open>i * b + m\<close> of the byte string,
  and the number so written selects a value of the specification; a continuous range takes big-endian numbers.
\<close>

definition wire_value :: "bytes \<Rightarrow> nat \<Rightarrow> nat \<Rightarrow> nat" where
  "wire_value packed b i =
     horner_sum of_bool 2 (map (\<lambda>m. bit (packed ! ((i * b + m) div 8)) ((i * b + m) mod 8)) [0..<b])"

fun carries :: "allowed_value_spec \<Rightarrow> nat \<Rightarrow> bytes \<Rightarrow> nat \<Rightarrow> i32 \<Rightarrow> bool" where
  "carries (Set vals) b packed i v \<longleftrightarrow> wire_value packed b i < length vals \<and> v = vals ! wire_value packed b i"
| "carries (IntegerRange lo hi) b packed i v \<longleftrightarrow>
     v = (lo + int (wire_value packed b i)) * 1000 \<and> lo + int (wire_value packed b i) \<le> hi"
| "carries (ContinuousRange lo hi) b packed i v \<longleftrightarrow>
     v = as_i32 (from_be_bytes (packed ! (i * 4)) (packed ! (i * 4 + 1)) (packed ! (i * 4 + 2)) (packed ! (i * 4 + 3))) \<and>
     lo \<le> v \<and> v \<le> hi"

definition encodes_solution :: "allowed_value_spec \<Rightarrow> bytes \<Rightarrow> i32 list \<Rightarrow> bool" where
  "encodes_solution spec packed vals \<longleftrightarrow>
     (\<exists>b. bits_per_value spec = Inr b \<and> length packed = (length vals * b + 7) div 8 \<and>
        (\<forall>i < length vals. carries spec b packed i (vals ! i)))"

lemma unat_read_raw:
  assumes b: "0 < b" "b \<le> 8" and len: "i * b + b \<le> 8 * length packed"
  shows "unat (read_raw packed b i) = wire_value packed b i"
proof -
  let ?r = "read_raw packed b i" and ?o = "i * b"
  have win: "bit ?r m \<longleftrightarrow> bit (packed ! ((?o + m) div 8)) ((?o + m) mod 8)" if "m < b" for m
  proof -
    have "?o div 8 + 1 < length packed" if "8 \<le> ?o mod 8 + m"
      using next_byte_bound [of "?o mod 8" m "?o div 8" b "length packed"] that len \<open>m < b\<close> by simp
    then show ?thesis using byte_split [of m ?o] that b by (auto simp: bit_read_raw)
  qed
  have "m < b" if "bit ?r m" for m
    using that b bit_read_raw [of b m packed i] bit_imp_le_length [OF that] by simp
  then have "take_bit b ?r = ?r" by (intro bit_word_eqI) (auto simp: bit_take_bit_iff)
  then have "unat ?r = take_bit b (unat ?r)" by (metis unsigned_take_bit_eq)
  also have "\<dots> = horner_sum of_bool 2 (map (bit (unat ?r)) [0..<b])" by (simp add: horner_sum_bit_eq_take_bit)
  also have "map (bit (unat ?r)) [0..<b] = map (\<lambda>m. bit (packed ! ((?o + m) div 8)) ((?o + m) mod 8)) [0..<b]"
    using win by (auto simp: bit_unsigned_iff dest: bit_imp_le_length)
  finally show ?thesis by (simp add: wire_value_def)
qed

lemma decode_value_carries:
  assumes v: "spec_valid spec" and d: "decode_value spec (read_raw packed b i) = Inr x"
    and u: "unat (read_raw packed b i) = wire_value packed b i" and c: "\<nexists>lo hi. spec = ContinuousRange lo hi"
  shows "carries spec b packed i x"
proof (cases spec)
  case (IntegerRange lo hi)
  with v have t: "in_i32 lo" "in_i32 hi" "lo \<le> hi"
    by (auto simp: spec_valid_def is_ok_iff Let_def split: if_splits)
  have r: "unat (read_raw packed b i) < range_span lo hi" using d IntegerRange by (auto split: if_splits)
  then have "x = (lo + int (wire_value packed b i)) * 1000"
    using d IntegerRange decode_integer_range [OF t r] u by (auto simp: Let_def split: if_splits)
  moreover have "lo + int (wire_value packed b i) \<le> hi" using r u range_span_bounds(3) [OF t] by linarith
  ultimately show ?thesis using IntegerRange by simp
qed (use d u c in \<open>auto split: if_splits\<close>)

lemma unpack_solution_encodes:
  assumes v: "spec_valid spec" and u: "unpack_solution packed n spec = Inr vals"
    and b: "bits_per_value spec = Inr b" and n: "n * b + 7 \<le> usize_max"
  shows "encodes_solution spec packed vals"
proof -
  have l: "length packed = (n * b + 7) div 8"
    using u b n by (auto simp: unpack_solution_def packed_solution_byte_len_eq split: if_splits)
  have bc: "1 \<le> b" "b \<le> 8 \<and> (\<nexists>lo hi. spec = ContinuousRange lo hi) \<or> (b = 32 \<and> (\<exists>lo hi. spec = ContinuousRange lo hi))"
    using bits_per_value_cases [OF b] v b
    by (auto simp: spec_valid_def MAX_INDEXED_BITS_def split: allowed_value_spec.splits if_splits)
  have len: "length vals = n" using unpack_solution_sound [OF v u] by blast
  have "carries spec b packed i (vals ! i)" if i: "i < n" for i
  proof (cases "b = 32")
    case True
    with bc obtain lo hi where s: "spec = ContinuousRange lo hi" by auto
    have "decode_continuous packed n spec = Inr vals"
      using u b n True by (auto simp: unpack_solution_def packed_solution_byte_len_eq split: if_splits)
    from collect_res_nth [OF this [unfolded decode_continuous_def], of i] i show ?thesis
      by (auto simp: s Let_def split: if_splits)
  next
    case False
    then have c: "b \<le> 8" "\<nexists>lo hi. spec = ContinuousRange lo hi" using bc by auto
    have "decode_indexed packed n b spec = Inr vals"
      using u b n False by (auto simp: unpack_solution_def packed_solution_byte_len_eq split: if_splits)
    from collect_res_nth [OF this [unfolded decode_indexed_def], of i] i
    have d: "decode_value spec (read_raw packed b i) = Inr (vals ! i)" by simp
    have "Suc i * b \<le> n * b" using i by (intro mult_le_mono1) simp
    then have "i * b + b \<le> 8 * length packed" using l by simp
    then show ?thesis using decode_value_carries [OF v d unat_read_raw c(2)] c(1) bc(1) by simp
  qed
  then show ?thesis using b l len by (auto simp: encodes_solution_def)
qed

text \<open>A length that was not cut off by saturation bounds the number of spins.\<close>

lemma packed_solution_byte_len_bound:
  assumes "packed_solution_byte_len n spec = Inr l" "bits_per_value spec = Inr b" "l \<le> m" "8 * m + 8 \<le> usize_max"
  shows "n * b + 7 \<le> usize_max \<and> n * b \<le> 8 * m"
proof -
  have l: "l = min usize_max (min usize_max (n * b) + 7) div 8"
    using assms(1,2) by (simp add: packed_solution_byte_len_def sat_add_def sat_mul_def)
  have "n * b + 7 \<le> usize_max"
  proof (rule ccontr)
    assume "\<not> ?thesis"
    then have "l = usize_max div 8" using l by (auto simp: min_def split: if_splits)
    then show False using assms(3,4) by linarith
  qed
  moreover from this have "l = (n * b + 7) div 8" using l by simp
  ultimately show ?thesis using assms(3) by linarith
qed

subsection \<open>Spin signs\<close>

lemma spin_signs_from_Inr:
  "spin_signs_from i vs = Inr ss \<longleftrightarrow> 0 \<notin> set vs \<and> ss = map sgn vs"
  by (induction i vs arbitrary: ss rule: spin_signs_from.induct) (auto simp: sgn_0_0)

lemma spin_signs_Inr: "spin_signs vs = Inr ss \<longleftrightarrow> 0 \<notin> set vs \<and> ss = map sgn vs"
  by (simp add: spin_signs_def spin_signs_from_Inr)

lemma spin_signs_valid: "spin_signs vs = Inr ss \<Longrightarrow> validate_spins ss \<and> length ss = length vs"
  by (auto simp: spin_signs_Inr validate_spins_def list_all_iff is_spin_def sgn_if)

theorem pack_unpack_roundtrip_witness:
  "\<exists>packed. pack_solution [1000, -1000, 1000] (Set [-1000, 1000]) = Inr packed \<and>
     unpack_solution packed (length [1000::int, -1000, 1000]) (Set [-1000, 1000]) = Inr [1000, -1000, 1000]"
proof (rule pack_unpack_roundtrip)
qed (simp_all add: spec_eval usize_max_def)

text \<open>
  whatever bytes a miner submits, an unpacking that succeeds yields exactly one value per spin,
  every value is allowed by the specification and fits an \<open>i32\<close>; bytes of any other length than the
  specification's are rejected with the length error.
\<close>

theorem unpack_solution_accepts_only_allowed:
  assumes "spec_valid spec" and "bits_per_value spec = Inr b" and "n * b + 7 \<le> usize_max"
  shows "(\<forall>spins. unpack_solution packed n spec = Inr spins \<longrightarrow>
      length packed = (n * b + 7) div 8 \<and> length spins = n \<and>
      list_all (allows spec) spins \<and> list_all in_i32 spins) \<and>
    (length packed \<noteq> (n * b + 7) div 8 \<longrightarrow> unpack_solution packed n spec =
      Inl (PackedSolutionLengthMismatch ((n * b + 7) div 8) (length packed)))"
  using unpack_solution_sound [OF assms(1)] unpack_solution_length_error [OF assms(2,3), of packed] by force

theorem unpack_solution_accepts_only_allowed_witness:
  "unpack_solution [5] 3 (Set [-1000, 1000]) = Inr [1000, -1000, 1000] \<and>
   unpack_solution [5, 0] 3 (Set [-1000, 1000]) = Inl (PackedSolutionLengthMismatch 1 2)"
proof -
  have h: "spec_valid (Set [-1000, 1000])" "bits_per_value (Set [-1000, 1000]) = Inr 1"
    "3 * 1 + 7 \<le> usize_max" by (simp_all add: spec_eval usize_max_def)
  have "unpack_solution [5] 3 (Set [-1000, 1000]) = Inr [1000, -1000, 1000]"
    using h(2) packed_solution_byte_len_eq [OF h(2,3)]
    by (simp add: unpack_solution_def decode_indexed_def read_raw_def upt_rec)
  with unpack_solution_accepts_only_allowed [OF h, of "[5, 0]"] show ?thesis by simp
qed

end
