(* ===== verification/Diversity.thy ===== *)
theory Diversity
  imports Validation_Base
begin

text \<open>
  \<open>crates/quantum-validation/src/diversity.rs\<close>: the symmetric Hamming distance, the diversity score of
  a solution set and the greedy farthest-point selection. The loops over index ranges are folds over
  \<open>[a..<b]\<close>, the selection's \<open>while\<close> a terminating function. A \<open>None\<close> result is a panic.
\<close>

subsection \<open>Operations\<close>

definition hamming_step :: "i8 \<times> i8 \<Rightarrow> u32 \<times> u32 \<Rightarrow> u32 \<times> u32" where
  "hamming_step ab acc =
     (let (lhs, rhs) = ab; (direct, inverted) = acc
      in (if lhs \<noteq> rhs then direct + 1 else direct, if lhs \<noteq> - rhs then inverted + 1 else inverted))"

definition symmetric_hamming_validated :: "i8 list \<Rightarrow> i8 list \<Rightarrow> u32" where
  "symmetric_hamming_validated a b =
     (let (direct, inverted) = fold hamming_step (zip a b) (0, 0) in min direct inverted)"

definition symmetric_hamming :: "i8 list \<Rightarrow> i8 list \<Rightarrow> validation_error + u32" where
  "symmetric_hamming a b =
     (if length a \<noteq> length b then Inl (SolutionLengthMismatch (length a) (length b))
      else and_then (ensure_valid_spins a) (\<lambda>_.
           and_then (ensure_valid_spins b) (\<lambda>_.
             Inr (symmetric_hamming_validated a b))))"

fun check_solutions :: "usize \<Rightarrow> i8 list list \<Rightarrow> validation_error + unit" where
  "check_solutions expected_len [] = Inr ()"
| "check_solutions expected_len (spins # rest) =
     (if length spins \<noteq> expected_len then Inl (SolutionLengthMismatch expected_len (length spins))
      else and_then (ensure_valid_spins spins) (\<lambda>_. check_solutions expected_len rest))"

definition ensure_valid_solution_inputs :: "i8 list list \<Rightarrow> validation_error + usize" where
  "ensure_valid_solution_inputs solutions =
     (let expected_len = length (solutions ! 0)
      in and_then (if \<not> validate_solution_set solutions expected_len
                   then check_solutions expected_len solutions else Inr ())
           (\<lambda>_. Inr expected_len))"

text \<open>The sums are 64-bit and wrap in a release build.\<close>

definition diversity_pair :: "i8 list list \<Rightarrow> usize \<Rightarrow> usize \<Rightarrow> u64 \<times> u64 \<Rightarrow> u64 \<times> u64" where
  "diversity_pair solutions i j acc =
     (let (total_distance, pair_count) = acc
      in ((total_distance + symmetric_hamming_validated (solutions ! i) (solutions ! j)) mod 2 ^ 64,
          (pair_count + 1) mod 2 ^ 64))"

definition diversity_totals :: "i8 list list \<Rightarrow> u64 \<times> u64" where
  "diversity_totals solutions =
     fold (\<lambda>i. fold (diversity_pair solutions i) [i + 1..<length solutions]) [0..<length solutions] (0, 0)"

definition calculate_diversity :: "i8 list list \<Rightarrow> (validation_error + u32) option" where
  "calculate_diversity solutions =
     (if length solutions < 2 then Some (Inr 0)
      else case ensure_valid_solution_inputs solutions of
        Inl e \<Rightarrow> Some (Inl e)
      | Inr expected_len \<Rightarrow>
          (let (total_distance, pair_count) = diversity_totals solutions
           in case checked_mul u64_max total_distance (nat MILLI_SCALE) of
                None \<Rightarrow> Some (Inl ArithmeticOverflow)
              | Some numerator \<Rightarrow>
                  (case checked_mul u64_max pair_count expected_len of
                     None \<Rightarrow> Some (Inl ArithmeticOverflow)
                   | Some denominator \<Rightarrow>
                       map_option (\<lambda>q. Inr (q mod 2 ^ 32)) (round_div_u64 numerator denominator))))"

definition set_distance :: "usize \<Rightarrow> usize \<Rightarrow> u32 \<Rightarrow> u32 list list \<Rightarrow> u32 list list" where
  "set_distance i j d m = m[i := (m ! i)[j := d]]"

definition pairwise_distances :: "i8 list list \<Rightarrow> u32 list list" where
  "pairwise_distances solutions =
     (let n = length solutions
      in fold (\<lambda>i. fold (\<lambda>j distances.
             let distance = symmetric_hamming_validated (solutions ! i) (solutions ! j)
             in set_distance j i distance (set_distance i j distance distances)) [i + 1..<n])
           [0..<n] (replicate n (replicate n 0)))"

definition farther_pair ::
    "u32 list list \<Rightarrow> usize \<Rightarrow> usize \<Rightarrow> (usize \<times> usize) \<times> u32 \<Rightarrow> (usize \<times> usize) \<times> u32" where
  "farther_pair distances i j acc =
     (let distance = distances ! i ! j in if distance > snd acc then ((i, j), distance) else acc)"

definition most_distant_pair :: "u32 list list \<Rightarrow> usize list" where
  "most_distant_pair distances =
     (let (best, best_distance) =
        fold (\<lambda>i. fold (farther_pair distances i) [i + 1..<length (distances ! i)])
          [0..<length distances] ((0, 1), distances ! 0 ! 1)
      in [fst best, snd best])"

text \<open>One scan for the unselected candidate that is farthest from the selection.\<close>

definition scan_candidate ::
    "bool list \<Rightarrow> u32 list \<Rightarrow> usize \<Rightarrow> usize option \<times> u32 \<Rightarrow> usize option \<times> u32" where
  "scan_candidate is_selected min_distance candidate acc =
     (let (best_index, best_min_distance) = acc
      in if is_selected ! candidate then acc
         else if best_index = None \<or> min_distance ! candidate > best_min_distance
         then (Some candidate, min_distance ! candidate)
         else acc)"

definition best_candidate :: "usize \<Rightarrow> bool list \<Rightarrow> u32 list \<Rightarrow> usize option" where
  "best_candidate n is_selected min_distance =
     fst (fold (scan_candidate is_selected min_distance) [0..<n] (None, 0))"

definition update_min_distance :: "u32 list list \<Rightarrow> bool list \<Rightarrow> usize \<Rightarrow> usize \<Rightarrow> u32 list \<Rightarrow> u32 list" where
  "update_min_distance distances is_selected index n min_distance =
     fold (\<lambda>candidate md.
        if \<not> is_selected ! candidate
        then md[candidate := min (md ! candidate) (distances ! candidate ! index)] else md)
       [0..<n] min_distance"

function select_loop ::
    "u32 list list \<Rightarrow> usize \<Rightarrow> usize \<Rightarrow> usize list \<Rightarrow> bool list \<Rightarrow> u32 list \<Rightarrow> usize list" where
  "select_loop distances n target_count selected is_selected min_distance =
     (if length selected < target_count then
        (case best_candidate n is_selected min_distance of
           Some index \<Rightarrow>
             let is_selected' = is_selected[index := True]
             in select_loop distances n target_count (selected @ [index]) is_selected'
                  (update_min_distance distances is_selected' index n min_distance)
         | None \<Rightarrow> selected)
      else selected)"
  by pat_completeness auto
termination
  by (relation "measure (\<lambda>(_, _, t, s, _, _). t - length s)") auto

declare select_loop.simps [simp del]

definition select_diverse :: "i8 list list \<Rightarrow> usize \<Rightarrow> validation_error + usize list" where
  "select_diverse solutions target_count =
     (if solutions = [] \<or> target_count = 0 then Inr []
      else and_then (ensure_valid_solution_inputs solutions) (\<lambda>_.
        let n = length solutions
        in if n \<le> target_count then Inr [0..<n]
           else if target_count = 1 then Inr [0]
           else
             let distances = pairwise_distances solutions;
                 selected = most_distant_pair distances;
                 is_selected = (replicate n False)[selected ! 0 := True, selected ! 1 := True];
                 min_distance = map (\<lambda>candidate.
                   min (distances ! candidate ! (selected ! 0)) (distances ! candidate ! (selected ! 1))) [0..<n]
             in Inr (select_loop distances n target_count selected is_selected min_distance)))"

subsection \<open>The symmetric Hamming distance\<close>

definition differing :: "i8 list \<Rightarrow> i8 list \<Rightarrow> nat" where
  "differing a b = length (filter (\<lambda>(x, y). x \<noteq> y) (zip a b))"

lemma fold_hamming_step:
  "fold hamming_step ps (d, i) =
     (d + length (filter (\<lambda>(x, y). x \<noteq> y) ps), i + length (filter (\<lambda>(x, y). x \<noteq> - y) ps))"
  by (induction ps arbitrary: d i) (auto simp: hamming_step_def)

lemma differing_simps [simp]:
  "differing [] b = 0" "differing a [] = 0"
  "differing (x # a) (y # b) = (if x = y then 0 else 1) + differing a b"
  by (simp_all add: differing_def)

lemma differing_le: "differing a b \<le> min (length a) (length b)"
  unfolding differing_def by (metis length_filter_le length_zip)

lemma differing_negated:
  assumes "length a = length b" "validate_spins a" "validate_spins b"
  shows "differing a (map uminus b) = length a - differing a b"
  using assms
proof (induction a b rule: list_induct2)
  case (Cons x a y b)
  have "differing a b \<le> length a" using differing_le [of a b] by simp
  with Cons show ?case by (auto simp: is_spin_def)
qed simp

lemma symmetric_hamming_validated_eq:
  assumes "length a = length b" "validate_spins a" "validate_spins b"
  shows "symmetric_hamming_validated a b = min (differing a b) (length a - differing a b)"
proof -
  have "zip a (map uminus b) = map (\<lambda>(x, y). (x, - y)) (zip a b)" by (simp add: zip_map2)
  then have "length (filter (\<lambda>(x, y). x \<noteq> - y) (zip a b)) = differing a (map uminus b)"
    by (simp add: differing_def filter_map comp_def case_prod_unfold)
  with differing_negated [OF assms] show ?thesis
    by (simp add: symmetric_hamming_validated_def fold_hamming_step differing_def)
qed

lemma differing_commute: "length a = length b \<Longrightarrow> differing a b = differing b a"
  by (induction a b rule: list_induct2) auto

lemma differing_triangle:
  "length a = length b \<Longrightarrow> length b = length c \<Longrightarrow> differing a c \<le> differing a b + differing b c"
  by (induction a b c rule: list_induct3) auto

lemma differing_flip_both: "differing (map uminus a) b = differing a (map uminus b)"
proof (induction a arbitrary: b)
  case (Cons x a)
  then show ?case by (cases b) auto
qed simp

lemma validate_spins_uminus [simp]: "validate_spins (map uminus a) = validate_spins a"
  by (induction a) (auto simp: is_spin_def)

lemma differing_triangle_flip:
  assumes "length a = length b" "length b = length c" "validate_spins a" "validate_spins b" "validate_spins c"
  shows "length a - differing a c \<le> differing a b + (length a - differing b c)"
    and "length a - differing a c \<le> (length a - differing a b) + differing b c"
    and "differing a c \<le> (length a - differing a b) + (length a - differing b c)"
proof -
  note neg = differing_negated [symmetric]
  show "length a - differing a c \<le> differing a b + (length a - differing b c)"
    using differing_triangle [of a b "map uminus c"] differing_negated [of a c] differing_negated [of b c]
      assms by simp
  show "length a - differing a c \<le> (length a - differing a b) + differing b c"
    using differing_triangle [of a "map uminus b" "map uminus c"] differing_negated [of a c]
      differing_negated [of a b] differing_flip_both [of b "map uminus c"] assms by (simp add: comp_def)
  show "differing a c \<le> (length a - differing a b) + (length a - differing b c)"
    using differing_triangle [of a "map uminus b" c] differing_flip_both [of b c]
      differing_negated [of a b] differing_negated [of b c] assms by simp
qed

text \<open>It is a pseudometric on spin assignments that identifies a solution with its global flip.\<close>

lemma hamming_sym:
  "length a = length b \<Longrightarrow> validate_spins a \<Longrightarrow> validate_spins b \<Longrightarrow>
     symmetric_hamming_validated a b = symmetric_hamming_validated b a"
  by (simp add: symmetric_hamming_validated_eq differing_commute)

lemma hamming_half:
  assumes "length a = length b" "validate_spins a" "validate_spins b"
  shows "2 * symmetric_hamming_validated a b \<le> length a"
  using differing_le [of a b] unfolding symmetric_hamming_validated_eq [OF assms] assms(1) by linarith

lemma hamming_flip:
  assumes "length a = length b" "validate_spins a" "validate_spins b"
  shows "symmetric_hamming_validated a (map uminus b) = symmetric_hamming_validated a b"
  using assms differing_le [of a b] differing_negated [OF assms]
  by (simp add: symmetric_hamming_validated_eq min.commute)

lemma differing_zero_iff: "length a = length b \<Longrightarrow> differing a b = 0 \<longleftrightarrow> a = b"
  by (induction a b rule: list_induct2) auto

lemma hamming_zero_iff:
  assumes "length a = length b" "validate_spins a" "validate_spins b"
  shows "symmetric_hamming_validated a b = 0 \<longleftrightarrow> a = b \<or> a = map uminus b"
proof -
  have "symmetric_hamming_validated a b = min (differing a b) (differing a (map uminus b))"
    using assms by (simp add: symmetric_hamming_validated_eq differing_negated)
  also have "\<dots> = 0 \<longleftrightarrow> differing a b = 0 \<or> differing a (map uminus b) = 0"
    by (auto simp: min_def)
  also have "\<dots> \<longleftrightarrow> a = b \<or> a = map uminus b" using assms by (simp add: differing_zero_iff)
  finally show ?thesis .
qed

lemma hamming_triangle:
  assumes "length a = length b" "length b = length c" "validate_spins a" "validate_spins b" "validate_spins c"
  shows "symmetric_hamming_validated a c \<le> symmetric_hamming_validated a b + symmetric_hamming_validated b c"
proof -
  have eqs: "symmetric_hamming_validated a c = min (differing a c) (length a - differing a c)"
    "symmetric_hamming_validated a b = min (differing a b) (length a - differing a b)"
    "symmetric_hamming_validated b c = min (differing b c) (length a - differing b c)"
    using assms by (simp_all add: symmetric_hamming_validated_eq)
  show ?thesis unfolding eqs
    using differing_triangle [OF assms(1,2)] differing_triangle_flip [OF assms] by linarith
qed

subsection \<open>Validation of the inputs\<close>

lemma check_solutions_iff:
  "check_solutions n ss = Inr u \<longleftrightarrow> validate_solution_set ss n"
  by (induction n ss rule: check_solutions.induct) (auto simp: validate_solution_set_def)

lemma ensure_valid_solution_inputs_iff:
  "ensure_valid_solution_inputs ss = Inr n \<longleftrightarrow>
     n = length (ss ! 0) \<and> validate_solution_set ss (length (ss ! 0))"
  by (auto simp: ensure_valid_solution_inputs_def check_solutions_iff Let_def)

subsection \<open>The diversity score\<close>

definition pair_distances :: "i8 list list \<Rightarrow> nat" where
  "pair_distances ss =
     sum_list (map (\<lambda>(i, j). symmetric_hamming_validated (ss ! i) (ss ! j)) (index_pairs (length ss)))"

lemma fold_diversity_pair:
  "t < 2 ^ 64 \<Longrightarrow> p < 2 ^ 64 \<Longrightarrow>
   fold (\<lambda>(i, j). diversity_pair ss i j) ps (t, p) =
     ((t + sum_list (map (\<lambda>(i, j). symmetric_hamming_validated (ss ! i) (ss ! j)) ps)) mod 2 ^ 64,
      (p + length ps) mod 2 ^ 64)"
proof (induction ps arbitrary: t p)
  case (Cons ij ps)
  obtain i j where ij: "ij = (i, j)" by (cases ij)
  let ?d = "symmetric_hamming_validated (ss ! i) (ss ! j)"
  have "fold (\<lambda>(i, j). diversity_pair ss i j) (ij # ps) (t, p) =
      fold (\<lambda>(i, j). diversity_pair ss i j) ps ((t + ?d) mod 2 ^ 64, (p + 1) mod 2 ^ 64)"
    by (simp add: ij diversity_pair_def)
  also have "\<dots> = (((t + ?d) mod 2 ^ 64 + sum_list (map (\<lambda>(i, j). symmetric_hamming_validated (ss ! i) (ss ! j)) ps)) mod 2 ^ 64,
      ((p + 1) mod 2 ^ 64 + length ps) mod 2 ^ 64)"
    by (rule Cons.IH) simp_all
  also have "\<dots> = ((t + ?d + sum_list (map (\<lambda>(i, j). symmetric_hamming_validated (ss ! i) (ss ! j)) ps)) mod 2 ^ 64,
      (p + 1 + length ps) mod 2 ^ 64)"
    by (simp only: mod_add_left_eq)
  finally show ?case by (simp add: ij add.assoc)
qed simp

lemma diversity_totals_eq:
  "diversity_totals ss = (pair_distances ss mod 2 ^ 64, length (index_pairs (length ss)) mod 2 ^ 64)"
  using fold_diversity_pair [of 0 0 ss "index_pairs (length ss)"]
  unfolding diversity_totals_def fold_index_pairs pair_distances_def by simp

lemma pair_distances_bound:
  assumes "validate_solution_set ss n"
  shows "2 * pair_distances ss \<le> length (index_pairs (length ss)) * n"
proof -
  have "2 * sum_list (map (\<lambda>(i, j). symmetric_hamming_validated (ss ! i) (ss ! j)) ps) \<le> length ps * n"
    if "set ps \<subseteq> {(i, j). i < length ss \<and> j < length ss}" for ps
    using that
  proof (induction ps)
    case (Cons ij ps)
    obtain i j where ij: "ij = (i, j)" "i < length ss" "j < length ss" using Cons.prems by (cases ij) auto
    then have "length (ss ! i) = n" "length (ss ! j) = n" "validate_spins (ss ! i)" "validate_spins (ss ! j)"
      using assms by (auto simp: validate_solution_set_iff)
    with hamming_half [of "ss ! i" "ss ! j"] Cons ij show ?case by simp
  qed simp
  moreover have "set (index_pairs (length ss)) \<subseteq> {(i, j). i < length ss \<and> j < length ss}" by auto
  ultimately show ?thesis unfolding pair_distances_def .
qed

lemma calculate_diversity_eq:
  assumes v: "validate_solution_set ss n" and s: "2 \<le> length ss" and n: "0 < n"
    and size: "length ss * length ss * n * 1000 < 2 ^ 64"
  defines "P \<equiv> length (index_pairs (length ss)) * n"
  shows "calculate_diversity ss = Some (Inr ((pair_distances ss * 1000 + P div 2) div P))"
    and "(pair_distances ss * 1000 + P div 2) div P \<le> 500"
proof -
  let ?p = "length (index_pairs (length ss))" and ?t = "pair_distances ss"
  have p2: "2 * ?p = length ss * (length ss - 1)" by (rule length_index_pairs)
  have "2 * ?p * n * 1000 \<le> length ss * length ss * n * 1000"
    unfolding p2 by (intro mult_le_mono) simp_all
  moreover have "2 * ?p * n * 1000 = 2 * P * 1000" by (simp add: P_def)
  ultimately have P: "2 * P * 1000 < 2 ^ 64" using size by linarith
  have "?p \<noteq> 0" using p2 s by auto
  then have P0: "0 < P" using n by (simp add: P_def)
  have tP: "2 * ?t \<le> P" using pair_distances_bound [OF v] by (simp add: P_def)
  have pP: "?p \<le> P" using n by (simp add: P_def)
  have "ss ! 0 \<in> set ss" using s by (cases ss) auto
  then have "length (ss ! 0) = n" using v by (simp add: validate_solution_set_iff)
  then have e: "ensure_valid_solution_inputs ss = Inr n"
    using v by (simp add: ensure_valid_solution_inputs_iff)
  have small: "?t < 2 ^ 64" "?p < 2 ^ 64" "?t * 1000 \<le> u64_max" "P \<le> u64_max"
    "?t * 1000 + P div 2 < 2 ^ 64"
    using P tP pP by (simp_all add: u64_max_def)
  have "?t * 1000 + P div 2 \<le> P * 500 + P div 2" using tP by simp
  then have "(?t * 1000 + P div 2) div P \<le> (P * 500 + P div 2) div P" by (rule div_le_mono)
  also have "\<dots> = 500" using P0 by simp
  finally show le: "(?t * 1000 + P div 2) div P \<le> 500" .
  have "(?t * 1000 + P div 2) div P < 2 ^ 32" using le by (rule le_less_trans) simp
  with s e small P0 show "calculate_diversity ss = Some (Inr ((?t * 1000 + P div 2) div P))"
    by (simp add: calculate_diversity_def diversity_totals_eq checked_mul_def MILLI_SCALE_def
        round_div_u64_def P_def [symmetric])
qed

text \<open>
  The score, from the assignments themselves: the mean over all pairs of the number of spins in which two solutions
  differ, up to a flip of all spins, per spin in milli units and rounded half up.
\<close>

definition flip_distance :: "nat \<Rightarrow> i8 list \<Rightarrow> i8 list \<Rightarrow> nat" where
  "flip_distance n a b = min (differing a b) (n - differing a b)"

definition mean_distance :: "nat \<Rightarrow> i8 list list \<Rightarrow> nat" where
  "mean_distance n ss =
     (let pairs = index_pairs (length ss); P = length pairs * n
      in if length ss < 2 then 0
         else (sum_list (map (\<lambda>(i, j). flip_distance n (ss ! i) (ss ! j)) pairs) * 1000 + P div 2) div P)"

lemma calculate_diversity_mean:
  assumes v: "validate_solution_set ss n" and "0 < n" "length ss * length ss * n * 1000 < 2 ^ 64"
  shows "calculate_diversity ss = Some (Inr (mean_distance n ss))"
proof (cases "length ss < 2")
  case False
  have "symmetric_hamming_validated (ss ! i) (ss ! j) = flip_distance n (ss ! i) (ss ! j)"
    if "(i, j) \<in> set (index_pairs (length ss))" for i j
  proof -
    have "ss ! i \<in> set ss" "ss ! j \<in> set ss" using that by auto
    then show ?thesis using v symmetric_hamming_validated_eq [of "ss ! i" "ss ! j"]
      by (simp add: validate_solution_set_iff flip_distance_def)
  qed
  then have "pair_distances ss = sum_list (map (\<lambda>(i, j). flip_distance n (ss ! i) (ss ! j)) (index_pairs (length ss)))"
    unfolding pair_distances_def by (intro arg_cong [where f = sum_list] map_cong) auto
  then show ?thesis using calculate_diversity_eq(1) [OF v _ assms(2,3)] False by (simp add: mean_distance_def Let_def)
qed (simp add: calculate_diversity_def mean_distance_def)

lemma index_pairs_ne: "2 \<le> n \<Longrightarrow> 0 < length (index_pairs n)"
  using length_index_pairs [of n] by (cases "length (index_pairs n)") auto

lemma calculate_diversity_no_panic:
  assumes n: "0 < n" "\<And>s. s \<in> set ss \<Longrightarrow> length s = n" and len: "length ss \<le> u32_max"
  shows "calculate_diversity ss \<noteq> None"
proof (cases "length ss < 2")
  case False
  let ?p = "length (index_pairs (length ss))"
  have "length ss * (length ss - 1) \<le> u32_max * u32_max" using len by (intro mult_le_mono) simp_all
  then have "2 * ?p \<le> u32_max * u32_max" by (simp add: length_index_pairs)
  then have p: "?p mod 2 ^ 64 = ?p" by (simp add: u32_max_def)
  have "ss ! 0 \<in> set ss" using False by (cases ss) auto
  then have l: "length (ss ! 0) = n" by (rule n(2))
  have "0 < ?p" using False by (intro index_pairs_ne) simp
  with n(1) p l show ?thesis
    by (auto simp: calculate_diversity_def diversity_totals_eq round_div_u64_def checked_mul_def
        ensure_valid_solution_inputs_iff split: sum.splits option.splits)
qed (simp add: calculate_diversity_def)

subsection \<open>The distance matrix\<close>

definition is_matrix :: "nat \<Rightarrow> u32 list list \<Rightarrow> bool" where
  "is_matrix n m \<longleftrightarrow> length m = n \<and> (\<forall>i<n. length (m ! i) = n)"

lemma set_distance_matrix: "is_matrix n m \<Longrightarrow> is_matrix n (set_distance i j d m)"
  by (cases "i < n") (auto simp: is_matrix_def set_distance_def nth_list_update)

lemma set_distance_nth:
  "is_matrix n m \<Longrightarrow> i < n \<Longrightarrow> j < n \<Longrightarrow> a < n \<Longrightarrow> b < n \<Longrightarrow>
     set_distance i j d m ! a ! b = (if a = i \<and> b = j then d else m ! a ! b)"
  by (auto simp: is_matrix_def set_distance_def nth_list_update)

lemma set_distance_both:
  assumes "is_matrix n m" "i < n" "j < n"
  shows "is_matrix n (set_distance j i d (set_distance i j d m))"
    and "a < n \<Longrightarrow> b < n \<Longrightarrow> set_distance j i d (set_distance i j d m) ! a ! b =
      (if (a, b) = (i, j) \<or> (b, a) = (i, j) then d else m ! a ! b)"
proof -
  have m1: "is_matrix n (set_distance i j d m)" by (rule set_distance_matrix [OF assms(1)])
  then show "is_matrix n (set_distance j i d (set_distance i j d m))" by (rule set_distance_matrix)
  show "set_distance j i d (set_distance i j d m) ! a ! b =
      (if (a, b) = (i, j) \<or> (b, a) = (i, j) then d else m ! a ! b)" if "a < n" "b < n"
    using set_distance_nth [OF m1 assms(3,2) that, of d] set_distance_nth [OF assms that, of d]
    by (simp only: prod.inject split: if_split) blast
qed

lemma fold_set_distance:
  assumes "set ps \<subseteq> {(i, j). i < n \<and> j < n}" and "\<And>i j. f i j = f j i"
  defines "m \<equiv> fold (\<lambda>(i, j) m. set_distance j i (f i j) (set_distance i j (f i j) m)) ps
    (replicate n (replicate n 0))"
  shows "is_matrix n m \<and>
    (\<forall>a<n. \<forall>b<n. m ! a ! b = (if (a, b) \<in> set ps \<or> (b, a) \<in> set ps then f a b else 0))"
  using assms(1) unfolding m_def
proof (induction ps rule: rev_induct)
  case (snoc ij ps)
  obtain i j where ij: "ij = (i, j)" "i < n" "j < n" using snoc.prems by (cases ij) auto
  define M where "M = fold (\<lambda>(i, j) m. set_distance j i (f i j) (set_distance i j (f i j) m)) ps
    (replicate n (replicate n 0))"
  have M: "is_matrix n M"
    "\<forall>a<n. \<forall>b<n. M ! a ! b = (if (a, b) \<in> set ps \<or> (b, a) \<in> set ps then f a b else 0)"
    using snoc by (simp_all add: M_def)
  have "fold (\<lambda>(i, j) m. set_distance j i (f i j) (set_distance i j (f i j) m)) (ps @ [ij])
      (replicate n (replicate n 0)) = set_distance j i (f i j) (set_distance i j (f i j) M)"
    by (simp add: M_def ij)
  then show ?case
    using set_distance_both [OF M(1) ij(2,3), where d = "f i j"] M(2) assms(2) [of i j] ij(1) by auto
qed (simp add: is_matrix_def)

lemma pairwise_distances_spec:
  assumes "validate_solution_set ss n"
  shows "is_matrix (length ss) (pairwise_distances ss)"
    and "\<And>i j. i < length ss \<Longrightarrow> j < length ss \<Longrightarrow>
      pairwise_distances ss ! i ! j = (if i = j then 0 else symmetric_hamming_validated (ss ! i) (ss ! j))"
proof -
  define f where "f i j = symmetric_hamming_validated (ss ! min i j) (ss ! max i j)" for i j
  have fsym: "f i j = f j i" for i j by (simp add: f_def min.commute max.commute)
  let ?step = "\<lambda>g (i, j) m. set_distance j i (g i j) (set_distance i j (g i j) m)"
  have "pairwise_distances ss = fold (?step (\<lambda>i j. symmetric_hamming_validated (ss ! i) (ss ! j)))
      (index_pairs (length ss)) (replicate (length ss) (replicate (length ss) 0))"
    unfolding pairwise_distances_def Let_def fold_index_pairs by simp
  also have "\<dots> = fold (?step f) (index_pairs (length ss)) (replicate (length ss) (replicate (length ss) 0))"
    by (rule fold_cong) (auto simp: f_def min_def max_def)
  finally have eq: "pairwise_distances ss = \<dots>" .
  have spec: "is_matrix (length ss) (pairwise_distances ss) \<and> (\<forall>a<length ss. \<forall>b<length ss.
      pairwise_distances ss ! a ! b =
      (if (a, b) \<in> set (index_pairs (length ss)) \<or> (b, a) \<in> set (index_pairs (length ss)) then f a b else 0))"
    unfolding eq by (rule fold_set_distance) (auto simp: fsym)
  then show "is_matrix (length ss) (pairwise_distances ss)" by blast
  have hs: "symmetric_hamming_validated (ss ! i) (ss ! j) = symmetric_hamming_validated (ss ! j) (ss ! i)"
    if "i < length ss" "j < length ss" for i j
    using that assms by (intro hamming_sym) (auto simp: validate_solution_set_iff)
  fix i j assume ij: "i < length ss" "j < length ss"
  then show "pairwise_distances ss ! i ! j = (if i = j then 0 else symmetric_hamming_validated (ss ! i) (ss ! j))"
    using spec hs [OF ij] by (auto simp: f_def min_def max_def)
qed

subsection \<open>The first two selected solutions\<close>

lemma fold_farther_pair:
  assumes "fold (\<lambda>(i, j). farther_pair D i j) ps (b0, D ! fst b0 ! snd b0) = (b, d)"
  shows "d = D ! fst b ! snd b \<and> (b = b0 \<or> b \<in> set ps) \<and> D ! fst b0 ! snd b0 \<le> d \<and>
    (\<forall>(i, j) \<in> set ps. D ! i ! j \<le> d)"
  using assms
proof (induction ps arbitrary: b0)
  case (Cons ij ps)
  obtain i j where ij: "ij = (i, j)" by (cases ij)
  show ?case
  proof (cases "D ! i ! j > D ! fst b0 ! snd b0")
    case True
    then have "farther_pair D i j (b0, D ! fst b0 ! snd b0) = ((i, j), D ! i ! j)"
      by (simp add: farther_pair_def)
    with Cons.prems have "fold (\<lambda>(i, j). farther_pair D i j) ps ((i, j), D ! fst (i, j) ! snd (i, j)) = (b, d)"
      by (simp add: ij)
    from Cons.IH [OF this] True ij show ?thesis by auto
  next
    case False
    then have "farther_pair D i j (b0, D ! fst b0 ! snd b0) = (b0, D ! fst b0 ! snd b0)"
      by (simp add: farther_pair_def)
    with Cons.prems have "fold (\<lambda>(i, j). farther_pair D i j) ps (b0, D ! fst b0 ! snd b0) = (b, d)"
      by (simp add: ij)
    from Cons.IH [OF this] False ij show ?thesis by auto
  qed
qed auto

lemma most_distant_pair_spec:
  assumes "is_matrix n D" "2 \<le> n"
  shows "\<exists>a b. most_distant_pair D = [a, b] \<and> a < b \<and> b < n \<and>
    (\<forall>i j. i < j \<and> j < n \<longrightarrow> D ! i ! j \<le> D ! a ! b)"
proof -
  have rows: "fold (\<lambda>i. fold (farther_pair D i) [i + 1..<length (D ! i)]) [0..<length D] acc =
      fold (\<lambda>i. fold (farther_pair D i) [i + 1..<n]) [0..<n] acc" for acc
    using assms(1) by (intro fold_cong) (auto simp: is_matrix_def)
  obtain bp d where bd: "fold (\<lambda>(i, j). farther_pair D i j) (index_pairs n) ((0, 1), D ! 0 ! 1) = (bp, d)"
    by (cases "fold (\<lambda>(i, j). farther_pair D i j) (index_pairs n) ((0, 1), D ! 0 ! 1)")
  have "most_distant_pair D = [fst bp, snd bp]"
    unfolding most_distant_pair_def rows fold_index_pairs bd by simp
  moreover have "d = D ! fst bp ! snd bp \<and> (bp = (0, 1) \<or> bp \<in> set (index_pairs n)) \<and>
      (\<forall>(i, j) \<in> set (index_pairs n). D ! i ! j \<le> d)"
    using fold_farther_pair [of D "index_pairs n" "(0, 1)" bp d] bd by (metis fst_conv snd_conv)
  ultimately show ?thesis using assms(2) by (cases bp) auto
qed

subsection \<open>The greedy selection\<close>

lemma fold_scan_candidate:
  "(fold (scan_candidate sel md) [0..<k] (None, 0) = (None, 0) \<and> (\<forall>c<k. sel ! c)) \<or>
   (\<exists>b<k. fold (scan_candidate sel md) [0..<k] (None, 0) = (Some b, md ! b) \<and> \<not> sel ! b \<and>
      (\<forall>c<k. \<not> sel ! c \<longrightarrow> md ! c \<le> md ! b))"
proof (induction k)
  case (Suc k)
  have step: "fold (scan_candidate sel md) [0..<Suc k] (None, 0) =
      scan_candidate sel md k (fold (scan_candidate sel md) [0..<k] (None, 0))" by simp
  from Suc.IH show ?case
  proof (elim disjE conjE exE)
    assume "fold (scan_candidate sel md) [0..<k] (None, 0) = (None, 0)" "\<forall>c<k. sel ! c"
    then show ?thesis unfolding step by (auto simp: scan_candidate_def less_Suc_eq)
  next
    fix b assume "b < k" and f: "fold (scan_candidate sel md) [0..<k] (None, 0) = (Some b, md ! b)"
      and "\<not> sel ! b" "\<forall>c<k. \<not> sel ! c \<longrightarrow> md ! c \<le> md ! b"
    then show ?thesis unfolding step f
      by (cases "\<not> sel ! k \<and> md ! k > md ! b")
        (auto simp: scan_candidate_def less_Suc_eq intro: order_trans less_imp_le)
  qed
qed simp

lemma best_candidate_None: "best_candidate n sel md = None \<longleftrightarrow> (\<forall>c<n. sel ! c)"
  using fold_scan_candidate [where k = n and sel = sel and md = md] by (auto simp: best_candidate_def)

lemma best_candidate_Some:
  "best_candidate n sel md = Some b \<Longrightarrow>
     b < n \<and> \<not> sel ! b \<and> (\<forall>c<n. \<not> sel ! c \<longrightarrow> md ! c \<le> md ! b)"
  using fold_scan_candidate [where k = n and sel = sel and md = md] by (auto simp: best_candidate_def)

lemma update_min_distance_nth:
  assumes "length md = n" "c < n"
  shows "update_min_distance D sel index n md ! c =
    (if sel ! c then md ! c else min (md ! c) (D ! c ! index))"
  using assms nth_fold_update [of n md c "\<lambda>c. \<not> sel ! c" "\<lambda>c d. min d (D ! c ! index)"]
  by (simp add: update_min_distance_def)

lemma length_update_min_distance [simp]:
  "length (update_min_distance D sel index n md) = length md"
  unfolding update_min_distance_def by (rule length_fold_update)

text \<open>The distance of a candidate to the solutions selected so far.\<close>

definition nearest :: "u32 list list \<Rightarrow> usize list \<Rightarrow> usize \<Rightarrow> u32" where
  "nearest D selected c = Min ((\<lambda>s. D ! c ! s) ` set selected)"

definition selection_inv :: "u32 list list \<Rightarrow> nat \<Rightarrow> usize list \<Rightarrow> bool list \<Rightarrow> u32 list \<Rightarrow> bool" where
  "selection_inv D n selected is_selected min_distance \<longleftrightarrow>
     distinct selected \<and> selected \<noteq> [] \<and> set selected \<subseteq> {..<n} \<and>
     length is_selected = n \<and> (\<forall>c<n. is_selected ! c \<longleftrightarrow> c \<in> set selected) \<and>
     length min_distance = n \<and> (\<forall>c<n. c \<notin> set selected \<longrightarrow> min_distance ! c = nearest D selected c)"

text \<open>From position \<open>k\<close> on, every selected index is one of the farthest from its predecessors.\<close>

definition farthest_first :: "u32 list list \<Rightarrow> nat \<Rightarrow> nat \<Rightarrow> usize list \<Rightarrow> bool" where
  "farthest_first D n k selected \<longleftrightarrow>
     (\<forall>m. k \<le> m \<and> m < length selected \<longrightarrow>
       (\<forall>c<n. c \<notin> set (take m selected) \<longrightarrow>
          nearest D (take m selected) c \<le> nearest D (take m selected) (selected ! m)))"

lemma nearest_snoc: "selected \<noteq> [] \<Longrightarrow> nearest D (selected @ [i]) c = min (nearest D selected c) (D ! c ! i)"
  by (simp add: nearest_def min.commute)

lemma selection_inv_step:
  assumes "selection_inv D n selected sel md" "best_candidate n sel md = Some i"
  shows "selection_inv D n (selected @ [i]) (sel[i := True]) (update_min_distance D (sel[i := True]) i n md)"
  using assms best_candidate_Some [OF assms(2)]
  by (auto simp: selection_inv_def update_min_distance_nth nearest_snoc nth_list_update)

lemma select_loop_spec:
  assumes "selection_inv D n selected sel md" "length selected \<le> target" "target \<le> n"
  shows "\<exists>ext. select_loop D n target selected sel md = selected @ ext \<and>
    length (selected @ ext) = target \<and> distinct (selected @ ext) \<and> set (selected @ ext) \<subseteq> {..<n} \<and>
    farthest_first D n (length selected) (selected @ ext)"
  using assms
proof (induction D n target selected sel md rule: select_loop.induct)
  case (1 D n target selected sel md)
  note inv = "1.prems"(1)
  show ?case
  proof (cases "length selected < target")
    case False
    with 1 show ?thesis by (subst select_loop.simps) (auto simp: selection_inv_def farthest_first_def)
  next
    case True
    have "\<not> (\<forall>c<n. c \<in> set selected)"
    proof
      assume "\<forall>c<n. c \<in> set selected"
      then have "card {..<n} \<le> card (set selected)" by (intro card_mono) auto
      with True "1.prems" show False using card_length [of selected] by simp
    qed
    with inv obtain i where i: "best_candidate n sel md = Some i"
      using best_candidate_None [of n sel md] by (auto simp: selection_inv_def)
    let ?sel = "sel[i := True]"
    from "1.IH" [OF True i refl selection_inv_step [OF inv i]] True "1.prems" obtain ext where
      ext: "select_loop D n target (selected @ [i]) ?sel (update_min_distance D ?sel i n md) = (selected @ [i]) @ ext"
      "length ((selected @ [i]) @ ext) = target" "distinct ((selected @ [i]) @ ext)"
      "set ((selected @ [i]) @ ext) \<subseteq> {..<n}"
      "farthest_first D n (length (selected @ [i])) ((selected @ [i]) @ ext)" by auto
    have now: "nearest D selected c \<le> nearest D selected i" if "c < n" "c \<notin> set selected" for c
      using best_candidate_Some [OF i] inv that by (auto simp: selection_inv_def)
    have "farthest_first D n (length selected) (selected @ i # ext)"
      unfolding farthest_first_def
    proof (intro allI impI)
      fix m c assume m: "length selected \<le> m \<and> m < length (selected @ i # ext)"
        and c: "c < n" "c \<notin> set (take m (selected @ i # ext))"
      show "nearest D (take m (selected @ i # ext)) c \<le>
          nearest D (take m (selected @ i # ext)) ((selected @ i # ext) ! m)"
      proof (cases "m = length selected")
        case True
        with c now show ?thesis by simp
      next
        case False
        with m c ext(5) show ?thesis by (simp add: farthest_first_def)
      qed
    qed
    with ext True i show ?thesis
      by (subst select_loop.simps) (intro exI [of _ "i # ext"], simp add: Let_def)
  qed
qed

lemma selection_inv_start:
  assumes "a < b" "b < n"
  shows "selection_inv D n [a, b] ((replicate n False)[a := True, b := True])
    (map (\<lambda>c. min (D ! c ! a) (D ! c ! b)) [0..<n])"
  using assms by (auto simp: selection_inv_def nearest_def nth_list_update)

lemma select_diverse_cases:
  assumes "validate_solution_set ss (length (ss ! 0))"
  shows "\<exists>sel. select_diverse ss target = Inr sel \<and> distinct sel \<and> set sel \<subseteq> {..<length ss} \<and>
    length sel = min target (length ss)"
    and "2 \<le> target \<Longrightarrow> target < length ss \<Longrightarrow> \<exists>sel. select_diverse ss target = Inr sel \<and>
      (\<forall>i j. i < j \<and> j < length ss \<longrightarrow>
         pairwise_distances ss ! i ! j \<le> pairwise_distances ss ! (sel ! 0) ! (sel ! 1)) \<and>
      farthest_first (pairwise_distances ss) (length ss) 2 sel"
proof -
  let ?n = "length ss" and ?D = "pairwise_distances ss"
  have e: "ensure_valid_solution_inputs ss = Inr (length (ss ! 0))"
    using assms by (simp add: ensure_valid_solution_inputs_iff)
  have main: "\<exists>sel. select_diverse ss target = Inr sel \<and> distinct sel \<and> set sel \<subseteq> {..<?n} \<and>
      length sel = target \<and> farthest_first ?D ?n 2 sel \<and>
      (\<forall>i j. i < j \<and> j < ?n \<longrightarrow> ?D ! i ! j \<le> ?D ! (sel ! 0) ! (sel ! 1))"
    if t: "2 \<le> target" "target < ?n"
  proof -
    from most_distant_pair_spec [OF pairwise_distances_spec(1) [OF assms]] t obtain a b where
      ab: "most_distant_pair ?D = [a, b]" "a < b" "b < ?n"
      "\<forall>i j. i < j \<and> j < ?n \<longrightarrow> ?D ! i ! j \<le> ?D ! a ! b" by auto
    from select_loop_spec [OF selection_inv_start [OF ab(2,3), of ?D], of target] t obtain ext where
      ext: "select_loop ?D ?n target [a, b] ((replicate ?n False)[a := True, b := True])
        (map (\<lambda>c. min (?D ! c ! a) (?D ! c ! b)) [0..<?n]) = [a, b] @ ext"
      "length ([a, b] @ ext) = target" "distinct ([a, b] @ ext)" "set ([a, b] @ ext) \<subseteq> {..<?n}"
      "farthest_first ?D ?n 2 ([a, b] @ ext)" by (auto simp: numeral_2_eq_2)
    have "select_diverse ss target = Inr ([a, b] @ ext)"
      using t e ab(1) ext(1) by (auto simp: select_diverse_def Let_def)
    with ext ab(4) show ?thesis by (intro exI [of _ "[a, b] @ ext"]) auto
  qed
  show "\<exists>sel. select_diverse ss target = Inr sel \<and> distinct sel \<and> set sel \<subseteq> {..<?n} \<and>
      length sel = min target ?n"
  proof (cases "2 \<le> target \<and> target < ?n")
    case True
    with main show ?thesis by (auto simp: min_def)
  next
    case False
    then show ?thesis using e by (auto simp: select_diverse_def Let_def)
  qed
  show "\<exists>sel. select_diverse ss target = Inr sel \<and>
      (\<forall>i j. i < j \<and> j < ?n \<longrightarrow> ?D ! i ! j \<le> ?D ! (sel ! 0) ! (sel ! 1)) \<and> farthest_first ?D ?n 2 sel"
    if "2 \<le> target" "target < ?n" using main [OF that] by blast
qed

subsection \<open>Properties\<close>

text \<open>
  on spin assignments of one length the symmetric Hamming distance is symmetric, zero exactly
  between a solution and itself or its global flip, unchanged by flipping an argument, at most half
  the length, and satisfies the triangle inequality.
\<close>

theorem symmetric_hamming_pseudometric:
  assumes "length a = length b" "length b = length c"
    and "validate_spins a" "validate_spins b" "validate_spins c"
  defines "d \<equiv> symmetric_hamming_validated"
  shows "symmetric_hamming a b = Inr (d a b) \<and> d a b = d b a \<and> (d a b = 0 \<longleftrightarrow> a = b \<or> a = map uminus b) \<and>
    d a (map uminus b) = d a b \<and> 2 * d a b \<le> length a \<and> d a c \<le> d a b + d b c"
proof -
  have u: "ensure_valid_spins a = Inr ()" "ensure_valid_spins b = Inr ()" using assms by simp_all
  show ?thesis unfolding d_def symmetric_hamming_def u
    using hamming_sym [OF assms(1,3,4)] hamming_zero_iff [OF assms(1,3,4)] hamming_flip [OF assms(1,3,4)]
      hamming_half [OF assms(1,3,4)] hamming_triangle [OF assms(1-5)] assms(1) by simp
qed

theorem symmetric_hamming_pseudometric_witness:
  "symmetric_hamming [1, -1, 1] [-1, -1, 1] = Inr 1 \<and> symmetric_hamming_validated [1, -1, 1] [-1, 1, -1] = 0"
  using symmetric_hamming_pseudometric [of "[1, -1, 1]" "[-1, -1, 1]" "[1, 1, 1]"]
    symmetric_hamming_pseudometric [of "[1, -1, 1]" "[-1, 1, -1]" "[1, 1, 1]"]
  by (simp add: symmetric_hamming_validated_def hamming_step_def)

text \<open>
  the diversity score of at least two valid non-empty solutions is the mean pairwise distance per
  spin in milli units, rounded half up, never overflows for sizes below \<open>2 ^ 64 / 1000\<close> and is at most
  500: the documented maximum of 1000 is never reached.
\<close>

theorem diversity_at_most_half:
  assumes "validate_solution_set ss n" "2 \<le> length ss" "0 < n" "length ss * length ss * n * 1000 < 2 ^ 64"
  defines "P \<equiv> length (index_pairs (length ss)) * n"
  shows "calculate_diversity ss = Some (Inr ((pair_distances ss * 1000 + P div 2) div P)) \<and>
    (pair_distances ss * 1000 + P div 2) div P \<le> 500"
  using calculate_diversity_eq [OF assms(1-4)] unfolding P_def by simp

theorem diversity_at_most_half_witness:
  "calculate_diversity [[1, 1], [1, -1]] = Some (Inr 500)"
  using diversity_at_most_half [of "[[1, 1], [1, -1]]" 2]
  by (simp add: validate_solution_set_def pair_distances_def index_pairs_def upt_rec
      symmetric_hamming_validated_def hamming_step_def)

text \<open>
  on valid solutions the selection succeeds with pairwise different indices of the input, as many
  as requested or all of them; when it has a choice it starts with a pair of maximal distance and every
  further index is one whose distance to the indices chosen before it is maximal.
\<close>

theorem select_diverse_greedy:
  assumes "validate_solution_set ss (length (ss ! 0))"
  shows "\<exists>sel. select_diverse ss target = Inr sel \<and> distinct sel \<and> set sel \<subseteq> {..<length ss} \<and>
    length sel = min target (length ss) \<and>
    (2 \<le> target \<and> target < length ss \<longrightarrow>
      (\<forall>i j. i < j \<and> j < length ss \<longrightarrow> symmetric_hamming_validated (ss ! i) (ss ! j) \<le>
         pairwise_distances ss ! (sel ! 0) ! (sel ! 1)) \<and>
      farthest_first (pairwise_distances ss) (length ss) 2 sel)"
  using select_diverse_cases [OF assms, of target] pairwise_distances_spec(2) [OF assms] by fastforce

theorem select_diverse_greedy_witness:
  "\<exists>sel. select_diverse [[1, 1], [1, -1], [1, 1]] 2 = Inr sel \<and> distinct sel \<and> length sel = 2"
  using select_diverse_greedy [of "[[1, 1], [1, -1], [1, 1]]" 2] by (auto simp: validate_solution_set_def)

end
