(* ===== verification/Ising.thy ===== *)
theory Ising
  imports Puzzle_Spec
begin

text \<open>
  \<open>crates/quantum-validation/src/ising.rs\<close>: derivation of the puzzle nonce and of the Ising model from
  it. BLAKE3 and ChaCha8 are third-party code: the hash function and the generator (seeding and
  \<open>next_u32\<close>) are parameters. A \<open>U256\<close> is a natural number with its big-endian byte form.
\<close>

subsection \<open>Operations\<close>

record 'r rng_ops =
  from_seed :: "bytes \<Rightarrow> 'r"
  next_u32 :: "'r \<Rightarrow> u32 \<times> 'r"

definition u256_from_big_endian :: "bytes \<Rightarrow> nat" where
  "u256_from_big_endian bs = fold (\<lambda>b n. n * 256 + unat b) bs 0"

definition u256_to_big_endian :: "nat \<Rightarrow> bytes" where
  "u256_to_big_endian n = map (\<lambda>i. of_nat (n div 256 ^ (31 - i))) [0..<32]"

definition derive_nonce :: "(bytes \<Rightarrow> bytes) \<Rightarrow> bytes \<Rightarrow> bytes \<Rightarrow> bytes \<Rightarrow> nat" where
  "derive_nonce blake3 last_proof_block_hash miner salt =
     u256_from_big_endian (blake3 (last_proof_block_hash @ miner @ salt))"

fun sample_n ::
    "('r \<Rightarrow> u32 \<times> 'r) \<Rightarrow> allowed_value_spec \<Rightarrow> nat \<Rightarrow> 'r \<Rightarrow> validation_error + (i32 list \<times> 'r)" where
  "sample_n nxt spec 0 rng = Inr ([], rng)"
| "sample_n nxt spec (Suc n) rng =
     and_then (sample_value nxt spec rng) (\<lambda>(v, rng').
     and_then (sample_n nxt spec n rng') (\<lambda>(vs, rng'').
       Inr (v # vs, rng'')))"

definition legacy_h_error :: "validation_error \<Rightarrow> validation_error" where
  "legacy_h_error err = (case err of EmptyAllowedValues \<Rightarrow> EmptyFieldValues | other \<Rightarrow> other)"

definition generate_ising_model_indexed ::
    "'r rng_ops \<Rightarrow> nat \<Rightarrow> u32 list \<Rightarrow> (u32 \<times> u32) list \<Rightarrow> allowed_value_spec \<Rightarrow> allowed_value_spec \<Rightarrow>
     topology_index \<Rightarrow> validation_error + (i32 list \<times> i32 list)" where
  "generate_ising_model_indexed rng nonce nodes edges allowed_h allowed_j topology =
     (if nodes = [] then Inl EmptyNodes
      else and_then (map_err legacy_h_error (bits_per_value allowed_h)) (\<lambda>_.
      and_then (bits_per_value allowed_j) (\<lambda>_.
      if index_len topology \<noteq> length nodes
      then Inl (FieldLengthMismatch (length nodes) (index_len topology))
      else
        let g = from_seed rng (u256_to_big_endian nonce)
        in and_then (sample_n (next_u32 rng) allowed_h (length nodes) g) (\<lambda>(h, g').
           and_then (sample_n (next_u32 rng) allowed_j (length edges) g') (\<lambda>(j, _).
             Inr (h, j))))))"

definition generate_ising_model ::
    "'r rng_ops \<Rightarrow> nat \<Rightarrow> u32 list \<Rightarrow> (u32 \<times> u32) list \<Rightarrow> allowed_value_spec \<Rightarrow> allowed_value_spec \<Rightarrow>
     validation_error + (i32 list \<times> i32 list)" where
  "generate_ising_model rng nonce nodes edges allowed_h allowed_j =
     and_then (topology_index_new nodes edges)
       (generate_ising_model_indexed rng nonce nodes edges allowed_h allowed_j)"

text \<open>What the \<open>RngCore\<close> interface promises: \<open>next_u32\<close> returns a \<open>u32\<close>.\<close>

definition rng_typed :: "'r rng_ops \<Rightarrow> bool" where
  "rng_typed rng \<longleftrightarrow> (\<forall>g. fst (next_u32 rng g) \<le> u32_max)"

subsection \<open>The nonce keeps all 256 bits\<close>

lemma fold_big_endian:
  "fold (\<lambda>b n. n * 256 + unat b) bs a = a * 256 ^ length bs + fold (\<lambda>b n. n * 256 + unat b) bs 0"
  for bs :: bytes
proof (induction bs arbitrary: a)
  case (Cons b bs)
  show ?case using Cons.IH [of "a * 256 + unat b"] Cons.IH [of "unat b"]
    by (simp add: algebra_simps)
qed simp

lemma u256_from_big_endian_Cons:
  "u256_from_big_endian (b # bs) = unat b * 256 ^ length bs + u256_from_big_endian bs"
  using fold_big_endian [of bs "unat b"] by (simp add: u256_from_big_endian_def)

lemma u256_from_big_endian_less: "u256_from_big_endian bs < 256 ^ length bs"
proof (induction bs)
  case (Cons b bs)
  have "unat b < 256" using unsigned_less [of b] by simp
  then have "unat b + 1 \<le> 256" by simp
  then have "(unat b + 1) * 256 ^ length bs \<le> 256 * 256 ^ length bs" by (rule mult_le_mono1)
  then have "unat b * 256 ^ length bs + 256 ^ length bs \<le> 256 * 256 ^ length bs"
    by (simp only: distrib_right mult_1)
  with Cons.IH have "unat b * 256 ^ length bs + u256_from_big_endian bs < 256 * 256 ^ length bs"
    by linarith
  then show ?case by (simp add: u256_from_big_endian_Cons)
qed (simp add: u256_from_big_endian_def)

lemma u256_digit:
  "i < length bs \<Longrightarrow> of_nat (u256_from_big_endian bs div 256 ^ (length bs - 1 - i)) = bs ! i"
proof (induction bs arbitrary: i)
  case (Cons b bs)
  let ?r = "u256_from_big_endian bs"
  show ?case
  proof (cases i)
    case 0
    have "(unat b * 256 ^ length bs + ?r) div 256 ^ length bs = unat b"
      using u256_from_big_endian_less [of bs] by simp
    with 0 show ?thesis by (simp add: u256_from_big_endian_Cons)
  next
    case (Suc k)
    with Cons.prems have k: "k < length bs" by simp
    let ?e = "length bs - 1 - k"
    have "(256::nat) ^ length bs = 256 ^ ?e * (256 * 256 ^ k)"
      using k by (simp add: power_add [symmetric] flip: power_Suc)
    then have "unat b * 256 ^ length bs + ?r = 256 ^ ?e * (unat b * 256 * 256 ^ k) + ?r"
      by (simp add: algebra_simps)
    then have "(unat b * 256 ^ length bs + ?r) div 256 ^ ?e = unat b * 256 * 256 ^ k + ?r div 256 ^ ?e"
      by (simp only: div_mult_self4 [of "256 ^ ?e" "unat b * 256 * 256 ^ k" ?r]) simp
    moreover have "of_nat (unat b * 256 * 256 ^ k) = (0 :: u8)"
    proof -
      have z: "of_nat 256 = (0 :: u8)" by simp
      show ?thesis unfolding of_nat_mult z by simp
    qed
    ultimately show ?thesis using Cons.IH [OF k] Suc by (simp add: u256_from_big_endian_Cons)
  qed
qed simp

lemma u256_roundtrip:
  assumes "length bs = 32"
  shows "u256_to_big_endian (u256_from_big_endian bs) = bs"
proof (rule nth_equalityI)
  fix i assume "i < length (u256_to_big_endian (u256_from_big_endian bs))"
  then have "i < 32" by (simp add: u256_to_big_endian_def)
  with u256_digit [of i bs] assms show "u256_to_big_endian (u256_from_big_endian bs) ! i = bs ! i"
    by (simp add: u256_to_big_endian_def)
qed (simp add: u256_to_big_endian_def assms)

subsection \<open>The generated model\<close>

lemma sample_n_ok:
  assumes "spec_valid spec" and r: "\<And>g. fst (nxt g) \<le> u32_max"
  shows "\<exists>vs g'. sample_n nxt spec n g = Inr (vs, g') \<and> length vs = n \<and>
    list_all (allows spec) vs \<and> list_all in_i32 vs"
proof (induction n arbitrary: g)
  case (Suc n)
  from sample_value_allowed [of spec nxt g] assms obtain v where
    v: "sample_value nxt spec g = Inr (v, snd (nxt g))" "allows spec v" "in_i32 v"
    by (auto simp: spec_valid_def)
  with Suc.IH [of "snd (nxt g)"] show ?case by fastforce
qed simp

text \<open>
  on a well-formed topology and registered value specifications the puzzle generator never fails,
  whatever the nonce, and yields one field per node and one coupling per edge, all of them allowed by
  their specification.
\<close>

theorem generate_ising_model_ok:
  assumes "rng_typed rng" "spec_valid ah" "spec_valid aj"
    and "nodes \<noteq> []" "distinct nodes" "edges_known nodes edges"
  shows "\<exists>h j. generate_ising_model rng nonce nodes edges ah aj = Inr (h, j) \<and>
    length h = length nodes \<and> length j = length edges \<and>
    list_all (allows ah) h \<and> list_all (allows aj) j \<and> list_all in_i32 h \<and> list_all in_i32 j"
proof -
  from ti.new_ok_iff [of nodes edges] assms obtain ix where ix: "topology_index_new nodes edges = Inr ix"
    by (auto simp: is_ok_iff)
  have nx: "\<And>g. fst (next_u32 rng g) \<le> u32_max" using assms(1) by (simp add: rng_typed_def)
  let ?g = "from_seed rng (u256_to_big_endian nonce)"
  from sample_n_ok [of ah "next_u32 rng" "length nodes" ?g, OF assms(2) nx] obtain h g' where
    h: "sample_n (next_u32 rng) ah (length nodes) ?g = Inr (h, g')" "length h = length nodes"
    "list_all (allows ah) h" "list_all in_i32 h" by blast
  from sample_n_ok [of aj "next_u32 rng" "length edges" g', OF assms(3) nx] obtain j g'' where
    j: "sample_n (next_u32 rng) aj (length edges) g' = Inr (j, g'')" "length j = length edges"
    "list_all (allows aj) j" "list_all in_i32 j" by blast
  from assms obtain b c where "bits_per_value ah = Inr b" "bits_per_value aj = Inr c"
    by (auto simp: spec_valid_def is_ok_iff)
  with assms ix ti.len_new [OF ix] h(1) j(1) have "generate_ising_model rng nonce nodes edges ah aj = Inr (h, j)"
    by (simp add: generate_ising_model_def generate_ising_model_indexed_def)
  with h j show ?thesis by blast
qed

lemma generate_ising_model_Inr:
  assumes "generate_ising_model rng nonce nodes edges ah aj = Inr (h, j)"
  shows "nodes \<noteq> [] \<and> distinct nodes \<and> edges_known nodes edges \<and>
    is_ok (bits_per_value ah) \<and> is_ok (bits_per_value aj)"
proof -
  from assms obtain ix where ix: "topology_index_new nodes edges = Inr ix"
    "generate_ising_model_indexed rng nonce nodes edges ah aj ix = Inr (h, j)"
    by (auto simp: generate_ising_model_def)
  then have "distinct nodes" "edges_known nodes edges" using ti.new_ok_iff [of nodes edges] by auto
  moreover have "nodes \<noteq> []" "is_ok (bits_per_value ah)" "is_ok (bits_per_value aj)"
    using ix(2) by (auto simp: generate_ising_model_indexed_def is_ok_iff split: if_splits)
  ultimately show ?thesis by blast
qed

text \<open>Two nonces with the same digest bytes give the same puzzle, and the seed is the digest itself.\<close>

lemma generated_from_digest:
  assumes "length (blake3 (lpbh @ miner @ salt)) = 32"
  shows "generate_ising_model_indexed rng (derive_nonce blake3 lpbh miner salt) nodes edges ah aj ix =
    generate_ising_model_indexed (rng\<lparr>from_seed := \<lambda>_. from_seed rng (blake3 (lpbh @ miner @ salt))\<rparr>) 0
      nodes edges ah aj ix"
  using u256_roundtrip [OF assms] by (simp add: generate_ising_model_indexed_def derive_nonce_def)

theorem generate_ising_model_ok_witness:
  "\<exists>h j. generate_ising_model \<lparr>from_seed = (\<lambda>_. 0 :: nat), next_u32 = (\<lambda>n. (n mod 7, n + 1))\<rparr> 5 [0, 1] [(0, 1)]
       (Set [0]) (Set [-1000, 1000]) = Inr (h, j) \<and> length h = 2 \<and> length j = 1"
proof -
  have r: "rng_typed \<lparr>from_seed = (\<lambda>_. 0 :: nat), next_u32 = (\<lambda>n. (n mod 7, n + 1))\<rparr>"
    by (simp add: rng_typed_def u32_max_def, intro allI order_trans [OF less_imp_le [OF mod_less_divisor]]) simp_all
  have v: "spec_valid (Set [0])" "spec_valid (Set [-1000, 1000])" "edges_known [0, 1] [(0, 1)]" by (simp_all add: spec_eval edges_known_def)
  show ?thesis using generate_ising_model_ok [OF r v(1,2) _ _ v(3), of 5] by force
qed

end
