(* ===== verification/Energy.thy ===== *)
theory Energy
  imports Puzzle_Spec Complex_Main
begin

text \<open>
  \<open>crates/quantum-validation/src/energy.rs\<close>: the exact fixed-point Ising energy of a solution, and the
  expected ground-state energy that calibrates the difficulty. The accumulation loops keep the
  source's checked 64-bit additions.

  \<open>f64\<close> arithmetic is real arithmetic followed by a rounding function, which is a parameter (the
  record \<open>f64_ops\<close>, with the functions of the \<open>libm\<close> package the code calls); the theory
  says what it needs of it. Infinities and NaN do not arise from the finite inputs of this code.
\<close>

subsection \<open>Operations\<close>

definition validate_shape_lengths ::
    "i8 list \<Rightarrow> i32 list \<Rightarrow> (u32 \<times> u32) list \<Rightarrow> i32 list \<Rightarrow> usize \<Rightarrow> validation_error + unit" where
  "validate_shape_lengths solution h edges j node_count =
     (if node_count = 0 then Inl EmptyNodes
      else if length solution \<noteq> node_count then Inl (SolutionLengthMismatch node_count (length solution))
      else if length h \<noteq> node_count then Inl (FieldLengthMismatch node_count (length h))
      else if length edges \<noteq> length j then Inl (EdgeWeightLengthMismatch (length edges) (length j))
      else Inr ())"

text \<open>The two loops of \<open>energy_of_solution_indexed\<close>, on the running \<open>energy\<close>.\<close>

fun field_terms :: "i8 list \<Rightarrow> usize \<Rightarrow> i32 list \<Rightarrow> i64 \<Rightarrow> validation_error + i64" where
  "field_terms solution pos [] energy = Inr energy"
| "field_terms solution pos (field # h) energy =
     and_then (ok_or (checked_add_i64 energy (field * solution ! pos)) ArithmeticOverflow)
       (field_terms solution (Suc pos) h)"

fun coupling_terms ::
    "i8 list \<Rightarrow> topology_index \<Rightarrow> ((u32 \<times> u32) \<times> i32) list \<Rightarrow> i64 \<Rightarrow> validation_error + i64" where
  "coupling_terms solution topology [] energy = Inr energy"
| "coupling_terms solution topology (((u, v), coupling) # rest) energy =
     and_then (ok_or (index_position topology u) (UnknownNodeInEdge u)) (\<lambda>u_pos.
     and_then (ok_or (index_position topology v) (UnknownNodeInEdge v)) (\<lambda>v_pos.
     and_then (ok_or (checked_add_i64 energy (coupling * solution ! u_pos * solution ! v_pos))
                 ArithmeticOverflow)
       (coupling_terms solution topology rest)))"

definition energy_of_solution_indexed ::
    "i8 list \<Rightarrow> i32 list \<Rightarrow> (u32 \<times> u32) list \<Rightarrow> i32 list \<Rightarrow> topology_index \<Rightarrow> validation_error + i64" where
  "energy_of_solution_indexed solution h edges j topology =
     and_then (validate_shape_lengths solution h edges j (index_len topology)) (\<lambda>_.
     and_then (ensure_valid_spins solution) (\<lambda>_.
     and_then (field_terms solution 0 h 0)
       (coupling_terms solution topology (zip edges j))))"

definition energy_of_solution ::
    "i8 list \<Rightarrow> i32 list \<Rightarrow> (u32 \<times> u32) list \<Rightarrow> i32 list \<Rightarrow> u32 list \<Rightarrow> validation_error + i64" where
  "energy_of_solution solution h edges j nodes =
     and_then (validate_shape_lengths solution h edges j (length nodes)) (\<lambda>_.
     and_then (topology_index_new nodes edges)
       (energy_of_solution_indexed solution h edges j))"

subsection \<open>Expected ground-state energy\<close>

record f64_ops =
  rnd :: "real \<Rightarrow> real"
  sqrt_f64 :: "real \<Rightarrow> real"
  round_f64 :: "real \<Rightarrow> real"
  log_f64 :: "real \<Rightarrow> real"
  pow_f64 :: "real \<Rightarrow> real \<Rightarrow> real"

text \<open>\<open>x as i64\<close> for a float truncates towards zero and saturates.\<close>

definition f64_as_i64 :: "real \<Rightarrow> i64" where
  "f64_as_i64 x = clamp_i64 (if x \<ge> 0 then \<lfloor>x\<rfloor> else \<lceil>x\<rceil>)"

definition DEFAULT_H_ALPHA :: "f64_ops \<Rightarrow> real" where
  "DEFAULT_H_ALPHA fp = rnd fp (88 / 100)"

definition triangle :: "int \<Rightarrow> int" where
  "triangle k = k * (k + 1) div 2"

definition discrete_mean_abs :: "f64_ops \<Rightarrow> i64 \<Rightarrow> i64 \<Rightarrow> validation_error + real" where
  "discrete_mean_abs fp lo hi =
     (if hi < lo then Inl EmptyAllowedValues
      else if lo \<ge> 0 then Inr (rnd fp (rnd fp (of_int (lo + hi)) / 2))
      else if hi \<le> 0 then Inr (rnd fp (- rnd fp (of_int (lo + hi)) / 2))
      else let sum_abs = triangle (- lo) + triangle hi; span = hi - lo + 1
           in Inr (rnd fp (rnd fp (of_int sum_abs) / rnd fp (of_int span))))"

fun sum_abs_milli :: "f64_ops \<Rightarrow> i32 list \<Rightarrow> real \<Rightarrow> real" where
  "sum_abs_milli fp [] acc = acc"
| "sum_abs_milli fp (v # vs) acc = sum_abs_milli fp vs (rnd fp (acc + rnd fp (of_int \<bar>v\<bar>)))"

fun mean_abs_unit :: "f64_ops \<Rightarrow> allowed_value_spec \<Rightarrow> validation_error + real" where
  "mean_abs_unit fp (Set vals) =
     (if vals = [] then Inl EmptyAllowedValues
      else Inr (rnd fp (sum_abs_milli fp vals 0 /
                  rnd fp (rnd fp (of_nat (length vals)) * rnd fp (of_int MILLI_SCALE)))))"
| "mean_abs_unit fp (IntegerRange lo hi) = discrete_mean_abs fp lo hi"
| "mean_abs_unit fp (ContinuousRange lo hi) =
     and_then (discrete_mean_abs fp lo hi) (\<lambda>m. Inr (rnd fp (m / rnd fp (of_int MILLI_SCALE))))"

definition expected_gse ::
    "f64_ops \<Rightarrow> u32 \<Rightarrow> u32 \<Rightarrow> real \<Rightarrow> allowed_value_spec \<Rightarrow> allowed_value_spec \<Rightarrow> validation_error + i64" where
  "expected_gse fp num_nodes num_edges c allowed_h allowed_j =
     and_then (mean_abs_unit fp allowed_h) (\<lambda>h_mean_abs.
     and_then (mean_abs_unit fp allowed_j) (\<lambda>j_mean_abs.
       if num_nodes = 0 \<or> num_edges = 0 then Inr 0
       else
         let r = rnd fp; n = r (of_nat num_nodes); m = r (of_nat num_edges);
             avg_degree = r (r (2 * m) / n);
             sqrt_avg_degree = sqrt_f64 fp avg_degree;
             j_contribution = r (r (r (- c * j_mean_abs) * sqrt_avg_degree) * n);
             h_contribution = r (r (r (r (- c * DEFAULT_H_ALPHA fp) * h_mean_abs) * n) / sqrt_avg_degree)
         in Inr (f64_as_i64 (round_f64 fp
                  (r (r (j_contribution + h_contribution) * r (of_int MILLI_SCALE)))))))"

subsection \<open>Specification\<close>

text \<open>The Ising energy of a spin assignment: \<open>\<Sum>\<^sub>i h\<^sub>i s\<^sub>i + \<Sum>\<^bsub>(u,v)\<^esub> J\<^bsub>uv\<^esub> s\<^sub>u s\<^sub>v\<close>.\<close>

definition node_spin :: "u32 list \<Rightarrow> i8 list \<Rightarrow> u32 \<Rightarrow> int" where
  "node_spin nodes solution u = (case position nodes u of Some p \<Rightarrow> solution ! p | None \<Rightarrow> 0)"

definition ising_energy ::
    "u32 list \<Rightarrow> (u32 \<times> u32) list \<Rightarrow> i32 list \<Rightarrow> i32 list \<Rightarrow> i8 list \<Rightarrow> int" where
  "ising_energy nodes edges h j solution =
     (\<Sum>i<length h. h ! i * solution ! i) +
     (\<Sum>k<min (length edges) (length j).
        j ! k * node_spin nodes solution (fst (edges ! k)) * node_spin nodes solution (snd (edges ! k)))"

definition well_formed_problem ::
    "i8 list \<Rightarrow> i32 list \<Rightarrow> (u32 \<times> u32) list \<Rightarrow> i32 list \<Rightarrow> u32 list \<Rightarrow> bool" where
  "well_formed_problem solution h edges j nodes \<longleftrightarrow>
     nodes \<noteq> [] \<and> distinct nodes \<and> edges_known nodes edges \<and> length solution = length nodes \<and>
     length h = length nodes \<and> length j = length edges \<and> validate_spins solution"

text \<open>The documented behaviour of floating-point rounding and of \<open>libm\<close> that the lemmas use.\<close>

definition f64_laws :: "f64_ops \<Rightarrow> bool" where
  "f64_laws fp \<longleftrightarrow>
     mono (rnd fp) \<and> rnd fp 0 = 0 \<and> (\<forall>x. rnd fp (- x) = - rnd fp x) \<and>
     (\<forall>x. rnd fp (rnd fp x) = rnd fp x) \<and>
     (\<forall>k::nat. k \<le> 1000 \<longrightarrow> rnd fp (2 ^ k) = 2 ^ k \<and> rnd fp (1 / 2 ^ k) = 1 / 2 ^ k) \<and>
     mono (round_f64 fp) \<and> round_f64 fp 0 = 0 \<and> (\<forall>x \<ge> 0. sqrt_f64 fp x \<ge> 0) \<and>
     (\<forall>x. 0 < x \<and> x \<le> 1 \<longrightarrow> log_f64 fp x \<le> 0) \<and>
     (\<forall>x y. 0 \<le> x \<and> x \<le> 1 \<and> 0 \<le> y \<longrightarrow> 0 \<le> pow_f64 fp x y \<and> pow_f64 fp x y \<le> 1)"

subsection \<open>The loops compute the sums\<close>

lemma field_terms_Inr:
  "field_terms s pos h e = Inr e' \<Longrightarrow> e' = e + (\<Sum>i<length h. h ! i * s ! (pos + i))"
proof (induction s pos h e rule: field_terms.induct)
  case (2 s pos field h e)
  then have "e' = (e + field * s ! pos) + (\<Sum>i<length h. h ! i * s ! (Suc pos + i))"
    by (auto simp: checked_add_i64_Some_iff)
  then show ?case by (simp add: sum.lessThan_Suc_shift add.assoc del: sum.lessThan_Suc)
qed simp

lemma coupling_terms_Inr:
  assumes "coupling_terms s ix ejs e = Inr e'"
  shows "e' = e + (\<Sum>k<length ejs. case ejs ! k of ((u, v), c) \<Rightarrow>
     c * s ! the (index_position ix u) * s ! the (index_position ix v))"
  using assms
proof (induction s ix ejs e rule: coupling_terms.induct)
  case (2 s ix u v c rest e)
  let ?sum = "\<Sum>k<length rest. case rest ! k of ((u, v), c) \<Rightarrow>
     c * s ! the (index_position ix u) * s ! the (index_position ix v)"
  from 2 have "e' = (e + c * s ! the (index_position ix u) * s ! the (index_position ix v)) + ?sum"
    by (auto simp: checked_add_i64_Some_iff)
  then show ?case by (simp add: sum.lessThan_Suc_shift add.assoc del: sum.lessThan_Suc)
qed simp

lemma abs_spin_term: "is_spin a \<Longrightarrow> in_i32 c \<Longrightarrow> \<bar>c * a\<bar> \<le> 2 ^ 31"
  by (auto simp: is_spin_def range_simps)

lemma in_i64_abs: "\<bar>x\<bar> < 2 ^ 63 \<Longrightarrow> in_i64 x"
  by (auto simp: range_simps)

lemma field_terms_ok:
  assumes "validate_spins s" "pos + length h \<le> length s" "list_all in_i32 h"
    and "\<bar>e\<bar> + 2 ^ 31 * int (length h) < 2 ^ 63"
  shows "\<exists>e'. field_terms s pos h e = Inr e' \<and> \<bar>e'\<bar> \<le> \<bar>e\<bar> + 2 ^ 31 * int (length h)"
  using assms
proof (induction s pos h e rule: field_terms.induct)
  case (2 s pos field h e)
  let ?t = "field * s ! pos"
  have t: "\<bar>?t\<bar> \<le> 2 ^ 31" using 2 by (intro abs_spin_term validate_spins_nth) auto
  have "\<bar>e + ?t\<bar> \<le> \<bar>e\<bar> + 2 ^ 31" using t abs_triangle_ineq [of e ?t] by linarith
  moreover have "\<bar>e\<bar> + 2 ^ 31 + 2 ^ 31 * int (length h) < 2 ^ 63" using "2.prems"(4) by simp
  ultimately have "in_i64 (e + ?t)" and "\<bar>e + ?t\<bar> + 2 ^ 31 * int (length h) < 2 ^ 63"
    by (auto intro: in_i64_abs)
  moreover from this obtain e' where "field_terms s (Suc pos) h (e + ?t) = Inr e'"
    "\<bar>e'\<bar> \<le> \<bar>e + ?t\<bar> + 2 ^ 31 * int (length h)"
    using "2.IH" [of "e + ?t"] "2.prems" by (auto simp: checked_add_i64_def)
  ultimately show ?case using \<open>\<bar>e + ?t\<bar> \<le> \<bar>e\<bar> + 2 ^ 31\<close> by (auto simp: checked_add_i64_def)
qed simp

lemma coupling_terms_ok:
  assumes "validate_spins s" "list_all (in_i32 \<circ> snd) ejs"
    and "\<And>u v c. ((u, v), c) \<in> set ejs \<Longrightarrow>
      \<exists>p q. index_position ix u = Some p \<and> index_position ix v = Some q \<and> p < length s \<and> q < length s"
    and "\<bar>e\<bar> + 2 ^ 31 * int (length ejs) < 2 ^ 63"
  shows "\<exists>e'. coupling_terms s ix ejs e = Inr e'"
  using assms
proof (induction s ix ejs e rule: coupling_terms.induct)
  case (2 s ix u v c rest e)
  from "2.prems"(3) [of u v c] obtain p q where pq: "index_position ix u = Some p"
    "index_position ix v = Some q" "p < length s" "q < length s" by auto
  let ?t = "c * s ! p * s ! q"
  have "is_spin (s ! p * s ! q)" using "2.prems"(1) pq by (intro is_spin_mult validate_spins_nth)
  then have t: "\<bar>?t\<bar> \<le> 2 ^ 31" using "2.prems"(2) abs_spin_term [of "s ! p * s ! q" c]
    by (simp add: mult.assoc)
  have "\<bar>e + ?t\<bar> \<le> \<bar>e\<bar> + 2 ^ 31" using t abs_triangle_ineq [of e ?t] by linarith
  moreover have "\<bar>e\<bar> + 2 ^ 31 + 2 ^ 31 * int (length rest) < 2 ^ 63" using "2.prems"(4) by simp
  ultimately have r: "in_i64 (e + ?t)" "\<bar>e + ?t\<bar> + 2 ^ 31 * int (length rest) < 2 ^ 63"
    by (auto intro: in_i64_abs)
  have "\<exists>e'. coupling_terms s ix rest (e + ?t) = Inr e'"
  proof (rule "2.IH")
    fix u' v' c' assume "((u', v'), c') \<in> set rest"
    then show "\<exists>p q. index_position ix u' = Some p \<and> index_position ix v' = Some q \<and> p < length s \<and> q < length s"
      by (intro "2.prems"(3) [of u' v' c']) simp
  qed (use "2.prems" r in simp_all)
  with r pq show ?case by (simp add: checked_add_i64_def)
qed simp

subsection \<open>The energy is the Ising energy\<close>

lemma validate_shape_lengths_iff [simp]:
  "validate_shape_lengths s h es j n = Inr u \<longleftrightarrow>
     n \<noteq> 0 \<and> length s = n \<and> length h = n \<and> length es = length j"
  by (auto simp: validate_shape_lengths_def)

lemma coupling_sum_positions:
  assumes ix: "topology_index_new nodes edges = Inr ix" and len: "length j = length edges"
  shows "(\<Sum>k<length (zip edges j). case zip edges j ! k of ((u, v), c) \<Rightarrow>
      c * s ! the (index_position ix u) * s ! the (index_position ix v)) =
    (\<Sum>k<min (length edges) (length j).
      j ! k * node_spin nodes s (fst (edges ! k)) * node_spin nodes s (snd (edges ! k)))"
proof (rule sum.cong)
  show "{..<length (zip edges j)} = {..<min (length edges) (length j)}" by simp
next
  fix k assume "k \<in> {..<min (length edges) (length j)}"
  then have k: "k < length edges" "k < length j" by simp_all
  obtain u v where uv: "edges ! k = (u, v)" by (cases "edges ! k")
  then have "(u, v) \<in> set edges" using k by (metis nth_mem)
  from ti.pos_endpoint [OF ix this] obtain p q where
    "position nodes u = Some p" "position nodes v = Some q"
    by (auto simp: ti.pos_agrees_with_scan [OF ix])
  then show "(case zip edges j ! k of ((u, v), c) \<Rightarrow>
      c * s ! the (index_position ix u) * s ! the (index_position ix v)) =
    j ! k * node_spin nodes s (fst (edges ! k)) * node_spin nodes s (snd (edges ! k))"
    using k uv by (simp add: node_spin_def ti.pos_agrees_with_scan [OF ix])
qed

lemma energy_indexed_Inr:
  assumes ix: "topology_index_new nodes edges = Inr ix"
    and e: "energy_of_solution_indexed s h edges j ix = Inr e"
  shows "well_formed_problem s h edges j nodes \<and> e = ising_energy nodes edges h j s"
proof -
  from ix have n: "distinct nodes" "edges_known nodes edges" "index_len ix = length nodes"
    using ti.new_ok_iff [of nodes edges] ti.len_new [OF ix] by auto
  from e n obtain e1 where shape: "length nodes \<noteq> 0" "length s = length nodes" "length h = length nodes"
      "length edges = length j" "validate_spins s"
    and e1: "field_terms s 0 h 0 = Inr e1" and e2: "coupling_terms s ix (zip edges j) e1 = Inr e"
    by (auto simp: energy_of_solution_indexed_def)
  have "e = ising_energy nodes edges h j s"
    unfolding ising_energy_def
    using field_terms_Inr [OF e1] coupling_terms_Inr [OF e2] coupling_sum_positions [OF ix, of j s] shape
    by simp
  with shape n show ?thesis by (auto simp: well_formed_problem_def)
qed

lemma energy_of_solution_Inr:
  assumes "energy_of_solution s h edges j nodes = Inr e"
  shows "well_formed_problem s h edges j nodes \<and> e = ising_energy nodes edges h j s"
  using assms by (auto simp: energy_of_solution_def dest: energy_indexed_Inr)

lemma energy_of_solution_ok:
  assumes w: "well_formed_problem s h edges j nodes"
    and t: "list_all in_i32 h" "list_all in_i32 j"
    and n: "length nodes + length edges < 2 ^ 32"
  shows "energy_of_solution s h edges j nodes = Inr (ising_energy nodes edges h j s)"
proof -
  from w have wf: "distinct nodes" "edges_known nodes edges" "validate_spins s"
    "length s = length nodes" "length h = length nodes" "length j = length edges" "nodes \<noteq> []"
    by (simp_all add: well_formed_problem_def)
  from wf ti.new_ok_iff [of nodes edges] obtain ix where ix: "topology_index_new nodes edges = Inr ix"
    by (auto simp: is_ok_iff)
  have big: "2 ^ 31 * int (length nodes) + 2 ^ 31 * int (length edges) < 2 ^ 63" using n by simp
  from field_terms_ok [of s 0 h 0] wf t big obtain e1 where
    e1: "field_terms s 0 h 0 = Inr e1" "\<bar>e1\<bar> \<le> 2 ^ 31 * int (length nodes)" by fastforce
  have "\<exists>e. coupling_terms s ix (zip edges j) e1 = Inr e"
  proof (rule coupling_terms_ok)
    show "list_all (in_i32 \<circ> snd) (zip edges j)"
      using t(2) by (auto simp: list_all_iff dest: set_zip_rightD)
    show "\<bar>e1\<bar> + 2 ^ 31 * int (length (zip edges j)) < 2 ^ 63" using e1(2) big wf by simp
    fix u v c assume "((u, v), c) \<in> set (zip edges j)"
    then have "(u, v) \<in> set edges" by (rule set_zip_leftD)
    from ti.pos_endpoint [OF ix this] ti.len_new [OF ix] wf
    show "\<exists>p q. index_position ix u = Some p \<and> index_position ix v = Some q \<and> p < length s \<and> q < length s"
      by auto
  qed (rule wf)
  then obtain e where "coupling_terms s ix (zip edges j) e1 = Inr e" ..
  with e1 wf ix ti.len_new [OF ix] have "energy_of_solution s h edges j nodes = Inr e"
    by (simp add: energy_of_solution_def energy_of_solution_indexed_def)
  then show ?thesis using energy_of_solution_Inr by metis
qed

lemma energy_indexed_eq_standalone:
  assumes "topology_index_new nodes edges = Inr ix"
  shows "energy_of_solution_indexed s h edges j ix = energy_of_solution s h edges j nodes"
proof -
  have "index_len ix = length nodes" by (rule ti.len_new [OF assms])
  with assms show ?thesis
    by (cases "validate_shape_lengths s h edges j (length nodes)")
      (simp_all add: energy_of_solution_def energy_of_solution_indexed_def del: validate_shape_lengths_iff)
qed

subsection \<open>Symmetry and bound\<close>

lemma node_spin_flip:
  "length s = length nodes \<Longrightarrow> node_spin nodes (map uminus s) u = - node_spin nodes s u"
  by (auto simp: node_spin_def dest: position_Some split: option.splits)

lemma ising_energy_flip:
  assumes "length s = length nodes" "length h = length nodes"
  shows "ising_energy nodes edges h j (map uminus s) = ising_energy nodes edges (map uminus h) j s"
  using assms by (simp add: ising_energy_def node_spin_flip)

lemma ising_energy_flip_zero_field:
  assumes "length s = length nodes" "length h = length nodes" "set h \<subseteq> {0}"
  shows "ising_energy nodes edges h j (map uminus s) = ising_energy nodes edges h j s"
proof -
  have "map uminus h = h" using assms(3) by (intro map_idI) auto
  with ising_energy_flip [OF assms(1,2)] show ?thesis by simp
qed

subsection \<open>The expected ground-state energy\<close>

lemma rnd_mono: "f64_laws fp \<Longrightarrow> x \<le> y \<Longrightarrow> rnd fp x \<le> rnd fp y"
  by (auto simp: f64_laws_def mono_def)

lemma rnd_nonneg: "f64_laws fp \<Longrightarrow> 0 \<le> x \<Longrightarrow> 0 \<le> rnd fp x"
  using rnd_mono [of fp 0 x] by (simp add: f64_laws_def)

lemma rnd_minus: "f64_laws fp \<Longrightarrow> rnd fp (- x) = - rnd fp x"
  by (simp add: f64_laws_def)

lemma rnd_zero [simp]: "f64_laws fp \<Longrightarrow> rnd fp 0 = 0"
  by (simp add: f64_laws_def)

lemma triangle_nonneg: "0 \<le> k \<Longrightarrow> 0 \<le> triangle k"
  by (simp add: triangle_def pos_imp_zdiv_nonneg_iff)

lemma discrete_mean_abs_nonneg:
  assumes "f64_laws fp" "discrete_mean_abs fp lo hi = Inr m"
  shows "0 \<le> m"
proof -
  note r = rnd_nonneg [OF assms(1)]
  consider "0 \<le> lo" "lo \<le> hi" "m = rnd fp (rnd fp (of_int (lo + hi)) / 2)"
    | "hi \<le> 0" "lo \<le> hi" "m = rnd fp (- rnd fp (of_int (lo + hi)) / 2)"
    | "lo < 0" "0 < hi" "m = rnd fp (rnd fp (of_int (triangle (- lo) + triangle hi)) / rnd fp (of_int (hi - lo + 1)))"
    using assms(2) by (auto simp: discrete_mean_abs_def Let_def split: if_splits)
  then show ?thesis
  proof cases
    case 1
    then show ?thesis by (auto intro!: r)
  next
    case 2
    have "- rnd fp (of_int (lo + hi)) = rnd fp (of_int (- (lo + hi)))"
      using rnd_minus [OF assms(1), of "of_int (lo + hi)"] by simp
    moreover have "0 \<le> - (lo + hi)" using 2 by linarith
    ultimately show ?thesis unfolding 2 by (metis r divide_nonneg_pos of_int_0_le_iff zero_less_numeral)
  next
    case 3
    have "0 \<le> triangle (- lo) + triangle hi" "0 \<le> hi - lo + 1"
      using 3 triangle_nonneg [of "- lo"] triangle_nonneg [of hi] by linarith+
    then show ?thesis unfolding 3 by (intro r divide_nonneg_nonneg) (simp_all only: of_int_0_le_iff)
  qed
qed

lemma sum_abs_milli_nonneg: "f64_laws fp \<Longrightarrow> 0 \<le> acc \<Longrightarrow> 0 \<le> sum_abs_milli fp vs acc"
  by (induction fp vs acc rule: sum_abs_milli.induct) (simp_all add: rnd_nonneg)

lemma mean_abs_unit_nonneg:
  assumes "f64_laws fp" "mean_abs_unit fp spec = Inr m"
  shows "0 \<le> m"
proof (cases spec)
  case (Set vals)
  with assms show ?thesis
    by (auto simp: MILLI_SCALE_def intro!: rnd_nonneg divide_nonneg_nonneg mult_nonneg_nonneg sum_abs_milli_nonneg
          split: if_splits)
next
  case (IntegerRange lo hi)
  with assms show ?thesis using discrete_mean_abs_nonneg by auto
next
  case (ContinuousRange lo hi)
  with assms obtain v where v: "discrete_mean_abs fp lo hi = Inr v" "m = rnd fp (v / rnd fp 1000)"
    by (auto simp: MILLI_SCALE_def)
  with discrete_mean_abs_nonneg [OF assms(1) v(1)] assms(1) show ?thesis
    by (auto intro!: rnd_nonneg divide_nonneg_nonneg)
qed

lemma f64_as_i64_mono: "x \<le> y \<Longrightarrow> f64_as_i64 x \<le> f64_as_i64 y"
proof -
  assume xy: "x \<le> y"
  have "(if x \<ge> 0 then \<lfloor>x\<rfloor> else \<lceil>x\<rceil>) \<le> (if y \<ge> 0 then \<lfloor>y\<rfloor> else \<lceil>y\<rceil>)"
  proof (cases "0 \<le> x \<or> y < 0")
    case True
    with xy show ?thesis by (auto intro: floor_mono ceiling_mono)
  next
    case False
    then have "\<lceil>x\<rceil> \<le> 0" "0 \<le> \<lfloor>y\<rfloor>" by (simp_all add: ceiling_le_iff)
    then have "\<lceil>x\<rceil> \<le> \<lfloor>y\<rfloor>" by linarith
    with False show ?thesis by simp
  qed
  then show ?thesis unfolding f64_as_i64_def by (rule clamp_i64_mono)
qed

text \<open>The energy target of a larger \<open>c\<close> is at least as hard, and every target is at most zero.\<close>

lemma expected_gse_antimono:
  assumes fp: "f64_laws fp" and c: "0 \<le> c" "c \<le> c'"
    and e: "expected_gse fp n m c ah aj = Inr e" and e': "expected_gse fp n m c' ah aj = Inr e'"
  shows "e' \<le> e \<and> e \<le> 0"
proof -
  from e obtain hm jm where hj: "mean_abs_unit fp ah = Inr hm" "mean_abs_unit fp aj = Inr jm"
    by (auto simp: expected_gse_def)
  then have nn: "0 \<le> hm" "0 \<le> jm" using mean_abs_unit_nonneg [OF fp] by auto
  show ?thesis
  proof (cases "n = 0 \<or> m = 0")
    case True
    with e e' hj show ?thesis by (simp add: expected_gse_def)
  next
    case False
    define r where "r = rnd fp"
    note mono = rnd_mono [OF fp, folded r_def] and pos = rnd_nonneg [OF fp, folded r_def]
    define s where "s = sqrt_f64 fp (r (r (2 * r (of_nat m)) / r (of_nat n)))"
    define a where "a = DEFAULT_H_ALPHA fp"
    define tot where "tot x = r (r (r (r (r (- x * jm) * s) * r (of_nat n)) +
      r (r (r (r (- x * a) * hm) * r (of_nat n)) / s)) * r (of_int MILLI_SCALE))" for x
    have E: "e = f64_as_i64 (round_f64 fp (tot c))" "e' = f64_as_i64 (round_f64 fp (tot c'))"
      using e e' hj False by (simp_all add: expected_gse_def Let_def tot_def r_def s_def a_def)
    have "0 \<le> r (r (2 * r (of_nat m)) / r (of_nat n))"
      by (intro pos divide_nonneg_nonneg mult_nonneg_nonneg) simp_all
    then have s: "0 \<le> s" using fp unfolding s_def f64_laws_def by simp
    have a: "0 \<le> a" unfolding a_def DEFAULT_H_ALPHA_def by (intro rnd_nonneg [OF fp]) simp
    have nm: "0 \<le> r (of_nat n)" "0 \<le> r (of_int MILLI_SCALE)"
      by (intro pos; simp add: MILLI_SCALE_def)+
    have tmono: "tot y \<le> tot x" if "x \<le> y" for x y
      unfolding tot_def
      by (intro mono mult_right_mono add_mono divide_right_mono s a nm nn) (use that in simp_all)
    have "tot 0 = 0" using fp by (simp add: tot_def r_def)
    with tmono [OF c(1)] have "tot c \<le> 0" by simp
    then have "round_f64 fp (tot c) \<le> 0" "round_f64 fp (tot c') \<le> round_f64 fp (tot c)"
      using fp tmono [OF c(2)] unfolding f64_laws_def mono_def by (metis, metis)
    moreover have "f64_as_i64 0 = 0" by (simp add: f64_as_i64_def clamp_i64_id range_simps)
    ultimately show ?thesis unfolding E using f64_as_i64_mono by metis
  qed
qed

text \<open>Without rounding, \<open>discrete_mean_abs\<close> is the mean of the magnitudes of the range.\<close>

lemma double_sum_range:
  "lo \<le> hi \<Longrightarrow> 2 * (\<Sum>i\<in>{lo..hi}. i) = (lo + hi) * (hi - lo + 1)" for lo hi :: int
proof (induction hi rule: int_ge_induct)
  case (step k)
  have "{lo..k + 1} = insert (k + 1) {lo..k}" using step.hyps by auto
  then show ?case using step.IH by (simp add: algebra_simps)
qed simp

lemma double_triangle: "2 * triangle k = k * (k + 1)"
  by (simp add: triangle_def)

lemma double_sum_abs_range:
  fixes lo hi :: int
  assumes "lo \<le> hi"
  shows "2 * (\<Sum>i\<in>{lo..hi}. \<bar>i\<bar>) =
    (if 0 \<le> lo then (lo + hi) * (hi - lo + 1)
     else if hi \<le> 0 then - (lo + hi) * (hi - lo + 1)
     else 2 * (triangle (- lo) + triangle hi))"
proof -
  consider "0 \<le> lo" | "lo < 0" "hi \<le> 0" | "lo < 0" "0 < hi" by linarith
  then show ?thesis
  proof cases
    case 1
    then have "(\<Sum>i\<in>{lo..hi}. \<bar>i\<bar>) = (\<Sum>i\<in>{lo..hi}. i)" by (intro sum.cong) auto
    with 1 double_sum_range [OF assms] show ?thesis by simp
  next
    case 2
    then have "(\<Sum>i\<in>{lo..hi}. \<bar>i\<bar>) = - (\<Sum>i\<in>{lo..hi}. i)"
      by (simp add: sum_negf [symmetric])
    with 2 double_sum_range [OF assms] show ?thesis by (simp add: algebra_simps)
  next
    case 3
    then have "{lo..hi} = {lo..-1} \<union> {0..hi}" by auto
    then have "(\<Sum>i\<in>{lo..hi}. \<bar>i\<bar>) = (\<Sum>i\<in>{lo..-1}. \<bar>i\<bar>) + (\<Sum>i\<in>{0..hi}. \<bar>i\<bar>)"
      by (simp add: sum.union_disjoint)
    moreover have "(\<Sum>i\<in>{lo..-1}. \<bar>i\<bar>) = - (\<Sum>i\<in>{lo..-1}. i)" by (simp add: sum_negf [symmetric])
    moreover have "(\<Sum>i\<in>{0..hi}. \<bar>i\<bar>) = (\<Sum>i\<in>{0..hi}. i)" by (intro sum.cong) auto
    ultimately have "2 * (\<Sum>i\<in>{lo..hi}. \<bar>i\<bar>) = - (2 * (\<Sum>i\<in>{lo..-1}. i)) + 2 * (\<Sum>i\<in>{0..hi}. i)"
      by simp
    also have "\<dots> = - ((lo + -1) * (-1 - lo + 1)) + (0 + hi) * (hi - 0 + 1)"
      using 3 double_sum_range [of lo "-1"] double_sum_range [of 0 hi] by simp
    also have "\<dots> = 2 * (triangle (- lo) + triangle hi)"
      unfolding distrib_left double_triangle by (simp add: algebra_simps)
    finally show ?thesis using 3 by simp
  qed
qed

lemma discrete_mean_abs_exact:
  assumes "rnd fp = id" "lo \<le> hi"
  shows "discrete_mean_abs fp lo hi = Inr (real_of_int (\<Sum>i\<in>{lo..hi}. \<bar>i\<bar>) / real_of_int (hi - lo + 1))"
proof -
  define S w where "S = (\<Sum>i\<in>{lo..hi}. \<bar>i\<bar>)" and "w = hi - lo + 1"
  let ?g = "discrete_mean_abs fp lo hi = Inr (real_of_int S / real_of_int w)"
  have w: "real_of_int w \<noteq> 0" using assms(2) by (simp add: w_def)
  have half: "real_of_int x / 2 = real_of_int S / real_of_int w" if "2 * S = x * w" for x
  proof -
    from that have "real_of_int (2 * S) = real_of_int (x * w)" by (rule arg_cong)
    with w show ?thesis by (simp add: field_simps)
  qed
  from double_sum_abs_range [OF assms(2), folded S_def w_def]
  consider "0 \<le> lo" "2 * S = (lo + hi) * w" | "lo < 0" "hi \<le> 0" "2 * S = - (lo + hi) * w"
    | "lo < 0" "0 < hi" "S = triangle (- lo) + triangle hi"
    by (auto split: if_splits)
  then have ?g
  proof cases
    case 1
    with assms half [OF 1(2)] show ?g by (simp add: discrete_mean_abs_def)
  next
    case 2
    with assms half [OF 2(3)] show ?g by (simp add: discrete_mean_abs_def)
  next
    case 3
    with assms show ?g by (simp add: discrete_mean_abs_def Let_def w_def)
  qed
  then show ?thesis by (simp only: S_def w_def)
qed

subsection \<open>Properties\<close>

text \<open>
  C38: on typed inputs of a size where 64 bits cannot overflow, \<open>energy_of_solution\<close> succeeds exactly on
  well-formed problems (non-empty duplicate-free nodes, known edge endpoints, matching lengths, spins
  in \<open>{-1, 1}\<close>) and returns the Ising energy.
\<close>

theorem energy_of_solution_correct:
  assumes "list_all in_i32 h" "list_all in_i32 j" "length nodes + length edges < 2 ^ 32"
  shows "energy_of_solution s h edges j nodes = Inr e \<longleftrightarrow>
    well_formed_problem s h edges j nodes \<and> e = ising_energy nodes edges h j s"
  using energy_of_solution_Inr energy_of_solution_ok [OF _ assms] by metis

theorem energy_of_solution_correct_witness:
  "energy_of_solution [1, -1] [500, -1000] [(0, 1)] [250] [0, 1] = Inr 1250 \<longleftrightarrow>
     well_formed_problem [1, -1] [500, -1000] [(0, 1)] [250] [0, 1] \<and>
     1250 = ising_energy [0, 1] [(0, 1)] [500, -1000] [250] [1, -1]"
  by (rule energy_of_solution_correct) (simp_all add: range_simps)

text \<open>
  scoring with a prebuilt topology index gives the same result, errors included, as the standalone
  entry point that rebuilds the index.
\<close>

theorem energy_indexed_equals_standalone:
  assumes "topology_index_new nodes edges = Inr ix"
  shows "energy_of_solution_indexed s h edges j ix = energy_of_solution s h edges j nodes"
  by (rule energy_indexed_eq_standalone [OF assms])

theorem energy_indexed_equals_standalone_witness:
  "energy_of_solution_indexed [1, -1] [500, -1000] [(7, 9)] [250] \<lparr>positions = [(7, 0), (9, 1)]\<rparr> =
     energy_of_solution [1, -1] [500, -1000] [(7, 9)] [250] [7, 9]"
  by (rule energy_indexed_equals_standalone) code_simp

text \<open>
  with zero fields the energy is invariant under flipping every spin, and in general a global flip
  is the same as negating the fields. This is why diversity identifies a solution with its flip.
\<close>

theorem energy_global_flip:
  assumes "length s = length nodes" "length h = length nodes"
  shows "ising_energy nodes edges h j (map uminus s) = ising_energy nodes edges (map uminus h) j s \<and>
    (energy_of_solution s h edges j nodes = Inr e \<and> set h \<subseteq> {0} \<longrightarrow>
      ising_energy nodes edges h j (map uminus s) = e)"
  using ising_energy_flip [OF assms] ising_energy_flip_zero_field [OF assms]
    energy_of_solution_Inr [of s h edges j nodes e] by auto

theorem energy_global_flip_witness:
  "ising_energy [0, 1] [(0, 1)] [0, 0] [250] (map uminus [1, -1]) = -250"
  using energy_global_flip [of "[1, -1]" "[0, 1]" "[0, 0]" "[(0, 1)]" "[250]" "-250"]
    energy_of_solution_ok [of "[1, -1]" "[0, 0]" "[(0, 1)]" "[250]" "[0, 1]"]
  by (simp add: ising_energy_def node_spin_def well_formed_problem_def edges_known_def in_i32_def
      i32_min_def i32_max_def)

text \<open>
  a larger difficulty constant \<open>c\<close> never gives an easier energy target, and no target is positive,
  for any rounding that is monotone, odd and fixes zero.
\<close>

theorem expected_gse_monotone:
  assumes "f64_laws fp" "0 \<le> c" "c \<le> c'"
    and "expected_gse fp n m c ah aj = Inr e" and "expected_gse fp n m c' ah aj = Inr e'"
  shows "e' \<le> e \<and> e \<le> 0"
  by (rule expected_gse_antimono [OF assms])

definition exact_f64 :: f64_ops where
  "exact_f64 = \<lparr>rnd = id, sqrt_f64 = (\<lambda>x. if x < 0 then 0 else x), round_f64 = id,
     log_f64 = ln, pow_f64 = (\<lambda>x y. if x = 0 then 0 else x powr y)\<rparr>"

lemma exact_f64_laws: "f64_laws exact_f64"
  by (auto simp: f64_laws_def exact_f64_def mono_def powr_le1)

lemma exact_gse_example:
  "expected_gse exact_f64 4 2 c (Set [0]) (Set [-1000, 1000]) = Inr (f64_as_i64 (- c * 4 * 1000))"
  by (simp add: expected_gse_def exact_f64_def MILLI_SCALE_def Let_def)

theorem expected_gse_monotone_witness:
  "f64_as_i64 (- 2 * 4 * 1000) \<le> f64_as_i64 (- 1 * 4 * 1000) \<and> f64_as_i64 (- 1 * 4 * 1000) \<le> 0"
  by (rule expected_gse_monotone [OF exact_f64_laws _ _ exact_gse_example exact_gse_example]) simp_all

end
