(* ===== verification/Solution_Validation.thy ===== *)
theory Solution_Validation
  imports Energy
begin

text \<open>
  \<open>crates/quantum-validation/src/validation.rs\<close>: the consistency check of an Ising problem with its
  topology and the validation of one solution, with the human-readable error texts. A \<open>None\<close> result
  of \<open>validate_solution\<close> is a panic in one of the \<open>expect\<close> calls.
\<close>

subsection \<open>Text of numbers and lists\<close>

fun show_nat :: "nat \<Rightarrow> string" where
  "show_nat n = (if n < 10 then [char_of (48 + n)] else show_nat (n div 10) @ [char_of (48 + n mod 10)])"

declare show_nat.simps [simp del]

definition show_int :: "int \<Rightarrow> string" where
  "show_int k = (if k < 0 then ''-'' @ show_nat (nat (- k)) else show_nat (nat k))"

definition pad_left :: "nat \<Rightarrow> string \<Rightarrow> string" where
  "pad_left w s = replicate (w - length s) (CHR ''0'') @ s"

fun join :: "string \<Rightarrow> string list \<Rightarrow> string" where
  "join sep [] = []"
| "join sep [s] = s"
| "join sep (s # t # ss) = s @ sep @ join sep (t # ss)"

definition display_milli_value :: "i32 \<Rightarrow> string" where
  "display_milli_value v =
     (let a = nat \<bar>v\<bar>; sign = (if v < 0 then ''-'' else []); whole = a div 1000; frac = a mod 1000
      in if frac = 0 then sign @ show_nat whole @ ''.0''
         else if frac mod 100 = 0 then sign @ show_nat whole @ ''.'' @ show_nat (frac div 100)
         else if frac mod 10 = 0 then sign @ show_nat whole @ ''.'' @ pad_left 2 (show_nat (frac div 10))
         else sign @ show_nat whole @ ''.'' @ pad_left 3 (show_nat frac))"

definition display_milli_list :: "i32 list \<Rightarrow> string" where
  "display_milli_list vals = ''['' @ join '', '' (map display_milli_value vals) @ '']''"

definition display_i8_set :: "i8 list \<Rightarrow> string" where
  "display_i8_set vals =
     (let unique = remdups_adj (sort vals) in ''{'' @ join '', '' (map show_int unique) @ ''}'')"

definition is_binary_j_set :: "i32 list \<Rightarrow> bool" where
  "is_binary_j_set vals \<longleftrightarrow> length vals = 2 \<and> - 1000 \<in> set vals \<and> 1000 \<in> set vals"

subsection \<open>Topology consistency\<close>

fun duplicate_errors :: "u32 list \<Rightarrow> u32 list \<Rightarrow> string list" where
  "duplicate_errors known [] = []"
| "duplicate_errors known (node # nodes) =
     (if node \<in> set known then (''Duplicate node id: '' @ show_nat node) # duplicate_errors known nodes
      else duplicate_errors (node # known) nodes)"

definition h_value_errors :: "i32 list option \<Rightarrow> u32 list \<Rightarrow> i32 list \<Rightarrow> string list" where
  "h_value_errors allowed_h_values nodes h =
     (case allowed_h_values of
        None \<Rightarrow> []
      | Some allowed \<Rightarrow>
          concat (map (\<lambda>(node_id, v).
            if v \<notin> set allowed
            then [''Invalid h['' @ show_nat node_id @ ''] = '' @ display_milli_value v @
                  '', expected one of '' @ display_milli_list allowed]
            else []) (zip nodes h)))"

text \<open>The text \<open>\<plusminus>1.0\<close> is the UTF-8 encoding.\<close>

definition j_expectation :: "i32 list \<Rightarrow> string" where
  "j_expectation allowed =
     (if is_binary_j_set allowed then [CHR 0xC2, CHR 0xB1] @ ''1.0''
      else ''one of '' @ display_milli_list allowed)"

definition edge_errors ::
    "u32 list \<Rightarrow> i32 list option \<Rightarrow> i32 list \<Rightarrow> usize \<Rightarrow> u32 \<times> u32 \<Rightarrow> string list" where
  "edge_errors known_nodes allowed_j_values j index edge =
     (let (u, v) = edge in
      (if u \<notin> set known_nodes \<or> v \<notin> set known_nodes
       then [''J parameter for invalid edge: ('' @ show_nat u @ '', '' @ show_nat v @ '')''] else []) @
      (case allowed_j_values of
         None \<Rightarrow> []
       | Some allowed \<Rightarrow>
           if index < length j \<and> j ! index \<notin> set allowed
           then [''Invalid J value J[('' @ show_nat u @ '', '' @ show_nat v @ '')] = '' @
                 display_milli_value (j ! index) @ '' (expected '' @ j_expectation allowed @ '')'']
           else []))"

definition validate_topology_consistency ::
    "u32 list \<Rightarrow> (u32 \<times> u32) list \<Rightarrow> i32 list \<Rightarrow> i32 list \<Rightarrow> i32 list option \<Rightarrow> i32 list option \<Rightarrow> string list" where
  "validate_topology_consistency nodes edges h j allowed_h_values allowed_j_values =
     duplicate_errors [] nodes @
     (if length h \<noteq> length nodes
      then [''Wrong h parameter count: '' @ show_nat (length h) @ '' != '' @ show_nat (length nodes)] else []) @
     (if length j \<noteq> length edges
      then [''Wrong J parameter count: '' @ show_nat (length j) @ '' != '' @ show_nat (length edges)] else []) @
     h_value_errors allowed_h_values nodes h @
     concat (map (\<lambda>(index, edge). edge_errors nodes allowed_j_values j index edge) (enumerate 0 edges))"

subsection \<open>One solution\<close>

record solution_validation =
  valid :: bool
  errors :: "string list"
  energy_milli :: i64
  satisfaction_rate_milli :: u32

fun satisfied_couplings ::
    "i8 list \<Rightarrow> u32 list \<Rightarrow> ((u32 \<times> u32) \<times> i32) list \<Rightarrow> u64 \<Rightarrow> u64 option" where
  "satisfied_couplings spins nodes [] acc = Some acc"
| "satisfied_couplings spins nodes (((u, v), coupling) # rest) acc =
     (case position nodes u of None \<Rightarrow> None | Some pos_i \<Rightarrow>
      (case position nodes v of None \<Rightarrow> None | Some pos_j \<Rightarrow>
         satisfied_couplings spins nodes rest
           (if coupling * spins ! pos_i * spins ! pos_j < 0 then acc + 1 else acc)))"

definition validate_solution ::
    "i8 list \<Rightarrow> u32 list \<Rightarrow> (u32 \<times> u32) list \<Rightarrow> i32 list \<Rightarrow> i32 list \<Rightarrow> i32 list option \<Rightarrow> i32 list option \<Rightarrow>
     solution_validation option" where
  "validate_solution spins nodes edges h j allowed_h_values allowed_j_values =
     (let result = \<lparr>valid = True, errors = [], energy_milli = 0, satisfaction_rate_milli = 0\<rparr>;
          invalid_values = filter (\<lambda>spin. \<not> is_spin spin) spins;
          topology_errors = validate_topology_consistency nodes edges h j allowed_h_values allowed_j_values
      in if length spins \<noteq> length nodes
         then Some (result\<lparr>valid := False,
                errors := [''Wrong solution length: '' @ show_nat (length spins) @ '' != '' @ show_nat (length nodes)]\<rparr>)
         else if invalid_values \<noteq> []
         then Some (result\<lparr>valid := False,
                errors := [''Invalid spin values: '' @ display_i8_set invalid_values @ '' (must be -1 or +1)'']\<rparr>)
         else if topology_errors \<noteq> []
         then Some (result\<lparr>valid := False, errors := topology_errors\<rparr>)
         else case energy_of_solution spins h edges j nodes of
           Inl _ \<Rightarrow> None
         | Inr energy \<Rightarrow>
             (case satisfied_couplings spins nodes (zip edges j) 0 of
                None \<Rightarrow> None
              | Some satisfied \<Rightarrow>
                  if j = [] then Some (result\<lparr>energy_milli := energy\<rparr>)
                  else map_option (\<lambda>rate. result\<lparr>energy_milli := energy, satisfaction_rate_milli := rate mod 2 ^ 32\<rparr>)
                    (round_div_u64 ((satisfied * nat MILLI_SCALE) mod 2 ^ 64) (length j))))"

subsection \<open>The consistency check reports nothing exactly for consistent problems\<close>

definition in_allowed :: "i32 list option \<Rightarrow> i32 list \<Rightarrow> bool" where
  "in_allowed allowed vals \<longleftrightarrow> (case allowed of None \<Rightarrow> True | Some a \<Rightarrow> set vals \<subseteq> set a)"

lemma duplicate_errors_Nil_iff:
  "duplicate_errors known nodes = [] \<longleftrightarrow> distinct nodes \<and> set nodes \<inter> set known = {}"
  by (induction known nodes rule: duplicate_errors.induct) auto

lemma h_value_errors_Nil_iff:
  "length h = length nodes \<Longrightarrow> h_value_errors allowed nodes h = [] \<longleftrightarrow> in_allowed allowed h"
proof (cases allowed)
  case (Some a)
  assume len: "length h = length nodes"
  have "set h = snd ` set (zip nodes h)" using len by (metis list.set_map map_snd_zip)
  with Some show ?thesis by (auto simp: h_value_errors_def in_allowed_def split: if_splits)
qed (simp add: h_value_errors_def in_allowed_def)

lemma edge_errors_Nil_iff:
  "edge_errors nodes allowed j i (u, v) = [] \<longleftrightarrow>
     u \<in> set nodes \<and> v \<in> set nodes \<and> (i < length j \<longrightarrow> in_allowed allowed [j ! i])"
  by (auto simp: edge_errors_def in_allowed_def split: option.splits)

lemma all_edge_errors_Nil_iff:
  assumes "length j = length edges"
  shows "concat (map (\<lambda>(i, e). edge_errors nodes allowed j i e) (enumerate 0 edges)) = [] \<longleftrightarrow>
    edges_known nodes edges \<and> in_allowed allowed j"
proof -
  have "concat (map (\<lambda>(i, e). edge_errors nodes allowed j i e) (enumerate 0 edges)) = [] \<longleftrightarrow>
      (\<forall>i < length edges. edge_errors nodes allowed j i (edges ! i) = [])"
    by (auto simp: set_conv_nth nth_enumerate_eq)
  also have "\<dots> \<longleftrightarrow> (\<forall>i < length edges. fst (edges ! i) \<in> set nodes \<and> snd (edges ! i) \<in> set nodes \<and>
      in_allowed allowed [j ! i])"
    using assms edge_errors_Nil_iff by (metis prod.collapse)
  also have "\<dots> \<longleftrightarrow> edges_known nodes edges \<and> in_allowed allowed j"
    using assms by (auto simp: edges_known_def list_all_length in_allowed_def set_conv_nth case_prod_unfold
        split: option.splits)
  finally show ?thesis .
qed

lemma validate_topology_consistency_Nil_iff:
  "validate_topology_consistency nodes edges h j ah aj = [] \<longleftrightarrow>
     distinct nodes \<and> length h = length nodes \<and> length j = length edges \<and>
     in_allowed ah h \<and> edges_known nodes edges \<and> in_allowed aj j"
proof (cases "length h = length nodes \<and> length j = length edges")
  case True
  then show ?thesis unfolding validate_topology_consistency_def
    using all_edge_errors_Nil_iff [of j edges nodes aj] h_value_errors_Nil_iff [of h nodes ah]
    by (auto simp: duplicate_errors_Nil_iff simp del: concat_eq_Nil_conv)
qed (auto simp: validate_topology_consistency_def)

subsection \<open>Validation of one solution\<close>

text \<open>A coupling is satisfied when its energy term is negative.\<close>

definition satisfied_count :: "u32 list \<Rightarrow> (u32 \<times> u32) list \<Rightarrow> i32 list \<Rightarrow> i8 list \<Rightarrow> nat" where
  "satisfied_count nodes edges j spins =
     length (filter (\<lambda>((u, v), c). c * node_spin nodes spins u * node_spin nodes spins v < 0) (zip edges j))"

lemma satisfied_couplings_eq:
  assumes "\<forall>x \<in> set ejs. fst (fst x) \<in> set nodes \<and> snd (fst x) \<in> set nodes"
  shows "satisfied_couplings spins nodes ejs acc = Some (acc +
    length (filter (\<lambda>((u, v), c). c * node_spin nodes spins u * node_spin nodes spins v < 0) ejs))"
  using assms
proof (induction ejs arbitrary: acc)
  case (Cons x ejs)
  obtain u v c where x: "x = ((u, v), c)" by (metis surj_pair)
  with Cons.prems have "u \<in> set nodes" "v \<in> set nodes" by simp_all
  then obtain p q where pq: "position nodes u = Some p" "position nodes v = Some q"
    by (metis not_None_eq position_None_iff)
  then have "node_spin nodes spins u = spins ! p" "node_spin nodes spins v = spins ! q"
    by (simp_all add: node_spin_def)
  with Cons pq x show ?case by simp
qed simp

lemma satisfied_count_le: "satisfied_count nodes edges j spins \<le> length j"
  unfolding satisfied_count_def by (metis length_filter_le length_zip min.bounded_iff)

lemma filter_not_spin_Nil_iff: "filter (\<lambda>s. \<not> is_spin s) spins = [] \<longleftrightarrow> validate_spins spins"
  by (auto simp: validate_spins_def list_all_iff filter_empty_conv)

definition problem_consistent ::
    "i8 list \<Rightarrow> u32 list \<Rightarrow> (u32 \<times> u32) list \<Rightarrow> i32 list \<Rightarrow> i32 list \<Rightarrow> i32 list option \<Rightarrow> i32 list option \<Rightarrow> bool" where
  "problem_consistent spins nodes edges h j ah aj \<longleftrightarrow>
     well_formed_problem spins h edges j nodes \<and> in_allowed ah h \<and> in_allowed aj j"

text \<open>On a non-empty topology the validation never panics and accepts exactly the consistent problems.\<close>

lemma validate_solution_reject:
  assumes "nodes \<noteq> []" "\<not> problem_consistent spins nodes edges h j ah aj"
  shows "\<exists>r. validate_solution spins nodes edges h j ah aj = Some r \<and> \<not> valid r \<and> errors r \<noteq> []"
  using assms validate_topology_consistency_Nil_iff [of nodes edges h j ah aj] filter_not_spin_Nil_iff [of spins]
  by (auto simp: validate_solution_def Let_def problem_consistent_def well_formed_problem_def
      simp del: filter_empty_conv)

lemma validate_solution_accept:
  assumes c: "problem_consistent spins nodes edges h j ah aj"
    and t: "list_all in_i32 h" "list_all in_i32 j" and n: "length nodes + length edges < 2 ^ 32"
  shows "validate_solution spins nodes edges h j ah aj = Some \<lparr>valid = True, errors = [],
    energy_milli = ising_energy nodes edges h j spins,
    satisfaction_rate_milli = (if j = [] then 0
      else (satisfied_count nodes edges j spins * 1000 + length j div 2) div length j)\<rparr>"
proof -
  have w: "well_formed_problem spins h edges j nodes" using c by (simp add: problem_consistent_def)
  have no: "validate_topology_consistency nodes edges h j ah aj = []" "filter (\<lambda>s. \<not> is_spin s) spins = []"
    "length spins = length nodes"
    using c validate_topology_consistency_Nil_iff [of nodes edges h j ah aj] filter_not_spin_Nil_iff [of spins]
    by (auto simp: problem_consistent_def well_formed_problem_def)
  have e: "energy_of_solution spins h edges j nodes = Inr (ising_energy nodes edges h j spins)"
    by (rule energy_of_solution_ok [OF w t n])
  have known: "edges_known nodes edges" "length j = length edges" using w by (simp_all add: well_formed_problem_def)
  then have sat: "satisfied_couplings spins nodes (zip edges j) 0 = Some (satisfied_count nodes edges j spins)"
    using satisfied_couplings_eq [of "zip edges j" nodes spins 0]
    by (fastforce simp: satisfied_count_def edges_known_def list_all_iff dest: set_zip_leftD)
  let ?s = "satisfied_count nodes edges j spins"
  have le: "?s \<le> length j" "length j < 2 ^ 32" using satisfied_count_le [of nodes edges j spins] known n by simp_all
  have "(?s * 1000 + length j div 2) div length j \<le> (length j * 1000 + length j div 2) div length j"
    using le(1) by (intro div_le_mono) simp
  also have "\<dots> \<le> 1000" by (cases "j = []") simp_all
  finally have r: "(?s * 1000 + length j div 2) div length j < 2 ^ 32" by simp
  from no e sat le r show ?thesis
    by (simp add: validate_solution_def Let_def round_div_u64_def MILLI_SCALE_def)
qed

subsection \<open>Properties\<close>

text \<open>
  C39: on a non-empty topology of typed parameters the validation never panics; it reports a solution as
  valid exactly when lengths, spins, topology and allowed values are consistent, with the Ising energy
  and the rounded share of satisfied couplings, and lists at least one error otherwise.
\<close>

theorem validate_solution_exact:
  assumes "nodes \<noteq> []" "list_all in_i32 h" "list_all in_i32 j" "length nodes + length edges < 2 ^ 32"
  shows "\<exists>r. validate_solution spins nodes edges h j ah aj = Some r \<and>
    (valid r \<longleftrightarrow> problem_consistent spins nodes edges h j ah aj) \<and> (valid r \<longleftrightarrow> errors r = []) \<and>
    (valid r \<longrightarrow> energy_milli r = ising_energy nodes edges h j spins \<and>
       satisfaction_rate_milli r = (if j = [] then 0
         else (satisfied_count nodes edges j spins * 1000 + length j div 2) div length j))"
  using validate_solution_accept [OF _ assms(2-4), of spins ah aj]
    validate_solution_reject [OF assms(1), of spins edges h j ah aj]
  by (cases "problem_consistent spins nodes edges h j ah aj") auto

theorem validate_solution_exact_witness:
  "\<exists>r. validate_solution [1, -1] [0, 1] [(0, 1)] [500, -1000] [250] None None = Some r \<and>
     energy_milli r = 1250 \<and> satisfaction_rate_milli r = 1000"
proof -
  have p: "problem_consistent [1, -1] [0, 1] [(0, 1)] [500, -1000] [250] None None" by code_simp
  have e: "ising_energy [0, 1] [(0, 1)] [500, -1000] [250] [1, -1] = 1250" by code_simp
  have s: "satisfied_count [0, 1] [(0, 1)] [250] [1, -1] = 1" by code_simp
  have h: "list_all in_i32 [500, -1000]" "list_all in_i32 [250]" by (simp_all add: range_simps)
  show ?thesis
    using validate_solution_exact [of "[0, 1]" "[500, -1000]" "[250]" "[(0, 1)]" "[1, -1]" None None] h p e s
    by auto
qed

text \<open>
  C40: the validation panics, in \<open>expect("topology validated above")\<close>, exactly on the problem without nodes, fields, edges and
  couplings together with the empty solution, whatever values are allowed: the consistency check accepts it and
  the energy computation rejects it. Every other input of typed parameters, consistent or not, gets a report.
\<close>

theorem validate_solution_panics_iff:
  assumes "list_all in_i32 h" "list_all in_i32 j" "length nodes + length edges < 2 ^ 32"
  shows "validate_solution spins nodes edges h j ah aj = None \<longleftrightarrow> spins = [] \<and> nodes = [] \<and> edges = [] \<and> h = [] \<and> j = []"
proof (cases "nodes = []")
  case False
  then have "validate_solution spins nodes edges h j ah aj \<noteq> None"
    using validate_solution_accept [OF _ assms, of spins ah aj] validate_solution_reject [OF False, of spins edges h j ah aj]
    by (cases "problem_consistent spins nodes edges h j ah aj") auto
  then show ?thesis using False by simp
next
  case True
  have "validate_topology_consistency [] edges h j ah aj = [] \<longleftrightarrow> edges = [] \<and> h = [] \<and> j = []"
    by (cases edges) (auto simp: validate_topology_consistency_Nil_iff in_allowed_def edges_known_def split: option.splits)
  then show ?thesis using True
    by (auto simp: validate_solution_def energy_of_solution_def validate_shape_lengths_def Let_def)
qed

theorem validate_solution_panics_iff_witness:
  "validate_solution [] [] [] [] [] None None = None \<and> validate_solution [1] [] [] [] [] None None \<noteq> None \<and>
   validate_solution [] [] [(0, 1)] [] [5] None (Some [5]) \<noteq> None"
  using validate_solution_panics_iff [of "[]" "[]" "[]" "[]" "[]" None None] validate_solution_panics_iff [of "[]" "[]" "[]" "[]" "[1]" None None]
    validate_solution_panics_iff [of "[]" "[5]" "[]" "[(0, 1)]" "[]" None "Some [5]"]
  by (simp add: range_simps)

end
