(* ===== verification/Frame.thy ===== *)
theory Frame
  imports Prelude
begin

text \<open>
  The parts of the Substrate framework that the pallets call. Origins and dispatch errors are data.
  The balances pallet and other external services are third-party code: a record of functions over
  the state \<open>'b\<close> that they own, with the documented laws as predicates, and a concrete ledger that
  satisfies them. A dispatch that returns \<open>Inl\<close> is rolled back, so its state is not returned.
\<close>

subsection \<open>Origins and errors\<close>

datatype 'a raw_origin = Root | Signed 'a | Unsigned

datatype 'e dispatch_error = BadOrigin | Module 'e | Other nat

definition ensure_signed :: "'a raw_origin \<Rightarrow> 'e dispatch_error + 'a" where
  "ensure_signed origin = (case origin of Signed who \<Rightarrow> Inr who | _ \<Rightarrow> Inl BadOrigin)"

definition ensure_root :: "'a raw_origin \<Rightarrow> 'e dispatch_error + unit" where
  "ensure_root origin = (case origin of Root \<Rightarrow> Inr () | _ \<Rightarrow> Inl BadOrigin)"

text \<open>\<open>EnsureOrigin::ensure_origin\<close> for a configured origin filter.\<close>

definition ensure_origin :: "('a raw_origin \<Rightarrow> bool) \<Rightarrow> 'a raw_origin \<Rightarrow> 'e dispatch_error + unit" where
  "ensure_origin admin origin = (if admin origin then Inr () else Inl BadOrigin)"

lemma ensure_signed_iff [simp]: "ensure_signed o1 = Inr who \<longleftrightarrow> o1 = Signed who"
  by (cases o1) (auto simp: ensure_signed_def)

lemma ensure_root_iff [simp]: "ensure_root o1 = Inr u \<longleftrightarrow> o1 = Root"
  by (cases o1) (auto simp: ensure_root_def)

lemma ensure_origin_iff [simp]: "ensure_origin admin o1 = Inr u \<longleftrightarrow> admin o1"
  by (simp add: ensure_origin_def)

lemma ensure_simps_origin [simp]: "ensure_signed (Signed who) = Inr who" "ensure_root Root = Inr ()"
  by (simp_all add: ensure_signed_def ensure_root_def)

subsection \<open>The currency\<close>

type_synonym balance = nat

record ('a, 'b) currency_ops =
  free_balance :: "'b \<Rightarrow> 'a \<Rightarrow> balance"
  reserved_balance :: "'b \<Rightarrow> 'a \<Rightarrow> balance"
  total_issuance :: "'b \<Rightarrow> balance"
  minimum_balance :: balance
  reserve :: "'a \<Rightarrow> balance \<Rightarrow> 'b \<Rightarrow> nat + 'b"
  unreserve :: "'a \<Rightarrow> balance \<Rightarrow> 'b \<Rightarrow> balance \<times> 'b"
  transfer :: "'a \<Rightarrow> 'a \<Rightarrow> balance \<Rightarrow> bool \<Rightarrow> 'b \<Rightarrow> nat + 'b"
  deposit_creating :: "'a \<Rightarrow> balance \<Rightarrow> 'b \<Rightarrow> balance \<times> 'b"

text \<open>
  What \<open>ReservableCurrency\<close> documents: a successful reservation moves the amount from the free to the
  reserved balance of the account; \<open>unreserve\<close> moves back as much as is there and returns the rest;
  neither touches another account.
\<close>

definition reserve_laws :: "('a, 'b) currency_ops \<Rightarrow> bool" where
  "reserve_laws cur \<longleftrightarrow>
     (\<forall>who d b b'. reserve cur who d b = Inr b' \<longrightarrow>
        d \<le> free_balance cur b who \<and>
        free_balance cur b' who = free_balance cur b who - d \<and>
        reserved_balance cur b' who = reserved_balance cur b who + d \<and>
        (\<forall>x. x \<noteq> who \<longrightarrow> free_balance cur b' x = free_balance cur b x \<and>
           reserved_balance cur b' x = reserved_balance cur b x)) \<and>
     (\<forall>who d b. let m = min d (reserved_balance cur b who); b' = snd (unreserve cur who d b) in
        fst (unreserve cur who d b) = d - m \<and>
        free_balance cur b' who = free_balance cur b who + m \<and>
        reserved_balance cur b' who = reserved_balance cur b who - m \<and>
        (\<forall>x. x \<noteq> who \<longrightarrow> free_balance cur b' x = free_balance cur b x \<and>
           reserved_balance cur b' x = reserved_balance cur b x))"

text \<open>
  What \<open>Currency\<close> documents about issuance: a transfer that keeps the sender alive moves the amount and
  issues nothing; the imbalance of \<open>deposit_creating\<close> is what the account received and, once dropped,
  what was issued. Neither touches another account.
\<close>

definition issuance_laws :: "('a, 'b) currency_ops \<Rightarrow> bool" where
  "issuance_laws cur \<longleftrightarrow>
     (\<forall>src dst d b b'. transfer cur src dst d True b = Inr b' \<longrightarrow>
        total_issuance cur b' = total_issuance cur b \<and>
        (src \<noteq> dst \<longrightarrow>
           d \<le> free_balance cur b src \<and>
           free_balance cur b' src = free_balance cur b src - d \<and>
           free_balance cur b' dst = free_balance cur b dst + d \<and>
           (\<forall>x. x \<noteq> src \<and> x \<noteq> dst \<longrightarrow> free_balance cur b' x = free_balance cur b x))) \<and>
     (\<forall>who d b. let (p, b') = deposit_creating cur who d b in
        total_issuance cur b' = total_issuance cur b + p \<and>
        free_balance cur b' who = free_balance cur b who + p \<and>
        (\<forall>x. x \<noteq> who \<longrightarrow> free_balance cur b' x = free_balance cur b x))"

lemma transfer_keep_alive:
  assumes "issuance_laws cur" "transfer cur src dst d True b = Inr b'"
  shows "total_issuance cur b' = total_issuance cur b"
    "src \<noteq> dst \<Longrightarrow> d \<le> free_balance cur b src"
    "src \<noteq> dst \<Longrightarrow> free_balance cur b' src = free_balance cur b src - d"
    "src \<noteq> dst \<Longrightarrow> free_balance cur b' dst = free_balance cur b dst + d"
    "src \<noteq> dst \<Longrightarrow> x \<noteq> src \<Longrightarrow> x \<noteq> dst \<Longrightarrow> free_balance cur b' x = free_balance cur b x"
  using assms unfolding issuance_laws_def by blast+

lemma deposit_creating_issues:
  assumes "issuance_laws cur" "deposit_creating cur who d b = (p, b')"
  shows "total_issuance cur b' = total_issuance cur b + p"
    "free_balance cur b' who = free_balance cur b who + p"
    "x \<noteq> who \<Longrightarrow> free_balance cur b' x = free_balance cur b x"
proof -
  have "let (p, b') = deposit_creating cur who d b in
        total_issuance cur b' = total_issuance cur b + p \<and>
        free_balance cur b' who = free_balance cur b who + p \<and>
        (\<forall>x. x \<noteq> who \<longrightarrow> free_balance cur b' x = free_balance cur b x)"
    using assms(1) unfolding issuance_laws_def by blast
  then show "total_issuance cur b' = total_issuance cur b + p"
    "free_balance cur b' who = free_balance cur b who + p"
    "x \<noteq> who \<Longrightarrow> free_balance cur b' x = free_balance cur b x"
    using assms(2) by simp_all
qed

text \<open>
  A transfer, with or without keeping the sender alive, credits the receiver with the whole amount, takes at
  least that much from the sender (dust below the existential deposit may go as well), and changes no
  other account and no reserved balance.
\<close>

definition transfer_laws :: "('a, 'b) currency_ops \<Rightarrow> bool" where
  "transfer_laws cur \<longleftrightarrow>
     (\<forall>src dst d keep b b'. transfer cur src dst d keep b = Inr b' \<longrightarrow>
        (\<forall>x. reserved_balance cur b' x = reserved_balance cur b x) \<and>
        (\<forall>x. x \<noteq> src \<and> x \<noteq> dst \<longrightarrow> free_balance cur b' x = free_balance cur b x) \<and>
        (src \<noteq> dst \<longrightarrow> free_balance cur b' dst = free_balance cur b dst + d \<and>
           free_balance cur b' src + d \<le> free_balance cur b src))"

lemma reserve_moves:
  assumes "reserve_laws cur" "reserve cur who d b = Inr b'"
  shows "reserved_balance cur b' x = reserved_balance cur b x + (if x = who then d else 0)"
    "x \<noteq> who \<Longrightarrow> free_balance cur b' x = free_balance cur b x" "free_balance cur b' who + d = free_balance cur b who"
proof -
  have r: "d \<le> free_balance cur b who \<and> free_balance cur b' who = free_balance cur b who - d \<and>
      reserved_balance cur b' who = reserved_balance cur b who + d \<and>
      (\<forall>x. x \<noteq> who \<longrightarrow> free_balance cur b' x = free_balance cur b x \<and>
         reserved_balance cur b' x = reserved_balance cur b x)"
    using assms unfolding reserve_laws_def by blast
  then show "reserved_balance cur b' x = reserved_balance cur b x + (if x = who then d else 0)"
    "x \<noteq> who \<Longrightarrow> free_balance cur b' x = free_balance cur b x" "free_balance cur b' who + d = free_balance cur b who"
    by simp_all
qed

lemma unreserve_all:
  assumes "reserve_laws cur" "unreserve cur who d b = (0, b')"
  shows "d \<le> reserved_balance cur b who"
    "reserved_balance cur b' x = reserved_balance cur b x - (if x = who then d else 0)"
    "free_balance cur b' x = free_balance cur b x + (if x = who then d else 0)"
proof -
  have u: "let m = min d (reserved_balance cur b who) in
        0 = d - m \<and> free_balance cur b' who = free_balance cur b who + m \<and>
        reserved_balance cur b' who = reserved_balance cur b who - m \<and>
        (\<forall>x. x \<noteq> who \<longrightarrow> free_balance cur b' x = free_balance cur b x \<and>
           reserved_balance cur b' x = reserved_balance cur b x)"
  proof -
    have "let m = min d (reserved_balance cur b who); b' = snd (unreserve cur who d b) in
        fst (unreserve cur who d b) = d - m \<and>
        free_balance cur b' who = free_balance cur b who + m \<and>
        reserved_balance cur b' who = reserved_balance cur b who - m \<and>
        (\<forall>x. x \<noteq> who \<longrightarrow> free_balance cur b' x = free_balance cur b x \<and>
           reserved_balance cur b' x = reserved_balance cur b x)"
      using assms(1) unfolding reserve_laws_def by blast
    then show ?thesis by (simp add: assms(2) Let_def)
  qed
  then show le: "d \<le> reserved_balance cur b who" by (simp add: Let_def)
  show "reserved_balance cur b' x = reserved_balance cur b x - (if x = who then d else 0)"
    "free_balance cur b' x = free_balance cur b x + (if x = who then d else 0)"
    using u le by (auto simp: Let_def)
qed

lemma unreserve_covered:
  assumes "reserve_laws cur" "d \<le> reserved_balance cur b who" shows "\<exists>b'. unreserve cur who d b = (0, b')"
proof -
  have "fst (unreserve cur who d b) = d - min d (reserved_balance cur b who)"
    using assms(1) unfolding reserve_laws_def Let_def by blast
  then show ?thesis using assms(2) by (metis cancel_comm_monoid_add_class.diff_cancel min_absorb1 prod.collapse)
qed

lemma transfer_moves:
  assumes "transfer_laws cur" "transfer cur src dst d keep b = Inr b'"
  shows "reserved_balance cur b' x = reserved_balance cur b x"
    "x \<noteq> src \<Longrightarrow> free_balance cur b' x = free_balance cur b x + (if x = dst then d else 0)"
proof -
  have t: "(\<forall>x. reserved_balance cur b' x = reserved_balance cur b x) \<and>
      (\<forall>x. x \<noteq> src \<and> x \<noteq> dst \<longrightarrow> free_balance cur b' x = free_balance cur b x) \<and>
      (src \<noteq> dst \<longrightarrow> free_balance cur b' dst = free_balance cur b dst + d \<and> free_balance cur b' src + d \<le> free_balance cur b src)"
    using assms unfolding transfer_laws_def by blast
  then show "reserved_balance cur b' x = reserved_balance cur b x"
    "x \<noteq> src \<Longrightarrow> free_balance cur b' x = free_balance cur b x + (if x = dst then d else 0)"
    by auto
qed

subsection \<open>A concrete ledger\<close>

record 'a ledger =
  free_of :: "'a \<Rightarrow> balance"
  reserved_of :: "'a \<Rightarrow> balance"
  issued :: balance

definition ledger_reserve :: "'a \<Rightarrow> balance \<Rightarrow> 'a ledger \<Rightarrow> nat + 'a ledger" where
  "ledger_reserve who d b =
     (if d \<le> free_of b who
      then Inr (b\<lparr>free_of := (free_of b)(who := free_of b who - d),
                  reserved_of := (reserved_of b)(who := reserved_of b who + d)\<rparr>)
      else Inl 0)"

definition ledger_unreserve :: "'a \<Rightarrow> balance \<Rightarrow> 'a ledger \<Rightarrow> balance \<times> 'a ledger" where
  "ledger_unreserve who d b =
     (let m = min d (reserved_of b who)
      in (d - m, b\<lparr>free_of := (free_of b)(who := free_of b who + m),
                   reserved_of := (reserved_of b)(who := reserved_of b who - m)\<rparr>))"

definition ledger_transfer :: "'a \<Rightarrow> 'a \<Rightarrow> balance \<Rightarrow> bool \<Rightarrow> 'a ledger \<Rightarrow> nat + 'a ledger" where
  "ledger_transfer src dst d keep b =
     (if d \<le> free_of b src \<and> (keep \<longrightarrow> 1 \<le> free_of b src - d)
      then let f = (free_of b)(src := free_of b src - d) in Inr (b\<lparr>free_of := f(dst := f dst + d)\<rparr>)
      else Inl 0)"

definition ledger_deposit :: "'a \<Rightarrow> balance \<Rightarrow> 'a ledger \<Rightarrow> balance \<times> 'a ledger" where
  "ledger_deposit who d b =
     (d, b\<lparr>free_of := (free_of b)(who := free_of b who + d), issued := issued b + d\<rparr>)"

definition ledger_ops :: "('a, 'a ledger) currency_ops" where
  "ledger_ops =
     \<lparr>free_balance = free_of, reserved_balance = reserved_of, total_issuance = issued, minimum_balance = 1,
      reserve = ledger_reserve, unreserve = ledger_unreserve, transfer = ledger_transfer,
      deposit_creating = ledger_deposit\<rparr>"

lemma ledger_reserve_laws: "reserve_laws ledger_ops"
  by (auto simp: reserve_laws_def ledger_ops_def ledger_reserve_def ledger_unreserve_def Let_def
      split: if_splits)

lemma ledger_transfer_laws: "transfer_laws ledger_ops"
  by (auto simp: transfer_laws_def ledger_ops_def ledger_transfer_def Let_def split: if_splits)

lemma ledger_issuance_laws: "issuance_laws ledger_ops"
  by (auto simp: issuance_laws_def ledger_ops_def ledger_transfer_def ledger_deposit_def Let_def
      split: if_splits)

end
