(* ===== verification/Difficulty.thy ===== *)
theory Difficulty
  imports Energy Ising
begin

text \<open>
  \<open>pallets/quantum-pow/src/difficulty.rs\<close> and the difficulty configuration of \<open>types.rs\<close>: the energy
  curve of a topology, the easing of the threshold while a round is overdue and the hardening after a
  win. Floating-point operations round after each real operation (\<open>Energy\<close>). BLAKE3 and the SCALE
  encoding of its input are the parameter \<open>digest\<close>.
\<close>

subsection \<open>Data and constants\<close>

record difficulty_config =
  min_solutions :: u32
  max_energy_milli :: i64
  min_diversity_milli :: u32

definition default_difficulty :: difficulty_config where
  "default_difficulty = \<lparr>min_solutions = 5, max_energy_milli = -1200000, min_diversity_milli = 200\<rparr>"

definition FAST_PROOF_BLOCKS :: u64 where "FAST_PROOF_BLOCKS = 60"
definition MIN_ENERGY_DELTA_MILLI :: i64 where "MIN_ENERGY_DELTA_MILLI = 1000"
definition DECAY_RATE_MILLI :: u32 where "DECAY_RATE_MILLI = 25"
definition OVERDUE_EASE_RATE_MILLI :: u32 where "OVERDUE_EASE_RATE_MILLI = 25"

record curve_c =
  easy_milli :: u32
  knee_milli_c :: u32
  hard_milli :: u32

record energy_curve =
  min_milli :: i64
  knee_milli :: i64
  max_milli :: i64

subsection \<open>Operations\<close>

definition energy_curve_new ::
    "f64_ops \<Rightarrow> u32 \<Rightarrow> u32 \<Rightarrow> curve_c \<Rightarrow> allowed_value_spec \<Rightarrow> allowed_value_spec \<Rightarrow> validation_error + energy_curve" where
  "energy_curve_new fp num_nodes num_edges c allowed_h allowed_j =
     (let gse = (\<lambda>c_milli. expected_gse fp num_nodes num_edges (rnd fp (rnd fp (of_nat c_milli) / 1000))
                            allowed_h allowed_j)
      in and_then (gse (hard_milli c)) (\<lambda>lo.
         and_then (gse (knee_milli_c c)) (\<lambda>knee.
         and_then (gse (easy_milli c)) (\<lambda>hi.
           Inr \<lparr>min_milli = lo, knee_milli = knee, max_milli = hi\<rparr>))))"

text \<open>The base rate and its variance, from the number of blocks the round took.\<close>

definition rate_band :: "u64 \<Rightarrow> u32 \<Rightarrow> u32 \<times> u32" where
  "rate_band mining_time_blocks target_proof_blocks =
     (let target = max target_proof_blocks (FAST_PROOF_BLOCKS + 1)
      in if mining_time_blocks < FAST_PROOF_BLOCKS then (350, 300)
         else if mining_time_blocks > target then (50, 40)
         else let progress = (mining_time_blocks - FAST_PROOF_BLOCKS) * 1000 div (target - FAST_PROOF_BLOCKS)
              in (350 - (350 - 50) * progress div 1000, 300 - (300 - 40) * progress div 1000))"

definition sample_adjustment_milli :: "(bytes \<Rightarrow> u64 \<Rightarrow> bytes) \<Rightarrow> u64 \<Rightarrow> bytes \<Rightarrow> u32 \<Rightarrow> u32" where
  "sample_adjustment_milli digest mining_time_blocks seed target_proof_blocks =
     (let (base, variance) = rate_band mining_time_blocks target_proof_blocks;
          min_rate = max (sat_sub base variance) 1;
          max_rate = sat_add u32_max base variance;
          sample = u256_from_big_endian (take 8 (digest seed mining_time_blocks));
          span = sat_sub max_rate min_rate
      in min_rate + sample mod (span + 1))"

definition ease_room :: "f64_ops \<Rightarrow> i64 \<Rightarrow> u32 \<Rightarrow> u32 \<Rightarrow> real \<Rightarrow> i64" where
  "ease_room fp room blocks epoch_length rate =
     (if room \<le> 0 \<or> blocks = 0 \<or> epoch_length = 0 \<or> rate \<le> 0 \<or> rate \<ge> 1 then 0
      else
        let r = rnd fp;
            floor = r (of_int MIN_ENERGY_DELTA_MILLI);
            room_f = r (of_int room);
            epochs = r (r (of_nat blocks) / r (of_nat epoch_length));
            crossover = r (floor / rate);
            geometric_epochs =
              (if room_f \<le> crossover then 0
               else min (r (log_f64 fp (r (crossover / room_f)) / log_f64 fp (r (1 - rate)))) epochs);
            room_after_geometric = r (room_f * pow_f64 fp (r (1 - rate)) geometric_epochs);
            linear = r (r (epochs - geometric_epochs) * floor);
            eased = f64_as_i64 (round_f64 fp (r (r (room_f - room_after_geometric) + linear)))
        in min eased room)"

definition apply_decay ::
    "f64_ops \<Rightarrow> difficulty_config \<Rightarrow> u32 \<Rightarrow> u32 \<Rightarrow> energy_curve \<Rightarrow> u32 \<Rightarrow> difficulty_config" where
  "apply_decay fp current elapsed_blocks epoch_length curve target_proof_blocks =
     (let overdue = sat_sub elapsed_blocks target_proof_blocks
      in if max_milli curve \<le> min_milli curve \<or> overdue = 0 \<or> epoch_length = 0 then current
         else
           let room = sat_sub_i64 (max_milli curve) (max_energy_milli current);
               r = rnd fp;
               retained = r (r (1 - r (r (of_nat DECAY_RATE_MILLI) / 1000)) *
                             r (1 - r (r (of_nat OVERDUE_EASE_RATE_MILLI) / 1000)));
               eased = ease_room fp room overdue epoch_length (r (1 - retained))
           in current\<lparr>max_energy_milli := sat_add_i64 (max_energy_milli current) eased\<rparr>)"

definition max_hardening_delta :: "f64_ops \<Rightarrow> energy_curve \<Rightarrow> i64" where
  "max_hardening_delta fp curve =
     (let span = max (sat_sub_i64 (max_milli curve) (min_milli curve)) 0; r = rnd fp
      in max (f64_as_i64 (round_f64 fp (r (r (r (of_int span) * r (of_nat DECAY_RATE_MILLI)) / 1000))))
           MIN_ENERGY_DELTA_MILLI)"

definition adjust_on_proof ::
    "f64_ops \<Rightarrow> (bytes \<Rightarrow> u64 \<Rightarrow> bytes) \<Rightarrow> difficulty_config \<Rightarrow> i64 \<Rightarrow> u64 \<Rightarrow> energy_curve \<Rightarrow> bytes \<Rightarrow> u32 \<Rightarrow>
     difficulty_config" where
  "adjust_on_proof fp digest active winning_energy_milli mining_time_blocks curve randomness_seed
     target_proof_blocks =
     (let gap = sat_sub_i64 (max_energy_milli active) winning_energy_milli
      in if gap \<le> 0 then active
         else
           let rate_milli = sample_adjustment_milli digest mining_time_blocks randomness_seed target_proof_blocks;
               r = rnd fp;
               geometric = f64_as_i64 (round_f64 fp (r (r (r (of_int gap) * r (of_nat rate_milli)) / 1000)));
               delta = min (min (max geometric MIN_ENERGY_DELTA_MILLI) (max_hardening_delta fp curve)) gap
           in active\<lparr>max_energy_milli := sat_sub_i64 (max_energy_milli active) delta\<rparr>)"

definition current_difficulty ::
    "f64_ops \<Rightarrow> u32 \<Rightarrow> difficulty_config \<Rightarrow> u32 \<Rightarrow> u32 \<Rightarrow> energy_curve option \<Rightarrow> u32 \<Rightarrow> difficulty_config" where
  "current_difficulty fp block_number base_difficulty last_proof_block epoch_length curve target_proof_blocks =
     (if last_proof_block = 0 \<or> epoch_length = 0 then base_difficulty
      else let elapsed = sat_sub block_number last_proof_block
           in if elapsed = 0 then base_difficulty
              else case curve of
                Some c \<Rightarrow> apply_decay fp base_difficulty elapsed epoch_length c target_proof_blocks
              | None \<Rightarrow> base_difficulty)"

subsection \<open>The hardening rate\<close>

lemma rate_band_bounds:
  assumes "rate_band t target = (base, variance)"
  shows "variance < base" "10 \<le> base - variance" "base + variance \<le> 650" "90 \<le> base + variance"
proof -
  define T where "T = max target 61"
  define p where "p = (t - 60) * 1000 div (T - 60)"
  consider "base = 350" "variance = 300" | "base = 50" "variance = 40"
    | "t \<le> T" "base = 350 - 300 * p div 1000" "variance = 300 - 260 * p div 1000"
  proof (cases "t < 60"; cases "t > T")
    assume a: "\<not> t < 60" "\<not> t > T"
    then have "rate_band t target = (350 - 300 * p div 1000, 300 - 260 * p div 1000)"
      by (simp add: rate_band_def Let_def FAST_PROOF_BLOCKS_def T_def p_def) blast
    with a assms that(3) show thesis by simp
  qed (use assms that in \<open>simp_all add: rate_band_def Let_def FAST_PROOF_BLOCKS_def T_def\<close>)
  then have "variance < base \<and> 10 \<le> base - variance \<and> base + variance \<le> 650 \<and> 90 \<le> base + variance"
  proof cases
    case 3
    have "0 < T - 60" by (simp add: T_def)
    have "(t - 60) * 1000 \<le> (T - 60) * 1000" using 3(1) by simp
    then have "p \<le> (T - 60) * 1000 div (T - 60)" unfolding p_def by (rule div_le_mono)
    then have p: "p \<le> 1000" using \<open>0 < T - 60\<close> by simp
    define a b where "a = 300 * p div 1000" and "b = 260 * p div 1000"
    have "a \<le> 300" "b \<le> 260" "b \<le> a" "a \<le> b + 40"
      using p unfolding a_def b_def by linarith+
    moreover have "base = 350 - a" "variance = 300 - b" using 3 by (simp_all add: a_def b_def)
    ultimately show ?thesis by (intro conjI) linarith+
  qed simp_all
  then show "variance < base" "10 \<le> base - variance" "base + variance \<le> 650" "90 \<le> base + variance"
    by simp_all
qed

lemma sample_adjustment_in_band:
  assumes "rate_band t target = (base, variance)"
  shows "base - variance \<le> sample_adjustment_milli digest t seed target"
    and "sample_adjustment_milli digest t seed target \<le> base + variance"
proof -
  note b = rate_band_bounds [OF assms]
  let ?x = "u256_from_big_endian (take 8 (digest seed t))"
  have m: "max (base - variance) 1 = base - variance" "min (base + variance) u32_max = base + variance"
    using b unfolding u32_max_def by linarith+
  have eq: "sample_adjustment_milli digest t seed target =
      base - variance + ?x mod (base + variance - (base - variance) + 1)"
    using assms m by (simp add: sample_adjustment_milli_def sat_add_def)
  have "?x mod (base + variance - (base - variance) + 1) < base + variance - (base - variance) + 1" by simp
  then show "base - variance \<le> sample_adjustment_milli digest t seed target"
    and "sample_adjustment_milli digest t seed target \<le> base + variance"
    unfolding eq using b by linarith+
qed

lemma sample_adjustment_bounds:
  "10 \<le> sample_adjustment_milli digest t seed target" "sample_adjustment_milli digest t seed target \<le> 650"
proof -
  obtain base variance where bv: "rate_band t target = (base, variance)" by (cases "rate_band t target")
  show "10 \<le> sample_adjustment_milli digest t seed target" "sample_adjustment_milli digest t seed target \<le> 650"
    using rate_band_bounds [OF bv] sample_adjustment_in_band [OF bv, of digest seed] by linarith+
qed

subsection \<open>Hardening after a win\<close>

lemma max_hardening_delta_ge: "1000 \<le> max_hardening_delta fp curve"
  by (simp add: max_hardening_delta_def Let_def MIN_ENERGY_DELTA_MILLI_def)

text \<open>
  Documented facts of IEEE doubles that fix the size of a step: rounding is monotone and exact on integers up to
  \<open>2 ^ 53\<close>, and \<open>libm::round\<close> does not pass an integer.
\<close>

definition f64_integers :: "f64_ops \<Rightarrow> bool" where
  "f64_integers fp \<longleftrightarrow>
     mono (rnd fp) \<and> (\<forall>n::int. \<bar>n\<bar> \<le> 2 ^ 53 \<longrightarrow> rnd fp (of_int n) = of_int n) \<and>
     (\<forall>x (n::int). (of_int n \<le> x \<longrightarrow> of_int n \<le> round_f64 fp x) \<and> (x \<le> of_int n \<longrightarrow> round_f64 fp x \<le> of_int n))"

definition per_mille :: "f64_ops \<Rightarrow> i64 \<Rightarrow> u32 \<Rightarrow> i64" where
  "per_mille fp a k = f64_as_i64 (round_f64 fp (rnd fp (rnd fp (rnd fp (of_int a) * rnd fp (of_nat k)) / 1000)))"

lemma per_mille_near:
  assumes fp: "f64_integers fp" and a: "0 \<le> a" "a * int k \<le> 2 ^ 53" "a \<le> 2 ^ 53" "k \<le> 1000"
  shows "a * int k div 1000 \<le> per_mille fp a k" "per_mille fp a k \<le> a * int k div 1000 + 1"
proof -
  define q where "q = a * int k div 1000"
  have ex: "rnd fp (of_int n) = of_int n" if "\<bar>n\<bar> \<le> 2 ^ 53" for n using fp that by (simp add: f64_integers_def)
  have "rnd fp (of_int a) = of_int a" "rnd fp (of_int (int k)) = of_int (int k)" "rnd fp (of_int (a * int k)) = of_int (a * int k)"
    using a by (intro ex; simp)+
  then have p: "rnd fp (rnd fp (of_int a) * rnd fp (of_nat k)) = of_int (a * int k)" by simp
  have q: "q * 1000 \<le> a * int k" "a * int k \<le> (q + 1) * 1000" "0 \<le> q" "q + 1 \<le> 2 ^ 53"
    using a unfolding q_def by (simp_all add: pos_imp_zdiv_nonneg_iff)
  let ?x = "of_int (a * int k) / 1000 :: real"
  have "of_int (q * 1000) \<le> (of_int (a * int k) :: real)" "(of_int (a * int k) :: real) \<le> of_int ((q + 1) * 1000)"
    using q(1,2) by (simp_all only: of_int_le_iff)
  then have "of_int q \<le> ?x" "?x \<le> of_int (q + 1)" by simp_all
  then have "rnd fp (of_int q) \<le> rnd fp ?x" "rnd fp ?x \<le> rnd fp (of_int (q + 1))"
    using fp by (auto simp: f64_integers_def mono_def)
  then have "of_int q \<le> rnd fp ?x" "rnd fp ?x \<le> of_int (q + 1)" using ex [of q] ex [of "q + 1"] q by simp_all
  then have r: "of_int q \<le> round_f64 fp (rnd fp ?x)" "round_f64 fp (rnd fp ?x) \<le> of_int (q + 1)"
    using fp unfolding f64_integers_def by blast+
  have i: "f64_as_i64 (of_int q) = q" "f64_as_i64 (of_int (q + 1)) = q + 1"
    using q(3,4) by (simp_all add: f64_as_i64_def clamp_i64_id range_simps)
  show "a * int k div 1000 \<le> per_mille fp a k" "per_mille fp a k \<le> a * int k div 1000 + 1"
    using f64_as_i64_mono [OF r(1)] f64_as_i64_mono [OF r(2)] unfolding per_mille_def p q_def [symmetric] i by simp_all
qed

lemma within_one: "q \<le> x \<Longrightarrow> x \<le> q + 1 \<Longrightarrow> x \<in> {q, q + 1}" for x q :: int
  by auto

lemma within_one_max:
  fixes x q :: int
  assumes "max 1000 q \<le> x" "x \<le> max 1000 (q + 1)"
  obtains p where "p \<in> {q, q + 1}" "x = max p 1000"
proof -
  have "x = max q 1000 \<or> x = max (q + 1) 1000" using assms by linarith
  with that show thesis by blast
qed

lemma adjust_on_proof_cases:
  fixes fp digest t curve seed target
  assumes "in_i64 (max_energy_milli active)" "in_i64 w"
  defines "next_cfg \<equiv> adjust_on_proof fp digest active w t curve seed target"
  shows "min_solutions next_cfg = min_solutions active"
    and "min_diversity_milli next_cfg = min_diversity_milli active"
    and "w < max_energy_milli active \<Longrightarrow>
      w \<le> max_energy_milli next_cfg \<and> max_energy_milli next_cfg < max_energy_milli active \<and>
      max_energy_milli active - max_energy_milli next_cfg \<le> max_hardening_delta fp curve \<and>
      (max_energy_milli active - w \<le> 2 ^ 53 \<longrightarrow> max_energy_milli active - max_energy_milli next_cfg =
         min (min (max (per_mille fp (max_energy_milli active - w) (sample_adjustment_milli digest t seed target)) 1000)
           (max_hardening_delta fp curve)) (max_energy_milli active - w)) \<and>
      min 1000 (max_energy_milli active - w) \<le> max_energy_milli active - max_energy_milli next_cfg"
    and "\<not> w < max_energy_milli active \<Longrightarrow> next_cfg = active"
proof -
  define gap where "gap = sat_sub_i64 (max_energy_milli active) w"
  have gap_le: "w < max_energy_milli active \<Longrightarrow> 0 < gap \<and> gap \<le> max_energy_milli active - w \<and>
      min 1000 (max_energy_milli active - w) \<le> gap \<and> (max_energy_milli active - w \<le> 2 ^ 53 \<longrightarrow> gap = max_energy_milli active - w)"
    "\<not> w < max_energy_milli active \<Longrightarrow> gap \<le> 0"
    by (auto simp: gap_def sat_simps range_simps)
  show "min_solutions next_cfg = min_solutions active"
    "min_diversity_milli next_cfg = min_diversity_milli active"
    by (simp_all add: next_cfg_def adjust_on_proof_def Let_def)
  show "next_cfg = active" if "\<not> w < max_energy_milli active"
    using gap_le(2) [OF that] by (simp add: next_cfg_def adjust_on_proof_def Let_def gap_def)
  show "w \<le> max_energy_milli next_cfg \<and> max_energy_milli next_cfg < max_energy_milli active \<and>
      max_energy_milli active - max_energy_milli next_cfg \<le> max_hardening_delta fp curve \<and>
      (max_energy_milli active - w \<le> 2 ^ 53 \<longrightarrow> max_energy_milli active - max_energy_milli next_cfg =
         min (min (max (per_mille fp (max_energy_milli active - w) (sample_adjustment_milli digest t seed target)) 1000)
           (max_hardening_delta fp curve)) (max_energy_milli active - w)) \<and>
      min 1000 (max_energy_milli active - w) \<le> max_energy_milli active - max_energy_milli next_cfg"
    if lt: "w < max_energy_milli active"
  proof -
    have g: "0 < gap" "gap \<le> max_energy_milli active - w" "min 1000 (max_energy_milli active - w) \<le> gap"
      and ge: "max_energy_milli active - w \<le> 2 ^ 53 \<Longrightarrow> gap = max_energy_milli active - w" using gap_le(1) [OF lt] by auto
    define geo where "geo = per_mille fp gap (sample_adjustment_milli digest t seed target)"
    define d where "d = min (min (max geo 1000) (max_hardening_delta fp curve)) gap"
    have n: "max_energy_milli next_cfg = sat_sub_i64 (max_energy_milli active) d"
      using g by (simp add: next_cfg_def adjust_on_proof_def Let_def gap_def [symmetric] MIN_ENERGY_DELTA_MILLI_def
          geo_def per_mille_def d_def)
    have d: "d \<le> max_hardening_delta fp curve" "d \<le> gap" "min 1000 gap \<le> d"
      using max_hardening_delta_ge [of fp curve] unfolding d_def by linarith+
    then have d0: "0 < d" using g by linarith
    have "in_i64 (max_energy_milli active - d)" using assms d d0 g unfolding range_simps by linarith
    then have "max_energy_milli active - max_energy_milli next_cfg = d"
      using n by (simp add: sat_sub_i64_def clamp_i64_id)
    moreover have "d = min (min (max (per_mille fp (max_energy_milli active - w) (sample_adjustment_milli digest t seed target)) 1000)
        (max_hardening_delta fp curve)) (max_energy_milli active - w)" if "max_energy_milli active - w \<le> 2 ^ 53"
      unfolding d_def geo_def ge [OF that] ..
    ultimately show ?thesis using d d0 g by linarith
  qed
qed

text \<open>The cap is 2.5% of the span of the curve, up to rounding, and at least the minimal step.\<close>

lemma max_hardening_delta_near:
  assumes "f64_integers fp" "0 \<le> max_milli curve - min_milli curve" "(max_milli curve - min_milli curve) * 25 \<le> 2 ^ 53"
  shows "max 1000 ((max_milli curve - min_milli curve) * 25 div 1000) \<le> max_hardening_delta fp curve \<and>
    max_hardening_delta fp curve \<le> max 1000 ((max_milli curve - min_milli curve) * 25 div 1000 + 1)"
proof -
  let ?span = "max_milli curve - min_milli curve"
  have "sat_sub_i64 (max_milli curve) (min_milli curve) = ?span"
    using assms(2,3) by (simp add: sat_sub_i64_def clamp_i64_id range_simps)
  then have "max_hardening_delta fp curve = max (per_mille fp ?span 25) 1000"
    using assms(2) by (simp add: max_hardening_delta_def per_mille_def DECAY_RATE_MILLI_def MIN_ENERGY_DELTA_MILLI_def Let_def)
  moreover have "?span \<le> 2 ^ 53" "?span * int 25 \<le> 2 ^ 53" using assms(2,3) by simp_all
  then have "?span * 25 div 1000 \<le> per_mille fp ?span 25" "per_mille fp ?span 25 \<le> ?span * 25 div 1000 + 1"
    using per_mille_near [OF assms(1,2), of 25] by simp_all
  ultimately show ?thesis by linarith
qed

subsection \<open>Easing of an overdue round\<close>

lemma ease_room_le: "0 \<le> room \<Longrightarrow> ease_room fp room blocks epoch rate \<le> room"
  by (simp add: ease_room_def Let_def)

lemma ease_room_nonpos: "room \<le> 0 \<Longrightarrow> ease_room fp room blocks epoch rate = 0"
  by (simp add: ease_room_def)

lemma f64_as_i64_nonneg: "0 \<le> x \<Longrightarrow> 0 \<le> f64_as_i64 x"
  using f64_as_i64_mono [of 0 x] by (simp add: f64_as_i64_def clamp_i64_id range_simps)

lemma rnd_le_one: "f64_laws fp \<Longrightarrow> x \<le> 1 \<Longrightarrow> rnd fp x \<le> 1"
  using rnd_mono [of fp x 1] unfolding f64_laws_def by (metis div_by_1 le0 power_0)

lemma rnd_ge_one: "f64_laws fp \<Longrightarrow> 1 \<le> x \<Longrightarrow> 1 \<le> rnd fp x"
  using rnd_mono [of fp 1 x] unfolding f64_laws_def by (metis div_by_1 le0 power_0)

lemma rnd_pow2:
  assumes "f64_laws fp" "k \<le> 1000"
  shows "rnd fp (2 ^ k) = 2 ^ k" "rnd fp (1 / 2 ^ k) = 1 / 2 ^ k"
  using assms unfolding f64_laws_def by blast+

lemma rnd_two63: "f64_laws fp \<Longrightarrow> x \<le> 2 ^ 63 \<Longrightarrow> rnd fp x \<le> 2 ^ 63"
proof -
  assume fp: "f64_laws fp" and x: "x \<le> 2 ^ 63"
  have "rnd fp (2 ^ 63) = 2 ^ 63" by (rule rnd_pow2 [OF fp]) simp
  with rnd_mono [OF fp x] show ?thesis by simp
qed

lemma rnd_tiny_pos: "f64_laws fp \<Longrightarrow> 1 / 2 ^ 63 \<le> x \<Longrightarrow> 0 < rnd fp x"
proof -
  assume fp: "f64_laws fp" and x: "1 / 2 ^ 63 \<le> x"
  have "rnd fp (1 / 2 ^ 63) = 1 / 2 ^ 63" by (rule rnd_pow2 [OF fp]) simp
  with rnd_mono [OF fp x] show ?thesis by (metis less_le_trans zero_less_divide_1_iff zero_less_numeral zero_less_power)
qed

text \<open>The duration of the geometric phase is between zero and the elapsed epochs.\<close>

lemma geometric_epochs_bounds:
  assumes fp: "f64_laws fp" and room: "0 < room" "in_i64 room" and rate: "0 < rate" "rate < 1" and e: "0 \<le> epochs"
  defines "g \<equiv> (if rnd fp (of_int room) \<le> rnd fp (rnd fp (of_int MIN_ENERGY_DELTA_MILLI) / rate) then 0
     else min (rnd fp (log_f64 fp (rnd fp (rnd fp (rnd fp (of_int MIN_ENERGY_DELTA_MILLI) / rate) / rnd fp (of_int room)))
                / log_f64 fp (rnd fp (1 - rate)))) epochs)"
  assumes tiny: "0 < rnd fp (1 - rate)"
  shows "0 \<le> g" "g \<le> epochs"
proof -
  define room_f crossover where "room_f = rnd fp (of_int room)" and
    "crossover = rnd fp (rnd fp (of_int MIN_ENERGY_DELTA_MILLI) / rate)"
  have "1 \<le> rnd fp (of_int MIN_ENERGY_DELTA_MILLI)"
    by (rule rnd_ge_one [OF fp]) (simp add: MIN_ENERGY_DELTA_MILLI_def)
  then have "1 \<le> rnd fp (of_int MIN_ENERGY_DELTA_MILLI) / rate" using rate by (simp add: pos_le_divide_eq)
  then have c: "1 \<le> crossover" unfolding crossover_def by (rule rnd_ge_one [OF fp])
  have rf: "room_f \<le> 2 ^ 63" unfolding room_f_def using room(2)
    by (intro rnd_two63 [OF fp]) (simp add: range_simps)
  have "0 \<le> rnd fp (log_f64 fp (rnd fp (crossover / room_f)) / log_f64 fp (rnd fp (1 - rate)))"
    if gt: "\<not> room_f \<le> crossover"
  proof -
    have q: "1 / 2 ^ 63 \<le> crossover / room_f" using c rf gt by (intro frac_le) auto
    have q1: "crossover / room_f \<le> 1" using c gt by (subst divide_le_eq_1_pos) auto
    have "log_f64 fp (rnd fp (crossover / room_f)) \<le> 0"
      using rnd_tiny_pos [OF fp q] rnd_le_one [OF fp q1] fp unfolding f64_laws_def by blast
    moreover have "log_f64 fp (rnd fp (1 - rate)) \<le> 0"
      using tiny rnd_le_one [OF fp, of "1 - rate"] rate fp unfolding f64_laws_def by auto
    ultimately show ?thesis by (intro rnd_nonneg [OF fp] divide_nonpos_nonpos)
  qed
  then show "0 \<le> g" "g \<le> epochs" using e unfolding g_def room_f_def [symmetric] crossover_def [symmetric] by auto
qed

lemma ease_room_nonneg:
  assumes fp: "f64_laws fp" and room: "in_i64 room" and tiny: "0 < rate \<and> rate < 1 \<Longrightarrow> 0 < rnd fp (1 - rate)"
  shows "0 \<le> ease_room fp room blocks epoch_length rate"
proof (cases "room \<le> 0 \<or> blocks = 0 \<or> epoch_length = 0 \<or> rate \<le> 0 \<or> rate \<ge> 1")
  case False
  define r where "r = rnd fp"
  note pos = rnd_nonneg [OF fp, folded r_def] and mono = rnd_mono [OF fp, folded r_def]
  define epochs where "epochs = r (r (of_nat blocks) / r (of_nat epoch_length))"
  define g where "g = (if r (of_int room) \<le> r (r (of_int MIN_ENERGY_DELTA_MILLI) / rate) then 0
     else min (r (log_f64 fp (r (r (r (of_int MIN_ENERGY_DELTA_MILLI) / rate) / r (of_int room)))
                / log_f64 fp (r (1 - rate)))) epochs)"
  have e: "0 \<le> epochs" unfolding epochs_def by (intro pos divide_nonneg_nonneg) simp_all
  have g: "0 \<le> g" "g \<le> epochs"
    using geometric_epochs_bounds [OF fp _ room _ _ e, of rate] False tiny unfolding g_def r_def by auto
  have p: "0 \<le> pow_f64 fp (r (1 - rate)) g" "pow_f64 fp (r (1 - rate)) g \<le> 1"
    using g(1) pos [of "1 - rate"] rnd_le_one [OF fp, of "1 - rate"] False fp
    unfolding f64_laws_def r_def by auto
  have rr: "0 \<le> r (of_int room)" using False by (intro pos) simp
  have "r (r (of_int room) * pow_f64 fp (r (1 - rate)) g) \<le> r (r (of_int room) * 1)"
    using p rr by (intro mono mult_left_mono) simp_all
  also have "\<dots> = r (of_int room)" using fp by (simp add: f64_laws_def r_def)
  finally have geo: "0 \<le> r (r (of_int room) - r (r (of_int room) * pow_f64 fp (r (1 - rate)) g))"
    by (intro pos) simp
  have lin: "0 \<le> r (r (epochs - g) * r (of_int MIN_ENERGY_DELTA_MILLI))"
    using g by (intro pos mult_nonneg_nonneg) (simp_all add: MIN_ENERGY_DELTA_MILLI_def)
  define x where "x = r (r (r (of_int room) - r (r (of_int room) * pow_f64 fp (r (1 - rate)) g)) +
    r (r (epochs - g) * r (of_int MIN_ENERGY_DELTA_MILLI)))"
  have "0 \<le> x" unfolding x_def using geo lin by (intro pos) simp
  then have "0 \<le> round_f64 fp x" using fp unfolding f64_laws_def mono_def by metis
  then have "0 \<le> f64_as_i64 (round_f64 fp x)" by (rule f64_as_i64_nonneg)
  moreover have "ease_room fp room blocks epoch_length rate = min (f64_as_i64 (round_f64 fp x)) room"
    using False unfolding ease_room_def Let_def x_def g_def epochs_def r_def by simp
  ultimately show ?thesis using False by simp
qed (auto simp: ease_room_def)

text \<open>The combined easing rate of \<open>apply_decay\<close>.\<close>

definition ease_rate :: "f64_ops \<Rightarrow> real" where
  "ease_rate fp =
     (let r = rnd fp
      in r (1 - r (r (1 - r (r (of_nat DECAY_RATE_MILLI) / 1000)) *
                   r (1 - r (r (of_nat OVERDUE_EASE_RATE_MILLI) / 1000)))))"

lemma apply_decay_cases:
  fixes fp cur elapsed epoch curve target
  assumes "in_i64 (max_energy_milli cur)" "in_i64 (max_milli curve)"
  defines "eased \<equiv> apply_decay fp cur elapsed epoch curve target"
  shows "min_solutions eased = min_solutions cur"
    and "min_diversity_milli eased = min_diversity_milli cur"
    and "elapsed \<le> target \<Longrightarrow> eased = cur"
    and "max_milli curve \<le> max_energy_milli cur \<Longrightarrow> eased = cur"
    and "max_energy_milli cur \<le> max_milli curve \<Longrightarrow> max_energy_milli eased \<le> max_milli curve"
    and "f64_laws fp \<Longrightarrow> 0 < rnd fp (1 - ease_rate fp) \<Longrightarrow> max_energy_milli cur \<le> max_energy_milli eased"
proof -
  define room where "room = sat_sub_i64 (max_milli curve) (max_energy_milli cur)"
  define e where "e = ease_room fp room (elapsed - target) epoch (ease_rate fp)"
  have room: "in_i64 room" by (simp add: room_def sat_sub_i64_def)
  have cases: "eased = cur \<or> eased = cur\<lparr>max_energy_milli := sat_add_i64 (max_energy_milli cur) e\<rparr>"
    unfolding eased_def apply_decay_def e_def room_def ease_rate_def by (simp add: Let_def)
  then show "min_solutions eased = min_solutions cur" "min_diversity_milli eased = min_diversity_milli cur"
    by auto
  show "eased = cur" if "elapsed \<le> target" using that by (simp add: eased_def apply_decay_def)
  have clamp: "clamp_i64 (max_energy_milli cur) = max_energy_milli cur" using assms(1) by (rule clamp_i64_id)
  show "eased = cur" if "max_milli curve \<le> max_energy_milli cur"
  proof -
    have "room \<le> 0" using that by (simp add: room_def sat_simps range_simps)
    then have "e = 0" by (simp add: e_def ease_room_nonpos)
    with cases clamp show ?thesis by (auto simp: sat_add_i64_def)
  qed
  show "max_energy_milli eased \<le> max_milli curve" if le: "max_energy_milli cur \<le> max_milli curve"
  proof -
    have r: "0 \<le> room" "room \<le> max_milli curve - max_energy_milli cur"
      using le by (auto simp: room_def sat_simps range_simps)
    then have "e \<le> room" unfolding e_def by (intro ease_room_le)
    with r have "max_energy_milli cur + e \<le> max_milli curve" by linarith
    then have "sat_add_i64 (max_energy_milli cur) e \<le> clamp_i64 (max_milli curve)"
      unfolding sat_add_i64_def by (rule clamp_i64_mono)
    also have "\<dots> = max_milli curve" using assms(2) by (rule clamp_i64_id)
    finally show ?thesis using cases le by auto
  qed
  show "max_energy_milli cur \<le> max_energy_milli eased" if fp: "f64_laws fp" "0 < rnd fp (1 - ease_rate fp)"
  proof -
    have "0 \<le> e" unfolding e_def using fp room by (intro ease_room_nonneg) auto
    then have "clamp_i64 (max_energy_milli cur) \<le> sat_add_i64 (max_energy_milli cur) e"
      unfolding sat_add_i64_def by (intro clamp_i64_mono) simp
    with cases clamp show ?thesis by auto
  qed
qed

subsection \<open>Properties\<close>

text \<open>
  C11: a win hardens the threshold of its topology by at least one energy unit, or exactly to the winning energy when
  that is nearer, never beyond the winning energy and never by more than the curve's cap; a proof at or above the
  threshold changes nothing, and the other difficulty parameters are never touched. This holds for every
  floating-point behaviour and every random seed. Where doubles count integers exactly, the step is the sampled
  rate of the gap, at least one unit, and the cap 2.5% of the span of the curve, both up to rounding to a unit.
\<close>

theorem adjust_on_proof_bounds:
  fixes fp digest t curve seed target
  assumes "in_i64 (max_energy_milli active)" "in_i64 w"
  defines "gap \<equiv> max_energy_milli active - w" and "width \<equiv> max_milli curve - min_milli curve"
    and "rate \<equiv> int (sample_adjustment_milli digest t seed target)"
  shows "let hardened = adjust_on_proof fp digest active w t curve seed target;
             step = max_energy_milli active - max_energy_milli hardened in
    min_solutions hardened = min_solutions active \<and>
    min_diversity_milli hardened = min_diversity_milli active \<and>
    (if 0 < gap
     then min 1000 gap \<le> step \<and> step \<le> gap \<and> step \<le> max_hardening_delta fp curve \<and>
       (f64_integers fp \<and> gap * 1000 \<le> 2 ^ 53 \<and> 0 \<le> width \<and> width * 25 \<le> 2 ^ 53 \<longrightarrow>
          (\<exists>geometric cap. geometric \<in> {gap * rate div 1000, gap * rate div 1000 + 1} \<and>
             cap \<in> {width * 25 div 1000, width * 25 div 1000 + 1} \<and>
             step = min (min (max geometric 1000) (max cap 1000)) gap))
     else hardened = active)"
proof -
  note c = adjust_on_proof_cases [OF assms(1,2), of fp digest t curve seed target]
  let ?hardened = "adjust_on_proof fp digest active w t curve seed target"
  let ?step = "max_energy_milli active - max_energy_milli ?hardened"
  have exact: "\<exists>geometric cap. geometric \<in> {gap * rate div 1000, gap * rate div 1000 + 1} \<and>
      cap \<in> {width * 25 div 1000, width * 25 div 1000 + 1} \<and> ?step = min (min (max geometric 1000) (max cap 1000)) gap"
    if g: "0 < gap" and f: "f64_integers fp" "gap * 1000 \<le> 2 ^ 53" "0 \<le> width" "width * 25 \<le> 2 ^ 53"
  proof -
    let ?geo = "per_mille fp gap (sample_adjustment_milli digest t seed target)"
    have k: "sample_adjustment_milli digest t seed target \<le> 650" by (rule sample_adjustment_bounds)
    then have "gap * rate \<le> gap * 1000" using g by (simp add: rate_def)
    then have r: "gap * int (sample_adjustment_milli digest t seed target) \<le> 2 ^ 53" using f(2) unfolding rate_def by linarith
    have s: "0 \<le> gap" "gap \<le> 2 ^ 53" "sample_adjustment_milli digest t seed target \<le> 1000" using g f(2) k by linarith+
    have "gap * rate div 1000 \<le> ?geo" "?geo \<le> gap * rate div 1000 + 1"
      unfolding rate_def by (rule per_mille_near [OF f(1) s(1) r s(2,3)])+
    then have geo: "?geo \<in> {gap * rate div 1000, gap * rate div 1000 + 1}" by (rule within_one)
    have "?step = min (min (max ?geo 1000) (max_hardening_delta fp curve)) gap" using c(3) g f(2) by (simp add: gap_def)
    moreover have "max 1000 (width * 25 div 1000) \<le> max_hardening_delta fp curve"
      "max_hardening_delta fp curve \<le> max 1000 (width * 25 div 1000 + 1)"
      using max_hardening_delta_near [OF f(1), of curve] f(3,4) unfolding width_def by blast+
    then obtain cap where "cap \<in> {width * 25 div 1000, width * 25 div 1000 + 1}" "max_hardening_delta fp curve = max cap 1000"
      by (rule within_one_max)
    ultimately show ?thesis using geo by metis
  qed
  show ?thesis unfolding Let_def
    using c exact by (auto simp: gap_def)
qed

theorem adjust_on_proof_bounds_witness:
  "let hardened = adjust_on_proof exact_f64 (\<lambda>s n. [0]) default_difficulty (-1300000) 10
     \<lparr>min_milli = -2000000, knee_milli = -1500000, max_milli = -1000000\<rparr> [] 100 in
   max_energy_milli hardened \<in> {-1205000, -1205001}"
proof -
  let ?c = "\<lparr>min_milli = -2000000, knee_milli = -1500000, max_milli = -1000000\<rparr>"
  have i: "in_i64 (max_energy_milli default_difficulty)" "in_i64 (-1300000)" by (simp_all add: default_difficulty_def range_simps)
  have f: "f64_integers exact_f64" by (simp add: f64_integers_def exact_f64_def mono_def)
  have r: "sample_adjustment_milli (\<lambda>s n. [0]) 10 [] 100 = 50"
    by (simp add: sample_adjustment_milli_def rate_band_def FAST_PROOF_BLOCKS_def u256_from_big_endian_def sat_add_def sat_sub_def u32_max_def)
  show ?thesis using adjust_on_proof_bounds [OF i, of exact_f64 "\<lambda>s n. [0]" 10 ?c "[]" 100] f
    by (auto simp: default_difficulty_def Let_def r)
qed

text \<open>
  the hardening rate lies in the documented band: within its variance of the base rate for the
  round's length, hence between 10 and 650 per mille, for every digest.
\<close>

theorem sample_adjustment_band:
  "(let (base, variance) = rate_band t target; rate = sample_adjustment_milli digest t seed target
    in base - variance \<le> rate \<and> rate \<le> base + variance \<and> variance < base \<and> 10 \<le> rate \<and> rate \<le> 650)"
proof -
  obtain base variance where bv: "rate_band t target = (base, variance)" by (cases "rate_band t target")
  show ?thesis using bv rate_band_bounds(1) [OF bv] sample_adjustment_in_band [OF bv, of digest seed]
      sample_adjustment_bounds [of digest t seed target] by (simp add: Let_def)
qed

text \<open>
  an overdue round only eases the threshold, never past the easy end of the curve; until the target
  number of blocks has passed, and once the threshold is at the easy end, nothing changes.
\<close>

theorem apply_decay_bounds:
  assumes "in_i64 (max_energy_milli cur)" "in_i64 (max_milli curve)"
    and "f64_laws fp" "0 < rnd fp (1 - ease_rate fp)"
  shows "let eased = apply_decay fp cur elapsed epoch curve target in
    max_energy_milli cur \<le> max_energy_milli eased \<and>
    max_energy_milli eased \<le> max (max_energy_milli cur) (max_milli curve) \<and>
    (elapsed \<le> target \<or> max_milli curve \<le> max_energy_milli cur \<longrightarrow> eased = cur) \<and>
    min_solutions eased = min_solutions cur \<and> min_diversity_milli eased = min_diversity_milli cur"
proof -
  note c = apply_decay_cases [OF assms(1,2), where fp = fp and elapsed = elapsed and epoch = epoch and target = target]
  show ?thesis unfolding Let_def using c(1-5) c(6) [OF assms(3,4)]
    by (cases "max_energy_milli cur \<le> max_milli curve") auto
qed

theorem apply_decay_bounds_witness:
  "let eased = apply_decay exact_f64 default_difficulty 150 100
     \<lparr>min_milli = -2000000, knee_milli = -1500000, max_milli = -1000000\<rparr> 100 in
   -1200000 \<le> max_energy_milli eased \<and> max_energy_milli eased \<le> -1000000"
proof -
  let ?c = "\<lparr>min_milli = -2000000, knee_milli = -1500000, max_milli = -1000000\<rparr>"
  have t: "in_i64 (max_energy_milli default_difficulty)" "in_i64 (max_milli ?c)"
    by (simp_all add: default_difficulty_def range_simps)
  have r: "0 < rnd exact_f64 (1 - ease_rate exact_f64)"
    by (simp add: ease_rate_def exact_f64_def DECAY_RATE_MILLI_def OVERDUE_EASE_RATE_MILLI_def)
  show ?thesis using apply_decay_bounds [OF t exact_f64_laws r, of 150 100 100]
    by (simp add: default_difficulty_def Let_def)
qed

end
