(* ===== verification/Pow_State.thy ===== *)
theory Pow_State
  imports Frame "HOL-Library.Product_Lexorder" Packed Diversity Solution_Validation Difficulty
begin

text \<open>
  \<open>pallets/quantum-pow\<close>: the stored types (\<open>types.rs\<close>), the canonical topology hash (\<open>topology.rs\<close>), the
  pallet's configuration, errors, events and storage, and its read-only functions (\<open>lib.rs\<close>).

  A storage map is a HOL map, a storage value with a default is a field. \<open>env\<close> is the state of the other
  pallets: balances and the reward payer act on it through the configuration's functions. Hash
  functions, SCALE encodings and the random generator are fields of the configuration as well.
\<close>

type_synonym h256 = bytes

subsection \<open>Stored types\<close>

record quantum_proof =
  qp_topology_hash :: h256
  qp_nonce :: nat
  qp_salt :: bytes
  qp_solutions :: "bytes list"
  qp_device_access_time_us :: u64

record topology_meta =
  tm_nodes :: "u32 list"
  tm_edges :: "(u32 \<times> u32) list"
  allowed_h_values :: allowed_value_spec
  allowed_j_values :: allowed_value_spec
  allowed_spin_values :: allowed_value_spec
  tm_registered_at :: nat

record miner_info =
  mi_registered_at :: nat
  mi_deposit :: balance
  proofs_submitted :: u32
  proofs_won :: u32
  rewards_earned :: balance

record 'a proof_record =
  pr_miner :: 'a
  pr_submitted_at :: nat
  pr_energy_milli :: i64
  pr_salt :: bytes
  pr_topology_hash :: h256
  pr_device_access_time_us :: u64

record proof_validation =
  best_energy_milli :: i64
  diversity_milli :: u32
  valid_solution_count :: u32

record mining_snapshot =
  ms_last_proof_block_hash :: h256
  ms_difficulty :: difficulty_config
  ms_topology_hash :: h256
  ms_topology :: topology_meta

record 'a qblock =
  qb_miner :: 'a
  qb_salt :: bytes
  qb_energy_milli :: i64
  qb_reward :: balance
  qb_submitted_at :: nat
  qb_difficulty :: difficulty_config
  qb_last_proof_block_hash :: h256
  qb_topology_hash :: h256
  qb_device_access_time_us :: u64

subsection \<open>Errors and events\<close>

datatype pow_error =
    MinerAlreadyRegistered
  | BlockRewardOutOfBounds
  | TargetProofBlocksOutOfBounds
  | MinerNotRegistered
  | TopologyAlreadyRegistered
  | TopologyNotRegistered
  | InvalidCurve
  | GraphTooSmall
  | InvalidTopology
  | ProofLimitReached
  | InvalidNonce
  | NoSolutionsSubmitted
  | InvalidSpinValues
  | PowSolutionLengthMismatch
  | InsufficientEnergy
  | InsufficientDiversity
  | InsufficientSolutions
  | PowEmptyAllowedValues
  | PowEncodingTooWide
  | PowPackedSolutionLengthMismatch
  | InvalidEncodedSpin
  | PackedSolutionTooLarge
  | TopologyNotMineable
  | TopologyIsDefault
  | MineableTopologyConflict
  | InvalidDiversityConfig

datatype 'a pow_event =
    MinerRegistered 'a balance
  | MinerDeregistered 'a
  | TopologyRegistered h256 u32 u32
  | BlockRewardChanged balance balance
  | TargetProofBlocksChanged u32 u32
  | DifficultyUpdated h256 difficulty_config
  | DefaultTopologySet h256
  | TopologyCurveSet h256
  | TopologyMineableAdded h256
  | TopologyMineableRemoved h256
  | ProofAccepted 'a i64 u32 u32
  | BlockWinner u64 nat 'a balance i64 nat

subsection \<open>Configuration and storage\<close>

record ('a, 'b, 'r) pow_config =
  max_nodes :: u32
  max_allowed_values :: u32
  min_nodes :: u32
  epoch_length :: nat
  miner_deposit :: balance
  const_block_reward :: balance
  min_block_reward :: balance
  max_block_reward :: balance
  admin_origin :: "'a raw_origin \<Rightarrow> bool"
  const_target_proof_blocks :: u32
  min_target_proof_blocks :: u32
  max_target_proof_blocks :: u32
  max_proofs_per_block :: u32
  curve_c_easy_milli :: u32
  curve_c_knee_milli :: u32
  curve_c_hard_milli :: u32
  currency :: "('a, 'b) currency_ops"
  reward_payment :: "'a \<Rightarrow> balance \<Rightarrow> 'b \<Rightarrow> balance \<times> 'b"
  fp_ops :: f64_ops
  rng :: "'r rng_ops"
  blake2_256 :: "bytes \<Rightarrow> bytes"
  blake3_256 :: "bytes \<Rightarrow> bytes"
  rate_digest :: "bytes \<Rightarrow> u64 \<Rightarrow> bytes"
  encode_account :: "'a \<Rightarrow> bytes"
  encode_seed :: "h256 \<Rightarrow> 'a \<Rightarrow> nat \<Rightarrow> bytes"
  encode_topology :: "u32 list \<times> (u32 \<times> u32) list \<times> bytes \<times> bytes \<times> bytes \<Rightarrow> bytes"

record ('a, 'b) pow_state =
  block_reward_override :: "balance option"
  target_proof_blocks_override :: "u32 option"
  registered_topologies :: "h256 \<rightharpoonup> topology_meta"
  default_topology :: "h256 option"
  difficulties :: "h256 \<rightharpoonup> difficulty_config"
  topology_curve_c :: "h256 \<rightharpoonup> curve_c"
  mineable_topologies :: "h256 set"
  miners :: "'a \<rightharpoonup> miner_info"
  block_best_proof :: "'a proof_record option"
  last_proof_block :: nat
  last_proof_block_hash :: h256
  block_proof_count :: u32
  qblocks :: "nat \<rightharpoonup> 'a qblock"
  qblock_count :: u64
  qblock_block_by_id :: "u64 \<rightharpoonup> nat"
  qblock_id_by_block :: "nat \<rightharpoonup> u64"
  pow_events :: "'a pow_event list"
  env :: 'b
  block_number :: nat
  parent_hash :: h256

definition deposit_event :: "'a pow_event \<Rightarrow> ('a, 'b) pow_state \<Rightarrow> ('a, 'b) pow_state" where
  "deposit_event ev s = s\<lparr>pow_events := pow_events s @ [ev]\<rparr>"

subsection \<open>The topology hash\<close>

definition canonical_edge :: "u32 \<times> u32 \<Rightarrow> u32 \<times> u32" where
  "canonical_edge e = (let (u, v) = e in if u \<le> v then (u, v) else (v, u))"

text \<open>\<open>sort_unstable\<close> on pairs is lexicographic; equal elements are indistinguishable.\<close>

definition hash_topology ::
    "('a, 'b, 'r) pow_config \<Rightarrow> u32 list \<Rightarrow> (u32 \<times> u32) list \<Rightarrow> allowed_value_spec \<Rightarrow> allowed_value_spec \<Rightarrow>
     allowed_value_spec \<Rightarrow> h256" where
  "hash_topology c nodes edges allowed_h allowed_j allowed_spin =
     blake2_256 c (encode_topology c
       (sort nodes, sort (map canonical_edge edges),
        canonical_bytes allowed_h, canonical_bytes allowed_j, canonical_bytes allowed_spin))"

subsection \<open>Read-only functions\<close>

definition block_reward :: "('a, 'b, 'r) pow_config \<Rightarrow> ('a, 'b) pow_state \<Rightarrow> balance" where
  "block_reward c s = (case block_reward_override s of Some r \<Rightarrow> r | None \<Rightarrow> const_block_reward c)"

definition target_proof_blocks :: "('a, 'b, 'r) pow_config \<Rightarrow> ('a, 'b) pow_state \<Rightarrow> u32" where
  "target_proof_blocks c s =
     (case target_proof_blocks_override s of Some t \<Rightarrow> t | None \<Rightarrow> const_target_proof_blocks c)"

definition energy_curve_for ::
    "('a, 'b, 'r) pow_config \<Rightarrow> ('a, 'b) pow_state \<Rightarrow> h256 \<Rightarrow> energy_curve option" where
  "energy_curve_for c s topology_hash =
     (case registered_topologies s topology_hash of
        None \<Rightarrow> None
      | Some topology \<Rightarrow>
          let cc = (case topology_curve_c s topology_hash of
                      Some cc \<Rightarrow> cc
                    | None \<Rightarrow> \<lparr>easy_milli = curve_c_easy_milli c, knee_milli_c = curve_c_knee_milli c,
                               hard_milli = curve_c_hard_milli c\<rparr>)
          in case energy_curve_new (fp_ops c) (length (tm_nodes topology)) (length (tm_edges topology)) cc
                    (allowed_h_values topology) (allowed_j_values topology) of
               Inr curve \<Rightarrow> Some curve
             | Inl _ \<Rightarrow> None)"

definition saturate_u32 :: "nat \<Rightarrow> u32" where
  "saturate_u32 n = min n u32_max"

definition current_difficulty_for ::
    "('a, 'b, 'r) pow_config \<Rightarrow> ('a, 'b) pow_state \<Rightarrow> h256 \<Rightarrow> nat \<Rightarrow> difficulty_config" where
  "current_difficulty_for c s topology_hash n =
     current_difficulty (fp_ops c) (saturate_u32 n)
       (case difficulties s topology_hash of Some d \<Rightarrow> d | None \<Rightarrow> default_difficulty)
       (saturate_u32 (last_proof_block s)) (saturate_u32 (epoch_length c))
       (energy_curve_for c s topology_hash) (target_proof_blocks c s)"

definition latest_qblock_id :: "('a, 'b) pow_state \<Rightarrow> u64 option" where
  "latest_qblock_id s = (if qblock_count s > 0 then Some (qblock_count s) else None)"

definition default_topology_meta :: "('a, 'b) pow_state \<Rightarrow> (h256 \<times> topology_meta) option" where
  "default_topology_meta s =
     Option.bind (default_topology s) (\<lambda>h. Option.bind (registered_topologies s h) (\<lambda>t. Some (h, t)))"

definition mining_snapshot_of ::
    "('a, 'b, 'r) pow_config \<Rightarrow> ('a, 'b) pow_state \<Rightarrow> h256 option \<Rightarrow> mining_snapshot option" where
  "mining_snapshot_of c s topology_hash =
     map_option (\<lambda>(h, topology).
       \<lparr>ms_last_proof_block_hash = last_proof_block_hash s,
        ms_difficulty = current_difficulty_for c s h (block_number s),
        ms_topology_hash = h, ms_topology = topology\<rparr>)
       (case topology_hash of
          Some h \<Rightarrow> map_option (Pair h) (registered_topologies s h)
        | None \<Rightarrow> default_topology_meta s)"

definition difficulty_for_api ::
    "('a, 'b, 'r) pow_config \<Rightarrow> ('a, 'b) pow_state \<Rightarrow> h256 \<Rightarrow> difficulty_config option" where
  "difficulty_for_api c s topology_hash =
     (if registered_topologies s topology_hash \<noteq> None
      then Some (current_difficulty_for c s topology_hash (block_number s)) else None)"

definition account_to_bytes :: "('a, 'b, 'r) pow_config \<Rightarrow> 'a \<Rightarrow> bytes" where
  "account_to_bytes c account = blake2_256 c (encode_account c account)"

definition hash_to_bytes_32 :: "('a, 'b, 'r) pow_config \<Rightarrow> bytes \<Rightarrow> bytes" where
  "hash_to_bytes_32 c encoded = (if length encoded = 32 then encoded else blake2_256 c encoded)"

definition qblock_with_nonce ::
    "('a, 'b, 'r) pow_config \<Rightarrow> ('a, 'b) pow_state \<Rightarrow> nat \<Rightarrow> ('a qblock \<times> nat) option" where
  "qblock_with_nonce c s n =
     map_option (\<lambda>solution.
       (solution, derive_nonce (blake3_256 c) (qb_last_proof_block_hash solution)
                    (account_to_bytes c (qb_miner solution)) (qb_salt solution))) (qblocks s n)"

definition qblock_with_nonce_by_id ::
    "('a, 'b, 'r) pow_config \<Rightarrow> ('a, 'b) pow_state \<Rightarrow> u64 \<Rightarrow> ('a qblock \<times> nat) option" where
  "qblock_with_nonce_by_id c s qblock_id =
     Option.bind (qblock_block_by_id s qblock_id) (qblock_with_nonce c s)"

subsection \<open>The hash identifies the puzzle definition\<close>

text \<open>Two puzzle definitions that differ only in the order of nodes, edges, edge endpoints and sets.\<close>

definition same_puzzle ::
    "u32 list \<times> (u32 \<times> u32) list \<times> allowed_value_spec \<times> allowed_value_spec \<times> allowed_value_spec \<Rightarrow>
     u32 list \<times> (u32 \<times> u32) list \<times> allowed_value_spec \<times> allowed_value_spec \<times> allowed_value_spec \<Rightarrow> bool" where
  "same_puzzle p q \<longleftrightarrow>
     (case p of (ns, es, ah, aj, as) \<Rightarrow> case q of (ns', es', ah', aj', as') \<Rightarrow>
        mset ns = mset ns' \<and> mset (map canonical_edge es) = mset (map canonical_edge es') \<and>
        same_spec ah ah' \<and> same_spec aj aj' \<and> same_spec as as')"

text \<open>The bytes that are hashed for a puzzle definition.\<close>

definition hashed_bytes ::
    "('a, 'b, 'r) pow_config \<Rightarrow>
     u32 list \<times> (u32 \<times> u32) list \<times> allowed_value_spec \<times> allowed_value_spec \<times> allowed_value_spec \<Rightarrow> bytes" where
  "hashed_bytes c p =
     (case p of (ns, es, ah, aj, as) \<Rightarrow>
        encode_topology c (sort ns, sort (map canonical_edge es), canonical_bytes ah, canonical_bytes aj, canonical_bytes as))"

text \<open>the topology hash does not depend on the order of nodes, edges, endpoints or set values, and two
  puzzle definitions with the same hash are the same up to that order, unless their own two encodings
  are distinct messages that collide under the hash function (the encoding is injective).\<close>

theorem hash_topology_identifies:
  assumes enc: "inj (encode_topology c)"
    and t: "spec_typed ah" "spec_typed aj" "spec_typed as" "spec_typed ah'" "spec_typed aj'" "spec_typed as'"
  shows "hash_topology c ns es ah aj as = hash_topology c ns' es' ah' aj' as' \<longleftrightarrow>
    same_puzzle (ns, es, ah, aj, as) (ns', es', ah', aj', as') \<or>
    (let m = hashed_bytes c (ns, es, ah, aj, as); m' = hashed_bytes c (ns', es', ah', aj', as')
     in m \<noteq> m' \<and> blake2_256 c m = blake2_256 c m')"
proof -
  let ?x = "(sort ns, sort (map canonical_edge es), canonical_bytes ah, canonical_bytes aj, canonical_bytes as)"
  let ?y = "(sort ns', sort (map canonical_edge es'), canonical_bytes ah', canonical_bytes aj', canonical_bytes as')"
  have "same_puzzle (ns, es, ah, aj, as) (ns', es', ah', aj', as') \<longleftrightarrow> ?x = ?y"
    using t by (simp add: same_puzzle_def sort_eq_iff_mset canonical_bytes_iff del: canonical_bytes.simps)
  moreover have "?x = ?y \<longleftrightarrow> encode_topology c ?x = encode_topology c ?y" using enc by (metis injD)
  ultimately show ?thesis unfolding hash_topology_def hashed_bytes_def Let_def prod.case by metis
qed

end
