(* ===== verification/Pow_Calls.thy ===== *)
theory Pow_Calls
  imports Pow_State
begin

text \<open>
  \<open>pallets/quantum-pow/src/lib.rs\<close>: the administrative and miner calls. Each returns \<open>Inl\<close> the dispatch
  error (state rolled back) or \<open>Inr\<close> the new state. The bounds of the \<open>BoundedVec\<close> arguments are
  those of the decoded call and appear as hypotheses where a lemma needs them.
\<close>

type_synonym ('a, 'b) call_result = "pow_error dispatch_error + ('a, 'b) pow_state"

subsection \<open>Miners\<close>

definition register_miner ::
    "('a, 'b, 'r) pow_config \<Rightarrow> 'a raw_origin \<Rightarrow> ('a, 'b) pow_state \<Rightarrow> ('a, 'b) call_result" where
  "register_miner c origin s =
     and_then (ensure_signed origin) (\<lambda>who.
     ensure (miners s who = None) (Module MinerAlreadyRegistered)
     (let deposit = miner_deposit c
      in and_then (map_err Other (reserve (currency c) who deposit (env s))) (\<lambda>env'.
         Inr (deposit_event (MinerRegistered who deposit)
           (s\<lparr>env := env',
              miners := (miners s)(who \<mapsto> \<lparr>mi_registered_at = block_number s, mi_deposit = deposit,
                proofs_submitted = 0, proofs_won = 0, rewards_earned = 0\<rparr>)\<rparr>)))))"

definition deregister_miner ::
    "('a, 'b, 'r) pow_config \<Rightarrow> 'a raw_origin \<Rightarrow> ('a, 'b) pow_state \<Rightarrow> ('a, 'b) call_result" where
  "deregister_miner c origin s =
     and_then (ensure_signed origin) (\<lambda>who.
     and_then (ok_or (miners s who) (Module MinerNotRegistered)) (\<lambda>miner.
       let (_, env') = unreserve (currency c) who (mi_deposit miner) (env s)
       in Inr (deposit_event (MinerDeregistered who)
            (s\<lparr>env := env', miners := (miners s)(who := None)\<rparr>))))"

subsection \<open>Topologies\<close>

definition check_spec :: "allowed_value_spec \<Rightarrow> pow_error dispatch_error + unit" where
  "check_spec spec =
     (case bits_per_value spec of
        Inr _ \<Rightarrow> Inr ()
      | Inl EmptyAllowedValues \<Rightarrow> Inl (Module PowEmptyAllowedValues)
      | Inl (EncodingTooWide _) \<Rightarrow> Inl (Module PowEncodingTooWide)
      | Inl _ \<Rightarrow> Inl (Module InvalidTopology))"

definition canonicalize_spec ::
    "('a, 'b, 'r) pow_config \<Rightarrow> allowed_value_spec \<Rightarrow> pow_error dispatch_error + allowed_value_spec" where
  "canonicalize_spec c spec =
     (case spec of
        Set vals \<Rightarrow>
          let inner = sort vals
          in if length inner \<le> max_allowed_values c then Inr (Set inner) else Inl (Module InvalidTopology)
      | other \<Rightarrow> Inr other)"

definition register_topology ::
    "('a, 'b, 'r) pow_config \<Rightarrow> 'a raw_origin \<Rightarrow> u32 list \<Rightarrow> (u32 \<times> u32) list \<Rightarrow> allowed_value_spec \<Rightarrow>
     allowed_value_spec \<Rightarrow> allowed_value_spec \<Rightarrow> ('a, 'b) pow_state \<Rightarrow> ('a, 'b) call_result" where
  "register_topology c origin nodes edges ah0 aj0 as0 s =
     and_then (ensure_root origin) (\<lambda>_.
     ensure (length nodes \<ge> min_nodes c) (Module GraphTooSmall)
     (and_then (check_spec ah0) (\<lambda>_.
      and_then (check_spec aj0) (\<lambda>_.
      and_then (check_spec as0) (\<lambda>_.
      and_then (canonicalize_spec c ah0) (\<lambda>ah.
      and_then (canonicalize_spec c aj0) (\<lambda>aj.
      and_then (canonicalize_spec c as0) (\<lambda>as.
      and_then (map_err (\<lambda>_. Module InvalidTopology) (packed_solution_byte_len (length nodes) as)) (\<lambda>packed_bytes.
      ensure (packed_bytes \<le> max_nodes c) (Module PackedSolutionTooLarge)
      (ensure (validate_topology_consistency nodes edges (replicate (length nodes) 0)
                 (replicate (length edges) 0) None None = [])
         (Module InvalidTopology)
      (let topology_hash = hash_topology c nodes edges ah aj as
       in ensure (registered_topologies s topology_hash = None) (Module TopologyAlreadyRegistered)
          (let s1 = s\<lparr>registered_topologies := (registered_topologies s)(topology_hash \<mapsto>
                        \<lparr>tm_nodes = nodes, tm_edges = edges, allowed_h_values = ah, allowed_j_values = aj,
                         allowed_spin_values = as, tm_registered_at = block_number s\<rparr>)\<rparr>;
               s2 = (if default_topology s1 = None
                     then s1\<lparr>default_topology := Some topology_hash,
                             mineable_topologies := insert topology_hash (mineable_topologies s1)\<rparr>
                     else s1)
           in Inr (deposit_event
                (TopologyRegistered topology_hash (length nodes) (length edges)) s2)))))))))))))"

definition set_default_topology ::
    "'a raw_origin \<Rightarrow> h256 \<Rightarrow> ('a, 'b) pow_state \<Rightarrow> ('a, 'b) call_result" where
  "set_default_topology origin topology_hash s =
     and_then (ensure_root origin) (\<lambda>_.
     ensure (registered_topologies s topology_hash \<noteq> None) (Module TopologyNotRegistered)
     (ensure (topology_hash \<in> mineable_topologies s) (Module TopologyNotMineable)
       (Inr (deposit_event (DefaultTopologySet topology_hash) (s\<lparr>default_topology := Some topology_hash\<rparr>)))))"

definition set_difficulty ::
    "'a raw_origin \<Rightarrow> h256 \<Rightarrow> difficulty_config \<Rightarrow> ('a, 'b) pow_state \<Rightarrow> ('a, 'b) call_result" where
  "set_difficulty origin topology_hash difficulty s =
     and_then (ensure_root origin) (\<lambda>_.
     ensure (registered_topologies s topology_hash \<noteq> None) (Module TopologyNotRegistered)
     (ensure (min_diversity_milli difficulty = 0 \<or> min_solutions difficulty \<ge> 2) (Module InvalidDiversityConfig)
       (Inr (deposit_event (DifficultyUpdated topology_hash difficulty)
          (s\<lparr>difficulties := (difficulties s)(topology_hash \<mapsto> difficulty)\<rparr>)))))"

definition set_topology_curve ::
    "('a, 'b, 'r) pow_config \<Rightarrow> 'a raw_origin \<Rightarrow> h256 \<Rightarrow> curve_c \<Rightarrow> ('a, 'b) pow_state \<Rightarrow> ('a, 'b) call_result" where
  "set_topology_curve c origin topology_hash cc s =
     and_then (ensure_root origin) (\<lambda>_.
     and_then (ok_or (registered_topologies s topology_hash) (Module TopologyNotRegistered)) (\<lambda>topology.
     ensure (easy_milli cc < knee_milli_c cc \<and> knee_milli_c cc < hard_milli cc) (Module InvalidCurve)
     (and_then (map_err (\<lambda>_. Module InvalidCurve)
        (energy_curve_new (fp_ops c) (length (tm_nodes topology)) (length (tm_edges topology)) cc
           (allowed_h_values topology) (allowed_j_values topology))) (\<lambda>curve.
      ensure (min_milli curve < knee_milli curve \<and> knee_milli curve < max_milli curve) (Module InvalidCurve)
        (Inr (deposit_event (TopologyCurveSet topology_hash)
           (s\<lparr>topology_curve_c := (topology_curve_c s)(topology_hash \<mapsto> cc)\<rparr>)))))))"

definition add_mineable_topology ::
    "'a raw_origin \<Rightarrow> h256 \<Rightarrow> ('a, 'b) pow_state \<Rightarrow> ('a, 'b) call_result" where
  "add_mineable_topology origin topology_hash s =
     and_then (ensure_root origin) (\<lambda>_.
     ensure (registered_topologies s topology_hash \<noteq> None) (Module TopologyNotRegistered)
     (if topology_hash \<notin> mineable_topologies s
      then let default = default_topology s;
               has_other_non_default = (\<exists>h \<in> mineable_topologies s. Some h \<noteq> default)
           in ensure (Some topology_hash \<noteq> default \<longrightarrow> \<not> has_other_non_default) (Module MineableTopologyConflict)
              (Inr (deposit_event (TopologyMineableAdded topology_hash)
                 (s\<lparr>mineable_topologies := insert topology_hash (mineable_topologies s)\<rparr>)))
      else Inr s))"

definition remove_mineable_topology ::
    "'a raw_origin \<Rightarrow> h256 \<Rightarrow> ('a, 'b) pow_state \<Rightarrow> ('a, 'b) call_result" where
  "remove_mineable_topology origin topology_hash s =
     and_then (ensure_root origin) (\<lambda>_.
     ensure (default_topology s \<noteq> Some topology_hash) (Module TopologyIsDefault)
     (if topology_hash \<in> mineable_topologies s
      then Inr (deposit_event (TopologyMineableRemoved topology_hash)
             (s\<lparr>mineable_topologies := mineable_topologies s - {topology_hash}\<rparr>))
      else Inr s))"

subsection \<open>Protocol parameters\<close>

definition set_block_reward ::
    "('a, 'b, 'r) pow_config \<Rightarrow> 'a raw_origin \<Rightarrow> balance \<Rightarrow> ('a, 'b) pow_state \<Rightarrow> ('a, 'b) call_result" where
  "set_block_reward c origin amount s =
     and_then (ensure_origin (admin_origin c) origin) (\<lambda>_.
     ensure (min_block_reward c \<le> amount \<and> amount \<le> max_block_reward c) (Module BlockRewardOutOfBounds)
       (Inr (deposit_event (BlockRewardChanged (block_reward c s) amount)
          (s\<lparr>block_reward_override := Some amount\<rparr>))))"

definition set_target_proof_blocks ::
    "('a, 'b, 'r) pow_config \<Rightarrow> 'a raw_origin \<Rightarrow> u32 \<Rightarrow> ('a, 'b) pow_state \<Rightarrow> ('a, 'b) call_result" where
  "set_target_proof_blocks c origin blocks s =
     and_then (ensure_origin (admin_origin c) origin) (\<lambda>_.
     ensure (min_target_proof_blocks c \<le> blocks \<and> blocks \<le> max_target_proof_blocks c)
       (Module TargetProofBlocksOutOfBounds)
       (Inr (deposit_event (TargetProofBlocksChanged (target_proof_blocks c s) blocks)
          (s\<lparr>target_proof_blocks_override := Some blocks\<rparr>))))"

text \<open>The assertions of \<open>integrity_test\<close> on the configuration.\<close>

definition integrity_test :: "('a, 'b, 'r) pow_config \<Rightarrow> bool" where
  "integrity_test c \<longleftrightarrow>
     min_target_proof_blocks c > FAST_PROOF_BLOCKS \<and>
     min_target_proof_blocks c \<le> const_target_proof_blocks c \<and>
     const_target_proof_blocks c \<le> max_target_proof_blocks c \<and>
     min_block_reward c \<le> const_block_reward c \<and> const_block_reward c \<le> max_block_reward c"

end
