(* ===== verification/Pow_Proofs.thy ===== *)
theory Pow_Proofs
  imports Pow_Calls
begin

text \<open>
  \<open>pallets/quantum-pow/src/lib.rs\<close>: validation and submission of proofs, and the block hooks that settle
  a round. A result of type \<open>option\<close> is \<open>None\<close> when the code panics (the division by a zero spin count
  in the diversity score).
\<close>

subsection \<open>Validation of a proof\<close>

definition decode_error :: "validation_error \<Rightarrow> pow_error dispatch_error" where
  "decode_error err =
     (case err of
        PackedSolutionLengthMismatch _ _ \<Rightarrow> Module PowPackedSolutionLengthMismatch
      | InvalidEncodedValue _ \<Rightarrow> Module InvalidEncodedSpin
      | _ \<Rightarrow> Module InvalidTopology)"

definition energy_error :: "validation_error \<Rightarrow> pow_error dispatch_error" where
  "energy_error err =
     (case err of
        SolutionLengthMismatch _ _ \<Rightarrow> Module PowSolutionLengthMismatch
      | InvalidSpinValue _ _ \<Rightarrow> Module InvalidSpinValues
      | _ \<Rightarrow> Module InvalidTopology)"

definition decode_solution :: "topology_meta \<Rightarrow> bytes \<Rightarrow> pow_error dispatch_error + i8 list" where
  "decode_solution topology packed =
     and_then (map_err decode_error
       (unpack_solution packed (length (tm_nodes topology)) (allowed_spin_values topology))) (\<lambda>milli.
     map_err (\<lambda>_. Module InvalidSpinValues) (spin_signs milli))"

text \<open>Scoring of the decoded solutions, after all energies are known.\<close>

definition score_solutions ::
    "difficulty_config \<Rightarrow> i8 list list \<Rightarrow> i64 list \<Rightarrow> (pow_error dispatch_error + proof_validation) option" where
  "score_solutions difficulty decoded energies =
     (let energy_valid_indices = filter (\<lambda>i. energies ! i < max_energy_milli difficulty) [0..<length energies];
          energy_valid_solutions = map (\<lambda>i. decoded ! i) energy_valid_indices;
          target_count = min (length energy_valid_solutions) (max (min_solutions difficulty) 1)
      in if energy_valid_indices = [] then Some (Inl (Module InsufficientEnergy))
         else case select_diverse energy_valid_solutions target_count of
           Inl _ \<Rightarrow> Some (Inl (Module InvalidSpinValues))
         | Inr selected_indices \<Rightarrow>
             (case calculate_diversity (map (\<lambda>i. energy_valid_solutions ! i) selected_indices) of
                None \<Rightarrow> None
              | Some (Inl _) \<Rightarrow> Some (Inl (Module InvalidSpinValues))
              | Some (Inr d) \<Rightarrow>
                  Some (Inr \<lparr>best_energy_milli = Min (set (map (\<lambda>i. energies ! i) energy_valid_indices)),
                             diversity_milli = d,
                             valid_solution_count = length energy_valid_solutions\<rparr>)))"

definition validate_proof ::
    "quantum_proof \<Rightarrow> topology_meta \<Rightarrow> topology_index \<Rightarrow> i32 list \<Rightarrow> i32 list \<Rightarrow> difficulty_config \<Rightarrow>
     (pow_error dispatch_error + proof_validation) option" where
  "validate_proof proof topology ix h j difficulty =
     (case collect_res (decode_solution topology) (qp_solutions proof) of
        Inl e \<Rightarrow> Some (Inl e)
      | Inr decoded \<Rightarrow>
          (case collect_res (\<lambda>spins. map_err energy_error
                   (energy_of_solution_indexed spins h (tm_edges topology) j ix)) decoded of
             Inl e \<Rightarrow> Some (Inl e)
           | Inr energies \<Rightarrow> score_solutions difficulty decoded energies))"

subsection \<open>Submission\<close>

text \<open>The checks of \<open>submit_proof\<close> up to the generated model.\<close>

definition submit_checks ::
    "('a, 'b, 'r) pow_config \<Rightarrow> 'a raw_origin \<Rightarrow> quantum_proof \<Rightarrow> ('a, 'b) pow_state \<Rightarrow>
     pow_error dispatch_error + ('a \<times> topology_meta \<times> topology_index \<times> i32 list \<times> i32 list)" where
  "submit_checks c origin proof s =
     and_then (ensure_signed origin) (\<lambda>who.
     ensure (miners s who \<noteq> None) (Module MinerNotRegistered)
     (ensure (block_proof_count s < max_proofs_per_block c) (Module ProofLimitReached)
     (ensure (qp_solutions proof \<noteq> []) (Module NoSolutionsSubmitted)
     (and_then (ok_or (registered_topologies s (qp_topology_hash proof)) (Module TopologyNotRegistered)) (\<lambda>topology.
      ensure (qp_topology_hash proof \<in> mineable_topologies s) (Module TopologyNotMineable)
      (ensure (length (tm_nodes topology) \<ge> min_nodes c) (Module GraphTooSmall)
      (let expected_nonce = derive_nonce (blake3_256 c) (last_proof_block_hash s)
             (account_to_bytes c who) (qp_salt proof)
       in ensure (qp_nonce proof = expected_nonce) (Module InvalidNonce)
       (and_then (map_err (\<lambda>_. Module InvalidTopology)
          (topology_index_new (tm_nodes topology) (tm_edges topology))) (\<lambda>ix.
        and_then (map_err (\<lambda>_. Module InvalidTopology)
          (generate_ising_model_indexed (rng c) (qp_nonce proof) (tm_nodes topology) (tm_edges topology)
             (allowed_h_values topology) (allowed_j_values topology) ix)) (\<lambda>(h, j).
        Inr (who, topology, ix, h, j)))))))))))"

text \<open>The state changes of an accepted proof.\<close>

definition accept_proof ::
    "'a \<Rightarrow> quantum_proof \<Rightarrow> proof_validation \<Rightarrow> ('a, 'b) pow_state \<Rightarrow> ('a, 'b) call_result" where
  "accept_proof who proof validation s =
     and_then (ok_or (miners s who) (Module MinerNotRegistered)) (\<lambda>miner.
       let record = \<lparr>pr_miner = who, pr_submitted_at = block_number s,
             pr_energy_milli = best_energy_milli validation, pr_salt = qp_salt proof,
             pr_topology_hash = qp_topology_hash proof,
             pr_device_access_time_us = qp_device_access_time_us proof\<rparr>;
           should_replace = (case block_best_proof s of
             Some existing \<Rightarrow> pr_energy_milli record < pr_energy_milli existing
           | None \<Rightarrow> True)
       in Inr (deposit_event (ProofAccepted who (best_energy_milli validation) (diversity_milli validation)
                 (valid_solution_count validation))
            (s\<lparr>miners := (miners s)(who \<mapsto>
                 miner\<lparr>proofs_submitted := sat_add u32_max (proofs_submitted miner) 1\<rparr>),
               block_best_proof := (if should_replace then Some record else block_best_proof s),
               block_proof_count := sat_add u32_max (block_proof_count s) 1\<rparr>)))"

definition submit_proof ::
    "('a, 'b, 'r) pow_config \<Rightarrow> 'a raw_origin \<Rightarrow> quantum_proof \<Rightarrow> ('a, 'b) pow_state \<Rightarrow>
     ('a, 'b) call_result option" where
  "submit_proof c origin proof s =
     (case submit_checks c origin proof s of
        Inl e \<Rightarrow> Some (Inl e)
      | Inr (who, topology, ix, h, j) \<Rightarrow>
          let current = current_difficulty_for c s (qp_topology_hash proof) (block_number s)
          in case validate_proof proof topology ix h j current of
               None \<Rightarrow> None
             | Some (Inl e) \<Rightarrow> Some (Inl e)
             | Some (Inr validation) \<Rightarrow>
                 Some (ensure (best_energy_milli validation < max_energy_milli current) (Module InsufficientEnergy)
                      (ensure (valid_solution_count validation \<ge> min_solutions current) (Module InsufficientSolutions)
                      (ensure (diversity_milli validation \<ge> min_diversity_milli current) (Module InsufficientDiversity)
                        (accept_proof who proof validation s)))))"

subsection \<open>Hooks\<close>

definition on_initialize :: "('a, 'b, 'r) pow_config \<Rightarrow> nat \<Rightarrow> ('a, 'b) pow_state \<Rightarrow> ('a, 'b) pow_state" where
  "on_initialize c n s =
     (let s1 = s\<lparr>block_proof_count := 0\<rparr>
      in if n = 1 \<or> (n > 1 \<and> sat_add u32_max (last_proof_block s1) 1 = n)
         then s1\<lparr>last_proof_block_hash := hash_to_bytes_32 c (parent_hash s1)\<rparr>
         else s1)"

definition credit_miner :: "'a \<Rightarrow> balance \<Rightarrow> ('a, 'b) pow_state \<Rightarrow> ('a, 'b) pow_state" where
  "credit_miner who reward s =
     (case miners s who of
        None \<Rightarrow> s
      | Some miner \<Rightarrow> s\<lparr>miners := (miners s)(who \<mapsto>
          miner\<lparr>proofs_won := sat_add u32_max (proofs_won miner) 1,
                rewards_earned := sat_add u128_max (rewards_earned miner) reward\<rparr>)\<rparr>)"

definition mining_time :: "('a, 'b, 'r) pow_config \<Rightarrow> nat \<Rightarrow> nat \<Rightarrow> u64" where
  "mining_time c previous_proof_block n =
     (if previous_proof_block = 0 \<or> n \<le> previous_proof_block then min (epoch_length c) u64_max
      else min (n - previous_proof_block) u64_max)"

definition next_difficulty ::
    "('a, 'b, 'r) pow_config \<Rightarrow> ('a, 'b) pow_state \<Rightarrow> 'a proof_record \<Rightarrow> nat \<Rightarrow> difficulty_config \<Rightarrow> difficulty_config" where
  "next_difficulty c s record n active =
     (case energy_curve_for c s (pr_topology_hash record) of
        Some curve \<Rightarrow> adjust_on_proof (fp_ops c) (rate_digest c) active (pr_energy_milli record)
          (mining_time c (last_proof_block s) n) curve
          (encode_seed c (parent_hash s) (pr_miner record) n) (target_proof_blocks c s)
      | None \<Rightarrow> active)"

definition next_qblock_id :: "('a, 'b) pow_state \<Rightarrow> u64 \<times> ('a, 'b) pow_state" where
  "next_qblock_id s = (let i = sat_add u64_max (qblock_count s) 1 in (i, s\<lparr>qblock_count := i\<rparr>))"

definition on_finalize :: "('a, 'b, 'r) pow_config \<Rightarrow> nat \<Rightarrow> ('a, 'b) pow_state \<Rightarrow> ('a, 'b) pow_state" where
  "on_finalize c n s0 =
     (case block_best_proof s0 of
        None \<Rightarrow> s0
      | Some record \<Rightarrow>
          let s1 = s0\<lparr>block_best_proof := None\<rparr>;
              (reward, env') = reward_payment c (pr_miner record) (block_reward c s1) (env s1);
              s2 = credit_miner (pr_miner record) reward (s1\<lparr>env := env'\<rparr>);
              used_hash = last_proof_block_hash s2;
              active = current_difficulty_for c s2 (pr_topology_hash record) n;
              next_d = next_difficulty c s2 record n active;
              s3 = s2\<lparr>difficulties := (difficulties s2)(pr_topology_hash record \<mapsto> next_d), last_proof_block := n\<rparr>;
              (qblock_id, s4) = next_qblock_id s3;
              s5 = s4\<lparr>qblocks := (qblocks s4)(n \<mapsto>
                       \<lparr>qb_miner = pr_miner record, qb_salt = pr_salt record,
                        qb_energy_milli = pr_energy_milli record, qb_reward = reward,
                        qb_submitted_at = pr_submitted_at record, qb_difficulty = active,
                        qb_last_proof_block_hash = used_hash, qb_topology_hash = pr_topology_hash record,
                        qb_device_access_time_us = pr_device_access_time_us record\<rparr>),
                     qblock_block_by_id := (qblock_block_by_id s4)(qblock_id \<mapsto> n),
                     qblock_id_by_block := (qblock_id_by_block s4)(n \<mapsto> qblock_id)\<rparr>
          in deposit_event (BlockWinner qblock_id n (pr_miner record) reward (pr_energy_milli record)
                 (pr_submitted_at record))
               (deposit_event (DifficultyUpdated (pr_topology_hash record) next_d) s5))"

end
