(* ===== verification/Pow_Chain.thy ===== *)
theory Pow_Chain
  imports Pow_Proofs
begin

text \<open>
  Execution of blocks by \<open>pallets/quantum-pow\<close> and what holds in every reachable state: \<open>on_initialize\<close>,
  the block's calls in order (a failed call leaves the state as it was), then \<open>on_finalize\<close>. The
  invariant covers the topology registry, the mineable whitelist, the difficulty entries, the council
  parameters and the qblock index.
\<close>

subsection \<open>Calls and blocks\<close>

datatype pow_call =
    RegisterMiner
  | DeregisterMiner
  | RegisterTopology "u32 list" "(u32 \<times> u32) list" allowed_value_spec allowed_value_spec allowed_value_spec
  | SetDefaultTopology h256
  | SetDifficulty h256 difficulty_config
  | SetTopologyCurve h256 curve_c
  | AddMineableTopology h256
  | RemoveMineableTopology h256
  | SetBlockReward balance
  | SetTargetProofBlocks u32
  | SubmitProof quantum_proof

fun dispatch ::
    "('a, 'b, 'r) pow_config \<Rightarrow> 'a raw_origin \<Rightarrow> pow_call \<Rightarrow> ('a, 'b) pow_state \<Rightarrow> ('a, 'b) call_result option" where
  "dispatch c origin RegisterMiner s = Some (register_miner c origin s)"
| "dispatch c origin DeregisterMiner s = Some (deregister_miner c origin s)"
| "dispatch c origin (RegisterTopology ns es ah aj as) s = Some (register_topology c origin ns es ah aj as s)"
| "dispatch c origin (SetDefaultTopology h) s = Some (set_default_topology origin h s)"
| "dispatch c origin (SetDifficulty h d) s = Some (set_difficulty origin h d s)"
| "dispatch c origin (SetTopologyCurve h cc) s = Some (set_topology_curve c origin h cc s)"
| "dispatch c origin (AddMineableTopology h) s = Some (add_mineable_topology origin h s)"
| "dispatch c origin (RemoveMineableTopology h) s = Some (remove_mineable_topology origin h s)"
| "dispatch c origin (SetBlockReward r) s = Some (set_block_reward c origin r s)"
| "dispatch c origin (SetTargetProofBlocks t) s = Some (set_target_proof_blocks c origin t s)"
| "dispatch c origin (SubmitProof p) s = submit_proof c origin p s"

definition apply_call ::
    "('a, 'b, 'r) pow_config \<Rightarrow> 'a raw_origin \<times> pow_call \<Rightarrow> ('a, 'b) pow_state \<Rightarrow> ('a, 'b) pow_state" where
  "apply_call c oc s =
     (case dispatch c (fst oc) (snd oc) s of Some (Inr s') \<Rightarrow> s' | _ \<Rightarrow> s)"

definition open_block ::
    "('a, 'b, 'r) pow_config \<Rightarrow> h256 \<Rightarrow> ('a, 'b) pow_state \<Rightarrow> ('a, 'b) pow_state" where
  "open_block c parent s =
     (let n = Suc (block_number s) in on_initialize c n (s\<lparr>block_number := n, parent_hash := parent\<rparr>))"

definition execute_block ::
    "('a, 'b, 'r) pow_config \<Rightarrow> h256 \<Rightarrow> ('a raw_origin \<times> pow_call) list \<Rightarrow> ('a, 'b) pow_state \<Rightarrow> ('a, 'b) pow_state" where
  "execute_block c parent calls s =
     (let s1 = fold (apply_call c) calls (open_block c parent s) in on_finalize c (block_number s1) s1)"

text \<open>The decoded arguments have their Rust types.\<close>

fun call_typed :: "pow_call \<Rightarrow> bool" where
  "call_typed (RegisterTopology ns es ah aj as) \<longleftrightarrow> spec_typed ah \<and> spec_typed aj \<and> spec_typed as"
| "call_typed (SetDifficulty h d) \<longleftrightarrow> in_i64 (max_energy_milli d)"
| "call_typed _ \<longleftrightarrow> True"

subsection \<open>The invariant\<close>

definition topology_ok :: "('a, 'b, 'r) pow_config \<Rightarrow> topology_meta \<Rightarrow> bool" where
  "topology_ok c t \<longleftrightarrow>
     min_nodes c \<le> length (tm_nodes t) \<and> distinct (tm_nodes t) \<and> edges_known (tm_nodes t) (tm_edges t) \<and>
     spec_valid (allowed_h_values t) \<and> spec_valid (allowed_j_values t) \<and> spec_valid (allowed_spin_values t) \<and>
     (\<exists>b \<le> max_nodes c. packed_solution_byte_len (length (tm_nodes t)) (allowed_spin_values t) = Inr b)"

definition topologies_ok :: "('a, 'b, 'r) pow_config \<Rightarrow> ('a, 'b) pow_state \<Rightarrow> bool" where
  "topologies_ok c s \<longleftrightarrow>
     (\<forall>h t. registered_topologies s h = Some t \<longrightarrow> topology_ok c t) \<and>
     (default_topology s = None \<longrightarrow> registered_topologies s = Map.empty) \<and>
     (\<forall>h. default_topology s = Some h \<longrightarrow> h \<in> mineable_topologies s) \<and>
     mineable_topologies s \<subseteq> dom (registered_topologies s) \<and>
     (\<forall>h h'. h \<in> mineable_topologies s \<longrightarrow> h' \<in> mineable_topologies s \<longrightarrow>
        Some h \<noteq> default_topology s \<longrightarrow> Some h' \<noteq> default_topology s \<longrightarrow> h = h')"

definition difficulties_ok :: "('a, 'b) pow_state \<Rightarrow> bool" where
  "difficulties_ok s \<longleftrightarrow>
     (\<forall>h d. difficulties s h = Some d \<longrightarrow>
        registered_topologies s h \<noteq> None \<and> (min_diversity_milli d = 0 \<or> 2 \<le> min_solutions d)) \<and>
     (\<forall>r. block_best_proof s = Some r \<longrightarrow> registered_topologies s (pr_topology_hash r) \<noteq> None)"

definition parameters_ok :: "('a, 'b, 'r) pow_config \<Rightarrow> ('a, 'b) pow_state \<Rightarrow> bool" where
  "parameters_ok c s \<longleftrightarrow>
     min_block_reward c \<le> block_reward c s \<and> block_reward c s \<le> max_block_reward c \<and>
     FAST_PROOF_BLOCKS < target_proof_blocks c s \<and> target_proof_blocks c s \<le> max_target_proof_blocks c"

definition qblocks_ok :: "('a, 'b) pow_state \<Rightarrow> bool" where
  "qblocks_ok s \<longleftrightarrow>
     dom (qblock_block_by_id s) = {1..qblock_count s} \<and>
     (\<forall>i n. qblock_block_by_id s i = Some n \<longleftrightarrow> qblock_id_by_block s n = Some i) \<and>
     dom (qblocks s) = dom (qblock_id_by_block s) \<and>
     (\<forall>i j n m. i < j \<longrightarrow> qblock_block_by_id s i = Some n \<longrightarrow> qblock_block_by_id s j = Some m \<longrightarrow> n < m) \<and>
     (\<forall>n \<in> dom (qblocks s). n \<le> last_proof_block s) \<and> last_proof_block s \<le> block_number s \<and>
     qblock_count s \<le> block_number s"

definition pow_inv :: "('a, 'b, 'r) pow_config \<Rightarrow> ('a, 'b) pow_state \<Rightarrow> bool" where
  "pow_inv c s \<longleftrightarrow> topologies_ok c s \<and> difficulties_ok s \<and> parameters_ok c s \<and> qblocks_ok s"

subsection \<open>Each call keeps the invariant\<close>

lemmas pow_inv_defs = pow_inv_def topologies_ok_def difficulties_ok_def parameters_ok_def qblocks_ok_def
  block_reward_def target_proof_blocks_def

lemma deposit_event_simps [simp]:
  "block_reward_override (deposit_event e s) = block_reward_override s"
  "target_proof_blocks_override (deposit_event e s) = target_proof_blocks_override s"
  "registered_topologies (deposit_event e s) = registered_topologies s"
  "default_topology (deposit_event e s) = default_topology s"
  "difficulties (deposit_event e s) = difficulties s"
  "topology_curve_c (deposit_event e s) = topology_curve_c s"
  "mineable_topologies (deposit_event e s) = mineable_topologies s"
  "miners (deposit_event e s) = miners s"
  "block_best_proof (deposit_event e s) = block_best_proof s"
  "last_proof_block (deposit_event e s) = last_proof_block s"
  "last_proof_block_hash (deposit_event e s) = last_proof_block_hash s"
  "block_proof_count (deposit_event e s) = block_proof_count s"
  "qblocks (deposit_event e s) = qblocks s"
  "qblock_count (deposit_event e s) = qblock_count s"
  "qblock_block_by_id (deposit_event e s) = qblock_block_by_id s"
  "qblock_id_by_block (deposit_event e s) = qblock_id_by_block s"
  "env (deposit_event e s) = env s"
  "block_number (deposit_event e s) = block_number s"
  "parent_hash (deposit_event e s) = parent_hash s"
  by (simp_all add: deposit_event_def)

text \<open>Each part of the invariant depends on the fields it reads only.\<close>

lemma topologies_ok_frame [simp]:
  "topologies_ok c (s\<lparr>block_reward_override := x_block_reward_override\<rparr>) = topologies_ok c s"
  "topologies_ok c (s\<lparr>target_proof_blocks_override := x_target_proof_blocks_override\<rparr>) = topologies_ok c s"
  "topologies_ok c (s\<lparr>difficulties := x_difficulties\<rparr>) = topologies_ok c s"
  "topologies_ok c (s\<lparr>topology_curve_c := x_topology_curve_c\<rparr>) = topologies_ok c s"
  "topologies_ok c (s\<lparr>miners := x_miners\<rparr>) = topologies_ok c s"
  "topologies_ok c (s\<lparr>block_best_proof := x_block_best_proof\<rparr>) = topologies_ok c s"
  "topologies_ok c (s\<lparr>last_proof_block := x_last_proof_block\<rparr>) = topologies_ok c s"
  "topologies_ok c (s\<lparr>last_proof_block_hash := x_last_proof_block_hash\<rparr>) = topologies_ok c s"
  "topologies_ok c (s\<lparr>block_proof_count := x_block_proof_count\<rparr>) = topologies_ok c s"
  "topologies_ok c (s\<lparr>qblocks := x_qblocks\<rparr>) = topologies_ok c s"
  "topologies_ok c (s\<lparr>qblock_count := x_qblock_count\<rparr>) = topologies_ok c s"
  "topologies_ok c (s\<lparr>qblock_block_by_id := x_qblock_block_by_id\<rparr>) = topologies_ok c s"
  "topologies_ok c (s\<lparr>qblock_id_by_block := x_qblock_id_by_block\<rparr>) = topologies_ok c s"
  "topologies_ok c (s\<lparr>pow_events := x_pow_events\<rparr>) = topologies_ok c s"
  "topologies_ok c (s\<lparr>env := x_env\<rparr>) = topologies_ok c s"
  "topologies_ok c (s\<lparr>block_number := x_block_number\<rparr>) = topologies_ok c s"
  "topologies_ok c (s\<lparr>parent_hash := x_parent_hash\<rparr>) = topologies_ok c s"
  "topologies_ok c (deposit_event ev s) = topologies_ok c s"
  by (simp_all add: topologies_ok_def deposit_event_def)

lemma difficulties_ok_frame [simp]:
  "difficulties_ok (s\<lparr>block_reward_override := x_block_reward_override\<rparr>) = difficulties_ok s"
  "difficulties_ok (s\<lparr>target_proof_blocks_override := x_target_proof_blocks_override\<rparr>) = difficulties_ok s"
  "difficulties_ok (s\<lparr>default_topology := x_default_topology\<rparr>) = difficulties_ok s"
  "difficulties_ok (s\<lparr>topology_curve_c := x_topology_curve_c\<rparr>) = difficulties_ok s"
  "difficulties_ok (s\<lparr>mineable_topologies := x_mineable_topologies\<rparr>) = difficulties_ok s"
  "difficulties_ok (s\<lparr>miners := x_miners\<rparr>) = difficulties_ok s"
  "difficulties_ok (s\<lparr>last_proof_block := x_last_proof_block\<rparr>) = difficulties_ok s"
  "difficulties_ok (s\<lparr>last_proof_block_hash := x_last_proof_block_hash\<rparr>) = difficulties_ok s"
  "difficulties_ok (s\<lparr>block_proof_count := x_block_proof_count\<rparr>) = difficulties_ok s"
  "difficulties_ok (s\<lparr>qblocks := x_qblocks\<rparr>) = difficulties_ok s"
  "difficulties_ok (s\<lparr>qblock_count := x_qblock_count\<rparr>) = difficulties_ok s"
  "difficulties_ok (s\<lparr>qblock_block_by_id := x_qblock_block_by_id\<rparr>) = difficulties_ok s"
  "difficulties_ok (s\<lparr>qblock_id_by_block := x_qblock_id_by_block\<rparr>) = difficulties_ok s"
  "difficulties_ok (s\<lparr>pow_events := x_pow_events\<rparr>) = difficulties_ok s"
  "difficulties_ok (s\<lparr>env := x_env\<rparr>) = difficulties_ok s"
  "difficulties_ok (s\<lparr>block_number := x_block_number\<rparr>) = difficulties_ok s"
  "difficulties_ok (s\<lparr>parent_hash := x_parent_hash\<rparr>) = difficulties_ok s"
  "difficulties_ok (deposit_event ev s) = difficulties_ok s"
  by (simp_all add: difficulties_ok_def deposit_event_def)

lemma parameters_ok_frame [simp]:
  "parameters_ok c (s\<lparr>registered_topologies := x_registered_topologies\<rparr>) = parameters_ok c s"
  "parameters_ok c (s\<lparr>default_topology := x_default_topology\<rparr>) = parameters_ok c s"
  "parameters_ok c (s\<lparr>difficulties := x_difficulties\<rparr>) = parameters_ok c s"
  "parameters_ok c (s\<lparr>topology_curve_c := x_topology_curve_c\<rparr>) = parameters_ok c s"
  "parameters_ok c (s\<lparr>mineable_topologies := x_mineable_topologies\<rparr>) = parameters_ok c s"
  "parameters_ok c (s\<lparr>miners := x_miners\<rparr>) = parameters_ok c s"
  "parameters_ok c (s\<lparr>block_best_proof := x_block_best_proof\<rparr>) = parameters_ok c s"
  "parameters_ok c (s\<lparr>last_proof_block := x_last_proof_block\<rparr>) = parameters_ok c s"
  "parameters_ok c (s\<lparr>last_proof_block_hash := x_last_proof_block_hash\<rparr>) = parameters_ok c s"
  "parameters_ok c (s\<lparr>block_proof_count := x_block_proof_count\<rparr>) = parameters_ok c s"
  "parameters_ok c (s\<lparr>qblocks := x_qblocks\<rparr>) = parameters_ok c s"
  "parameters_ok c (s\<lparr>qblock_count := x_qblock_count\<rparr>) = parameters_ok c s"
  "parameters_ok c (s\<lparr>qblock_block_by_id := x_qblock_block_by_id\<rparr>) = parameters_ok c s"
  "parameters_ok c (s\<lparr>qblock_id_by_block := x_qblock_id_by_block\<rparr>) = parameters_ok c s"
  "parameters_ok c (s\<lparr>pow_events := x_pow_events\<rparr>) = parameters_ok c s"
  "parameters_ok c (s\<lparr>env := x_env\<rparr>) = parameters_ok c s"
  "parameters_ok c (s\<lparr>block_number := x_block_number\<rparr>) = parameters_ok c s"
  "parameters_ok c (s\<lparr>parent_hash := x_parent_hash\<rparr>) = parameters_ok c s"
  "parameters_ok c (deposit_event ev s) = parameters_ok c s"
  by (simp_all add: parameters_ok_def block_reward_def target_proof_blocks_def deposit_event_def)

lemma qblocks_ok_frame [simp]:
  "qblocks_ok (s\<lparr>block_reward_override := x_block_reward_override\<rparr>) = qblocks_ok s"
  "qblocks_ok (s\<lparr>target_proof_blocks_override := x_target_proof_blocks_override\<rparr>) = qblocks_ok s"
  "qblocks_ok (s\<lparr>registered_topologies := x_registered_topologies\<rparr>) = qblocks_ok s"
  "qblocks_ok (s\<lparr>default_topology := x_default_topology\<rparr>) = qblocks_ok s"
  "qblocks_ok (s\<lparr>difficulties := x_difficulties\<rparr>) = qblocks_ok s"
  "qblocks_ok (s\<lparr>topology_curve_c := x_topology_curve_c\<rparr>) = qblocks_ok s"
  "qblocks_ok (s\<lparr>mineable_topologies := x_mineable_topologies\<rparr>) = qblocks_ok s"
  "qblocks_ok (s\<lparr>miners := x_miners\<rparr>) = qblocks_ok s"
  "qblocks_ok (s\<lparr>block_best_proof := x_block_best_proof\<rparr>) = qblocks_ok s"
  "qblocks_ok (s\<lparr>last_proof_block_hash := x_last_proof_block_hash\<rparr>) = qblocks_ok s"
  "qblocks_ok (s\<lparr>block_proof_count := x_block_proof_count\<rparr>) = qblocks_ok s"
  "qblocks_ok (s\<lparr>pow_events := x_pow_events\<rparr>) = qblocks_ok s"
  "qblocks_ok (s\<lparr>env := x_env\<rparr>) = qblocks_ok s"
  "qblocks_ok (s\<lparr>parent_hash := x_parent_hash\<rparr>) = qblocks_ok s"
  "qblocks_ok (deposit_event ev s) = qblocks_ok s"
  by (simp_all add: qblocks_ok_def deposit_event_def)

lemma topologies_okI:
  assumes "\<And>h t. registered_topologies s h = Some t \<Longrightarrow> topology_ok c t"
    and "default_topology s = None \<Longrightarrow> registered_topologies s = Map.empty"
    and "\<And>h. default_topology s = Some h \<Longrightarrow> h \<in> mineable_topologies s"
    and "mineable_topologies s \<subseteq> dom (registered_topologies s)"
    and "\<And>x y. x \<in> mineable_topologies s \<Longrightarrow> y \<in> mineable_topologies s \<Longrightarrow>
      Some x \<noteq> default_topology s \<Longrightarrow> Some y \<noteq> default_topology s \<Longrightarrow> x = y"
  shows "topologies_ok c s"
  using assms unfolding topologies_ok_def by blast

lemma topologies_okD:
  assumes "pow_inv c s"
  shows "\<And>h t. registered_topologies s h = Some t \<Longrightarrow> topology_ok c t"
    and "default_topology s = None \<Longrightarrow> registered_topologies s = Map.empty"
    and "\<And>h. default_topology s = Some h \<Longrightarrow> h \<in> mineable_topologies s"
    and "mineable_topologies s \<subseteq> dom (registered_topologies s)"
    and "\<And>x y. x \<in> mineable_topologies s \<Longrightarrow> y \<in> mineable_topologies s \<Longrightarrow>
      Some x \<noteq> default_topology s \<Longrightarrow> Some y \<noteq> default_topology s \<Longrightarrow> x = y"
  using assms unfolding pow_inv_def topologies_ok_def by blast+

lemma register_miner_inv: "register_miner c o1 s = Inr s' \<Longrightarrow> pow_inv c s \<Longrightarrow> pow_inv c s'"
  by (auto simp: register_miner_def Let_def pow_inv_def)

lemma deregister_miner_inv: "deregister_miner c o1 s = Inr s' \<Longrightarrow> pow_inv c s \<Longrightarrow> pow_inv c s'"
  by (auto simp: deregister_miner_def case_prod_unfold Let_def pow_inv_def)

lemma set_topology_curve_inv: "set_topology_curve c o1 h cc s = Inr s' \<Longrightarrow> pow_inv c s \<Longrightarrow> pow_inv c s'"
  by (auto simp: set_topology_curve_def Let_def pow_inv_def)

lemma set_default_topology_inv:
  assumes "set_default_topology o1 h s = Inr s'" "pow_inv c s"
  shows "pow_inv c s'"
proof -
  from assms(1) have h: "registered_topologies s h \<noteq> None" "h \<in> mineable_topologies s"
    and s': "s' = deposit_event (DefaultTopologySet h) (s\<lparr>default_topology := Some h\<rparr>)"
    by (auto simp: set_default_topology_def)
  have "topologies_ok c s" using assms(2) by (simp add: pow_inv_def)
  then have "topologies_ok c s'" using h unfolding topologies_ok_def s' by (simp, metis option.inject)
  then show ?thesis using assms(2) by (simp add: s' pow_inv_def)
qed

lemma set_difficulty_inv:
  assumes "set_difficulty o1 h d s = Inr s'" "pow_inv c s"
  shows "pow_inv c s'"
proof -
  from assms(1) have h: "registered_topologies s h \<noteq> None" "min_diversity_milli d = 0 \<or> 2 \<le> min_solutions d"
    and s': "s' = deposit_event (DifficultyUpdated h d) (s\<lparr>difficulties := (difficulties s)(h \<mapsto> d)\<rparr>)"
    by (auto simp: set_difficulty_def)
  have "difficulties_ok s'" using assms(2) h unfolding pow_inv_def difficulties_ok_def s' by simp
  then show ?thesis using assms(2) by (simp add: s' pow_inv_def)
qed

lemma set_block_reward_inv:
  assumes "set_block_reward c o1 r s = Inr s'" "pow_inv c s"
  shows "pow_inv c s'"
proof -
  from assms(1) have r: "min_block_reward c \<le> r" "r \<le> max_block_reward c"
    and s': "s' = deposit_event (BlockRewardChanged (block_reward c s) r) (s\<lparr>block_reward_override := Some r\<rparr>)"
    by (auto simp: set_block_reward_def)
  have "parameters_ok c s'" using assms(2) r
    unfolding pow_inv_def parameters_ok_def s' block_reward_def target_proof_blocks_def by simp
  then show ?thesis using assms(2) by (simp add: s' pow_inv_def)
qed

lemma set_target_proof_blocks_inv:
  assumes "integrity_test c" "set_target_proof_blocks c o1 t s = Inr s'" "pow_inv c s"
  shows "pow_inv c s'"
proof -
  from assms(2) have t: "min_target_proof_blocks c \<le> t" "t \<le> max_target_proof_blocks c"
    and s': "s' = deposit_event (TargetProofBlocksChanged (target_proof_blocks c s) t)
      (s\<lparr>target_proof_blocks_override := Some t\<rparr>)"
    by (auto simp: set_target_proof_blocks_def)
  have "parameters_ok c s'" using assms(1,3) t
    unfolding pow_inv_def parameters_ok_def s' block_reward_def target_proof_blocks_def integrity_test_def by simp
  then show ?thesis using assms(3) by (simp add: s' pow_inv_def)
qed

lemma add_mineable_topology_inv:
  assumes "add_mineable_topology o1 h s = Inr s'" "pow_inv c s"
  shows "pow_inv c s'"
proof (cases "h \<in> mineable_topologies s")
  case True
  with assms show ?thesis by (auto simp: add_mineable_topology_def)
next
  case False
  with assms(1) have h: "registered_topologies s h \<noteq> None"
    "Some h \<noteq> default_topology s \<Longrightarrow> \<forall>h' \<in> mineable_topologies s. Some h' = default_topology s"
    and s': "s' = deposit_event (TopologyMineableAdded h)
      (s\<lparr>mineable_topologies := insert h (mineable_topologies s)\<rparr>)"
    by (auto simp: add_mineable_topology_def Let_def)
  note t = topologies_okD [OF assms(2)]
  have "topologies_ok c s'" unfolding s' topologies_ok_frame
  proof (rule topologies_okI)
    show "mineable_topologies (s\<lparr>mineable_topologies := insert h (mineable_topologies s)\<rparr>) \<subseteq>
        dom (registered_topologies (s\<lparr>mineable_topologies := insert h (mineable_topologies s)\<rparr>))"
      using t(4) h(1) by auto
    fix x y assume "x \<in> mineable_topologies (s\<lparr>mineable_topologies := insert h (mineable_topologies s)\<rparr>)"
      "y \<in> mineable_topologies (s\<lparr>mineable_topologies := insert h (mineable_topologies s)\<rparr>)"
      "Some x \<noteq> default_topology (s\<lparr>mineable_topologies := insert h (mineable_topologies s)\<rparr>)"
      "Some y \<noteq> default_topology (s\<lparr>mineable_topologies := insert h (mineable_topologies s)\<rparr>)"
    then show "x = y" using h(2) t(5) [of x y] by auto
  qed (use t in simp_all)
  then show ?thesis using assms(2) by (simp add: s' pow_inv_def)
qed

lemma remove_mineable_topology_inv:
  assumes "remove_mineable_topology o1 h s = Inr s'" "pow_inv c s"
  shows "pow_inv c s'"
proof (cases "h \<in> mineable_topologies s")
  case False
  with assms show ?thesis by (auto simp: remove_mineable_topology_def)
next
  case True
  with assms(1) have h: "default_topology s \<noteq> Some h"
    and s': "s' = deposit_event (TopologyMineableRemoved h)
      (s\<lparr>mineable_topologies := mineable_topologies s - {h}\<rparr>)"
    by (auto simp: remove_mineable_topology_def)
  have t: "topologies_ok c s" using assms(2) by (simp add: pow_inv_def)
  have "topologies_ok c s'" using t h unfolding topologies_ok_def s' by auto
  then show ?thesis using assms(2) by (simp add: s' pow_inv_def)
qed

subsection \<open>Registration of a topology\<close>

lemma canonicalize_spec_Inr:
  assumes "canonicalize_spec c spec = Inr spec'" "check_spec spec = Inr ()" "spec_typed spec"
  shows "spec_valid spec'"
  using assms by (cases spec)
    (auto simp: canonicalize_spec_def check_spec_def spec_valid_def is_ok_iff list_all_iff Let_def
      split: if_splits sum.splits validation_error.splits)

lemma register_topology_Inr:
  assumes "register_topology c o1 ns es ah0 aj0 as0 s = Inr s'"
    and t: "spec_typed ah0" "spec_typed aj0" "spec_typed as0"
  shows "\<exists>ah aj as. let h = hash_topology c ns es ah aj as;
      meta = \<lparr>tm_nodes = ns, tm_edges = es, allowed_h_values = ah, allowed_j_values = aj,
              allowed_spin_values = as, tm_registered_at = block_number s\<rparr>;
      s1 = s\<lparr>registered_topologies := (registered_topologies s)(h \<mapsto> meta)\<rparr>
    in o1 = Root \<and> registered_topologies s h = None \<and> topology_ok c meta \<and>
       s' = deposit_event (TopologyRegistered h (length ns) (length es))
         (if default_topology s = None
          then s1\<lparr>default_topology := Some h, mineable_topologies := insert h (mineable_topologies s)\<rparr> else s1)"
proof -
  from assms(1) obtain ah aj as b where r: "o1 = Root" "min_nodes c \<le> length ns"
    "check_spec ah0 = Inr ()" "check_spec aj0 = Inr ()" "check_spec as0 = Inr ()"
    "canonicalize_spec c ah0 = Inr ah" "canonicalize_spec c aj0 = Inr aj" "canonicalize_spec c as0 = Inr as"
    "packed_solution_byte_len (length ns) as = Inr b" "b \<le> max_nodes c"
    "validate_topology_consistency ns es (replicate (length ns) 0) (replicate (length es) 0) None None = []"
    "registered_topologies s (hash_topology c ns es ah aj as) = None"
    and s': "s' = deposit_event (TopologyRegistered (hash_topology c ns es ah aj as) (length ns) (length es))
      (let h = hash_topology c ns es ah aj as;
           s1 = s\<lparr>registered_topologies := (registered_topologies s)(h \<mapsto>
             \<lparr>tm_nodes = ns, tm_edges = es, allowed_h_values = ah, allowed_j_values = aj,
              allowed_spin_values = as, tm_registered_at = block_number s\<rparr>)\<rparr>
       in if default_topology s = None
          then s1\<lparr>default_topology := Some h, mineable_topologies := insert h (mineable_topologies s)\<rparr> else s1)"
    by (auto simp: register_topology_def Let_def)
  have "distinct ns" "edges_known ns es"
    using r(11) by (simp_all add: validate_topology_consistency_Nil_iff)
  moreover have "spec_valid ah" "spec_valid aj" "spec_valid as"
    using canonicalize_spec_Inr r t by metis+
  ultimately have "topology_ok c \<lparr>tm_nodes = ns, tm_edges = es, allowed_h_values = ah, allowed_j_values = aj,
      allowed_spin_values = as, tm_registered_at = block_number s\<rparr>"
    using r by (auto simp: topology_ok_def)
  with r s' show ?thesis unfolding Let_def by blast
qed

lemma register_topology_inv:
  assumes reg: "register_topology c o1 ns es ah0 aj0 as0 s = Inr s'"
    and t: "spec_typed ah0" "spec_typed aj0" "spec_typed as0" and inv: "pow_inv c s"
  shows "pow_inv c s'"
proof -
  from register_topology_Inr [OF reg t] obtain h meta n m where r: "registered_topologies s h = None"
    "topology_ok c meta" and
    s': "s' = deposit_event (TopologyRegistered h n m)
      (if default_topology s = None
       then s\<lparr>registered_topologies := (registered_topologies s)(h \<mapsto> meta), default_topology := Some h,
              mineable_topologies := insert h (mineable_topologies s)\<rparr>
       else s\<lparr>registered_topologies := (registered_topologies s)(h \<mapsto> meta)\<rparr>)"
    unfolding Let_def by blast
  note t = topologies_okD [OF inv]
  have "difficulties_ok s'" using inv unfolding s' pow_inv_def difficulties_ok_def by auto
  moreover have "topologies_ok c s'"
  proof (cases "default_topology s")
    case None
    with t(2,4) have "registered_topologies s = Map.empty" "mineable_topologies s = {}" by auto
    with None r show ?thesis unfolding s' by (intro topologies_okI) (auto split: if_splits)
  next
    case (Some d)
    have "mineable_topologies s \<subseteq> insert h (dom (registered_topologies s))" using t(4) by blast
    with Some r have reg: "registered_topologies s' = (registered_topologies s)(h \<mapsto> meta)"
      "default_topology s' = default_topology s" "mineable_topologies s' = mineable_topologies s"
      by (simp_all add: s')
    show ?thesis
    proof (rule topologies_okI, unfold reg)
      show "mineable_topologies s \<subseteq> dom ((registered_topologies s)(h \<mapsto> meta))" using t(4) by auto
      fix h' t' assume "((registered_topologies s)(h \<mapsto> meta)) h' = Some t'"
      then show "topology_ok c t'" using t(1) [of h' t'] r(2) by (simp split: if_splits)
    qed (use Some t(3,5) in simp_all)
  qed
  moreover have "parameters_ok c s' \<and> qblocks_ok s'" using inv unfolding s' pow_inv_def by simp
  ultimately show ?thesis by (simp add: pow_inv_def)
qed

subsection \<open>Submission\<close>

lemma submit_checks_Inr:
  assumes "submit_checks c o1 p s = Inr (who, t, ix, h, j)"
  shows "o1 = Signed who \<and> miners s who \<noteq> None \<and> block_proof_count s < max_proofs_per_block c \<and>
    qp_solutions p \<noteq> [] \<and> registered_topologies s (qp_topology_hash p) = Some t \<and>
    qp_topology_hash p \<in> mineable_topologies s \<and> min_nodes c \<le> length (tm_nodes t) \<and>
    qp_nonce p = derive_nonce (blake3_256 c) (last_proof_block_hash s) (account_to_bytes c who) (qp_salt p) \<and>
    topology_index_new (tm_nodes t) (tm_edges t) = Inr ix \<and>
    generate_ising_model_indexed (rng c) (qp_nonce p) (tm_nodes t) (tm_edges t)
      (allowed_h_values t) (allowed_j_values t) ix = Inr (h, j)"
  using assms by (auto simp: submit_checks_def Let_def)

lemma submit_proof_Inr:
  assumes "submit_proof c o1 p s = Some (Inr s')"
  obtains who t ix h j v where "submit_checks c o1 p s = Inr (who, t, ix, h, j)"
    and "validate_proof p t ix h j (current_difficulty_for c s (qp_topology_hash p) (block_number s)) = Some (Inr v)"
    and "best_energy_milli v < max_energy_milli (current_difficulty_for c s (qp_topology_hash p) (block_number s))"
    and "min_solutions (current_difficulty_for c s (qp_topology_hash p) (block_number s)) \<le> valid_solution_count v"
    and "min_diversity_milli (current_difficulty_for c s (qp_topology_hash p) (block_number s)) \<le> diversity_milli v"
    and "accept_proof who p v s = Inr s'"
  using assms by (auto simp: submit_proof_def Let_def split: sum.splits option.splits prod.splits)

lemma accept_proof_inv:
  assumes "accept_proof who p v s = Inr s'" "registered_topologies s (qp_topology_hash p) \<noteq> None" "pow_inv c s"
  shows "pow_inv c s'"
proof -
  from assms(1) obtain m r where s': "s' = deposit_event
      (ProofAccepted who (best_energy_milli v) (diversity_milli v) (valid_solution_count v))
      (s\<lparr>miners := m, block_best_proof := r, block_proof_count := sat_add u32_max (block_proof_count s) 1\<rparr>)"
    and r: "r = block_best_proof s \<or> (\<exists>x. r = Some x \<and> pr_topology_hash x = qp_topology_hash p)"
    by (auto simp: accept_proof_def Let_def split: option.splits if_splits)
  have "difficulties_ok s'" using assms(2,3) r unfolding s' pow_inv_def difficulties_ok_def by auto
  then show ?thesis using assms(3) by (simp add: s' pow_inv_def)
qed

lemma submit_proof_inv:
  assumes "submit_proof c o1 p s = Some (Inr s')" "pow_inv c s"
  shows "pow_inv c s'"
  using assms(1)
proof (rule submit_proof_Inr)
  fix who t ix h j v
  assume "submit_checks c o1 p s = Inr (who, t, ix, h, j)" and a: "accept_proof who p v s = Inr s'"
  then show ?thesis using submit_checks_Inr accept_proof_inv [OF a _ assms(2)] by fastforce
qed

subsection \<open>Hooks\<close>

text \<open>Inside a block, after \<open>on_initialize\<close>: the block itself has no qblock yet.\<close>

definition open_inv :: "('a, 'b, 'r) pow_config \<Rightarrow> ('a, 'b) pow_state \<Rightarrow> bool" where
  "open_inv c s \<longleftrightarrow> pow_inv c s \<and> last_proof_block s < block_number s \<and> qblock_count s < block_number s"

lemma open_block_fields [simp]:
  "last_proof_block (open_block c p s) = last_proof_block s" "qblock_count (open_block c p s) = qblock_count s"
  "block_number (open_block c p s) = Suc (block_number s)" "miners (open_block c p s) = miners s"
  "block_best_proof (open_block c p s) = block_best_proof s" "block_proof_count (open_block c p s) = 0"
  "pow_events (open_block c p s) = pow_events s" "difficulties (open_block c p s) = difficulties s"
  "qblocks (open_block c p s) = qblocks s" "qblock_block_by_id (open_block c p s) = qblock_block_by_id s"
  "qblock_id_by_block (open_block c p s) = qblock_id_by_block s"
  by (simp_all add: open_block_def on_initialize_def Let_def)

lemma open_block_inv: "pow_inv c s \<Longrightarrow> open_inv c (open_block c p s)"
proof -
  assume inv: "pow_inv c s"
  have "topologies_ok c (open_block c p s) = topologies_ok c s"
    "difficulties_ok (open_block c p s) = difficulties_ok s"
    "parameters_ok c (open_block c p s) = parameters_ok c s"
    by (simp_all add: open_block_def on_initialize_def Let_def)
  moreover have "qblocks_ok s" using inv by (simp add: pow_inv_def)
  then have "qblocks_ok (open_block c p s)" "last_proof_block s \<le> block_number s" "qblock_count s \<le> block_number s"
    unfolding qblocks_ok_def by simp_all
  ultimately show ?thesis using inv by (simp add: open_inv_def pow_inv_def)
qed

lemma apply_decay_fields [simp]:
  "min_solutions (apply_decay fp d e l k t) = min_solutions d"
  "min_diversity_milli (apply_decay fp d e l k t) = min_diversity_milli d"
  by (simp_all add: apply_decay_def Let_def)

lemma adjust_on_proof_fields [simp]:
  "min_solutions (adjust_on_proof fp dg d w m k sd t) = min_solutions d"
  "min_diversity_milli (adjust_on_proof fp dg d w m k sd t) = min_diversity_milli d"
  by (simp_all add: adjust_on_proof_def Let_def)

lemma current_difficulty_fields [simp]:
  "min_solutions (current_difficulty fp n d l e k t) = min_solutions d"
  "min_diversity_milli (current_difficulty fp n d l e k t) = min_diversity_milli d"
  by (simp_all add: current_difficulty_def Let_def split: option.splits)

lemma next_difficulty_diversity:
  fixes s s' :: "('a, 'b) pow_state" and c :: "('a, 'b, 'r) pow_config"
  fixes r h n m
  assumes "difficulties_ok s"
  defines "d \<equiv> next_difficulty c s' r n (current_difficulty_for c s h m)"
  shows "min_diversity_milli d = 0 \<or> 2 \<le> min_solutions d"
  using assms by (auto simp: next_difficulty_def current_difficulty_for_def difficulties_ok_def default_difficulty_def
      split: option.splits)

text \<open>The fields after a winning block, without the intermediate states.\<close>

lemma on_finalize_None: "block_best_proof s = None \<Longrightarrow> on_finalize c n s = s"
  by (simp add: on_finalize_def)

lemma credit_miner_fields [simp]:
  "registered_topologies (credit_miner w r s) = registered_topologies s"
  "default_topology (credit_miner w r s) = default_topology s"
  "mineable_topologies (credit_miner w r s) = mineable_topologies s"
  "difficulties (credit_miner w r s) = difficulties s" "topology_curve_c (credit_miner w r s) = topology_curve_c s"
  "block_reward_override (credit_miner w r s) = block_reward_override s"
  "target_proof_blocks_override (credit_miner w r s) = target_proof_blocks_override s"
  "block_best_proof (credit_miner w r s) = block_best_proof s"
  "last_proof_block (credit_miner w r s) = last_proof_block s"
  "last_proof_block_hash (credit_miner w r s) = last_proof_block_hash s"
  "qblocks (credit_miner w r s) = qblocks s" "qblock_count (credit_miner w r s) = qblock_count s"
  "qblock_block_by_id (credit_miner w r s) = qblock_block_by_id s"
  "qblock_id_by_block (credit_miner w r s) = qblock_id_by_block s"
  "block_number (credit_miner w r s) = block_number s" "parent_hash (credit_miner w r s) = parent_hash s"
  "pow_events (credit_miner w r s) = pow_events s"
  by (simp_all add: credit_miner_def split: option.splits)

lemma energy_curve_for_cong:
  "registered_topologies s' = registered_topologies s \<Longrightarrow> topology_curve_c s' = topology_curve_c s \<Longrightarrow>
   energy_curve_for c s' h = energy_curve_for c s h"
  by (simp add: energy_curve_for_def cong: option.case_cong)

lemma current_difficulty_for_cong:
  "registered_topologies s' = registered_topologies s \<Longrightarrow> topology_curve_c s' = topology_curve_c s \<Longrightarrow>
   difficulties s' = difficulties s \<Longrightarrow> last_proof_block s' = last_proof_block s \<Longrightarrow>
   target_proof_blocks_override s' = target_proof_blocks_override s \<Longrightarrow>
   current_difficulty_for c s' h n = current_difficulty_for c s h n"
  by (simp add: current_difficulty_for_def energy_curve_for_cong [of s' s] target_proof_blocks_def)

definition paid_reward :: "('a, 'b, 'r) pow_config \<Rightarrow> ('a, 'b) pow_state \<Rightarrow> 'a proof_record \<Rightarrow> balance" where
  "paid_reward c s r = fst (reward_payment c (pr_miner r) (block_reward c s) (env s))"

lemma on_finalize_Some:
  fixes c :: "('a, 'b, 'r) pow_config" and s :: "('a, 'b) pow_state" and n :: nat
  assumes "block_best_proof s = Some r"
  defines "s' \<equiv> on_finalize c n s"
    and "active \<equiv> current_difficulty_for c s (pr_topology_hash r) n"
    and "i \<equiv> sat_add u64_max (qblock_count s) 1"
  shows "registered_topologies s' = registered_topologies s" "default_topology s' = default_topology s"
    "mineable_topologies s' = mineable_topologies s"
    "block_reward_override s' = block_reward_override s"
    "target_proof_blocks_override s' = target_proof_blocks_override s"
    "block_best_proof s' = None" "last_proof_block s' = n" "block_number s' = block_number s"
    "last_proof_block_hash s' = last_proof_block_hash s" "qblock_count s' = i"
    "qblock_block_by_id s' = (qblock_block_by_id s)(i \<mapsto> n)"
    "qblock_id_by_block s' = (qblock_id_by_block s)(n \<mapsto> i)"
    "difficulties s' = (difficulties s)(pr_topology_hash r \<mapsto> next_difficulty c s r n active)"
    "qblocks s' = (qblocks s)(n \<mapsto>
       \<lparr>qb_miner = pr_miner r, qb_salt = pr_salt r, qb_energy_milli = pr_energy_milli r,
        qb_reward = paid_reward c s r, qb_submitted_at = pr_submitted_at r, qb_difficulty = active,
        qb_last_proof_block_hash = last_proof_block_hash s, qb_topology_hash = pr_topology_hash r,
        qb_device_access_time_us = pr_device_access_time_us r\<rparr>)"
proof -
  obtain reward e where p: "reward_payment c (pr_miner r) (block_reward c s) (env s) = (reward, e)"
    by (cases "reward_payment c (pr_miner r) (block_reward c s) (env s)")
  let ?s1 = "s\<lparr>block_best_proof := None\<rparr>"
  let ?s2 = "credit_miner (pr_miner r) reward (?s1\<lparr>env := e\<rparr>)"
  have b: "block_reward c ?s1 = block_reward c s" by (simp add: block_reward_def)
  have a: "current_difficulty_for c ?s2 (pr_topology_hash r) n = active"
    unfolding active_def by (rule current_difficulty_for_cong) simp_all
  have d: "next_difficulty c ?s2 r n active = next_difficulty c s r n active"
    by (simp add: next_difficulty_def energy_curve_for_cong [of ?s2 s] target_proof_blocks_def cong: option.case_cong)
  note defs = s'_def on_finalize_def assms(1) Let_def b p a d i_def next_qblock_id_def paid_reward_def
  show "registered_topologies s' = registered_topologies s" "default_topology s' = default_topology s"
    "mineable_topologies s' = mineable_topologies s"
    "block_reward_override s' = block_reward_override s"
    "target_proof_blocks_override s' = target_proof_blocks_override s"
    "block_best_proof s' = None" "last_proof_block s' = n" "block_number s' = block_number s"
    "last_proof_block_hash s' = last_proof_block_hash s" "qblock_count s' = i"
    "qblock_block_by_id s' = (qblock_block_by_id s)(i \<mapsto> n)"
    "qblock_id_by_block s' = (qblock_id_by_block s)(n \<mapsto> i)"
    "difficulties s' = (difficulties s)(pr_topology_hash r \<mapsto> next_difficulty c s r n active)"
    "qblocks s' = (qblocks s)(n \<mapsto>
       \<lparr>qb_miner = pr_miner r, qb_salt = pr_salt r, qb_energy_milli = pr_energy_milli r,
        qb_reward = paid_reward c s r, qb_submitted_at = pr_submitted_at r, qb_difficulty = active,
        qb_last_proof_block_hash = last_proof_block_hash s, qb_topology_hash = pr_topology_hash r,
        qb_device_access_time_us = pr_device_access_time_us r\<rparr>)"
    by (simp_all add: defs)
qed

lemma qblocks_ok_extend:
  assumes q: "qblocks_ok s" and n: "last_proof_block s < n" "n = block_number s" "qblock_count s < n" "n \<le> u32_max"
    and s': "qblock_count s' = sat_add u64_max (qblock_count s) 1"
    "qblock_block_by_id s' = (qblock_block_by_id s)(sat_add u64_max (qblock_count s) 1 \<mapsto> n)"
    "qblock_id_by_block s' = (qblock_id_by_block s)(n \<mapsto> sat_add u64_max (qblock_count s) 1)"
    "dom (qblocks s') = insert n (dom (qblocks s))" "last_proof_block s' = n" "block_number s' = block_number s"
  shows "qblocks_ok s'"
proof -
  from q have d: "dom (qblock_block_by_id s) = {1..qblock_count s}"
    and inv: "\<And>i m. qblock_block_by_id s i = Some m \<longleftrightarrow> qblock_id_by_block s m = Some i"
    and dq: "dom (qblocks s) = dom (qblock_id_by_block s)"
    and mono: "\<And>i j m k. i < j \<Longrightarrow> qblock_block_by_id s i = Some m \<Longrightarrow> qblock_block_by_id s j = Some k \<Longrightarrow> m < k"
    and le: "\<And>m. m \<in> dom (qblocks s) \<Longrightarrow> m \<le> last_proof_block s"
    unfolding qblocks_ok_def by blast+
  define i where "i = Suc (qblock_count s)"
  have i: "sat_add u64_max (qblock_count s) 1 = i" using n by (simp add: i_def sat_add_def u64_max_def u32_max_def)
  have fresh: "qblock_block_by_id s i = None" using d by (metis atLeastAtMost_iff domIff i_def not_less_eq_eq order_refl)
  have fresh_n: "qblock_id_by_block s n = None" using le dq n(1) by (metis domIff leD)
  have old: "m < n \<and> k < i" if "qblock_block_by_id s k = Some m" for k m
  proof -
    have "m \<in> dom (qblocks s)" using that inv dq by auto
    then have "m < n" using le n(1) by (meson le_less_trans)
    moreover have "k \<in> {1..qblock_count s}" using that d by auto
    ultimately show ?thesis by (simp add: i_def)
  qed
  show ?thesis unfolding qblocks_ok_def s' i
  proof (intro conjI allI impI ballI)
    show "dom ((qblock_block_by_id s)(i \<mapsto> n)) = {1..i}" using d by (auto simp: i_def)
    show "insert n (dom (qblocks s)) = dom ((qblock_id_by_block s)(n \<mapsto> i))" using dq by simp
    show "i \<le> block_number s" using n by (simp add: i_def)
    show "n \<le> block_number s" using n by simp
  next
    fix k m
    show "((qblock_block_by_id s)(i \<mapsto> n)) k = Some m \<longleftrightarrow> ((qblock_id_by_block s)(n \<mapsto> i)) m = Some k"
      using inv [of k m] inv [of i m] inv [of k n] fresh fresh_n by auto
  next
    fix k j m l assume "k < j" "((qblock_block_by_id s)(i \<mapsto> n)) k = Some m" "((qblock_block_by_id s)(i \<mapsto> n)) j = Some l"
    then show "m < l" using mono [of k j m l] old [of k m] old [of j l] by (auto split: if_splits)
  next
    fix m assume "m \<in> insert n (dom (qblocks s))"
    then show "m \<le> n" using le [of m] n(1) by (cases "m = n") simp_all
  qed
qed

lemma on_finalize_inv:
  assumes o: "open_inv c s" and n: "block_number s \<le> u32_max"
  shows "pow_inv c (on_finalize c (block_number s) s)"
proof (cases "block_best_proof s")
  case None
  with o show ?thesis by (simp add: on_finalize_None open_inv_def)
next
  case (Some r)
  note f = on_finalize_Some [OF Some, of c "block_number s"]
  from o have parts: "topologies_ok c s" "difficulties_ok s" "parameters_ok c s" "qblocks_ok s"
    "last_proof_block s < block_number s" "qblock_count s < block_number s"
    by (simp_all add: open_inv_def pow_inv_def)
  let ?s' = "on_finalize c (block_number s) s"
  have "topologies_ok c ?s'" using parts(1) by (simp add: topologies_ok_def f)
  moreover have "difficulties_ok ?s'"
    using parts(2) Some next_difficulty_diversity [OF parts(2), of c s r "block_number s" "pr_topology_hash r" "block_number s"]
    unfolding difficulties_ok_def f by auto
  moreover have "parameters_ok c ?s'"
    using parts(3) by (simp add: parameters_ok_def f block_reward_def target_proof_blocks_def)
  moreover have "qblocks_ok ?s'"
    by (rule qblocks_ok_extend [OF parts(4,5) refl parts(6) n]) (simp_all add: f)
  ultimately show ?thesis by (simp add: pow_inv_def)
qed

subsection \<open>Blocks keep the invariant\<close>

lemma dispatch_inv:
  assumes "integrity_test c" "call_typed call" "dispatch c o1 call s = Some (Inr s')" "pow_inv c s"
  shows "pow_inv c s'"
  using assms
  by (cases call)
    (auto intro: register_miner_inv deregister_miner_inv register_topology_inv set_default_topology_inv
      set_difficulty_inv set_topology_curve_inv add_mineable_topology_inv remove_mineable_topology_inv
      set_block_reward_inv set_target_proof_blocks_inv submit_proof_inv)

lemma dispatch_same_block:
  assumes "dispatch c o1 call s = Some (Inr s')"
  shows "last_proof_block s' = last_proof_block s \<and> qblock_count s' = qblock_count s \<and>
    block_number s' = block_number s \<and> last_proof_block_hash s' = last_proof_block_hash s \<and>
    qblocks s' = qblocks s \<and> parent_hash s' = parent_hash s"
proof (cases call)
  case (RegisterTopology ns es ah aj as)
  with assms show ?thesis by (auto simp: register_topology_def Let_def)
next
  case (SubmitProof p)
  with assms have "submit_proof c o1 p s = Some (Inr s')" by simp
  then show ?thesis by (rule submit_proof_Inr) (auto simp: accept_proof_def Let_def)
qed (use assms in \<open>auto simp: register_miner_def deregister_miner_def set_default_topology_def set_difficulty_def
    set_topology_curve_def add_mineable_topology_def remove_mineable_topology_def set_block_reward_def
    set_target_proof_blocks_def Let_def case_prod_unfold split: if_splits\<close>)

lemma apply_call_cases:
  obtains "apply_call c oc s = s" | s' where "dispatch c (fst oc) (snd oc) s = Some (Inr s')" "apply_call c oc s = s'"
proof (cases "dispatch c (fst oc) (snd oc) s")
  case (Some r)
  with that show thesis by (cases r) (simp_all add: apply_call_def)
qed (use that in \<open>simp add: apply_call_def\<close>)

lemma apply_call_open_inv:
  assumes "integrity_test c" "call_typed (snd oc)" "open_inv c s"
  shows "open_inv c (apply_call c oc s)"
  by (rule apply_call_cases [of c oc s])
    (use assms dispatch_inv dispatch_same_block in \<open>fastforce simp: open_inv_def\<close>)+

lemma calls_open_inv:
  "integrity_test c \<Longrightarrow> list_all (call_typed \<circ> snd) calls \<Longrightarrow> open_inv c s \<Longrightarrow>
     open_inv c (fold (apply_call c) calls s)"
  by (induction calls arbitrary: s) (auto intro: apply_call_open_inv)

lemma calls_same_block:
  "block_number (fold (apply_call c) calls s) = block_number s \<and>
   last_proof_block (fold (apply_call c) calls s) = last_proof_block s \<and>
   last_proof_block_hash (fold (apply_call c) calls s) = last_proof_block_hash s \<and>
   qblocks (fold (apply_call c) calls s) = qblocks s"
proof (induction calls arbitrary: s)
  case (Cons oc calls)
  have "block_number (apply_call c oc s) = block_number s \<and> last_proof_block (apply_call c oc s) = last_proof_block s \<and>
      last_proof_block_hash (apply_call c oc s) = last_proof_block_hash s \<and> qblocks (apply_call c oc s) = qblocks s"
    by (rule apply_call_cases [of c oc s]) (auto dest: dispatch_same_block)
  with Cons show ?case by simp
qed simp

lemma execute_block_inv:
  assumes "integrity_test c" "list_all (call_typed \<circ> snd) calls" "pow_inv c s" "block_number s < u32_max"
  shows "pow_inv c (execute_block c parent calls s)"
  unfolding execute_block_def Let_def
proof (rule on_finalize_inv)
  show "open_inv c (fold (apply_call c) calls (open_block c parent s))"
    by (intro calls_open_inv assms open_block_inv)
  show "block_number (fold (apply_call c) calls (open_block c parent s)) \<le> u32_max"
    using assms(4) by (simp add: calls_same_block)
qed

subsection \<open>Reachable states\<close>

definition genesis :: "'b \<Rightarrow> ('a, 'b) pow_state" where
  "genesis e =
     \<lparr>block_reward_override = None, target_proof_blocks_override = None, registered_topologies = Map.empty,
      default_topology = None, difficulties = Map.empty, topology_curve_c = Map.empty, mineable_topologies = {},
      miners = Map.empty, block_best_proof = None, last_proof_block = 0, last_proof_block_hash = replicate 32 0,
      block_proof_count = 0, qblocks = Map.empty, qblock_count = 0, qblock_block_by_id = Map.empty,
      qblock_id_by_block = Map.empty, pow_events = [], env = e, block_number = 0, parent_hash = replicate 32 0\<rparr>"

text \<open>The other pallets may change their own state between and during blocks.\<close>

inductive reachable :: "('a, 'b, 'r) pow_config \<Rightarrow> ('a, 'b) pow_state \<Rightarrow> bool" for c where
  start: "reachable c (genesis e)"
| block: "reachable c s \<Longrightarrow> list_all (call_typed \<circ> snd) calls \<Longrightarrow> block_number s < u32_max \<Longrightarrow>
    reachable c (execute_block c parent calls s)"
| other: "reachable c s \<Longrightarrow> reachable c (s\<lparr>env := e\<rparr>)"

lemma genesis_inv: "integrity_test c \<Longrightarrow> pow_inv c (genesis e)"
  by (auto simp: genesis_def pow_inv_defs integrity_test_def)

lemma reachable_inv:
  assumes "integrity_test c" "reachable c s"
  shows "pow_inv c s"
  using assms(2)
proof (induction rule: reachable.induct)
  case (start e)
  show ?case by (rule genesis_inv [OF assms(1)])
next
  case (block s calls parent)
  then show ?case by (intro execute_block_inv assms(1))
next
  case (other s e)
  then show ?case by (simp add: pow_inv_def)
qed

text \<open>The states in which a block's calls are executed.\<close>

inductive executing :: "('a, 'b, 'r) pow_config \<Rightarrow> ('a, 'b) pow_state \<Rightarrow> bool" for c where
  opened: "reachable c s \<Longrightarrow> block_number s < u32_max \<Longrightarrow> executing c (open_block c parent s)"
| called: "executing c s \<Longrightarrow> call_typed (snd oc) \<Longrightarrow> executing c (apply_call c oc s)"

lemma executing_inv:
  assumes "integrity_test c" "executing c s"
  shows "open_inv c s"
  using assms(2)
proof (induction rule: executing.induct)
  case (opened s parent)
  then show ?case by (intro open_block_inv reachable_inv [OF assms(1)])
next
  case (called s oc)
  then show ?case by (intro apply_call_open_inv [OF assms(1)])
qed

end
