(* ===== verification/Pow_Theorems.thy ===== *)
theory Pow_Theorems
  imports Pow_Chain
begin

text \<open>
  What \<open>pallets/quantum-pow\<close> guarantees: an accepted proof really solves the puzzle of its nonce, the
  winner of a block is its best accepted proof, its nonce can be derived again from the stored
  qblock, the nonce seed is stable through a round, deposits are returned, and only the winning
  topology's difficulty moves.
\<close>

subsection \<open>No panic\<close>

lemma decode_solution_Inr:
  assumes "decode_solution t packed = Inr spins" "spec_valid (allowed_spin_values t)"
  shows "validate_spins spins \<and> length spins = length (tm_nodes t)"
proof -
  from assms(1) obtain milli where "unpack_solution packed (length (tm_nodes t)) (allowed_spin_values t) = Inr milli"
    "spin_signs milli = Inr spins" by (auto simp: decode_solution_def)
  with unpack_solution_sound [OF assms(2)] spin_signs_valid show ?thesis by fastforce
qed

lemma decode_all_Inr:
  assumes "collect_res (decode_solution t) sols = Inr decoded" "spec_valid (allowed_spin_values t)"
  shows "length decoded = length sols \<and> validate_solution_set decoded (length (tm_nodes t))"
  using collect_res_length [OF assms(1)] collect_res_set [OF assms(1)] decode_solution_Inr [OF _ assms(2)]
  by (fastforce simp: validate_solution_set_iff)

lemma selected_length:
  assumes "validate_solution_set vs n" "set sel \<subseteq> {..<length vs}" "s \<in> set (map (\<lambda>i. vs ! i) sel)"
  shows "length s = n"
  using assms by (auto simp: validate_solution_set_iff)

lemma validate_proof_no_panic:
  assumes t: "topology_ok c t" "0 < min_nodes c" and len: "length (qp_solutions p) \<le> u32_max"
  shows "validate_proof p t ix h j d \<noteq> None"
proof
  assume "validate_proof p t ix h j d = None"
  then obtain decoded energies where dec: "collect_res (decode_solution t) (qp_solutions p) = Inr decoded"
    and en: "collect_res (\<lambda>spins. map_err energy_error (energy_of_solution_indexed spins h (tm_edges t) j ix)) decoded = Inr energies"
    and none: "score_solutions d decoded energies = None"
    by (auto simp: validate_proof_def split: sum.splits)
  let ?n = "length (tm_nodes t)"
  have v: "length decoded = length (qp_solutions p)" "validate_solution_set decoded ?n"
    using decode_all_Inr [OF dec] t by (simp_all add: topology_ok_def)
  have le: "length energies = length decoded" by (rule collect_res_length [OF en])
  let ?vi = "filter (\<lambda>i. energies ! i < max_energy_milli d) [0..<length energies]"
  let ?vs = "map (\<lambda>i. decoded ! i) ?vi"
  have vs: "validate_solution_set ?vs ?n" using v(2) le by (auto simp: validate_solution_set_iff)
  have vl: "length ?vs \<le> u32_max" using v(1) le len length_filter_le [of "\<lambda>i. energies ! i < max_energy_milli d" "[0..<length energies]"]
    by simp
  from none obtain sel where ne: "?vi \<noteq> []" and sel: "select_diverse ?vs (min (length ?vs) (max (min_solutions d) 1)) = Inr sel"
    and div: "calculate_diversity (map (\<lambda>i. ?vs ! i) sel) = None"
    by (auto simp: score_solutions_def Let_def split: if_splits sum.splits option.splits)
  have "?vs ! 0 \<in> set ?vs" using ne by (intro nth_mem) simp
  then have "length (?vs ! 0) = ?n" using vs unfolding validate_solution_set_iff by blast
  with select_diverse_cases(1) [of ?vs "min (length ?vs) (max (min_solutions d) 1)"] vs sel have
    sd: "set sel \<subseteq> {..<length ?vs}" "length sel \<le> length ?vs" by auto
  have pos: "0 < ?n" using t unfolding topology_ok_def by linarith
  have lsel: "length (map (\<lambda>i. ?vs ! i) sel) \<le> u32_max" using sd(2) vl by (simp only: length_map)
  have "calculate_diversity (map (\<lambda>i. ?vs ! i) sel) \<noteq> None"
    by (rule calculate_diversity_no_panic [OF pos selected_length [OF vs sd(1)] lsel])
  with div show False by contradiction
qed

lemma submit_proof_no_panic:
  assumes "pow_inv c s" "0 < min_nodes c" "length (qp_solutions p) \<le> u32_max"
  shows "submit_proof c o1 p s \<noteq> None"
proof
  assume "submit_proof c o1 p s = None"
  then obtain who t ix h j where ch: "submit_checks c o1 p s = Inr (who, t, ix, h, j)"
    "validate_proof p t ix h j (current_difficulty_for c s (qp_topology_hash p) (block_number s)) = None"
    by (auto simp: submit_proof_def Let_def split: sum.splits option.splits)
  have "topology_ok c t" using submit_checks_Inr [OF ch(1)] topologies_okD(1) [OF assms(1)] by blast
  with validate_proof_no_panic [OF _ assms(2,3)] ch(2) show False by blast
qed

subsection \<open>What an accepted proof has shown\<close>

lemma Min_filter_below:
  assumes "x \<in> set xs" "x < (b :: int)"
  shows "Min (set (filter (\<lambda>x. x < b) xs)) = Min (set xs)" "Min (set xs) < b"
proof -
  have m: "Min (set xs) \<le> x" "Min (set xs) \<in> set xs" using assms(1) by (auto intro: Min_in)
  then show lt: "Min (set xs) < b" using assms(2) by simp
  show "Min (set (filter (\<lambda>x. x < b) xs)) = Min (set xs)"
    by (rule Min_eqI) (use m lt in auto)
qed

lemma map_filter_nth:
  "map (\<lambda>i. xs ! i) (filter (\<lambda>i. P (xs ! i)) [0..<length xs]) = filter P xs"
proof (induction xs rule: rev_induct)
  case (snoc x xs)
  have "filter (\<lambda>i. P ((xs @ [x]) ! i)) [0..<length xs] = filter (\<lambda>i. P (xs ! i)) [0..<length xs]"
    by (rule filter_cong) (auto simp: nth_append)
  moreover have "map (\<lambda>i. (xs @ [x]) ! i) (filter (\<lambda>i. P (xs ! i)) [0..<length xs]) =
      map (\<lambda>i. xs ! i) (filter (\<lambda>i. P (xs ! i)) [0..<length xs])"
    by (rule map_cong) (auto simp: nth_append)
  ultimately show ?case using snoc by (simp add: nth_append)
qed simp

lemma filter_positions:
  "map (\<lambda>i. xs ! i) (filter (\<lambda>i. map f xs ! i < k) [0..<length xs]) = filter (\<lambda>x. f x < k) xs" for f :: "'a \<Rightarrow> int"
proof -
  have "filter (\<lambda>i. map f xs ! i < k) [0..<length xs] = filter (\<lambda>i. f (xs ! i) < k) [0..<length xs]" by (rule filter_cong) auto
  then show ?thesis using map_filter_nth [of xs "\<lambda>x. f x < k"] by simp
qed

lemma score_solutions_Inr:
  fixes E :: "i8 list \<Rightarrow> int"
  assumes sc: "score_solutions d decoded (map E decoded) = Some (Inr v)" and dec: "validate_solution_set decoded n"
    and n: "0 < n" "length decoded * length decoded * n * 1000 < 2 ^ 64"
  defines "good \<equiv> filter (\<lambda>x. E x < max_energy_milli d) decoded"
  shows "best_energy_milli v = Min (set (map E decoded)) \<and> valid_solution_count v = length good \<and>
    (\<exists>sel. select_diverse good (min (length good) (max (min_solutions d) 1)) = Inr sel \<and> distinct sel \<and>
       set sel \<subseteq> {..<length good} \<and> length sel = min (length good) (max (min_solutions d) 1) \<and>
       diversity_milli v = mean_distance n (map (\<lambda>i. good ! i) sel))"
proof -
  let ?vi = "filter (\<lambda>i. map E decoded ! i < max_energy_milli d) [0..<length (map E decoded)]"
  let ?k = "min (length good) (max (min_solutions d) 1)"
  have g: "map (\<lambda>i. decoded ! i) ?vi = good" unfolding good_def length_map by (rule filter_positions)
  have e: "map (\<lambda>i. map E decoded ! i) ?vi = filter (\<lambda>x. x < max_energy_milli d) (map E decoded)" by (rule map_filter_nth)
  from sc obtain sel where ne: "?vi \<noteq> []" and sel: "select_diverse good ?k = Inr sel"
    and v: "best_energy_milli v = Min (set (filter (\<lambda>x. x < max_energy_milli d) (map E decoded)))" "valid_solution_count v = length good"
    and div: "calculate_diversity (map (\<lambda>i. good ! i) sel) = Some (Inr (diversity_milli v))"
    unfolding score_solutions_def Let_def g e by (auto split: if_splits sum.splits option.splits)
  from ne have "good \<noteq> []" using g by (metis map_is_Nil_conv)
  then obtain x where x: "x \<in> set decoded" "E x < max_energy_milli d" by (auto simp: good_def filter_empty_conv)
  have gv: "validate_solution_set good n" using dec by (auto simp: good_def validate_solution_set_iff)
  then have "validate_solution_set good (length (good ! 0))" using \<open>good \<noteq> []\<close> by (auto simp: validate_solution_set_iff)
  from select_diverse_cases(1) [OF this, of ?k] sel have s: "distinct sel" "set sel \<subseteq> {..<length good}" "length sel = ?k" by auto
  have "validate_solution_set (map (\<lambda>i. good ! i) sel) n" using gv s(2) by (auto simp: validate_solution_set_iff)
  moreover have "length good \<le> length decoded" by (simp add: good_def)
  then have "length sel \<le> length decoded" using s(3) by linarith
  then have "length sel * length sel * n * 1000 \<le> length decoded * length decoded * n * 1000" by (intro mult_le_mono) simp_all
  then have "length sel * length sel * n * 1000 < 2 ^ 64" using n(2) by (rule le_less_trans)
  ultimately have "diversity_milli v = mean_distance n (map (\<lambda>i. good ! i) sel)"
    using calculate_diversity_mean [of "map (\<lambda>i. good ! i) sel" n] n div by simp
  moreover have "best_energy_milli v = Min (set (map E decoded))"
    using Min_filter_below(1) [of "E x" "map E decoded" "max_energy_milli d"] x v(1) by simp
  ultimately show ?thesis using v(2) sel s by blast
qed

text \<open>The submitted bytes, read off the wire, and the spins the pallet scores.\<close>

lemma decode_all_encodes:
  assumes dec: "collect_res (decode_solution t) sols = Inr decoded" and t: "topology_ok c t" and c: "8 * max_nodes c + 8 \<le> usize_max"
  shows "\<exists>milli. list_all2 (encodes_solution (allowed_spin_values t)) sols milli \<and>
    list_all (\<lambda>v. length v = length (tm_nodes t) \<and> 0 \<notin> set v) milli \<and> decoded = map (map sgn) milli"
proof -
  let ?sp = "allowed_spin_values t" and ?n = "length (tm_nodes t)"
  have sp: "spec_valid ?sp" and len: "\<exists>b \<le> max_nodes c. packed_solution_byte_len ?n ?sp = Inr b"
    using t by (simp_all add: topology_ok_def)
  obtain bits where b: "bits_per_value ?sp = Inr bits" using sp by (auto simp: spec_valid_def is_ok_iff)
  have n: "?n * bits + 7 \<le> usize_max" using packed_solution_byte_len_bound [OF _ b _ c] len by blast
  have one: "\<exists>v. encodes_solution ?sp packed v \<and> length v = ?n \<and> 0 \<notin> set v \<and> spins = map sgn v"
    if "decode_solution t packed = Inr spins" for packed spins
  proof -
    from that obtain v where v: "unpack_solution packed ?n ?sp = Inr v" "spin_signs v = Inr spins" by (auto simp: decode_solution_def)
    then show ?thesis
      using unpack_solution_encodes [OF sp v(1) b n] unpack_solution_sound [OF sp v(1)] by (auto simp: spin_signs_Inr)
  qed
  from dec show ?thesis
  proof (induction sols arbitrary: decoded)
    case (Cons packed sols)
    then obtain spins rest where s: "decode_solution t packed = Inr spins" "collect_res (decode_solution t) sols = Inr rest"
      "decoded = spins # rest" by (auto split: sum.splits)
    obtain milli where m: "list_all2 (encodes_solution ?sp) sols milli" "list_all (\<lambda>v. length v = ?n \<and> 0 \<notin> set v) milli"
      "rest = map (map sgn) milli" using Cons.IH [OF s(2)] by blast
    obtain v where "encodes_solution ?sp packed v" "length v = ?n" "0 \<notin> set v" "spins = map sgn v" using one [OF s(1)] by blast
    with m s(3) show ?case by (intro exI [of _ "v # milli"]) simp
  qed simp
qed

text \<open>A topology has at most as many nodes as its packed bytes have bits.\<close>

lemma topology_nodes_bound:
  assumes "topology_ok c t" "8 * max_nodes c + 8 \<le> usize_max"
  shows "length (tm_nodes t) \<le> 8 * max_nodes c"
proof -
  have sp: "spec_valid (allowed_spin_values t)" "\<exists>b \<le> max_nodes c. packed_solution_byte_len (length (tm_nodes t)) (allowed_spin_values t) = Inr b"
    using assms(1) by (simp_all add: topology_ok_def)
  obtain bits where b: "bits_per_value (allowed_spin_values t) = Inr bits" using sp(1) by (auto simp: spec_valid_def is_ok_iff)
  then have "1 \<le> bits" using bits_per_value_cases [OF b] sp(1) by (simp add: spec_valid_def)
  then have "length (tm_nodes t) \<le> length (tm_nodes t) * bits" by simp
  then show ?thesis using packed_solution_byte_len_bound [OF _ b _ assms(2)] sp(2) by (meson le_trans)
qed

text \<open>
  What an accepted set of solutions has shown for the fields \<open>h\<close> and couplings \<open>j\<close>: the bytes stand for values whose
  signs are the spins, the energies are Ising energies, and the diversity is that of the selection.
\<close>

definition solves ::
    "topology_meta \<Rightarrow> i32 list \<Rightarrow> i32 list \<Rightarrow> difficulty_config \<Rightarrow> bytes list \<Rightarrow> i64 \<Rightarrow> u32 \<Rightarrow> u32 \<Rightarrow> bool" where
  "solves t h j live packed energy diversity n_good \<longleftrightarrow>
     (\<exists>milli sel. list_all2 (encodes_solution (allowed_spin_values t)) packed milli \<and>
        list_all (\<lambda>v. length v = length (tm_nodes t) \<and> 0 \<notin> set v) milli \<and>
        (let spins = map (map sgn) milli; E = ising_energy (tm_nodes t) (tm_edges t) h j;
             good = filter (\<lambda>x. E x < max_energy_milli live) spins; k = min (length good) (max (min_solutions live) 1)
         in energy = Min (set (map E spins)) \<and> energy < max_energy_milli live \<and>
            n_good = length good \<and> min_solutions live \<le> n_good \<and>
            select_diverse good k = Inr sel \<and> distinct sel \<and> set sel \<subseteq> {..<length good} \<and> length sel = k \<and>
            diversity = mean_distance (length (tm_nodes t)) (map (\<lambda>i. good ! i) sel) \<and>
            min_diversity_milli live \<le> diversity))"

lemma validate_proof_Inr:
  assumes t: "topology_ok c t" "0 < min_nodes c" "8 * max_nodes c + 8 \<le> usize_max"
    and ix: "topology_index_new (tm_nodes t) (tm_edges t) = Inr ix"
    and size: "length (qp_solutions p) * length (qp_solutions p) * (8 * max_nodes c) * 1000 < 2 ^ 64"
    and v: "validate_proof p t ix h j d = Some (Inr v)" "best_energy_milli v < max_energy_milli d"
      "min_solutions d \<le> valid_solution_count v" "min_diversity_milli d \<le> diversity_milli v"
  shows "solves t h j d (qp_solutions p) (best_energy_milli v) (diversity_milli v) (valid_solution_count v)"
proof -
  let ?E = "ising_energy (tm_nodes t) (tm_edges t) h j" and ?n = "length (tm_nodes t)"
  from v(1) obtain decoded energies where dec: "collect_res (decode_solution t) (qp_solutions p) = Inr decoded"
    and en: "collect_res (\<lambda>spins. map_err energy_error (energy_of_solution_indexed spins h (tm_edges t) j ix)) decoded = Inr energies"
    and sc: "score_solutions d decoded energies = Some (Inr v)"
    by (auto simp: validate_proof_def split: sum.splits)
  have "energies ! i = ?E (decoded ! i)" if "i < length decoded" for i
    using collect_res_nth [OF en that] energy_indexed_Inr [OF ix] by auto
  then have e: "energies = map ?E decoded"
    using collect_res_length [OF en] by (intro nth_equalityI) auto
  have l: "length decoded = length (qp_solutions p)" and vs: "validate_solution_set decoded ?n"
    using decode_all_Inr [OF dec] t(1) by (simp_all add: topology_ok_def)
  have n: "0 < ?n" using t(1,2) unfolding topology_ok_def by linarith
  have "length decoded * length decoded * ?n * 1000 \<le> length decoded * length decoded * (8 * max_nodes c) * 1000"
    by (intro mult_le_mono topology_nodes_bound [OF t(1,3)]) simp_all
  then have "length decoded * length decoded * ?n * 1000 < 2 ^ 64" by (rule le_less_trans) (use size l in \<open>simp only:\<close>)
  note score = score_solutions_Inr [OF sc [unfolded e] vs n this]
  obtain milli where m: "list_all2 (encodes_solution (allowed_spin_values t)) (qp_solutions p) milli"
    "list_all (\<lambda>v. length v = ?n \<and> 0 \<notin> set v) milli" "decoded = map (map sgn) milli"
    using decode_all_encodes [OF dec t(1,3)] by blast
  show ?thesis unfolding solves_def Let_def using score [unfolded m(3)] m(1,2) v(2-4)
    by (elim conjE exE) (intro exI conjI, assumption+)
qed

text \<open>
  C1: during the execution of a block a submission never panics; when it is accepted, the caller is a registered
  miner within the block's limit, the topology is registered and mineable, the nonce is the one derived
  from the round's seed, the account and the salt, and the submitted bytes, read bit by bit, stand for allowed
  values whose signs are spin assignments of the puzzle generated from that nonce: their least Ising energy is
  below the live threshold, at least the required number of them are below it, and the selection among those
  has a mean pairwise distance of at least the required diversity. The event carries exactly these numbers.
\<close>

theorem accepted_proof_solves_puzzle:
  assumes r: "executing c s" "integrity_test c" "0 < min_nodes c" and len: "length (qp_solutions p) \<le> u32_max"
    and size: "8 * max_nodes c + 8 \<le> usize_max"
      "length (qp_solutions p) * length (qp_solutions p) * (8 * max_nodes c) * 1000 < 2 ^ 64"
  shows "submit_proof c o1 p s \<noteq> None \<and>
    (\<forall>s'. submit_proof c o1 p s = Some (Inr s') \<longrightarrow>
      (\<exists>who t h j energy diversity n_good. o1 = Signed who \<and> miners s who \<noteq> None \<and>
        block_proof_count s < max_proofs_per_block c \<and>
        registered_topologies s (qp_topology_hash p) = Some t \<and> qp_topology_hash p \<in> mineable_topologies s \<and>
        qp_nonce p = derive_nonce (blake3_256 c) (last_proof_block_hash s) (account_to_bytes c who) (qp_salt p) \<and>
        generate_ising_model (rng c) (qp_nonce p) (tm_nodes t) (tm_edges t) (allowed_h_values t) (allowed_j_values t)
          = Inr (h, j) \<and>
        solves t h j (current_difficulty_for c s (qp_topology_hash p) (block_number s)) (qp_solutions p)
          energy diversity n_good \<and>
        last (pow_events s') = ProofAccepted who energy diversity n_good))"
proof (intro conjI allI impI)
  have inv: "pow_inv c s" using executing_inv [OF r(2,1)] by (simp add: open_inv_def)
  show "submit_proof c o1 p s \<noteq> None" by (rule submit_proof_no_panic [OF inv r(3) len])
  fix s' assume acc: "submit_proof c o1 p s = Some (Inr s')"
  let ?live = "current_difficulty_for c s (qp_topology_hash p) (block_number s)"
  from acc obtain who t ix h j v where ch: "submit_checks c o1 p s = Inr (who, t, ix, h, j)"
    and v: "validate_proof p t ix h j ?live = Some (Inr v)" "best_energy_milli v < max_energy_milli ?live"
      "min_solutions ?live \<le> valid_solution_count v" "min_diversity_milli ?live \<le> diversity_milli v"
    and a: "accept_proof who p v s = Inr s'" by (rule submit_proof_Inr)
  note chk = submit_checks_Inr [OF ch]
  have t: "topology_ok c t" using chk topologies_okD(1) [OF inv] by blast
  have ix: "topology_index_new (tm_nodes t) (tm_edges t) = Inr ix" using chk by blast
  have gen: "generate_ising_model (rng c) (qp_nonce p) (tm_nodes t) (tm_edges t) (allowed_h_values t) (allowed_j_values t)
      = Inr (h, j)" unfolding generate_ising_model_def ix and_then_simps using chk by blast
  have ev: "last (pow_events s') = ProofAccepted who (best_energy_milli v) (diversity_milli v) (valid_solution_count v)"
    using a by (auto simp: accept_proof_def Let_def deposit_event_def)
  show "\<exists>who t h j energy diversity n_good. o1 = Signed who \<and> miners s who \<noteq> None \<and>
      block_proof_count s < max_proofs_per_block c \<and>
      registered_topologies s (qp_topology_hash p) = Some t \<and> qp_topology_hash p \<in> mineable_topologies s \<and>
      qp_nonce p = derive_nonce (blake3_256 c) (last_proof_block_hash s) (account_to_bytes c who) (qp_salt p) \<and>
      generate_ising_model (rng c) (qp_nonce p) (tm_nodes t) (tm_edges t) (allowed_h_values t) (allowed_j_values t)
        = Inr (h, j) \<and>
      solves t h j ?live (qp_solutions p) energy diversity n_good \<and>
      last (pow_events s') = ProofAccepted who energy diversity n_good"
    using chk gen ev validate_proof_Inr [OF t r(3) size(1) ix size(2) v] by blast
qed

subsection \<open>The winner of a block\<close>

text \<open>The submissions that are accepted while a list of calls is executed, in order, with the energy each event reports.\<close>

definition accepted_proof ::
    "('a, 'b, 'r) pow_config \<Rightarrow> 'a raw_origin \<times> pow_call \<Rightarrow> ('a, 'b) pow_state \<Rightarrow> ('a \<times> quantum_proof \<times> i64) list" where
  "accepted_proof c oc s =
     (case oc of
        (Signed who, SubmitProof p) \<Rightarrow>
          (case submit_proof c (Signed who) p s of
             Some (Inr s') \<Rightarrow> (case last (pow_events s') of ProofAccepted w e d k \<Rightarrow> [(who, p, e)] | _ \<Rightarrow> [])
           | _ \<Rightarrow> [])
      | _ \<Rightarrow> [])"

primrec accepted_proofs ::
    "('a, 'b, 'r) pow_config \<Rightarrow> ('a raw_origin \<times> pow_call) list \<Rightarrow> ('a, 'b) pow_state \<Rightarrow> ('a \<times> quantum_proof \<times> i64) list" where
  "accepted_proofs c [] s = []"
| "accepted_proofs c (oc # calls) s = accepted_proof c oc s @ accepted_proofs c calls (apply_call c oc s)"

text \<open>A record is the first of the submissions with the least energy.\<close>

definition first_best :: "('a \<times> quantum_proof \<times> i64) list \<Rightarrow> 'a proof_record \<Rightarrow> bool" where
  "first_best acc r \<longleftrightarrow>
     (\<exists>before p after. acc = before @ (pr_miner r, p, pr_energy_milli r) # after \<and>
        pr_salt r = qp_salt p \<and> pr_topology_hash r = qp_topology_hash p \<and>
        pr_device_access_time_us r = qp_device_access_time_us p \<and>
        (\<forall>(w, q, e) \<in> set before. pr_energy_milli r < e) \<and> (\<forall>(w, q, e) \<in> set after. pr_energy_milli r \<le> e))"

definition best_so_far :: "('a \<times> quantum_proof \<times> i64) list \<Rightarrow> 'a proof_record option \<Rightarrow> bool" where
  "best_so_far acc b \<longleftrightarrow> (case b of None \<Rightarrow> acc = [] | Some r \<Rightarrow> first_best acc r)"

lemma first_best_least: "first_best acc r \<Longrightarrow> (w, q, e) \<in> set acc \<Longrightarrow> pr_energy_milli r \<le> e"
  by (fastforce simp: first_best_def)

lemma first_best_keep: "first_best acc r \<Longrightarrow> pr_energy_milli r \<le> e \<Longrightarrow> first_best (acc @ [(w, q, e)]) r"
  unfolding first_best_def by fastforce

lemma first_best_new:
  assumes "\<And>w q e. (w, q, e) \<in> set acc \<Longrightarrow> pr_energy_milli r < e"
    "pr_salt r = qp_salt p" "pr_topology_hash r = qp_topology_hash p" "pr_device_access_time_us r = qp_device_access_time_us p"
  shows "first_best (acc @ [(pr_miner r, p, pr_energy_milli r)]) r"
  unfolding first_best_def using assms by (intro exI [of _ acc] exI [of _ p] exI [of _ "[]"]) auto

lemma pow_events_deposit [simp]: "pow_events (deposit_event e s) = pow_events s @ [e]"
  by (simp add: deposit_event_def)

lemma accept_proof_best:
  assumes a: "accept_proof who p v s = Inr s'" and b: "best_so_far acc (block_best_proof s)"
  shows "best_so_far (acc @ [(who, p, best_energy_milli v)]) (block_best_proof s') \<and>
    (\<exists>d k. last (pow_events s') = ProofAccepted who (best_energy_milli v) d k)"
proof -
  define r where "r = \<lparr>pr_miner = who, pr_submitted_at = block_number s, pr_energy_milli = best_energy_milli v, pr_salt = qp_salt p,
    pr_topology_hash = qp_topology_hash p, pr_device_access_time_us = qp_device_access_time_us p\<rparr>"
  from a have s': "block_best_proof s' = (case block_best_proof s of
      Some old \<Rightarrow> if best_energy_milli v < pr_energy_milli old then Some r else Some old | None \<Rightarrow> Some r)"
    by (auto simp: accept_proof_def Let_def r_def split: option.splits)
  have new: "first_best (acc @ [(who, p, best_energy_milli v)]) r" if "\<And>w q e. (w, q, e) \<in> set acc \<Longrightarrow> best_energy_milli v < e"
    using first_best_new [of acc r p] that by (simp add: r_def)
  have "best_so_far (acc @ [(who, p, best_energy_milli v)]) (block_best_proof s')"
  proof (cases "block_best_proof s")
    case None
    then show ?thesis using b new s' by (simp add: best_so_far_def)
  next
    case (Some old)
    then have old: "first_best acc old" using b by (simp add: best_so_far_def)
    show ?thesis
    proof (cases "best_energy_milli v < pr_energy_milli old")
      case True
      then have "first_best (acc @ [(who, p, best_energy_milli v)]) r"
        by (intro new) (rule less_le_trans [OF _ first_best_least [OF old]])
      then show ?thesis using True Some s' by (simp add: best_so_far_def)
    next
      case False
      then show ?thesis using first_best_keep [OF old] Some s' by (simp add: best_so_far_def)
    qed
  qed
  moreover have "\<exists>d k. last (pow_events s') = ProofAccepted who (best_energy_milli v) d k"
    using a by (auto simp: accept_proof_def Let_def)
  ultimately show ?thesis ..
qed

lemma other_call_best:
  assumes "dispatch c o1 call s = Some (Inr s')" "\<And>p. call \<noteq> SubmitProof p"
  shows "block_best_proof s' = block_best_proof s"
  using assms
  by (cases call) (auto simp: register_topology_def register_miner_def deregister_miner_def set_default_topology_def
    set_difficulty_def set_topology_curve_def add_mineable_topology_def remove_mineable_topology_def set_block_reward_def
    set_target_proof_blocks_def Let_def case_prod_unfold split: if_splits)

lemma apply_call_best:
  assumes b: "best_so_far acc (block_best_proof s)"
  shows "best_so_far (acc @ accepted_proof c oc s) (block_best_proof (apply_call c oc s))"
proof (cases "\<exists>p s'. snd oc = SubmitProof p \<and> submit_proof c (fst oc) p s = Some (Inr s')")
  case True
  then obtain p s' where p: "snd oc = SubmitProof p" "submit_proof c (fst oc) p s = Some (Inr s')" by blast
  from p(2) obtain who t ix h j v where ch: "submit_checks c (fst oc) p s = Inr (who, t, ix, h, j)"
    and a: "accept_proof who p v s = Inr s'" by (rule submit_proof_Inr)
  have oc: "oc = (Signed who, SubmitProof p)" using submit_checks_Inr [OF ch] p(1) by (cases oc) auto
  show ?thesis using accept_proof_best [OF a b] p(2) unfolding oc
    by (auto simp: accepted_proof_def apply_call_def)
next
  case False
  then have "accepted_proof c oc s = []"
    by (auto simp: accepted_proof_def split: prod.splits raw_origin.splits pow_call.splits option.splits sum.splits)
  moreover have "block_best_proof (apply_call c oc s) = block_best_proof s"
  proof (rule apply_call_cases [of c oc s])
    fix s' assume d: "dispatch c (fst oc) (snd oc) s = Some (Inr s')" and a: "apply_call c oc s = s'"
    then show ?thesis using False other_call_best [OF d] by (cases "snd oc") auto
  qed simp
  ultimately show ?thesis using b by simp
qed

lemma calls_best:
  "best_so_far acc (block_best_proof s) \<Longrightarrow>
     best_so_far (acc @ accepted_proofs c calls s) (block_best_proof (fold (apply_call c) calls s))"
proof (induction calls arbitrary: acc s)
  case (Cons oc calls)
  from Cons.IH [OF apply_call_best [OF Cons.prems]] show ?case by simp
qed simp

lemma reachable_no_best: "reachable c s \<Longrightarrow> block_best_proof s = None"
proof (induction rule: reachable.induct)
  case (block s calls parent)
  show ?case
    by (cases "block_best_proof (fold (apply_call c) calls (open_block c parent s))")
      (simp_all add: execute_block_def Let_def on_finalize_None on_finalize_Some)
qed (simp_all add: genesis_def)

text \<open>
  C3: the qblock of a block records the first of the submissions accepted in that block whose energy is the least of
  all: the miner, salt, topology and energy are those of that submission, every earlier one has a greater energy and
  no later one a smaller energy. A block without an accepted proof has no qblock.
\<close>

theorem block_winner_is_best:
  fixes parent :: h256
  assumes r: "reachable c s" "integrity_test c" "list_all (call_typed \<circ> snd) calls" "block_number s < u32_max"
  shows "let acc = accepted_proofs c calls (open_block c parent s) in
    case qblocks (execute_block c parent calls s) (Suc (block_number s)) of
      None \<Rightarrow> acc = []
    | Some q \<Rightarrow> (\<exists>before p after. acc = before @ (qb_miner q, p, qb_energy_milli q) # after \<and>
        qb_salt q = qp_salt p \<and> qb_topology_hash q = qp_topology_hash p \<and>
        qb_device_access_time_us q = qp_device_access_time_us p \<and>
        (\<forall>(w, p', e) \<in> set before. qb_energy_milli q < e) \<and> (\<forall>(w, p', e) \<in> set after. qb_energy_milli q \<le> e))"
proof -
  let ?b = "fold (apply_call c) calls (open_block c parent s)" and ?n = "Suc (block_number s)"
  have "best_so_far [] (block_best_proof (open_block c parent s))"
    using reachable_no_best [OF r(1)] by (simp add: best_so_far_def)
  from calls_best [OF this] have best: "best_so_far (accepted_proofs c calls (open_block c parent s)) (block_best_proof ?b)" by simp
  have n: "block_number ?b = ?n" by (simp add: calls_same_block)
  have "qblocks_ok s" using reachable_inv [OF r(2,1)] by (simp add: pow_inv_def)
  then have "qblocks s ?n = None" unfolding qblocks_ok_def by (metis domIff leD le_trans lessI)
  then have fresh: "qblocks ?b ?n = None" by (simp add: calls_same_block)
  have ex: "execute_block c parent calls s = on_finalize c ?n ?b" using n by (simp add: execute_block_def)
  show ?thesis unfolding ex
    by (cases "block_best_proof ?b")
      (use best fresh in \<open>simp_all add: Let_def on_finalize_None on_finalize_Some best_so_far_def first_best_def\<close>)
qed

subsection \<open>The nonce of a qblock\<close>

text \<open>
  if a proof accepted in a block is the one the block's qblock records (same miner and salt), the
  nonce derived from the stored qblock is the nonce the miner submitted, whatever calls came between.
\<close>

theorem qblock_nonce_rederived:
  assumes acc: "submit_proof c (Signed who) p s = Some (Inr s1)"
    and later: "s2 = fold (apply_call c) calls s1"
    and win: "block_best_proof s2 = Some r" "pr_miner r = who" "pr_salt r = qp_salt p"
  shows "\<exists>q. qblock_with_nonce c (on_finalize c n s2) n = Some (q, qp_nonce p) \<and> qb_miner q = who \<and>
    qb_energy_milli q = pr_energy_milli r \<and> qb_topology_hash q = pr_topology_hash r"
proof -
  from acc obtain who' t ix h j v where ch: "submit_checks c (Signed who) p s = Inr (who', t, ix, h, j)"
    by (rule submit_proof_Inr)
  from submit_checks_Inr [OF ch] have nonce: "qp_nonce p =
      derive_nonce (blake3_256 c) (last_proof_block_hash s) (account_to_bytes c who) (qp_salt p)" by auto
  have "last_proof_block_hash s1 = last_proof_block_hash s"
    using dispatch_same_block [of c "Signed who" "SubmitProof p" s s1] acc by simp
  then have "last_proof_block_hash s2 = last_proof_block_hash s"
    unfolding later by (simp add: calls_same_block)
  then show ?thesis using nonce win by (simp add: qblock_with_nonce_def on_finalize_Some [OF win(1)])
qed

subsection \<open>The seed of a round\<close>

lemma execute_block_hash:
  "last_proof_block_hash (execute_block c parent calls s) = last_proof_block_hash (open_block c parent s)"
  by (cases "block_best_proof (fold (apply_call c) calls (open_block c parent s))")
    (simp_all add: execute_block_def Let_def on_finalize_None on_finalize_Some calls_same_block)

text \<open>
  the nonce seed of a round changes only in the block after a win (and in the first block), where it
  becomes the hash of the winning block; in every other block it stays the same whatever is called,
  and a stored qblock is never changed by a later block.
\<close>

theorem round_seed_stable:
  assumes r: "reachable c s" "integrity_test c" "list_all (call_typed \<circ> snd) calls" "block_number s < u32_max"
  shows "last_proof_block_hash (execute_block c parent calls s) =
      (if block_number s = 0 \<or> last_proof_block s = block_number s
       then hash_to_bytes_32 c parent else last_proof_block_hash s) \<and>
    (\<forall>n q. qblocks s n = Some q \<longrightarrow> qblocks (execute_block c parent calls s) n = Some q)"
proof (intro conjI allI impI)
  have q: "qblocks_ok s" using reachable_inv [OF r(2,1)] by (simp add: pow_inv_def)
  then have le: "last_proof_block s \<le> block_number s" unfolding qblocks_ok_def by blast
  have "sat_add u32_max (last_proof_block s) 1 = last_proof_block s + 1" using le r(4) by (simp add: sat_add_def)
  then show "last_proof_block_hash (execute_block c parent calls s) =
      (if block_number s = 0 \<or> last_proof_block s = block_number s
       then hash_to_bytes_32 c parent else last_proof_block_hash s)"
    unfolding execute_block_hash by (auto simp: open_block_def on_initialize_def Let_def)
  fix n x assume n: "qblocks s n = Some x"
  then have "n \<le> block_number s" using q unfolding qblocks_ok_def by (metis domI le_trans)
  then show "qblocks (execute_block c parent calls s) n = Some x"
    by (cases "block_best_proof (fold (apply_call c) calls (open_block c parent s))")
      (simp_all add: execute_block_def Let_def on_finalize_None on_finalize_Some calls_same_block n)
qed

subsection \<open>Deposits\<close>

text \<open>
  with a currency that satisfies the documented laws, registering reserves exactly the miner deposit of
  the caller, and deregistering afterwards succeeds and gives every account its free and reserved
  balance back; nobody else's balance is touched at any point.
\<close>

theorem miner_deposit_returned:
  assumes cur: "reserve_laws (currency c)" and reg: "register_miner c (Signed who) s = Inr s1"
  shows "reserved_balance (currency c) (env s1) who = reserved_balance (currency c) (env s) who + miner_deposit c \<and>
    (\<exists>s2. deregister_miner c (Signed who) s1 = Inr s2 \<and> miners s2 = miners s \<and>
      (\<forall>x. free_balance (currency c) (env s2) x = free_balance (currency c) (env s) x \<and>
           reserved_balance (currency c) (env s2) x = reserved_balance (currency c) (env s) x))"
proof -
  let ?cur = "currency c" and ?d = "miner_deposit c"
  from reg obtain e1 where e1: "reserve ?cur who ?d (env s) = Inr e1" "miners s who = None"
    and s1: "env s1 = e1" "miners s1 = (miners s)(who \<mapsto> \<lparr>mi_registered_at = block_number s, mi_deposit = ?d,
      proofs_submitted = 0, proofs_won = 0, rewards_earned = 0\<rparr>)"
    by (auto simp: register_miner_def Let_def)
  have r1: "?d \<le> free_balance ?cur (env s) who" "free_balance ?cur e1 who = free_balance ?cur (env s) who - ?d"
    "reserved_balance ?cur e1 who = reserved_balance ?cur (env s) who + ?d"
    "\<And>x. x \<noteq> who \<Longrightarrow> free_balance ?cur e1 x = free_balance ?cur (env s) x \<and>
       reserved_balance ?cur e1 x = reserved_balance ?cur (env s) x"
    using cur e1(1) unfolding reserve_laws_def by blast+
  define e2 where "e2 = snd (unreserve ?cur who ?d e1)"
  have r2: "free_balance ?cur e2 who = free_balance ?cur e1 who + ?d"
    "reserved_balance ?cur e2 who = reserved_balance ?cur e1 who - ?d"
    "\<And>x. x \<noteq> who \<Longrightarrow> free_balance ?cur e2 x = free_balance ?cur e1 x \<and>
       reserved_balance ?cur e2 x = reserved_balance ?cur e1 x"
    using cur r1(3) unfolding reserve_laws_def Let_def e2_def by auto
  obtain s2 where "deregister_miner c (Signed who) s1 = Inr s2" "env s2 = e2" "miners s2 = (miners s1)(who := None)"
    using s1 by (auto simp: deregister_miner_def e2_def case_prod_unfold)
  moreover have "(miners s1)(who := None) = miners s" using s1(2) e1(2) by auto
  moreover have "free_balance ?cur e2 x = free_balance ?cur (env s) x \<and>
      reserved_balance ?cur e2 x = reserved_balance ?cur (env s) x" for x
    using r1 r2 by (cases "x = who") auto
  ultimately show ?thesis using r1(3) s1(1) by auto
qed

subsection \<open>Difficulty of the winning topology\<close>

text \<open>
  finalizing a block with a winner changes the difficulty of the winner's topology only: the new
  threshold lies between the winning energy and the threshold that was live, and is strictly harder
  when the win cleared it; every other topology keeps its entry.
\<close>

theorem winner_moves_own_difficulty:
  assumes win: "block_best_proof s = Some r"
    and curve: "energy_curve_for c s (pr_topology_hash r) = Some k"
    and typed: "in_i64 (max_energy_milli (current_difficulty_for c s (pr_topology_hash r) n))" "in_i64 (pr_energy_milli r)"
  shows "let live = current_difficulty_for c s (pr_topology_hash r) n; s' = on_finalize c n s in
    (\<forall>h. h \<noteq> pr_topology_hash r \<longrightarrow> difficulties s' h = difficulties s h) \<and>
    (\<exists>d. difficulties s' (pr_topology_hash r) = Some d \<and>
      (if pr_energy_milli r < max_energy_milli live
       then pr_energy_milli r \<le> max_energy_milli d \<and> max_energy_milli d < max_energy_milli live
       else d = live) \<and>
      min_solutions d = min_solutions live \<and> min_diversity_milli d = min_diversity_milli live)"
  using adjust_on_proof_cases [OF typed] curve
  by (simp add: Let_def on_finalize_Some [OF win] next_difficulty_def)

subsection \<open>The invariant\<close>

text \<open>
  C4: in every reachable state every registered topology is a well-formed puzzle definition, the default
  topology is registered and mineable, at most one other topology is mineable, every difficulty entry
  belongs to a registered topology and asks for diversity only with two or more solutions, and the
  council parameters are within their bounds.
\<close>

theorem reachable_topologies_and_difficulties:
  assumes "reachable c s" "integrity_test c"
  shows "topologies_ok c s \<and> difficulties_ok s \<and> parameters_ok c s"
  using reachable_inv [OF assms(2,1)] by (simp add: pow_inv_def)

text \<open>
  C10: in every reachable state the qblock ids are exactly 1 to the latest id, each id names one block and
  each qblock's block its id, later ids name later blocks, and looking a qblock up by id or by block
  gives the same record and nonce.
\<close>

theorem qblock_index_bijective:
  assumes "reachable c s" "integrity_test c"
  shows "(case latest_qblock_id s of None \<Rightarrow> qblocks s = Map.empty
      | Some m \<Rightarrow> dom (qblock_block_by_id s) = {1..m}) \<and>
    (\<forall>i n. qblock_block_by_id s i = Some n \<longleftrightarrow> qblock_id_by_block s n = Some i) \<and>
    (\<forall>i n. qblock_block_by_id s i = Some n \<longrightarrow>
       qblock_with_nonce_by_id c s i = qblock_with_nonce c s n \<and> qblock_with_nonce c s n \<noteq> None) \<and>
    (\<forall>i j n m. i < j \<and> qblock_block_by_id s i = Some n \<and> qblock_block_by_id s j = Some m \<longrightarrow> n < m)"
proof -
  have q: "qblocks_ok s" using reachable_inv [OF assms(2,1)] by (simp add: pow_inv_def)
  then have d: "dom (qblock_block_by_id s) = {1..qblock_count s}"
    and i: "\<And>i n. qblock_block_by_id s i = Some n \<longleftrightarrow> qblock_id_by_block s n = Some i"
    and dq: "dom (qblocks s) = dom (qblock_id_by_block s)"
    unfolding qblocks_ok_def by blast+
  have "qblocks s = Map.empty" if "qblock_count s = 0"
  proof -
    have "qblock_block_by_id s k = None" for k using d that by auto
    then have "dom (qblock_id_by_block s) = {}" using i by (metis dom_eq_empty_conv ext not_None_eq)
    then show ?thesis using dq by simp
  qed
  moreover have "qblock_with_nonce c s n \<noteq> None" if "qblock_block_by_id s k = Some n" for k n
  proof -
    have "n \<in> dom (qblocks s)" using that i dq by auto
    then show ?thesis by (auto simp: qblock_with_nonce_def)
  qed
  moreover have "qblock_with_nonce_by_id c s k = qblock_with_nonce c s n" if "qblock_block_by_id s k = Some n" for k n
    using that by (simp add: qblock_with_nonce_by_id_def)
  moreover have "\<forall>i j n m. i < j \<and> qblock_block_by_id s i = Some n \<and> qblock_block_by_id s j = Some m \<longrightarrow> n < m"
    using q unfolding qblocks_ok_def by blast
  moreover have "case latest_qblock_id s of None \<Rightarrow> qblocks s = Map.empty
      | Some m \<Rightarrow> dom (qblock_block_by_id s) = {1..m}"
    using calculation(1) d by (simp add: latest_qblock_id_def)
  ultimately show ?thesis using i by blast
qed

end
