(* ===== verification/Pow_Completeness.thy ===== *)
theory Pow_Completeness
  imports Pow_Theorems
begin

text \<open>
  The miner's side: a proof built from the mining snapshot, with solutions packed by the crate's own encoder, is accepted
  exactly when its solutions meet the snapshot's difficulty.
\<close>

subsection \<open>Decoding what was packed\<close>

definition milli_solution :: "topology_meta \<Rightarrow> i32 list \<Rightarrow> bool" where
  "milli_solution t v \<longleftrightarrow> length v = length (tm_nodes t) \<and> list_all (allows (allowed_spin_values t)) v \<and> list_all in_i32 v \<and> 0 \<notin> set v"

abbreviation (input) packed_solution :: "topology_meta \<Rightarrow> i32 list \<Rightarrow> validation_error + bytes" where
  "packed_solution t v \<equiv> pack_solution v (allowed_spin_values t)"

lemma decode_packed:
  assumes "spec_valid (allowed_spin_values t)" "milli_solution t v" "length (tm_nodes t) * 32 + 7 \<le> usize_max"
  obtains b where "packed_solution t v = Inr b" "decode_solution t b = Inr (map sgn v)"
proof -
  from pack_unpack_ok [of "allowed_spin_values t" v] assms obtain b where
    "packed_solution t v = Inr b" "unpack_solution b (length (tm_nodes t)) (allowed_spin_values t) = Inr v"
    by (auto simp: milli_solution_def)
  moreover have "spin_signs v = Inr (map sgn v)" using assms(2) by (simp add: spin_signs_Inr milli_solution_def)
  ultimately show thesis by (intro that [of b]) (simp_all add: decode_solution_def)
qed

lemma decode_all_packed:
  assumes "spec_valid (allowed_spin_values t)" "list_all (milli_solution t) vs" "length (tm_nodes t) * 32 + 7 \<le> usize_max"
  obtains bs where "collect_res (packed_solution t) vs = Inr bs" "collect_res (decode_solution t) bs = Inr (map (map sgn) vs)"
    "length bs = length vs"
  using assms(2)
proof (induction vs arbitrary: thesis)
  case (Cons v vs)
  obtain b where b: "packed_solution t v = Inr b" "decode_solution t b = Inr (map sgn v)"
    using decode_packed [OF assms(1) _ assms(3), of v] Cons.prems(2) by auto
  obtain bs where bs: "collect_res (packed_solution t) vs = Inr bs" "collect_res (decode_solution t) bs = Inr (map (map sgn) vs)"
    "length bs = length vs" using Cons.IH Cons.prems(2) by auto
  show ?case using b bs by (intro Cons.prems(1) [of "b # bs"]) simp_all
qed simp

lemma signs_validate:
  "milli_solution t v \<Longrightarrow> validate_spins (map sgn v) \<and> length (map sgn v) = length (tm_nodes t)"
  using spin_signs_valid [of v "map sgn v"] by (simp add: milli_solution_def spin_signs_Inr)

subsection \<open>Scoring\<close>

text \<open>The diversity that the selection among the solutions below the threshold reaches.\<close>

definition reached_diversity :: "difficulty_config \<Rightarrow> i8 list list \<Rightarrow> u32 option" where
  "reached_diversity d good =
     (case select_diverse good (min (length good) (max (min_solutions d) 1)) of
        Inl _ \<Rightarrow> None
      | Inr sel \<Rightarrow> (case calculate_diversity (map (\<lambda>i. good ! i) sel) of Some (Inr v) \<Rightarrow> Some v | _ \<Rightarrow> None))"

lemma score_accepts:
  fixes E :: "i8 list \<Rightarrow> int"
  defines "good d xs \<equiv> filter (\<lambda>x. E x < max_energy_milli d) xs"
  shows "(\<exists>v. score_solutions d xs (map E xs) = Some (Inr v) \<and> best_energy_milli v < max_energy_milli d \<and>
      min_solutions d \<le> valid_solution_count v \<and> min_diversity_milli d \<le> diversity_milli v) \<longleftrightarrow>
    good d xs \<noteq> [] \<and> min_solutions d \<le> length (good d xs) \<and>
    (\<exists>x. reached_diversity d (good d xs) = Some x \<and> min_diversity_milli d \<le> x)"
proof -
  let ?vi = "filter (\<lambda>i. map E xs ! i < max_energy_milli d) [0..<length (map E xs)]"
  have g: "map (\<lambda>i. xs ! i) ?vi = good d xs" unfolding good_def length_map by (rule filter_positions)
  then have ne: "?vi = [] \<longleftrightarrow> good d xs = []" by (metis map_is_Nil_conv)
  have "Min (set (map (\<lambda>i. map E xs ! i) ?vi)) < max_energy_milli d" if "?vi \<noteq> []"
    using that by (subst Min_less_iff) (auto simp: filter_empty_conv)
  then show ?thesis unfolding score_solutions_def Let_def g ne reached_diversity_def
    by (auto split: sum.splits option.splits)
qed

subsection \<open>The proof a miner submits\<close>

definition mined_proof ::
    "('a, 'b, 'r) pow_config \<Rightarrow> mining_snapshot \<Rightarrow> 'a \<Rightarrow> bytes \<Rightarrow> bytes list \<Rightarrow> u64 \<Rightarrow> quantum_proof" where
  "mined_proof c sn who salt packed t =
     \<lparr>qp_topology_hash = ms_topology_hash sn,
      qp_nonce = derive_nonce (blake3_256 c) (ms_last_proof_block_hash sn) (account_to_bytes c who) salt,
      qp_salt = salt, qp_solutions = packed, qp_device_access_time_us = t\<rparr>"

lemma snapshot_fields:
  assumes "mining_snapshot_of c s th = Some sn"
  shows "registered_topologies s (ms_topology_hash sn) = Some (ms_topology sn)" "ms_last_proof_block_hash sn = last_proof_block_hash s"
    "ms_difficulty sn = current_difficulty_for c s (ms_topology_hash sn) (block_number s)"
  using assms by (auto simp: mining_snapshot_of_def default_topology_meta_def bind_eq_Some_conv split: option.splits)

lemma model_energies:
  assumes "topology_ok c t" "0 < min_nodes c" "rng_typed r" "length (tm_nodes t) + length (tm_edges t) < 2 ^ 32"
  obtains ix h j where "topology_index_new (tm_nodes t) (tm_edges t) = Inr ix"
    "generate_ising_model_indexed r n (tm_nodes t) (tm_edges t) (allowed_h_values t) (allowed_j_values t) ix = Inr (h, j)"
    "generate_ising_model r n (tm_nodes t) (tm_edges t) (allowed_h_values t) (allowed_j_values t) = Inr (h, j)"
    "\<forall>x. validate_spins x \<longrightarrow> length x = length (tm_nodes t) \<longrightarrow>
      energy_of_solution_indexed x h (tm_edges t) j ix = Inr (ising_energy (tm_nodes t) (tm_edges t) h j x)"
proof -
  have t: "tm_nodes t \<noteq> []" "distinct (tm_nodes t)" "edges_known (tm_nodes t) (tm_edges t)" "spec_valid (allowed_h_values t)"
    "spec_valid (allowed_j_values t)" using assms(1,2) by (auto simp: topology_ok_def)
  from ti.new_ok_iff [of "tm_nodes t" "tm_edges t"] t obtain ix where ix: "topology_index_new (tm_nodes t) (tm_edges t) = Inr ix"
    by (auto simp: is_ok_iff)
  from generate_ising_model_ok [OF assms(3) t(4,5,1,2,3), of n] obtain h j where
    g: "generate_ising_model r n (tm_nodes t) (tm_edges t) (allowed_h_values t) (allowed_j_values t) = Inr (h, j)"
    and l: "length h = length (tm_nodes t)" "length j = length (tm_edges t)" "list_all in_i32 h" "list_all in_i32 j" by blast
  have "energy_of_solution_indexed x h (tm_edges t) j ix = Inr (ising_energy (tm_nodes t) (tm_edges t) h j x)"
    if "validate_spins x" "length x = length (tm_nodes t)" for x
    using energy_of_solution_ok [of x h "tm_edges t" j "tm_nodes t"] that t l assms(4)
    by (simp add: energy_indexed_eq_standalone [OF ix] well_formed_problem_def)
  moreover have "generate_ising_model_indexed r n (tm_nodes t) (tm_edges t) (allowed_h_values t) (allowed_j_values t) ix = Inr (h, j)"
    using g by (simp add: generate_ising_model_def ix)
  ultimately show thesis using that ix g by blast
qed

lemma validate_packed:
  assumes t: "topology_ok c t" and vs: "list_all (milli_solution t) vs" and n: "length (tm_nodes t) * 32 + 7 \<le> usize_max"
    and e: "\<forall>x. validate_spins x \<longrightarrow> length x = length (tm_nodes t) \<longrightarrow> energy_of_solution_indexed x h (tm_edges t) j ix = Inr (E x)"
  obtains bs where "collect_res (packed_solution t) vs = Inr bs" "length bs = length vs"
    "\<forall>p d. qp_solutions p = bs \<longrightarrow> validate_proof p t ix h j d = score_solutions d (map (map sgn) vs) (map E (map (map sgn) vs))"
proof -
  have "spec_valid (allowed_spin_values t)" using t by (simp add: topology_ok_def)
  then obtain bs where bs: "collect_res (packed_solution t) vs = Inr bs" "collect_res (decode_solution t) bs = Inr (map (map sgn) vs)"
    "length bs = length vs" using decode_all_packed [OF _ vs n] by blast
  have "energy_of_solution_indexed x h (tm_edges t) j ix = Inr (E x)" if "x \<in> set (map (map sgn) vs)" for x
    using that vs e signs_validate by (auto simp: list_all_iff)
  then have "collect_res (\<lambda>x. map_err energy_error (energy_of_solution_indexed x h (tm_edges t) j ix)) (map (map sgn) vs)
      = Inr (map E (map (map sgn) vs))" by (intro collect_res_ok) simp
  then show thesis using that bs by (simp add: validate_proof_def)
qed

lemma submit_proof_accepts_iff:
  assumes "submit_checks c og p s = Inr (who, t, ix, h, j)" "miners s who \<noteq> None"
  defines "d \<equiv> current_difficulty_for c s (qp_topology_hash p) (block_number s)"
  shows "(\<exists>s'. submit_proof c og p s = Some (Inr s')) \<longleftrightarrow>
    (\<exists>w. validate_proof p t ix h j d = Some (Inr w) \<and> best_energy_milli w < max_energy_milli d \<and>
       min_solutions d \<le> valid_solution_count w \<and> min_diversity_milli d \<le> diversity_milli w)"
  using assms(2)
  by (auto simp: submit_proof_def assms(1) d_def [symmetric] accept_proof_def Let_def ensure_Inr_iff split: sum.splits option.splits)

text \<open>
  C2: Mining from the snapshot is complete and exact. While a block is executed, whatever allowed solutions a registered
  miner packs into a proof for the snapshot's topology, with the nonce derived from the snapshot, the proof is accepted
  if and only if enough of them lie below the snapshot's energy threshold for the puzzle of that nonce and the
  selection among those reaches the required diversity. Generation of the puzzle and packing never fail.
\<close>

theorem mined_proof_accepted_iff:
  assumes r: "executing c s" "integrity_test c" "0 < min_nodes c" "rng_typed (rng c)"
    and sn: "mining_snapshot_of c s th = Some sn" "ms_topology_hash sn \<in> mineable_topologies s"
    and m: "miners s who \<noteq> None" "block_proof_count s < max_proofs_per_block c"
    and vs: "vs \<noteq> []" "list_all (milli_solution (ms_topology sn)) vs"
    and n: "length (tm_nodes (ms_topology sn)) * 32 + 7 \<le> usize_max"
      "length (tm_nodes (ms_topology sn)) + length (tm_edges (ms_topology sn)) < 2 ^ 32"
  shows "\<exists>h j packed. generate_ising_model (rng c) (qp_nonce (mined_proof c sn who salt [] dt)) (tm_nodes (ms_topology sn))
      (tm_edges (ms_topology sn)) (allowed_h_values (ms_topology sn)) (allowed_j_values (ms_topology sn)) = Inr (h, j) \<and>
    collect_res (\<lambda>v. pack_solution v (allowed_spin_values (ms_topology sn))) vs = Inr packed \<and>
    ((\<exists>s'. submit_proof c (Signed who) (mined_proof c sn who salt packed dt) s = Some (Inr s')) \<longleftrightarrow>
      (let E = ising_energy (tm_nodes (ms_topology sn)) (tm_edges (ms_topology sn)) h j;
           good = filter (\<lambda>x. E x < max_energy_milli (ms_difficulty sn)) (map (map sgn) vs)
       in good \<noteq> [] \<and> min_solutions (ms_difficulty sn) \<le> length good \<and>
          (\<exists>d. reached_diversity (ms_difficulty sn) good = Some d \<and> min_diversity_milli (ms_difficulty sn) \<le> d)))"
proof -
  let ?t = "ms_topology sn" and ?d = "ms_difficulty sn" and ?n = "qp_nonce (mined_proof c sn who salt [] dt)"
  note f = snapshot_fields [OF sn(1)]
  have t: "topology_ok c ?t"
    using topologies_okD(1) executing_inv [OF r(2,1)] f(1) by (metis open_inv_def)
  obtain ix h j where ix: "topology_index_new (tm_nodes ?t) (tm_edges ?t) = Inr ix"
    and g: "generate_ising_model_indexed (rng c) ?n (tm_nodes ?t) (tm_edges ?t) (allowed_h_values ?t) (allowed_j_values ?t) ix = Inr (h, j)"
      "generate_ising_model (rng c) ?n (tm_nodes ?t) (tm_edges ?t) (allowed_h_values ?t) (allowed_j_values ?t) = Inr (h, j)"
    and e: "\<forall>x. validate_spins x \<longrightarrow> length x = length (tm_nodes ?t) \<longrightarrow>
      energy_of_solution_indexed x h (tm_edges ?t) j ix = Inr (ising_energy (tm_nodes ?t) (tm_edges ?t) h j x)"
    by (rule model_energies [OF t r(3,4) n(2), of ?n])
  obtain bs where bs: "collect_res (packed_solution ?t) vs = Inr bs" "length bs = length vs"
    and v: "\<forall>p d. qp_solutions p = bs \<longrightarrow> validate_proof p ?t ix h j d =
      score_solutions d (map (map sgn) vs) (map (ising_energy (tm_nodes ?t) (tm_edges ?t) h j) (map (map sgn) vs))"
    by (rule validate_packed [OF t vs(2) n(1) e])
  let ?p = "mined_proof c sn who salt bs dt"
  have "bs \<noteq> []" using bs(2) vs(1) by auto
  then have ch: "submit_checks c (Signed who) ?p s = Inr (who, ?t, ix, h, j)"
    using f m sn(2) t ix g(1) by (auto simp: submit_checks_def mined_proof_def topology_ok_def)
  have sc: "(\<exists>s'. submit_proof c (Signed who) ?p s = Some (Inr s')) \<longleftrightarrow>
      (\<exists>w. validate_proof ?p ?t ix h j ?d = Some (Inr w) \<and> best_energy_milli w < max_energy_milli ?d \<and>
         min_solutions ?d \<le> valid_solution_count w \<and> min_diversity_milli ?d \<le> diversity_milli w)"
    using submit_proof_accepts_iff [OF ch m(1)] by (simp add: f(3) mined_proof_def)
  have p: "validate_proof ?p ?t ix h j ?d = score_solutions ?d (map (map sgn) vs)
      (map (ising_energy (tm_nodes ?t) (tm_edges ?t) h j) (map (map sgn) vs))" using v by (simp add: mined_proof_def)
  show ?thesis unfolding Let_def
    by (intro exI [of _ h] exI [of _ j] exI [of _ bs] conjI g(2) bs(1)) (unfold sc p, rule score_accepts)
qed

end
