(* ===== verification/Emission.thy ===== *)
theory Emission
  imports Frame
begin

text \<open>
  \<open>pallets/emission-controller/src/lib.rs\<close>: time-accrued issuance into subnet pots, rewards paid out of a
  pot, and the separate finite faucet budget. The balances and the 128-bit rational arithmetic of the
  framework are parameters; a storage map with default 0 is a total function. A transactional function
  that fails returns \<open>Inl\<close> and its changes are dropped.
\<close>

subsection \<open>Constants\<close>

definition ANNUAL_EMISSION_QUIP :: u128 where "ANNUAL_EMISSION_QUIP = 40000000"
definition CONTROLLER_SHARE_PERCENT :: u128 where "CONTROLLER_SHARE_PERCENT = 75"
definition STAKING_SHARE_PERCENT :: u128 where "STAKING_SHARE_PERCENT = 25"

definition CONTROLLER_ANNUAL_EMISSION_QUIP :: u128 where
  "CONTROLLER_ANNUAL_EMISSION_QUIP = sat_mul u128_max ANNUAL_EMISSION_QUIP CONTROLLER_SHARE_PERCENT div 100"

definition STAKING_ANNUAL_EMISSION_QUIP :: u128 where
  "STAKING_ANNUAL_EMISSION_QUIP = sat_mul u128_max ANNUAL_EMISSION_QUIP STAKING_SHARE_PERCENT div 100"

definition YEAR_SECONDS :: u64 where "YEAR_SECONDS = 365 * 24 * 60 * 60"
definition MILLISECONDS_PER_YEAR :: u64 where "MILLISECONDS_PER_YEAR = YEAR_SECONDS * 1000"
definition ISING_SUBNET :: u32 where "ISING_SUBNET = 0"
definition QVRF_SUBNET :: u32 where "QVRF_SUBNET = 1"

text \<open>\<open>Perbill\<close>: parts per billion.\<close>

type_synonym perbill = nat

abbreviation (input) perbill_accuracy :: nat where "perbill_accuracy \<equiv> 1000000000"

subsection \<open>State\<close>

datatype emission_error = ZeroAmount | BudgetExceeded | Overflow | DepositFailed

datatype 'a emission_event =
    SubnetFunded u32 u128
  | RewardPaid u32 'a u128
  | FaucetMinted 'a u128
  | FundingFailed u32 u128 "emission_error dispatch_error"
  | RewardUnavailable u32 'a u128 "nat option"

record ('a, 'b) emission_config =
  em_currency :: "('a, 'b) currency_ops"
  annual_emission :: u128
  max_subnets :: u32
  pot_id :: bytes
  hash_of_pot :: "string \<times> bytes \<times> u32 \<Rightarrow> bytes"
  decode_account :: "bytes \<Rightarrow> 'a"
  mul_floor :: "perbill \<Rightarrow> u128 \<Rightarrow> u128"
  multiply_by_rational :: "u128 \<Rightarrow> u128 \<Rightarrow> u128 \<Rightarrow> u128 option"

record ('a, 'b) emission_state =
  em_enabled :: bool
  start_at :: "u64 option"
  em_routes :: "(u32 \<times> perbill) list"
  subnet_issued :: "u32 \<Rightarrow> u128"
  scheduled_issued :: u128
  faucet_budget :: u128
  faucet_issued :: u128
  emission_version :: nat
  emission_events :: "'a emission_event list"
  balances :: 'b

definition emit :: "'a emission_event \<Rightarrow> ('a, 'b) emission_state \<Rightarrow> ('a, 'b) emission_state" where
  "emit ev s = s\<lparr>emission_events := emission_events s @ [ev]\<rparr>"

text \<open>The documented results of the framework's fixed-point helpers.\<close>

definition arith_laws :: "('a, 'b) emission_config \<Rightarrow> bool" where
  "arith_laws c \<longleftrightarrow>
     (\<forall>p x. p \<le> perbill_accuracy \<longrightarrow> mul_floor c p x = p * x div perbill_accuracy) \<and>
     (\<forall>x y z. multiply_by_rational c x y z =
        (if z = 0 \<or> u128_max < x * y div z then None else Some (x * y div z)))"

subsection \<open>Operations\<close>

definition pot :: "('a, 'b) emission_config \<Rightarrow> u32 \<Rightarrow> 'a" where
  "pot c subnet = decode_account c (hash_of_pot c (''quip/emission/pot'', pot_id c, subnet))"

fun routes_sum :: "(u32 \<times> perbill) list \<Rightarrow> (u32 \<times> perbill) list \<Rightarrow> u64 \<Rightarrow> u64 option" where
  "routes_sum seen [] acc = Some acc"
| "routes_sum seen ((sid, share) # rest) acc =
     (if share = 0 \<or> (\<exists>r \<in> set seen. fst r = sid) then None
      else routes_sum (seen @ [(sid, share)]) rest (acc + share))"

definition valid_routes :: "('a, 'b) emission_config \<Rightarrow> (u32 \<times> perbill) list \<Rightarrow> bool \<Rightarrow> bool" where
  "valid_routes c routes en =
     (if length routes > max_subnets c then False
      else if routes = [] then \<not> en
      else case routes_sum [] routes 0 of None \<Rightarrow> False | Some acc \<Rightarrow> acc = perbill_accuracy)"

definition entitlement :: "('a, 'b) emission_config \<Rightarrow> u64 \<Rightarrow> u128 option" where
  "entitlement c elapsed =
     (let annual = annual_emission c in
      Option.bind (checked_mul u128_max annual (elapsed div YEAR_SECONDS)) (\<lambda>years.
      Option.bind (checked_mul u128_max annual (elapsed mod YEAR_SECONDS)) (\<lambda>f.
      checked_add u128_max years (f div YEAR_SECONDS))))"

definition deposit_exact ::
    "('a, 'b) emission_config \<Rightarrow> 'a \<Rightarrow> u128 \<Rightarrow> ('a, 'b) emission_state \<Rightarrow>
     emission_error dispatch_error + ('a, 'b) emission_state" where
  "deposit_exact c who amount s =
     ensure (checked_add u128_max (total_issuance (em_currency c) (balances s)) amount \<noteq> None) (Module Overflow)
     (let (imbalance, b) = deposit_creating (em_currency c) who amount (balances s)
      in ensure (imbalance = amount) (Module DepositFailed) (Inr (s\<lparr>balances := b\<rparr>)))"

definition fund_subnet ::
    "('a, 'b) emission_config \<Rightarrow> u32 \<Rightarrow> u128 \<Rightarrow> ('a, 'b) emission_state \<Rightarrow>
     emission_error dispatch_error + ('a, 'b) emission_state" where
  "fund_subnet c subnet amount s =
     and_then (ok_or (checked_add u128_max (subnet_issued s subnet) amount) (Module Overflow)) (\<lambda>nxt.
     and_then (ok_or (checked_add u128_max (scheduled_issued s) amount) (Module Overflow)) (\<lambda>total.
     and_then (deposit_exact c (pot c subnet) amount s) (\<lambda>s1.
       Inr (emit (SubnetFunded subnet amount)
         (s1\<lparr>subnet_issued := (subnet_issued s1)(subnet := nxt), scheduled_issued := total\<rparr>)))))"

definition fund_route ::
    "('a, 'b) emission_config \<Rightarrow> u128 \<Rightarrow> u32 \<times> perbill \<Rightarrow> ('a, 'b) emission_state \<Rightarrow> ('a, 'b) emission_state" where
  "fund_route c tot route s =
     (let (subnet, share) = route;
          target = mul_floor c share tot;
          amount = sat_sub target (subnet_issued s subnet)
      in if amount \<noteq> 0
         then case fund_subnet c subnet amount s of
                Inr s' \<Rightarrow> s'
              | Inl e \<Rightarrow> emit (FundingFailed subnet amount e) s
         else s)"

definition accrue :: "('a, 'b) emission_config \<Rightarrow> u64 \<Rightarrow> ('a, 'b) emission_state \<Rightarrow> ('a, 'b) emission_state" where
  "accrue c now s =
     (if \<not> em_enabled s \<or> now = 0 then s
      else case start_at s of
             None \<Rightarrow> s\<lparr>start_at := Some now\<rparr>
           | Some start \<Rightarrow>
               (case entitlement c (sat_sub now start) of
                  None \<Rightarrow> s
                | Some tot \<Rightarrow> fold (fund_route c tot) (em_routes s) s))"

definition mint_faucet ::
    "('a, 'b) emission_config \<Rightarrow> 'a \<Rightarrow> u128 \<Rightarrow> ('a, 'b) emission_state \<Rightarrow>
     emission_error dispatch_error + ('a, 'b) emission_state" where
  "mint_faucet c who amount s =
     ensure (amount > 0) (Module ZeroAmount)
     (and_then (ok_or (checked_add u128_max (faucet_issued s) amount) (Module Overflow)) (\<lambda>nxt.
      ensure (nxt \<le> faucet_budget s) (Module BudgetExceeded)
      (and_then (deposit_exact c who amount s) (\<lambda>s1.
        Inr (emit (FaucetMinted who amount) (s1\<lparr>faucet_issued := nxt\<rparr>))))))"

text \<open>\<open>SubnetRewards::pay\<close>, the reward backend bound to one subnet: the amount paid and the new state.\<close>

definition pay ::
    "('a, 'b) emission_config \<Rightarrow> u32 \<Rightarrow> 'a \<Rightarrow> u128 \<Rightarrow> ('a, 'b) emission_state \<Rightarrow> u128 \<times> ('a, 'b) emission_state" where
  "pay c subnet who requested s =
     (let p = pot c subnet;
          available = sat_sub (free_balance (em_currency c) (balances s) p) (minimum_balance (em_currency c));
          amount = min requested available
      in if amount = 0 \<or> p = who
         then (0, emit (RewardUnavailable subnet who requested None) s)
         else case transfer (em_currency c) p who amount True (balances s) of
                Inl e \<Rightarrow> (0, emit (RewardUnavailable subnet who requested (Some e)) s)
              | Inr b \<Rightarrow> (amount, emit (RewardPaid subnet who amount) (s\<lparr>balances := b\<rparr>)))"

subsection \<open>Genesis and upgrade\<close>

definition EMISSION_VERSION :: nat where "EMISSION_VERSION = 2"

text \<open>\<open>None\<close> when an assertion of the genesis builder fails.\<close>

definition emission_build ::
    "('a, 'b) emission_config \<Rightarrow> bool \<Rightarrow> u64 option \<Rightarrow> (u32 \<times> perbill) list \<Rightarrow> u128 \<Rightarrow> 'b \<Rightarrow> ('a, 'b) emission_state option" where
  "emission_build c en start routes budget b =
     (if \<not> valid_routes c routes en \<or> annual_emission c = 0 \<or> start = Some 0 then None
      else Some \<lparr>em_enabled = en, start_at = start, em_routes = routes, subnet_issued = (\<lambda>_. 0),
                 scheduled_issued = 0, faucet_budget = budget, faucet_issued = 0,
                 emission_version = EMISSION_VERSION, emission_events = [], balances = b\<rparr>)"

definition rebased_start ::
    "('a, 'b) emission_config \<Rightarrow> u64 \<Rightarrow> ('a, 'b) emission_state \<Rightarrow> string + u64 option" where
  "rebased_start c now s =
     (let start = start_at s; issued = scheduled_issued s
      in if \<not> em_enabled s \<or> start = None \<or> issued = 0 then Inr start
         else and_then (ok_or (multiply_by_rational c issued YEAR_SECONDS (annual_emission c))
                (''rebase duration overflow or zero annual emission'')) (\<lambda>elapsed.
              Inr (Some (sat_sub now (if elapsed \<le> u64_max then elapsed else u64_max)))))"

definition emission_on_runtime_upgrade ::
    "('a, 'b) emission_config \<Rightarrow> u64 \<Rightarrow> ('a, 'b) emission_state \<Rightarrow> ('a, 'b) emission_state" where
  "emission_on_runtime_upgrade c now s =
     (if emission_version s \<ge> EMISSION_VERSION then s
      else case rebased_start c now s of
             Inl _ \<Rightarrow> s
           | Inr start \<Rightarrow> s\<lparr>start_at := start, emission_version := EMISSION_VERSION\<rparr>)"

subsection \<open>Routes and entitlement\<close>

lemma routes_sum_Some:
  "routes_sum seen rs acc = Some t \<Longrightarrow>
     t = acc + sum_list (map snd rs) \<and> distinct (map fst rs) \<and> fst ` set rs \<inter> fst ` set seen = {} \<and> (\<forall>r \<in> set rs. 0 < snd r)"
  by (induction seen rs acc rule: routes_sum.induct) (auto split: if_splits)

lemma valid_routes_distinct:
  assumes "valid_routes c rs en" shows "distinct (map fst rs)" "sum_list (map snd rs) \<le> perbill_accuracy"
    "rs \<noteq> [] \<Longrightarrow> sum_list (map snd rs) = perbill_accuracy"
  using assms routes_sum_Some [of "[]" rs 0] by (auto simp: valid_routes_def split: if_splits option.splits)

lemma YEAR_pos [simp]: "0 < YEAR_SECONDS"
  by (simp add: YEAR_SECONDS_def)

lemma entitlement_Some:
  "entitlement c e = Some t \<Longrightarrow> t = annual_emission c * e div YEAR_SECONDS"
  using mult_div_split [of YEAR_SECONDS "annual_emission c" e]
  by (auto simp: entitlement_def Let_def bind_eq_Some_conv checked_mul_Some_iff checked_add_Some_iff)

lemma entitlement_total:
  assumes "annual_emission c * YEAR_SECONDS \<le> u128_max" "annual_emission c * e div YEAR_SECONDS \<le> u128_max"
  shows "entitlement c e = Some (annual_emission c * e div YEAR_SECONDS)"
proof -
  have s: "annual_emission c * e div YEAR_SECONDS =
      annual_emission c * (e div YEAR_SECONDS) + annual_emission c * (e mod YEAR_SECONDS) div YEAR_SECONDS"
    by (rule mult_div_split) simp
  have "annual_emission c * (e mod YEAR_SECONDS) \<le> u128_max"
    using assms(1) by (meson YEAR_pos mod_less_divisor less_imp_le mult_le_mono2 order_trans)
  then show ?thesis using assms(2) s by (simp add: entitlement_def Let_def checked_mul_def checked_add_def)
qed

subsection \<open>What one operation issues\<close>

text \<open>The fields that no issuing operation changes.\<close>

definition same_policy :: "('a, 'b) emission_state \<Rightarrow> ('a, 'b) emission_state \<Rightarrow> bool" where
  "same_policy s s' \<longleftrightarrow>
     em_enabled s' = em_enabled s \<and> em_routes s' = em_routes s \<and> faucet_budget s' = faucet_budget s \<and>
     emission_version s' = emission_version s \<and> start_at s' = start_at s"

lemma same_policy_refl [simp]: "same_policy s s"
  by (simp add: same_policy_def)

lemma same_policy_trans: "same_policy s s' \<Longrightarrow> same_policy s' s'' \<Longrightarrow> same_policy s s''"
  by (simp add: same_policy_def)

lemma emit_fields [simp]:
  "subnet_issued (emit ev s) = subnet_issued s" "scheduled_issued (emit ev s) = scheduled_issued s"
  "faucet_issued (emit ev s) = faucet_issued s" "balances (emit ev s) = balances s"
  "same_policy (emit ev s) s' = same_policy s s'" "same_policy s' (emit ev s) = same_policy s' s"
  "start_at (emit ev s) = start_at s" "em_routes (emit ev s) = em_routes s" "em_enabled (emit ev s) = em_enabled s"
  "faucet_budget (emit ev s) = faucet_budget s" "emission_version (emit ev s) = emission_version s"
  by (simp_all add: emit_def same_policy_def)

lemma deposit_exact_Inr:
  assumes "issuance_laws (em_currency c)" "deposit_exact c who amount s = Inr s'"
  obtains b where "s' = s\<lparr>balances := b\<rparr>"
    "total_issuance (em_currency c) b = total_issuance (em_currency c) (balances s) + amount"
    "free_balance (em_currency c) b who = free_balance (em_currency c) (balances s) who + amount"
    "\<And>x. x \<noteq> who \<Longrightarrow> free_balance (em_currency c) b x = free_balance (em_currency c) (balances s) x"
proof -
  obtain p b where d: "deposit_creating (em_currency c) who amount (balances s) = (p, b)" by fastforce
  then have "p = amount" "s' = s\<lparr>balances := b\<rparr>" using assms(2) by (simp_all add: deposit_exact_def)
  then show ?thesis using that [of b] deposit_creating_issues [OF assms(1) d] by simp
qed

lemma fund_subnet_Inr:
  assumes "issuance_laws (em_currency c)" "fund_subnet c k a s = Inr s'"
  shows "subnet_issued s' = (subnet_issued s)(k := subnet_issued s k + a)"
    "scheduled_issued s' = scheduled_issued s + a" "faucet_issued s' = faucet_issued s" "same_policy s s'"
    "total_issuance (em_currency c) (balances s') = total_issuance (em_currency c) (balances s) + a"
proof -
  obtain s1 where s1: "deposit_exact c (pot c k) a s = Inr s1"
    and s': "s' = emit (SubnetFunded k a) (s1\<lparr>subnet_issued := (subnet_issued s1)(k := subnet_issued s k + a),
      scheduled_issued := scheduled_issued s + a\<rparr>)"
    using assms(2) by (auto simp: fund_subnet_def checked_add_Some_iff)
  obtain b where b: "s1 = s\<lparr>balances := b\<rparr>"
    "total_issuance (em_currency c) b = total_issuance (em_currency c) (balances s) + a"
    by (rule deposit_exact_Inr [OF assms(1) s1])
  show "subnet_issued s' = (subnet_issued s)(k := subnet_issued s k + a)"
    "scheduled_issued s' = scheduled_issued s + a" "faucet_issued s' = faucet_issued s" "same_policy s s'"
    "total_issuance (em_currency c) (balances s') = total_issuance (em_currency c) (balances s) + a"
    by (simp_all add: s' b same_policy_def)
qed

text \<open>One route either changes nothing but the events, or issues its shortfall.\<close>

lemma fund_route_cases:
  fixes c :: "('a, 'b) emission_config" and s :: "('a, 'b) emission_state" and k share tot :: nat
  assumes "issuance_laws (em_currency c)"
  defines "s' \<equiv> fund_route c tot (k, share) s" and "a \<equiv> mul_floor c share tot - subnet_issued s k"
  obtains (none) "subnet_issued s' = subnet_issued s" "scheduled_issued s' = scheduled_issued s"
      "faucet_issued s' = faucet_issued s" "same_policy s s'" "balances s' = balances s"
  | (funded) "fund_subnet c k a s = Inr s'" "0 < a" "subnet_issued s' = (subnet_issued s)(k := subnet_issued s k + a)"
      "scheduled_issued s' = scheduled_issued s + a" "faucet_issued s' = faucet_issued s" "same_policy s s'"
      "total_issuance (em_currency c) (balances s') = total_issuance (em_currency c) (balances s) + a"
proof (cases "a = 0")
  case True
  then have "s' = s" unfolding s'_def a_def by (simp add: fund_route_def)
  then show ?thesis using none by simp
next
  case nz: False
  show ?thesis
  proof (cases "fund_subnet c k a s")
    case (Inl e)
    then have "s' = emit (FundingFailed k a e) s" using nz unfolding s'_def a_def by (simp add: fund_route_def)
    then show ?thesis using none by simp
  next
    case (Inr x)
    then have "s' = x" using nz unfolding s'_def a_def by (simp add: fund_route_def)
    then show ?thesis using funded Inr nz fund_subnet_Inr [OF assms(1) Inr] by blast
  qed
qed

subsection \<open>The ledger of issuance\<close>

text \<open>
  Everything scheduled so far is the sum over the routes, the faucet is within its budget, no subnet
  has more than its share of the entitlement accrued up to the clock \<open>t\<close>, and the total issuance has
  grown by exactly what the two counters say since the issuance \<open>i0\<close> at genesis.
\<close>

definition within_share :: "('a, 'b) emission_config \<Rightarrow> u64 \<Rightarrow> ('a, 'b) emission_state \<Rightarrow> u32 \<times> perbill \<Rightarrow> bool" where
  "within_share c t s r \<longleftrightarrow>
     (case start_at s of
        None \<Rightarrow> subnet_issued s (fst r) = 0
      | Some start \<Rightarrow> subnet_issued s (fst r) \<le>
          snd r * (annual_emission c * (t - start) div YEAR_SECONDS) div perbill_accuracy)"

definition issued_by_routes :: "('a, 'b) emission_state \<Rightarrow> u128" where
  "issued_by_routes s = sum_list (map (subnet_issued s \<circ> fst) (em_routes s))"

definition emission_inv :: "('a, 'b) emission_config \<Rightarrow> balance \<Rightarrow> balance \<Rightarrow> u64 \<Rightarrow> ('a, 'b) emission_state \<Rightarrow> bool" where
  "emission_inv c i0 burnt t s \<longleftrightarrow>
     valid_routes c (em_routes s) (em_enabled s) \<and> emission_version s = EMISSION_VERSION \<and>
     scheduled_issued s = issued_by_routes s \<and>
     faucet_issued s \<le> faucet_budget s \<and>
     total_issuance (em_currency c) (balances s) + burnt = i0 + scheduled_issued s + faucet_issued s \<and>
     (\<forall>r \<in> set (em_routes s). within_share c t s r)"

text \<open>
  The operations of the controller in any order, with time going forward, between arbitrary moves of other pallets:
  staking mints its claims, fees and slashes burn, transfers do neither. \<open>minted\<close> and \<open>burnt\<close> add up what the
  others issued and destroyed.
\<close>

inductive emission_reachable ::
    "('a, 'b) emission_config \<Rightarrow> balance \<Rightarrow> balance \<Rightarrow> balance \<Rightarrow> u64 \<Rightarrow> ('a, 'b) emission_state \<Rightarrow> bool"
  for c i0 where
  build: "emission_build c en start routes budget b = Some s \<Longrightarrow> total_issuance (em_currency c) b = i0 \<Longrightarrow>
    emission_reachable c i0 0 0 0 s"
| accrue: "emission_reachable c i0 minted burnt t s \<Longrightarrow> t \<le> now \<Longrightarrow> emission_reachable c i0 minted burnt now (accrue c now s)"
| mint: "emission_reachable c i0 minted burnt t s \<Longrightarrow> mint_faucet c who amount s = Inr s' \<Longrightarrow>
    emission_reachable c i0 minted burnt t s'"
| pay: "emission_reachable c i0 minted burnt t s \<Longrightarrow>
    emission_reachable c i0 minted burnt t (snd (pay c subnet who requested s))"
| upgrade: "emission_reachable c i0 minted burnt t s \<Longrightarrow> t \<le> now \<Longrightarrow>
    emission_reachable c i0 minted burnt now (emission_on_runtime_upgrade c now s)"
| other: "emission_reachable c i0 minted burnt t s \<Longrightarrow>
    total_issuance (em_currency c) b + d = total_issuance (em_currency c) (balances s) + m \<Longrightarrow>
    emission_reachable c i0 (minted + m) (burnt + d) t (s\<lparr>balances := b\<rparr>)"

lemma within_share_mono:
  assumes "within_share c t s r" "t \<le> t'" shows "within_share c t' s r"
proof (cases "start_at s")
  case (Some start)
  have "annual_emission c * (t - start) div YEAR_SECONDS \<le> annual_emission c * (t' - start) div YEAR_SECONDS"
    by (rule div_le_mono [OF mult_le_mono2]) (use assms(2) in simp)
  then have "snd r * (annual_emission c * (t - start) div YEAR_SECONDS) div perbill_accuracy \<le>
      snd r * (annual_emission c * (t' - start) div YEAR_SECONDS) div perbill_accuracy"
    by (rule div_le_mono [OF mult_le_mono2])
  then show ?thesis using assms(1) Some unfolding within_share_def by simp
qed (use assms in \<open>simp add: within_share_def\<close>)

lemma emission_inv_mono: "emission_inv c i0 burnt t s \<Longrightarrow> t \<le> t' \<Longrightarrow> emission_inv c i0 burnt t' s"
  unfolding emission_inv_def using within_share_mono by blast

lemma emission_inv_cong:
  assumes "emission_inv c i0 burnt t s" "same_policy s s'" "subnet_issued s' = subnet_issued s"
    "scheduled_issued s' = scheduled_issued s" "faucet_issued s' \<le> faucet_budget s"
    "total_issuance (em_currency c) (balances s') + faucet_issued s =
       total_issuance (em_currency c) (balances s) + faucet_issued s'"
  shows "emission_inv c i0 burnt t s'"
proof -
  have "within_share c t s' r = within_share c t s r" for r
    using assms(2,3) by (simp add: within_share_def same_policy_def cong: option.case_cong)
  then show ?thesis using assms by (simp add: emission_inv_def same_policy_def issued_by_routes_def)
qed

lemma sum_list_update:
  assumes "distinct (map fst rs)" "(k, share) \<in> set rs"
  shows "sum_list (map (f(k := f k + a) \<circ> fst) rs) = sum_list (map (f \<circ> fst) rs) + (a::nat)"
  using assms
proof (induction rs)
  case (Cons r rs)
  show ?case
  proof (cases "fst r = k")
    case True
    then have "map (f(k := f k + a) \<circ> fst) rs = map (f \<circ> fst) rs"
      using Cons.prems(1) by (intro map_cong refl) (metis comp_apply distinct.simps(2) fun_upd_other image_eqI list.set_map list.simps(9))
    then have "sum_list (map (f(k := f k + a) \<circ> fst) rs) = sum_list (map (f \<circ> fst) rs)" by metis
    then show ?thesis using True by (simp add: comp_def)
  next
    case False
    then show ?thesis using Cons by auto
  qed
qed simp

lemma fund_route_inv:
  assumes inv: "emission_inv c i0 burnt t s" and laws: "issuance_laws (em_currency c)" "arith_laws c"
    and r: "r \<in> set (em_routes s)" and st: "start_at s = Some start"
    and tot: "tot = annual_emission c * (t - start) div YEAR_SECONDS"
  shows "emission_inv c i0 burnt t (fund_route c tot r s) \<and> same_policy s (fund_route c tot r s)"
proof -
  obtain k share where ks: "r = (k, share)" by fastforce
  let ?s' = "fund_route c tot (k, share) s" and ?a = "mul_floor c share tot - subnet_issued s k"
  have d: "distinct (map fst (em_routes s))" using inv valid_routes_distinct by (auto simp: emission_inv_def)
  have "share \<le> sum_list (map snd (em_routes s))" using r ks member_le_sum_list by force
  then have floor: "mul_floor c share tot = share * tot div perbill_accuracy"
    using laws(2) valid_routes_distinct(2) [of c] inv unfolding arith_laws_def emission_inv_def by (meson le_trans)
  show ?thesis unfolding ks
  proof (rule fund_route_cases [OF laws(1), of tot k share s], goal_cases none funded)
    case none
    then show "emission_inv c i0 burnt t ?s' \<and> same_policy s ?s'" using emission_inv_cong [OF inv none(4,1,2)] inv
      by (simp add: emission_inv_def)
  next
    case funded
    have q: "em_routes ?s' = em_routes s" "start_at ?s' = Some start" "em_enabled ?s' = em_enabled s"
      "faucet_budget ?s' = faucet_budget s" "emission_version ?s' = emission_version s"
      using funded(6) st by (simp_all add: same_policy_def)
    have "issued_by_routes ?s' = issued_by_routes s + ?a"
      unfolding issued_by_routes_def q(1) funded(3) using r ks d by (intro sum_list_update) auto
    moreover have "within_share c t ?s' r'" if "r' \<in> set (em_routes s)" for r'
    proof (cases "fst r' = k")
      case True
      then have "r' = (k, share)" using that r ks d by (metis eq_key_imp_eq_value prod.collapse)
      then show ?thesis using funded(2,3) q(2) floor tot by (simp add: within_share_def)
    next
      case False
      then show ?thesis using inv that q(2) st funded(3) by (auto simp: emission_inv_def within_share_def)
    qed
    ultimately have "emission_inv c i0 burnt t ?s'"
      using inv funded(4,5,7) q by (simp add: emission_inv_def)
    then show "emission_inv c i0 burnt t ?s' \<and> same_policy s ?s'" using funded(6) by simp
  qed
qed

lemma fund_routes_inv:
  assumes "emission_inv c i0 burnt t s" "issuance_laws (em_currency c)" "arith_laws c"
    "set rs \<subseteq> set (em_routes s)" "start_at s = Some start"
    "tot = annual_emission c * (t - start) div YEAR_SECONDS"
  shows "emission_inv c i0 burnt t (fold (fund_route c tot) rs s) \<and> same_policy s (fold (fund_route c tot) rs s)"
  using assms
proof (induction rs arbitrary: s)
  case (Cons r rs)
  have "r \<in> set (em_routes s)" using Cons.prems(4) by simp
  with fund_route_inv [OF Cons.prems(1,2,3) _ Cons.prems(5,6)]
  have s1: "emission_inv c i0 burnt t (fund_route c tot r s)" "same_policy s (fund_route c tot r s)" by simp_all
  then have "set rs \<subseteq> set (em_routes (fund_route c tot r s))" "start_at (fund_route c tot r s) = Some start"
    using Cons.prems(4,5) by (simp_all add: same_policy_def)
  then show ?case using Cons.IH [OF s1(1) Cons.prems(2,3) _ _ Cons.prems(6)] s1(2)
    by (auto intro: same_policy_trans)
qed simp

lemma accrue_inv:
  assumes inv: "emission_inv c i0 burnt t s" and laws: "issuance_laws (em_currency c)" "arith_laws c" and "t \<le> now"
  shows "emission_inv c i0 burnt now (accrue c now s)"
proof -
  have now: "emission_inv c i0 burnt now s" by (rule emission_inv_mono [OF inv \<open>t \<le> now\<close>])
  consider (off) "accrue c now s = s" | (anchor) "start_at s = None" "accrue c now s = s\<lparr>start_at := Some now\<rparr>"
    | (run) start tot where "start_at s = Some start" "entitlement c (now - start) = Some tot"
        "accrue c now s = fold (fund_route c tot) (em_routes s) s"
    by (cases "start_at s"; cases "entitlement c (now - the (start_at s))"; cases "\<not> em_enabled s \<or> now = 0")
      (auto simp: accrue_def)
  then show ?thesis
  proof cases
    case anchor
    have "within_share c now (s\<lparr>start_at := Some now\<rparr>) r" if "r \<in> set (em_routes s)" for r
      using now that anchor(1) unfolding emission_inv_def within_share_def by auto
    then show ?thesis using now anchor by (simp add: emission_inv_def issued_by_routes_def)
  next
    case run
    then show ?thesis using fund_routes_inv [OF now laws _ run(1) entitlement_Some [OF run(2)]] by simp
  qed (use now in simp)
qed

lemma mint_faucet_Inr:
  assumes "issuance_laws (em_currency c)" "mint_faucet c who amount s = Inr s'"
  shows "0 < amount" "faucet_issued s' = faucet_issued s + amount" "faucet_issued s' \<le> faucet_budget s" "same_policy s s'"
    "subnet_issued s' = subnet_issued s" "scheduled_issued s' = scheduled_issued s"
    "total_issuance (em_currency c) (balances s') = total_issuance (em_currency c) (balances s) + amount"
    "free_balance (em_currency c) (balances s') who = free_balance (em_currency c) (balances s) who + amount"
    "\<And>x. x \<noteq> who \<Longrightarrow> free_balance (em_currency c) (balances s') x = free_balance (em_currency c) (balances s) x"
proof -
  obtain s1 where s1: "deposit_exact c who amount s = Inr s1" and n: "0 < amount" "faucet_issued s + amount \<le> faucet_budget s"
    and s': "s' = emit (FaucetMinted who amount) (s1\<lparr>faucet_issued := faucet_issued s + amount\<rparr>)"
    using assms(2) by (auto simp: mint_faucet_def checked_add_Some_iff)
  obtain b where b: "s1 = s\<lparr>balances := b\<rparr>"
    "total_issuance (em_currency c) b = total_issuance (em_currency c) (balances s) + amount"
    "free_balance (em_currency c) b who = free_balance (em_currency c) (balances s) who + amount"
    "\<And>x. x \<noteq> who \<Longrightarrow> free_balance (em_currency c) b x = free_balance (em_currency c) (balances s) x"
    by (rule deposit_exact_Inr [OF assms(1) s1]) blast
  show "0 < amount" "faucet_issued s' = faucet_issued s + amount" "faucet_issued s' \<le> faucet_budget s" "same_policy s s'"
    "subnet_issued s' = subnet_issued s" "scheduled_issued s' = scheduled_issued s"
    "total_issuance (em_currency c) (balances s') = total_issuance (em_currency c) (balances s) + amount"
    "free_balance (em_currency c) (balances s') who = free_balance (em_currency c) (balances s) who + amount"
    "\<And>x. x \<noteq> who \<Longrightarrow> free_balance (em_currency c) (balances s') x = free_balance (em_currency c) (balances s) x"
    using n b by (simp_all add: s' same_policy_def)
qed

lemma pay_cases:
  fixes c :: "('a, 'b) emission_config" and s :: "('a, 'b) emission_state" and subnet requested :: nat and who :: 'a
  defines "p \<equiv> pot c subnet" and "paid \<equiv> fst (pay c subnet who requested s)" and "s' \<equiv> snd (pay c subnet who requested s)"
  obtains (unpaid) "paid = 0" "same_policy s s'" "balances s' = balances s" "subnet_issued s' = subnet_issued s"
      "scheduled_issued s' = scheduled_issued s" "faucet_issued s' = faucet_issued s"
  | (paid) "0 < paid" "paid = min requested (free_balance (em_currency c) (balances s) p - minimum_balance (em_currency c))"
      "p \<noteq> who" "transfer (em_currency c) p who paid True (balances s) = Inr (balances s')" "same_policy s s'"
      "subnet_issued s' = subnet_issued s" "scheduled_issued s' = scheduled_issued s" "faucet_issued s' = faucet_issued s"
proof -
  let ?amount = "min requested (free_balance (em_currency c) (balances s) p - minimum_balance (em_currency c))"
  show ?thesis
  proof (cases "?amount = 0 \<or> p = who")
    case True
    then have "pay c subnet who requested s = (0, emit (RewardUnavailable subnet who requested None) s)"
      by (auto simp: pay_def p_def)
    then show ?thesis using unpaid by (simp add: paid_def s'_def)
  next
    case f: False
    show ?thesis
    proof (cases "transfer (em_currency c) p who ?amount True (balances s)")
      case (Inl e)
      then have "pay c subnet who requested s = (0, emit (RewardUnavailable subnet who requested (Some e)) s)"
        using f by (auto simp: pay_def p_def Let_def)
      then show ?thesis using unpaid by (simp add: paid_def s'_def)
    next
      case (Inr b)
      then have "pay c subnet who requested s = (?amount, emit (RewardPaid subnet who ?amount) (s\<lparr>balances := b\<rparr>))"
        using f by (auto simp: pay_def p_def Let_def)
      then show ?thesis using paid f Inr by (simp add: paid_def s'_def same_policy_def)
    qed
  qed
qed

lemma pay_inv:
  assumes inv: "emission_inv c i0 burnt t s" and laws: "issuance_laws (em_currency c)"
  shows "emission_inv c i0 burnt t (snd (pay c subnet who requested s))"
proof (rule pay_cases [of c subnet who requested s], goal_cases unpaid paid)
  case unpaid
  then show ?case using emission_inv_cong [OF inv unpaid(2,4,5)] inv by (simp add: emission_inv_def)
next
  case paid
  then show ?case using emission_inv_cong [OF inv paid(5,6,7)] transfer_keep_alive(1) [OF laws paid(4)] inv
    by (simp add: emission_inv_def)
qed

lemma emission_reachable_inv:
  assumes "emission_reachable c i0 minted burnt t s" and laws: "issuance_laws (em_currency c)" "arith_laws c"
  shows "emission_inv c (i0 + minted) burnt t s"
  using assms(1)
proof induction
  case build
  then show ?case
    by (auto simp: emission_build_def emission_inv_def issued_by_routes_def within_share_def EMISSION_VERSION_def
        sum_list_eq_0_iff split: if_splits option.splits)
next
  case (accrue minted burnt t s now)
  then show ?case using accrue_inv laws by blast
next
  case (mint minted burnt t s who amount s')
  note m = mint_faucet_Inr [OF laws(1) mint.hyps(2)]
  show ?case using emission_inv_cong [OF mint.IH m(4,5,6)] m by simp
next
  case (pay minted burnt t s subnet who requested)
  show ?case by (rule pay_inv [OF pay.IH laws(1)])
next
  case (upgrade minted burnt t s now)
  then have "emission_on_runtime_upgrade c now s = s" by (simp add: emission_on_runtime_upgrade_def emission_inv_def)
  then show ?case using upgrade emission_inv_mono by simp
next
  case (other minted burnt t s b d m)
  then have "within_share c t (s\<lparr>balances := b\<rparr>) r = within_share c t s r" for r
    by (cases "start_at s") (simp_all add: within_share_def)
  then show ?case using other by (simp add: emission_inv_def issued_by_routes_def)
qed

text \<open>
  C12: in every state the controller reaches from genesis, whatever other pallets mint, burn and move in between, the
  total issuance is that of genesis plus the scheduled and the faucet counters plus what the others minted, less what
  they burnt: the counters account for everything the controller ever issued. The scheduled counter is the sum of the subnets' counters and at
  most the annual rate times the time since the anchor; each subnet has at most its share; and the
  faucet never exceeds its budget.
\<close>

theorem issuance_accounted:
  assumes "emission_reachable c i0 minted burnt t s" "issuance_laws (em_currency c)" "arith_laws c"
  shows "total_issuance (em_currency c) (balances s) + burnt = i0 + minted + scheduled_issued s + faucet_issued s \<and>
    scheduled_issued s = sum_list (map (\<lambda>r. subnet_issued s (fst r)) (em_routes s)) \<and>
    faucet_issued s \<le> faucet_budget s \<and>
    (case start_at s of
       None \<Rightarrow> scheduled_issued s = 0
     | Some start \<Rightarrow>
         scheduled_issued s \<le> annual_emission c * (t - start) div YEAR_SECONDS \<and>
         (\<forall>(k, share) \<in> set (em_routes s).
            subnet_issued s k \<le> share * (annual_emission c * (t - start) div YEAR_SECONDS) div perbill_accuracy))"
proof -
  have inv: "emission_inv c (i0 + minted) burnt t s" by (rule emission_reachable_inv [OF assms])
  then have sum: "scheduled_issued s = sum_list (map (\<lambda>r. subnet_issued s (fst r)) (em_routes s))"
    by (simp add: emission_inv_def issued_by_routes_def comp_def)
  have w: "\<And>r. r \<in> set (em_routes s) \<Longrightarrow> within_share c t s r" using inv by (simp add: emission_inv_def)
  show ?thesis
  proof (cases "start_at s")
    case None
    then have "scheduled_issued s = 0" using w unfolding sum by (auto simp: within_share_def sum_list_eq_0_iff)
    then show ?thesis unfolding None option.case using inv sum unfolding emission_inv_def by blast
  next
    case (Some start)
    let ?T = "annual_emission c * (t - start) div YEAR_SECONDS" and ?rs = "em_routes s"
    have le: "subnet_issued s (fst r) \<le> snd r * ?T div perbill_accuracy" if "r \<in> set ?rs" for r
      using w [OF that] Some by (simp add: within_share_def)
    have "scheduled_issued s \<le> sum_list (map (\<lambda>r. snd r * ?T div perbill_accuracy) ?rs)"
      unfolding sum by (rule sum_list_mono) (rule le)
    also have "\<dots> \<le> sum_list (map snd ?rs) * ?T div perbill_accuracy" by (rule sum_floors_le)
    also have "\<dots> \<le> perbill_accuracy * ?T div perbill_accuracy"
      using valid_routes_distinct(2) inv by (intro div_le_mono mult_le_mono1) (auto simp: emission_inv_def)
    finally have "scheduled_issued s \<le> ?T" by simp
    then show ?thesis using Some inv sum le by (auto simp: emission_inv_def)
  qed
qed

subsection \<open>Accrual catches up\<close>

text \<open>A currency that credits every deposit in full (accounts above the existential deposit).\<close>

definition deposits_exact :: "('a, 'b) currency_ops \<Rightarrow> bool" where
  "deposits_exact cur \<longleftrightarrow> (\<forall>who d b. fst (deposit_creating cur who d b) = d)"

lemma fund_subnet_ok:
  assumes "deposits_exact (em_currency c)" "subnet_issued s k + a \<le> u128_max" "scheduled_issued s + a \<le> u128_max"
    "total_issuance (em_currency c) (balances s) + a \<le> u128_max"
  shows "is_ok (fund_subnet c k a s)"
proof -
  obtain b where "deposit_creating (em_currency c) (pot c k) a (balances s) = (a, b)"
    using assms(1) unfolding deposits_exact_def by (metis prod.collapse)
  then show ?thesis using assms(2-4) by (simp add: fund_subnet_def deposit_exact_def checked_add_def)
qed

lemma fund_route_exact:
  assumes laws: "issuance_laws (em_currency c)" "deposits_exact (em_currency c)"
    and room: "total_issuance (em_currency c) (balances s) + mul_floor c share tot \<le> u128_max"
      "scheduled_issued s + mul_floor c share tot \<le> u128_max" "subnet_issued s k \<le> u128_max"
  defines "s' \<equiv> fund_route c tot (k, share) s"
  shows "subnet_issued s' = (subnet_issued s)(k := max (subnet_issued s k) (mul_floor c share tot))"
    "total_issuance (em_currency c) (balances s') \<le> total_issuance (em_currency c) (balances s) + mul_floor c share tot"
    "scheduled_issued s' \<le> scheduled_issued s + mul_floor c share tot"
proof -
  let ?a = "mul_floor c share tot - subnet_issued s k"
  have "subnet_issued s' = (subnet_issued s)(k := max (subnet_issued s k) (mul_floor c share tot)) \<and>
    total_issuance (em_currency c) (balances s') \<le> total_issuance (em_currency c) (balances s) + mul_floor c share tot \<and>
    scheduled_issued s' \<le> scheduled_issued s + mul_floor c share tot"
  proof (cases "?a = 0")
    case True
    then have "s' = s" by (simp add: s'_def fund_route_def)
    then show ?thesis using True by (simp add: max_def)
  next
    case False
    have "is_ok (fund_subnet c k ?a s)" using room False by (intro fund_subnet_ok laws(2)) simp_all
    then obtain x where x: "fund_subnet c k ?a s = Inr x" by (auto simp: is_ok_iff)
    then have "s' = x" using False by (simp add: s'_def fund_route_def)
    then show ?thesis using fund_subnet_Inr(1,2,5) [OF laws(1) x] False by (auto simp: max_def)
  qed
  then show "subnet_issued s' = (subnet_issued s)(k := max (subnet_issued s k) (mul_floor c share tot))"
    "total_issuance (em_currency c) (balances s') \<le> total_issuance (em_currency c) (balances s) + mul_floor c share tot"
    "scheduled_issued s' \<le> scheduled_issued s + mul_floor c share tot" by blast+
qed

lemma fund_routes_exact:
  assumes "issuance_laws (em_currency c)" "deposits_exact (em_currency c)" "distinct (map fst rs)"
    and "total_issuance (em_currency c) (balances s) + sum_list (map (\<lambda>r. mul_floor c (snd r) tot) rs) \<le> u128_max"
      "scheduled_issued s + sum_list (map (\<lambda>r. mul_floor c (snd r) tot) rs) \<le> u128_max"
      "\<And>k. subnet_issued s k \<le> u128_max"
  shows "subnet_issued (fold (fund_route c tot) rs s) k =
    (case map_of rs k of Some share \<Rightarrow> max (subnet_issued s k) (mul_floor c share tot) | None \<Rightarrow> subnet_issued s k)"
  using assms
proof (induction rs arbitrary: s)
  case (Cons r rs)
  obtain k' share where r: "r = (k', share)" by fastforce
  let ?m = "mul_floor c share tot" and ?s1 = "fund_route c tot (k', share) s"
  let ?sum = "sum_list (map (\<lambda>r. mul_floor c (snd r) tot) rs)"
  note room = Cons.prems(4,5) [unfolded r list.map sum_list.Cons snd_conv]
  note e = fund_route_exact [OF Cons.prems(1,2), of s share tot k']
  have m: "?m \<le> u128_max" using room(1) by linarith
  have s1: "subnet_issued ?s1 = (subnet_issued s)(k' := max (subnet_issued s k') ?m)"
    "total_issuance (em_currency c) (balances ?s1) \<le> total_issuance (em_currency c) (balances s) + ?m"
    "scheduled_issued ?s1 \<le> scheduled_issued s + ?m"
    using e room Cons.prems(6) by simp_all
  have "subnet_issued (fold (fund_route c tot) rs ?s1) k =
    (case map_of rs k of Some share \<Rightarrow> max (subnet_issued ?s1 k) (mul_floor c share tot) | None \<Rightarrow> subnet_issued ?s1 k)"
  proof (rule Cons.IH [OF Cons.prems(1,2)])
    show "distinct (map fst rs)" using Cons.prems(3) by simp
    show "total_issuance (em_currency c) (balances ?s1) + ?sum \<le> u128_max" using s1(2) room(1) by linarith
    show "scheduled_issued ?s1 + ?sum \<le> u128_max" using s1(3) room(2) by linarith
    show "subnet_issued ?s1 j \<le> u128_max" for j using Cons.prems(6) m by (simp add: s1(1))
  qed
  moreover have "map_of rs k' = None" using Cons.prems(3) r by (simp add: map_of_eq_None_iff)
  ultimately show ?case using r by (auto simp: s1(1) split: option.splits)
qed simp

text \<open>
  however long the gap since the last accrual, accruing at time \<open>now\<close> brings every route exactly to its
  share of the entitlement since the anchor (rounded down once), so neither the number of accruals nor
  their times lose or add anything; subnets without a route get nothing.
\<close>

theorem accrue_catches_up:
  assumes laws: "issuance_laws (em_currency c)" "arith_laws c" "deposits_exact (em_currency c)"
    and on: "em_enabled s" "0 < now" "start_at s = Some start" "valid_routes c (em_routes s) True"
    and fits: "annual_emission c * YEAR_SECONDS \<le> u128_max" "\<And>k. subnet_issued s k \<le> u128_max"
      "total_issuance (em_currency c) (balances s) + annual_emission c * (now - start) div YEAR_SECONDS \<le> u128_max"
      "scheduled_issued s + annual_emission c * (now - start) div YEAR_SECONDS \<le> u128_max"
  shows "subnet_issued (accrue c now s) k =
    (case map_of (em_routes s) k of
       Some share \<Rightarrow> max (subnet_issued s k)
         (share * (annual_emission c * (now - start) div YEAR_SECONDS) div perbill_accuracy)
     | None \<Rightarrow> subnet_issued s k)"
proof -
  let ?T = "annual_emission c * (now - start) div YEAR_SECONDS" and ?rs = "em_routes s"
  have ent: "entitlement c (now - start) = Some ?T" by (rule entitlement_total) (use fits in auto)
  have share: "snd r \<le> perbill_accuracy" if "r \<in> set ?rs" for r
    using that valid_routes_distinct(2) [OF on(4)] member_le_sum_list [of "snd r" "map snd ?rs"] by fastforce
  then have mf: "mul_floor c (snd r) ?T = snd r * ?T div perbill_accuracy" if "r \<in> set ?rs" for r
    using laws(2) that unfolding arith_laws_def by blast
  have "sum_list (map (\<lambda>r. mul_floor c (snd r) ?T) ?rs) = sum_list (map (\<lambda>r. snd r * ?T div perbill_accuracy) ?rs)"
    using mf by (metis (no_types, lifting) map_eq_conv)
  also have "\<dots> \<le> sum_list (map snd ?rs) * ?T div perbill_accuracy" by (rule sum_floors_le)
  also have "\<dots> \<le> perbill_accuracy * ?T div perbill_accuracy"
    using valid_routes_distinct(2) [OF on(4)] by (intro div_le_mono mult_le_mono1)
  finally have le: "sum_list (map (\<lambda>r. mul_floor c (snd r) ?T) ?rs) \<le> ?T" by simp
  have "accrue c now s = fold (fund_route c ?T) ?rs s" using on ent by (simp add: accrue_def)
  moreover have "subnet_issued (fold (fund_route c ?T) ?rs s) k =
    (case map_of ?rs k of Some share \<Rightarrow> max (subnet_issued s k) (mul_floor c share ?T) | None \<Rightarrow> subnet_issued s k)"
    using fits le by (intro fund_routes_exact laws valid_routes_distinct [OF on(4)]) linarith+
  moreover have "mul_floor c share ?T = share * ?T div perbill_accuracy" if "map_of ?rs k = Some share" for share
    using mf [of "(k, share)"] map_of_SomeD [OF that] by simp
  ultimately show ?thesis by (cases "map_of ?rs k") simp_all
qed

subsection \<open>The upgrade of the annual rate\<close>

lemma rebase_seconds:
  fixes issued annual y :: nat
  assumes "0 < annual" "0 < y"
  shows "annual * (issued * y div annual) div y \<le> issued" "issued \<le> annual * (issued * y div annual + 1) div y"
proof -
  let ?e = "issued * y div annual"
  have "annual * ?e \<le> issued * y" by simp
  then have "annual * ?e div y \<le> issued * y div y" by (rule div_le_mono)
  then show "annual * ?e div y \<le> issued" using assms(2) by simp
  have "issued * y < annual * (?e + 1)" using dividend_less_times_div [OF assms(1), of "issued * y"] by simp
  then have "issued * y div y \<le> annual * (?e + 1) div y" by (intro div_le_mono) simp
  then show "issued \<le> annual * (?e + 1) div y" using assms(2) by simp
qed

text \<open>
  upgrading an enabled, anchored schedule that has issued something keeps every counter and balance and
  moves the anchor so that, when the clock is not earlier than the issued time, the entitlement now is
  at most what was issued and from the next second on at least that: nothing is issued twice and
  accrual does not stall; upgrading again changes nothing.
\<close>

theorem rebase_resumes:
  assumes "arith_laws c" "0 < annual_emission c" "em_enabled s" "start_at s = Some start0" "0 < scheduled_issued s"
    and "emission_version s < EMISSION_VERSION"
    and clock: "scheduled_issued s * YEAR_SECONDS div annual_emission c \<le> now" "now \<le> u64_max"
  shows "let s' = emission_on_runtime_upgrade c now s in
    (\<exists>start. s' = s\<lparr>start_at := Some start, emission_version := EMISSION_VERSION\<rparr> \<and>
       annual_emission c * (now - start) div YEAR_SECONDS \<le> scheduled_issued s \<and>
       (\<forall>t > now. scheduled_issued s \<le> annual_emission c * (t - start) div YEAR_SECONDS)) \<and>
    emission_on_runtime_upgrade c later s' = s'"
proof -
  let ?e = "scheduled_issued s * YEAR_SECONDS div annual_emission c" and ?a = "annual_emission c"
  let ?s' = "s\<lparr>start_at := Some (now - ?e), emission_version := EMISSION_VERSION\<rparr>"
  have "?e \<le> u64_max" using clock by linarith
  moreover have "u64_max \<le> u128_max" by (simp add: range_simps)
  ultimately have e: "multiply_by_rational c (scheduled_issued s) YEAR_SECONDS ?a = Some ?e" "?e \<le> u64_max"
    using assms(1,2) unfolding arith_laws_def by auto
  then have up: "emission_on_runtime_upgrade c now s = ?s'"
    using assms(3-6) by (simp add: emission_on_runtime_upgrade_def rebased_start_def Let_def)
  note r = rebase_seconds [OF assms(2) YEAR_pos, of "scheduled_issued s"]
  have "now - (now - ?e) = ?e" using clock(1) by simp
  then have "?a * (now - (now - ?e)) div YEAR_SECONDS \<le> scheduled_issued s" using r(1) by simp
  moreover have "scheduled_issued s \<le> ?a * (t - (now - ?e)) div YEAR_SECONDS" if "now < t" for t
  proof -
    have "?a * (?e + 1) div YEAR_SECONDS \<le> ?a * (t - (now - ?e)) div YEAR_SECONDS"
      using that clock(1) by (intro div_le_mono mult_le_mono2) linarith
    then show ?thesis using r(2) by linarith
  qed
  ultimately show ?thesis unfolding up Let_def by (auto simp: emission_on_runtime_upgrade_def)
qed

subsection \<open>The constants\<close>

text \<open>The compile-time assertions of the source.\<close>

lemma emission_constants:
  "CONTROLLER_SHARE_PERCENT + STAKING_SHARE_PERCENT = 100"
  "CONTROLLER_ANNUAL_EMISSION_QUIP + STAKING_ANNUAL_EMISSION_QUIP = ANNUAL_EMISSION_QUIP"
  "STAKING_ANNUAL_EMISSION_QUIP * 4 = ANNUAL_EMISSION_QUIP"
  "CONTROLLER_ANNUAL_EMISSION_QUIP = STAKING_ANNUAL_EMISSION_QUIP * 3"
  by (simp_all add: CONTROLLER_SHARE_PERCENT_def STAKING_SHARE_PERCENT_def CONTROLLER_ANNUAL_EMISSION_QUIP_def
      STAKING_ANNUAL_EMISSION_QUIP_def ANNUAL_EMISSION_QUIP_def sat_mul_def u128_max_def)

subsection \<open>The reward backend\<close>

text \<open>
  The contract of \<open>MiningReward\<close>: \<open>pay_op\<close> returns the amount actually paid, at most the requested one, out of
  the backend's source account; it issues nothing. \<open>ok\<close> is what a backend asks of its configuration.
\<close>

locale mining_reward =
  fixes ok :: "'c \<Rightarrow> bool"
    and pay_op :: "'c \<Rightarrow> 'a \<Rightarrow> balance \<Rightarrow> 's \<Rightarrow> balance \<times> 's"
    and source :: "'c \<Rightarrow> 'a"
    and free :: "'c \<Rightarrow> 's \<Rightarrow> 'a \<Rightarrow> balance"
    and issuance :: "'c \<Rightarrow> 's \<Rightarrow> balance"
    and floor_balance :: "'c \<Rightarrow> balance"
  assumes pay_le: "ok c \<Longrightarrow> fst (pay_op c who r e) \<le> r"
    and pay_issuance: "ok c \<Longrightarrow> issuance c (snd (pay_op c who r e)) = issuance c e"
    and pay_credit: "ok c \<Longrightarrow> free c (snd (pay_op c who r e)) who = free c e who + fst (pay_op c who r e)"
    and pay_debit: "ok c \<Longrightarrow> who \<noteq> source c \<Longrightarrow> free c (snd (pay_op c who r e)) (source c) + fst (pay_op c who r e) = free c e (source c)"
    and pay_keeps_source: "ok c \<Longrightarrow> 0 < fst (pay_op c who r e) \<Longrightarrow> floor_balance c \<le> free c (snd (pay_op c who r e)) (source c)"
begin

lemma payments_issue_nothing:
  "ok c \<Longrightarrow> issuance c (fold (\<lambda>(who, r) e. snd (pay_op c who r e)) reqs e) = issuance c e"
  by (induction reqs arbitrary: e) (auto simp: pay_issuance)

lemma pay_bounded_by_source:
  assumes "ok c" "who \<noteq> source c" shows "fst (pay_op c who r e) \<le> free c e (source c)"
  using pay_debit [OF assms, of r e] by linarith

end

interpretation subnet_rewards: mining_reward "\<lambda>c. issuance_laws (em_currency (fst c))" "\<lambda>c. pay (fst c) (snd c)"
  "\<lambda>c. pot (fst c) (snd c)" "\<lambda>c s. free_balance (em_currency (fst c)) (balances s)"
  "\<lambda>c s. total_issuance (em_currency (fst c)) (balances s)" "\<lambda>c. minimum_balance (em_currency (fst c))"
proof (unfold_locales, goal_cases)
  case (1 c who r e)
  show ?case by (rule pay_cases [of "fst c" "snd c" who r e]) (use 1 in \<open>simp_all\<close>)
next
  case (2 c who r e)
  show ?case by (rule pay_cases [of "fst c" "snd c" who r e]) (use 2 in \<open>auto dest: transfer_keep_alive(1)\<close>)
next
  case (3 c who r e)
  show ?case by (rule pay_cases [of "fst c" "snd c" who r e]) (use 3 in \<open>auto dest: transfer_keep_alive(4)\<close>)
next
  case (4 c who r e)
  show ?case by (rule pay_cases [of "fst c" "snd c" who r e]) (use 4 in \<open>auto dest: transfer_keep_alive(2,3)\<close>)
next
  case (5 c who r e)
  show ?case by (rule pay_cases [of "fst c" "snd c" who r e]) (use 5 in \<open>auto dest: transfer_keep_alive(2,3)\<close>)
qed

text \<open>The currency acting on the balances inside the controller's state.\<close>

definition through_emission :: "('a, 'b) currency_ops \<Rightarrow> ('a, ('a, 'b) emission_state) currency_ops" where
  "through_emission cur =
     \<lparr>free_balance = \<lambda>s. free_balance cur (balances s), reserved_balance = \<lambda>s. reserved_balance cur (balances s),
      total_issuance = \<lambda>s. total_issuance cur (balances s), minimum_balance = minimum_balance cur,
      reserve = \<lambda>who d s. map_sum id (\<lambda>b. s\<lparr>balances := b\<rparr>) (reserve cur who d (balances s)),
      unreserve = \<lambda>who d s. map_prod id (\<lambda>b. s\<lparr>balances := b\<rparr>) (unreserve cur who d (balances s)),
      transfer = \<lambda>src dst d k s. map_sum id (\<lambda>b. s\<lparr>balances := b\<rparr>) (transfer cur src dst d k (balances s)),
      deposit_creating = \<lambda>who d s. map_prod id (\<lambda>b. s\<lparr>balances := b\<rparr>) (deposit_creating cur who d (balances s))\<rparr>"

lemma through_emission_simps [simp]:
  "free_balance (through_emission cur) s = free_balance cur (balances s)"
  "reserved_balance (through_emission cur) s = reserved_balance cur (balances s)"
  "reserve (through_emission cur) who d s = map_sum id (\<lambda>b. s\<lparr>balances := b\<rparr>) (reserve cur who d (balances s))"
  "unreserve (through_emission cur) who d s = map_prod id (\<lambda>b. s\<lparr>balances := b\<rparr>) (unreserve cur who d (balances s))"
  by (simp_all add: through_emission_def)

lemma through_emission_laws:
  assumes "reserve_laws cur" shows "reserve_laws (through_emission cur)"
proof -
  have r: "reserve (through_emission cur) who d s = Inr s' \<Longrightarrow> reserve cur who d (balances s) = Inr (balances s')" for who d s s'
    by (cases "reserve cur who d (balances s)") auto
  show ?thesis using assms unfolding reserve_laws_def by (auto simp: Let_def simp del: through_emission_simps(3) dest!: r) 
qed

subsection \<open>A concrete controller\<close>

definition demo_emission :: "(nat, nat ledger) emission_config" where
  "demo_emission =
     \<lparr>em_currency = ledger_ops, annual_emission = CONTROLLER_ANNUAL_EMISSION_QUIP * 10 ^ 12, max_subnets = 32, pot_id = [],
      hash_of_pot = (\<lambda>(_, _, k). [of_nat k]), decode_account = (\<lambda>h. 1000 + unat (hd h)),
      mul_floor = (\<lambda>p x. p * x div perbill_accuracy),
      multiply_by_rational = (\<lambda>x y z. if z = 0 \<or> u128_max < x * y div z then None else Some (x * y div z))\<rparr>"

definition demo_emission_state :: "(nat, nat ledger) emission_state" where
  "demo_emission_state =
     \<lparr>em_enabled = True, start_at = Some 1000, em_routes = [(0, 900000000), (1, 100000000)], subnet_issued = (\<lambda>_. 0),
      scheduled_issued = 0, faucet_budget = 500, faucet_issued = 0, emission_version = 2, emission_events = [],
      balances = \<lparr>free_of = (\<lambda>_. 0), reserved_of = (\<lambda>_. 0), issued = 7\<rparr>\<rparr>"

lemma demo_emission_laws:
  "issuance_laws (em_currency demo_emission)" "arith_laws demo_emission" "deposits_exact (em_currency demo_emission)"
  using ledger_issuance_laws
  by (simp_all add: demo_emission_def arith_laws_def deposits_exact_def ledger_ops_def ledger_deposit_def)

lemma demo_annual: "annual_emission demo_emission = 30000000000000000000"
  by (simp add: demo_emission_def CONTROLLER_ANNUAL_EMISSION_QUIP_def ANNUAL_EMISSION_QUIP_def
      CONTROLLER_SHARE_PERCENT_def sat_mul_def u128_max_def)

lemma demo_emission_built:
  "emission_build demo_emission True (Some 1000) [(0, 900000000), (1, 100000000)] 500
     \<lparr>free_of = (\<lambda>_. 0), reserved_of = (\<lambda>_. 0), issued = 7\<rparr> = Some demo_emission_state"
  using demo_annual by (simp add: emission_build_def valid_routes_def demo_emission_state_def EMISSION_VERSION_def)
    (simp add: demo_emission_def)

theorem issuance_accounted_witness:
  "\<exists>b. total_issuance ledger_ops (balances (accrue demo_emission 2000 (demo_emission_state\<lparr>balances := b\<rparr>))) + 4 =
     7 + 5 + scheduled_issued (accrue demo_emission 2000 (demo_emission_state\<lparr>balances := b\<rparr>)) +
     faucet_issued (accrue demo_emission 2000 (demo_emission_state\<lparr>balances := b\<rparr>))"
proof -
  let ?b = "\<lparr>free_of = (\<lambda>_. 0), reserved_of = (\<lambda>_. 0), issued = 8\<rparr> :: nat ledger"
  have "emission_reachable demo_emission 7 0 0 0 demo_emission_state"
    by (rule emission_reachable.build [OF demo_emission_built]) (simp add: demo_emission_def ledger_ops_def)
  then have "emission_reachable demo_emission 7 (0 + 5) (0 + 4) 0 (demo_emission_state\<lparr>balances := ?b\<rparr>)"
    by (rule emission_reachable.other) (simp add: demo_emission_def demo_emission_state_def ledger_ops_def)
  then have "emission_reachable demo_emission 7 (0 + 5) (0 + 4) 2000 (accrue demo_emission 2000 (demo_emission_state\<lparr>balances := ?b\<rparr>))"
    by (rule emission_reachable.accrue) simp
  from issuance_accounted [OF this demo_emission_laws(1,2)] show ?thesis
    by (intro exI [of _ ?b]) (simp add: demo_emission_def)
qed

theorem accrue_catches_up_witness:
  "subnet_issued (accrue demo_emission 2000 demo_emission_state) 0 =
     900000000 * (30000000000000000000 * 1000 div 31536000) div 1000000000"
proof -
  have fits: "annual_emission demo_emission * YEAR_SECONDS \<le> u128_max" "\<And>k. subnet_issued demo_emission_state k \<le> u128_max"
    "total_issuance (em_currency demo_emission) (balances demo_emission_state) +
       annual_emission demo_emission * (2000 - 1000) div YEAR_SECONDS \<le> u128_max"
    "scheduled_issued demo_emission_state + annual_emission demo_emission * (2000 - 1000) div YEAR_SECONDS \<le> u128_max"
    by (simp_all add: demo_annual YEAR_SECONDS_def u128_max_def demo_emission_state_def)
      (simp add: demo_emission_def ledger_ops_def)
  have "valid_routes demo_emission (em_routes demo_emission_state) True"
    by (simp add: valid_routes_def demo_emission_state_def demo_emission_def)
  from accrue_catches_up [OF demo_emission_laws _ _ _ this fits, of 0] show ?thesis
    by (simp add: demo_emission_state_def demo_annual YEAR_SECONDS_def)
qed

theorem rebase_resumes_witness:
  "\<exists>start. start_at (emission_on_runtime_upgrade demo_emission 5000000
      (demo_emission_state\<lparr>scheduled_issued := 30000000000000000000 div 365, emission_version := 1\<rparr>)) = Some start"
  using rebase_resumes [OF demo_emission_laws(2), of "demo_emission_state\<lparr>scheduled_issued := 30000000000000000000 div 365,
      emission_version := 1\<rparr>" 1000 5000000 0]
  by (auto simp: demo_annual demo_emission_state_def EMISSION_VERSION_def YEAR_SECONDS_def u64_max_def Let_def)

end
