(* ===== verification/Pow_Rewards.thy ===== *)
theory Pow_Rewards
  imports Emission Pow_Chain
begin

text \<open>
  The reward of a winning proof: \<open>pallets/quantum-pow\<close> pays through the \<open>MiningReward\<close> contract, which the
  runtime instantiates with the Ising subnet's pot of \<open>pallets/emission-controller\<close>.
\<close>

lemma on_finalize_env:
  assumes "block_best_proof s = Some r"
  shows "env (on_finalize c n s) = snd (reward_payment c (pr_miner r) (block_reward c s) (env s))"
proof -
  have "block_reward c (s\<lparr>block_best_proof := None\<rparr>) = block_reward c s" by (simp add: block_reward_def)
  then show ?thesis using assms
    by (simp add: on_finalize_def Let_def deposit_event_def next_qblock_id_def credit_miner_def split: prod.splits option.splits)
qed

context mining_reward
begin

lemma finalize_pays:
  assumes "ok c" "reward_payment pc = pay_op c" "block_best_proof s = Some r"
  shows "\<exists>q. qblocks (on_finalize pc n s) n = Some q \<and> qb_reward q \<le> block_reward pc s \<and>
    free c (env (on_finalize pc n s)) (pr_miner r) = free c (env s) (pr_miner r) + qb_reward q \<and>
    issuance c (env (on_finalize pc n s)) = issuance c (env s) \<and>
    (pr_miner r \<noteq> source c \<longrightarrow>
       free c (env (on_finalize pc n s)) (source c) + qb_reward q = free c (env s) (source c)) \<and>
    (0 < qb_reward q \<longrightarrow> floor_balance c \<le> free c (env (on_finalize pc n s)) (source c))"
  using on_finalize_Some(14) [OF assms(3), of pc n] on_finalize_env [OF assms(3), of pc n] assms(1)
  by (simp add: paid_reward_def assms(2) pay_le pay_credit pay_issuance pay_debit pay_keeps_source)

end


end
