(* ===== verification/Pow_Examples.thy ===== *)
theory Pow_Examples
  imports Pow_Completeness Pow_Rewards "HOL-Library.Countable"
begin

text \<open>
  Concrete runs of the quantum-pow model: a configuration over the concrete ledger, a two-node
  topology, and a block in which a miner's proof is accepted. The theorems of the pallet are applied
  to them.
\<close>

declare One_nat_def [simp del]

definition demo_config :: "(nat, (nat, nat ledger) emission_state, nat) pow_config" where
  "demo_config =
     \<lparr>max_nodes = 10, max_allowed_values = 10, min_nodes = 1, epoch_length = 100, miner_deposit = 5,
      const_block_reward = 10, min_block_reward = 1, max_block_reward = 100, admin_origin = (\<lambda>og. og = Root),
      const_target_proof_blocks = 100, min_target_proof_blocks = 61, max_target_proof_blocks = 1000,
      max_proofs_per_block = 10, curve_c_easy_milli = 700, curve_c_knee_milli = 750, curve_c_hard_milli = 800,
      currency = through_emission ledger_ops, reward_payment = pay demo_emission ISING_SUBNET, fp_ops = exact_f64,
      rng = \<lparr>from_seed = (\<lambda>_. 0), next_u32 = (\<lambda>n. (0, n))\<rparr>, blake2_256 = (\<lambda>b. b), blake3_256 = (\<lambda>b. [7]),
      rate_digest = (\<lambda>s t. [0]), encode_account = (\<lambda>a. [of_nat a]), encode_seed = (\<lambda>h a n. [0]),
      encode_topology = (\<lambda>x. replicate (to_nat x) 0)\<rparr>"

definition demo_ledger :: "nat ledger" where
  "demo_ledger = \<lparr>free_of = (\<lambda>a. 100), reserved_of = (\<lambda>a. 0), issued = 1000\<rparr>"

definition demo_env :: "(nat, nat ledger) emission_state" where
  "demo_env = demo_emission_state\<lparr>balances := demo_ledger\<rparr>"

definition demo_hash :: h256 where
  "demo_hash = hash_topology demo_config [7, 9] [(7, 9)] (Set [0]) (Set [-1000, 1000]) (Set [-1000, 1000])"

definition demo_topology :: topology_meta where
  "demo_topology = \<lparr>tm_nodes = [7, 9], tm_edges = [(7, 9)], allowed_h_values = Set [0],
     allowed_j_values = Set [-1000, 1000], allowed_spin_values = Set [-1000, 1000], tm_registered_at = 1\<rparr>"

definition demo_difficulty :: difficulty_config where
  "demo_difficulty = \<lparr>min_solutions = 1, max_energy_milli = 0, min_diversity_milli = 0\<rparr>"

definition demo_proof :: quantum_proof where
  "demo_proof = \<lparr>qp_topology_hash = demo_hash, qp_nonce = 7, qp_salt = [], qp_solutions = [[3]],
     qp_device_access_time_us = 0\<rparr>"

definition demo_opened :: "(nat, (nat, nat ledger) emission_state) pow_state" where
  "demo_opened = open_block demo_config [] (genesis demo_env)"

definition demo_setup :: "(nat raw_origin \<times> pow_call) list" where
  "demo_setup =
     [(Root, RegisterTopology [7, 9] [(7, 9)] (Set [0]) (Set [-1000, 1000]) (Set [-1000, 1000])),
      (Signed 1, RegisterMiner), (Root, SetDifficulty demo_hash demo_difficulty)]"

definition demo_ready :: "(nat, (nat, nat ledger) emission_state) pow_state" where
  "demo_ready = fold (apply_call demo_config) demo_setup demo_opened"

lemma demo_integrity: "integrity_test demo_config"
  by (simp add: integrity_test_def demo_config_def FAST_PROOF_BLOCKS_def)

lemma demo_opened_executing: "executing demo_config demo_opened"
  unfolding demo_opened_def by (rule executing.opened [OF reachable.start]) (simp add: genesis_def u32_max_def)

lemma demo_specs: "spec_typed (Set [0])" "spec_typed (Set [-1000, 1000])"
  by (simp_all add: range_simps)

lemma demo_ready_executing: "executing demo_config demo_ready"
  unfolding demo_ready_def demo_setup_def
  by (simp, (rule executing.called)+, rule demo_opened_executing)
    (use demo_specs in \<open>simp_all add: demo_difficulty_def range_simps\<close>)

lemma demo_bits: "bits_per_value (Set [0]) = Inr 1" "bits_per_value (Set [-1000, 1000]) = Inr 1"
  by (simp_all add: spec_eval)

lemma demo_len: "packed_solution_byte_len 2 (Set [-1000, 1000]) = Inr 1"
  by (simp add: packed_solution_byte_len_def demo_bits sat_simps usize_max_def u32_max_def del: bits_per_value.simps)

lemma demo_register_topology:
  "register_topology demo_config Root [7, 9] [(7, 9)] (Set [0]) (Set [-1000, 1000]) (Set [-1000, 1000]) demo_opened =
     Inr (deposit_event (TopologyRegistered demo_hash 2 1)
       (demo_opened\<lparr>registered_topologies := [demo_hash \<mapsto> demo_topology], default_topology := Some demo_hash,
          mineable_topologies := {demo_hash}\<rparr>))"
proof -
  have c: "check_spec (Set [0]) = Inr ()" "check_spec (Set [-1000, 1000]) = Inr ()"
    by (simp_all only: check_spec_def demo_bits sum.case)
  have k: "canonicalize_spec demo_config (Set [0]) = Inr (Set [0])"
    "canonicalize_spec demo_config (Set [-1000, 1000]) = Inr (Set [-1000, 1000])"
    by (simp_all add: canonicalize_spec_def demo_config_def)
  have v: "validate_topology_consistency [7, 9] [(7, 9)] (replicate (length [7::nat, 9]) 0)
      (replicate (length [(7::nat, 9::nat)]) 0) None None = []"
    by (simp add: validate_topology_consistency_Nil_iff in_allowed_def edges_known_def)
  have f: "registered_topologies demo_opened = Map.empty" "default_topology demo_opened = None"
    "mineable_topologies demo_opened = {}" "block_number demo_opened = 1"
    by (simp_all add: demo_opened_def open_block_def on_initialize_def genesis_def Let_def)
  have m: "min_nodes demo_config = 1" "max_nodes demo_config = 10" by (simp_all add: demo_config_def)
  show ?thesis unfolding register_topology_def c k v Let_def
    using demo_len by (simp add: f m demo_hash_def demo_topology_def numeral_2_eq_2)
qed

text \<open>The state in which the proof is submitted, field by field.\<close>

lemma demo_deposit: "miner_deposit demo_config = 5"
  by (simp add: demo_config_def)

lemma demo_ready_fields:
  "miners demo_ready 1 = Some \<lparr>mi_registered_at = 1, mi_deposit = 5, proofs_submitted = 0, proofs_won = 0, rewards_earned = 0\<rparr>"
  "block_proof_count demo_ready = 0" "registered_topologies demo_ready = [demo_hash \<mapsto> demo_topology]"
  "mineable_topologies demo_ready = {demo_hash}" "difficulties demo_ready = [demo_hash \<mapsto> demo_difficulty]"
  "last_proof_block demo_ready = 0" "block_best_proof demo_ready = None" "block_number demo_ready = 1"
proof -
  define s1 where "s1 = deposit_event (TopologyRegistered demo_hash 2 1)
    (demo_opened\<lparr>registered_topologies := [demo_hash \<mapsto> demo_topology], default_topology := Some demo_hash,
       mineable_topologies := {demo_hash}\<rparr>)"
  have a1: "apply_call demo_config (Root, RegisterTopology [7, 9] [(7, 9)] (Set [0]) (Set [-1000, 1000]) (Set [-1000, 1000]))
      demo_opened = s1" by (simp add: apply_call_def demo_register_topology s1_def)
  have o1: "miners demo_opened = Map.empty" "env demo_opened = demo_env" "difficulties demo_opened = Map.empty"
    "block_proof_count demo_opened = 0" "last_proof_block demo_opened = 0" "block_best_proof demo_opened = None"
    "block_number demo_opened = 1"
    by (simp_all add: demo_opened_def open_block_def on_initialize_def genesis_def Let_def)
  obtain e where e: "reserve (currency demo_config) 1 5 demo_env = Inr e"
    by (simp add: demo_config_def ledger_reserve_def demo_ledger_def demo_env_def ledger_ops_def)
  define s2 where "s2 = deposit_event (MinerRegistered 1 5) (s1\<lparr>env := e, miners := [1 \<mapsto>
    \<lparr>mi_registered_at = 1, mi_deposit = 5, proofs_submitted = 0, proofs_won = 0, rewards_earned = 0\<rparr>]\<rparr>)"
  have a2: "apply_call demo_config (Signed 1, RegisterMiner) s1 = s2"
    using e by (simp add: apply_call_def register_miner_def s1_def s2_def o1 demo_deposit)
  have a3: "apply_call demo_config (Root, SetDifficulty demo_hash demo_difficulty) s2 =
      deposit_event (DifficultyUpdated demo_hash demo_difficulty) (s2\<lparr>difficulties := [demo_hash \<mapsto> demo_difficulty]\<rparr>)"
    by (simp add: apply_call_def set_difficulty_def s2_def s1_def o1 demo_difficulty_def)
  have r: "demo_ready = deposit_event (DifficultyUpdated demo_hash demo_difficulty)
      (s2\<lparr>difficulties := [demo_hash \<mapsto> demo_difficulty]\<rparr>)"
    by (simp add: demo_ready_def demo_setup_def a1 a2 a3)
  show "miners demo_ready 1 = Some \<lparr>mi_registered_at = 1, mi_deposit = 5, proofs_submitted = 0, proofs_won = 0, rewards_earned = 0\<rparr>"
    "block_proof_count demo_ready = 0" "registered_topologies demo_ready = [demo_hash \<mapsto> demo_topology]"
    "mineable_topologies demo_ready = {demo_hash}" "difficulties demo_ready = [demo_hash \<mapsto> demo_difficulty]"
    "last_proof_block demo_ready = 0" "block_best_proof demo_ready = None" "block_number demo_ready = 1"
    by (simp_all add: r s2_def s1_def o1)
qed

lemma demo_live: "current_difficulty_for demo_config demo_ready demo_hash 1 = demo_difficulty"
  by (simp add: current_difficulty_for_def current_difficulty_def demo_ready_fields saturate_u32_def)

lemma demo_checks:
  "submit_checks demo_config (Signed 1) demo_proof demo_ready =
     Inr (1, demo_topology, \<lparr>positions = [(7, 0), (9, 1)]\<rparr>, [0, 0], [-1000])"
proof -
  have ix: "topology_index_new (tm_nodes demo_topology) (tm_edges demo_topology) = Inr \<lparr>positions = [(7, 0), (9, 1)]\<rparr>"
    by (simp add: topology_index_new_def demo_topology_def)
  have g: "generate_ising_model_indexed (rng demo_config) 7 (tm_nodes demo_topology) (tm_edges demo_topology)
      (allowed_h_values demo_topology) (allowed_j_values demo_topology) \<lparr>positions = [(7, 0), (9, 1)]\<rparr> = Inr ([0, 0], [-1000])"
    using demo_bits by (simp add: generate_ising_model_indexed_def demo_topology_def demo_config_def index_len_def
        numeral_2_eq_2 del: bits_per_value.simps)
  have n: "derive_nonce (blake3_256 demo_config) b m sl = 7" for b m sl
    by (simp add: derive_nonce_def demo_config_def u256_from_big_endian_def)
  have k: "max_proofs_per_block demo_config = 10" "min_nodes demo_config = 1" by (simp_all add: demo_config_def)
  show ?thesis unfolding submit_checks_def Let_def n
    using ix g by (simp add: demo_ready_fields demo_proof_def k, simp add: demo_topology_def)
qed

lemma demo_validation:
  "validate_proof demo_proof demo_topology \<lparr>positions = [(7, 0), (9, 1)]\<rparr> [0, 0] [-1000] demo_difficulty =
     Some (Inr \<lparr>best_energy_milli = -1000, diversity_milli = 0, valid_solution_count = 1\<rparr>)"
proof -
  have u: "unpack_solution [3] 2 (Set [-1000, 1000]) = Inr [1000, 1000]"
    using demo_bits(2) demo_len
    by (simp add: unpack_solution_def decode_indexed_def read_raw_def upt_rec One_nat_def del: bits_per_value.simps)
  have d: "decode_solution demo_topology [3] = Inr [1, 1]"
    using u by (simp add: decode_solution_def demo_topology_def spin_signs_def numeral_2_eq_2)
  have e: "energy_of_solution_indexed [1, 1] [0, 0] (tm_edges demo_topology) [-1000] \<lparr>positions = [(7, 0), (9, 1)]\<rparr> = Inr (-1000)"
    by (simp add: energy_of_solution_indexed_def validate_shape_lengths_def index_len_def ensure_valid_spins_def
        demo_topology_def checked_add_i64_def index_position_def range_simps)
  have s: "score_solutions demo_difficulty [[1, 1]] [-1000] =
      Some (Inr \<lparr>best_energy_milli = -1000, diversity_milli = 0, valid_solution_count = 1\<rparr>)"
    by (simp add: score_solutions_def demo_difficulty_def select_diverse_def ensure_valid_solution_inputs_def
        validate_solution_set_def calculate_diversity_def Let_def)
  show ?thesis by (simp add: validate_proof_def demo_proof_def d e s)
qed

lemma demo_accepted:
  "\<exists>s'. submit_proof demo_config (Signed 1) demo_proof demo_ready = Some (Inr s')"
proof -
  have h: "qp_topology_hash demo_proof = demo_hash" by (simp add: demo_proof_def)
  show ?thesis unfolding submit_proof_def demo_checks
    by (simp add: Let_def h demo_ready_fields(8) demo_live demo_validation)
      (simp add: accept_proof_def demo_ready_fields demo_difficulty_def Let_def)
qed

subsection \<open>The theorems at the concrete run\<close>

theorem hash_topology_identifies_witness:
  "hash_topology demo_config [7, 9] [(9, 7)] (Set [0]) (Set [1000, -1000]) (Set [-1000, 1000]) = demo_hash"
proof -
  have enc: "inj (encode_topology demo_config)"
    by (rule injI) (auto simp: demo_config_def dest: arg_cong [where f = length])
  have t: "spec_typed (Set [1000, -1000])" by (simp add: range_simps)
  have "same_puzzle ([7, 9], [(9, 7)], Set [0], Set [1000, -1000], Set [-1000, 1000])
      ([7, 9], [(7, 9)], Set [0], Set [-1000, 1000], Set [-1000, 1000])"
    by (simp add: same_puzzle_def canonical_edge_def add_mset_commute)
  with hash_topology_identifies [OF enc demo_specs(1) t demo_specs(2) demo_specs(1,2,2)] show ?thesis
    unfolding demo_hash_def by blast
qed

theorem accepted_proof_solves_puzzle_witness:
  "\<exists>s' who t h j energy diversity n_good. submit_proof demo_config (Signed 1) demo_proof demo_ready = Some (Inr s') \<and>
     registered_topologies demo_ready demo_hash = Some t \<and> miners demo_ready who \<noteq> None \<and>
     solves t h j demo_difficulty [[3]] energy diversity n_good"
proof -
  have p: "0 < min_nodes demo_config" "length (qp_solutions demo_proof) \<le> u32_max" "8 * max_nodes demo_config + 8 \<le> usize_max"
    "length (qp_solutions demo_proof) * length (qp_solutions demo_proof) * (8 * max_nodes demo_config) * 1000 < 2 ^ 64"
    by (simp_all add: demo_config_def demo_proof_def u32_max_def usize_max_def)
  have d: "qp_topology_hash demo_proof = demo_hash" "qp_solutions demo_proof = [[3]]" by (simp_all add: demo_proof_def)
  obtain s' where s': "submit_proof demo_config (Signed 1) demo_proof demo_ready = Some (Inr s')"
    using demo_accepted by blast
  with accepted_proof_solves_puzzle [OF demo_ready_executing demo_integrity p, of "Signed 1"]
  show ?thesis unfolding d demo_ready_fields(8) demo_live by blast
qed

definition demo_snapshot :: mining_snapshot where
  "demo_snapshot = \<lparr>ms_last_proof_block_hash = last_proof_block_hash demo_ready, ms_difficulty = demo_difficulty,
     ms_topology_hash = demo_hash, ms_topology = demo_topology\<rparr>"

lemma demo_snapshot_of: "mining_snapshot_of demo_config demo_ready (Some demo_hash) = Some demo_snapshot"
  by (simp add: mining_snapshot_of_def demo_ready_fields demo_live demo_snapshot_def)

lemma demo_model:
  "generate_ising_model (rng demo_config) (qp_nonce (mined_proof demo_config demo_snapshot 1 [] [] 0)) (tm_nodes demo_topology)
     (tm_edges demo_topology) (allowed_h_values demo_topology) (allowed_j_values demo_topology) = Inr ([0, 0], [-1000])"
  using demo_bits by (simp add: generate_ising_model_def topology_index_new_def generate_ising_model_indexed_def demo_topology_def
      demo_config_def index_len_def mined_proof_def numeral_2_eq_2 del: bits_per_value.simps)

theorem mined_proof_accepted_iff_witness:
  "\<exists>packed s'. collect_res (\<lambda>v. pack_solution v (Set [-1000, 1000])) [[1000, 1000]] = Inr packed \<and>
     submit_proof demo_config (Signed 1) (mined_proof demo_config demo_snapshot 1 [] packed 0) demo_ready = Some (Inr s')"
proof -
  have t: "ms_topology demo_snapshot = demo_topology" "ms_difficulty demo_snapshot = demo_difficulty"
    "ms_topology_hash demo_snapshot = demo_hash" by (simp_all add: demo_snapshot_def)
  have c: "0 < min_nodes demo_config" "rng_typed (rng demo_config)" "block_proof_count demo_ready < max_proofs_per_block demo_config"
    "miners demo_ready 1 \<noteq> None" "ms_topology_hash demo_snapshot \<in> mineable_topologies demo_ready"
    by (simp_all add: demo_config_def rng_typed_def demo_ready_fields t)
  have v: "list_all (milli_solution (ms_topology demo_snapshot)) [[1000, 1000]]"
    by (simp add: t milli_solution_def demo_topology_def range_simps)
  have n: "length (tm_nodes (ms_topology demo_snapshot)) * 32 + 7 \<le> usize_max"
    "length (tm_nodes (ms_topology demo_snapshot)) + length (tm_edges (ms_topology demo_snapshot)) < 2 ^ 32"
    by (simp_all add: t demo_topology_def usize_max_def u32_max_def)
  have e: "ising_energy (tm_nodes demo_topology) (tm_edges demo_topology) [0, 0] [-1000] [1, 1] = -1000"
    by (simp add: ising_energy_def demo_topology_def node_spin_def)
  have d: "reached_diversity demo_difficulty [[1, 1]] = Some 0"
    by (simp add: reached_diversity_def demo_difficulty_def select_diverse_def ensure_valid_solution_inputs_def
        validate_solution_set_def calculate_diversity_def Let_def)
  from mined_proof_accepted_iff [OF demo_ready_executing demo_integrity c(1,2) demo_snapshot_of c(5,4,3) _ v n, of "[]" 0]
  show ?thesis unfolding t using demo_model e d by (auto simp: demo_topology_def demo_difficulty_def Let_def)
qed

lemma genesis_fields: "block_number (genesis e) = 0" "last_proof_block (genesis e) = 0" "pow_events (genesis e) = []"
  by (simp_all add: genesis_def)

lemma demo_typed: "list_all (call_typed \<circ> snd) demo_setup"
  using demo_specs by (simp add: demo_setup_def demo_difficulty_def range_simps)

theorem block_winner_is_best_witness:
  "qblocks (execute_block demo_config [] (demo_setup @ [(Signed 1, SubmitProof demo_proof)]) (genesis demo_env)) 1 \<noteq> None"
proof -
  let ?calls = "demo_setup @ [(Signed 1, SubmitProof demo_proof)]" and ?g = "genesis demo_env"
  obtain s' where s': "submit_proof demo_config (Signed 1) demo_proof demo_ready = Some (Inr s')"
    using demo_accepted by blast
  have "accepted_proofs demo_config (calls @ more) s =
      accepted_proofs demo_config calls s @ accepted_proofs demo_config more (fold (apply_call demo_config) calls s)" for calls more
    and s :: "(nat, (nat, nat ledger) emission_state) pow_state"
    by (induction calls arbitrary: s) simp_all
  then have "accepted_proofs demo_config ?calls (open_block demo_config [] ?g) =
      accepted_proofs demo_config demo_setup demo_opened @ accepted_proof demo_config (Signed 1, SubmitProof demo_proof) demo_ready"
    by (simp add: demo_opened_def [symmetric] demo_ready_def [symmetric])
  moreover have "accepted_proof demo_config (Signed 1, SubmitProof demo_proof) demo_ready \<noteq> []"
    using s' by (rule submit_proof_Inr) (use s' in \<open>auto simp: accepted_proof_def accept_proof_def Let_def\<close>)
  ultimately have "accepted_proofs demo_config ?calls (open_block demo_config [] ?g) \<noteq> []" by simp
  moreover have "list_all (call_typed \<circ> snd) ?calls" using demo_typed by simp
  ultimately show ?thesis
    using block_winner_is_best [OF reachable.start demo_integrity, of ?calls demo_env "[]"]
    by (auto simp: genesis_fields u32_max_def Let_def One_nat_def split: option.splits)
qed

theorem qblock_nonce_rederived_witness:
  "\<exists>q s1. submit_proof demo_config (Signed 1) demo_proof demo_ready = Some (Inr s1) \<and>
     qblock_with_nonce demo_config (on_finalize demo_config 1 s1) 1 = Some (q, 7)"
proof -
  obtain s1 where s1: "submit_proof demo_config (Signed 1) demo_proof demo_ready = Some (Inr s1)"
    using demo_accepted by blast
  then obtain who t ix h j v where c: "submit_checks demo_config (Signed 1) demo_proof demo_ready = Inr (who, t, ix, h, j)"
    "accept_proof who demo_proof v demo_ready = Inr s1" by (rule submit_proof_Inr)
  then have w: "who = 1" using demo_checks by simp
  obtain r where r: "block_best_proof s1 = Some r" "pr_miner r = 1" "pr_salt r = qp_salt demo_proof"
    using c(2) unfolding w by (auto simp: accept_proof_def demo_ready_fields Let_def)
  from qblock_nonce_rederived [OF s1 _ r, of "[]" 1] s1 show ?thesis by (auto simp: demo_proof_def)
qed


theorem round_seed_stable_witness:
  "last_proof_block_hash (execute_block demo_config [] demo_setup (genesis demo_env)) = hash_to_bytes_32 demo_config []"
  using round_seed_stable [OF reachable.start demo_integrity demo_typed, of demo_env "[]"]
  by (simp add: genesis_fields u32_max_def)

theorem miner_deposit_returned_witness:
  "\<exists>s1. register_miner demo_config (Signed 1) demo_opened = Inr s1 \<and>
     reserved_balance ledger_ops (balances (env s1)) 1 = 5"
proof -
  have l: "reserve_laws (currency demo_config)" using through_emission_laws [OF ledger_reserve_laws] by (simp add: demo_config_def)
  have e: "env demo_opened = demo_env" "miners demo_opened = Map.empty"
    by (simp_all add: demo_opened_def open_block_def on_initialize_def genesis_def Let_def)
  obtain s1 where s1: "register_miner demo_config (Signed 1) demo_opened = Inr s1"
    by (auto simp: register_miner_def e demo_config_def ledger_ops_def ledger_reserve_def demo_ledger_def demo_env_def)
  from miner_deposit_returned [OF l s1] s1 show ?thesis
    by (simp add: e demo_config_def ledger_ops_def demo_ledger_def demo_env_def)
qed

theorem winner_moves_own_difficulty_witness:
  "\<exists>r s1. block_best_proof s1 = Some r \<and> (\<forall>h. h \<noteq> pr_topology_hash r \<longrightarrow>
     difficulties (on_finalize demo_config 1 s1) h = difficulties s1 h)"
proof -
  define r :: "nat proof_record" where "r = \<lparr>pr_miner = 1, pr_submitted_at = 1, pr_energy_milli = -1000, pr_salt = [],
    pr_topology_hash = demo_hash, pr_device_access_time_us = 0\<rparr>"
  define s1 where "s1 = demo_ready\<lparr>block_best_proof := Some r\<rparr>"
  have b: "block_best_proof s1 = Some r" by (simp add: s1_def)
  have "current_difficulty_for demo_config s1 demo_hash 1 = demo_difficulty"
    by (simp add: current_difficulty_for_def current_difficulty_def demo_ready_fields saturate_u32_def s1_def)
  then have t: "in_i64 (max_energy_milli (current_difficulty_for demo_config s1 (pr_topology_hash r) 1))"
    "in_i64 (pr_energy_milli r)" by (simp_all add: r_def demo_difficulty_def range_simps)
  have curve: "\<exists>k. energy_curve_for demo_config s1 (pr_topology_hash r) = Some k"
    by (auto simp: energy_curve_for_def s1_def r_def demo_ready_fields demo_topology_def energy_curve_new_def expected_gse_def
        Let_def split: option.splits)
  then obtain k where k: "energy_curve_for demo_config s1 (pr_topology_hash r) = Some k" ..
  from winner_moves_own_difficulty [OF b k t] b show ?thesis unfolding Let_def by blast
qed

theorem reachable_topologies_and_difficulties_witness:
  "topologies_ok demo_config (execute_block demo_config [] demo_setup (genesis demo_env)) \<and>
   difficulties_ok (execute_block demo_config [] demo_setup (genesis demo_env)) \<and>
   parameters_ok demo_config (execute_block demo_config [] demo_setup (genesis demo_env))"
proof (rule reachable_topologies_and_difficulties [OF _ demo_integrity], rule reachable.block, rule reachable.start)
  show "list_all (call_typed \<circ> snd) demo_setup" by (rule demo_typed)
qed (simp add: genesis_fields u32_max_def)

theorem qblock_index_bijective_witness:
  "qblocks (genesis demo_env :: (nat, (nat, nat ledger) emission_state) pow_state) = Map.empty"
  using qblock_index_bijective [OF reachable.start demo_integrity, of demo_env]
  by (simp add: latest_qblock_id_def genesis_def)

declare One_nat_def [simp]

end
