(* ===== verification/Pow_Migration.thy ===== *)
theory Pow_Migration
  imports Pow_Chain
begin

text \<open>
  \<open>pallets/quantum-pow/src/lib.rs\<close>, \<open>on_runtime_upgrade\<close> and the module \<open>migration\<close>: the cumulative storage
  migrations to version 6. A stored qblock is in one of the three layouts the chain has used; the
  layout follows from the storage version. \<open>StorageMap::translate\<close> decodes each entry as the old layout
  and rewrites it. Every layout extends the previous one at the end and the decoder ignores trailing
  bytes, so an entry of a later layout decodes as its prefix, and one that is too short stays.
\<close>

subsection \<open>Stored layouts\<close>

record 'a pre_topology_qblock =
  pq_miner :: 'a
  pq_salt :: bytes
  pq_energy_milli :: i64
  pq_reward :: balance
  pq_submitted_at :: nat
  pq_difficulty :: difficulty_config
  pq_last_proof_block_hash :: h256

record 'a v4_qblock = "'a pre_topology_qblock" +
  pq_topology_hash :: h256

datatype 'a stored_qblock =
    PreTopology "'a pre_topology_qblock"
  | V4 "'a v4_qblock"
  | Current "'a qblock"

text \<open>The pallet's storage prefix: the current values, the version, and the retired keys.\<close>

record ('a, 'b) pow_store =
  values_of :: "('a, 'b) pow_state"
  stored_qblocks :: "nat \<rightharpoonup> 'a stored_qblock"
  on_chain_version :: nat
  old_difficulty :: "difficulty_config option"
  winner_streak :: "nat option"

definition STORAGE_VERSION :: nat where "STORAGE_VERSION = 6"

subsection \<open>The migration steps\<close>

definition carry_forward :: "('a, 'b) pow_store \<Rightarrow> ('a, 'b) pow_store" where
  "carry_forward st =
     (let old = (case old_difficulty st of Some d \<Rightarrow> d | None \<Rightarrow> default_difficulty);
          v = values_of st;
          v1 = (case default_topology v of
                  Some h \<Rightarrow> v\<lparr>difficulties := (difficulties v)(h \<mapsto> old),
                             mineable_topologies := insert h (mineable_topologies v)\<rparr>
                | None \<Rightarrow> v)
      in st\<lparr>values_of := v1\<lparr>block_best_proof := None\<rparr>, old_difficulty := None\<rparr>)"

text \<open>Clearing the prefix removes every value of the pallet, the version included; the system's block
  number and parent hash and the other pallets are not under the prefix.\<close>

definition wipe :: "('a, 'b) pow_store \<Rightarrow> ('a, 'b) pow_store" where
  "wipe st =
     \<lparr>values_of = (genesis (env (values_of st)))\<lparr>pow_events := pow_events (values_of st),
        block_number := block_number (values_of st), parent_hash := parent_hash (values_of st)\<rparr>,
      stored_qblocks = Map.empty, on_chain_version = 0, old_difficulty = None, winner_streak = None\<rparr>"

definition kill_stale_best_proof :: "('a, 'b) pow_store \<Rightarrow> ('a, 'b) pow_store" where
  "kill_stale_best_proof st = st\<lparr>values_of := (values_of st)\<lparr>block_best_proof := None\<rparr>\<rparr>"

fun decode_pre_topology :: "'a stored_qblock \<Rightarrow> 'a pre_topology_qblock option" where
  "decode_pre_topology (PreTopology q) = Some q"
| "decode_pre_topology (V4 q) = Some (pre_topology_qblock.truncate q)"
| "decode_pre_topology (Current q) = Some
     \<lparr>pq_miner = qb_miner q, pq_salt = qb_salt q, pq_energy_milli = qb_energy_milli q, pq_reward = qb_reward q,
      pq_submitted_at = qb_submitted_at q, pq_difficulty = qb_difficulty q,
      pq_last_proof_block_hash = qb_last_proof_block_hash q\<rparr>"

fun decode_v4 :: "'a stored_qblock \<Rightarrow> 'a v4_qblock option" where
  "decode_v4 (PreTopology q) = None"
| "decode_v4 (V4 q) = Some q"
| "decode_v4 (Current q) = Some
     \<lparr>pq_miner = qb_miner q, pq_salt = qb_salt q, pq_energy_milli = qb_energy_milli q, pq_reward = qb_reward q,
      pq_submitted_at = qb_submitted_at q, pq_difficulty = qb_difficulty q,
      pq_last_proof_block_hash = qb_last_proof_block_hash q, pq_topology_hash = qb_topology_hash q\<rparr>"

definition translate ::
    "('a stored_qblock \<Rightarrow> 'o option) \<Rightarrow> ('o \<Rightarrow> 'a qblock) \<Rightarrow> ('a, 'b) pow_store \<Rightarrow> ('a, 'b) pow_store" where
  "translate decode f st =
     st\<lparr>stored_qblocks := map_option (\<lambda>q. case decode q of Some old \<Rightarrow> Current (f old) | None \<Rightarrow> q) \<circ> stored_qblocks st\<rparr>"

definition backfill_entry :: "h256 \<Rightarrow> 'a pre_topology_qblock \<Rightarrow> 'a qblock" where
  "backfill_entry backfill old =
     \<lparr>qb_miner = pq_miner old, qb_salt = pq_salt old, qb_energy_milli = pq_energy_milli old,
      qb_reward = pq_reward old, qb_submitted_at = pq_submitted_at old, qb_difficulty = pq_difficulty old,
      qb_last_proof_block_hash = pq_last_proof_block_hash old, qb_topology_hash = backfill,
      qb_device_access_time_us = 0\<rparr>"

definition backfill_from_pre_topology :: "('a, 'b) pow_store \<Rightarrow> ('a, 'b) pow_store" where
  "backfill_from_pre_topology st =
     (let backfill = (case default_topology (values_of st) of Some h \<Rightarrow> h | None \<Rightarrow> replicate 32 0)
      in kill_stale_best_proof (translate decode_pre_topology (backfill_entry backfill) st))"

definition append_entry :: "'a v4_qblock \<Rightarrow> 'a qblock" where
  "append_entry old =
     \<lparr>qb_miner = pq_miner old, qb_salt = pq_salt old, qb_energy_milli = pq_energy_milli old,
      qb_reward = pq_reward old, qb_submitted_at = pq_submitted_at old, qb_difficulty = pq_difficulty old,
      qb_last_proof_block_hash = pq_last_proof_block_hash old, qb_topology_hash = pq_topology_hash old,
      qb_device_access_time_us = 0\<rparr>"

definition append_device_time :: "('a, 'b) pow_store \<Rightarrow> ('a, 'b) pow_store" where
  "append_device_time st = kill_stale_best_proof (translate decode_v4 append_entry st)"

definition remove_winner_streak :: "('a, 'b) pow_store \<Rightarrow> ('a, 'b) pow_store" where
  "remove_winner_streak st = st\<lparr>winner_streak := None\<rparr>"

definition on_runtime_upgrade :: "('a, 'b) pow_store \<Rightarrow> ('a, 'b) pow_store" where
  "on_runtime_upgrade st =
     (let on_chain = on_chain_version st
      in if on_chain \<ge> STORAGE_VERSION then st
         else
           let st1 = (if on_chain < 3 then if on_chain = 2 then carry_forward st else wipe st else st);
               st2 = (if on_chain < 5
                      then if on_chain = 4 then append_device_time st1 else backfill_from_pre_topology st1
                      else st1);
               st3 = remove_winner_streak st2
           in st3\<lparr>on_chain_version := STORAGE_VERSION\<rparr>)"

subsection \<open>What the upgrade preserves\<close>

fun layout_version :: "nat \<Rightarrow> 'a stored_qblock \<Rightarrow> bool" where
  "layout_version v (PreTopology q) \<longleftrightarrow> v < 4"
| "layout_version v (V4 q) \<longleftrightarrow> v = 4"
| "layout_version v (Current q) \<longleftrightarrow> 5 \<le> v"

definition well_laid_out :: "('a, 'b) pow_store \<Rightarrow> bool" where
  "well_laid_out st \<longleftrightarrow> (\<forall>n q. stored_qblocks st n = Some q \<longrightarrow> layout_version (on_chain_version st) q)"

text \<open>The record a stored entry stands for, with the fields the old layouts lacked.\<close>

fun upgraded :: "h256 \<Rightarrow> 'a stored_qblock \<Rightarrow> 'a qblock" where
  "upgraded dflt (PreTopology old) =
     \<lparr>qb_miner = pq_miner old, qb_salt = pq_salt old, qb_energy_milli = pq_energy_milli old,
      qb_reward = pq_reward old, qb_submitted_at = pq_submitted_at old, qb_difficulty = pq_difficulty old,
      qb_last_proof_block_hash = pq_last_proof_block_hash old, qb_topology_hash = dflt, qb_device_access_time_us = 0\<rparr>"
| "upgraded dflt (V4 old) =
     \<lparr>qb_miner = pq_miner old, qb_salt = pq_salt old, qb_energy_milli = pq_energy_milli old,
      qb_reward = pq_reward old, qb_submitted_at = pq_submitted_at old, qb_difficulty = pq_difficulty old,
      qb_last_proof_block_hash = pq_last_proof_block_hash old, qb_topology_hash = pq_topology_hash old,
      qb_device_access_time_us = 0\<rparr>"
| "upgraded dflt (Current q) = q"

definition backfill_hash :: "('a, 'b) pow_store \<Rightarrow> h256" where
  "backfill_hash st = (case default_topology (values_of st) of Some h \<Rightarrow> h | None \<Rightarrow> replicate 32 0)"

lemma carry_forward_fields [simp]:
  "stored_qblocks (carry_forward st) = stored_qblocks st"
  "default_topology (values_of (carry_forward st)) = default_topology (values_of st)"
  by (simp_all add: carry_forward_def Let_def split: option.splits)

lemma translate_entries:
  assumes "\<And>n q. stored_qblocks st n = Some q \<Longrightarrow>
    (case decode q of Some old \<Rightarrow> Current (f old) | None \<Rightarrow> q) = Current (upgraded h q)"
  shows "stored_qblocks (translate decode f st) = map_option (Current \<circ> upgraded h) \<circ> stored_qblocks st"
proof
  fix n
  show "stored_qblocks (translate decode f st) n = (map_option (Current \<circ> upgraded h) \<circ> stored_qblocks st) n"
    using assms [of n] by (cases "stored_qblocks st n") (auto simp: translate_def)
qed

lemma stored_qblocks_steps [simp]:
  "stored_qblocks (kill_stale_best_proof st) = stored_qblocks st"
  "stored_qblocks (remove_winner_streak st) = stored_qblocks st"
  by (simp_all add: kill_stale_best_proof_def remove_winner_streak_def)

lemma upgrade_qblocks:
  assumes w: "well_laid_out st" and v: "2 \<le> on_chain_version st"
  shows "stored_qblocks (on_runtime_upgrade st) = map_option (Current \<circ> upgraded (backfill_hash st)) \<circ> stored_qblocks st"
proof -
  let ?v = "on_chain_version st" and ?m = "stored_qblocks st" and ?h = "backfill_hash st"
  have l: "\<And>n q. ?m n = Some q \<Longrightarrow> layout_version ?v q" using w by (simp add: well_laid_out_def)
  consider (pre) "?v < 4" | (four) "?v = 4" | (current) "5 \<le> ?v" by linarith
  then show ?thesis
  proof cases
    case pre
    let ?st1 = "if ?v = 2 then carry_forward st else st"
    have "stored_qblocks (on_runtime_upgrade st) = stored_qblocks (translate decode_pre_topology (backfill_entry ?h) ?st1)"
      using pre v by (simp add: on_runtime_upgrade_def STORAGE_VERSION_def Let_def backfill_from_pre_topology_def backfill_hash_def)
    moreover have s1: "stored_qblocks ?st1 = ?m" by simp
    moreover have "(case decode_pre_topology q of Some old \<Rightarrow> Current (backfill_entry ?h old) | None \<Rightarrow> q) = Current (upgraded ?h q)"
      if "stored_qblocks ?st1 n = Some q" for n q
      using l [of n q] that pre unfolding s1 by (cases q) (auto simp: backfill_entry_def)
    ultimately show ?thesis using translate_entries [of ?st1] by metis
  next
    case four
    then have "stored_qblocks (on_runtime_upgrade st) = stored_qblocks (translate decode_v4 append_entry st)"
      by (simp add: on_runtime_upgrade_def STORAGE_VERSION_def Let_def append_device_time_def)
    moreover have "(case decode_v4 q of Some old \<Rightarrow> Current (append_entry old) | None \<Rightarrow> q) = Current (upgraded ?h q)"
      if "?m n = Some q" for n q using l [OF that] four by (cases q) (auto simp: append_entry_def)
    ultimately show ?thesis using translate_entries [of st] by metis
  next
    case current
    then have "stored_qblocks (on_runtime_upgrade st) = ?m"
      by (simp add: on_runtime_upgrade_def STORAGE_VERSION_def Let_def)
    moreover have "?m n = (map_option (Current \<circ> upgraded ?h) \<circ> ?m) n" for n
    proof (cases "?m n")
      case (Some q)
      then show ?thesis using l [OF Some] current by (cases q) auto
    qed simp
    ultimately show ?thesis by auto
  qed
qed

text \<open>
  an upgrade from version 2 or later keeps every qblock and rewrites it to the current layout: no field
  of an old record changes, topologies recorded at version 4 are preserved, older ones get the
  default topology; afterwards the version is 6, the retired streak is gone (when the upgrade ran),
  upgrading again changes nothing, and a version 2 chain has its global difficulty carried to the
  default topology, which is mineable.
\<close>

theorem upgrade_preserves_qblocks:
  assumes "well_laid_out st" "2 \<le> on_chain_version st" "on_chain_version st < 6"
  shows "let st' = on_runtime_upgrade st in
    stored_qblocks st' = map_option (Current \<circ> upgraded (backfill_hash st)) \<circ> stored_qblocks st \<and>
    dom (stored_qblocks st') = dom (stored_qblocks st) \<and> well_laid_out st' \<and>
    on_chain_version st' = 6 \<and> winner_streak st' = None \<and> on_runtime_upgrade st' = st' \<and>
    (on_chain_version st = 2 \<longrightarrow> (\<forall>h. default_topology (values_of st) = Some h \<longrightarrow>
       h \<in> mineable_topologies (values_of st') \<and>
       difficulties (values_of st') h =
         Some (case old_difficulty st of Some d \<Rightarrow> d | None \<Rightarrow> default_difficulty)))"
proof -
  let ?st' = "on_runtime_upgrade st"
  note q = upgrade_qblocks [OF assms(1,2)]
  have v: "on_chain_version ?st' = 6" "winner_streak ?st' = None"
    using assms(3) by (simp_all add: on_runtime_upgrade_def STORAGE_VERSION_def Let_def remove_winner_streak_def)
  have "on_runtime_upgrade ?st' = ?st'" using v by (simp add: on_runtime_upgrade_def [of ?st'] STORAGE_VERSION_def)
  moreover have "well_laid_out ?st'" unfolding well_laid_out_def q v(1) by auto
  moreover have "dom (stored_qblocks ?st') = dom (stored_qblocks st)" unfolding q by (auto simp: dom_def)
  moreover have "h \<in> mineable_topologies (values_of ?st') \<and>
      difficulties (values_of ?st') h = Some (case old_difficulty st of Some d \<Rightarrow> d | None \<Rightarrow> default_difficulty)"
    if "on_chain_version st = 2" "default_topology (values_of st) = Some h" for h
    using that by (simp add: on_runtime_upgrade_def STORAGE_VERSION_def Let_def backfill_from_pre_topology_def
        kill_stale_best_proof_def translate_def remove_winner_streak_def carry_forward_def)
  ultimately show ?thesis using q v unfolding Let_def by blast
qed

theorem upgrade_preserves_qblocks_witness:
  "let q = \<lparr>pq_miner = 7, pq_salt = [], pq_energy_milli = -5, pq_reward = 3, pq_submitted_at = 9,
       pq_difficulty = default_difficulty, pq_last_proof_block_hash = [], pq_topology_hash = [1]\<rparr>;
     st = \<lparr>values_of = genesis (), stored_qblocks = [9 \<mapsto> V4 q], on_chain_version = 4, old_difficulty = None,
       winner_streak = Some 3\<rparr> :: (nat, unit) pow_store
   in map_option (qb_topology_hash \<circ> upgraded []) (stored_qblocks (on_runtime_upgrade st) 9) = Some [1]"
proof -
  define q :: "nat v4_qblock" where "q = \<lparr>pq_miner = 7, pq_salt = [], pq_energy_milli = -5, pq_reward = 3, pq_submitted_at = 9,
       pq_difficulty = default_difficulty, pq_last_proof_block_hash = [], pq_topology_hash = [1]\<rparr>"
  define st :: "(nat, unit) pow_store" where "st = \<lparr>values_of = genesis (), stored_qblocks = [9 \<mapsto> V4 q],
    on_chain_version = 4, old_difficulty = None, winner_streak = Some 3\<rparr>"
  have "well_laid_out st" "2 \<le> on_chain_version st" "on_chain_version st < 6"
    by (simp_all add: st_def well_laid_out_def)
  from upgrade_preserves_qblocks [OF this]
  have "stored_qblocks (on_runtime_upgrade st) 9 = Some (Current (upgraded (backfill_hash st) (V4 q)))"
    by (simp add: Let_def st_def)
  then show ?thesis by (simp add: st_def q_def)
qed

end
