(* ===== verification/Faucet_Ops.thy ===== *)
theory Faucet_Ops
  imports Emission
begin

text \<open>
  \<open>pallets/faucet-ops/src/lib.rs\<close>: the testnet faucet with its one-way fuse. The minting backend is the
  \<open>FaucetMint\<close> contract, a locale here, which the emission controller provides. The stored status may be
  absent; it then reads as permanently disabled.
\<close>

subsection \<open>State\<close>

datatype faucet_status = Enabled | PermanentlyDisabled | Paused

text \<open>\<open>Backend\<close> is an error of the minting backend, passed on unchanged.\<close>

datatype 'x faucet_error = FaucetZeroAmount | FaucetDepositFailed | Disabled | Backend 'x

datatype 'a faucet_event =
    Minted 'a balance
  | FusePermanentlyDisabled
  | AuthorityChanged "'a option"

record ('a, 'b) faucet_state =
  stored_status :: "faucet_status option"
  authority :: "'a option"
  faucet_version :: nat
  faucet_events :: "'a faucet_event list"
  emissions :: 'b

record ('a, 'b, 'x) faucet_config =
  mint_origin :: "'a option \<Rightarrow> 'a raw_origin \<Rightarrow> bool"
  authority_origin :: "'a raw_origin \<Rightarrow> bool"
  emissions_mint :: "'a \<Rightarrow> balance \<Rightarrow> 'b \<Rightarrow> 'x + 'b"

definition faucet_status_of :: "('a, 'b) faucet_state \<Rightarrow> faucet_status" where
  "faucet_status_of s = (case stored_status s of Some st \<Rightarrow> st | None \<Rightarrow> PermanentlyDisabled)"

text \<open>\<open>EnsureFaucetAuthority\<close>: only the signed account that is the stored authority; root fails.\<close>

definition ensure_faucet_authority :: "'a option \<Rightarrow> 'a raw_origin \<Rightarrow> bool" where
  "ensure_faucet_authority auth origin = (case origin of Signed who \<Rightarrow> auth = Some who | _ \<Rightarrow> False)"

text \<open>The runtime's \<open>MintOrigin\<close>: the authority or the Foundation.\<close>

definition runtime_mint_origin :: "('a raw_origin \<Rightarrow> bool) \<Rightarrow> 'a option \<Rightarrow> 'a raw_origin \<Rightarrow> bool" where
  "runtime_mint_origin foundation auth origin \<longleftrightarrow> ensure_faucet_authority auth origin \<or> foundation origin"

subsection \<open>Operations\<close>

definition emit_faucet :: "'a faucet_event \<Rightarrow> ('a, 'b) faucet_state \<Rightarrow> ('a, 'b) faucet_state" where
  "emit_faucet ev s = s\<lparr>faucet_events := faucet_events s @ [ev]\<rparr>"

text \<open>\<open>None\<close> when the assertion of the genesis builder fails.\<close>

definition faucet_build :: "faucet_status \<Rightarrow> 'a option \<Rightarrow> 'b \<Rightarrow> ('a, 'b) faucet_state option" where
  "faucet_build st auth e =
     (if st \<noteq> Enabled \<or> auth \<noteq> None
      then Some \<lparr>stored_status = Some st, authority = auth, faucet_version = 1, faucet_events = [], emissions = e\<rparr>
      else None)"

definition faucet_mint ::
    "('a, 'b, 'x) faucet_config \<Rightarrow> 'a raw_origin \<Rightarrow> 'a \<Rightarrow> balance \<Rightarrow> ('a, 'b) faucet_state \<Rightarrow>
     'x faucet_error dispatch_error + ('a, 'b) faucet_state" where
  "faucet_mint c origin who amount s =
     and_then (ensure_origin (mint_origin c (authority s)) origin) (\<lambda>_.
     ensure (faucet_status_of s = Enabled) (Module Disabled)
     (ensure (amount \<noteq> 0) (Module FaucetZeroAmount)
     (and_then (map_err (\<lambda>x. Module (Backend x)) (emissions_mint c who amount (emissions s))) (\<lambda>e.
        Inr (emit_faucet (Minted who amount) (s\<lparr>emissions := e\<rparr>))))))"

definition set_authority ::
    "('a, 'b, 'x) faucet_config \<Rightarrow> 'a raw_origin \<Rightarrow> 'a option \<Rightarrow> ('a, 'b) faucet_state \<Rightarrow>
     'x faucet_error dispatch_error + ('a, 'b) faucet_state" where
  "set_authority c origin auth s =
     and_then (ensure_origin (authority_origin c) origin) (\<lambda>_.
     Inr (emit_faucet (AuthorityChanged auth) (s\<lparr>authority := auth\<rparr>)))"

definition disable ::
    "('a, 'b, 'x) faucet_config \<Rightarrow> 'a raw_origin \<Rightarrow> ('a, 'b) faucet_state \<Rightarrow>
     'x faucet_error dispatch_error + ('a, 'b) faucet_state" where
  "disable c origin s =
     and_then (ensure_origin (mint_origin c (authority s)) origin) (\<lambda>_.
     ensure (faucet_status_of s = Enabled) (Module Disabled)
       (Inr (emit_faucet FusePermanentlyDisabled (s\<lparr>stored_status := Some PermanentlyDisabled\<rparr>))))"

definition faucet_on_runtime_upgrade :: "('a, 'b) faucet_state \<Rightarrow> ('a, 'b) faucet_state" where
  "faucet_on_runtime_upgrade s =
     (if faucet_version s < 1
      then s\<lparr>stored_status := (if stored_status s \<noteq> Some PermanentlyDisabled then Some Paused else stored_status s),
             authority := None, faucet_version := 1\<rparr>
      else s)"

subsection \<open>Runs\<close>

datatype 'a faucet_call =
    Mint 'a balance
  | SetAuthority "'a option"
  | Disable
  | Upgrade

fun faucet_step :: "('a, 'b, 'x) faucet_config \<Rightarrow> 'a raw_origin \<times> 'a faucet_call \<Rightarrow> ('a, 'b) faucet_state \<Rightarrow> ('a, 'b) faucet_state" where
  "faucet_step c (origin, Mint who amount) s = (case faucet_mint c origin who amount s of Inr s' \<Rightarrow> s' | Inl _ \<Rightarrow> s)"
| "faucet_step c (origin, SetAuthority auth) s = (case set_authority c origin auth s of Inr s' \<Rightarrow> s' | Inl _ \<Rightarrow> s)"
| "faucet_step c (origin, Disable) s = (case disable c origin s of Inr s' \<Rightarrow> s' | Inl _ \<Rightarrow> s)"
| "faucet_step c (origin, Upgrade) s = faucet_on_runtime_upgrade s"

definition faucet_run :: "('a, 'b, 'x) faucet_config \<Rightarrow> ('a raw_origin \<times> 'a faucet_call) list \<Rightarrow> ('a, 'b) faucet_state \<Rightarrow> ('a, 'b) faucet_state" where
  "faucet_run c calls s = fold (faucet_step c) calls s"

lemma faucet_mint_Inr:
  "faucet_mint c origin who amount s = Inr s' \<longleftrightarrow>
     mint_origin c (authority s) origin \<and> faucet_status_of s = Enabled \<and> 0 < amount \<and>
     (\<exists>e. emissions_mint c who amount (emissions s) = Inr e \<and> s' = emit_faucet (Minted who amount) (s\<lparr>emissions := e\<rparr>))"
  by (auto simp: faucet_mint_def)

lemma emit_faucet_fields [simp]:
  "stored_status (emit_faucet ev s) = stored_status s" "authority (emit_faucet ev s) = authority s"
  "emissions (emit_faucet ev s) = emissions s" "faucet_events (emit_faucet ev s) = faucet_events s @ [ev]"
  by (simp_all add: emit_faucet_def)

text \<open>A step that is not a successful mint keeps the backend, and never enables the faucet.\<close>

lemma faucet_step_closed:
  assumes "faucet_status_of s \<noteq> Enabled"
  shows "faucet_status_of (faucet_step c oc s) \<noteq> Enabled" "emissions (faucet_step c oc s) = emissions s"
    "stored_status s = Some PermanentlyDisabled \<Longrightarrow> stored_status (faucet_step c oc s) = Some PermanentlyDisabled"
proof -
  obtain origin call where oc: "oc = (origin, call)" by fastforce
  show "faucet_status_of (faucet_step c oc s) \<noteq> Enabled" "emissions (faucet_step c oc s) = emissions s"
    "stored_status s = Some PermanentlyDisabled \<Longrightarrow> stored_status (faucet_step c oc s) = Some PermanentlyDisabled"
    using assms unfolding oc
    by (cases call; auto simp: faucet_mint_def set_authority_def disable_def faucet_on_runtime_upgrade_def ensure_origin_def
        faucet_status_of_def split: option.splits)+
qed

text \<open>
  once the faucet is not enabled (its fuse is blown, it is paused or it was never configured), no
  sequence of calls and upgrades by any origins enables it again or changes the backend's state, and
  a blown fuse stays recorded as permanently disabled.
\<close>

theorem faucet_never_reopens:
  assumes "faucet_status_of s \<noteq> Enabled"
  shows "faucet_status_of (faucet_run c calls s) \<noteq> Enabled \<and> emissions (faucet_run c calls s) = emissions s \<and>
    (stored_status s = Some PermanentlyDisabled \<longrightarrow> stored_status (faucet_run c calls s) = Some PermanentlyDisabled)"
  using assms
proof (induction calls arbitrary: s)
  case (Cons oc calls)
  note st = faucet_step_closed [OF Cons.prems, of c oc]
  show ?case using Cons.IH [OF st(1)] st(2,3) by (simp add: faucet_run_def)
qed (simp add: faucet_run_def)

definition demo_faucet :: "(nat, (nat, nat ledger) emission_state, emission_error dispatch_error) faucet_config" where
  "demo_faucet = \<lparr>mint_origin = runtime_mint_origin (\<lambda>og. og = Signed 9), authority_origin = \<lambda>og. og = Signed 9,
     emissions_mint = mint_faucet demo_emission\<rparr>"

definition demo_faucet_state :: "faucet_status option \<Rightarrow> (nat, (nat, nat ledger) emission_state) faucet_state" where
  "demo_faucet_state st = \<lparr>stored_status = st, authority = Some 3, faucet_version = 0, faucet_events = [],
     emissions = demo_emission_state\<rparr>"

theorem faucet_never_reopens_witness:
  "emissions (faucet_run demo_faucet [(Signed 9, SetAuthority (Some 4)), (Root, Upgrade), (Signed 9, Mint 4 100)]
     (demo_faucet_state None)) = demo_emission_state"
  using faucet_never_reopens [of "demo_faucet_state None" demo_faucet] by (simp add: faucet_status_of_def demo_faucet_state_def)

subsection \<open>The minting contract\<close>

text \<open>
  What \<open>FaucetMint\<close> promises its caller: a successful mint credits exactly the amount, counts it against a
  fixed budget and stays within that budget.
\<close>

locale faucet_backend =
  fixes ok :: "'c \<Rightarrow> bool"
    and mint_op :: "'c \<Rightarrow> 'a \<Rightarrow> balance \<Rightarrow> 's \<Rightarrow> 'x + 's"
    and free :: "'c \<Rightarrow> 's \<Rightarrow> 'a \<Rightarrow> balance"
    and minted :: "'s \<Rightarrow> balance"
    and budget :: "'s \<Rightarrow> balance"
  assumes mint_credit: "ok c \<Longrightarrow> mint_op c who a e = Inr e' \<Longrightarrow> free c e' who = free c e who + a"
    and mint_counts: "ok c \<Longrightarrow> mint_op c who a e = Inr e' \<Longrightarrow> minted e' = minted e + a"
    and mint_bounded: "ok c \<Longrightarrow> mint_op c who a e = Inr e' \<Longrightarrow> minted e' \<le> budget e \<and> budget e' = budget e"

interpretation emission_faucet: faucet_backend "\<lambda>c. issuance_laws (em_currency c)" mint_faucet
  "\<lambda>c s. free_balance (em_currency c) (balances s)" faucet_issued faucet_budget
  by unfold_locales (auto dest: mint_faucet_Inr simp: same_policy_def)

text \<open>The amounts of the mint events in order.\<close>

fun minted_amounts :: "'a faucet_event list \<Rightarrow> balance list" where
  "minted_amounts [] = []"
| "minted_amounts (Minted who a # evs) = a # minted_amounts evs"
| "minted_amounts (ev # evs) = minted_amounts evs"

lemma minted_amounts_append [simp]: "minted_amounts (xs @ ys) = minted_amounts xs @ minted_amounts ys"
  by (induction xs rule: minted_amounts.induct) simp_all

lemma faucet_step_cases:
  obtains (mint) who a e where "faucet_status_of s = Enabled" "0 < a" "emissions_mint c who a (emissions s) = Inr e"
      "faucet_events (faucet_step c oc s) = faucet_events s @ [Minted who a]" "emissions (faucet_step c oc s) = e"
  | (other) "minted_amounts (faucet_events (faucet_step c oc s)) = minted_amounts (faucet_events s)"
      "emissions (faucet_step c oc s) = emissions s"
proof -
  obtain origin call where oc: "oc = (origin, call)" by fastforce
  show ?thesis
  proof (cases call)
    case (Mint who a)
    then show ?thesis
    proof (cases "faucet_mint c origin who a s")
      case (Inr s')
      then have st: "faucet_step c oc s = s'" using Mint oc by simp
      obtain e where "faucet_status_of s = Enabled" "0 < a" "emissions_mint c who a (emissions s) = Inr e"
        "s' = emit_faucet (Minted who a) (s\<lparr>emissions := e\<rparr>)"
        using Inr by (auto simp: faucet_mint_Inr)
      then show ?thesis using mint [of a who e] by (simp add: st)
    qed (use Mint oc other in simp)
  qed (use oc other in \<open>auto simp: set_authority_def disable_def faucet_on_runtime_upgrade_def ensure_origin_def ensure_def\<close>)
qed

context faucet_backend
begin

lemma run_within_budget:
  fixes c :: 'c and fc :: "('a, 's, 'x) faucet_config"
  assumes "ok c" "emissions_mint fc = mint_op c" "minted (emissions s) \<le> budget (emissions s)"
  shows "let s' = faucet_run fc calls s in
    minted (emissions s') + sum_list (minted_amounts (faucet_events s)) =
      minted (emissions s) + sum_list (minted_amounts (faucet_events s')) \<and>
    minted (emissions s') \<le> budget (emissions s) \<and> budget (emissions s') = budget (emissions s)"
  using assms(3)
proof (induction calls arbitrary: s)
  case Nil
  then show ?case by (simp add: faucet_run_def)
next
  case (Cons oc calls)
  let ?s1 = "faucet_step fc oc s"
  have "minted (emissions ?s1) + sum_list (minted_amounts (faucet_events s)) =
      minted (emissions s) + sum_list (minted_amounts (faucet_events ?s1)) \<and>
    minted (emissions ?s1) \<le> budget (emissions s) \<and> budget (emissions ?s1) = budget (emissions s)"
  proof (rule faucet_step_cases [of s fc oc], goal_cases mint other)
    case (mint who a e)
    then have "mint_op c who a (emissions s) = Inr e" by (simp add: assms(2))
    then show ?case using mint mint_counts [OF assms(1)] mint_bounded [OF assms(1)] by auto
  next
    case other
    then show ?case using Cons.prems by simp
  qed
  then show ?case using Cons.IH [of ?s1] by (auto simp: faucet_run_def Let_def)
qed

end

text \<open>
  C14: over any run of faucet calls by any origins, the amounts of the mint events add up to the growth of
  the controller's faucet counter, which never passes the genesis budget.
\<close>

theorem faucet_within_budget:
  assumes "issuance_laws (em_currency ec)" "emissions_mint fc = mint_faucet ec"
    and "faucet_issued (emissions s) \<le> faucet_budget (emissions s)" "faucet_events s = []"
  shows "let s' = faucet_run fc calls s in
    faucet_issued (emissions s') = faucet_issued (emissions s) + sum_list (minted_amounts (faucet_events s')) \<and>
    faucet_issued (emissions s') \<le> faucet_budget (emissions s)"
  using emission_faucet.run_within_budget [OF assms(1,2,3), of calls] assms(4) by (simp add: Let_def)

theorem faucet_within_budget_witness:
  "faucet_issued (emissions (faucet_run demo_faucet [(Signed 3, Mint 4 400), (Signed 9, Mint 4 400)]
     (demo_faucet_state (Some Enabled)))) \<le> 500"
  using faucet_within_budget [OF demo_emission_laws(1), of demo_faucet "demo_faucet_state (Some Enabled)"
      "[(Signed 3, Mint 4 400), (Signed 9, Mint 4 400)]"]
  by (simp add: demo_emission_state_def demo_faucet_state_def demo_faucet_def Let_def)

end
