(* ===== verification/Slash_Policy.thy ===== *)
theory Slash_Policy
  imports Frame
begin

text \<open>
  \<open>pallets/slash-policy/src/lib.rs\<close>: slashes by the council within a rolling per-validator budget. The staking
  pallet is third-party code: its reads and its \<open>manual_slash\<close> are functions of the configuration over
  the state that it owns. Fractions are \<open>Perbill\<close> values, in parts per billion.
\<close>

type_synonym perbill = nat
type_synonym history = "(u32 \<times> perbill) list"

definition MIN_PER_MOTION :: perbill where "MIN_PER_MOTION = 1000000"
definition MAX_PER_MOTION :: perbill where "MAX_PER_MOTION = 50000000"
definition MIN_CUMULATIVE :: perbill where "MIN_CUMULATIVE = 10000000"
definition MAX_CUMULATIVE :: perbill where "MAX_CUMULATIVE = 100000000"
definition DEFAULT_PER_MOTION :: perbill where "DEFAULT_PER_MOTION = 10000000"
definition DEFAULT_CUMULATIVE :: perbill where "DEFAULT_CUMULATIVE = 40000000"

lemmas rails =
  MIN_PER_MOTION_def MAX_PER_MOTION_def MIN_CUMULATIVE_def MAX_CUMULATIVE_def DEFAULT_PER_MOTION_def DEFAULT_CUMULATIVE_def

subsection \<open>State\<close>

datatype slash_error =
    NoActiveEra | InvalidEra | NoExposure | InvalidFraction | InvalidWindow | SlashBudgetExceeded
  | HistoryFull | NoSlashScheduled | ArithmeticOverflow

datatype 'a slash_event =
    SlashScheduled 'a u32 u32 perbill perbill
  | LimitsSet perbill perbill u32

record unapplied_slash =
  own :: balance
  others :: "balance list"

record ('a, 'b) slash_config =
  council_origin :: "'a raw_origin \<Rightarrow> bool"
  max_budget_window :: u32
  bonding_duration :: u32
  slash_defer_duration :: u32
  active_era :: "'b \<Rightarrow> u32 option"
  exposure_total :: "'b \<Rightarrow> u32 \<Rightarrow> 'a \<Rightarrow> balance option"
  unapplied_slashes :: "'b \<Rightarrow> u32 \<Rightarrow> unapplied_slash list"
  manual_slash :: "'a \<Rightarrow> u32 \<Rightarrow> perbill \<Rightarrow> 'b \<Rightarrow> nat + 'b"

record ('a, 'b) slash_state =
  max_per_motion :: perbill
  max_cumulative :: perbill
  budget_window :: u32
  slash_history :: "'a \<Rightarrow> history"
  slash_events :: "'a slash_event list"
  staking :: 'b

definition slash_genesis :: "('a, 'b) slash_config \<Rightarrow> 'b \<Rightarrow> ('a, 'b) slash_state" where
  "slash_genesis c b =
     \<lparr>max_per_motion = DEFAULT_PER_MOTION, max_cumulative = DEFAULT_CUMULATIVE, budget_window = bonding_duration c,
      slash_history = (\<lambda>_. []), slash_events = [], staking = b\<rparr>"

text \<open>The assertions of \<open>integrity_test\<close> that depend on the configuration.\<close>

definition slash_integrity_test :: "('a, 'b) slash_config \<Rightarrow> bool" where
  "slash_integrity_test c \<longleftrightarrow>
     bonding_duration c > 0 \<and> max_budget_window c \<ge> bonding_duration c \<and> slash_defer_duration c > 0 \<and>
     DEFAULT_PER_MOTION \<ge> MIN_PER_MOTION \<and> DEFAULT_PER_MOTION \<le> MAX_PER_MOTION \<and>
     DEFAULT_CUMULATIVE \<ge> MIN_CUMULATIVE \<and> DEFAULT_CUMULATIVE \<le> MAX_CUMULATIVE \<and>
     DEFAULT_CUMULATIVE \<ge> DEFAULT_PER_MOTION"

subsection \<open>Operations\<close>

definition check_fractions :: "perbill \<Rightarrow> perbill \<Rightarrow> slash_error dispatch_error + unit" where
  "check_fractions per_motion cumulative =
     ensure (MIN_PER_MOTION \<le> per_motion \<and> per_motion \<le> MAX_PER_MOTION \<and>
             MIN_CUMULATIVE \<le> cumulative \<and> cumulative \<le> MAX_CUMULATIVE \<and> cumulative \<ge> per_motion)
       (Module InvalidFraction) (Inr ())"

text \<open>\<open>try_fold\<close> with \<open>checked_add\<close> on the raw \<open>u32\<close> parts.\<close>

fun checked_sum :: "nat \<Rightarrow> history \<Rightarrow> nat option" where
  "checked_sum acc [] = Some acc"
| "checked_sum acc ((_, used) # rest) =
     (case checked_add u32_max acc used of Some acc' \<Rightarrow> checked_sum acc' rest | None \<Rightarrow> None)"

text \<open>Adds to the first entry of the era, when there is one; \<open>Perbill\<close> addition stops at one.\<close>

fun add_to_era :: "u32 \<Rightarrow> perbill \<Rightarrow> history \<Rightarrow> history option" where
  "add_to_era active fraction [] = None"
| "add_to_era active fraction ((w, used) # rest) =
     (if w = active then Some ((w, min (used + fraction) 1000000000) # rest)
      else map_option (Cons (w, used)) (add_to_era active fraction rest))"

definition record_motion ::
    "('a, 'b) slash_config \<Rightarrow> u32 \<Rightarrow> perbill \<Rightarrow> history \<Rightarrow> slash_error dispatch_error + history" where
  "record_motion c active fraction h =
     (case add_to_era active fraction h of
        Some h' \<Rightarrow> Inr h'
      | None \<Rightarrow> if length h < max_budget_window c then Inr (h @ [(active, fraction)]) else Inl (Module HistoryFull))"

definition retained :: "('a, 'b) slash_config \<Rightarrow> u32 \<Rightarrow> history \<Rightarrow> history" where
  "retained c active h =
     (let retained_from = sat_sub active (sat_sub (max_budget_window c) 1)
      in filter (\<lambda>(w, _). w \<ge> retained_from) h)"

definition schedules_something :: "unapplied_slash list \<Rightarrow> nat \<Rightarrow> bool" where
  "schedules_something queued before \<longleftrightarrow>
     before < length queued \<and> (own (queued ! before) \<noteq> 0 \<or> (\<exists>amount \<in> set (others (queued ! before)). amount \<noteq> 0))"

definition discretionary_slash ::
    "('a, 'b) slash_config \<Rightarrow> 'a raw_origin \<Rightarrow> 'a \<Rightarrow> u32 \<Rightarrow> perbill \<Rightarrow> ('a, 'b) slash_state \<Rightarrow>
     slash_error dispatch_error + ('a, 'b) slash_state" where
  "discretionary_slash c origin stash era fraction s =
     and_then (ensure_origin (council_origin c) origin) (\<lambda>_.
     and_then (ok_or (active_era c (staking s)) (Module NoActiveEra)) (\<lambda>active.
     ensure (era \<le> active \<and> era \<ge> sat_sub active (slash_defer_duration c)) (Module InvalidEra)
     (and_then (ok_or (exposure_total c (staking s) era stash) (Module NoExposure)) (\<lambda>exposure.
      ensure (exposure \<noteq> 0) (Module NoExposure)
      (let per_motion = max_per_motion s; cumulative = max_cumulative s in
       and_then (check_fractions per_motion cumulative) (\<lambda>_.
       ensure (fraction \<noteq> 0 \<and> fraction \<le> per_motion) (Module InvalidFraction)
       (let window = budget_window s in
        ensure (window \<ge> bonding_duration c \<and> window \<le> max_budget_window c) (Module InvalidWindow)
        (let h = retained c active (slash_history s stash);
             budget_from = sat_sub active (sat_sub window 1) in
         and_then (ok_or (checked_sum fraction (filter (\<lambda>(w, _). w \<ge> budget_from) h)) (Module SlashBudgetExceeded)) (\<lambda>charged.
         ensure (charged \<le> cumulative) (Module SlashBudgetExceeded)
         (and_then (record_motion c active fraction h) (\<lambda>h'.
          and_then (ok_or (Option.bind (checked_add u32_max era (slash_defer_duration c)) (\<lambda>e. checked_add u32_max e 1))
                      (Module ArithmeticOverflow)) (\<lambda>apply_era.
          let before = length (unapplied_slashes c (staking s) apply_era) in
          and_then (map_err Other (manual_slash c stash era fraction (staking s))) (\<lambda>b.
          ensure (schedules_something (unapplied_slashes c b apply_era) before) (Module NoSlashScheduled)
            (Inr (s\<lparr>staking := b, slash_history := (slash_history s)(stash := h'),
                    slash_events := slash_events s @
                      [SlashScheduled stash era apply_era fraction (sat_sub cumulative charged)]\<rparr>)))))))))))))))"

definition set_limits ::
    "('a, 'b) slash_config \<Rightarrow> 'a raw_origin \<Rightarrow> perbill \<Rightarrow> perbill \<Rightarrow> u32 \<Rightarrow> ('a, 'b) slash_state \<Rightarrow>
     slash_error dispatch_error + ('a, 'b) slash_state" where
  "set_limits c origin per_motion cumulative window s =
     and_then (ensure_origin (council_origin c) origin) (\<lambda>_.
     and_then (check_fractions per_motion cumulative) (\<lambda>_.
     ensure (window \<ge> bonding_duration c \<and> window \<le> max_budget_window c) (Module InvalidWindow)
       (Inr (s\<lparr>max_per_motion := per_motion, max_cumulative := cumulative, budget_window := window,
               slash_events := slash_events s @ [LimitsSet per_motion cumulative window]\<rparr>))))"

subsection \<open>Sums of motions\<close>

definition at_era :: "history \<Rightarrow> u32 \<Rightarrow> nat" where
  "at_era h e = sum_list (map snd (filter (\<lambda>p. fst p = e) h))"

definition between :: "history \<Rightarrow> u32 \<Rightarrow> u32 \<Rightarrow> nat" where
  "between h lo hi = sum_list (map snd (filter (\<lambda>p. lo \<le> fst p \<and> fst p \<le> hi) h))"

lemma at_era_simps [simp]:
  "at_era [] e = 0" "at_era (p # h) e = (if fst p = e then snd p else 0) + at_era h e"
  "at_era (h @ h') e = at_era h e + at_era h' e"
  by (simp_all add: at_era_def)

lemma between_simps [simp]:
  "between [] lo hi = 0" "between (p # h) lo hi = (if lo \<le> fst p \<and> fst p \<le> hi then snd p else 0) + between h lo hi"
  "between (h @ h') lo hi = between h lo hi + between h' lo hi"
  by (simp_all add: between_def)

lemma between_by_era: "between h lo hi = (\<Sum>e \<in> {lo..hi}. at_era h e)"
  by (induction h) (simp_all add: sum.distrib)

lemma between_cong: "(\<And>e. lo \<le> e \<Longrightarrow> e \<le> hi \<Longrightarrow> at_era h e = at_era h' e) \<Longrightarrow> between h lo hi = between h' lo hi"
  unfolding between_by_era by (rule sum.cong) auto

lemma between_mono: "lo' \<le> lo \<Longrightarrow> (\<And>p. p \<in> set h \<Longrightarrow> fst p \<le> hi') \<Longrightarrow> between h lo hi \<le> between h lo' hi'"
  by (induction h) (auto simp: add_mono)

lemma at_era_le_between: "lo \<le> e \<Longrightarrow> e \<le> hi \<Longrightarrow> at_era h e \<le> between h lo hi"
  by (induction h) auto

lemma checked_sum_Some:
  "checked_sum acc h = Some t \<Longrightarrow> t = acc + sum_list (map snd h)"
  by (induction acc h rule: checked_sum.induct) (auto simp: checked_add_Some_iff split: option.splits)

lemma at_era_filter: "at_era (filter (\<lambda>(w, _). P w) h) e = (if P e then at_era h e else 0)"
  by (induction h) (auto split: prod.splits)

lemma sum_filter_between:
  "(\<And>p. p \<in> set h \<Longrightarrow> fst p \<le> hi) \<Longrightarrow> sum_list (map snd (filter (\<lambda>(w, _). lo \<le> w) h)) = between h lo hi"
  by (induction h) (auto split: prod.splits)

lemma add_to_era_None: "add_to_era a f h = None \<longleftrightarrow> a \<notin> fst ` set h"
  by (induction h) (auto split: prod.splits if_splits)

lemma add_to_era_Some:
  "add_to_era a f h = Some h' \<Longrightarrow> at_era h a + f \<le> 1000000000 \<Longrightarrow>
     at_era h' e = at_era h e + (if e = a then f else 0) \<and> map fst h' = map fst h"
  by (induction h arbitrary: h') (auto split: if_splits)

lemma record_motion_Inr:
  assumes "record_motion c a f h = Inr h'" "at_era h a + f \<le> 1000000000"
  shows "at_era h' e = at_era h e + (if e = a then f else 0)"
    "distinct (map fst h) \<Longrightarrow> distinct (map fst h')" "fst ` set h' = insert a (fst ` set h)"
    "length h \<le> max_budget_window c \<Longrightarrow> length h' \<le> max_budget_window c"
proof -
  have "at_era h' e = at_era h e + (if e = a then f else 0) \<and> (distinct (map fst h) \<longrightarrow> distinct (map fst h')) \<and>
      fst ` set h' = insert a (fst ` set h) \<and> (length h \<le> max_budget_window c \<longrightarrow> length h' \<le> max_budget_window c)"
  proof (cases "add_to_era a f h")
    case None
    then have "a \<notin> fst ` set h" by (simp add: add_to_era_None)
    then show ?thesis using assms(1) None by (auto simp: record_motion_def split: if_splits)
  next
    case (Some x)
    then have "h' = x" using assms(1) by (simp add: record_motion_def)
    moreover have "a \<in> fst ` set h" using Some add_to_era_None by (metis option.distinct(1))
    ultimately show ?thesis using add_to_era_Some [OF Some assms(2)]
      by (metis insert_absorb length_map set_map)
  qed
  then show "at_era h' e = at_era h e + (if e = a then f else 0)"
    "distinct (map fst h) \<Longrightarrow> distinct (map fst h')" "fst ` set h' = insert a (fst ` set h)"
    "length h \<le> max_budget_window c \<Longrightarrow> length h' \<le> max_budget_window c" by blast+
qed

subsection \<open>Runs\<close>

text \<open>
  A run keeps a log of the council's motions: the validator, the era that was active, and the fraction.
  Staking moves on by itself between calls; its active era never goes back.
\<close>

type_synonym 'a motion_log = "('a \<times> u32 \<times> perbill) list"

definition motions :: "'a motion_log \<Rightarrow> 'a \<Rightarrow> history" where
  "motions log stash = map snd (filter (\<lambda>m. fst m = stash) log)"

inductive slash_reachable :: "('a, 'b) slash_config \<Rightarrow> ('a, 'b) slash_state \<Rightarrow> 'a motion_log \<Rightarrow> bool" for c where
  start: "slash_reachable c (slash_genesis c b) []"
| slash: "slash_reachable c s log \<Longrightarrow> discretionary_slash c origin stash era fraction s = Inr s' \<Longrightarrow>
    active_era c (staking s) = Some active \<Longrightarrow> slash_reachable c s' (log @ [(stash, active, fraction)])"
| limits: "slash_reachable c s log \<Longrightarrow> set_limits c origin per_motion cumulative window s = Inr s' \<Longrightarrow> slash_reachable c s' log"
| staking: "slash_reachable c s log \<Longrightarrow>
    (\<forall>a. active_era c (staking s) = Some a \<longrightarrow> (\<exists>a' \<ge> a. active_era c b = Some a')) \<Longrightarrow>
    slash_reachable c (s\<lparr>staking := b\<rparr>) log"

text \<open>What the staking pallet documents of \<open>manual_slash\<close>: it queues a slash, the era stays.\<close>

definition manual_slash_keeps_era :: "('a, 'b) slash_config \<Rightarrow> bool" where
  "manual_slash_keeps_era c \<longleftrightarrow>
     (\<forall>stash era f b b'. manual_slash c stash era f b = Inr b' \<longrightarrow> active_era c b' = active_era c b)"

definition limits_ok :: "('a, 'b) slash_config \<Rightarrow> ('a, 'b) slash_state \<Rightarrow> bool" where
  "limits_ok c s \<longleftrightarrow>
     MIN_PER_MOTION \<le> max_per_motion s \<and> max_per_motion s \<le> MAX_PER_MOTION \<and> MIN_CUMULATIVE \<le> max_cumulative s \<and>
     max_cumulative s \<le> MAX_CUMULATIVE \<and> max_per_motion s \<le> max_cumulative s \<and>
     bonding_duration c \<le> budget_window s \<and> budget_window s \<le> max_budget_window c"

text \<open>
  The stored history of a validator has at most one entry per era and agrees with the log on every era
  of the retained horizon.
\<close>

definition history_ok :: "('a, 'b) slash_config \<Rightarrow> u32 option \<Rightarrow> history \<Rightarrow> history \<Rightarrow> bool" where
  "history_ok c active h log \<longleftrightarrow>
     distinct (map fst h) \<and> length h \<le> max_budget_window c \<and>
     (case active of
        None \<Rightarrow> h = [] \<and> log = []
      | Some a \<Rightarrow> (\<forall>p \<in> set h. fst p \<le> a) \<and> (\<forall>p \<in> set log. fst p \<le> a) \<and>
          (\<forall>e. a < e + max_budget_window c \<longrightarrow> at_era h e = at_era log e))"

definition log_bounded :: "('a, 'b) slash_config \<Rightarrow> history \<Rightarrow> bool" where
  "log_bounded c log \<longleftrightarrow> (\<forall>x. between log x (x + (bonding_duration c - 1)) \<le> MAX_CUMULATIVE)"

definition slash_inv :: "('a, 'b) slash_config \<Rightarrow> ('a, 'b) slash_state \<Rightarrow> 'a motion_log \<Rightarrow> bool" where
  "slash_inv c s log \<longleftrightarrow>
     limits_ok c s \<and> (\<forall>m \<in> set log. 0 < snd (snd m) \<and> snd (snd m) \<le> MAX_PER_MOTION) \<and>
     (\<forall>stash. history_ok c (active_era c (staking s)) (slash_history s stash) (motions log stash) \<and>
        log_bounded c (motions log stash))"

lemma check_fractions_Inr:
  "check_fractions p m = Inr u \<longleftrightarrow>
     MIN_PER_MOTION \<le> p \<and> p \<le> MAX_PER_MOTION \<and> MIN_CUMULATIVE \<le> m \<and> m \<le> MAX_CUMULATIVE \<and> p \<le> m"
  by (auto simp: check_fractions_def)

lemma discretionary_slash_Inr:
  assumes "discretionary_slash c origin stash era f s = Inr s'" "active_era c (staking s) = Some a"
  obtains h' where "f \<le> max_per_motion s" "0 < f"
    "f + sum_list (map snd (filter (\<lambda>(w, _). a - (budget_window s - 1) \<le> w) (retained c a (slash_history s stash)))) \<le> max_cumulative s"
    "record_motion c a f (retained c a (slash_history s stash)) = Inr h'"
    "manual_slash c stash era f (staking s) = Inr (staking s')"
    "slash_history s' = (slash_history s)(stash := h')" "max_per_motion s' = max_per_motion s"
    "max_cumulative s' = max_cumulative s" "budget_window s' = budget_window s" "council_origin c origin"
  using assms by (auto simp: discretionary_slash_def Let_def dest!: checked_sum_Some)

lemma retained_ok:
  assumes "history_ok c (Some a) h log" "0 < max_budget_window c"
  shows "history_ok c (Some a) (retained c a h) log"
    "\<And>p. p \<in> set (retained c a h) \<Longrightarrow> a < fst p + max_budget_window c \<and> fst p \<le> a"
proof -
  have e: "a - (max_budget_window c - 1) \<le> x \<longleftrightarrow> a < x + max_budget_window c" for x using assms(2) by linarith
  have "distinct (map fst (retained c a h))" using assms(1)
    by (simp add: history_ok_def retained_def distinct_map_filter)
  moreover have "length (retained c a h) \<le> max_budget_window c"
    unfolding retained_def Let_def by (rule le_trans [OF length_filter_le]) (use assms(1) in \<open>simp add: history_ok_def\<close>)
  moreover have "at_era (retained c a h) x = at_era h x" if "a < x + max_budget_window c" for x
    using that e [of x] at_era_filter [of "\<lambda>w. a - (max_budget_window c - 1) \<le> w" h x] by (simp add: retained_def)
  ultimately show "history_ok c (Some a) (retained c a h) log"
    using assms(1) by (simp add: history_ok_def) (auto simp: retained_def)
  show "\<And>p. p \<in> set (retained c a h) \<Longrightarrow> a < fst p + max_budget_window c \<and> fst p \<le> a"
    using assms(1) e by (auto simp: history_ok_def retained_def)
qed

text \<open>The motion that is charged keeps the history, the log and the bound together.\<close>

lemma motion_ok:
  assumes h: "history_ok c (Some a) h log" and b: "log_bounded c log"
    and r: "record_motion c a f (retained c a h) = Inr h'"
    and w: "0 < bonding_duration c" "bonding_duration c \<le> w" "w \<le> max_budget_window c"
    and m: "f + sum_list (map snd (filter (\<lambda>(v, _). a - (w - 1) \<le> v) (retained c a h))) \<le> m" "m \<le> MAX_CUMULATIVE"
  shows "history_ok c (Some a) h' (log @ [(a, f)])" "log_bounded c (log @ [(a, f)])"
proof -
  let ?h = "retained c a h" and ?lo = "a - (w - 1)"
  have M: "0 < max_budget_window c" using w by linarith
  note ro = retained_ok [OF h M]
  have "sum_list (map snd (filter (\<lambda>(v, _). ?lo \<le> v) ?h)) = between ?h ?lo a"
    by (rule sum_filter_between) (use ro(2) in blast)
  also have "\<dots> = between log ?lo a"
    by (rule between_cong) (use ro(1) w in \<open>auto simp: history_ok_def\<close>)
  finally have charged: "f + between log ?lo a \<le> MAX_CUMULATIVE" using m by linarith
  have "at_era ?h a \<le> between ?h ?lo a" by (rule at_era_le_between) simp_all
  then have small: "at_era ?h a + f \<le> 1000000000"
    using charged \<open>between ?h ?lo a = between log ?lo a\<close> by (simp add: MAX_CUMULATIVE_def)
  note rm = record_motion_Inr [OF r small]
  have "at_era h' e = at_era (log @ [(a, f)]) e" if "a < e + max_budget_window c" for e
    using rm(1) [of e] ro(1) that by (simp add: history_ok_def)
  moreover have "fst p \<le> a" if "p \<in> set h'" for p
    using rm(3) that ro(2) by (metis image_eqI imageE insertE order_refl)
  ultimately show "history_ok c (Some a) h' (log @ [(a, f)])"
    using rm(2,4) ro(1) by (auto simp: history_ok_def)
  have "between (log @ [(a, f)]) x (x + (bonding_duration c - 1)) \<le> MAX_CUMULATIVE" for x
  proof (cases "x \<le> a \<and> a \<le> x + (bonding_duration c - 1)")
    case True
    then have "?lo \<le> x" using w by linarith
    then have "between log x (x + (bonding_duration c - 1)) \<le> between log ?lo a"
      using h by (intro between_mono) (auto simp: history_ok_def)
    then show ?thesis using charged True by simp
  next
    case False
    then show ?thesis using b by (auto simp: log_bounded_def)
  qed
  then show "log_bounded c (log @ [(a, f)])" by (simp add: log_bounded_def)
qed

lemma motions_append [simp]: "motions (log @ [(stash, m)]) x = motions log x @ (if x = stash then [m] else [])"
  by (simp add: motions_def)

lemma history_ok_later:
  assumes "history_ok c active h log" "\<And>a. active = Some a \<Longrightarrow> \<exists>a' \<ge> a. active' = Some a'" "0 < max_budget_window c"
  shows "history_ok c active' h log"
proof (cases active)
  case None
  then show ?thesis using assms(1) by (auto simp: history_ok_def split: option.splits)
next
  case (Some a)
  then obtain a' where a': "a \<le> a'" "active' = Some a'" using assms(2) by blast
  show ?thesis using assms(1) Some a' by (force simp: history_ok_def)
qed

lemma slash_reachable_inv:
  assumes "slash_reachable c s log" and c: "slash_integrity_test c" "manual_slash_keeps_era c"
  shows "slash_inv c s log"
  using assms(1)
proof induction
  case (start b)
  then show ?case using c(1)
    by (auto simp: slash_inv_def slash_genesis_def limits_ok_def slash_integrity_test_def history_ok_def motions_def
        log_bounded_def split: option.splits)
next
  case (slash s log origin stash era fraction s' active)
  have w: "0 < bonding_duration c" "bonding_duration c \<le> budget_window s" "budget_window s \<le> max_budget_window c"
    "max_cumulative s \<le> MAX_CUMULATIVE"
    using slash.IH c(1) by (simp_all add: slash_inv_def limits_ok_def slash_integrity_test_def)
  from slash.hyps(2,3) obtain h' where h': "fraction \<le> max_per_motion s \<and> 0 < fraction"
    "fraction + sum_list (map snd (filter (\<lambda>(w, _). active - (budget_window s - 1) \<le> w) (retained c active (slash_history s stash)))) \<le> max_cumulative s"
    "record_motion c active fraction (retained c active (slash_history s stash)) = Inr h'"
    "manual_slash c stash era fraction (staking s) = Inr (staking s')"
    "slash_history s' = (slash_history s)(stash := h')"
    "limits_ok c s' = limits_ok c s"
    by (rule discretionary_slash_Inr) (simp add: limits_ok_def)
  have a': "active_era c (staking s') = Some active"
    using h'(4) c(2) slash.hyps(3) by (metis manual_slash_keeps_era_def)
  have old: "history_ok c (Some active) (slash_history s x) (motions log x)" "log_bounded c (motions log x)" for x
    using slash.IH slash.hyps(3) by (simp_all add: slash_inv_def)
  note new = motion_ok [OF old h'(3) w(1-3) h'(2) w(4)]
  have "0 < fraction" "fraction \<le> MAX_PER_MOTION" using h'(1) slash.IH by (auto simp: slash_inv_def limits_ok_def)
  then show ?case using slash.IH old new by (auto simp: slash_inv_def h'(5,6) a')
next
  case (limits s log origin per_motion cumulative window s')
  then show ?case by (auto simp: slash_inv_def set_limits_def limits_ok_def check_fractions_Inr)
next
  case (staking s log b)
  have M: "0 < max_budget_window c" using c(1) by (simp add: slash_integrity_test_def)
  have "history_ok c (active_era c b) (slash_history s x) (motions log x)" for x
    by (rule history_ok_later [OF _ _ M]) (use staking.IH staking.hyps(2) in \<open>auto simp: slash_inv_def\<close>)
  then show ?case using staking.IH by (simp add: slash_inv_def limits_ok_def)
qed

lemma history_has_room:
  assumes h: "history_ok c (Some a) h log" and M: "0 < max_budget_window c"
  shows "is_ok (record_motion c a f (retained c a h))"
proof (cases "add_to_era a f (retained c a h)")
  case None
  let ?h = "retained c a h"
  have "fst ` set ?h \<subseteq> {a - (max_budget_window c - 1)..<a}"
  proof
    fix e assume "e \<in> fst ` set ?h"
    then obtain p where p: "p \<in> set ?h" "fst p = e" by blast
    have "e \<noteq> a" using None p by (auto simp: add_to_era_None)
    then show "e \<in> {a - (max_budget_window c - 1)..<a}" using retained_ok(2) [OF h M p(1)] p(2) M by auto
  qed
  then have "card (fst ` set ?h) \<le> card {a - (max_budget_window c - 1)..<a}" by (intro card_mono) auto
  moreover have "card (fst ` set ?h) = length ?h"
    using retained_ok(1) [OF h M] distinct_card [of "map fst ?h"] by (simp add: history_ok_def)
  ultimately have "length ?h < max_budget_window c" using M by simp
  then show ?thesis using None by (simp add: record_motion_def)
qed (simp add: record_motion_def)

lemma slash_not_full:
  assumes "slash_inv c s log" "slash_integrity_test c"
  shows "discretionary_slash c origin stash era f s \<noteq> Inl (Module HistoryFull)"
proof
  assume full: "discretionary_slash c origin stash era f s = Inl (Module HistoryFull)"
  then obtain a where a: "active_era c (staking s) = Some a" "record_motion c a f (retained c a (slash_history s stash)) = Inl (Module HistoryFull)"
    by (auto simp: discretionary_slash_def and_then_Inl_iff ensure_Inl_iff ok_or_Inl_iff Let_def check_fractions_def
        ensure_origin_def map_err_def split: if_splits sum.splits)
  have "history_ok c (Some a) (slash_history s stash) (motions log stash)" using assms(1) a(1) by (auto simp: slash_inv_def)
  moreover have "0 < max_budget_window c" using assms(2) by (simp add: slash_integrity_test_def)
  ultimately show False using history_has_room [of c a] a(2) by (metis is_ok_simps(1))
qed

text \<open>
  C15: whatever the council does, in any span of eras as long as the bonding duration the fractions it slashes
  from one validator add up to at most the immutable ceiling of ten percent, each motion is at most
  five percent, and no motion is ever refused because the stored history is full.
\<close>

theorem council_slashes_bounded:
  assumes "slash_reachable c s log" "slash_integrity_test c" "manual_slash_keeps_era c"
  shows "sum_list (map (snd \<circ> snd) (filter (\<lambda>(who, era, _). who = stash \<and> first \<le> era \<and> era < first + bonding_duration c) log))
    \<le> MAX_CUMULATIVE \<and> (\<forall>(_, _, fraction) \<in> set log. fraction \<le> MAX_PER_MOTION) \<and>
    discretionary_slash c origin stash era f s \<noteq> Inl (Module HistoryFull)"
proof -
  have B: "0 < bonding_duration c" using assms(2) by (simp add: slash_integrity_test_def)
  have inv: "slash_inv c s log" by (rule slash_reachable_inv [OF assms])
  then have "between (motions log stash) first (first + (bonding_duration c - 1)) \<le> MAX_CUMULATIVE"
    by (simp add: slash_inv_def log_bounded_def)
  moreover have "between (motions log stash) first (first + (bonding_duration c - 1)) =
      sum_list (map (snd \<circ> snd) (filter (\<lambda>(who, era, _). who = stash \<and> first \<le> era \<and> era < first + bonding_duration c) log))"
    using B by (induction log) (auto simp: motions_def)
  ultimately show ?thesis using inv slash_not_full [OF inv assms(2)] by (auto simp: slash_inv_def)
qed

text \<open>A staking pallet in miniature: an active era, an exposure of 100 for every validator, and the queue.\<close>

definition demo_slash :: "(nat, nat \<times> (u32 \<Rightarrow> unapplied_slash list)) slash_config" where
  "demo_slash =
     \<lparr>council_origin = (\<lambda>og. og = Root), max_budget_window = 30, bonding_duration = 28, slash_defer_duration = 7,
      active_era = (\<lambda>b. Some (fst b)), exposure_total = (\<lambda>b era who. Some 100), unapplied_slashes = snd,
      manual_slash = (\<lambda>who era f b. Inr (fst b, (snd b)(era + 8 := snd b (era + 8) @ [\<lparr>own = 1, others = []\<rparr>])))\<rparr>"

theorem council_slashes_bounded_witness:
  "\<exists>s'. discretionary_slash demo_slash Root 5 50 10000000 (slash_genesis demo_slash (50, \<lambda>_. [])) = Inr s' \<and>
     sum_list (map (snd \<circ> snd) (filter (\<lambda>(who, era, _). who = 5 \<and> 40 \<le> era \<and> era < 40 + bonding_duration demo_slash)
       [(5::nat, 50, 10000000)])) \<le> MAX_CUMULATIVE"
proof -
  have c: "slash_integrity_test demo_slash" "manual_slash_keeps_era demo_slash"
    by (simp_all add: slash_integrity_test_def manual_slash_keeps_era_def demo_slash_def rails)
  obtain s' where s': "discretionary_slash demo_slash Root 5 50 10000000 (slash_genesis demo_slash (50, \<lambda>_. [])) = Inr s'"
    by (simp add: discretionary_slash_def slash_genesis_def check_fractions_def rails retained_def record_motion_def
        schedules_something_def checked_add_def u32_max_def Let_def, simp add: demo_slash_def)
  then have "slash_reachable demo_slash s' ([] @ [(5, 50, 10000000)])"
    by (rule slash_reachable.slash [OF slash_reachable.start]) (simp add: slash_genesis_def demo_slash_def)
  from council_slashes_bounded [OF this c, of 5 40] s' show ?thesis by auto
qed

end
