(* ===== verification/Validator_Admission.thy ===== *)
theory Validator_Admission
  imports Frame
begin

text \<open>
  \<open>pallets/validator-admission/src/lib.rs\<close>: the admitted validator set, its one-way admission mode, and the
  Foundation's filtered root dispatch. The runtime's call policy, its removal hook and the dispatch of a
  governance call as root are functions of the configuration.
\<close>

subsection \<open>State\<close>

datatype root_call_error = Denied | DepthLimit | CallLimit

datatype admission_mode = FixedTestnet | FoundationOnly | PermissionlessEligibility

datatype admission_error =
    WrongMode | AlreadyApproved | NotApproved | TooManyAuthorities | InvalidTransition | GraduationNotReady
  | RootCallDenied | RootCallTooDeep | RootCallTooLarge

datatype 'a admission_event =
    Approved 'a
  | Removed 'a
  | ModeAdvanced admission_mode
  | RootDispatched "nat + unit"

record ('a, 'b) admission_state =
  mode :: admission_mode
  approved :: "'a set"
  admission_events :: "'a admission_event list"
  runtime :: 'b

record ('a, 'b, 'k) admission_config =
  foundation_origin :: "'a raw_origin \<Rightarrow> bool"
  max_authorities :: u32
  root_call_filter :: "'k \<Rightarrow> root_call_error + unit"
  graduation_ready :: "'b \<Rightarrow> bool"
  on_removal :: "'a set \<Rightarrow> 'b \<Rightarrow> nat + 'b"
  dispatch_root :: "'k \<Rightarrow> ('a, 'b) admission_state \<Rightarrow> nat + ('a, 'b) admission_state"

definition emit_admission :: "'a admission_event \<Rightarrow> ('a, 'b) admission_state \<Rightarrow> ('a, 'b) admission_state" where
  "emit_admission ev s = s\<lparr>admission_events := admission_events s @ [ev]\<rparr>"

text \<open>\<open>BoundedBTreeSet::try_insert\<close>: \<open>Inl\<close> when a new element does not fit.\<close>

definition try_insert :: "u32 \<Rightarrow> 'a \<Rightarrow> 'a set \<Rightarrow> unit + 'a set" where
  "try_insert bound x xs = (if x \<in> xs \<or> card xs < bound then Inr (insert x xs) else Inl ())"

fun insert_distinct :: "u32 \<Rightarrow> 'a list \<Rightarrow> 'a set \<Rightarrow> 'a set option" where
  "insert_distinct bound [] acc = Some acc"
| "insert_distinct bound (who # rest) acc =
     (case try_insert bound who acc of
        Inl _ \<Rightarrow> None
      | Inr acc' \<Rightarrow> if who \<in> acc then None else insert_distinct bound rest acc')"

text \<open>\<open>None\<close> when an assertion of the genesis builder fails.\<close>

definition admission_build ::
    "('a, 'b, 'k) admission_config \<Rightarrow> admission_mode \<Rightarrow> 'a list \<Rightarrow> 'b \<Rightarrow> ('a, 'b) admission_state option" where
  "admission_build c m who b =
     (if m = PermissionlessEligibility then None
      else map_option (\<lambda>ap. \<lparr>mode = m, approved = ap, admission_events = [], runtime = b\<rparr>)
             (insert_distinct (max_authorities c) who {}))"

definition admission_integrity_test :: "('a, 'b, 'k) admission_config \<Rightarrow> bool" where
  "admission_integrity_test c \<longleftrightarrow> max_authorities c > 0 \<and> max_authorities c \<le> 64"

subsection \<open>Calls\<close>

type_synonym ('a, 'b) admission_result = "admission_error dispatch_error + ('a, 'b) admission_state"

definition approve ::
    "('a, 'b, 'k) admission_config \<Rightarrow> 'a raw_origin \<Rightarrow> 'a \<Rightarrow> ('a, 'b) admission_state \<Rightarrow> ('a, 'b) admission_result" where
  "approve c origin who s =
     and_then (ensure_origin (foundation_origin c) origin) (\<lambda>_.
     ensure (mode s = FoundationOnly) (Module WrongMode)
     (ensure (who \<notin> approved s) (Module AlreadyApproved)
     (and_then (map_err (\<lambda>_. Module TooManyAuthorities) (try_insert (max_authorities c) who (approved s))) (\<lambda>ap.
        Inr (emit_admission (Approved who) (s\<lparr>approved := ap\<rparr>))))))"

definition remove ::
    "('a, 'b, 'k) admission_config \<Rightarrow> 'a raw_origin \<Rightarrow> 'a \<Rightarrow> ('a, 'b) admission_state \<Rightarrow> ('a, 'b) admission_result" where
  "remove c origin who s =
     and_then (ensure_origin (foundation_origin c) origin) (\<lambda>_.
     ensure (mode s = FoundationOnly) (Module WrongMode)
     (ensure (who \<in> approved s) (Module NotApproved)
     (let ap = approved s - {who} in
      and_then (map_err Other (on_removal c ap (runtime s))) (\<lambda>b.
        Inr (emit_admission (Removed who) (s\<lparr>approved := ap, runtime := b\<rparr>))))))"

definition advance ::
    "('a, 'b, 'k) admission_config \<Rightarrow> 'a raw_origin \<Rightarrow> admission_mode \<Rightarrow> ('a, 'b) admission_state \<Rightarrow> ('a, 'b) admission_result" where
  "advance c origin m s =
     and_then
       (case (mode s, m) of
          (FixedTestnet, FoundationOnly) \<Rightarrow> ensure_origin (foundation_origin c) origin
        | (FoundationOnly, PermissionlessEligibility) \<Rightarrow>
            and_then (ensure_signed origin) (\<lambda>_.
              ensure (graduation_ready c (runtime s)) (Module GraduationNotReady) (Inr ()))
        | _ \<Rightarrow> Inl (Module InvalidTransition))
       (\<lambda>_. Inr (emit_admission (ModeAdvanced m) (s\<lparr>mode := m\<rparr>)))"

text \<open>An inner failure is rolled back and reported in the event; the outer call succeeds.\<close>

definition dispatch_as_root ::
    "('a, 'b, 'k) admission_config \<Rightarrow> 'a raw_origin \<Rightarrow> 'k \<Rightarrow> ('a, 'b) admission_state \<Rightarrow> ('a, 'b) admission_result" where
  "dispatch_as_root c origin call s =
     and_then (ensure_origin (foundation_origin c) origin) (\<lambda>_.
     and_then (map_err (\<lambda>reason. Module (case reason of
                  Denied \<Rightarrow> RootCallDenied | DepthLimit \<Rightarrow> RootCallTooDeep | CallLimit \<Rightarrow> RootCallTooLarge))
                (root_call_filter c call)) (\<lambda>_.
       case dispatch_root c call s of
         Inl e \<Rightarrow> Inr (emit_admission (RootDispatched (Inl e)) s)
       | Inr s' \<Rightarrow> Inr (emit_admission (RootDispatched (Inr ())) s')))"

subsection \<open>Runs\<close>

datatype ('a, 'k) admission_call = Approve 'a | Remove 'a | Advance admission_mode | DispatchAsRoot 'k

fun admission_dispatch ::
    "('a, 'b, 'k) admission_config \<Rightarrow> 'a raw_origin \<Rightarrow> ('a, 'k) admission_call \<Rightarrow> ('a, 'b) admission_state \<Rightarrow> ('a, 'b) admission_result" where
  "admission_dispatch c origin (Approve who) s = approve c origin who s"
| "admission_dispatch c origin (Remove who) s = remove c origin who s"
| "admission_dispatch c origin (Advance m) s = advance c origin m s"
| "admission_dispatch c origin (DispatchAsRoot call) s = dispatch_as_root c origin call s"

definition admission_step ::
    "('a, 'b, 'k) admission_config \<Rightarrow> 'a raw_origin \<times> ('a, 'k) admission_call \<Rightarrow> ('a, 'b) admission_state \<Rightarrow> ('a, 'b) admission_state" where
  "admission_step c oc s = (case admission_dispatch c (fst oc) (snd oc) s of Inr s' \<Rightarrow> s' | Inl _ \<Rightarrow> s)"

text \<open>
  What is asked of the runtime's policy: it lets no raw storage write through, so a root dispatch changes this
  pallet's storage only through the pallet's own calls, made with any origin, while everything else may change.
\<close>

inductive root_moves :: "('a, 'b, 'k) admission_config \<Rightarrow> ('a, 'b) admission_state \<Rightarrow> ('a, 'b) admission_state \<Rightarrow> bool" for c s where
  root_moves_refl: "root_moves c s s"
| root_moves_call:
    "root_moves c s s1 \<Longrightarrow> \<forall>k. call \<noteq> DispatchAsRoot k \<Longrightarrow> admission_dispatch c origin call s1 = Inr s2 \<Longrightarrow> root_moves c s s2"
| root_moves_other: "root_moves c s s1 \<Longrightarrow> mode s2 = mode s1 \<Longrightarrow> approved s2 = approved s1 \<Longrightarrow> root_moves c s s2"

definition root_calls_respect_admission :: "('a, 'b, 'k) admission_config \<Rightarrow> bool" where
  "root_calls_respect_admission c \<longleftrightarrow>
     (\<forall>call s s'. root_call_filter c call = Inr () \<longrightarrow> dispatch_root c call s = Inr s' \<longrightarrow> root_moves c s s')"

fun mode_rank :: "admission_mode \<Rightarrow> nat" where
  "mode_rank FixedTestnet = 0"
| "mode_rank FoundationOnly = 1"
| "mode_rank PermissionlessEligibility = 2"

definition admission_ok :: "('a, 'b, 'k) admission_config \<Rightarrow> ('a, 'b) admission_state \<Rightarrow> bool" where
  "admission_ok c s \<longleftrightarrow> finite (approved s) \<and> card (approved s) \<le> max_authorities c"

lemma insert_distinct_Some:
  "insert_distinct n xs acc = Some acc' \<Longrightarrow> finite acc \<Longrightarrow> card acc \<le> n \<Longrightarrow>
     acc' = acc \<union> set xs \<and> distinct xs \<and> acc \<inter> set xs = {} \<and> finite acc' \<and> card acc' \<le> n"
  by (induction n xs acc rule: insert_distinct.induct)
    (auto simp: try_insert_def split: sum.splits if_splits)

lemma emit_admission_fields [simp]:
  "mode (emit_admission ev s) = mode s" "approved (emit_admission ev s) = approved s" "runtime (emit_admission ev s) = runtime s"
  by (simp_all add: emit_admission_def)

lemma dispatch_as_root_Inr:
  assumes "dispatch_as_root c origin call s = Inr s'"
  obtains "foundation_origin c origin" "mode s' = mode s" "approved s' = approved s"
  | s1 where "foundation_origin c origin" "root_call_filter c call = Inr ()" "dispatch_root c call s = Inr s1"
      "mode s' = mode s1" "approved s' = approved s1"
  using assms by (auto simp: dispatch_as_root_def split: sum.splits)

text \<open>What one accepted call does to the set and the mode, and who may do it.\<close>

definition admission_moved :: "('a, 'b, 'k) admission_config \<Rightarrow> ('a, 'b) admission_state \<Rightarrow> ('a, 'b) admission_state \<Rightarrow> bool" where
  "admission_moved c s s' \<longleftrightarrow> (admission_ok c s \<longrightarrow> admission_ok c s') \<and> mode_rank (mode s) \<le> mode_rank (mode s') \<and>
     (mode s' = PermissionlessEligibility \<longrightarrow> mode s = PermissionlessEligibility \<or> (\<exists>b. graduation_ready c b)) \<and>
     (mode s = PermissionlessEligibility \<longrightarrow> approved s' = approved s)"

lemma mode_rank_top: "mode_rank PermissionlessEligibility \<le> mode_rank m \<longleftrightarrow> m = PermissionlessEligibility"
  by (cases m) simp_all

lemma admission_moved_refl: "mode s' = mode s \<Longrightarrow> approved s' = approved s \<Longrightarrow> admission_moved c s s'"
  by (simp add: admission_moved_def admission_ok_def)

lemma admission_moved_trans: "admission_moved c s s1 \<Longrightarrow> admission_moved c s1 s2 \<Longrightarrow> admission_moved c s s2"
  unfolding admission_moved_def by (metis le_trans mode_rank_top)

lemma plain_call_moves:
  assumes "admission_dispatch c origin call s = Inr s'" "\<forall>k. call \<noteq> DispatchAsRoot k"
  shows "admission_moved c s s'" "approved s' \<noteq> approved s \<Longrightarrow> foundation_origin c origin"
proof -
  have "admission_moved c s s' \<and> (approved s' \<noteq> approved s \<longrightarrow> foundation_origin c origin)"
  proof (cases call)
    case (Approve who)
    then show ?thesis using assms(1) by (auto simp: admission_moved_def approve_def try_insert_def admission_ok_def split: if_splits)
  next
    case (Remove who)
    then show ?thesis using assms(1)
      by (auto simp: admission_moved_def remove_def admission_ok_def Let_def intro: card_Diff1_le le_trans)
  next
    case (Advance m)
    then show ?thesis using assms(1)
      by (auto simp: admission_moved_def advance_def admission_ok_def split: admission_mode.splits)
  next
    case (DispatchAsRoot k)
    then show ?thesis using assms(2) by blast
  qed
  then show "admission_moved c s s'" "approved s' \<noteq> approved s \<Longrightarrow> foundation_origin c origin" by blast+
qed

lemma root_moves_moved: "root_moves c s s' \<Longrightarrow> admission_moved c s s'"
proof (induction rule: root_moves.induct)
  case root_moves_refl
  then show ?case by (simp add: admission_moved_refl)
next
  case (root_moves_call s1 call origin s2)
  then show ?case using plain_call_moves(1) admission_moved_trans by blast
next
  case (root_moves_other s1 s2)
  then show ?case using admission_moved_refl admission_moved_trans by blast
qed

lemma admission_dispatch_Inr:
  assumes "root_calls_respect_admission c" "admission_dispatch c origin call s = Inr s'"
  shows "admission_moved c s s'" "approved s' \<noteq> approved s \<Longrightarrow> foundation_origin c origin"
proof -
  have "admission_moved c s s' \<and> (approved s' \<noteq> approved s \<longrightarrow> foundation_origin c origin)"
  proof (cases call)
    case (DispatchAsRoot k)
    then have "dispatch_as_root c origin k s = Inr s'" using assms(2) by simp
    then show ?thesis
    proof (cases rule: dispatch_as_root_Inr)
      case 1
      then show ?thesis by (simp add: admission_moved_refl)
    next
      case (2 s1)
      then have "admission_moved c s s1"
        using assms(1) root_moves_moved unfolding root_calls_respect_admission_def by blast
      then show ?thesis using 2 admission_moved_refl admission_moved_trans by blast
    qed
  qed (use plain_call_moves [OF assms(2)] in auto)
  then show "admission_moved c s s'" "approved s' \<noteq> approved s \<Longrightarrow> foundation_origin c origin" by blast+
qed

definition admission_run ::
    "('a, 'b, 'k) admission_config \<Rightarrow> ('a raw_origin \<times> ('a, 'k) admission_call) list \<Rightarrow> ('a, 'b) admission_state \<Rightarrow> ('a, 'b) admission_state" where
  "admission_run c calls s = fold (admission_step c) calls s"

lemma admission_step_cases:
  obtains "admission_step c oc s = s" | "admission_dispatch c (fst oc) (snd oc) s = Inr (admission_step c oc s)"
  by (cases "admission_dispatch c (fst oc) (snd oc) s") (simp_all add: admission_step_def)

lemma admission_step_moves:
  assumes "root_calls_respect_admission c"
  shows "admission_moved c s (admission_step c oc s)"
    "approved (admission_step c oc s) \<noteq> approved s \<Longrightarrow> foundation_origin c (fst oc)"
proof -
  have "admission_moved c s (admission_step c oc s) \<and>
      (approved (admission_step c oc s) \<noteq> approved s \<longrightarrow> foundation_origin c (fst oc))"
    by (rule admission_step_cases [of c oc s]) (auto simp: admission_moved_refl dest: admission_dispatch_Inr [OF assms])
  then show "admission_moved c s (admission_step c oc s)"
    "approved (admission_step c oc s) \<noteq> approved s \<Longrightarrow> foundation_origin c (fst oc)" by blast+
qed

lemma advance_needs_graduation:
  assumes "\<forall>k. snd oc \<noteq> DispatchAsRoot k" "mode (admission_step c oc s) = PermissionlessEligibility" "mode s \<noteq> PermissionlessEligibility"
  shows "graduation_ready c (runtime s)"
  using assms by (cases "snd oc")
    (auto simp: admission_step_def approve_def remove_def advance_def Let_def split: sum.splits if_splits admission_mode.splits)

lemma admission_run_moves:
  assumes "root_calls_respect_admission c"
  shows "admission_moved c s (admission_run c calls s)"
    "\<forall>oc \<in> set calls. \<not> foundation_origin c (fst oc) \<Longrightarrow> approved (admission_run c calls s) = approved s"
proof (induction calls arbitrary: s)
  case Nil
  { case 1 then show ?case by (simp add: admission_run_def admission_moved_refl) }
  { case 2 then show ?case by (simp add: admission_run_def) }
next
  case (Cons oc calls)
  { case 1 show ?case
      using admission_moved_trans [OF admission_step_moves(1) [OF assms, of s oc] Cons(1) [of "admission_step c oc s"]]
      by (simp add: admission_run_def) }
  { case 2
    then have "approved (admission_step c oc s) = approved s" using admission_step_moves(2) [OF assms] by fastforce
    then show ?case using Cons(2) [of "admission_step c oc s"] 2 by (simp add: admission_run_def) }
qed

text \<open>
  C16: from genesis on, whatever calls are made, the admitted set has at most the configured number of members, and no
  call of the run moves the mode back. A call changes the admitted set only when the Foundation makes it, and never
  once permissionless mode is reached. Permissionless mode is entered only when objective graduation is ready, for a
  direct call in the state in which it is made.
\<close>

theorem admission_governed:
  assumes build: "admission_build c m who b = Some s0" and policy: "root_calls_respect_admission c"
  shows "card (approved (admission_run c calls s0)) \<le> max_authorities c \<and>
    ((\<forall>oc \<in> set calls. \<not> foundation_origin c (fst oc)) \<longrightarrow> approved (admission_run c calls s0) = set who) \<and>
    ((\<forall>b. \<not> graduation_ready c b) \<longrightarrow> mode (admission_run c calls s0) \<noteq> PermissionlessEligibility) \<and>
    (\<forall>earlier oc later. calls = earlier @ oc # later \<longrightarrow>
      (let before = admission_run c earlier s0; after = admission_step c oc before in
        mode_rank m \<le> mode_rank (mode before) \<and> mode_rank (mode before) \<le> mode_rank (mode after) \<and>
        (approved after \<noteq> approved before \<longrightarrow> foundation_origin c (fst oc) \<and> mode before \<noteq> PermissionlessEligibility) \<and>
        (mode after = PermissionlessEligibility \<and> mode before \<noteq> PermissionlessEligibility \<longrightarrow>
           (\<exists>b. graduation_ready c b) \<and>
           ((\<forall>k. snd oc \<noteq> DispatchAsRoot k) \<longrightarrow> graduation_ready c (runtime before)))))"
proof -
  have s0: "mode s0 = m" "m \<noteq> PermissionlessEligibility" "admission_ok c s0" "approved s0 = set who"
    using build insert_distinct_Some [of "max_authorities c" who "{}"]
    by (auto simp: admission_build_def admission_ok_def split: if_splits)
  note run = admission_run_moves(1) [OF policy, of s0] and step = admission_step_moves [OF policy]
  have "card (approved (admission_run c calls s0)) \<le> max_authorities c"
    using run [of calls] s0(3) by (simp add: admission_moved_def admission_ok_def)
  moreover have "mode (admission_run c calls s0) \<noteq> PermissionlessEligibility" if "\<forall>b. \<not> graduation_ready c b"
    using run [of calls] s0(1,2) that by (auto simp: admission_moved_def)
  moreover have "let before = admission_run c earlier s0; after = admission_step c oc before in
        mode_rank m \<le> mode_rank (mode before) \<and> mode_rank (mode before) \<le> mode_rank (mode after) \<and>
        (approved after \<noteq> approved before \<longrightarrow> foundation_origin c (fst oc) \<and> mode before \<noteq> PermissionlessEligibility) \<and>
        (mode after = PermissionlessEligibility \<and> mode before \<noteq> PermissionlessEligibility \<longrightarrow>
           (\<exists>b. graduation_ready c b) \<and>
           ((\<forall>k. snd oc \<noteq> DispatchAsRoot k) \<longrightarrow> graduation_ready c (runtime before)))" for earlier oc
    unfolding Let_def
    using run [of earlier, unfolded admission_moved_def] step(1) [of "admission_run c earlier s0" oc, unfolded admission_moved_def]
      step(2) [of oc "admission_run c earlier s0"] s0(1) advance_needs_graduation [of oc c "admission_run c earlier s0"] by blast
  ultimately show ?thesis using admission_run_moves(2) [OF policy, of calls s0] s0(4) by blast
qed

definition demo_admission_base :: "(nat, unit, nat) admission_config" where
  "demo_admission_base = \<lparr>foundation_origin = (\<lambda>og. og = Root), max_authorities = 2, root_call_filter = (\<lambda>_. Inr ()),
     graduation_ready = (\<lambda>_. False), on_removal = (\<lambda>ap b. Inr b), dispatch_root = (\<lambda>k s. Inr s)\<rparr>"

text \<open>Here a root dispatch approves an account.\<close>

definition demo_admission :: "(nat, unit, nat) admission_config" where
  "demo_admission = demo_admission_base\<lparr>dispatch_root := (\<lambda>k s. map_err (\<lambda>_. 0) (approve demo_admission_base Root k s))\<rparr>"

lemma demo_admission_policy: "root_calls_respect_admission demo_admission"
  unfolding root_calls_respect_admission_def
proof (intro allI impI)
  fix call and s s' :: "(nat, unit) admission_state"
  assume "dispatch_root demo_admission call s = Inr s'"
  then have "admission_dispatch demo_admission Root (Approve call) s = Inr s'"
    by (auto simp: demo_admission_def demo_admission_base_def approve_def)
  then show "root_moves demo_admission s s'" by (rule root_moves_call [OF root_moves_refl, rotated]) simp
qed

theorem admission_governed_witness:
  "card (approved (admission_run demo_admission [(Root, Advance FoundationOnly), (Root, Approve 1), (Root, DispatchAsRoot 2),
      (Root, Approve 3), (Signed 1, Advance PermissionlessEligibility)]
      \<lparr>mode = FixedTestnet, approved = {5}, admission_events = [], runtime = ()\<rparr>)) \<le> 2"
proof -
  have "admission_build demo_admission FixedTestnet [5] () = Some \<lparr>mode = FixedTestnet, approved = {5}, admission_events = [], runtime = ()\<rparr>"
    by (simp add: admission_build_def try_insert_def demo_admission_def demo_admission_base_def)
  then have "card (approved (admission_run demo_admission [(Root, Advance FoundationOnly), (Root, Approve 1), (Root, DispatchAsRoot 2),
      (Root, Approve 3), (Signed 1, Advance PermissionlessEligibility)]
      \<lparr>mode = FixedTestnet, approved = {5}, admission_events = [], runtime = ()\<rparr>)) \<le> max_authorities demo_admission"
    using admission_governed [OF _ demo_admission_policy] by blast
  then show ?thesis by (simp add: demo_admission_def demo_admission_base_def)
qed

end
