(* ===== verification/Evm_Chain_Id.thy ===== *)
theory Evm_Chain_Id
  imports Prelude
begin

text \<open>
  \<open>pallets/evm-chain-id/src/lib.rs\<close>: the EIP-155 chain id, written once at genesis; a missing entry reads as the
  public testnet's id.
\<close>

definition TESTNET_CHAIN_ID :: u64 where "TESTNET_CHAIN_ID = 20033"
definition LOCAL_CHAIN_ID :: u64 where "LOCAL_CHAIN_ID = 1337"

definition chain_id_get :: "u64 option \<Rightarrow> u64" where
  "chain_id_get stored = (case stored of Some i \<Rightarrow> i | None \<Rightarrow> TESTNET_CHAIN_ID)"

text \<open>The stored value after the genesis builder; \<open>None\<close> when its assertion fails.\<close>

definition chain_id_build :: "u64 \<Rightarrow> u64 option option" where
  "chain_id_build i = (if i > 0 then Some (Some i) else None)"

lemma chain_id_positive: "chain_id_build i = Some stored \<Longrightarrow> 0 < chain_id_get stored"
  by (auto simp: chain_id_build_def chain_id_get_def split: if_splits)

lemma chain_id_get_missing: "chain_id_get None = TESTNET_CHAIN_ID"
  by (simp add: chain_id_get_def)

end
