(* ===== verification/Mempool_Types.thy ===== *)
theory Mempool_Types
  imports Frame Validation_Base
begin

text \<open>
  \<open>pallets/quantum-compute-mempool\<close>: the data of \<open>types.rs\<close>, the two-phase timing of \<open>lifecycle.rs\<close> and the
  delivery rule of \<open>delivery.rs\<close>. Hashes and byte strings are byte lists, block numbers are \<open>u32\<close>.
\<close>

type_synonym mhash = bytes
type_synonym block = nat

definition MAX_REWARD_WINNERS :: u32 where "MAX_REWARD_WINNERS = 32"
definition MAX_FINALISED_ORDERS_PER_BLOCK :: u32 where "MAX_FINALISED_ORDERS_PER_BLOCK = 8"

datatype formulation = IsingFormulation

datatype miner_type = Cpu | Gpu | QpuDwave | QpuIbm | QpuIonq | QpuPasqal | Asic

datatype reward_resolution = SingleBest | TopNWeighted u32 | TopNEqual u32

datatype order_status = Opened | Expired | Closed

datatype result_delivery = OnChainOnly | Callback bytes | CallbackWithPoll bytes

record ising_params =
  ip_nodes :: "u32 list"
  ip_edges :: "(u32 \<times> u32) list"
  h_values :: "i32 list"
  j_values :: "i32 list"
  ip_max_energy :: "i64 option"
  ip_min_diversity :: "u32 option"
  ip_min_solutions :: "u32 option"

datatype 'a job_mode = Open | Bid "'a list option" "miner_type list option"

record 'a job_spec =
  builder :: 'a
  spec_name :: bytes
  spec_formulation :: formulation
  validation_program :: "mhash option"
  transform_program :: "mhash option"
  spec_registered_at :: block
  total_orders :: u64
  successful_orders :: u64

record order_timing =
  deadline_blocks :: block
  block_wait :: block

record 'a job_order =
  spec_id :: mhash
  proposer :: 'a
  params :: ising_params
  reward :: balance
  job_mode :: "'a job_mode"
  resolution :: reward_resolution
  timing :: order_timing
  delivery :: result_delivery
  status :: order_status
  created_at :: block
  first_solution_at :: "block option"
  solution_count :: u32

record 'a job_solution =
  js_solver :: 'a
  js_solver_type :: miner_type
  js_solutions :: "i8 list list"
  js_best_energy :: i64
  js_diversity :: u32
  js_num_valid :: u32
  js_submitted_at :: block

record 'a solver_info =
  si_account :: 'a
  solver_type :: miner_type
  si_registered_at :: block
  solutions_submitted :: u64
  si_rewards_earned :: balance

record 'a ranked_solver =
  solver :: 'a
  rank_energy :: i64

type_synonym 'a front_runner = "'a ranked_solver"

record 'a winner_summary =
  ws_solver :: 'a
  ws_energy :: i64
  ws_amount :: balance

record 'a stored_result =
  sr_endpoint :: bytes
  sr_resolution :: reward_resolution
  settled_at :: block
  sr_winners :: "'a winner_summary list"

datatype winner_payee = PayeeV1 u64 bytes

fun payee_chain_id :: "winner_payee \<Rightarrow> u64" where
  "payee_chain_id (PayeeV1 chain address) = chain"

text \<open>\<open>H160::is_zero\<close>: every byte is zero.\<close>

fun payee_is_valid :: "winner_payee \<Rightarrow> bool" where
  "payee_is_valid (PayeeV1 chain address) \<longleftrightarrow> chain \<noteq> 0 \<and> \<not> list_all (\<lambda>b. b = 0) address"

subsection \<open>Errors\<close>

datatype mempool_error =
    SolverAlreadyRegistered | SolverNotRegistered | JobSpecAlreadyExists | JobSpecNotFound | OrderNotFound | OrderNotOpen
  | NotEligibleSolver | MpInvalidSpinValues | MpSolutionLengthMismatch | MpInsufficientEnergy | MpInsufficientDiversity
  | MpInsufficientSolutions | MpNoSolutionsSubmitted | RewardTooLow | TooManySolutions | OrderLimitReached
  | InvalidDeliveryMode | MpInvalidTopology | InvalidRewardResolution | EmptyBidCriteria | DeadlineTooLong
  | BlockWaitTooLong | OrderNotExpired | NotProposer | NotWinner | AlreadyClaimed | NoSolutionsAccepted | ResultNotFound
  | ResultTtlNotElapsed | MpInvalidDiversityConfig | SolutionNotImproved | RewardReserveMissing | InvalidPayeeChain
  | PayeeRequired | InvalidPayee | PayeeChainMismatch | VmProgramNotFound | VmBadBytecode | VmVerificationFailed
  | VmOutputType | VmOutputLength | VmOutputSpin | VmExecutionFailed | VmStepLimitExceeded | VmMemoryLimitExceeded

subsection \<open>Timing\<close>

definition effective_expiry :: "block \<Rightarrow> block option \<Rightarrow> order_timing \<Rightarrow> block" where
  "effective_expiry created first t =
     (let hard_deadline = sat_add u32_max created (deadline_blocks t)
      in case first of
           Some f \<Rightarrow> min hard_deadline (sat_add u32_max f (block_wait t))
         | None \<Rightarrow> hard_deadline)"

definition is_expired :: "block \<Rightarrow> block \<Rightarrow> block option \<Rightarrow> order_timing \<Rightarrow> bool" where
  "is_expired now created first t \<longleftrightarrow> now \<ge> effective_expiry created first t"

lemma effective_expiry_le_deadline: "effective_expiry created first t \<le> sat_add u32_max created (deadline_blocks t)"
  by (auto simp: effective_expiry_def Let_def split: option.splits)

lemma effective_expiry_first_le: "effective_expiry created (Some f) t \<le> effective_expiry created None t"
  by (simp add: effective_expiry_def)

subsection \<open>Delivery\<close>

fun validate_delivery_mode :: "result_delivery \<Rightarrow> 'a job_mode \<Rightarrow> bool" where
  "validate_delivery_mode OnChainOnly m = True"
| "validate_delivery_mode (Callback e) Open = True"
| "validate_delivery_mode (Callback e) (Bid None (Some ts)) = True"
| "validate_delivery_mode (CallbackWithPoll e) (Bid (Some ms) None) = True"
| "validate_delivery_mode d m = False"

end
