(* ===== verification/Mempool_Rewards.thy ===== *)
theory Mempool_Rewards
  imports Mempool_Types
begin

text \<open>
  \<open>pallets/quantum-compute-mempool/src/rewards.rs\<close>: the incremental ranking of solvers and the three ways of
  splitting a reward. \<open>sort_by_key\<close> is stable, as \<open>sort_key\<close> is.
\<close>

subsection \<open>Ranking\<close>

fun improve_entry :: "'a ranked_solver \<Rightarrow> 'a ranked_solver list \<Rightarrow> 'a ranked_solver list option" where
  "improve_entry candidate [] = None"
| "improve_entry candidate (entry # rest) =
     (if solver entry = solver candidate
      then Some ((if rank_energy candidate < rank_energy entry then candidate else entry) # rest)
      else map_option (Cons entry) (improve_entry candidate rest))"

definition update_ranked_solvers ::
    "'a ranked_solver list \<Rightarrow> 'a ranked_solver \<Rightarrow> nat \<Rightarrow> 'a ranked_solver list" where
  "update_ranked_solvers current candidate limit =
     (let nxt = (case improve_entry candidate current of Some xs \<Rightarrow> xs | None \<Rightarrow> current @ [candidate])
      in take limit (sort_key rank_energy nxt))"

subsection \<open>Payouts\<close>

definition single_best_payouts :: "'a front_runner \<Rightarrow> u128 \<Rightarrow> ('a \<times> u128 \<times> i64) list" where
  "single_best_payouts front r = [(solver front, r, rank_energy front)]"

definition top_n_equal_payouts :: "'a ranked_solver list \<Rightarrow> u128 \<Rightarrow> ('a \<times> u128 \<times> i64) list" where
  "top_n_equal_payouts ranked r =
     (if ranked = [] then []
      else let len = length ranked; base = r div len; remainder = r mod len
           in map (\<lambda>(index, entry). (solver entry, base + (if index = 0 then remainder else 0), rank_energy entry))
                (enumerate 0 ranked))"

definition weighted_share :: "u128 \<Rightarrow> u128 \<Rightarrow> u128 \<Rightarrow> u128" where
  "weighted_share r total_weight weight =
     sat_add u128_max (sat_mul u128_max (r div total_weight) weight)
       (sat_mul u128_max (r mod total_weight) weight div total_weight)"

text \<open>The loop over the ranking: payouts so far and the sum distributed.\<close>

fun weighted_loop ::
    "u128 \<Rightarrow> u128 \<Rightarrow> u128 \<Rightarrow> nat \<Rightarrow> 'a ranked_solver list \<Rightarrow> u128 \<Rightarrow> ('a \<times> u128 \<times> i64) list \<times> u128" where
  "weighted_loop r cnt total_weight index [] distributed = ([], distributed)"
| "weighted_loop r cnt total_weight index (entry # rest) distributed =
     (let payout = weighted_share r total_weight (sat_sub cnt index);
          (payouts, distributed') = weighted_loop r cnt total_weight (index + 1) rest (sat_add u128_max distributed payout)
      in ((solver entry, payout, rank_energy entry) # payouts, distributed'))"

definition top_n_weighted_payouts :: "'a ranked_solver list \<Rightarrow> u128 \<Rightarrow> ('a \<times> u128 \<times> i64) list" where
  "top_n_weighted_payouts ranked r =
     (if ranked = [] then []
      else let cnt = length ranked;
               total_weight = sat_mul u128_max cnt (sat_add u128_max cnt 1) div 2;
               (payouts, distributed) = weighted_loop r cnt total_weight 0 ranked 0;
               remainder = sat_sub r distributed
           in case payouts of
                [] \<Rightarrow> []
              | (s, payout, e) # rest \<Rightarrow> (s, sat_add u128_max payout remainder, e) # rest)"

subsection \<open>The ranking keeps the best solvers\<close>

text \<open>
  What the ranking stands for, given each solver's best energy so far: the \<open>limit\<close> best solvers (all of
  them while there are fewer), in order, each with its own best energy.
\<close>

definition ranking_of :: "nat \<Rightarrow> ('a \<rightharpoonup> i64) \<Rightarrow> 'a ranked_solver list \<Rightarrow> bool" where
  "ranking_of limit best rs \<longleftrightarrow>
     sorted (map rank_energy rs) \<and> distinct (map solver rs) \<and>
     (\<forall>r \<in> set rs. best (solver r) = Some (rank_energy r)) \<and>
     length rs = min limit (card (dom best)) \<and> finite (dom best) \<and>
     (\<forall>s e. best s = Some e \<and> s \<notin> solver ` set rs \<longrightarrow> (\<forall>r \<in> set rs. rank_energy r \<le> e))"

lemma improve_entry_None: "improve_entry c rs = None \<longleftrightarrow> solver c \<notin> solver ` set rs"
  by (induction rs) auto

lemma improve_entry_Some:
  assumes "improve_entry c rs = Some rs'" "distinct (map solver rs)"
    and "\<And>r. r \<in> set rs \<Longrightarrow> solver r = solver c \<Longrightarrow> rank_energy c < rank_energy r"
  shows "map solver rs' = map solver rs \<and> set rs' = insert c {r \<in> set rs. solver r \<noteq> solver c}"
  using assms
proof (induction rs arbitrary: rs')
  case (Cons r rs)
  show ?case
  proof (cases "solver r = solver c")
    case True
    then have "solver x \<noteq> solver c" if "x \<in> set rs" for x
      using Cons.prems(2) that by (metis distinct.simps(2) image_eqI list.set_map list.simps(9))
    then show ?thesis using True Cons.prems by auto
  next
    case False
    then obtain ys where ys: "improve_entry c rs = Some ys" "rs' = r # ys" using Cons.prems(1) by auto
    then show ?thesis using Cons.IH [OF ys(1)] Cons.prems False by auto
  qed
qed simp

text \<open>The untruncated list after one submission: every ranked solver and the candidate, with their best energies.\<close>

lemma ranked_before_truncation:
  assumes r: "ranking_of limit best rs" and better: "\<And>e0. best (solver c) = Some e0 \<Longrightarrow> rank_energy c < e0"
  defines "xs \<equiv> (case improve_entry c rs of Some ys \<Rightarrow> ys | None \<Rightarrow> rs @ [c])"
  shows "distinct (map solver xs)" "set xs = insert c {r \<in> set rs. solver r \<noteq> solver c}"
proof -
  have rs: "distinct (map solver rs)" "\<And>r. r \<in> set rs \<Longrightarrow> best (solver r) = Some (rank_energy r)"
    using r by (auto simp: ranking_of_def)
  have "distinct (map solver xs) \<and> set xs = insert c {r \<in> set rs. solver r \<noteq> solver c}"
  proof (cases "improve_entry c rs")
    case None
    then have c: "solver c \<notin> solver ` set rs" by (simp add: improve_entry_None)
    then have "{r \<in> set rs. solver r \<noteq> solver c} = set rs" by (auto simp: image_iff)
    then show ?thesis using None rs(1) c by (simp add: xs_def)
  next
    case (Some ys)
    have "\<And>r. r \<in> set rs \<Longrightarrow> solver r = solver c \<Longrightarrow> rank_energy c < rank_energy r" using rs(2) better by metis
    from improve_entry_Some [OF Some rs(1) this] show ?thesis using Some rs by (simp add: xs_def)
  qed
  then show "distinct (map solver xs)" "set xs = insert c {r \<in> set rs. solver r \<noteq> solver c}" by blast+
qed

lemma take_sorted_le:
  assumes "sorted (map f xs)" "x \<in> set (take n xs)" "y \<in> set (drop n xs)" shows "f x \<le> f y"
proof -
  have "sorted (map f (take n xs) @ map f (drop n xs))" using assms(1) by (simp flip: map_append)
  then show ?thesis using assms(2,3) by (auto simp: sorted_append)
qed

text \<open>
  A sorted list \<open>s\<close> that holds the new best result \<open>c\<close> beside the other solvers' entries, cut to the limit.
\<close>

lemma ranking_cut_length:
  assumes r: "ranking_of limit best rs" and len: "length s = card (insert (solver c) (solver ` set rs))"
  shows "length (take limit s) = min limit (card (dom (best(solver c \<mapsto> e))))"
proof -
  have rs: "length rs = min limit (card (dom best))" "finite (dom best)" "card (solver ` set rs) = length rs" "solver ` set rs \<subseteq> dom best"
    using r distinct_card [of "map solver rs"] by (auto simp: ranking_of_def)
  show ?thesis
  proof (cases "card (dom best) \<le> limit")
    case True
    then have "card (solver ` set rs) = card (dom best)" using rs(1,3) by simp
    then have "solver ` set rs = dom best" using rs(2,4) card_subset_eq by blast
    then show ?thesis using len by (simp add: min.commute)
  next
    case False
    then have "card (solver ` set rs) = limit" using rs(1,3) by simp
    moreover have "card (solver ` set rs) \<le> card (insert (solver c) (solver ` set rs))" by (intro card_mono) auto
    moreover have "card (dom best) \<le> card (dom (best(solver c \<mapsto> e)))" using rs(2) by (intro card_mono) auto
    ultimately show ?thesis using len False by simp
  qed
qed

lemma ranking_cut_below:
  assumes r: "ranking_of limit best rs" and better: "\<And>e0. best (solver c) = Some e0 \<Longrightarrow> rank_energy c < e0"
    and s: "sorted (map rank_energy s)" "distinct (map solver s)" "set s = insert c {r \<in> set rs. solver r \<noteq> solver c}"
    and q: "best q = Some e" "q \<notin> solver ` set rs" and kept: "r \<in> set (take limit s)"
  shows "rank_energy r \<le> e"
proof -
  have rs: "length rs = min limit (card (dom best))" "finite (dom best)" "card (solver ` set rs) = length rs"
    "\<And>r. r \<in> set rs \<Longrightarrow> best (solver r) = Some (rank_energy r)" "\<And>r. r \<in> set rs \<Longrightarrow> rank_energy r \<le> e"
    using r q distinct_card [of "map solver rs"] by (auto simp: ranking_of_def)
  have "solver ` set rs \<subset> dom best" using q rs(4) by auto
  then have "card (solver ` set rs) < card (dom best)" using rs(2) by (rule psubset_card_mono [rotated])
  then have full: "card (solver ` set rs) = limit" using rs(1,3) by simp
  consider "r \<in> set rs" | y where "r = c" "y \<in> set rs" "solver y = solver c" | "r = c" "solver c \<notin> solver ` set rs"
  proof -
    have "r = c \<or> r \<in> set rs" using in_set_takeD [OF kept] s(3) by auto
    then show thesis using that by (metis imageE)
  qed
  then show ?thesis
  proof cases
    case (2 y)
    then show ?thesis using better [of "rank_energy y"] rs(4,5) [of y] by simp
  next
    case 3
    have "solver ` set s = insert (solver c) (solver ` set rs)" using s(3) by auto
    then have "length s = Suc limit" using 3(2) full distinct_card [OF s(2)] by simp
    then obtain y where y: "y \<in> set (drop limit s)"
      by (metis drop_eq_Nil list.set_intros(1) neq_Nil_conv not_less_eq_eq order_refl)
    have "distinct s" using s(2) by (simp add: distinct_map)
    then have "y \<noteq> c" using kept 3(1) y by (meson disjoint_iff order_refl set_take_disj_set_drop_if_distinct)
    then have "y \<in> set rs" using in_set_dropD [OF y] s(3) by auto
    moreover have "rank_energy r \<le> rank_energy y" using kept y by (intro take_sorted_le [OF s(1)])
    ultimately show ?thesis using rs(5) by fastforce
  qed (rule rs(5))
qed

lemma update_ranked_solvers_ok:
  assumes r: "ranking_of limit best rs" and better: "\<And>e0. best (solver c) = Some e0 \<Longrightarrow> rank_energy c < e0"
  shows "ranking_of limit (best(solver c \<mapsto> rank_energy c)) (update_ranked_solvers rs c limit)"
proof -
  define xs where "xs = (case improve_entry c rs of Some ys \<Rightarrow> ys | None \<Rightarrow> rs @ [c])"
  let ?s = "sort_key rank_energy xs" and ?best = "best(solver c \<mapsto> rank_energy c)"
  note xs = ranked_before_truncation [OF r better, folded xs_def]
  have u: "update_ranked_solvers rs c limit = take limit ?s" by (simp add: update_ranked_solvers_def xs_def)
  have d: "distinct (map solver ?s)" using xs(1) by (metis distinct_map distinct_sort set_sort)
  have b: "?best (solver r) = Some (rank_energy r)" if "r \<in> set ?s" for r using that xs(2) r by (auto simp: ranking_of_def)
  have sol: "solver ` set ?s = insert (solver c) (solver ` set rs)" using xs(2) by auto
  have "length ?s = card (insert (solver c) (solver ` set rs))" using d sol distinct_card [of "map solver ?s"] by simp
  then have "length (take limit ?s) = min limit (card (dom ?best))" by (rule ranking_cut_length [OF r])
  moreover have "rank_energy r' \<le> e" if q: "?best q = Some e" "q \<notin> solver ` set (take limit ?s)" and r': "r' \<in> set (take limit ?s)" for q e r'
  proof (cases "q \<in> solver ` set ?s")
    case True
    then obtain y where y: "y \<in> set ?s" "solver y = q" by blast
    then have "y \<in> set (drop limit ?s)" using q(2) by (metis UnE append_take_drop_id image_eqI set_append)
    then have "rank_energy r' \<le> rank_energy y" using r' by (intro take_sorted_le [OF sorted_sort_key])
    then show ?thesis using b [OF y(1)] y(2) q(1) by simp
  next
    case False
    then have "best q = Some e" "q \<notin> solver ` set rs" using sol q(1) by auto
    then show ?thesis using ranking_cut_below [OF r better sorted_sort_key d _ _ _ r'] xs(2) by simp
  qed
  moreover have "sorted (map rank_energy (take limit ?s))" "distinct (map solver (take limit ?s))"
    using d by (simp_all add: take_map [symmetric] sorted_wrt_take distinct_take)
  moreover have "?best (solver r) = Some (rank_energy r)" if "r \<in> set (take limit ?s)" for r
    using b in_set_takeD [OF that] by blast
  ultimately show ?thesis unfolding ranking_of_def u using r by (intro conjI ballI allI impI) (auto simp: ranking_of_def)
qed

subsection \<open>Every payout rule distributes exactly the reward\<close>

abbreviation (input) amounts :: "('a \<times> u128 \<times> i64) list \<Rightarrow> u128 list" where
  "amounts ps \<equiv> map (fst \<circ> snd) ps"

text \<open>A split is fair for a ranking: its solvers in order, amounts that never grow with the rank, in total the reward.\<close>

definition fair_split :: "'a ranked_solver list \<Rightarrow> u128 \<Rightarrow> ('a \<times> u128 \<times> i64) list \<Rightarrow> bool" where
  "fair_split rs r ps \<longleftrightarrow>
     map fst ps = map solver rs \<and> map (snd \<circ> snd) ps = map rank_energy rs \<and>
     sum_list (amounts ps) = r \<and> sorted_wrt (\<ge>) (amounts ps)"

lemma weighted_share_exact:
  assumes "r \<le> u128_max" "0 < T" "w \<le> T" "T * T \<le> u128_max"
  shows "weighted_share r T w = w * r div T" "w * r div T \<le> r"
proof -
  have split: "w * r div T = w * (r div T) + w * (r mod T) div T" by (rule mult_div_split) (fact assms(2))
  have le: "w * r div T \<le> T * r div T" using assms(3) by (intro div_le_mono mult_le_mono1)
  then show ler: "w * r div T \<le> r" using assms(2) by simp
  have "(r mod T) * w \<le> T * T" using assms(2,3) by (intro mult_le_mono) (simp_all add: less_imp_le)
  then have "(r mod T) * w \<le> u128_max" using assms(4) by linarith
  moreover have "(r div T) * w \<le> u128_max" using split ler assms(1) by (simp add: mult.commute)
  ultimately show "weighted_share r T w = w * r div T"
    using split ler assms(1) by (simp add: weighted_share_def sat_mul_def sat_add_def mult.commute)
qed

lemma weighted_loop_exact:
  assumes "\<And>w. w \<le> cnt \<Longrightarrow> weighted_share r T w = w * r div T" "index + length rs = cnt"
    and "d + sum_list (map (\<lambda>i. (cnt - i) * r div T) [index..<cnt]) \<le> u128_max"
  shows "weighted_loop r cnt T index rs d =
    (map (\<lambda>(i, e). (solver e, (cnt - i) * r div T, rank_energy e)) (enumerate index rs),
     d + sum_list (map (\<lambda>i. (cnt - i) * r div T) [index..<cnt]))"
  using assms(2,3)
proof (induction rs arbitrary: index d)
  case (Cons e rs)
  have "[index..<cnt] = index # [Suc index..<cnt]" using Cons.prems(1) by (simp add: upt_conv_Cons)
  then show ?case using Cons.IH [of "Suc index" "d + (cnt - index) * r div T"] Cons.prems assms(1) [of "cnt - index"]
    by (simp add: Let_def sat_add_def ac_simps)
qed simp

lemma sum_weights: "sum_list (map (\<lambda>i. cnt - i) [0..<cnt]) = cnt * (cnt + 1) div 2"
proof (induction cnt)
  case (Suc n)
  have "[0..<Suc n] = 0 # map Suc [0..<n]" by (simp add: map_Suc_upt upt_conv_Cons del: upt_Suc)
  then have "sum_list (map (\<lambda>i. Suc n - i) [0..<Suc n]) = Suc n + sum_list (map (\<lambda>i. n - i) [0..<n])"
    by (simp add: comp_def del: upt_Suc)
  then show ?case using Suc by simp
qed simp

lemma indexed_split:
  "map fst (map (\<lambda>(i, e). (solver e, f i, rank_energy e)) (enumerate k rs)) = map solver rs"
  "map (snd \<circ> snd) (map (\<lambda>(i, e). (solver e, f i, rank_energy e)) (enumerate k rs)) = map rank_energy rs"
  "amounts (map (\<lambda>(i, e). (solver e, f i, rank_energy e)) (enumerate k rs)) = map f [k..<k + length rs]"
  by (induction rs arbitrary: k) (simp_all add: upt_conv_Cons del: upt_Suc)

lemma fair_split_add_head:
  assumes "map fst ((s, p, e) # ps) = map solver rs" "map (snd \<circ> snd) ((s, p, e) # ps) = map rank_energy rs"
    and "sorted_wrt (\<ge>) (amounts ((s, p, e) # ps))" "sum_list (amounts ((s, p, e) # ps)) + d = r"
  shows "fair_split rs r ((s, p + d, e) # ps)"
  using assms by (auto simp: fair_split_def)

lemma top_n_weighted_payouts_fair:
  assumes "rs \<noteq> []" "length rs \<le> MAX_REWARD_WINNERS" "r \<le> u128_max"
  shows "fair_split rs r (top_n_weighted_payouts rs r)"
proof -
  let ?n = "length rs" and ?T = "length rs * (length rs + 1) div 2"
  have n: "0 < ?n" "?n \<le> 32" using assms(1,2) by (simp_all add: MAX_REWARD_WINNERS_def)
  have "?n * (?n + 1) \<le> 32 * 33" using n(2) by (intro mult_le_mono) simp_all
  then have T2: "?T \<le> 528" by simp
  have T: "0 < ?T" "?n \<le> ?T"
  proof -
    have "2 * ?n \<le> ?n * (?n + 1)" using n(1) by (metis Suc_eq_plus1 Suc_leI add_2_eq_Suc' mult.commute mult_le_mono2 not_less_eq_eq numeral_2_eq_2 plus_1_eq_Suc)
    then show "?n \<le> ?T" by linarith
    then show "0 < ?T" using n(1) by linarith
  qed
  have "?T * ?T \<le> 528 * 528" using T2 by (intro mult_le_mono)
  then have TT: "?T * ?T \<le> u128_max" by (simp add: u128_max_def)
  have tw: "sat_mul u128_max ?n (sat_add u128_max ?n 1) div 2 = ?T"
    using n(2) \<open>?n * (?n + 1) \<le> 32 * 33\<close> by (simp add: sat_mul_def sat_add_def u128_max_def)
  have share: "weighted_share r ?T w = w * r div ?T" if "w \<le> ?n" for w
    by (rule weighted_share_exact(1) [OF assms(3) T(1) _ TT]) (use that T(2) in linarith)
  let ?d = "sum_list (map (\<lambda>i. (?n - i) * r div ?T) [0..<?n])"
  have "?d \<le> sum_list (map (\<lambda>i. ?n - i) [0..<?n]) * r div ?T" by (rule sum_floors_le)
  then have d: "?d \<le> r" using T(1) by (simp add: sum_weights)
  let ?ps = "map (\<lambda>(i, e). (solver e, (?n - i) * r div ?T, rank_energy e)) (enumerate 0 rs)"
  have loop: "weighted_loop r ?n ?T 0 rs 0 = (?ps, ?d)"
    using weighted_loop_exact [of ?n r ?T 0 rs 0] share d assms(3) by simp
  obtain e0 rest where rs: "rs = e0 # rest" using assms(1) by (cases rs) auto
  obtain p ps where ps: "?ps = (solver e0, p, rank_energy e0) # ps" by (simp add: rs)
  have ix: "map fst ?ps = map solver rs" "map (snd \<circ> snd) ?ps = map rank_energy rs"
    "amounts ?ps = map (\<lambda>i. (?n - i) * r div ?T) [0..<?n]"
    using indexed_split [of "\<lambda>i. (?n - i) * r div ?T" 0 rs] by simp_all
  have "sorted_wrt (\<ge>) (amounts ?ps)" unfolding ix(3)
    by (auto simp: sorted_wrt_map sorted_wrt_upt intro!: sorted_wrt_mono_rel [OF _ sorted_wrt_upt] div_le_mono mult_le_mono1)
  moreover have "sum_list (amounts ?ps) + (r - ?d) = r" unfolding ix(3) using d by simp
  ultimately have "fair_split rs r ((solver e0, p + (r - ?d), rank_energy e0) # ps)"
    using ix(1,2) unfolding ps by (intro fair_split_add_head)
  moreover have "p + (r - ?d) \<le> u128_max"
    using \<open>sum_list (amounts ?ps) + (r - ?d) = r\<close> assms(3) unfolding ps by simp
  moreover have "top_n_weighted_payouts rs r = (solver e0, sat_add u128_max p (sat_sub r ?d), rank_energy e0) # ps"
    unfolding top_n_weighted_payouts_def Let_def tw loop [unfolded ps] using assms(1) by simp
  ultimately show ?thesis by (simp add: sat_add_def)
qed

lemma top_n_equal_payouts_fair:
  assumes "rs \<noteq> []" shows "fair_split rs r (top_n_equal_payouts rs r)"
proof -
  let ?n = "length rs" and ?f = "\<lambda>i. r div length rs + (if i = 0 then r mod length rs else 0)"
  have up: "[0..<?n] = 0 # [1..<?n]" using assms by (simp add: upt_conv_Cons)
  have "map ?f [1..<?n] = map (\<lambda>_. r div ?n) [1..<?n]" by auto
  then have m: "map ?f [0..<?n] = (r div ?n + r mod ?n) # replicate (?n - 1) (r div ?n)"
    using up by (simp add: map_replicate_const)
  have "r div ?n + r mod ?n + (?n - 1) * (r div ?n) = r mod ?n + ?n * (r div ?n)"
    using assms by (cases rs) simp_all
  then have "sum_list (map ?f [0..<?n]) = r" unfolding m by (simp add: sum_list_replicate)
  moreover have "sorted_wrt (\<ge>) (map ?f [0..<?n])" unfolding m by (auto simp: sorted_wrt_iff_nth_less nth_Cons')
  ultimately show ?thesis
    using indexed_split [of ?f 0 rs] assms by (simp add: top_n_equal_payouts_def fair_split_def Let_def)
qed

text \<open>
  whichever resolution an order asks for, the payouts go to the ranked solvers in order, add up to
  exactly the reward, never pay a worse rank more, and never exceed the integer range.
\<close>

theorem payouts_split_reward:
  assumes "rs \<noteq> []" "length rs \<le> MAX_REWARD_WINNERS" "r \<le> u128_max"
  shows "fair_split [hd rs] r (single_best_payouts (hd rs) r) \<and>
    fair_split rs r (top_n_equal_payouts rs r) \<and> fair_split rs r (top_n_weighted_payouts rs r)"
  using top_n_equal_payouts_fair [OF assms(1)] top_n_weighted_payouts_fair [OF assms]
  by (simp add: fair_split_def single_best_payouts_def)

definition demo_ranking :: "nat ranked_solver list" where
  "demo_ranking = [\<lparr>solver = 1, rank_energy = -5\<rparr>, \<lparr>solver = 2, rank_energy = -5\<rparr>, \<lparr>solver = 3, rank_energy = 0\<rparr>,
     \<lparr>solver = 4, rank_energy = 7\<rparr>, \<lparr>solver = 5, rank_energy = 9\<rparr>]"

theorem payouts_split_reward_witness:
  "sum_list (amounts (top_n_weighted_payouts demo_ranking 1000)) = 1000 \<and>
   sorted_wrt (\<ge>) (amounts (top_n_weighted_payouts demo_ranking 1000))"
  using payouts_split_reward [of demo_ranking 1000]
  by (simp add: demo_ranking_def MAX_REWARD_WINNERS_def u128_max_def fair_split_def)

end
