(* ===== verification/Mempool_Selection.thy ===== *)
theory Mempool_Selection
  imports Diversity
begin

text \<open>
  \<open>pallets/quantum-compute-mempool/src/selection.rs\<close>: the diverse selection anchored at the best solution. The
  outer \<open>None\<close> is a panic (an index out of range or the \<open>expect\<close> on the next candidate).
\<close>

text \<open>One pass over the candidates: distances to the last selected solution folded in, and the first candidate
  with the greatest distance so far.\<close>

fun scan_pass ::
    "i8 list list \<Rightarrow> usize \<Rightarrow> bool list \<Rightarrow> usize list \<Rightarrow> u32 list \<Rightarrow> usize option \<Rightarrow>
     validation_error + (u32 list \<times> usize option)" where
  "scan_pass solutions lst chosen [] distances nxt = Inr (distances, nxt)"
| "scan_pass solutions lst chosen (candidate # rest) distances nxt =
     (if chosen ! candidate then scan_pass solutions lst chosen rest distances nxt
      else and_then (symmetric_hamming (solutions ! candidate) (solutions ! lst)) (\<lambda>d.
        let distances' = distances[candidate := min (distances ! candidate) d];
            nxt' = (case nxt of
                      None \<Rightarrow> Some candidate
                    | Some i \<Rightarrow> if distances' ! candidate > distances' ! i then Some candidate else nxt)
        in scan_pass solutions lst chosen rest distances' nxt'))"

function select_from_loop ::
    "i8 list list \<Rightarrow> usize \<Rightarrow> usize list \<Rightarrow> bool list \<Rightarrow> u32 list \<Rightarrow> (validation_error + usize list) option" where
  "select_from_loop solutions bound selected chosen distances =
     (if length selected < bound
      then case scan_pass solutions (last selected) chosen [0..<length solutions] distances None of
             Inl e \<Rightarrow> Some (Inl e)
           | Inr (distances', None) \<Rightarrow> None
           | Inr (distances', Some nxt) \<Rightarrow>
               select_from_loop solutions bound (selected @ [nxt]) (chosen[nxt := True]) distances'
      else Some (Inr selected))"
  by pat_completeness auto
termination by (relation "measure (\<lambda>(_, bound, selected, _, _). bound - length selected)") auto

definition select_from_best ::
    "i8 list list \<Rightarrow> usize \<Rightarrow> usize \<Rightarrow> (validation_error + usize list) option" where
  "select_from_best solutions best target =
     (if best < length solutions
      then select_from_loop solutions (min (max target 1) (length solutions)) [best]
             ((replicate (length solutions) False)[best := True]) (replicate (length solutions) u32_max)
      else None)"

declare select_from_loop.simps [simp del]

subsection \<open>One pass\<close>

definition distance_to :: "i8 list list \<Rightarrow> usize list \<Rightarrow> usize \<Rightarrow> nat" where
  "distance_to ss sel c = Min ((\<lambda>s. symmetric_hamming_validated (ss ! c) (ss ! s)) ` set sel)"

text \<open>The first candidate below \<open>k\<close> that is not chosen and farthest away.\<close>

definition first_farthest :: "nat \<Rightarrow> bool list \<Rightarrow> u32 list \<Rightarrow> usize option \<Rightarrow> bool" where
  "first_farthest k chosen ds nxt \<longleftrightarrow>
     (case nxt of
        None \<Rightarrow> \<forall>c<k. chosen ! c
      | Some b \<Rightarrow> b < k \<and> \<not> chosen ! b \<and>
          (\<forall>c<k. \<not> chosen ! c \<longrightarrow> ds ! c \<le> ds ! b \<and> (c < b \<longrightarrow> ds ! c < ds ! b)))"

lemma symmetric_hamming_ok:
  assumes "validate_solution_set ss n" "i < length ss" "j < length ss"
  shows "symmetric_hamming (ss ! i) (ss ! j) = Inr (symmetric_hamming_validated (ss ! i) (ss ! j))"
    "symmetric_hamming_validated (ss ! i) (ss ! j) \<le> n"
proof -
  have v: "length (ss ! i) = n" "length (ss ! j) = n" "validate_spins (ss ! i)" "validate_spins (ss ! j)"
    using assms by (auto simp: validate_solution_set_def list_all_length)
  show "symmetric_hamming (ss ! i) (ss ! j) = Inr (symmetric_hamming_validated (ss ! i) (ss ! j))"
    using v by (simp add: symmetric_hamming_def)
  show "symmetric_hamming_validated (ss ! i) (ss ! j) \<le> n"
    using hamming_half [of "ss ! i" "ss ! j"] v by linarith
qed

lemma scan_pass_spec:
  assumes "validate_solution_set ss n" "lst < length ss" "length chosen = length ss"
    and "length ds = length ss" "k \<le> length ss" "first_farthest k chosen ds nxt"
  shows "\<exists>ds' nxt'. scan_pass ss lst chosen [k..<length ss] ds nxt = Inr (ds', nxt') \<and> length ds' = length ss \<and>
    first_farthest (length ss) chosen ds' nxt' \<and>
    (\<forall>c<length ss. ds' ! c = (if k \<le> c \<and> \<not> chosen ! c
       then min (ds ! c) (symmetric_hamming_validated (ss ! c) (ss ! lst)) else ds ! c))"
  using assms(4-6)
proof (induction "length ss - k" arbitrary: k ds nxt)
  case 0
  then show ?case by auto
next
  case (Suc m)
  then have k: "k < length ss" "[k..<length ss] = k # [Suc k..<length ss]" by (simp_all add: upt_conv_Cons)
  let ?d = "symmetric_hamming_validated (ss ! k) (ss ! lst)"
  show ?case
  proof (cases "chosen ! k")
    case True
    have "first_farthest (Suc k) chosen ds nxt"
      using Suc.prems(3) True by (auto simp: first_farthest_def less_Suc_eq split: option.splits)
    from Suc.hyps(1) [OF _ _ _ this] Suc.hyps(2) Suc.prems(1) k show ?thesis
      using True by (fastforce simp: Suc_le_eq le_less)
  next
    case False
    let ?ds = "ds[k := min (ds ! k) ?d]"
    define nxt' where "nxt' = (case nxt of None \<Rightarrow> Some k | Some i \<Rightarrow> if ?ds ! k > ?ds ! i then Some k else nxt)"
    have "first_farthest (Suc k) chosen ?ds nxt'"
      using Suc.prems False k by (fastforce simp: first_farthest_def nxt'_def less_Suc_eq split: option.splits)
    moreover have "m = length ss - Suc k" using Suc.hyps(2) by simp
    ultimately obtain ds' n' where
      s: "scan_pass ss lst chosen [Suc k..<length ss] ?ds nxt' = Inr (ds', n')" "length ds' = length ss"
      "first_farthest (length ss) chosen ds' n'"
      "\<forall>c<length ss. ds' ! c = (if Suc k \<le> c \<and> \<not> chosen ! c
         then min (?ds ! c) (symmetric_hamming_validated (ss ! c) (ss ! lst)) else ?ds ! c)"
      using Suc.hyps(1) [of "Suc k" ?ds nxt'] Suc.prems(1) k(1) by auto
    have "scan_pass ss lst chosen [k..<length ss] ds nxt = Inr (ds', n')"
      using s(1) False k symmetric_hamming_ok(1) [OF assms(1) k(1) assms(2)] by (simp add: Let_def nxt'_def)
    moreover have "ds' ! c = (if k \<le> c \<and> \<not> chosen ! c
         then min (ds ! c) (symmetric_hamming_validated (ss ! c) (ss ! lst)) else ds ! c)" if "c < length ss" for c
      using s(4) that False Suc.prems(1) k by (cases "c = k") (auto simp: nth_list_update)
    ultimately show ?thesis using s(2,3) by blast
  qed
qed

subsection \<open>The greedy selection\<close>

text \<open>Every later element is, among the solutions not yet selected, the first one farthest from them.\<close>

definition anchored_greedy :: "i8 list list \<Rightarrow> usize list \<Rightarrow> bool" where
  "anchored_greedy ss sel \<longleftrightarrow>
     (\<forall>k. 0 < k \<and> k < length sel \<longrightarrow>
        (\<forall>c < length ss. c \<notin> set (take k sel) \<longrightarrow>
           distance_to ss (take k sel) c \<le> distance_to ss (take k sel) (sel ! k) \<and>
           (c < sel ! k \<longrightarrow> distance_to ss (take k sel) c < distance_to ss (take k sel) (sel ! k))))"

definition select_inv :: "i8 list list \<Rightarrow> usize list \<Rightarrow> bool list \<Rightarrow> u32 list \<Rightarrow> bool" where
  "select_inv ss sel chosen ds \<longleftrightarrow>
     sel \<noteq> [] \<and> distinct sel \<and> set sel \<subseteq> {..<length ss} \<and> length chosen = length ss \<and> length ds = length ss \<and>
     (\<forall>c<length ss. chosen ! c \<longleftrightarrow> c \<in> set sel) \<and>
     (\<forall>c<length ss. c \<notin> set sel \<longrightarrow> ds ! c = (if butlast sel = [] then u32_max else distance_to ss (butlast sel) c)) \<and>
     anchored_greedy ss sel"

lemma distance_to_last:
  assumes "sel \<noteq> []" "butlast sel \<noteq> []"
  shows "distance_to ss sel c = min (distance_to ss (butlast sel) c) (symmetric_hamming_validated (ss ! c) (ss ! last sel))"
proof -
  have "set sel = insert (last sel) (set (butlast sel))" using assms(1) by (metis append_butlast_last_id list.set(1,2) set_append sup_commute Un_insert_left sup_bot_left)
  then show ?thesis using assms(2) by (simp add: distance_to_def Min_insert min.commute)
qed

lemma distance_to_single: "distance_to ss [s] c = symmetric_hamming_validated (ss ! c) (ss ! s)"
  by (simp add: distance_to_def)

lemma anchored_greedy_snoc:
  assumes "anchored_greedy ss sel" "sel \<noteq> []"
    and "\<And>c. c < length ss \<Longrightarrow> c \<notin> set sel \<Longrightarrow> distance_to ss sel c \<le> distance_to ss sel b \<and> (c < b \<longrightarrow> distance_to ss sel c < distance_to ss sel b)"
  shows "anchored_greedy ss (sel @ [b])"
  using assms unfolding anchored_greedy_def
  by (auto simp: nth_append less_Suc_eq split: if_splits)

lemma select_step:
  assumes v: "validate_solution_set ss n" "n \<le> u32_max" and inv: "select_inv ss sel chosen ds" and room: "length sel < length ss"
  obtains b ds' where "scan_pass ss (last sel) chosen [0..<length ss] ds None = Inr (ds', Some b)"
    "select_inv ss (sel @ [b]) (chosen[b := True]) ds'"
proof -
  let ?N = "length ss"
  have i: "sel \<noteq> []" "distinct sel" "set sel \<subseteq> {..<?N}" "length chosen = ?N" "length ds = ?N"
    "\<And>c. c < ?N \<Longrightarrow> chosen ! c \<longleftrightarrow> c \<in> set sel" "anchored_greedy ss sel"
    "\<And>c. c < ?N \<Longrightarrow> c \<notin> set sel \<Longrightarrow> ds ! c = (if butlast sel = [] then u32_max else distance_to ss (butlast sel) c)"
    using inv by (auto simp: select_inv_def)
  have lst: "last sel < ?N" using i(1,3) last_in_set by blast
  obtain ds' nxt where s: "scan_pass ss (last sel) chosen [0..<?N] ds None = Inr (ds', nxt)" "length ds' = ?N"
    "first_farthest ?N chosen ds' nxt"
    "\<And>c. c < ?N \<Longrightarrow> ds' ! c = (if \<not> chosen ! c then min (ds ! c) (symmetric_hamming_validated (ss ! c) (ss ! last sel)) else ds ! c)"
    using scan_pass_spec [OF v(1) lst i(4,5), of 0 None] by (auto simp: first_farthest_def)
  have d: "ds' ! c = distance_to ss sel c" if c: "c < ?N" "c \<notin> set sel" for c
  proof (cases "butlast sel = []")
    case True
    then have "sel = [last sel]" using i(1) by (metis append_butlast_last_id append_Nil)
    then show ?thesis using s(4) [OF c(1)] i(6,8) [OF c(1)] c(2) True symmetric_hamming_ok(2) [OF v(1) c(1) lst] v(2)
      by (metis distance_to_single le_trans min_absorb2)
  next
    case False
    then show ?thesis using s(4) [OF c(1)] i(6,8) [OF c(1)] c(2) distance_to_last [OF i(1) False] by simp
  qed
  have "nxt \<noteq> None"
  proof
    assume "nxt = None"
    then have "{..<?N} \<subseteq> set sel" using s(3) i(6) by (auto simp: first_farthest_def)
    then have "?N \<le> length sel" using card_mono [of "set sel" "{..<?N}"] card_length [of sel] by simp
    then show False using room by simp
  qed
  then obtain b where b: "nxt = Some b" by blast
  then have bs: "b < ?N" "b \<notin> set sel" "\<And>c. c < ?N \<Longrightarrow> c \<notin> set sel \<Longrightarrow> ds' ! c \<le> ds' ! b \<and> (c < b \<longrightarrow> ds' ! c < ds' ! b)"
    using s(3) i(6) by (auto simp: first_farthest_def)
  have "anchored_greedy ss (sel @ [b])" by (rule anchored_greedy_snoc [OF i(7,1)]) (use bs d in metis)
  then have "select_inv ss (sel @ [b]) (chosen[b := True]) ds'"
    unfolding select_inv_def using i bs s(2) d by (auto simp: nth_list_update)
  then show ?thesis using that s(1) b by blast
qed

lemma select_from_loop_spec:
  assumes v: "validate_solution_set ss n" "n \<le> u32_max" and "select_inv ss sel chosen ds" "length sel \<le> bound" "bound \<le> length ss"
  shows "\<exists>sel'. select_from_loop ss bound sel chosen ds = Some (Inr sel') \<and> length sel' = bound \<and> hd sel' = hd sel \<and>
    distinct sel' \<and> set sel' \<subseteq> {..<length ss} \<and> anchored_greedy ss sel'"
  using assms(3-5)
proof (induction "bound - length sel" arbitrary: sel chosen ds)
  case 0
  then show ?case by (simp add: select_from_loop.simps select_inv_def)
next
  case (Suc k)
  then have room: "length sel < bound" "length sel < length ss" by auto
  obtain b ds' where s: "scan_pass ss (last sel) chosen [0..<length ss] ds None = Inr (ds', Some b)"
    "select_inv ss (sel @ [b]) (chosen[b := True]) ds'"
    by (rule select_step [OF v Suc.prems(1) room(2)])
  have "hd (sel @ [b]) = hd sel" using Suc.prems(1) by (simp add: select_inv_def)
  moreover have "select_from_loop ss bound sel chosen ds = select_from_loop ss bound (sel @ [b]) (chosen[b := True]) ds'"
    using room s(1) by (subst select_from_loop.simps) simp
  ultimately show ?case using Suc.hyps(1) [OF _ s(2)] Suc.hyps(2) Suc.prems(3) room(1) by simp
qed

lemma select_from_best_ok:
  assumes "validate_solution_set ss n" "n \<le> u32_max" "best < length ss"
  shows "\<exists>sel. select_from_best ss best target = Some (Inr sel) \<and> length sel = min (max target 1) (length ss) \<and>
    hd sel = best \<and> distinct sel \<and> set sel \<subseteq> {..<length ss} \<and> anchored_greedy ss sel"
proof -
  have "select_inv ss [best] ((replicate (length ss) False)[best := True]) (replicate (length ss) u32_max)"
    using assms(3) by (auto simp: select_inv_def anchored_greedy_def nth_list_update)
  moreover have "length [best] \<le> min (max target 1) (length ss)" using assms(3) by (cases ss) auto
  ultimately show ?thesis
    using select_from_loop_spec [OF assms(1,2), of "[best]" _ _ "min (max target 1) (length ss)"] assms(3)
    by (simp add: select_from_best_def)
qed

text \<open>
  C20: on valid solutions the selection never panics or fails: it returns the requested number of distinct
  solutions (at least one, at most all), the best one first, and each further one is the first of
  those farthest from the ones already selected.
\<close>

theorem select_from_best_greedy:
  assumes "validate_solution_set ss n" "n \<le> u32_max" "best < length ss"
  shows "\<exists>sel. select_from_best ss best target = Some (Inr sel) \<and> length sel = min (max target 1) (length ss) \<and>
    hd sel = best \<and> distinct sel \<and> set sel \<subseteq> {..<length ss} \<and> anchored_greedy ss sel"
  by (rule select_from_best_ok [OF assms])

theorem select_from_best_greedy_witness:
  "\<exists>sel. select_from_best [[1, 1, 1, 1], [1, 1, 1, -1], [1, 1, -1, -1]] 1 2 = Some (Inr sel) \<and> length sel = 2 \<and> hd sel = 1"
  using select_from_best_greedy [of "[[1, 1, 1, 1], [1, 1, 1, -1], [1, 1, -1, -1]]" 4 1 2]
  by (auto simp: validate_solution_set_def is_spin_def u32_max_def)

end
