(* ===== verification/Mempool_Vm.thy ===== *)
theory Mempool_Vm
  imports Mempool_Types
begin

text \<open>
  \<open>pallets/quantum-compute-mempool/src/xqvm.rs\<close>: the adapter that runs a registered transform program on the
  submitted spins. The virtual machine is a third-party crate: decoding, verification and one execution
  (its result, the steps it used and its outputs) are parameters.
\<close>

datatype vm_error = StepLimitExceeded | MemoryLimitExceeded | OtherVmError

datatype reg_val = VecInt "int list" | OtherVal nat

record 'p vm_ops =
  program_source :: "mhash \<Rightarrow> bytes option"
  decode_program :: "bytes \<Rightarrow> 'p option"
  verify_program :: "'p \<Rightarrow> bool"
  run_program :: "u64 \<Rightarrow> u64 \<Rightarrow> 'p \<Rightarrow> int list \<Rightarrow> (vm_error + unit) \<times> u64 \<times> reg_val list"
  max_vm_memory :: u64
  max_transform_steps :: u64

record transform_outcome =
  outcome_result :: "mempool_error dispatch_error + i8 list list"
  steps_used :: u64

subsection \<open>The adapter\<close>

fun check_programs :: "'p vm_ops \<Rightarrow> mhash list \<Rightarrow> mempool_error dispatch_error + unit" where
  "check_programs v [] = Inr ()"
| "check_programs v (h # rest) =
     and_then (ok_or (program_source v h) (Module VmProgramNotFound)) (\<lambda>bytes.
     and_then (ok_or (decode_program v bytes) (Module VmBadBytecode)) (\<lambda>program.
     ensure (verify_program v program) (Module VmVerificationFailed)
       (check_programs v rest)))"

definition validate_programs ::
    "'p vm_ops \<Rightarrow> mhash option \<Rightarrow> mhash option \<Rightarrow> mempool_error dispatch_error + unit" where
  "validate_programs v validation transform =
     check_programs v ((case validation of Some h \<Rightarrow> [h] | None \<Rightarrow> []) @ (case transform of Some h \<Rightarrow> [h] | None \<Rightarrow> []))"

definition vm_failure :: "vm_error \<Rightarrow> mempool_error" where
  "vm_failure e =
     (case e of StepLimitExceeded \<Rightarrow> VmStepLimitExceeded | MemoryLimitExceeded \<Rightarrow> VmMemoryLimitExceeded
      | OtherVmError \<Rightarrow> VmExecutionFailed)"

text \<open>The loop over the solutions: the steps used so far are returned with every result.\<close>

fun transform_loop ::
    "'p vm_ops \<Rightarrow> 'p \<Rightarrow> i8 list list \<Rightarrow> u64 \<Rightarrow> i8 list list \<Rightarrow> (mempool_error dispatch_error + i8 list list) \<times> u64" where
  "transform_loop v program [] steps acc = (Inr acc, steps)"
| "transform_loop v program (solution # rest) steps acc =
     (let remaining = sat_sub (max_transform_steps v) steps
      in if remaining = 0 then (Inl (Module VmStepLimitExceeded), steps)
         else let (result, used, outputs) = run_program v (max_vm_memory v) remaining program solution;
                  steps' = sat_add u64_max steps used
              in case result of
                   Inl e \<Rightarrow> (Inl (Module (vm_failure e)), steps')
                 | Inr _ \<Rightarrow>
                     (case outputs of
                        [VecInt spins] \<Rightarrow>
                          if length spins \<noteq> length solution then (Inl (Module VmOutputLength), steps')
                          else if \<not> list_all is_spin spins then (Inl (Module VmOutputSpin), steps')
                          else transform_loop v program rest steps' (acc @ [map (\<lambda>s. if s = -1 then -1 else 1) spins])
                      | _ \<Rightarrow> (Inl (Module VmOutputType), steps')))"

definition transform_solutions :: "'p vm_ops \<Rightarrow> mhash option \<Rightarrow> i8 list list \<Rightarrow> transform_outcome" where
  "transform_solutions v transform solutions =
     (case transform of
        None \<Rightarrow> \<lparr>outcome_result = Inr solutions, steps_used = 0\<rparr>
      | Some h \<Rightarrow>
          (case program_source v h of
             None \<Rightarrow> \<lparr>outcome_result = Inl (Module VmProgramNotFound), steps_used = 0\<rparr>
           | Some bytes \<Rightarrow>
               (case decode_program v bytes of
                  None \<Rightarrow> \<lparr>outcome_result = Inl (Module VmBadBytecode), steps_used = 0\<rparr>
                | Some program \<Rightarrow>
                    (let (r, steps) = transform_loop v program solutions 0 []
                     in \<lparr>outcome_result = r, steps_used = steps\<rparr>))))"

text \<open>\<open>validate_result\<close> executes nothing on the summary-only payload.\<close>

definition validate_result :: "mhash option \<Rightarrow> mhash option \<Rightarrow> 'a winner_summary list \<Rightarrow> mempool_error dispatch_error + unit" where
  "validate_result validation transform winners = Inr ()"

subsection \<open>The contract of the virtual machine\<close>

text \<open>What the machine documents of its step limit: an execution never uses more steps than it was given.\<close>

definition vm_laws :: "'p vm_ops \<Rightarrow> bool" where
  "vm_laws v \<longleftrightarrow> max_transform_steps v \<le> u64_max \<and>
     (\<forall>mem limit p xs. fst (snd (run_program v mem limit p xs)) \<le> limit)"

text \<open>
  \<open>QuantumVm\<close> as its client sees it: without a program the solutions pass unchanged and unmetered; with one,
  a successful transform returns one vector of spins of the same length per solution; the steps
  reported stay within the budget whatever happens.
\<close>

locale quantum_vm =
  fixes ok :: "'v \<Rightarrow> bool"
    and transform :: "'v \<Rightarrow> mhash option \<Rightarrow> i8 list list \<Rightarrow> transform_outcome"
    and budget :: "'v \<Rightarrow> u64"
  assumes inert: "transform v None ss = \<lparr>outcome_result = Inr ss, steps_used = 0\<rparr>"
    and metered: "ok v \<Longrightarrow> steps_used (transform v prog ss) \<le> budget v"
    and shaped: "ok v \<Longrightarrow> outcome_result (transform v (Some h) ss) = Inr out \<Longrightarrow>
      list_all2 (\<lambda>s t. length t = length s \<and> list_all is_spin t) ss out"
begin

lemma transform_keeps_lengths:
  assumes "ok v" "outcome_result (transform v prog ss) = Inr out"
  shows "length out = length ss" "list_all2 (\<lambda>s t. length t = length s) ss out"
proof -
  have "list_all2 (\<lambda>s t. length t = length s) ss out"
  proof (cases prog)
    case None
    then have "out = ss" using assms(2) inert by simp
    then show ?thesis by (simp add: list.rel_refl)
  next
    case (Some h)
    then have "list_all2 (\<lambda>s t. length t = length s \<and> list_all is_spin t) ss out" using shaped [OF assms(1)] assms(2) by simp
    then show ?thesis by (rule list_all2_mono) blast
  qed
  then show "list_all2 (\<lambda>s t. length t = length s) ss out" .
  then show "length out = length ss" by (metis list_all2_lengthD)
qed

end

lemma vm_output_cases:
  obtains (none) "outputs = []" | (other) n where "outputs = [OtherVal n]" | (vec) spins where "outputs = [VecInt spins]"
    | (many) a b rest where "outputs = a # b # rest"
  by (metis reg_val.exhaust list.exhaust)

lemma transform_loop_spec:
  assumes "vm_laws v" "steps \<le> max_transform_steps v"
  shows "snd (transform_loop v p ss steps acc) \<le> max_transform_steps v"
    "fst (transform_loop v p ss steps acc) = Inr out \<Longrightarrow>
      \<exists>ts. out = acc @ ts \<and> list_all2 (\<lambda>s t. length t = length s \<and> list_all is_spin t) ss ts"
proof -
  have "snd (transform_loop v p ss steps acc) \<le> max_transform_steps v \<and>
    (fst (transform_loop v p ss steps acc) = Inr out \<longrightarrow>
      (\<exists>ts. out = acc @ ts \<and> list_all2 (\<lambda>s t. length t = length s \<and> list_all is_spin t) ss ts))"
    using assms(2)
  proof (induction ss arbitrary: steps acc)
    case (Cons s ss)
    let ?M = "max_transform_steps v"
    obtain result used outputs where r: "run_program v (max_vm_memory v) (?M - steps) p s = (result, used, outputs)"
      by (metis prod.collapse)
    then have "used \<le> ?M - steps" using assms(1) unfolding vm_laws_def by (metis fst_conv snd_conv)
    then have u: "sat_add u64_max steps used = steps + used" "steps + used \<le> ?M"
      using assms(1) Cons.prems by (auto simp: vm_laws_def sat_add_def)
    have m: "map (\<lambda>x. if x = -1 then -1 else 1) spins = spins" if "list_all is_spin spins" for spins :: "int list"
      using that by (induction spins) (auto simp: is_spin_def)
    note step = transform_loop.simps(2) [of v p s ss steps acc] and sat = sat_sub_def
    consider (stop) e where "fst (transform_loop v p (s # ss) steps acc) = Inl e"
        "snd (transform_loop v p (s # ss) steps acc) \<le> ?M"
      | (go) spins where "length spins = length s" "list_all is_spin spins"
        "transform_loop v p (s # ss) steps acc = transform_loop v p ss (steps + used) (acc @ [spins])"
    proof (cases "?M - steps = 0")
      case True
      then show ?thesis using stop step Cons.prems by (simp add: sat)
    next
      case live: False
      show ?thesis
      proof (cases "\<exists>x spins. result = Inr x \<and> outputs = [VecInt spins] \<and> length spins = length s \<and> list_all is_spin spins")
        case True
        then show ?thesis using go step live r u m by (auto simp: sat Let_def)
      next
        case False
        then have "\<exists>e. transform_loop v p (s # ss) steps acc = (Inl e, steps + used)" using step live r u
          by (cases result; cases outputs rule: vm_output_cases) (auto simp: sat Let_def split: reg_val.splits)
        then show ?thesis using stop u(2) by auto
      qed
    qed
    then show ?case
    proof cases
      case (go spins)
      then show ?thesis using Cons.IH [OF u(2), of "acc @ [spins]"] by auto
    qed auto
  qed simp
  then show "snd (transform_loop v p ss steps acc) \<le> max_transform_steps v"
    "fst (transform_loop v p ss steps acc) = Inr out \<Longrightarrow>
      \<exists>ts. out = acc @ ts \<and> list_all2 (\<lambda>s t. length t = length s \<and> list_all is_spin t) ss ts" by blast+
qed

interpretation adapter: quantum_vm vm_laws transform_solutions max_transform_steps
proof (unfold_locales, goal_cases)
  case (1 v ss)
  show ?case by (simp add: transform_solutions_def)
next
  case (2 v prog ss)
  then show ?case using transform_loop_spec(1) [OF 2, of 0 _ ss "[]"]
    by (auto simp: transform_solutions_def case_prod_beta Let_def split: option.splits)
next
  case (3 v h ss out)
  then obtain bytes p where "program_source v h = Some bytes" "decode_program v bytes = Some p"
    "fst (transform_loop v p ss 0 []) = Inr out"
    by (auto simp: transform_solutions_def case_prod_beta Let_def split: option.splits)
  then show ?case using transform_loop_spec(2) [OF 3(1), of 0 p ss "[]" out] by simp
qed

text \<open>
  the transform of a submission is metered and shape-preserving. Whatever happens, failures included, the steps
  reported stay within the submission's budget; without a program the solutions pass unchanged and no step is
  used; with one, success means one vector per solution, of the same length and of spins only.
\<close>

theorem transform_metered:
  assumes "vm_laws v"
  shows "steps_used (transform_solutions v prog ss) \<le> max_transform_steps v \<and>
    (prog = None \<longrightarrow> transform_solutions v prog ss = \<lparr>outcome_result = Inr ss, steps_used = 0\<rparr>) \<and>
    (\<forall>out. outcome_result (transform_solutions v prog ss) = Inr out \<longrightarrow>
       list_all2 (\<lambda>s t. length t = length s \<and> (prog \<noteq> None \<longrightarrow> list_all is_spin t)) ss out)"
proof (intro conjI allI impI)
  show "steps_used (transform_solutions v prog ss) \<le> max_transform_steps v" using adapter.metered [OF assms] .
  show "prog = None \<Longrightarrow> transform_solutions v prog ss = \<lparr>outcome_result = Inr ss, steps_used = 0\<rparr>" using adapter.inert by simp
  fix out assume out: "outcome_result (transform_solutions v prog ss) = Inr out"
  show "list_all2 (\<lambda>s t. length t = length s \<and> (prog \<noteq> None \<longrightarrow> list_all is_spin t)) ss out"
  proof (cases prog)
    case None
    then show ?thesis using adapter.transform_keeps_lengths(2) [OF assms out] by simp
  next
    case (Some h)
    then show ?thesis using adapter.shaped [OF assms, of h ss out] out by simp
  qed
qed

text \<open>A machine with one program that flips every spin in one step.\<close>

definition demo_vm :: "nat vm_ops" where
  "demo_vm = \<lparr>program_source = \<lambda>h. if h = [1] then Some [] else None, decode_program = \<lambda>_. Some 0, verify_program = \<lambda>_. True,
     run_program = \<lambda>mem limit p xs. (Inr (), min 1 limit, [VecInt (map uminus xs)]), max_vm_memory = 10, max_transform_steps = 2\<rparr>"

lemma demo_vm_laws: "vm_laws demo_vm"
  by (simp add: vm_laws_def demo_vm_def u64_max_def)

theorem transform_metered_witness:
  "steps_used (transform_solutions demo_vm (Some [1]) [[1, 1], [1, -1], [1, 1]]) \<le> 2 \<and>
   outcome_result (transform_solutions demo_vm (Some [1]) [[1, 1], [1, -1], [1, 1]]) = Inl (Module VmStepLimitExceeded) \<and>
   list_all2 (\<lambda>s t. length t = length s \<and> list_all is_spin t) [[1, 1], [1, -1]] [[-1, -1], [-1, 1]]"
proof (intro conjI)
  show "steps_used (transform_solutions demo_vm (Some [1]) [[1, 1], [1, -1], [1, 1]]) \<le> 2"
    using transform_metered [OF demo_vm_laws, of "Some [1]" "[[1, 1], [1, -1], [1, 1]]"] by (simp add: demo_vm_def)
  show "outcome_result (transform_solutions demo_vm (Some [1]) [[1, 1], [1, -1], [1, 1]]) = Inl (Module VmStepLimitExceeded)"
    by (simp add: transform_solutions_def demo_vm_def sat_add_def u64_max_def is_spin_def)
  have "outcome_result (transform_solutions demo_vm (Some [1]) [[1, 1], [1, -1]]) = Inr [[-1, -1], [-1, 1]]"
    by (simp add: transform_solutions_def demo_vm_def sat_add_def u64_max_def is_spin_def)
  then show "list_all2 (\<lambda>s t. length t = length s \<and> list_all is_spin t) [[1, 1], [1, -1]] [[-1, -1], [-1, 1]]"
    using transform_metered [OF demo_vm_laws, of "Some [1]" "[[1, 1], [1, -1]]"] by simp
qed

end
