(* ===== verification/Mempool_State.thy ===== *)
theory Mempool_State
  imports Solution_Validation Mempool_Rewards Mempool_Selection Mempool_Vm
begin

text \<open>
  \<open>pallets/quantum-compute-mempool/src/lib.rs\<close>: configuration, storage, events and the helper functions that the
  calls and hooks share.

  A storage map is a HOL map; a map with a default value is a function, except \<open>ProposerOrders\<close>, whose keys
  are deleted. \<open>mp_env\<close> is the state of the other pallets: balances act on it, and the program source
  reads it. \<open>mc_iter\<close> lists the keys of a storage prefix in the order of the storage backend. An
  outer \<open>None\<close> is a panic.
\<close>

subsection \<open>Configuration, events and storage\<close>

record ('a, 'b, 'p) mempool_config =
  mc_currency :: "('a, 'b) currency_ops"
  mc_max_nodes :: u32
  mc_max_edges :: u32
  mc_max_solutions :: u32
  mc_max_bid_miners :: u32
  mc_max_orders_per_proposer :: u32
  mc_max_deadline_blocks :: block
  mc_max_block_wait :: block
  mc_min_reward :: balance
  mc_result_ttl_blocks :: block
  mc_default_builder :: 'a
  mc_vm :: "'b \<Rightarrow> 'p vm_ops"
  mc_hash_of :: "bytes \<times> formulation \<times> mhash option \<times> mhash option \<Rightarrow> mhash"
  mc_iter :: "u64 set \<Rightarrow> u64 list"

datatype 'a mempool_event =
    SolverRegistered 'a miner_type
  | SolverDeregistered 'a
  | JobSpecRegistered mhash 'a
  | JobProposed u64 mhash 'a balance block block
  | SolutionAccepted u64 'a i64 u32
  | FirstSolutionReceived u64 'a block
  | BlockWaitStarted u64 block block
  | FrontRunnerChanged u64 'a i64
  | OrderExpired u64
  | RewardClaimed u64 'a balance
  | RewardReclaimed u64 'a balance
  | OrderClosed u64 bool
  | ResultPurged u64
  | ResultReady u64 bytes "'a winner_summary list"
  | PayeeRequirementSet u64 u64
  | SolutionPayeeSet u64 'a "winner_payee option"

record ('a, 'b) mempool_state =
  job_specs :: "mhash \<rightharpoonup> 'a job_spec"
  job_orders :: "u64 \<rightharpoonup> 'a job_order"
  next_order_id :: u64
  open_orders :: "u64 set"
  orders_expiring_at :: "block \<Rightarrow> u64 set"
  next_expiry_bucket :: block
  order_solutions :: "u64 \<Rightarrow> ('a \<rightharpoonup> 'a job_solution)"
  order_payee_requirements :: "u64 \<rightharpoonup> u64"
  order_payees :: "u64 \<Rightarrow> ('a \<rightharpoonup> winner_payee)"
  order_front_runner :: "u64 \<rightharpoonup> 'a front_runner"
  order_top_solvers :: "u64 \<Rightarrow> 'a ranked_solver list"
  solvers :: "'a \<rightharpoonup> 'a solver_info"
  proposer_orders :: "'a \<rightharpoonup> u64 list"
  order_results :: "u64 \<rightharpoonup> 'a stored_result"
  mp_version :: nat
  mp_events :: "'a mempool_event list"
  mp_block :: block
  mp_env :: 'b

type_synonym ('a, 'b) mempool_result = "mempool_error dispatch_error + ('a, 'b) mempool_state"

definition emit_mp :: "'a mempool_event \<Rightarrow> ('a, 'b) mempool_state \<Rightarrow> ('a, 'b) mempool_state" where
  "emit_mp ev s = s\<lparr>mp_events := mp_events s @ [ev]\<rparr>"

definition MEMPOOL_STORAGE_VERSION :: nat where "MEMPOOL_STORAGE_VERSION = 4"

subsection \<open>Sequencing with panics\<close>

definition and_then_p :: "('e + 'x) option \<Rightarrow> ('x \<Rightarrow> ('e + 'y) option) \<Rightarrow> ('e + 'y) option" where
  "and_then_p x f = (case x of None \<Rightarrow> None | Some (Inl e) \<Rightarrow> Some (Inl e) | Some (Inr v) \<Rightarrow> f v)"

definition ensure_p :: "bool \<Rightarrow> 'e \<Rightarrow> ('e + 'x) option \<Rightarrow> ('e + 'x) option" where
  "ensure_p b e k = (if b then k else Some (Inl e))"

lemma and_then_p_Inr_iff [simp]: "and_then_p x f = Some (Inr y) \<longleftrightarrow> (\<exists>v. x = Some (Inr v) \<and> f v = Some (Inr y))"
  by (auto simp: and_then_p_def split: option.splits sum.splits)

lemma and_then_p_simps [simp]:
  "and_then_p None f = None" "and_then_p (Some (Inl e)) f = Some (Inl e)" "and_then_p (Some (Inr v)) f = f v"
  by (simp_all add: and_then_p_def)

lemma and_then_p_None_iff: "and_then_p x f = None \<longleftrightarrow> x = None \<or> (\<exists>v. x = Some (Inr v) \<and> f v = None)"
  by (auto simp: and_then_p_def split: option.splits sum.splits)

lemma ensure_p_Inr_iff [simp]: "ensure_p b e k = Some (Inr y) \<longleftrightarrow> b \<and> k = Some (Inr y)"
  by (simp add: ensure_p_def)

lemma ensure_p_None_iff: "ensure_p b e k = None \<longleftrightarrow> b \<and> k = None"
  by (simp add: ensure_p_def)

subsection \<open>Modes, resolutions and errors\<close>

fun ensure_valid_mode :: "'a job_mode \<Rightarrow> mempool_error dispatch_error + unit" where
  "ensure_valid_mode Open = Inr ()"
| "ensure_valid_mode (Bid miners miner_types) =
     ensure (miners \<noteq> None \<or> miner_types \<noteq> None) (Module EmptyBidCriteria) (Inr ())"

fun bid_dimensions :: "'a job_mode \<Rightarrow> u32 \<times> u32" where
  "bid_dimensions Open = (0, 0)"
| "bid_dimensions (Bid miners miner_types) =
     (case miners of Some xs \<Rightarrow> length xs | None \<Rightarrow> 0, case miner_types of Some ts \<Rightarrow> length ts | None \<Rightarrow> 0)"

definition valid_winner_count :: "u32 \<Rightarrow> bool" where
  "valid_winner_count n \<longleftrightarrow> n > 0 \<and> n \<le> MAX_REWARD_WINNERS"

fun ensure_valid_resolution :: "reward_resolution \<Rightarrow> mempool_error dispatch_error + unit" where
  "ensure_valid_resolution SingleBest = Inr ()"
| "ensure_valid_resolution (TopNWeighted n) = ensure (valid_winner_count n) (Module InvalidRewardResolution) (Inr ())"
| "ensure_valid_resolution (TopNEqual n) = ensure (valid_winner_count n) (Module InvalidRewardResolution) (Inr ())"

fun solver_is_eligible :: "'a \<Rightarrow> miner_type \<Rightarrow> 'a job_mode \<Rightarrow> bool" where
  "solver_is_eligible who ty Open \<longleftrightarrow> True"
| "solver_is_eligible who ty (Bid miners miner_types) \<longleftrightarrow>
     (case miners of Some allowed \<Rightarrow> who \<in> set allowed | None \<Rightarrow> False) \<or>
     (case miner_types of Some allowed \<Rightarrow> ty \<in> set allowed | None \<Rightarrow> False)"

fun map_validation_error :: "validation_error \<Rightarrow> mempool_error" where
  "map_validation_error (InvalidSpinValue i v) = MpInvalidSpinValues"
| "map_validation_error (SolutionLengthMismatch a b) = MpSolutionLengthMismatch"
| "map_validation_error _ = MpInvalidTopology"

subsection \<open>The expiry index\<close>

definition expiry_bucket :: "('a, 'b) mempool_state \<Rightarrow> block \<Rightarrow> block" where
  "expiry_bucket s expiry = max expiry (sat_add u32_max (mp_block s) 1)"

definition schedule_expiry :: "u64 \<Rightarrow> block \<Rightarrow> ('a, 'b) mempool_state \<Rightarrow> ('a, 'b) mempool_state" where
  "schedule_expiry order_id expiry s =
     (let b = expiry_bucket s expiry
      in s\<lparr>orders_expiring_at := (orders_expiring_at s)(b := insert order_id (orders_expiring_at s b))\<rparr>)"

definition remove_expiry :: "block \<Rightarrow> u64 \<Rightarrow> ('a, 'b) mempool_state \<Rightarrow> ('a, 'b) mempool_state" where
  "remove_expiry b order_id s =
     s\<lparr>orders_expiring_at := (orders_expiring_at s)(b := orders_expiring_at s b - {order_id})\<rparr>"

definition order_expiry :: "'a job_order \<Rightarrow> block" where
  "order_expiry order = effective_expiry (created_at order) (first_solution_at order) (timing order)"

definition index_open_order :: "u64 \<Rightarrow> ('a, 'b) mempool_state \<Rightarrow> ('a, 'b) mempool_state" where
  "index_open_order order_id s =
     (case job_orders s order_id of
        None \<Rightarrow> s
      | Some order \<Rightarrow> if status order \<noteq> Opened then s else schedule_expiry order_id (order_expiry order) s)"

definition index_open_orders_for_expiry ::
    "('a, 'b, 'p) mempool_config \<Rightarrow> ('a, 'b) mempool_state \<Rightarrow> ('a, 'b) mempool_state" where
  "index_open_orders_for_expiry c s =
     (fold index_open_order (mc_iter c (open_orders s)) s)\<lparr>next_expiry_bucket := sat_add u32_max (mp_block s) 1\<rparr>"

subsection \<open>Payouts and results\<close>

definition compute_payouts ::
    "u64 \<Rightarrow> 'a job_order \<Rightarrow> ('a, 'b) mempool_state \<Rightarrow> mempool_error dispatch_error + ('a \<times> u128 \<times> i64) list" where
  "compute_payouts order_id order s =
     (case resolution order of
        SingleBest \<Rightarrow>
          and_then (ok_or (order_front_runner s order_id) (Module NoSolutionsAccepted)) (\<lambda>front.
          Inr (single_best_payouts front (reward order)))
      | TopNEqual n \<Rightarrow>
          ensure (order_top_solvers s order_id \<noteq> []) (Module NoSolutionsAccepted)
            (Inr (top_n_equal_payouts (order_top_solvers s order_id) (reward order)))
      | TopNWeighted n \<Rightarrow>
          ensure (order_top_solvers s order_id \<noteq> []) (Module NoSolutionsAccepted)
            (Inr (top_n_weighted_payouts (order_top_solvers s order_id) (reward order))))"

definition winner_summaries_from_payouts :: "('a \<times> u128 \<times> i64) list \<Rightarrow> 'a winner_summary list option" where
  "winner_summaries_from_payouts payouts =
     (if length payouts \<le> MAX_REWARD_WINNERS
      then Some (map (\<lambda>(who, amount, energy). \<lparr>ws_solver = who, ws_energy = energy, ws_amount = amount\<rparr>) payouts)
      else None)"

definition emit_result_ready ::
    "u64 \<Rightarrow> result_delivery \<Rightarrow> 'a winner_summary list \<Rightarrow> ('a, 'b) mempool_state \<Rightarrow> ('a, 'b) mempool_state" where
  "emit_result_ready order_id d winners s =
     (case d of
        OnChainOnly \<Rightarrow> s
      | Callback endpoint \<Rightarrow> emit_mp (ResultReady order_id endpoint winners) s
      | CallbackWithPoll endpoint \<Rightarrow> emit_mp (ResultReady order_id endpoint winners) s)"

definition persist_result_if_needed ::
    "u64 \<Rightarrow> 'a job_order \<Rightarrow> 'a winner_summary list \<Rightarrow> ('a, 'b) mempool_state \<Rightarrow> ('a, 'b) mempool_state" where
  "persist_result_if_needed order_id order winners s =
     (case delivery order of
        CallbackWithPoll endpoint \<Rightarrow>
          s\<lparr>order_results := (order_results s)(order_id \<mapsto>
              \<lparr>sr_endpoint = endpoint, sr_resolution = resolution order, settled_at = mp_block s, sr_winners = winners\<rparr>)\<rparr>
      | _ \<Rightarrow> s)"

subsection \<open>Ranking\<close>

definition update_top_solvers ::
    "u64 \<Rightarrow> u32 \<Rightarrow> 'a \<Rightarrow> i64 \<Rightarrow> ('a, 'b) mempool_state \<Rightarrow> ('a, 'b) mempool_result" where
  "update_top_solvers order_id n who best_energy s =
     (let current = order_top_solvers s order_id;
          updated = update_ranked_solvers current \<lparr>solver = who, rank_energy = best_energy\<rparr> n;
          front = (\<lambda>rs. case rs of [] \<Rightarrow> None | r # _ \<Rightarrow> Some (solver r, rank_energy r));
          s1 = s\<lparr>order_top_solvers := (order_top_solvers s)(order_id := updated)\<rparr>
      in ensure (length updated \<le> MAX_REWARD_WINNERS) (Module InvalidRewardResolution)
           (Inr (if front current \<noteq> front updated
                 then case front updated of
                        Some (leader, energy) \<Rightarrow> emit_mp (FrontRunnerChanged order_id leader energy) s1
                      | None \<Rightarrow> s1
                 else s1)))"

definition update_front_runner ::
    "u64 \<Rightarrow> 'a \<Rightarrow> i64 \<Rightarrow> ('a, 'b) mempool_state \<Rightarrow> ('a, 'b) mempool_state" where
  "update_front_runner order_id who best_energy s =
     (if (case order_front_runner s order_id of Some entry \<Rightarrow> best_energy < rank_energy entry | None \<Rightarrow> True)
      then emit_mp (FrontRunnerChanged order_id who best_energy)
             (s\<lparr>order_front_runner := (order_front_runner s)(order_id \<mapsto> \<lparr>solver = who, rank_energy = best_energy\<rparr>)\<rparr>)
      else s)"

definition update_ranking ::
    "u64 \<Rightarrow> reward_resolution \<Rightarrow> 'a \<Rightarrow> i64 \<Rightarrow> ('a, 'b) mempool_state \<Rightarrow> ('a, 'b) mempool_result" where
  "update_ranking order_id res who best_energy s =
     (case res of
        SingleBest \<Rightarrow> Inr (update_front_runner order_id who best_energy s)
      | TopNWeighted n \<Rightarrow> update_top_solvers order_id n who best_energy s
      | TopNEqual n \<Rightarrow> update_top_solvers order_id n who best_energy s)"

subsection \<open>Reads\<close>

definition result_for_order :: "u64 \<Rightarrow> ('a, 'b) mempool_state \<Rightarrow> 'a stored_result option" where
  "result_for_order order_id s = order_results s order_id"

definition still_open :: "u64 \<Rightarrow> ('a, 'b) mempool_state \<Rightarrow> bool" where
  "still_open order_id s =
     (case job_orders s order_id of
        None \<Rightarrow> False
      | Some order \<Rightarrow> status order = Opened \<and>
          \<not> is_expired (mp_block s) (created_at order) (first_solution_at order) (timing order))"

definition open_order_ids ::
    "('a, 'b, 'p) mempool_config \<Rightarrow> u64 option \<Rightarrow> u32 \<Rightarrow> ('a, 'b) mempool_state \<Rightarrow> u64 list" where
  "open_order_ids c start_after limit s =
     (let lim = min limit 1000
      in if lim = 0 then []
         else take lim (sort (filter (\<lambda>oid. still_open oid s)
                (filter (\<lambda>oid. case start_after of Some cursor \<Rightarrow> oid > cursor | None \<Rightarrow> True)
                  (mc_iter c (open_orders s))))))"

end
