(* ===== verification/Mempool_Calls.thy ===== *)
theory Mempool_Calls
  imports Mempool_State
begin

text \<open>
  \<open>pallets/quantum-compute-mempool/src/lib.rs\<close>: genesis, the calls, the block hook and the migration. A dispatch
  that returns \<open>Inl\<close> is rolled back by the framework; \<open>None\<close> is a panic. Weights are not modelled.
\<close>

subsection \<open>Job specifications and genesis\<close>

text \<open>\<open>b"plain-ising-v1"\<close>.\<close>

definition DEFAULT_ISING_SPEC_NAME :: bytes where
  "DEFAULT_ISING_SPEC_NAME = [112, 108, 97, 105, 110, 45, 105, 115, 105, 110, 103, 45, 118, 49]"

definition job_spec_id ::
    "('a, 'b, 'p) mempool_config \<Rightarrow> bytes \<Rightarrow> formulation \<Rightarrow> mhash option \<Rightarrow> mhash option \<Rightarrow> mhash" where
  "job_spec_id c name f validation transform = mc_hash_of c (name, f, validation, transform)"

definition default_ising_spec_id :: "('a, 'b, 'p) mempool_config \<Rightarrow> mhash" where
  "default_ising_spec_id c = job_spec_id c DEFAULT_ISING_SPEC_NAME IsingFormulation None None"

definition insert_job_spec ::
    "('a, 'b, 'p) mempool_config \<Rightarrow> 'a \<Rightarrow> bytes \<Rightarrow> formulation \<Rightarrow> mhash option \<Rightarrow> mhash option \<Rightarrow> block \<Rightarrow> bool \<Rightarrow>
     ('a, 'b) mempool_state \<Rightarrow> ('a, 'b) mempool_result" where
  "insert_job_spec c who name f validation transform registered emit_event s =
     (let sid = job_spec_id c name f validation transform in
      ensure (job_specs s sid = None) (Module JobSpecAlreadyExists)
      (and_then (validate_programs (mc_vm c (mp_env s)) validation transform) (\<lambda>_.
       let s1 = s\<lparr>job_specs := (job_specs s)(sid \<mapsto>
             \<lparr>builder = who, spec_name = name, spec_formulation = f, validation_program = validation,
              transform_program = transform, spec_registered_at = registered, total_orders = 0, successful_orders = 0\<rparr>)\<rparr>
       in Inr (if emit_event then emit_mp (JobSpecRegistered sid who) s1 else s1))))"

definition insert_default_ising_spec ::
    "('a, 'b, 'p) mempool_config \<Rightarrow> 'a \<Rightarrow> bool \<Rightarrow> ('a, 'b) mempool_state \<Rightarrow> ('a, 'b) mempool_result" where
  "insert_default_ising_spec c who emit_event s =
     insert_job_spec c who DEFAULT_ISING_SPEC_NAME IsingFormulation None None (mp_block s) emit_event s"

text \<open>The pallet's storage with every item at its default, in a given block and environment.\<close>

definition empty_mempool :: "nat \<Rightarrow> 'a mempool_event list \<Rightarrow> block \<Rightarrow> 'b \<Rightarrow> ('a, 'b) mempool_state" where
  "empty_mempool version evs now e =
     \<lparr>job_specs = Map.empty, job_orders = Map.empty, next_order_id = 0, open_orders = {}, orders_expiring_at = \<lambda>_. {},
      next_expiry_bucket = 0, order_solutions = \<lambda>_. Map.empty, order_payee_requirements = Map.empty,
      order_payees = \<lambda>_. Map.empty, order_front_runner = Map.empty, order_top_solvers = \<lambda>_. [], solvers = Map.empty,
      proposer_orders = Map.empty, order_results = Map.empty, mp_version = version, mp_events = evs,
      mp_block = now, mp_env = e\<rparr>"

definition mempool_build ::
    "('a, 'b, 'p) mempool_config \<Rightarrow> 'a option \<Rightarrow> 'b \<Rightarrow> ('a, 'b) mempool_state option" where
  "mempool_build c default_builder e =
     (let s = empty_mempool MEMPOOL_STORAGE_VERSION [] 0 e
      in case default_builder of
           None \<Rightarrow> Some s
         | Some who \<Rightarrow> (case insert_default_ising_spec c who False s of Inr s' \<Rightarrow> Some s' | Inl _ \<Rightarrow> None))"

definition register_job_spec ::
    "('a, 'b, 'p) mempool_config \<Rightarrow> 'a raw_origin \<Rightarrow> 'a \<Rightarrow> bytes \<Rightarrow> formulation \<Rightarrow> mhash option \<Rightarrow> mhash option \<Rightarrow>
     ('a, 'b) mempool_state \<Rightarrow> ('a, 'b) mempool_result" where
  "register_job_spec c origin who name f validation transform s =
     and_then (ensure_root origin) (\<lambda>_. insert_job_spec c who name f validation transform (mp_block s) True s)"

subsection \<open>Solvers\<close>

definition register_solver ::
    "'a raw_origin \<Rightarrow> miner_type \<Rightarrow> ('a, 'b) mempool_state \<Rightarrow> ('a, 'b) mempool_result" where
  "register_solver origin ty s =
     and_then (ensure_signed origin) (\<lambda>who.
     ensure (solvers s who = None) (Module SolverAlreadyRegistered)
       (Inr (emit_mp (SolverRegistered who ty) (s\<lparr>solvers := (solvers s)(who \<mapsto>
          \<lparr>si_account = who, solver_type = ty, si_registered_at = mp_block s, solutions_submitted = 0,
           si_rewards_earned = 0\<rparr>)\<rparr>))))"

definition deregister_solver ::
    "'a raw_origin \<Rightarrow> ('a, 'b) mempool_state \<Rightarrow> ('a, 'b) mempool_result" where
  "deregister_solver origin s =
     and_then (ensure_signed origin) (\<lambda>who.
     ensure (solvers s who \<noteq> None) (Module SolverNotRegistered)
       (Inr (emit_mp (SolverDeregistered who) (s\<lparr>solvers := (solvers s)(who := None)\<rparr>))))"

subsection \<open>Proposals\<close>

definition slots_of :: "'a \<Rightarrow> ('a, 'b) mempool_state \<Rightarrow> u64 list" where
  "slots_of who s = (case proposer_orders s who of Some ids \<Rightarrow> ids | None \<Rightarrow> [])"

definition release_proposer_slot :: "'a \<Rightarrow> u64 \<Rightarrow> ('a, 'b) mempool_state \<Rightarrow> ('a, 'b) mempool_state" where
  "release_proposer_slot who order_id s =
     s\<lparr>proposer_orders := (proposer_orders s)(who :=
         (case proposer_orders s who of
            None \<Rightarrow> None
          | Some ids \<Rightarrow> (let ids' = filter (\<lambda>i. i \<noteq> order_id) ids in if ids' = [] then None else Some ids')))\<rparr>"

definition check_proposal ::
    "('a, 'b, 'p) mempool_config \<Rightarrow> mhash \<Rightarrow> ising_params \<Rightarrow> balance \<Rightarrow> 'a job_mode \<Rightarrow> reward_resolution \<Rightarrow> order_timing \<Rightarrow>
     result_delivery \<Rightarrow> ('a, 'b) mempool_state \<Rightarrow> mempool_error dispatch_error + unit" where
  "check_proposal c sid p r m res t d s =
     ensure (r \<ge> mc_min_reward c) (Module RewardTooLow)
     (ensure (deadline_blocks t \<le> mc_max_deadline_blocks c) (Module DeadlineTooLong)
     (ensure (block_wait t \<le> mc_max_block_wait c) (Module BlockWaitTooLong)
     (ensure (job_specs s sid \<noteq> None) (Module JobSpecNotFound)
     (ensure (case ip_min_solutions p of Some k \<Rightarrow> k \<le> mc_max_solutions c | None \<Rightarrow> True) (Module TooManySolutions)
     (ensure ((case ip_min_diversity p of Some v \<Rightarrow> v | None \<Rightarrow> 0) > 0 \<longrightarrow>
                (case ip_min_solutions p of None \<Rightarrow> True | Some k \<Rightarrow> k \<ge> 2)) (Module MpInvalidDiversityConfig)
     (ensure (validate_topology_consistency (ip_nodes p) (ip_edges p) (h_values p) (j_values p) None None = [])
        (Module MpInvalidTopology)
     (ensure (validate_delivery_mode d m) (Module InvalidDeliveryMode)
     (and_then (ensure_valid_mode m) (\<lambda>_. ensure_valid_resolution res)))))))))"

definition do_propose_job ::
    "('a, 'b, 'p) mempool_config \<Rightarrow> 'a \<Rightarrow> mhash \<Rightarrow> ising_params \<Rightarrow> balance \<Rightarrow> 'a job_mode \<Rightarrow> reward_resolution \<Rightarrow>
     order_timing \<Rightarrow> result_delivery \<Rightarrow> ('a, 'b) mempool_state \<Rightarrow> mempool_error dispatch_error + u64 \<times> ('a, 'b) mempool_state" where
  "do_propose_job c who sid p r m res t d s =
     and_then (check_proposal c sid p r m res t d s) (\<lambda>_.
     let ids = slots_of who s @ [next_order_id s] in
     ensure (length ids \<le> mc_max_orders_per_proposer c) (Module OrderLimitReached)
     (and_then (map_err Other (reserve (mc_currency c) who r (mp_env s))) (\<lambda>e.
      let order_id = next_order_id s;
          created = mp_block s;
          order = \<lparr>spec_id = sid, proposer = who, params = p, reward = r, job_mode = m, resolution = res, timing = t,
                   delivery = d, status = Opened, created_at = created, first_solution_at = None, solution_count = 0\<rparr>;
          s1 = s\<lparr>mp_env := e, next_order_id := sat_add u64_max order_id 1,
                 job_orders := (job_orders s)(order_id \<mapsto> order), open_orders := insert order_id (open_orders s)\<rparr>;
          s2 = schedule_expiry order_id (sat_add u32_max created (deadline_blocks t)) s1;
          s3 = s2\<lparr>proposer_orders := (proposer_orders s2)(who \<mapsto> ids),
                  job_specs := (job_specs s2)(sid := map_option
                    (\<lambda>sp. sp\<lparr>total_orders := sat_add u64_max (total_orders sp) 1\<rparr>) (job_specs s2 sid))\<rparr>
      in Inr (order_id, emit_mp (JobProposed order_id sid who r (deadline_blocks t) (block_wait t)) s3))))"

definition propose_job ::
    "('a, 'b, 'p) mempool_config \<Rightarrow> 'a raw_origin \<Rightarrow> mhash \<Rightarrow> ising_params \<Rightarrow> balance \<Rightarrow> 'a job_mode \<Rightarrow> reward_resolution \<Rightarrow>
     order_timing \<Rightarrow> result_delivery \<Rightarrow> ('a, 'b) mempool_state \<Rightarrow> ('a, 'b) mempool_result" where
  "propose_job c origin sid p r m res t d s =
     and_then (ensure_signed origin) (\<lambda>who.
     and_then (do_propose_job c who sid p r m res t d s) (\<lambda>(order_id, s'). Inr s'))"

definition propose_job_with_payee_requirement ::
    "('a, 'b, 'p) mempool_config \<Rightarrow> 'a raw_origin \<Rightarrow> mhash \<Rightarrow> ising_params \<Rightarrow> balance \<Rightarrow> 'a job_mode \<Rightarrow> reward_resolution \<Rightarrow>
     order_timing \<Rightarrow> result_delivery \<Rightarrow> u64 \<Rightarrow> ('a, 'b) mempool_state \<Rightarrow> ('a, 'b) mempool_result" where
  "propose_job_with_payee_requirement c origin sid p r m res t d chain s =
     and_then (ensure_signed origin) (\<lambda>who.
     ensure (chain \<noteq> 0) (Module InvalidPayeeChain)
     (and_then (do_propose_job c who sid p r m res t d s) (\<lambda>(order_id, s').
      Inr (emit_mp (PayeeRequirementSet order_id chain)
             (s'\<lparr>order_payee_requirements := (order_payee_requirements s')(order_id \<mapsto> chain)\<rparr>)))))"

end
