(* ===== verification/Mempool_Submit.thy ===== *)
theory Mempool_Submit
  imports Mempool_Calls
begin

text \<open>
  \<open>pallets/quantum-compute-mempool/src/lib.rs\<close>: the submission of solutions, split where the source has its phases:
  admission checks, transform and scoring, selection, and the writes of an accepted submission.
\<close>

subsection \<open>Operations\<close>

definition check_payee :: "u64 option \<Rightarrow> winner_payee option \<Rightarrow> mempool_error dispatch_error + unit" where
  "check_payee required payee =
     ensure (case payee of Some destination \<Rightarrow> payee_is_valid destination | None \<Rightarrow> True) (Module InvalidPayee)
     (case required of
        None \<Rightarrow> Inr ()
      | Some chain_id \<Rightarrow>
          and_then (ok_or payee (Module PayeeRequired)) (\<lambda>destination.
          ensure (payee_chain_id destination = chain_id) (Module PayeeChainMismatch) (Inr ())))"

definition check_submission ::
    "'a \<Rightarrow> u64 \<Rightarrow> i8 list list \<Rightarrow> winner_payee option \<Rightarrow> ('a, 'b) mempool_state \<Rightarrow>
     mempool_error dispatch_error + 'a solver_info \<times> 'a job_order \<times> 'a job_spec" where
  "check_submission who order_id solutions payee s =
     and_then (ok_or (solvers s who) (Module SolverNotRegistered)) (\<lambda>info.
     ensure (solutions \<noteq> []) (Module MpNoSolutionsSubmitted)
     (and_then (ok_or (job_orders s order_id) (Module OrderNotFound)) (\<lambda>order.
      and_then (ok_or (job_specs s (spec_id order)) (Module JobSpecNotFound)) (\<lambda>spec.
      ensure (status order = Opened \<and>
              \<not> is_expired (mp_block s) (created_at order) (first_solution_at order) (timing order)) (Module OrderNotOpen)
      (and_then (check_payee (order_payee_requirements s order_id) payee) (\<lambda>_.
       ensure (solver_is_eligible who (solver_type info) (job_mode order)) (Module NotEligibleSolver)
         (Inr (info, order, spec))))))))"

text \<open>The scoring loop: the solutions within the energy bound, the best energy and the index of its first holder.\<close>

fun score_loop ::
    "ising_params \<Rightarrow> topology_index \<Rightarrow> i8 list list \<Rightarrow> i8 list list \<Rightarrow> i64 \<Rightarrow> usize \<Rightarrow>
     mempool_error dispatch_error + i8 list list \<times> i64 \<times> usize" where
  "score_loop p topology [] valid_solutions best_energy best_index = Inr (valid_solutions, best_energy, best_index)"
| "score_loop p topology (solution # rest) valid_solutions best_energy best_index =
     and_then (map_err (\<lambda>e. Module (map_validation_error e))
       (energy_of_solution_indexed solution (h_values p) (ip_edges p) (j_values p) topology)) (\<lambda>energy.
     if (case ip_max_energy p of Some max_energy \<Rightarrow> energy > max_energy | None \<Rightarrow> False)
     then score_loop p topology rest valid_solutions best_energy best_index
     else if energy < best_energy
     then score_loop p topology rest (valid_solutions @ [solution]) energy (length valid_solutions)
     else score_loop p topology rest (valid_solutions @ [solution]) best_energy best_index)"

definition score_submission ::
    "('a, 'b, 'p) mempool_config \<Rightarrow> 'a job_order \<Rightarrow> 'a job_spec \<Rightarrow> i8 list list \<Rightarrow> ('a, 'b) mempool_state \<Rightarrow>
     mempool_error dispatch_error + i8 list list \<times> i64 \<times> usize" where
  "score_submission c order spec solutions s =
     and_then (map_err (\<lambda>e. Module (map_validation_error e))
       (topology_index_new (ip_nodes (params order)) (ip_edges (params order)))) (\<lambda>topology.
     and_then (outcome_result (transform_solutions (mc_vm c (mp_env s)) (transform_program spec) solutions)) (\<lambda>transformed.
     ensure (transformed \<noteq> []) (Module MpNoSolutionsSubmitted)
     (ensure (length transformed \<le> mc_max_solutions c) (Module TooManySolutions)
     (and_then (score_loop (params order) topology transformed [] i64_max 0) (\<lambda>(valid_solutions, best_energy, best_index).
      ensure (valid_solutions \<noteq> []) (Module MpInsufficientEnergy) (Inr (valid_solutions, best_energy, best_index)))))))"

definition target_count :: "ising_params \<Rightarrow> u32 \<Rightarrow> usize" where
  "target_count p cnt = min (max (case ip_min_solutions p of Some k \<Rightarrow> k | None \<Rightarrow> cnt) 1) cnt"

text \<open>
  Selection and diversity. The conversions to bounded vectors at the end panic when a bound does not hold.
\<close>

definition choose_solutions ::
    "('a, 'b, 'p) mempool_config \<Rightarrow> ising_params \<Rightarrow> i8 list list \<Rightarrow> usize \<Rightarrow>
     (mempool_error dispatch_error + i8 list list \<times> u32) option" where
  "choose_solutions c p valid_solutions best_index =
     (let cnt = length valid_solutions;
          target = target_count p cnt
      in ensure_p (cnt \<ge> max target 1) (Module MpInsufficientSolutions)
         (and_then_p (map_option (map_err (\<lambda>e. Module (map_validation_error e)))
            (select_from_best valid_solutions best_index target)) (\<lambda>indices.
          if \<not> list_all (\<lambda>i. i < cnt) indices then None
          else let selected = map ((!) valid_solutions) indices in
          ensure_p (case ip_min_solutions p of Some k \<Rightarrow> length selected \<ge> k | None \<Rightarrow> True) (Module MpInsufficientSolutions)
          (and_then_p (map_option (map_err (\<lambda>e. Module (map_validation_error e))) (calculate_diversity selected)) (\<lambda>diversity.
           ensure_p (case ip_min_diversity p of Some d \<Rightarrow> diversity \<ge> d | None \<Rightarrow> True) (Module MpInsufficientDiversity)
           (if list_all (\<lambda>sol. length sol \<le> mc_max_nodes c) selected \<and> length selected \<le> mc_max_solutions c
            then Some (Inr (selected, diversity)) else None))))))"

text \<open>The first accepted solution starts the \<open>block_wait\<close> clock and may move the order to an earlier bucket.\<close>

definition start_block_wait ::
    "'a \<Rightarrow> u64 \<Rightarrow> 'a job_order \<Rightarrow> ('a, 'b) mempool_state \<Rightarrow> 'a job_order \<times> ('a, 'b) mempool_state" where
  "start_block_wait who order_id order s =
     (if first_solution_at order = None
      then let now = mp_block s;
               order' = order\<lparr>first_solution_at := Some now\<rparr>;
               closes_at = effective_expiry (created_at order') (first_solution_at order') (timing order');
               hard_deadline = sat_add u32_max (created_at order) (deadline_blocks (timing order));
               s1 = (if closes_at < hard_deadline
                     then schedule_expiry order_id closes_at (remove_expiry hard_deadline order_id s) else s)
           in (order', emit_mp (BlockWaitStarted order_id now closes_at)
                         (emit_mp (FirstSolutionReceived order_id who closes_at) s1))
      else (order, s))"

definition set_payee ::
    "'a \<Rightarrow> u64 \<Rightarrow> winner_payee option \<Rightarrow> ('a, 'b) mempool_state \<Rightarrow> ('a, 'b) mempool_state" where
  "set_payee who order_id payee s =
     (if order_payees s order_id who \<noteq> payee
      then emit_mp (SolutionPayeeSet order_id who payee)
             (s\<lparr>order_payees := (order_payees s)(order_id := (order_payees s order_id)(who := payee))\<rparr>)
      else s)"

definition accept_solution ::
    "'a \<Rightarrow> u64 \<Rightarrow> 'a solver_info \<Rightarrow> 'a job_order \<Rightarrow> winner_payee option \<Rightarrow> i64 \<Rightarrow> i8 list list \<Rightarrow> u32 \<Rightarrow>
     ('a, 'b) mempool_state \<Rightarrow> ('a, 'b) mempool_result" where
  "accept_solution who order_id info order payee best_energy selected diversity s =
     (let is_new_solver = order_solutions s order_id who = None;
          js = \<lparr>js_solver = who, js_solver_type = solver_type info, js_solutions = selected, js_best_energy = best_energy,
                js_diversity = diversity, js_num_valid = length selected, js_submitted_at = mp_block s\<rparr>;
          s1 = s\<lparr>order_solutions := (order_solutions s)(order_id := (order_solutions s order_id)(who \<mapsto> js))\<rparr>;
          order1 = (if is_new_solver then order\<lparr>solution_count := sat_add u32_max (solution_count order) 1\<rparr> else order);
          (order2, s2) = start_block_wait who order_id order1 s1
      in and_then (update_ranking order_id (resolution order2) who best_energy s2) (\<lambda>s3.
         let s4 = set_payee who order_id payee s3;
             s5 = s4\<lparr>solvers := (solvers s4)(who \<mapsto>
                       info\<lparr>solutions_submitted := sat_add u64_max (solutions_submitted info) 1\<rparr>),
                     job_orders := (job_orders s4)(order_id \<mapsto> order2)\<rparr>
         in Inr (emit_mp (SolutionAccepted order_id who best_energy diversity) s5)))"

definition submit_solution_inner ::
    "('a, 'b, 'p) mempool_config \<Rightarrow> 'a \<Rightarrow> u64 \<Rightarrow> i8 list list \<Rightarrow> winner_payee option \<Rightarrow> ('a, 'b) mempool_state \<Rightarrow>
     ('a, 'b) mempool_result option" where
  "submit_solution_inner c who order_id solutions payee s =
     and_then_p (Some (check_submission who order_id solutions payee s)) (\<lambda>(info, order, spec).
     and_then_p (Some (score_submission c order spec solutions s)) (\<lambda>(valid_solutions, best_energy, best_index).
     ensure_p (case order_solutions s order_id who of None \<Rightarrow> True | Some accepted \<Rightarrow> best_energy < js_best_energy accepted)
       (Module SolutionNotImproved)
     (and_then_p (choose_solutions c (params order) valid_solutions best_index) (\<lambda>(selected, diversity).
      Some (accept_solution who order_id info order payee best_energy selected diversity s)))))"

definition submit_solution ::
    "('a, 'b, 'p) mempool_config \<Rightarrow> 'a raw_origin \<Rightarrow> u64 \<Rightarrow> i8 list list \<Rightarrow> ('a, 'b) mempool_state \<Rightarrow>
     ('a, 'b) mempool_result option" where
  "submit_solution c origin order_id solutions s =
     and_then_p (Some (ensure_signed origin)) (\<lambda>who. submit_solution_inner c who order_id solutions None s)"

definition submit_solution_with_payee ::
    "('a, 'b, 'p) mempool_config \<Rightarrow> 'a raw_origin \<Rightarrow> u64 \<Rightarrow> i8 list list \<Rightarrow> winner_payee \<Rightarrow> ('a, 'b) mempool_state \<Rightarrow>
     ('a, 'b) mempool_result option" where
  "submit_solution_with_payee c origin order_id solutions payee s =
     and_then_p (Some (ensure_signed origin)) (\<lambda>who. submit_solution_inner c who order_id solutions (Some payee) s)"

subsection \<open>Scoring finds the best solution\<close>

definition order_energy :: "ising_params \<Rightarrow> i8 list \<Rightarrow> int" where
  "order_energy p sol = ising_energy (ip_nodes p) (ip_edges p) (h_values p) (j_values p) sol"

definition within_bound :: "ising_params \<Rightarrow> i8 list \<Rightarrow> bool" where
  "within_bound p sol \<longleftrightarrow> (case ip_max_energy p of Some m \<Rightarrow> order_energy p sol \<le> m | None \<Rightarrow> True)"

definition solves :: "ising_params \<Rightarrow> i8 list \<Rightarrow> bool" where
  "solves p sol \<longleftrightarrow> well_formed_problem sol (h_values p) (ip_edges p) (j_values p) (ip_nodes p)"

text \<open>The energy \<open>be\<close> is the least of the list and \<open>bi\<close> its first holder; the loop's start values stand for the empty list.\<close>

definition first_best :: "('x \<Rightarrow> int) \<Rightarrow> 'x list \<Rightarrow> int \<Rightarrow> nat \<Rightarrow> bool" where
  "first_best f xs be bi \<longleftrightarrow>
     (if xs = [] then be = i64_max \<and> bi = 0
      else bi < length xs \<and> be = f (xs ! bi) \<and> (\<forall>k<length xs. be \<le> f (xs ! k) \<and> (k < bi \<longrightarrow> be < f (xs ! k))))"

lemma field_terms_range: "field_terms s pos h e = Inr e' \<Longrightarrow> in_i64 e \<Longrightarrow> in_i64 e'"
  by (induction s pos h e rule: field_terms.induct) (auto simp: checked_add_i64_Some_iff)

lemma coupling_terms_range: "coupling_terms s ix ejs e = Inr e' \<Longrightarrow> in_i64 e \<Longrightarrow> in_i64 e'"
  by (induction s ix ejs e rule: coupling_terms.induct) (auto simp: checked_add_i64_Some_iff)

lemma energy_indexed_range: "energy_of_solution_indexed s h edges j ix = Inr e \<Longrightarrow> e \<le> i64_max"
proof -
  assume "energy_of_solution_indexed s h edges j ix = Inr e"
  then obtain e1 where "field_terms s 0 h 0 = Inr e1" "coupling_terms s ix (zip edges j) e1 = Inr e"
    by (auto simp: energy_of_solution_indexed_def)
  then have "in_i64 e" using field_terms_range coupling_terms_range by (metis in_i64_abs abs_zero zero_less_numeral zero_less_power)
  then show ?thesis by (simp add: in_i64_def)
qed

lemma first_best_snoc_better:
  "first_best f xs be bi \<Longrightarrow> f x < be \<Longrightarrow> first_best f (xs @ [x]) (f x) (length xs)"
  by (auto simp: first_best_def nth_append less_Suc_eq split: if_splits)

lemma first_best_snoc_worse:
  "first_best f xs be bi \<Longrightarrow> be \<le> f x \<Longrightarrow> f x \<le> i64_max \<Longrightarrow> first_best f (xs @ [x]) be bi"
  by (auto simp: first_best_def nth_append less_Suc_eq split: if_splits)

lemma score_loop_Inr:
  assumes ix: "topology_index_new (ip_nodes p) (ip_edges p) = Inr ix"
    and "score_loop p ix ts acc be bi = Inr (vs, be', bi')" "first_best (order_energy p) acc be bi"
  shows "vs = acc @ filter (within_bound p) ts \<and> (\<forall>t \<in> set ts. solves p t) \<and> first_best (order_energy p) vs be' bi'"
  using assms(2,3)
proof (induction ts arbitrary: acc be bi)
  case (Cons t ts)
  obtain e where e: "energy_of_solution_indexed t (h_values p) (ip_edges p) (j_values p) ix = Inr e"
    using Cons.prems(1) by auto
  have en: "e = order_energy p t" "solves p t" "e \<le> i64_max"
    using energy_indexed_Inr [OF ix e] energy_indexed_range [OF e] by (simp_all add: order_energy_def solves_def)
  show ?case
  proof (cases "within_bound p t")
    case False
    then have "score_loop p ix ts acc be bi = Inr (vs, be', bi')"
      using Cons.prems(1) e en(1) by (auto simp: within_bound_def split: option.splits)
    from Cons.IH [OF this Cons.prems(2)] show ?thesis using False en(2) by auto
  next
    case True
    then have go: "(if e < be then score_loop p ix ts (acc @ [t]) e (length acc)
      else score_loop p ix ts (acc @ [t]) be bi) = Inr (vs, be', bi')"
      using Cons.prems(1) e en(1) by (auto simp: within_bound_def split: option.splits)
    show ?thesis
    proof (cases "e < be")
      case less: True
      with Cons.IH [OF _ first_best_snoc_better [OF Cons.prems(2)]] go en True show ?thesis by auto
    next
      case False
      with Cons.IH [OF _ first_best_snoc_worse [OF Cons.prems(2)]] go en True show ?thesis by auto
    qed
  qed
qed simp

lemma first_best_is_Min:
  assumes "first_best f (filter P xs) be bi" "filter P xs \<noteq> []" "\<And>x y. x \<in> set xs \<Longrightarrow> y \<in> set xs \<Longrightarrow> P x \<Longrightarrow> \<not> P y \<Longrightarrow> f x \<le> f y"
  shows "be = Min (f ` set xs)"
proof (rule Min_eqI [symmetric])
  have b: "bi < length (filter P xs)" "be = f (filter P xs ! bi)" "\<forall>k<length (filter P xs). be \<le> f (filter P xs ! k)"
    using assms(1,2) by (auto simp: first_best_def)
  then have m: "filter P xs ! bi \<in> set (filter P xs)" using nth_mem by blast
  then show "be \<in> f ` set xs" using b(2) by auto
  fix y assume "y \<in> f ` set xs"
  then obtain x where x: "x \<in> set xs" "y = f x" by blast
  show "be \<le> y"
  proof (cases "P x")
    case True
    then have "x \<in> set (filter P xs)" using x by simp
    then show ?thesis using b(3) x(2) by (metis in_set_conv_nth)
  qed (use assms(3) m x b(2) in auto)
qed simp

lemma score_submission_Inr:
  assumes "score_submission c order spec sols s = Inr (vs, be, bi)"
  obtains ts where "outcome_result (transform_solutions (mc_vm c (mp_env s)) (transform_program spec) sols) = Inr ts"
    "vs = filter (within_bound (params order)) ts" "vs \<noteq> []" "length ts \<le> mc_max_solutions c"
    "\<forall>t \<in> set ts. solves (params order) t" "bi < length vs" "be = order_energy (params order) (vs ! bi)"
    "be = Min (order_energy (params order) ` set ts)"
proof -
  let ?p = "params order"
  obtain ix ts where t: "topology_index_new (ip_nodes ?p) (ip_edges ?p) = Inr ix"
    "outcome_result (transform_solutions (mc_vm c (mp_env s)) (transform_program spec) sols) = Inr ts"
    "length ts \<le> mc_max_solutions c" "score_loop ?p ix ts [] i64_max 0 = Inr (vs, be, bi)" "vs \<noteq> []"
    using assms by (auto simp: score_submission_def)
  have "first_best (order_energy ?p) [] i64_max 0" by (simp add: first_best_def)
  from score_loop_Inr [OF t(1,4) this] have v: "vs = filter (within_bound ?p) ts" "\<forall>t \<in> set ts. solves ?p t"
    "first_best (order_energy ?p) vs be bi" by auto
  have "be = Min (order_energy ?p ` set ts)"
    using first_best_is_Min [OF v(3) [unfolded v(1)]] t(5) v(1) by (force simp: within_bound_def split: option.splits)
  then show ?thesis using that [OF t(2) v(1) t(5,3) v(2)] v(3) t(5) by (auto simp: first_best_def)
qed

subsection \<open>Selection never panics and keeps the best first\<close>

lemma solves_lengths: "\<forall>t \<in> set ts. solves p t \<Longrightarrow> validate_solution_set ts (length (ip_nodes p))"
  by (auto simp: validate_solution_set_def list_all_iff solves_def well_formed_problem_def)

lemma choose_solutions_Inr:
  assumes "choose_solutions c p vs bi = Some (Inr (selected, d))" "\<forall>v \<in> set vs. solves p v" "length (ip_nodes p) \<le> u32_max"
    and "bi < length vs"
  shows "selected \<noteq> []" "hd selected = vs ! bi" "set selected \<subseteq> set vs" "calculate_diversity selected = Some (Inr d)"
    "\<And>k. ip_min_solutions p = Some k \<Longrightarrow> k \<le> length selected" "\<And>k. ip_min_diversity p = Some k \<Longrightarrow> k \<le> d"
    "length selected \<le> mc_max_solutions c"
proof -
  let ?tc = "target_count p (length vs)"
  obtain sel where sel: "select_from_best vs bi ?tc = Some (Inr sel)" "length sel = min (max ?tc 1) (length vs)" "hd sel = bi"
    "set sel \<subseteq> {..<length vs}"
    using select_from_best_ok [OF solves_lengths [OF assms(2)] assms(3,4), of ?tc] by blast
  have ne: "sel \<noteq> []" using sel(2) assms(4) by (cases vs) auto
  have s: "selected = map ((!) vs) sel" "calculate_diversity selected = Some (Inr d)"
    "case ip_min_solutions p of Some k \<Rightarrow> length selected \<ge> k | None \<Rightarrow> True"
    "case ip_min_diversity p of Some k \<Rightarrow> d \<ge> k | None \<Rightarrow> True" "length selected \<le> mc_max_solutions c"
    using assms(1) sel(1) by (auto simp: choose_solutions_def Let_def split: if_splits)
  show "selected \<noteq> []" "hd selected = vs ! bi" "set selected \<subseteq> set vs" using s(1) ne sel by (auto simp: hd_map)
  show "calculate_diversity selected = Some (Inr d)" "length selected \<le> mc_max_solutions c" using s by blast+
  show "\<And>k. ip_min_solutions p = Some k \<Longrightarrow> k \<le> length selected" "\<And>k. ip_min_diversity p = Some k \<Longrightarrow> k \<le> d"
    using s(3,4) by auto
qed

lemma choose_solutions_no_panic:
  assumes "\<forall>v \<in> set vs. solves p v" "length (ip_nodes p) \<le> mc_max_nodes c" "mc_max_nodes c \<le> u32_max"
    and "bi < length vs" "length vs \<le> mc_max_solutions c" "mc_max_solutions c \<le> u32_max"
  shows "choose_solutions c p vs bi \<noteq> None"
proof -
  let ?tc = "target_count p (length vs)"
  have n: "length (ip_nodes p) \<le> u32_max" "0 < length (ip_nodes p)"
    using assms nth_mem [OF assms(4)] by (auto simp: solves_def well_formed_problem_def)
  obtain sel where sel: "select_from_best vs bi ?tc = Some (Inr sel)" "length sel = min (max ?tc 1) (length vs)"
    "set sel \<subseteq> {..<length vs}"
    using select_from_best_ok [OF solves_lengths [OF assms(1)] n(1) assms(4), of ?tc] by blast
  have sub: "set (map ((!) vs) sel) \<subseteq> set vs" using sel(3) by auto
  then have v: "validate_solution_set (map ((!) vs) sel) (length (ip_nodes p))"
    using assms(1) by (intro solves_lengths) blast
  have lens: "\<forall>x \<in> set (map ((!) vs) sel). length x = length (ip_nodes p)"
    using v by (simp add: validate_solution_set_iff)
  have L: "length (map ((!) vs) sel) \<le> mc_max_solutions c" "length (map ((!) vs) sel) \<le> u32_max"
    using sel(2) assms(5,6) by auto
  show ?thesis
    using sel calculate_diversity_no_panic [OF n(2) _ L(2)] lens L assms(2)
    by (auto simp: choose_solutions_def Let_def ensure_p_None_iff and_then_p_None_iff list_all_iff subset_iff)
qed

end
