(* ===== verification/Mempool_Settle.thy ===== *)
theory Mempool_Settle
  imports Mempool_Submit
begin

text \<open>
  \<open>pallets/quantum-compute-mempool/src/lib.rs\<close>: settlement (claim, reclaim, purge), the block hook that expires orders
  within its budgets, and the storage migration.
\<close>

subsection \<open>Settlement\<close>

definition credit_solver :: "'a \<Rightarrow> balance \<Rightarrow> ('a, 'b) mempool_state \<Rightarrow> ('a, 'b) mempool_state" where
  "credit_solver who amount s =
     s\<lparr>solvers := (solvers s)(who := map_option
         (\<lambda>i. i\<lparr>si_rewards_earned := sat_add u128_max (si_rewards_earned i) amount\<rparr>) (solvers s who))\<rparr>"

fun pay_winners ::
    "('a, 'b, 'p) mempool_config \<Rightarrow> u64 \<Rightarrow> 'a \<Rightarrow> ('a \<times> u128 \<times> i64) list \<Rightarrow> ('a, 'b) mempool_state \<Rightarrow> ('a, 'b) mempool_result" where
  "pay_winners c order_id from [] s = Inr s"
| "pay_winners c order_id from ((winner, payout, energy) # rest) s =
     (if payout = 0 then pay_winners c order_id from rest s
      else and_then (map_err Other (transfer (mc_currency c) from winner payout False (mp_env s))) (\<lambda>e.
           pay_winners c order_id from rest
             (emit_mp (RewardClaimed order_id winner payout) (credit_solver winner payout (s\<lparr>mp_env := e\<rparr>)))))"

definition close_order :: "u64 \<Rightarrow> 'a job_order \<Rightarrow> ('a, 'b) mempool_state \<Rightarrow> ('a, 'b) mempool_state" where
  "close_order order_id order s =
     release_proposer_slot (proposer order) order_id
       (s\<lparr>job_orders := (job_orders s)(order_id \<mapsto> order\<lparr>status := Closed\<rparr>), open_orders := open_orders s - {order_id}\<rparr>)"

definition claim_reward ::
    "('a, 'b, 'p) mempool_config \<Rightarrow> 'a raw_origin \<Rightarrow> u64 \<Rightarrow> ('a, 'b) mempool_state \<Rightarrow> ('a, 'b) mempool_result option" where
  "claim_reward c origin order_id s =
     and_then_p (Some (ensure_signed origin)) (\<lambda>_.
     and_then_p (Some (ok_or (job_orders s order_id) (Module OrderNotFound))) (\<lambda>order.
     and_then_p (Some (ok_or (job_specs s (spec_id order)) (Module JobSpecNotFound))) (\<lambda>spec.
     ensure_p (status order \<noteq> Closed) (Module AlreadyClaimed)
     (ensure_p (status order = Expired) (Module OrderNotExpired)
     (ensure_p (solution_count order > 0) (Module NoSolutionsAccepted)
     (and_then_p (Some (compute_payouts order_id order s)) (\<lambda>payouts.
      case winner_summaries_from_payouts payouts of
        None \<Rightarrow> None
      | Some winners \<Rightarrow>
          and_then_p (Some (validate_result (validation_program spec) (transform_program spec) winners)) (\<lambda>_.
          let (rest, e) = unreserve (mc_currency c) (proposer order) (reward order) (mp_env s) in
          ensure_p (rest = 0) (Module RewardReserveMissing)
          (Some (and_then (pay_winners c order_id (proposer order) payouts (s\<lparr>mp_env := e\<rparr>)) (\<lambda>s1.
             let s2 = close_order order_id order s1;
                 s3 = s2\<lparr>job_specs := (job_specs s2)(spec_id order := map_option
                        (\<lambda>sp. sp\<lparr>successful_orders := sat_add u64_max (successful_orders sp) 1\<rparr>) (job_specs s2 (spec_id order)))\<rparr>
             in Inr (emit_mp (OrderClosed order_id True) s3))))))))))))"

definition reclaim_order ::
    "('a, 'b, 'p) mempool_config \<Rightarrow> 'a raw_origin \<Rightarrow> u64 \<Rightarrow> ('a, 'b) mempool_state \<Rightarrow> ('a, 'b) mempool_result" where
  "reclaim_order c origin order_id s =
     and_then (ensure_signed origin) (\<lambda>caller.
     and_then (ok_or (job_orders s order_id) (Module OrderNotFound)) (\<lambda>order.
     ensure (proposer order = caller) (Module NotProposer)
     (ensure (status order \<noteq> Closed) (Module AlreadyClaimed)
     (ensure (status order = Expired) (Module OrderNotExpired)
     (ensure (solution_count order = 0) (Module NoSolutionsAccepted)
     (let (rest, e) = unreserve (mc_currency c) caller (reward order) (mp_env s) in
      ensure (rest = 0) (Module RewardReserveMissing)
        (Inr (emit_mp (OrderClosed order_id False) (emit_mp (RewardReclaimed order_id caller (reward order))
           (close_order order_id order (s\<lparr>mp_env := e\<rparr>)))))))))))"

definition purge_result ::
    "('a, 'b, 'p) mempool_config \<Rightarrow> 'a raw_origin \<Rightarrow> u64 \<Rightarrow> ('a, 'b) mempool_state \<Rightarrow> ('a, 'b) mempool_result" where
  "purge_result c origin order_id s =
     and_then (ensure_signed origin) (\<lambda>_.
     and_then (ok_or (order_results s order_id) (Module ResultNotFound)) (\<lambda>stored.
     ensure (mp_block s \<ge> sat_add u32_max (settled_at stored) (mc_result_ttl_blocks c)) (Module ResultTtlNotElapsed)
       (Inr (emit_mp (ResultPurged order_id) (s\<lparr>order_results := (order_results s)(order_id := None)\<rparr>)))))"

subsection \<open>Expiry\<close>

text \<open>The defensive branch for missing payouts logs and changes nothing.\<close>

definition finalise_order :: "u64 \<Rightarrow> ('a, 'b) mempool_state \<Rightarrow> ('a, 'b) mempool_state option" where
  "finalise_order order_id s =
     (case job_orders s order_id of
        None \<Rightarrow> Some s
      | Some order0 \<Rightarrow>
          if status order0 \<noteq> Opened then Some s
          else let order = order0\<lparr>status := Expired\<rparr>;
                   s1 = emit_mp (OrderExpired order_id) (s\<lparr>job_orders := (job_orders s)(order_id \<mapsto> order),
                          open_orders := open_orders s - {order_id}\<rparr>)
               in if solution_count order = 0 then Some s1
                  else case compute_payouts order_id order s1 of
                         Inl _ \<Rightarrow> Some s1
                       | Inr payouts \<Rightarrow>
                           map_option (\<lambda>winners. emit_result_ready order_id (delivery order) winners
                               (persist_result_if_needed order_id order winners s1))
                             (winner_summaries_from_payouts payouts))"

fun finalise_all :: "block \<Rightarrow> u64 list \<Rightarrow> ('a, 'b) mempool_state \<Rightarrow> ('a, 'b) mempool_state option" where
  "finalise_all bucket [] s = Some s"
| "finalise_all bucket (order_id # rest) s =
     (case finalise_order order_id (remove_expiry bucket order_id s) of
        None \<Rightarrow> None
      | Some s' \<Rightarrow> finalise_all bucket rest s')"

text \<open>The loop: the remaining order and bucket budgets, the bucket, and the two counters returned.\<close>

fun finalise_loop ::
    "('a, 'b, 'p) mempool_config \<Rightarrow> block \<Rightarrow> u32 \<Rightarrow> u32 \<Rightarrow> block \<Rightarrow> u32 \<Rightarrow> u64 \<Rightarrow> ('a, 'b) mempool_state \<Rightarrow>
     (('a, 'b) mempool_state \<times> block \<times> u32 \<times> u64) option" where
  "finalise_loop c now order_budget 0 bucket finalised visited s = Some (s, bucket, finalised, visited)"
| "finalise_loop c now order_budget (Suc bucket_budget) bucket finalised visited s =
     (if bucket \<le> now \<and> order_budget > 0
      then let order_ids = take order_budget (mc_iter c (orders_expiring_at s bucket));
               taken = length order_ids
           in case finalise_all bucket order_ids s of
                None \<Rightarrow> None
              | Some s' \<Rightarrow>
                  if taken = order_budget
                  then Some (s', bucket, sat_add u32_max finalised taken, sat_add u64_max visited 1)
                  else finalise_loop c now (sat_sub order_budget taken) bucket_budget (sat_add u32_max bucket 1)
                         (sat_add u32_max finalised taken) (sat_add u64_max visited 1) s'
      else Some (s, bucket, finalised, visited))"

definition finalise_expired_orders ::
    "('a, 'b, 'p) mempool_config \<Rightarrow> block \<Rightarrow> ('a, 'b) mempool_state \<Rightarrow> (('a, 'b) mempool_state \<times> u32 \<times> u64) option" where
  "finalise_expired_orders c now s =
     (case finalise_loop c now MAX_FINALISED_ORDERS_PER_BLOCK MAX_FINALISED_ORDERS_PER_BLOCK (next_expiry_bucket s) 0 0 s of
        None \<Rightarrow> None
      | Some (s', bucket, finalised, visited) \<Rightarrow> Some (s'\<lparr>next_expiry_bucket := bucket\<rparr>, finalised, visited))"

definition mempool_on_initialize ::
    "('a, 'b, 'p) mempool_config \<Rightarrow> block \<Rightarrow> ('a, 'b) mempool_state \<Rightarrow> ('a, 'b) mempool_state option" where
  "mempool_on_initialize c now s = map_option fst (finalise_expired_orders c now s)"

subsection \<open>Migration\<close>

text \<open>Clearing the pallet prefix resets every storage item of the pallet; balances stay as they are.\<close>

definition mempool_on_runtime_upgrade ::
    "('a, 'b, 'p) mempool_config \<Rightarrow> ('a, 'b) mempool_state \<Rightarrow> ('a, 'b) mempool_state" where
  "mempool_on_runtime_upgrade c s =
     (if mp_version s \<ge> MEMPOOL_STORAGE_VERSION then s
      else let s1 = (if mp_version s < 2
                     then let w = empty_mempool 0 (mp_events s) (mp_block s) (mp_env s)
                          in (case insert_default_ising_spec c (mc_default_builder c) False w of Inr s' \<Rightarrow> s' | Inl _ \<Rightarrow> w)
                     else s);
               s2 = (if mp_version s < 3 then index_open_orders_for_expiry c s1 else s1)
           in s2\<lparr>mp_version := MEMPOOL_STORAGE_VERSION\<rparr>)"

end
