(* ===== verification/Mempool_Frame.thy ===== *)
theory Mempool_Frame
  imports Mempool_Settle
begin

text \<open>
  What each operation of the mempool leaves alone, and the effect of an accepted submission, a proposal
  and a closure on the fields that matter to the invariants.
\<close>

named_theorems mp_fields \<open>fields after the state helpers of the mempool\<close>

abbreviation (input) same_ranking :: "('a, 'b) mempool_state \<Rightarrow> ('a, 'b) mempool_state \<Rightarrow> bool" where
  "same_ranking s s' \<equiv> order_solutions s' = order_solutions s \<and> order_front_runner s' = order_front_runner s \<and>
     order_top_solvers s' = order_top_solvers s"

abbreviation (input) same_orders :: "('a, 'b) mempool_state \<Rightarrow> ('a, 'b) mempool_state \<Rightarrow> bool" where
  "same_orders s s' \<equiv> job_orders s' = job_orders s \<and> next_order_id s' = next_order_id s \<and> open_orders s' = open_orders s \<and>
     proposer_orders s' = proposer_orders s \<and> mp_block s' = mp_block s"

abbreviation (input) same_index :: "('a, 'b) mempool_state \<Rightarrow> ('a, 'b) mempool_state \<Rightarrow> bool" where
  "same_index s s' \<equiv> orders_expiring_at s' = orders_expiring_at s \<and> next_expiry_bucket s' = next_expiry_bucket s"

lemma emit_mp_fields [mp_fields]:
  "same_ranking s (emit_mp ev s)" "same_orders s (emit_mp ev s)" "same_index s (emit_mp ev s)"
  "job_specs (emit_mp ev s) = job_specs s" "mp_env (emit_mp ev s) = mp_env s" "solvers (emit_mp ev s) = solvers s"
  "order_payees (emit_mp ev s) = order_payees s" "order_results (emit_mp ev s) = order_results s"
  "order_payee_requirements (emit_mp ev s) = order_payee_requirements s"
  by (simp_all add: emit_mp_def)

lemma schedule_expiry_fields [mp_fields]:
  "same_ranking s (schedule_expiry oid e s)" "same_orders s (schedule_expiry oid e s)"
  "next_expiry_bucket (schedule_expiry oid e s) = next_expiry_bucket s"
  "job_specs (schedule_expiry oid e s) = job_specs s" "mp_env (schedule_expiry oid e s) = mp_env s"
  "solvers (schedule_expiry oid e s) = solvers s" "order_payees (schedule_expiry oid e s) = order_payees s"
  "order_payee_requirements (schedule_expiry oid e s) = order_payee_requirements s"
  "orders_expiring_at (schedule_expiry oid e s) =
     (orders_expiring_at s)(expiry_bucket s e := insert oid (orders_expiring_at s (expiry_bucket s e)))"
  by (simp_all add: schedule_expiry_def Let_def)

lemma remove_expiry_fields [mp_fields]:
  "same_ranking s (remove_expiry b oid s)" "same_orders s (remove_expiry b oid s)"
  "next_expiry_bucket (remove_expiry b oid s) = next_expiry_bucket s"
  "job_specs (remove_expiry b oid s) = job_specs s" "mp_env (remove_expiry b oid s) = mp_env s"
  "solvers (remove_expiry b oid s) = solvers s" "order_payees (remove_expiry b oid s) = order_payees s"
  "order_payee_requirements (remove_expiry b oid s) = order_payee_requirements s"
  "orders_expiring_at (remove_expiry b oid s) = (orders_expiring_at s)(b := orders_expiring_at s b - {oid})"
  by (simp_all add: remove_expiry_def)

lemma expiry_bucket_fields [mp_fields]: "expiry_bucket (remove_expiry b oid s) e = expiry_bucket s e"
  by (simp add: expiry_bucket_def remove_expiry_def)

lemma set_payee_fields [mp_fields]:
  "same_ranking s (set_payee who oid p s)" "same_orders s (set_payee who oid p s)" "same_index s (set_payee who oid p s)"
  "job_specs (set_payee who oid p s) = job_specs s" "mp_env (set_payee who oid p s) = mp_env s"
  "solvers (set_payee who oid p s) = solvers s"
  "order_payees (set_payee who oid p s) = (order_payees s)(oid := (order_payees s oid)(who := p))"
  by (auto simp: set_payee_def emit_mp_def)

lemma release_proposer_slot_fields [mp_fields]:
  "same_ranking s (release_proposer_slot who oid s)" "same_index s (release_proposer_slot who oid s)"
  "job_orders (release_proposer_slot who oid s) = job_orders s" "next_order_id (release_proposer_slot who oid s) = next_order_id s"
  "open_orders (release_proposer_slot who oid s) = open_orders s" "mp_block (release_proposer_slot who oid s) = mp_block s"
  "job_specs (release_proposer_slot who oid s) = job_specs s" "mp_env (release_proposer_slot who oid s) = mp_env s"
  "slots_of x (release_proposer_slot who oid s) = (if x = who then filter (\<lambda>i. i \<noteq> oid) (slots_of x s) else slots_of x s)"
  by (auto simp: release_proposer_slot_def slots_of_def Let_def split: option.splits)

lemma slots_of_cong: "proposer_orders s' = proposer_orders s \<Longrightarrow> slots_of x s' = slots_of x s"
  by (simp add: slots_of_def)

lemma slots_of_update [mp_fields]:
  "slots_of x (s\<lparr>job_orders := a\<rparr>) = slots_of x s" "slots_of x (s\<lparr>open_orders := b\<rparr>) = slots_of x s"
  by (simp_all add: slots_of_def)

lemma close_order_fields [mp_fields]:
  "same_ranking s (close_order oid o1 s)" "same_index s (close_order oid o1 s)"
  "next_order_id (close_order oid o1 s) = next_order_id s" "mp_block (close_order oid o1 s) = mp_block s"
  "job_specs (close_order oid o1 s) = job_specs s" "mp_env (close_order oid o1 s) = mp_env s"
  "job_orders (close_order oid o1 s) = (job_orders s)(oid \<mapsto> o1\<lparr>status := Closed\<rparr>)"
  "open_orders (close_order oid o1 s) = open_orders s - {oid}"
  "slots_of x (close_order oid o1 s) = (if x = proposer o1 then filter (\<lambda>i. i \<noteq> oid) (slots_of x s) else slots_of x s)"
  by (simp_all add: close_order_def mp_fields)

subsection \<open>An accepted submission\<close>

text \<open>The order as it is stored after a submission.\<close>

definition order_after :: "'a \<Rightarrow> u64 \<Rightarrow> 'a job_order \<Rightarrow> ('a, 'b) mempool_state \<Rightarrow> 'a job_order" where
  "order_after who oid o1 s =
     o1\<lparr>solution_count := (if order_solutions s oid who = None then sat_add u32_max (solution_count o1) 1 else solution_count o1),
        first_solution_at := (if first_solution_at o1 = None then Some (mp_block s) else first_solution_at o1)\<rparr>"

text \<open>The expiry index after a submission.\<close>

definition index_after :: "u64 \<Rightarrow> 'a job_order \<Rightarrow> ('a, 'b) mempool_state \<Rightarrow> block \<Rightarrow> u64 set" where
  "index_after oid o1 s =
     (let hard = effective_expiry (created_at o1) None (timing o1);
          closes = effective_expiry (created_at o1) (Some (mp_block s)) (timing o1);
          moved = (orders_expiring_at s)(hard := orders_expiring_at s hard - {oid});
          b = expiry_bucket s closes
      in if first_solution_at o1 = None \<and> closes < hard then moved(b := insert oid (moved b)) else orders_expiring_at s)"

lemma index_after_cong:
  "first_solution_at a = first_solution_at b \<Longrightarrow> created_at a = created_at b \<Longrightarrow> timing a = timing b \<Longrightarrow>
     orders_expiring_at s' = orders_expiring_at s \<Longrightarrow> mp_block s' = mp_block s \<Longrightarrow> index_after oid a s' = index_after oid b s"
  by (simp add: index_after_def expiry_bucket_def Let_def)

lemma start_block_wait_eq:
  assumes "start_block_wait who oid o1 s = (o2, s2)"
  shows "o2 = o1\<lparr>first_solution_at := (if first_solution_at o1 = None then Some (mp_block s) else first_solution_at o1)\<rparr>"
    "same_ranking s s2" "same_orders s s2" "orders_expiring_at s2 = index_after oid o1 s"
    "next_expiry_bucket s2 = next_expiry_bucket s" "job_specs s2 = job_specs s" "mp_env s2 = mp_env s" "solvers s2 = solvers s"
    "order_payees s2 = order_payees s"
  using assms
  by (auto simp: start_block_wait_def index_after_def Let_def mp_fields effective_expiry_def split: if_splits)

lemma update_top_solvers_Inr:
  assumes "update_top_solvers oid n who e s = Inr s'"
  shows "order_top_solvers s' = (order_top_solvers s)(oid := update_ranked_solvers (order_top_solvers s oid) \<lparr>solver = who, rank_energy = e\<rparr> n)"
    "order_solutions s' = order_solutions s" "order_front_runner s' = order_front_runner s" "same_orders s s'" "same_index s s'"
    "job_specs s' = job_specs s" "mp_env s' = mp_env s" "solvers s' = solvers s" "order_payees s' = order_payees s"
proof -
  from assms obtain ev where "s' = s\<lparr>order_top_solvers := (order_top_solvers s)(oid := update_ranked_solvers (order_top_solvers s oid) \<lparr>solver = who, rank_energy = e\<rparr> n)\<rparr> \<or>
    s' = emit_mp ev (s\<lparr>order_top_solvers := (order_top_solvers s)(oid := update_ranked_solvers (order_top_solvers s oid) \<lparr>solver = who, rank_energy = e\<rparr> n)\<rparr>)"
    by (auto simp: update_top_solvers_def Let_def split: if_splits option.splits)
  then show "order_top_solvers s' = (order_top_solvers s)(oid := update_ranked_solvers (order_top_solvers s oid) \<lparr>solver = who, rank_energy = e\<rparr> n)"
    "order_solutions s' = order_solutions s" "order_front_runner s' = order_front_runner s" "same_orders s s'" "same_index s s'"
    "job_specs s' = job_specs s" "mp_env s' = mp_env s" "solvers s' = solvers s" "order_payees s' = order_payees s"
    by (auto simp: mp_fields)
qed

lemma update_front_runner_fields [mp_fields]:
  "order_front_runner (update_front_runner oid who e s) =
     (if (case order_front_runner s oid of Some r \<Rightarrow> e < rank_energy r | None \<Rightarrow> True)
      then (order_front_runner s)(oid \<mapsto> \<lparr>solver = who, rank_energy = e\<rparr>) else order_front_runner s)"
  "order_solutions (update_front_runner oid who e s) = order_solutions s"
  "order_top_solvers (update_front_runner oid who e s) = order_top_solvers s"
  "same_orders s (update_front_runner oid who e s)" "same_index s (update_front_runner oid who e s)"
  "job_specs (update_front_runner oid who e s) = job_specs s" "mp_env (update_front_runner oid who e s) = mp_env s"
  "order_payees (update_front_runner oid who e s) = order_payees s"
  by (simp_all add: update_front_runner_def mp_fields)

lemma update_ranking_Inr:
  assumes "update_ranking oid res who e s = Inr s'"
  shows "order_solutions s' = order_solutions s" "same_orders s s'" "same_index s s'"
    "job_specs s' = job_specs s" "mp_env s' = mp_env s" "order_payees s' = order_payees s"
    "order_front_runner s' = (case res of SingleBest \<Rightarrow> order_front_runner (update_front_runner oid who e s) | _ \<Rightarrow> order_front_runner s)"
    "order_top_solvers s' = (case res of SingleBest \<Rightarrow> order_top_solvers s
      | TopNWeighted n \<Rightarrow> (order_top_solvers s)(oid := update_ranked_solvers (order_top_solvers s oid) \<lparr>solver = who, rank_energy = e\<rparr> n)
      | TopNEqual n \<Rightarrow> (order_top_solvers s)(oid := update_ranked_solvers (order_top_solvers s oid) \<lparr>solver = who, rank_energy = e\<rparr> n))"
  using assms by (cases res; auto simp: update_ranking_def mp_fields dest: update_top_solvers_Inr)+

text \<open>The solution stored for the solver.\<close>

abbreviation (input) new_solution :: "'a \<Rightarrow> 'a solver_info \<Rightarrow> i8 list list \<Rightarrow> i64 \<Rightarrow> u32 \<Rightarrow> ('a, 'b) mempool_state \<Rightarrow> 'a job_solution" where
  "new_solution who info sel be d s \<equiv>
     \<lparr>js_solver = who, js_solver_type = solver_type info, js_solutions = sel, js_best_energy = be, js_diversity = d,
      js_num_valid = length sel, js_submitted_at = mp_block s\<rparr>"

lemma accept_solution_Inr:
  assumes "accept_solution who oid info o1 payee be sel d s = Inr s'"
  shows "job_orders s' = (job_orders s)(oid \<mapsto> order_after who oid o1 s)"
    "order_solutions s' = (order_solutions s)(oid := (order_solutions s oid)(who \<mapsto> new_solution who info sel be d s))"
    "orders_expiring_at s' = index_after oid o1 s"
    "next_expiry_bucket s' = next_expiry_bucket s" "next_order_id s' = next_order_id s" "open_orders s' = open_orders s"
    "proposer_orders s' = proposer_orders s" "mp_block s' = mp_block s" "job_specs s' = job_specs s" "mp_env s' = mp_env s"
    "order_payees s' oid who = payee"
    "order_front_runner s' = (case resolution o1 of SingleBest \<Rightarrow> order_front_runner (update_front_runner oid who be s) | _ \<Rightarrow> order_front_runner s)"
    "order_top_solvers s' = (case resolution o1 of SingleBest \<Rightarrow> order_top_solvers s
      | TopNWeighted n \<Rightarrow> (order_top_solvers s)(oid := update_ranked_solvers (order_top_solvers s oid) \<lparr>solver = who, rank_energy = be\<rparr> n)
      | TopNEqual n \<Rightarrow> (order_top_solvers s)(oid := update_ranked_solvers (order_top_solvers s oid) \<lparr>solver = who, rank_energy = be\<rparr> n))"
proof -
  define s1 where "s1 = s\<lparr>order_solutions := (order_solutions s)(oid := (order_solutions s oid)(who \<mapsto> new_solution who info sel be d s))\<rparr>"
  define o1' where "o1' = (if order_solutions s oid who = None then o1\<lparr>solution_count := sat_add u32_max (solution_count o1) 1\<rparr> else o1)"
  obtain o2 s2 where w: "start_block_wait who oid o1' s1 = (o2, s2)" by fastforce
  obtain s3 where u: "update_ranking oid (resolution o2) who be s2 = Inr s3"
    and s': "s' = emit_mp (SolutionAccepted oid who be d)
      ((set_payee who oid payee s3)\<lparr>solvers := (solvers (set_payee who oid payee s3))(who \<mapsto>
                       info\<lparr>solutions_submitted := sat_add u64_max (solutions_submitted info) 1\<rparr>),
                     job_orders := (job_orders (set_payee who oid payee s3))(oid \<mapsto> o2)\<rparr>)"
    using assms w by (auto simp: accept_solution_def Let_def s1_def [symmetric] o1'_def [symmetric])
  note W = start_block_wait_eq [OF w]
  note U = update_ranking_Inr [OF u]
  have i: "index_after oid o1' s1 = index_after oid o1 s" by (rule index_after_cong) (simp_all add: o1'_def s1_def)
  have o2: "o2 = order_after who oid o1 s" using W(1) by (auto simp: o1'_def order_after_def s1_def)
  have r: "resolution o2 = resolution o1" by (simp add: o2 order_after_def)
  show "job_orders s' = (job_orders s)(oid \<mapsto> order_after who oid o1 s)"
    "order_solutions s' = (order_solutions s)(oid := (order_solutions s oid)(who \<mapsto> new_solution who info sel be d s))"
    "next_expiry_bucket s' = next_expiry_bucket s" "next_order_id s' = next_order_id s" "open_orders s' = open_orders s"
    "proposer_orders s' = proposer_orders s" "mp_block s' = mp_block s" "job_specs s' = job_specs s" "mp_env s' = mp_env s"
    "order_payees s' oid who = payee"
    using W U by (simp_all add: s' mp_fields o2 s1_def)
  show "orders_expiring_at s' = index_after oid o1 s" using W U i by (simp add: s' mp_fields)
  have sf: "order_front_runner s2 = order_front_runner s" "order_top_solvers s2 = order_top_solvers s" using W by (simp_all add: s1_def)
  show "order_front_runner s' = (case resolution o1 of SingleBest \<Rightarrow> order_front_runner (update_front_runner oid who be s) | _ \<Rightarrow> order_front_runner s)"
    using U(7) r sf by (simp add: s' mp_fields split: reward_resolution.splits)
  show "order_top_solvers s' = (case resolution o1 of SingleBest \<Rightarrow> order_top_solvers s
      | TopNWeighted n \<Rightarrow> (order_top_solvers s)(oid := update_ranked_solvers (order_top_solvers s oid) \<lparr>solver = who, rank_energy = be\<rparr> n)
      | TopNEqual n \<Rightarrow> (order_top_solvers s)(oid := update_ranked_solvers (order_top_solvers s oid) \<lparr>solver = who, rank_energy = be\<rparr> n))"
    using U(8) r sf by (simp add: s' mp_fields split: reward_resolution.splits)
qed

lemma check_submission_Inr:
  "check_submission who oid sols payee s = Inr (info, o1, spec) \<longleftrightarrow>
     solvers s who = Some info \<and> sols \<noteq> [] \<and> job_orders s oid = Some o1 \<and> job_specs s (spec_id o1) = Some spec \<and>
     status o1 = Opened \<and> mp_block s < order_expiry o1 \<and> check_payee (order_payee_requirements s oid) payee = Inr () \<and>
     solver_is_eligible who (solver_type info) (job_mode o1)"
  by (auto simp: check_submission_def is_expired_def order_expiry_def)

text \<open>The phases of a submission that succeeded.\<close>

lemma submit_solution_inner_Inr:
  assumes "submit_solution_inner c who oid sols payee s = Some (Inr s')"
  obtains info o1 spec vs be bi sel d where "check_submission who oid sols payee s = Inr (info, o1, spec)"
    "score_submission c o1 spec sols s = Inr (vs, be, bi)"
    "\<And>old. order_solutions s oid who = Some old \<Longrightarrow> be < js_best_energy old"
    "choose_solutions c (params o1) vs bi = Some (Inr (sel, d))"
    "accept_solution who oid info o1 payee be sel d s = Inr s'"
proof -
  obtain info o1 spec where a: "check_submission who oid sols payee s = Inr (info, o1, spec)"
    using assms by (auto simp: submit_solution_inner_def)
  obtain vs be bi where b: "score_submission c o1 spec sols s = Inr (vs, be, bi)"
    using assms a by (auto simp: submit_solution_inner_def)
  obtain sel d where d: "choose_solutions c (params o1) vs bi = Some (Inr (sel, d))"
    using assms a b by (auto simp: submit_solution_inner_def)
  have "case order_solutions s oid who of None \<Rightarrow> True | Some old \<Rightarrow> be < js_best_energy old"
    "accept_solution who oid info o1 payee be sel d s = Inr s'"
    using assms a b d by (simp_all add: submit_solution_inner_def)
  then show ?thesis using that [OF a b _ d] by (auto split: option.splits)
qed

subsection \<open>A proposal\<close>

lemma check_proposal_Inr:
  "check_proposal c sid p r m res t d s = Inr u \<Longrightarrow>
     job_specs s sid \<noteq> None \<and> mc_min_reward c \<le> r \<and> ensure_valid_resolution res = Inr () \<and>
     distinct (ip_nodes p) \<and> edges_known (ip_nodes p) (ip_edges p) \<and> length (h_values p) = length (ip_nodes p) \<and>
     length (j_values p) = length (ip_edges p) \<and> deadline_blocks t \<le> mc_max_deadline_blocks c"
  by (auto simp: check_proposal_def validate_topology_consistency_Nil_iff)

abbreviation (input) new_order ::
    "mhash \<Rightarrow> 'a \<Rightarrow> ising_params \<Rightarrow> balance \<Rightarrow> 'a job_mode \<Rightarrow> reward_resolution \<Rightarrow> order_timing \<Rightarrow> result_delivery \<Rightarrow> block \<Rightarrow> 'a job_order" where
  "new_order sid who p r m res t d now \<equiv>
     \<lparr>spec_id = sid, proposer = who, params = p, reward = r, job_mode = m, resolution = res, timing = t, delivery = d,
      status = Opened, created_at = now, first_solution_at = None, solution_count = 0\<rparr>"

lemma do_propose_job_Inr:
  assumes "do_propose_job c who sid p r m res t d s = Inr (oid, s')"
  shows "oid = next_order_id s" "check_proposal c sid p r m res t d s = Inr ()"
    "length (slots_of who s) < mc_max_orders_per_proposer c"
    "reserve (mc_currency c) who r (mp_env s) = Inr (mp_env s')"
    "next_order_id s' = sat_add u64_max oid 1" "job_orders s' = (job_orders s)(oid \<mapsto> new_order sid who p r m res t d (mp_block s))"
    "open_orders s' = insert oid (open_orders s)"
    "orders_expiring_at s' = (let b = expiry_bucket s (sat_add u32_max (mp_block s) (deadline_blocks t))
       in (orders_expiring_at s)(b := insert oid (orders_expiring_at s b)))"
    "slots_of x s' = (if x = who then slots_of x s @ [oid] else slots_of x s)"
    "same_ranking s s'" "next_expiry_bucket s' = next_expiry_bucket s" "mp_block s' = mp_block s" "dom (job_specs s') = dom (job_specs s)"
    "proposer_orders s' who = Some (slots_of who s @ [oid])" "x \<noteq> who \<Longrightarrow> proposer_orders s' x = proposer_orders s x"
  using assms
  by (auto simp: do_propose_job_def Let_def mp_fields expiry_bucket_def slots_of_def less_eq_Suc_le split: if_splits)

end
