(* ===== verification/Mempool_Inv.thy ===== *)
theory Mempool_Inv
  imports Mempool_Frame
begin

text \<open>
  The invariant of the mempool: what every stored order satisfies, the expiry index and its cursor, and the
  proposers' slots; that each operation preserves it; and that each operation moves the reserved balances
  exactly with the escrow, the sum of the unsettled rewards.
\<close>

subsection \<open>The invariant\<close>

definition best_energies :: "u64 \<Rightarrow> ('a, 'b) mempool_state \<Rightarrow> 'a \<rightharpoonup> i64" where
  "best_energies oid s = (\<lambda>x. map_option js_best_energy (order_solutions s oid x))"

fun winner_limit :: "reward_resolution \<Rightarrow> nat" where
  "winner_limit SingleBest = 1"
| "winner_limit (TopNWeighted n) = n"
| "winner_limit (TopNEqual n) = n"

definition order_ranking :: "u64 \<Rightarrow> 'a job_order \<Rightarrow> ('a, 'b) mempool_state \<Rightarrow> 'a ranked_solver list" where
  "order_ranking oid o1 s =
     (case resolution o1 of
        SingleBest \<Rightarrow> (case order_front_runner s oid of None \<Rightarrow> [] | Some r \<Rightarrow> [r])
      | _ \<Rightarrow> order_top_solvers s oid)"

definition order_ok :: "('a, 'b, 'p) mempool_config \<Rightarrow> ('a, 'b) mempool_state \<Rightarrow> u64 \<Rightarrow> 'a job_order \<Rightarrow> bool" where
  "order_ok c s oid o1 \<longleftrightarrow>
     oid < next_order_id s \<and> job_specs s (spec_id o1) \<noteq> None \<and> length (ip_nodes (params o1)) \<le> mc_max_nodes c \<and>
     ensure_valid_resolution (resolution o1) = Inr () \<and> reward o1 \<le> u128_max \<and> created_at o1 \<le> mp_block s \<and>
     (first_solution_at o1 = None \<longleftrightarrow> order_solutions s oid = Map.empty) \<and>
     solution_count o1 = min u32_max (card (dom (order_solutions s oid))) \<and>
     ranking_of (winner_limit (resolution o1)) (best_energies oid s) (order_ranking oid o1 s) \<and>
     (status o1 \<noteq> Opened \<longrightarrow> order_expiry o1 \<le> mp_block s)"

definition orders_ok :: "('a, 'b, 'p) mempool_config \<Rightarrow> ('a, 'b) mempool_state \<Rightarrow> bool" where
  "orders_ok c s \<longleftrightarrow>
     (\<forall>oid o1. job_orders s oid = Some o1 \<longrightarrow> order_ok c s oid o1) \<and>
     (\<forall>oid. job_orders s oid = None \<longrightarrow>
        order_solutions s oid = Map.empty \<and> order_front_runner s oid = None \<and> order_top_solvers s oid = [])"

definition opened :: "('a, 'b) mempool_state \<Rightarrow> u64 \<Rightarrow> bool" where
  "opened s oid \<longleftrightarrow> (\<exists>o1. job_orders s oid = Some o1 \<and> status o1 = Opened)"

text \<open>Every open order is in exactly one bucket, at its expiry or, if that has passed, not later than the next block.\<close>

definition index_ok :: "('a, 'b) mempool_state \<Rightarrow> bool" where
  "index_ok s \<longleftrightarrow>
     open_orders s = {oid. opened s oid} \<and>
     (\<forall>b oid. oid \<in> orders_expiring_at s b \<longrightarrow>
        (\<exists>o1. job_orders s oid = Some o1 \<and> status o1 = Opened \<and> order_expiry o1 \<le> b \<and>
           b \<le> max (order_expiry o1) (Suc (mp_block s)))) \<and>
     (\<forall>oid. opened s oid \<longrightarrow> (\<exists>!b. oid \<in> orders_expiring_at s b))"

definition cursor_ok :: "block \<Rightarrow> ('a, 'b) mempool_state \<Rightarrow> bool" where
  "cursor_ok cursor s \<longleftrightarrow> cursor \<le> Suc (mp_block s) \<and> (\<forall>b < cursor. orders_expiring_at s b = {})"

text \<open>The orders of an account whose reward is still reserved.\<close>

definition unsettled :: "('a, 'b) mempool_state \<Rightarrow> 'a \<Rightarrow> u64 set" where
  "unsettled s x = {oid. \<exists>o1. job_orders s oid = Some o1 \<and> proposer o1 = x \<and> status o1 \<noteq> Closed}"

definition slots_ok :: "('a, 'b, 'p) mempool_config \<Rightarrow> ('a, 'b) mempool_state \<Rightarrow> bool" where
  "slots_ok c s \<longleftrightarrow>
     (\<forall>x. distinct (slots_of x s) \<and> set (slots_of x s) = unsettled s x \<and>
        length (slots_of x s) \<le> mc_max_orders_per_proposer c \<and> proposer_orders s x \<noteq> Some [])"

definition escrow :: "('a, 'b) mempool_state \<Rightarrow> 'a \<Rightarrow> balance" where
  "escrow s x = (\<Sum>oid \<in> unsettled s x. reward (the (job_orders s oid)))"

definition escrow_ok :: "('a, 'b, 'p) mempool_config \<Rightarrow> ('a, 'b) mempool_state \<Rightarrow> bool" where
  "escrow_ok c s \<longleftrightarrow> (\<forall>x. escrow s x \<le> reserved_balance (mc_currency c) (mp_env s) x)"

text \<open>The reserve of every account changes by exactly as much as its escrow.\<close>

definition escrow_moves :: "('a, 'b, 'p) mempool_config \<Rightarrow> ('a, 'b) mempool_state \<Rightarrow> ('a, 'b) mempool_state \<Rightarrow> bool" where
  "escrow_moves c s s' \<longleftrightarrow>
     (\<forall>x. reserved_balance (mc_currency c) (mp_env s') x + escrow s x = reserved_balance (mc_currency c) (mp_env s) x + escrow s' x)"

definition mempool_inv :: "('a, 'b, 'p) mempool_config \<Rightarrow> ('a, 'b) mempool_state \<Rightarrow> bool" where
  "mempool_inv c s \<longleftrightarrow>
     orders_ok c s \<and> index_ok s \<and> cursor_ok (next_expiry_bucket s) s \<and> slots_ok c s"

text \<open>What the configuration and the services it names must provide.\<close>

definition mempool_cfg_ok :: "('a, 'b, 'p) mempool_config \<Rightarrow> bool" where
  "mempool_cfg_ok c \<longleftrightarrow>
     mc_max_nodes c \<le> u32_max \<and> mc_max_solutions c \<le> u32_max \<and>
     (\<forall>S. finite S \<longrightarrow> set (mc_iter c S) = S \<and> distinct (mc_iter c S)) \<and>
     reserve_laws (mc_currency c) \<and> transfer_laws (mc_currency c) \<and> (\<forall>e. vm_laws (mc_vm c e))"

subsection \<open>Consequences\<close>

lemma orders_finite:
  assumes "orders_ok c s" shows "finite {oid. job_orders s oid \<noteq> None}"
proof (rule finite_subset)
  show "{oid. job_orders s oid \<noteq> None} \<subseteq> {..<next_order_id s}" using assms by (auto simp: orders_ok_def order_ok_def)
qed simp

lemma unsettled_finite: "orders_ok c s \<Longrightarrow> finite (unsettled s x)"
  by (rule finite_subset [OF _ orders_finite]) (auto simp: unsettled_def)

lemma bucket_finite: "orders_ok c s \<Longrightarrow> index_ok s \<Longrightarrow> finite (orders_expiring_at s b)"
  by (rule finite_subset [OF _ orders_finite]) (fastforce simp: index_ok_def)+

lemma index_entry:
  assumes "index_ok s" "oid \<in> orders_expiring_at s b"
  obtains o1 where "job_orders s oid = Some o1" "status o1 = Opened" "order_expiry o1 \<le> b" "b \<le> max (order_expiry o1) (Suc (mp_block s))"
  using assms unfolding index_ok_def by blast

lemma not_indexed: "index_ok s \<Longrightarrow> \<not> opened s oid \<Longrightarrow> oid \<notin> orders_expiring_at s b"
  by (auto simp: opened_def elim: index_entry)

lemma bucket_unique:
  "index_ok s \<Longrightarrow> oid \<in> orders_expiring_at s b \<Longrightarrow> oid \<in> orders_expiring_at s b' \<Longrightarrow> b = b'"
  unfolding index_ok_def opened_def by blast

text \<open>An order that has not expired is in the bucket of its expiry.\<close>

lemma live_bucket:
  assumes "index_ok s" "job_orders s oid = Some o1" "status o1 = Opened" "mp_block s < order_expiry o1"
  shows "oid \<in> orders_expiring_at s b \<longleftrightarrow> b = order_expiry o1"
proof -
  obtain b0 where b0: "oid \<in> orders_expiring_at s b0" using assms(1-3) unfolding index_ok_def opened_def by blast
  then have "b0 = order_expiry o1" using assms unfolding index_ok_def by fastforce
  then show ?thesis using b0 bucket_unique [OF assms(1)] by blast
qed

lemma valid_resolution_limit:
  "ensure_valid_resolution res = Inr u \<Longrightarrow> 0 < winner_limit res \<and> winner_limit res \<le> MAX_REWARD_WINNERS"
  by (cases res) (auto simp: valid_winner_count_def MAX_REWARD_WINNERS_def)

subsection \<open>Changes outside the orders\<close>

lemma escrow_moves_ok:
  assumes "escrow_moves c s s'" "escrow_ok c s" shows "escrow_ok c s'"
  unfolding escrow_ok_def
proof
  fix x
  have "reserved_balance (mc_currency c) (mp_env s') x + escrow s x = reserved_balance (mc_currency c) (mp_env s) x + escrow s' x"
    "escrow s x \<le> reserved_balance (mc_currency c) (mp_env s) x" using assms by (simp_all add: escrow_moves_def escrow_ok_def)
  then show "escrow s' x \<le> reserved_balance (mc_currency c) (mp_env s') x" by linarith
qed

lemma escrow_moves_frame:
  "same_orders s s' \<Longrightarrow> mp_env s' = mp_env s \<Longrightarrow> escrow_moves c s s'"
  by (simp add: escrow_moves_def escrow_def unsettled_def)

lemma mempool_inv_frame:
  assumes "mempool_inv c s" "same_ranking s s'" "same_orders s s'" "same_index s s'" "dom (job_specs s) \<subseteq> dom (job_specs s')"
  shows "mempool_inv c s'"
proof -
  have u: "unsettled s' x = unsettled s x" "slots_of x s' = slots_of x s" "opened s' oid = opened s oid"
    "order_ranking oid o1 s' = order_ranking oid o1 s" "best_energies oid s' = best_energies oid s" for x oid o1
    using assms by (simp_all add: unsettled_def slots_of_def opened_def order_ranking_def best_energies_def cong: reward_resolution.case_cong)
  have "job_specs s' sid \<noteq> None" if "job_specs s sid \<noteq> None" for sid using assms(5) that by blast
  then have "order_ok c s' oid o1" if "order_ok c s oid o1" for oid o1
    using that assms(2-4) u by (auto simp: order_ok_def)
  then show ?thesis using assms u by (simp add: mempool_inv_def orders_ok_def index_ok_def cursor_ok_def slots_ok_def)
qed

subsection \<open>Submissions\<close>

text \<open>Both ways of keeping the ranking are one step of the incremental ranking.\<close>

lemma ranking_after:
  assumes "accept_solution who oid info o1 payee be sel d s = Inr s'"
    and "\<And>r. order_front_runner s oid = Some r \<Longrightarrow> solver r = who \<Longrightarrow> be < rank_energy r"
    and "resolution o2 = resolution o1"
  shows "order_ranking oid o2 s' =
    update_ranked_solvers (order_ranking oid o1 s) \<lparr>solver = who, rank_energy = be\<rparr> (winner_limit (resolution o1))"
  using accept_solution_Inr(12,13) [OF assms(1)] assms(2,3)
  by (auto simp: order_ranking_def mp_fields update_ranked_solvers_def not_less split: reward_resolution.splits option.splits)

lemma expiry_after:
  "order_expiry (order_after who oid o1 s) =
     (if first_solution_at o1 = None then effective_expiry (created_at o1) (Some (mp_block s)) (timing o1) else order_expiry o1)"
  by (simp add: order_expiry_def order_after_def)

lemma order_after_fields [mp_fields]:
  "spec_id (order_after who oid o1 s) = spec_id o1" "params (order_after who oid o1 s) = params o1"
  "resolution (order_after who oid o1 s) = resolution o1" "reward (order_after who oid o1 s) = reward o1"
  "created_at (order_after who oid o1 s) = created_at o1" "status (order_after who oid o1 s) = status o1"
  "proposer (order_after who oid o1 s) = proposer o1"
  by (simp_all add: order_after_def)

lemma best_energies_front:
  assumes "order_ok c s oid o1" "resolution o1 = SingleBest" "order_front_runner s oid = Some r"
  shows "best_energies oid s (solver r) = Some (rank_energy r)"
  using assms by (simp add: order_ok_def order_ranking_def ranking_of_def)

lemma submit_orders_ok:
  assumes inv: "orders_ok c s" and o1: "job_orders s oid = Some o1" "status o1 = Opened"
    and better: "\<And>old. order_solutions s oid who = Some old \<Longrightarrow> be < js_best_energy old"
    and acc: "accept_solution who oid info o1 payee be sel d s = Inr s'"
  shows "orders_ok c s'"
proof -
  note A = accept_solution_Inr [OF acc]
  let ?o = "order_after who oid o1 s" and ?c = "\<lparr>solver = who, rank_energy = be\<rparr>"
  have ok: "order_ok c s oid o1" using inv o1(1) by (simp add: orders_ok_def)
  have better': "e0 > be" if "best_energies oid s who = Some e0" for e0 using better that by (auto simp: best_energies_def)
  have be: "best_energies oid s' = (best_energies oid s)(who \<mapsto> be)" by (auto simp: best_energies_def A(2))
  have "order_ranking oid ?o s' = update_ranked_solvers (order_ranking oid o1 s) ?c (winner_limit (resolution o1))"
  proof (cases "resolution o1 = SingleBest")
    case True
    show ?thesis by (rule ranking_after [OF acc]) (use best_energies_front [OF ok True] better' in \<open>auto simp: mp_fields\<close>)
  next
    case False
    then show ?thesis using A(13) by (auto simp: order_ranking_def mp_fields split: reward_resolution.splits)
  qed
  then have rank: "ranking_of (winner_limit (resolution o1)) (best_energies oid s') (order_ranking oid ?o s')"
    using update_ranked_solvers_ok [of "winner_limit (resolution o1)" "best_energies oid s" "order_ranking oid o1 s" ?c] ok better' be
    by (simp add: order_ok_def)
  have fin: "finite (dom (order_solutions s oid))"
    using ok by (auto simp: order_ok_def ranking_of_def best_energies_def dom_def)
  have cnt: "solution_count ?o = min u32_max (card (dom (order_solutions s' oid)))"
    using ok fin by (cases "order_solutions s oid who")
      (auto simp: order_ok_def order_after_def A(2) sat_add_def insert_absorb domIff card_insert_if dom_def[symmetric] min_def)
  have "order_ok c s' oid ?o"
    using ok rank cnt A o1(2) unfolding order_ok_def by (auto simp: mp_fields order_after_def)
  moreover have "order_ok c s' oid' o'" if "oid' \<noteq> oid" "order_ok c s oid' o'" for oid' o'
  proof -
    have "order_ranking oid' o' s' = order_ranking oid' o' s" "best_energies oid' s' = best_energies oid' s"
      using that(1) A(2,12,13) by (auto simp: order_ranking_def best_energies_def mp_fields split: reward_resolution.splits option.splits)
    then show ?thesis using that A by (simp add: order_ok_def)
  qed
  moreover have "order_front_runner s' oid' = order_front_runner s oid'" "order_top_solvers s' oid' = order_top_solvers s oid'"
      "order_solutions s' oid' = order_solutions s oid'" if "oid' \<noteq> oid" for oid'
    using that A(2,12,13) by (auto simp: mp_fields split: reward_resolution.splits option.splits)
  ultimately show ?thesis using inv A(1) by (auto simp: orders_ok_def split: if_splits)
qed

lemma index_ok_put:
  assumes inv: "index_ok s" "cursor_ok cur s"
    and ix: "\<And>oid' b. oid' \<in> orders_expiring_at s' b \<longleftrightarrow> (if oid' = oid then b = max (order_expiry o2) (Suc (mp_block s)) else oid' \<in> orders_expiring_at s b)"
    and jo: "job_orders s' = (job_orders s)(oid \<mapsto> o2)" "status o2 = Opened"
    and same: "open_orders s' = insert oid (open_orders s)" "mp_block s' = mp_block s"
  shows "index_ok s'" "cursor_ok cur s'"
proof -
  have op: "opened s' oid' \<longleftrightarrow> oid' = oid \<or> opened s oid'" for oid' using jo by (auto simp: opened_def)
  show "index_ok s'" unfolding index_ok_def
  proof (intro conjI allI impI)
    show "open_orders s' = {oid. opened s' oid}" using inv(1) same op by (auto simp: index_ok_def)
  next
    fix b oid' assume b: "oid' \<in> orders_expiring_at s' b"
    show "\<exists>o1. job_orders s' oid' = Some o1 \<and> status o1 = Opened \<and> order_expiry o1 \<le> b \<and> b \<le> max (order_expiry o1) (Suc (mp_block s'))"
    proof (cases "oid' = oid")
      case True
      then show ?thesis using b ix jo same by simp
    next
      case False
      then have "oid' \<in> orders_expiring_at s b" using ix b by simp
      then show ?thesis using inv(1) jo same False unfolding index_ok_def by simp
    qed
  next
    fix oid' assume "opened s' oid'"
    then have "oid' = oid \<or> (\<exists>!b. oid' \<in> orders_expiring_at s b)" using inv(1) op by (auto simp: index_ok_def)
    then show "\<exists>!b. oid' \<in> orders_expiring_at s' b" by (cases "oid' = oid") (simp_all only: ix refl if_True if_False ex1_eq simp_thms)
  qed
  have "orders_expiring_at s' b = {}" if "b < cur" for b
  proof -
    have "b < Suc (mp_block s)" "orders_expiring_at s b = {}" using inv(2) that by (auto simp: cursor_ok_def)
    then show ?thesis using ix by (auto split: if_splits)
  qed
  then show "cursor_ok cur s'" using inv(2) same by (simp add: cursor_ok_def)
qed

lemma submit_index_ok:
  assumes inv: "index_ok s" "cursor_ok cur s" and o1: "job_orders s oid = Some o1" "status o1 = Opened" "mp_block s < order_expiry o1"
    and bound: "mp_block s < u32_max" and acc: "accept_solution who oid info o1 payee be sel d s = Inr s'"
  shows "index_ok s'" "cursor_ok cur s'"
proof -
  note A = accept_solution_Inr [OF acc]
  let ?o = "order_after who oid o1 s"
  define hard where "hard = effective_expiry (created_at o1) None (timing o1)"
  define closes where "closes = effective_expiry (created_at o1) (Some (mp_block s)) (timing o1)"
  have op: "opened s' = opened s" using A(1) o1 by (auto simp: opened_def mp_fields fun_eq_iff)
  have eb: "expiry_bucket s closes = max closes (Suc (mp_block s))" using bound by (simp add: expiry_bucket_def sat_add_def)
  have live: "oid \<in> orders_expiring_at s b \<longleftrightarrow> b = order_expiry o1" for b using live_bucket [OF inv(1) o1] .
  have "index_ok s' \<and> cursor_ok cur s'"
  proof (cases "first_solution_at o1 = None \<and> closes < hard")
    case False
    have same: "orders_expiring_at s' = orders_expiring_at s"
      using A(3) False by (auto simp: index_after_def hard_def closes_def Let_def)
    have "order_expiry ?o = order_expiry o1"
    proof (cases "first_solution_at o1")
      case None
      then have "closes = hard" using False effective_expiry_first_le [of "created_at o1" "mp_block s" "timing o1"] by (auto simp: hard_def closes_def)
      then show ?thesis using None unfolding expiry_after by (simp add: order_expiry_def hard_def closes_def)
    qed (simp add: expiry_after)
    then show ?thesis using inv same A(1,6,8) o1 op
      by (auto simp: index_ok_def cursor_ok_def mp_fields split: if_splits) fastforce+
  next
    case True
    then have h: "order_expiry o1 = hard" "order_expiry ?o = closes"
      unfolding expiry_after by (simp_all add: order_expiry_def hard_def closes_def)
    let ?b = "max closes (Suc (mp_block s))"
    have ix: "oid' \<in> orders_expiring_at s' b \<longleftrightarrow> (if oid' = oid then b = ?b else oid' \<in> orders_expiring_at s b)" for oid' b
      using A(3) True live h(1) eb by (auto simp: index_after_def hard_def [symmetric] closes_def [symmetric] Let_def)
    have "insert oid (open_orders s) = open_orders s" using inv(1) o1 by (auto simp: index_ok_def opened_def)
    then show ?thesis using index_ok_put [OF inv _ A(1)] ix h(2) o1(2) A(6,8) by (simp add: mp_fields)
  qed
  then show "index_ok s'" "cursor_ok cur s'" by blast+
qed

subsection \<open>Slots and escrow\<close>

lemma unsettled_same:
  assumes "job_orders s' = (job_orders s)(oid \<mapsto> o2)" "job_orders s oid = Some o1" "proposer o2 = proposer o1"
    "status o2 = Closed \<longleftrightarrow> status o1 = Closed" "reward o2 = reward o1"
  shows "unsettled s' x = unsettled s x" "escrow s' x = escrow s x"
proof -
  show u: "unsettled s' x = unsettled s x" using assms by (auto simp: unsettled_def)
  show "escrow s' x = escrow s x" unfolding escrow_def u by (rule sum.cong) (use assms in auto)
qed

lemma slots_same:
  assumes "slots_ok c s" "\<And>x. unsettled s' x = unsettled s x" "proposer_orders s' = proposer_orders s"
  shows "slots_ok c s'"
  using assms by (simp add: slots_ok_def slots_of_def)

lemma submit_inv:
  assumes inv: "mempool_inv c s" and bound: "mp_block s < u32_max"
    and sub: "submit_solution_inner c who oid sols payee s = Some (Inr s')"
  shows "mempool_inv c s'" "escrow_moves c s s'"
proof -
  obtain info o1 spec vs be bi sel d where ck: "check_submission who oid sols payee s = Inr (info, o1, spec)"
    and better: "\<And>old. order_solutions s oid who = Some old \<Longrightarrow> be < js_best_energy old"
    and acc: "accept_solution who oid info o1 payee be sel d s = Inr s'"
    by (rule submit_solution_inner_Inr [OF sub]) blast
  have o1: "job_orders s oid = Some o1" "status o1 = Opened" "mp_block s < order_expiry o1" using ck by (simp_all add: check_submission_Inr)
  note A = accept_solution_Inr [OF acc]
  have i: "orders_ok c s" "index_ok s" "cursor_ok (next_expiry_bucket s) s" "slots_ok c s"
    using inv by (simp_all add: mempool_inv_def)
  have u: "unsettled s' x = unsettled s x" "escrow s' x = escrow s x" for x
    by (rule unsettled_same [OF A(1) o1(1)]; simp add: mp_fields)+
  show "mempool_inv c s'" unfolding mempool_inv_def
    using submit_orders_ok [OF i(1) o1(1,2) better acc] submit_index_ok [OF i(2,3) o1 bound acc]
      slots_same [OF i(4) u(1) A(7)] A(4) by simp
  show "escrow_moves c s s'" using u(2) A(10) by (simp add: escrow_moves_def)
qed

subsection \<open>Proposals\<close>

lemma propose_orders_ok:
  assumes inv: "orders_ok c s" and p: "do_propose_job c who sid p r m res t d s = Inr (oid, s')"
    and typed: "length (ip_nodes p) \<le> mc_max_nodes c" "r \<le> u128_max" "next_order_id s < u64_max"
  shows "orders_ok c s'" "job_orders s oid = None"
proof -
  note P = do_propose_job_Inr [OF p]
  note C = check_proposal_Inr [OF P(2)]
  have next_id: "next_order_id s' = Suc (next_order_id s)" using typed(3) P(1,5) by (simp add: sat_add_def)
  show new: "job_orders s oid = None" using inv P(1) by (cases "job_orders s oid") (auto simp: orders_ok_def order_ok_def)
  then have empty: "order_solutions s oid = Map.empty" "order_front_runner s oid = None" "order_top_solvers s oid = []"
    using inv by (simp_all add: orders_ok_def)
  have "order_ok c s' oid (new_order sid who p r m res t d (mp_block s))"
    using typed C P(1,10,12,13) empty next_id
    by (auto simp: order_ok_def order_ranking_def best_energies_def ranking_of_def dom_def split: reward_resolution.splits)
  moreover have "job_specs s' sid' = None \<longleftrightarrow> job_specs s sid' = None" for sid' using P(13) by blast
  then have "order_ok c s' oid' o'" if "order_ok c s oid' o'" for oid' o'
    using that P(10,12) next_id by (simp add: order_ok_def order_ranking_def best_energies_def cong: reward_resolution.case_cong)
  ultimately show "orders_ok c s'" using inv P(6,10) by (auto simp: orders_ok_def split: if_splits)
qed

lemma propose_index_ok:
  assumes inv: "index_ok s" "cursor_ok cur s" and p: "do_propose_job c who sid p r m res t d s = Inr (oid, s')"
    and new: "job_orders s oid = None" and bound: "mp_block s < u32_max"
  shows "index_ok s'" "cursor_ok cur s'"
proof -
  note P = do_propose_job_Inr [OF p]
  let ?o = "new_order sid who p r m res t d (mp_block s)"
  let ?b = "max (order_expiry ?o) (Suc (mp_block s))"
  have eb: "expiry_bucket s (sat_add u32_max (mp_block s) (deadline_blocks t)) = ?b"
    using bound by (simp add: expiry_bucket_def sat_add_def order_expiry_def effective_expiry_def)
  have out: "oid \<notin> orders_expiring_at s b" for b using not_indexed [OF inv(1)] new by (simp add: opened_def)
  have ix: "oid' \<in> orders_expiring_at s' b \<longleftrightarrow> (if oid' = oid then b = ?b else oid' \<in> orders_expiring_at s b)" for oid' b
    using P(8) eb out by (auto simp: Let_def)
  show "index_ok s'" "cursor_ok cur s'" using index_ok_put [OF inv ix P(6)] P(7,12) by simp_all
qed

lemma propose_inv:
  assumes cfg: "mempool_cfg_ok c" and inv: "mempool_inv c s" and p: "do_propose_job c who sid p r m res t d s = Inr (oid, s')"
    and typed: "length (ip_nodes p) \<le> mc_max_nodes c" "r \<le> u128_max" "next_order_id s < u64_max" "mp_block s < u32_max"
  shows "mempool_inv c s'" "escrow_moves c s s'"
proof -
  note P = do_propose_job_Inr [OF p]
  have i: "orders_ok c s" "index_ok s" "cursor_ok (next_expiry_bucket s) s" "slots_ok c s"
    using inv by (simp_all add: mempool_inv_def)
  note ord = propose_orders_ok [OF i(1) p typed(1-3)]
  have u: "unsettled s' x = (if x = who then insert oid (unsettled s x) else unsettled s x)" for x
    using P(6) ord(2) by (auto simp: unsettled_def)
  have fresh: "oid \<notin> unsettled s x" for x using ord(2) by (simp add: unsettled_def)
  have "escrow s' x = escrow s x + (if x = who then r else 0)" for x
  proof -
    have "(\<Sum>i \<in> unsettled s x. reward (the (job_orders s' i))) = escrow s x"
      unfolding escrow_def by (rule sum.cong) (use P(6) fresh in auto)
    moreover have "reward (the (job_orders s' oid)) = r" using P(6) by simp
    ultimately show ?thesis using fresh unsettled_finite [OF i(1)] by (cases "x = who") (simp_all add: escrow_def [of s'] u)
  qed
  moreover have "reserved_balance (mc_currency c) (mp_env s') x = reserved_balance (mc_currency c) (mp_env s) x + (if x = who then r else 0)" for x
    using cfg by (intro reserve_moves(1) [OF _ P(4)]) (simp add: mempool_cfg_ok_def)
  ultimately show "escrow_moves c s s'" by (simp add: escrow_moves_def)
  have "slots_ok c s'" unfolding slots_ok_def
  proof
    fix x
    show "distinct (slots_of x s') \<and> set (slots_of x s') = unsettled s' x \<and>
        length (slots_of x s') \<le> mc_max_orders_per_proposer c \<and> proposer_orders s' x \<noteq> Some []"
      using i(4) fresh [of x] u [of x] P(3) P(9) [of x] P(14) P(15) [of x] by (cases "x = who") (simp_all add: slots_ok_def)
  qed
  then show "mempool_inv c s'" unfolding mempool_inv_def
    using ord(1) propose_index_ok [OF i(2,3) p ord(2) typed(4)] P(11) by simp
qed

subsection \<open>Closures\<close>

lemma pay_winners_fields:
  "pay_winners c oid from ps s = Inr s' \<Longrightarrow>
     same_ranking s s' \<and> same_orders s s' \<and> same_index s s' \<and> job_specs s' = job_specs s \<and> order_results s' = order_results s"
proof (induction c oid "from" ps s rule: pay_winners.induct)
  case (2 c oid "from" winner payout energy rest s)
  then show ?case by (cases "payout = 0") (auto simp: mp_fields credit_solver_def)
qed simp

lemma pay_winners_reserved:
  "transfer_laws (mc_currency c) \<Longrightarrow> pay_winners c oid from ps s = Inr s' \<Longrightarrow>
     reserved_balance (mc_currency c) (mp_env s') x = reserved_balance (mc_currency c) (mp_env s) x"
proof (induction c oid "from" ps s rule: pay_winners.induct)
  case (2 c oid "from" winner payout energy rest s)
  then show ?case by (cases "payout = 0") (auto simp: mp_fields credit_solver_def dest: transfer_moves(1) [OF 2(3)])
qed simp

lemma close_inv:
  assumes inv: "mempool_inv c s" and o1: "job_orders s oid = Some o1" "status o1 = Expired"
    and s1: "same_ranking s s1" "same_orders s s1" "same_index s s1" "job_specs s1 = job_specs s"
  shows "mempool_inv c (close_order oid o1 s1)"
proof -
  let ?s = "close_order oid o1 s1"
  have i: "orders_ok c s" "index_ok s" "cursor_ok (next_expiry_bucket s) s" "slots_ok c s"
    using inv by (simp_all add: mempool_inv_def)
  have jo: "job_orders ?s = (job_orders s)(oid \<mapsto> o1\<lparr>status := Closed\<rparr>)" using s1 by (simp add: mp_fields)
  have "order_ok c ?s oid (o1\<lparr>status := Closed\<rparr>)"
    using i(1) o1 s1 by (auto simp: orders_ok_def order_ok_def mp_fields best_energies_def order_ranking_def order_expiry_def cong: reward_resolution.case_cong)
  moreover have "order_ok c ?s oid' o'" if "order_ok c s oid' o'" for oid' o'
    using that s1 by (simp add: order_ok_def mp_fields best_energies_def order_ranking_def cong: reward_resolution.case_cong)
  ultimately have "orders_ok c ?s" using i(1) s1 by (auto simp: orders_ok_def mp_fields)
  moreover have not_open: "\<not> opened s oid" using o1 by (simp add: opened_def)
  then have op: "opened ?s = opened s" using jo o1 by (auto simp: opened_def fun_eq_iff)
  have "index_ok ?s"
  proof -
    have "oid \<notin> orders_expiring_at s b" for b using not_indexed [OF i(2) not_open] .
    then show ?thesis using i(2) op jo not_open s1 unfolding index_ok_def by (simp add: mp_fields)
  qed
  moreover have "cursor_ok (next_expiry_bucket s) ?s" using i(3) s1 by (simp add: cursor_ok_def mp_fields)
  moreover have u: "unsettled ?s x = (if x = proposer o1 then unsettled s x - {oid} else unsettled s x)" for x
    using jo o1 by (auto simp: unsettled_def)
  have mem: "oid \<in> unsettled s (proposer o1)" using o1 by (simp add: unsettled_def)
  have "slots_ok c ?s" unfolding slots_ok_def
  proof
    fix x
    have sl: "slots_of x s1 = slots_of x s" using s1 by (simp add: slots_of_def)
    have e: "proposer_orders ?s x \<noteq> Some []"
      using i(4) s1 by (auto simp: slots_ok_def close_order_def release_proposer_slot_def Let_def split: option.splits)
    show "distinct (slots_of x ?s) \<and> set (slots_of x ?s) = unsettled ?s x \<and>
        length (slots_of x ?s) \<le> mc_max_orders_per_proposer c \<and> proposer_orders ?s x \<noteq> Some []"
      using i(4) e sl u [of x]
      by (cases "x = proposer o1") (auto simp: slots_ok_def mp_fields intro: le_trans [OF length_filter_le])
  qed
  ultimately show ?thesis using s1 by (simp add: mempool_inv_def mp_fields)
qed

lemma close_escrow:
  assumes ok: "orders_ok c s" and o1: "job_orders s oid = Some o1" "status o1 = Expired" and s1: "same_orders s s1"
    and cover: "reward o1 \<le> reserved_balance (mc_currency c) (mp_env s) (proposer o1)"
    and env: "\<And>x. reserved_balance (mc_currency c) (mp_env s1) x =
      reserved_balance (mc_currency c) (mp_env s) x - (if x = proposer o1 then reward o1 else 0)"
  shows "escrow_moves c s (close_order oid o1 s1)"
  unfolding escrow_moves_def
proof
  fix x
  let ?s = "close_order oid o1 s1"
  have jo: "job_orders ?s = (job_orders s)(oid \<mapsto> o1\<lparr>status := Closed\<rparr>)" using s1 by (simp add: mp_fields)
  have u: "unsettled ?s x = (if x = proposer o1 then unsettled s x - {oid} else unsettled s x)" using jo o1 by (auto simp: unsettled_def)
  have mem: "oid \<in> unsettled s (proposer o1)" using o1 by (simp add: unsettled_def)
  have fin: "finite (unsettled s x)" by (rule unsettled_finite [OF ok])
  have "(\<Sum>i \<in> unsettled s x - {oid}. reward (the (job_orders ?s i))) = (\<Sum>i \<in> unsettled s x - {oid}. reward (the (job_orders s i)))"
    by (rule sum.cong) (use jo in auto)
  moreover have "x \<noteq> proposer o1 \<Longrightarrow> oid \<notin> unsettled s x" using o1 by (auto simp: unsettled_def)
  moreover have "x = proposer o1 \<Longrightarrow> escrow s x = reward o1 + (\<Sum>i \<in> unsettled s x - {oid}. reward (the (job_orders s i)))"
    using sum.remove [OF fin, of oid "\<lambda>i. reward (the (job_orders s i))"] mem o1(1) by (simp add: escrow_def)
  ultimately have "escrow s x = escrow ?s x + (if x = proposer o1 then reward o1 else 0)"
    using u by (cases "x = proposer o1") (simp_all add: escrow_def)
  then show "reserved_balance (mc_currency c) (mp_env ?s) x + escrow s x = reserved_balance (mc_currency c) (mp_env s) x + escrow ?s x"
    using env [of x] cover by (simp add: mp_fields)
qed

end
