(* ===== verification/Mempool_Expiry.thy ===== *)
theory Mempool_Expiry
  imports Mempool_Inv
begin

text \<open>
  The block hook: every order it takes from a due bucket becomes expired, nothing else changes, it never
  panics, and the cursor only passes empty buckets.
\<close>

subsection \<open>One order\<close>

lemma length_weighted_loop: "length (fst (weighted_loop r cnt T i rs d)) = length rs"
  by (induction r cnt T i rs d rule: weighted_loop.induct) (auto simp: Let_def split: prod.splits)

lemma length_top_n_weighted: "length (top_n_weighted_payouts rs r) \<le> length rs"
proof (cases "rs = []")
  case False
  let ?T = "sat_mul u128_max (length rs) (sat_add u128_max (length rs) 1) div 2"
  obtain ps d where w: "weighted_loop r (length rs) ?T 0 rs 0 = (ps, d)" by fastforce
  then have "length ps = length rs" using length_weighted_loop [of r "length rs" ?T 0 rs 0] by simp
  moreover have "length (top_n_weighted_payouts rs r) = length ps"
    using False w unfolding top_n_weighted_payouts_def Let_def by (cases ps) (auto split: prod.splits)
  ultimately show ?thesis by simp
qed (simp add: top_n_weighted_payouts_def)

lemma length_top_n_equal: "length (top_n_equal_payouts rs r) = length rs"
  by (simp add: top_n_equal_payouts_def Let_def)

text \<open>The payouts of an accepted order fit the bound of the event.\<close>

lemma compute_payouts_length:
  assumes "order_ok c s oid o1" "compute_payouts oid o1 s = Inr ps"
  shows "length ps \<le> MAX_REWARD_WINNERS"
proof -
  have n: "0 < winner_limit (resolution o1)" "winner_limit (resolution o1) \<le> MAX_REWARD_WINNERS"
    using assms(1) valid_resolution_limit by (auto simp: order_ok_def)
  have r: "length (order_ranking oid o1 s) \<le> winner_limit (resolution o1)" using assms(1) by (simp add: order_ok_def ranking_of_def)
  show ?thesis
  proof (cases "resolution o1")
    case SingleBest
    then show ?thesis using assms(2) by (auto simp: compute_payouts_def single_best_payouts_def MAX_REWARD_WINNERS_def)
  next
    case (TopNWeighted k)
    then have "ps = top_n_weighted_payouts (order_top_solvers s oid) (reward o1)" using assms(2) by (simp add: compute_payouts_def)
    then show ?thesis using TopNWeighted n r length_top_n_weighted [of "order_top_solvers s oid" "reward o1"] by (simp add: order_ranking_def)
  next
    case (TopNEqual k)
    then show ?thesis using assms(2) n r by (auto simp: compute_payouts_def order_ranking_def length_top_n_equal)
  qed
qed

lemma persist_result_fields [mp_fields]:
  "same_ranking s (persist_result_if_needed oid o1 ws s)" "same_orders s (persist_result_if_needed oid o1 ws s)"
  "same_index s (persist_result_if_needed oid o1 ws s)" "job_specs (persist_result_if_needed oid o1 ws s) = job_specs s"
  "mp_env (persist_result_if_needed oid o1 ws s) = mp_env s"
  by (simp_all add: persist_result_if_needed_def split: result_delivery.splits)

lemma emit_result_fields [mp_fields]:
  "same_ranking s (emit_result_ready oid d ws s)" "same_orders s (emit_result_ready oid d ws s)"
  "same_index s (emit_result_ready oid d ws s)" "job_specs (emit_result_ready oid d ws s) = job_specs s"
  "mp_env (emit_result_ready oid d ws s) = mp_env s"
  by (simp_all add: emit_result_ready_def mp_fields split: result_delivery.splits)

lemma finalise_order_Some:
  assumes "finalise_order oid s = Some s'" "job_orders s oid = Some o1" "status o1 = Opened"
  shows "job_orders s' = (job_orders s)(oid \<mapsto> o1\<lparr>status := Expired\<rparr>)" "open_orders s' = open_orders s - {oid}"
    "same_ranking s s'" "same_index s s'" "next_order_id s' = next_order_id s" "proposer_orders s' = proposer_orders s"
    "mp_block s' = mp_block s" "job_specs s' = job_specs s" "mp_env s' = mp_env s"
proof -
  define s1 where "s1 = emit_mp (OrderExpired oid) (s\<lparr>job_orders := (job_orders s)(oid \<mapsto> o1\<lparr>status := Expired\<rparr>), open_orders := open_orders s - {oid}\<rparr>)"
  have "s' = s1 \<or> (\<exists>ws. s' = emit_result_ready oid (delivery o1) ws (persist_result_if_needed oid (o1\<lparr>status := Expired\<rparr>) ws s1))"
    using assms by (auto simp: finalise_order_def Let_def s1_def [symmetric] split: if_splits sum.splits)
  then show "job_orders s' = (job_orders s)(oid \<mapsto> o1\<lparr>status := Expired\<rparr>)" "open_orders s' = open_orders s - {oid}"
    "same_ranking s s'" "same_index s s'" "next_order_id s' = next_order_id s" "proposer_orders s' = proposer_orders s"
    "mp_block s' = mp_block s" "job_specs s' = job_specs s" "mp_env s' = mp_env s"
    by (auto simp: s1_def mp_fields)
qed

lemma finalise_order_no_panic:
  assumes "order_ok c s oid o1" "job_orders s oid = Some o1" shows "finalise_order oid s \<noteq> None"
proof -
  define s1 where "s1 = emit_mp (OrderExpired oid) (s\<lparr>job_orders := (job_orders s)(oid \<mapsto> o1\<lparr>status := Expired\<rparr>), open_orders := open_orders s - {oid}\<rparr>)"
  have "compute_payouts oid (o1\<lparr>status := Expired\<rparr>) s1 = compute_payouts oid o1 s"
    by (simp add: compute_payouts_def s1_def mp_fields cong: reward_resolution.case_cong)
  then show ?thesis using assms compute_payouts_length [OF assms(1)]
    by (auto simp: finalise_order_def Let_def s1_def [symmetric] winner_summaries_from_payouts_def split: sum.splits)
qed

subsection \<open>Due buckets\<close>

text \<open>The invariant with a given cursor.\<close>

definition mempool_core :: "('a, 'b, 'p) mempool_config \<Rightarrow> block \<Rightarrow> ('a, 'b) mempool_state \<Rightarrow> bool" where
  "mempool_core c cur s \<longleftrightarrow> orders_ok c s \<and> index_ok s \<and> cursor_ok cur s \<and> slots_ok c s"

lemma mempool_inv_core: "mempool_inv c s \<longleftrightarrow> mempool_core c (next_expiry_bucket s) s"
  by (simp add: mempool_inv_def mempool_core_def)

text \<open>The only change to the orders is that some open ones have become expired.\<close>

definition expired_from :: "u64 set \<Rightarrow> ('a, 'b) mempool_state \<Rightarrow> ('a, 'b) mempool_state \<Rightarrow> bool" where
  "expired_from S s s' \<longleftrightarrow>
     job_orders s' = (\<lambda>oid. if oid \<in> S then map_option (\<lambda>o1. o1\<lparr>status := Expired\<rparr>) (job_orders s oid) else job_orders s oid) \<and>
     (\<forall>oid \<in> S. \<exists>o1. job_orders s oid = Some o1 \<and> status o1 = Opened \<and> order_expiry o1 \<le> mp_block s) \<and>
     mp_block s' = mp_block s \<and> next_order_id s' = next_order_id s \<and> mp_env s' = mp_env s \<and> same_ranking s s'"

lemma expire_one:
  assumes core: "mempool_core c cur s" and oid: "oid \<in> orders_expiring_at s b" "b \<le> mp_block s"
  obtains s' where "finalise_order oid (remove_expiry b oid s) = Some s'" "mempool_core c cur s'" "expired_from {oid} s s'"
    "orders_expiring_at s' = (orders_expiring_at s)(b := orders_expiring_at s b - {oid})"
    "next_expiry_bucket s' = next_expiry_bucket s"
proof -
  have i: "orders_ok c s" "index_ok s" "cursor_ok cur s" "slots_ok c s" using core by (simp_all add: mempool_core_def)
  obtain o1 where o1: "job_orders s oid = Some o1" "status o1 = Opened" "order_expiry o1 \<le> b"
    by (rule index_entry [OF i(2) oid(1)])
  let ?r = "remove_expiry b oid s" and ?o = "o1\<lparr>status := Expired\<rparr>"
  have ok: "order_ok c s oid o1" using i(1) o1(1) by (simp add: orders_ok_def)
  then have "order_ok c ?r oid o1"
    by (simp add: order_ok_def mp_fields best_energies_def order_ranking_def cong: reward_resolution.case_cong)
  then obtain s' where s': "finalise_order oid ?r = Some s'" using finalise_order_no_panic [of c ?r oid o1] o1(1) by (auto simp: mp_fields)
  note F = finalise_order_Some [OF s' _ o1(2)]
  have F': "job_orders s' = (job_orders s)(oid \<mapsto> ?o)" "open_orders s' = open_orders s - {oid}" "same_ranking s s'"
    "orders_expiring_at s' = (orders_expiring_at s)(b := orders_expiring_at s b - {oid})" "next_expiry_bucket s' = next_expiry_bucket s"
    "next_order_id s' = next_order_id s" "proposer_orders s' = proposer_orders s" "mp_block s' = mp_block s" "job_specs s' = job_specs s"
    "mp_env s' = mp_env s"
    using F o1(1) by (simp_all add: mp_fields)
  have same: "order_ranking oid' o' s' = order_ranking oid' o' s" "best_energies oid' s' = best_energies oid' s" for oid' o'
    using F'(3) by (simp_all add: order_ranking_def best_energies_def cong: reward_resolution.case_cong)
  have "order_ok c s' oid' o'" if "order_ok c s oid' o'" for oid' o' using that F' same by (simp add: order_ok_def)
  moreover have "order_ok c s' oid ?o"
    using ok F' same o1(3) oid(2) by (auto simp: order_ok_def order_expiry_def order_ranking_def cong: reward_resolution.case_cong)
  ultimately have "orders_ok c s'" using i(1) F' by (auto simp: orders_ok_def)
  moreover have op: "opened s' oid' \<longleftrightarrow> oid' \<noteq> oid \<and> opened s oid'" for oid' using F'(1) by (auto simp: opened_def)
  have ix: "oid' \<in> orders_expiring_at s' b' \<longleftrightarrow> oid' \<noteq> oid \<and> oid' \<in> orders_expiring_at s b'" for oid' b'
    using F'(4) bucket_unique [OF i(2) oid(1)] by auto
  have "index_ok s'" unfolding index_ok_def
  proof (intro conjI allI impI)
    show "open_orders s' = {oid. opened s' oid}" using F'(2) op i(2) by (auto simp: index_ok_def)
  next
    fix b' oid' assume "oid' \<in> orders_expiring_at s' b'"
    then have "oid' \<noteq> oid" "oid' \<in> orders_expiring_at s b'" using ix by simp_all
    then show "\<exists>o1. job_orders s' oid' = Some o1 \<and> status o1 = Opened \<and> order_expiry o1 \<le> b' \<and> b' \<le> max (order_expiry o1) (Suc (mp_block s'))"
      using i(2) F'(1,8) unfolding index_ok_def by simp
  next
    fix oid' assume "opened s' oid'"
    then have "oid' \<noteq> oid" "\<exists>!b. oid' \<in> orders_expiring_at s b" using op i(2) by (simp_all add: index_ok_def)
    then show "\<exists>!b. oid' \<in> orders_expiring_at s' b" by (simp add: ix)
  qed
  moreover have "cursor_ok cur s'" using i(3) F'(8) ix unfolding cursor_ok_def by (metis equals0I empty_iff)
  moreover have "unsettled s' x = unsettled s x" for x by (rule unsettled_same [OF F'(1) o1(1)]; simp add: o1(2))
  note slots_same [OF i(4) this F'(7)]
  ultimately have "mempool_core c cur s'" by (simp add: mempool_core_def)
  moreover have "expired_from {oid} s s'" using F' o1 oid(2) by (auto simp: expired_from_def fun_eq_iff)
  ultimately show ?thesis using that s' F'(4,5) by blast
qed

lemma expired_from_trans:
  assumes "expired_from S s s1" "expired_from T s1 s2" shows "expired_from (S \<union> T) s s2"
proof -
  have "S \<inter> T = {}" using assms by (fastforce simp: expired_from_def)
  then show ?thesis using assms by (fastforce simp: expired_from_def fun_eq_iff)
qed

lemma finalise_all_ok:
  assumes "mempool_core c cur s" "set ids \<subseteq> orders_expiring_at s b" "distinct ids" "b \<le> mp_block s"
  shows "\<exists>s'. finalise_all b ids s = Some s' \<and> mempool_core c cur s' \<and> expired_from (set ids) s s' \<and>
    orders_expiring_at s' = (orders_expiring_at s)(b := orders_expiring_at s b - set ids) \<and> next_expiry_bucket s' = next_expiry_bucket s"
  using assms
proof (induction ids arbitrary: s)
  case Nil
  then show ?case by (simp add: expired_from_def)
next
  case (Cons oid ids)
  obtain s1 where s1: "finalise_order oid (remove_expiry b oid s) = Some s1" "mempool_core c cur s1" "expired_from {oid} s s1"
    "orders_expiring_at s1 = (orders_expiring_at s)(b := orders_expiring_at s b - {oid})" "next_expiry_bucket s1 = next_expiry_bucket s"
    by (rule expire_one [OF Cons.prems(1) _ Cons.prems(4)]) (use Cons.prems in auto)
  have "mp_block s1 = mp_block s" using s1(3) by (simp add: expired_from_def)
  then obtain s' where s': "finalise_all b ids s1 = Some s'" "mempool_core c cur s'" "expired_from (set ids) s1 s'"
    "orders_expiring_at s' = (orders_expiring_at s1)(b := orders_expiring_at s1 b - set ids)" "next_expiry_bucket s' = next_expiry_bucket s1"
  proof -
    have "set ids \<subseteq> orders_expiring_at s1 b" using Cons.prems(2,3) s1(4) by auto
    moreover have "distinct ids" "b \<le> mp_block s1" using Cons.prems(3,4) \<open>mp_block s1 = mp_block s\<close> by simp_all
    ultimately show ?thesis using Cons.IH [OF s1(2)] that by blast
  qed
  have "orders_expiring_at s' = (orders_expiring_at s)(b := orders_expiring_at s b - set (oid # ids))" using s'(4) unfolding s1(4) by (simp add: Diff_insert2 [symmetric] del: Diff_insert0)
  moreover have "expired_from (set (oid # ids)) s s'" using expired_from_trans [OF s1(3) s'(3)] by simp
  moreover have "finalise_all b (oid # ids) s = Some s'" using s1(1) s'(1) by simp
  ultimately show ?case using s1(5) s'(2,5) by metis
qed

text \<open>Expiry settles nothing: the escrow and the balances stay.\<close>

lemma expired_escrow:
  assumes "expired_from S s s'" shows "escrow_moves c s s'"
proof -
  have u: "unsettled s' x = unsettled s x" for x
    using assms by (force simp: unsettled_def expired_from_def)
  have "reward (the (job_orders s' oid)) = reward (the (job_orders s oid))" if "oid \<in> unsettled s x" for oid x
    using assms that by (auto simp: expired_from_def unsettled_def)
  then have "escrow s' x = escrow s x" for x unfolding escrow_def u by (intro sum.cong) auto
  then show ?thesis using assms by (simp add: escrow_moves_def expired_from_def)
qed

subsection \<open>The loop\<close>

text \<open>Orders in buckets up to \<open>n\<close>, and how many buckets up to \<open>n\<close> the cursor has to pass.\<close>

definition overdue :: "block \<Rightarrow> ('a, 'b) mempool_state \<Rightarrow> u64 set" where
  "overdue n s = (\<Union>b \<in> {..n}. orders_expiring_at s b)"

definition backlog :: "block \<Rightarrow> block \<Rightarrow> ('a, 'b) mempool_state \<Rightarrow> nat" where
  "backlog n cur s = card (overdue n s) + (Suc n - cur)"

lemma overdue_finite: "orders_ok c s \<Longrightarrow> index_ok s \<Longrightarrow> finite (overdue n s)"
  by (simp add: overdue_def bucket_finite)

lemma overdue_removed:
  "(\<And>b. orders_expiring_at s' b = orders_expiring_at s b - S) \<Longrightarrow> overdue n s' = overdue n s - S"
  by (auto simp: overdue_def)

lemma overdue_shrinks:
  assumes "finite (overdue n s)" "set ids \<subseteq> orders_expiring_at s cur" "distinct ids"
    and gone: "\<And>b. orders_expiring_at s1 b = orders_expiring_at s b - set ids"
  shows "card (overdue n s1) + (if cur \<le> n then length ids else 0) \<le> card (overdue n s)"
proof (cases "cur \<le> n")
  case True
  then have sub: "set ids \<subseteq> overdue n s" using assms(2) by (auto simp: overdue_def)
  then have "card (set ids) \<le> card (overdue n s)" using assms(1) by (rule card_mono [rotated])
  then show ?thesis using overdue_removed [OF gone] True sub distinct_card [OF assms(3)] by (simp add: card_Diff_subset)
next
  case False
  have "overdue n s1 \<subseteq> overdue n s" using gone by (auto simp: overdue_def)
  then show ?thesis using False card_mono [OF assms(1)] by auto
qed

text \<open>One pass: the orders taken from the bucket are expired, and when they are all of it the cursor may move on.\<close>

lemma bucket_pass:
  assumes cfg: "mempool_cfg_ok c" and core: "mempool_core c cur s" and cur: "cur \<le> mp_block s"
    and ids: "ids = take ob (mc_iter c (orders_expiring_at s cur))"
  obtains s1 where "finalise_all cur ids s = Some s1" "mempool_core c cur s1" "expired_from (set ids) s s1"
    "\<forall>b. orders_expiring_at s1 b = orders_expiring_at s b - set ids" "next_expiry_bucket s1 = next_expiry_bucket s"
    "card (overdue n s1) + (if cur \<le> n then length ids else 0) \<le> card (overdue n s)"
    "length ids < ob \<longrightarrow> mempool_core c (Suc cur) s1"
proof -
  have i: "orders_ok c s" "index_ok s" "cursor_ok cur s" using core by (simp_all add: mempool_core_def)
  have it: "set (mc_iter c (orders_expiring_at s cur)) = orders_expiring_at s cur" "distinct (mc_iter c (orders_expiring_at s cur))"
    using cfg bucket_finite [OF i(1,2)] by (auto simp: mempool_cfg_ok_def)
  have sub: "set ids \<subseteq> orders_expiring_at s cur" "distinct ids"
    using it set_take_subset by (fastforce simp: ids intro: distinct_take)+
  obtain s1 where s1: "finalise_all cur ids s = Some s1" "mempool_core c cur s1" "expired_from (set ids) s s1"
    "orders_expiring_at s1 = (orders_expiring_at s)(cur := orders_expiring_at s cur - set ids)" "next_expiry_bucket s1 = next_expiry_bucket s"
    using finalise_all_ok [OF core sub] cur by blast
  have gone: "orders_expiring_at s1 b = orders_expiring_at s b - set ids" for b
    using s1(4) sub(1) bucket_unique [OF i(2)] by (cases "b = cur") auto
  have "mempool_core c (Suc cur) s1" if "length ids < ob"
  proof -
    have "ids = mc_iter c (orders_expiring_at s cur)" using that by (simp add: ids)
    then have "orders_expiring_at s1 cur = {}" using s1(4) it(1) by simp
    moreover have "mp_block s1 = mp_block s" using s1(3) by (simp add: expired_from_def)
    ultimately have "cursor_ok (Suc cur) s1"
      using s1(2) cur by (auto simp: mempool_core_def cursor_ok_def less_Suc_eq)
    then show ?thesis using s1(2) by (simp add: mempool_core_def)
  qed
  with s1 gone overdue_shrinks [OF overdue_finite [OF i(1,2)] sub gone] show ?thesis by (intro that) blast+
qed

text \<open>
  Each pass keeps the invariant with the new cursor. A bucket up to \<open>now\<close> is left behind only empty. What the
  loop leaves of the backlog: nothing up to \<open>n\<close> when the cursor has passed \<open>n\<close>; otherwise one of the two budgets
  has been used up on it.
\<close>

lemma finalise_loop_ok:
  assumes cfg: "mempool_cfg_ok c" and now: "now = mp_block s" "now < u32_max" and core: "mempool_core c cur s"
    and n: "n \<le> now" and ob: "0 < ob"
  shows "\<exists>s' cur' f v S. finalise_loop c now ob bb cur fin vis s = Some (s', cur', f, v) \<and> mempool_core c cur' s' \<and>
    expired_from S s s' \<and> next_expiry_bucket s' = next_expiry_bucket s \<and> cur \<le> cur' \<and>
    (\<forall>b. orders_expiring_at s' b = orders_expiring_at s b - S) \<and>
    (n < cur' \<or> backlog n cur' s' + min ob bb \<le> backlog n cur s)"
  using now core ob
proof (induction bb arbitrary: ob cur fin vis s)
  case 0
  then show ?case by (auto simp: expired_from_def intro!: exI [of _ "{}"])
next
  case (Suc bb)
  show ?case
  proof (cases "cur \<le> now")
    case False
    then show ?thesis using Suc.prems n by (auto simp: expired_from_def intro!: exI [of _ "{}"])
  next
    case True
    define ids where "ids = take ob (mc_iter c (orders_expiring_at s cur))"
    obtain s1 where s1: "finalise_all cur ids s = Some s1" "mempool_core c cur s1" "expired_from (set ids) s s1"
      "\<forall>b. orders_expiring_at s1 b = orders_expiring_at s b - set ids" "next_expiry_bucket s1 = next_expiry_bucket s"
      "card (overdue n s1) + (if cur \<le> n then length ids else 0) \<le> card (overdue n s)"
      "length ids < ob \<longrightarrow> mempool_core c (Suc cur) s1"
      using True Suc.prems(1) by (auto elim: bucket_pass [OF cfg Suc.prems(3) _ ids_def, where n = n])
    show ?thesis
    proof (cases "length ids = ob")
      case full: True
      have "finalise_loop c now ob (Suc bb) cur fin vis s = Some (s1, cur, sat_add u32_max fin ob, sat_add u64_max vis 1)"
        using True Suc.prems(4) s1(1) full by (simp add: Let_def ids_def [symmetric])
      moreover have "n < cur \<or> backlog n cur s1 + min ob (Suc bb) \<le> backlog n cur s"
        using s1(6) full by (cases "cur \<le> n") (auto simp: backlog_def)
      ultimately show ?thesis using s1(2-5) by blast
    next
      case False
      then have short: "length ids < ob" by (simp add: ids_def)
      then have core1: "mempool_core c (Suc cur) s1" using s1(7) by simp
      have sc: "sat_add u32_max cur 1 = Suc cur" using True Suc.prems(2) by (simp add: sat_add_def)
      have blk: "mp_block s1 = mp_block s" using s1(3) by (simp add: expired_from_def)
      have step: "finalise_loop c now ob (Suc bb) cur fin vis s =
          finalise_loop c now (ob - length ids) bb (Suc cur) (sat_add u32_max fin (length ids)) (sat_add u64_max vis 1) s1"
        using True Suc.prems(4) s1(1) False sc by (simp add: Let_def ids_def [symmetric])
      obtain s' cur' f v S where r: "finalise_loop c now ob (Suc bb) cur fin vis s = Some (s', cur', f, v)" "mempool_core c cur' s'"
        "expired_from S s1 s'" "next_expiry_bucket s' = next_expiry_bucket s1" "Suc cur \<le> cur'"
        "\<forall>b. orders_expiring_at s' b = orders_expiring_at s1 b - S"
        "n < cur' \<or> backlog n cur' s' + min (ob - length ids) bb \<le> backlog n (Suc cur) s1"
        unfolding step using Suc.IH [OF _ Suc.prems(2) core1, of "ob - length ids"] Suc.prems(1) blk short by fastforce
      have "n < cur' \<or> backlog n cur' s' + min ob (Suc bb) \<le> backlog n cur s"
      proof (cases "n < cur'")
        case False
        then have "cur \<le> n" using r(5) by simp
        then have "backlog n (Suc cur) s1 + length ids + 1 \<le> backlog n cur s" using s1(6) by (simp add: backlog_def)
        then show ?thesis using r(7) False by auto
      qed blast
      then show ?thesis
        using r expired_from_trans [OF s1(3) r(3)] s1(4,5)
        by (intro exI [of _ s'] exI [of _ cur'] exI [of _ f] exI [of _ v] exI [of _ "set ids \<union> S"]) auto
    qed
  qed
qed

end
