(* ===== verification/Mempool_Chain.thy ===== *)
theory Mempool_Chain
  imports Mempool_Expiry
begin

text \<open>
  Execution of the mempool: the calls, the start of a block, changes of the other pallets' state, and what
  holds in every reachable state. A call that fails is rolled back and is not a step. The rules keep
  block numbers and order ids below the top of their types; another pallet may change its own state, and
  the balances with it, in any way. The states reached while no other pallet takes from the reserves that
  hold the escrow are singled out: only there is the escrow known to be covered.
\<close>

subsection \<open>Calls, blocks, steps\<close>

datatype 'a mempool_call =
    RegisterSolver miner_type
  | DeregisterSolver
  | RegisterJobSpec 'a bytes formulation "mhash option" "mhash option"
  | ProposeJob mhash ising_params balance "'a job_mode" reward_resolution order_timing result_delivery
  | ProposeJobWithPayeeRequirement mhash ising_params balance "'a job_mode" reward_resolution order_timing result_delivery u64
  | SubmitSolution u64 "i8 list list"
  | SubmitSolutionWithPayee u64 "i8 list list" winner_payee
  | ClaimReward u64
  | ReclaimOrder u64
  | PurgeResult u64

fun mempool_dispatch ::
    "('a, 'b, 'p) mempool_config \<Rightarrow> 'a raw_origin \<Rightarrow> 'a mempool_call \<Rightarrow> ('a, 'b) mempool_state \<Rightarrow> ('a, 'b) mempool_result option" where
  "mempool_dispatch c og (RegisterSolver ty) s = Some (register_solver og ty s)"
| "mempool_dispatch c og DeregisterSolver s = Some (deregister_solver og s)"
| "mempool_dispatch c og (RegisterJobSpec who name f v t) s = Some (register_job_spec c og who name f v t s)"
| "mempool_dispatch c og (ProposeJob sid p r m res t d) s = Some (propose_job c og sid p r m res t d s)"
| "mempool_dispatch c og (ProposeJobWithPayeeRequirement sid p r m res t d chain) s =
     Some (propose_job_with_payee_requirement c og sid p r m res t d chain s)"
| "mempool_dispatch c og (SubmitSolution oid sols) s = submit_solution c og oid sols s"
| "mempool_dispatch c og (SubmitSolutionWithPayee oid sols payee) s = submit_solution_with_payee c og oid sols payee s"
| "mempool_dispatch c og (ClaimReward oid) s = claim_reward c og oid s"
| "mempool_dispatch c og (ReclaimOrder oid) s = Some (reclaim_order c og oid s)"
| "mempool_dispatch c og (PurgeResult oid) s = Some (purge_result c og oid s)"

text \<open>The decoded arguments have their bounded types.\<close>

fun mempool_call_typed :: "('a, 'b, 'p) mempool_config \<Rightarrow> 'a mempool_call \<Rightarrow> bool" where
  "mempool_call_typed c (ProposeJob sid p r m res t d) \<longleftrightarrow> length (ip_nodes p) \<le> mc_max_nodes c \<and> r \<le> u128_max"
| "mempool_call_typed c (ProposeJobWithPayeeRequirement sid p r m res t d chain) \<longleftrightarrow>
     length (ip_nodes p) \<le> mc_max_nodes c \<and> r \<le> u128_max"
| "mempool_call_typed c _ \<longleftrightarrow> True"

definition next_block ::
    "('a, 'b, 'p) mempool_config \<Rightarrow> ('a, 'b) mempool_state \<Rightarrow> ('a, 'b) mempool_state option" where
  "next_block c s = (let now = Suc (mp_block s) in mempool_on_initialize c now (s\<lparr>mp_block := now\<rparr>))"

inductive mempool_own_step :: "('a, 'b, 'p) mempool_config \<Rightarrow> ('a, 'b) mempool_state \<Rightarrow> ('a, 'b) mempool_state \<Rightarrow> bool" for c where
  call: "mempool_dispatch c og call s = Some (Inr s') \<Longrightarrow> mempool_call_typed c call \<Longrightarrow> next_order_id s < u64_max \<Longrightarrow>
           mp_block s < u32_max \<Longrightarrow> mempool_own_step c s s'"
| block: "next_block c s = Some s' \<Longrightarrow> Suc (mp_block s) < u32_max \<Longrightarrow> mempool_own_step c s s'"

inductive mempool_step :: "('a, 'b, 'p) mempool_config \<Rightarrow> ('a, 'b) mempool_state \<Rightarrow> ('a, 'b) mempool_state \<Rightarrow> bool" for c where
  own: "mempool_own_step c s s' \<Longrightarrow> mempool_step c s s'"
| env: "mempool_step c s (s\<lparr>mp_env := e\<rparr>)"

inductive mempool_reachable :: "('a, 'b, 'p) mempool_config \<Rightarrow> ('a, 'b) mempool_state \<Rightarrow> bool" for c where
  genesis: "mempool_build c seed e = Some s \<Longrightarrow> mempool_reachable c s"
| step: "mempool_reachable c s \<Longrightarrow> mempool_step c s s' \<Longrightarrow> mempool_reachable c s'"

text \<open>The states reached while every change made elsewhere leaves the escrow reserved.\<close>

inductive mempool_backed :: "('a, 'b, 'p) mempool_config \<Rightarrow> ('a, 'b) mempool_state \<Rightarrow> bool" for c where
  genesis: "mempool_build c seed e = Some s \<Longrightarrow> mempool_backed c s"
| own: "mempool_backed c s \<Longrightarrow> mempool_own_step c s s' \<Longrightarrow> mempool_backed c s'"
| env: "mempool_backed c s \<Longrightarrow> (\<And>x. escrow s x \<le> reserved_balance (mc_currency c) e x) \<Longrightarrow> mempool_backed c (s\<lparr>mp_env := e\<rparr>)"

lemma mempool_backed_reachable: "mempool_backed c s \<Longrightarrow> mempool_reachable c s"
  by (induction rule: mempool_backed.induct) (auto intro: mempool_reachable.intros mempool_step.intros)

lemma mempool_step_cases [consumes 1, case_names call block env]:
  assumes "mempool_step c s s'"
  obtains og call where "mempool_dispatch c og call s = Some (Inr s')" "mempool_call_typed c call" "next_order_id s < u64_max" "mp_block s < u32_max"
  | "next_block c s = Some s'" "Suc (mp_block s) < u32_max"
  | e where "s' = s\<lparr>mp_env := e\<rparr>"
  using assms by (auto elim!: mempool_step.cases mempool_own_step.cases)

subsection \<open>Genesis\<close>

lemma insert_job_spec_Inr:
  assumes "insert_job_spec c who name f v t reg ev s = Inr s'"
  shows "same_ranking s s'" "same_orders s s'" "same_index s s'" "mp_env s' = mp_env s" "dom (job_specs s) \<subseteq> dom (job_specs s')"
  using assms by (auto simp: insert_job_spec_def Let_def mp_fields split: if_splits)

lemma empty_mempool_inv: "mempool_inv c (empty_mempool v evs 0 e)"
  by (simp add: mempool_inv_def empty_mempool_def orders_ok_def index_ok_def opened_def cursor_ok_def slots_ok_def slots_of_def
      unsettled_def)

lemma build_inv:
  assumes "mempool_build c seed e = Some s" shows "mempool_inv c s"
proof (cases seed)
  case None
  then show ?thesis using assms empty_mempool_inv by (auto simp: mempool_build_def)
next
  case (Some who)
  let ?e = "empty_mempool MEMPOOL_STORAGE_VERSION [] 0 e"
  have "insert_default_ising_spec c who False ?e = Inr s"
    using assms Some by (auto simp: mempool_build_def Let_def split: sum.splits)
  note I = insert_job_spec_Inr [OF this [unfolded insert_default_ising_spec_def]]
  show ?thesis by (rule mempool_inv_frame [OF empty_mempool_inv I(1-3,5)])
qed

lemma build_escrow: "mempool_build c seed e = Some s \<Longrightarrow> escrow_ok c s"
  by (auto simp: mempool_build_def empty_mempool_def insert_default_ising_spec_def escrow_ok_def escrow_def unsettled_def Let_def
      dest!: insert_job_spec_Inr(2) split: option.splits sum.splits)

subsection \<open>Calls keep the invariant\<close>

text \<open>What a successful claim went through.\<close>

lemma claim_reward_Inr:
  assumes "claim_reward c og oid s = Some (Inr s')"
  obtains o1 ps e s1 sp where "job_orders s oid = Some o1" "status o1 = Expired" "0 < solution_count o1"
    "compute_payouts oid o1 s = Inr ps" "unreserve (mc_currency c) (proposer o1) (reward o1) (mp_env s) = (0, e)"
    "pay_winners c oid (proposer o1) ps (s\<lparr>mp_env := e\<rparr>) = Inr s1"
    "s' = emit_mp (OrderClosed oid True) ((close_order oid o1 s1)\<lparr>job_specs := sp\<rparr>)" "dom sp = dom (job_specs s)"
proof -
  obtain o1 where o1: "job_orders s oid = Some o1" using assms by (auto simp: claim_reward_def)
  obtain ps where ps: "compute_payouts oid o1 s = Inr ps" using assms o1 by (auto simp: claim_reward_def)
  obtain rest e where e: "unreserve (mc_currency c) (proposer o1) (reward o1) (mp_env s) = (rest, e)" by fastforce
  have st: "status o1 = Expired" "0 < solution_count o1" "rest = 0"
    using assms o1 ps e by (auto simp: claim_reward_def split: option.splits)
  obtain s1 where s1: "pay_winners c oid (proposer o1) ps (s\<lparr>mp_env := e\<rparr>) = Inr s1"
    and s': "s' = emit_mp (OrderClosed oid True) ((close_order oid o1 s1)\<lparr>job_specs :=
      (job_specs (close_order oid o1 s1))(spec_id o1 := map_option
         (\<lambda>sp. sp\<lparr>successful_orders := sat_add u64_max (successful_orders sp) 1\<rparr>) (job_specs (close_order oid o1 s1) (spec_id o1)))\<rparr>)"
    using assms o1 ps e by (auto simp: claim_reward_def Let_def split: option.splits)
  have "job_specs (close_order oid o1 s1) = job_specs s" using pay_winners_fields [OF s1] by (simp add: mp_fields)
  then have "dom ((job_specs (close_order oid o1 s1))(spec_id o1 := map_option
         (\<lambda>sp. sp\<lparr>successful_orders := sat_add u64_max (successful_orders sp) 1\<rparr>) (job_specs (close_order oid o1 s1) (spec_id o1)))) = dom (job_specs s)"
    by (auto simp: dom_def)
  then show ?thesis using that [OF o1 st(1,2) ps e [unfolded st(3)] s1 s'] by blast
qed

lemma claim_inv:
  assumes cfg: "mempool_cfg_ok c" and inv: "mempool_inv c s" and claim: "claim_reward c og oid s = Some (Inr s')"
  shows "mempool_inv c s'" "escrow_moves c s s'"
proof -
  obtain o1 ps e s1 sp where o1: "job_orders s oid = Some o1" "status o1 = Expired"
    and e: "unreserve (mc_currency c) (proposer o1) (reward o1) (mp_env s) = (0, e)"
    and s1: "pay_winners c oid (proposer o1) ps (s\<lparr>mp_env := e\<rparr>) = Inr s1"
    and s': "s' = emit_mp (OrderClosed oid True) ((close_order oid o1 s1)\<lparr>job_specs := sp\<rparr>)" "dom sp = dom (job_specs s)"
    by (rule claim_reward_Inr [OF claim])
  note W = pay_winners_fields [OF s1]
  have laws: "reserve_laws (mc_currency c)" "transfer_laws (mc_currency c)" using cfg by (simp_all add: mempool_cfg_ok_def)
  have "reserved_balance (mc_currency c) (mp_env s1) x = reserved_balance (mc_currency c) (mp_env s) x - (if x = proposer o1 then reward o1 else 0)" for x
    using pay_winners_reserved [OF laws(2) s1, of x] unreserve_all(2) [OF laws(1) e, of x] by simp
  then have "escrow_moves c s (close_order oid o1 s1)"
    using close_escrow [OF _ o1 _ unreserve_all(1) [OF laws(1) e]] inv W by (simp add: mempool_inv_def)
  then show "escrow_moves c s s'" by (simp add: s'(1) escrow_moves_def escrow_def unsettled_def mp_fields)
  have c1: "mempool_inv c (close_order oid o1 s1)" using W by (intro close_inv [OF inv o1]) simp_all
  have "job_specs (close_order oid o1 s1) = job_specs s" using W by (simp add: mp_fields)
  then show "mempool_inv c s'" unfolding s'(1)
    by (intro mempool_inv_frame [OF c1]) (use s'(2) in \<open>simp_all add: mp_fields\<close>)
qed

lemma reclaim_order_Inr:
  assumes "reclaim_order c og oid s = Inr s'"
  obtains o1 e where "job_orders s oid = Some o1" "status o1 = Expired" "solution_count o1 = 0" "og = Signed (proposer o1)"
    "unreserve (mc_currency c) (proposer o1) (reward o1) (mp_env s) = (0, e)"
    "s' = emit_mp (OrderClosed oid False) (emit_mp (RewardReclaimed oid (proposer o1) (reward o1)) (close_order oid o1 (s\<lparr>mp_env := e\<rparr>)))"
proof -
  obtain o1 where o1: "job_orders s oid = Some o1" "status o1 = Expired" "solution_count o1 = 0" "og = Signed (proposer o1)"
    using assms by (auto simp: reclaim_order_def)
  obtain rest e where e: "unreserve (mc_currency c) (proposer o1) (reward o1) (mp_env s) = (rest, e)" by fastforce
  then show ?thesis using assms o1 that by (auto simp: reclaim_order_def)
qed

lemma reclaim_inv:
  assumes cfg: "mempool_cfg_ok c" and inv: "mempool_inv c s" and r: "reclaim_order c og oid s = Inr s'"
  shows "mempool_inv c s'" "escrow_moves c s s'"
proof -
  obtain o1 e where o1: "job_orders s oid = Some o1" "status o1 = Expired"
    and e: "unreserve (mc_currency c) (proposer o1) (reward o1) (mp_env s) = (0, e)"
    and s': "s' = emit_mp (OrderClosed oid False) (emit_mp (RewardReclaimed oid (proposer o1) (reward o1)) (close_order oid o1 (s\<lparr>mp_env := e\<rparr>)))"
    by (rule reclaim_order_Inr [OF r])
  have laws: "reserve_laws (mc_currency c)" using cfg by (simp add: mempool_cfg_ok_def)
  have "escrow_moves c s (close_order oid o1 (s\<lparr>mp_env := e\<rparr>))"
    using close_escrow [OF _ o1 _ unreserve_all(1) [OF laws e], of "s\<lparr>mp_env := e\<rparr>"] unreserve_all(2) [OF laws e] inv
    by (simp add: mempool_inv_def)
  then show "escrow_moves c s s'" by (simp add: s' escrow_moves_def escrow_def unsettled_def mp_fields)
  have c1: "mempool_inv c (close_order oid o1 (s\<lparr>mp_env := e\<rparr>))" by (intro close_inv [OF inv o1]) simp_all
  then show "mempool_inv c s'" unfolding s' by (intro mempool_inv_frame [OF c1]) (simp_all add: mp_fields)
qed

text \<open>Calls that leave orders, index and balances alone.\<close>

lemma unrelated_inv:
  assumes "mempool_inv c s" "same_ranking s s'" "same_orders s s'" "same_index s s'" "dom (job_specs s) \<subseteq> dom (job_specs s')" "mp_env s' = mp_env s"
  shows "mempool_inv c s' \<and> escrow_moves c s s'"
  using mempool_inv_frame [OF assms(1-5)] escrow_moves_frame [OF assms(3,6)] by blast

lemma mempool_dispatch_inv:
  assumes cfg: "mempool_cfg_ok c" and inv: "mempool_inv c s" and d: "mempool_dispatch c og call s = Some (Inr s')"
    and typed: "mempool_call_typed c call" "next_order_id s < u64_max" "mp_block s < u32_max"
  shows "mempool_inv c s' \<and> escrow_moves c s s'"
proof (cases call)
  case (RegisterSolver ty)
  then show ?thesis using d by (intro unrelated_inv [OF inv]) (auto simp: register_solver_def mp_fields)
next
  case DeregisterSolver
  then show ?thesis using d by (intro unrelated_inv [OF inv]) (auto simp: deregister_solver_def mp_fields)
next
  case (RegisterJobSpec who name f v t)
  then have "insert_job_spec c who name f v t (mp_block s) True s = Inr s'" using d by (auto simp: register_job_spec_def)
  note I = insert_job_spec_Inr [OF this]
  show ?thesis by (rule unrelated_inv [OF inv I(1-3,5,4)])
next
  case (ProposeJob sid p r m res t d')
  then obtain who oid where "do_propose_job c who sid p r m res t d' s = Inr (oid, s')" using d by (auto simp: propose_job_def)
  then show ?thesis using propose_inv [OF cfg inv] typed ProposeJob by simp
next
  case (ProposeJobWithPayeeRequirement sid p r m res t d' chain)
  then obtain who oid s1 where p: "do_propose_job c who sid p r m res t d' s = Inr (oid, s1)"
    and s': "s' = emit_mp (PayeeRequirementSet oid chain) (s1\<lparr>order_payee_requirements := (order_payee_requirements s1)(oid \<mapsto> chain)\<rparr>)"
    using d by (auto simp: propose_job_with_payee_requirement_def)
  have s1: "mempool_inv c s1" "escrow_moves c s s1" using propose_inv [OF cfg inv p] typed ProposeJobWithPayeeRequirement by simp_all
  have "escrow_moves c s s'" using s1(2) by (simp add: s' escrow_moves_def escrow_def unsettled_def mp_fields)
  moreover have "mempool_inv c s'" unfolding s' by (rule mempool_inv_frame [OF s1(1)]) (simp_all add: mp_fields)
  ultimately show ?thesis by blast
next
  case (SubmitSolution oid sols)
  then obtain who where "submit_solution_inner c who oid sols None s = Some (Inr s')" using d by (auto simp: submit_solution_def)
  then show ?thesis using submit_inv [OF inv typed(3)] by blast
next
  case (SubmitSolutionWithPayee oid sols payee)
  then obtain who where "submit_solution_inner c who oid sols (Some payee) s = Some (Inr s')"
    using d by (auto simp: submit_solution_with_payee_def)
  then show ?thesis using submit_inv [OF inv typed(3)] by blast
next
  case (ClaimReward oid)
  then show ?thesis using d claim_inv [OF cfg inv] by simp
next
  case (ReclaimOrder oid)
  then show ?thesis using d reclaim_inv [OF cfg inv] by simp
next
  case (PurgeResult oid)
  then show ?thesis using d by (intro unrelated_inv [OF inv]) (auto simp: purge_result_def mp_fields)
qed

subsection \<open>Blocks keep the invariant\<close>

lemma advance_core: "mempool_core c cur s \<Longrightarrow> mempool_core c cur (s\<lparr>mp_block := Suc (mp_block s)\<rparr>)"
proof -
  assume core: "mempool_core c cur s"
  let ?s = "s\<lparr>mp_block := Suc (mp_block s)\<rparr>"
  have i: "orders_ok c s" "index_ok s" "cursor_ok cur s" "slots_ok c s" using core by (simp_all add: mempool_core_def)
  have "order_ranking oid o1 ?s = order_ranking oid o1 s" "best_energies oid ?s = best_energies oid s" for oid o1
    by (simp_all add: order_ranking_def best_energies_def cong: reward_resolution.case_cong)
  then have "order_ok c ?s oid o1" if "order_ok c s oid o1" for oid o1 using that by (auto simp: order_ok_def)
  then have "orders_ok c ?s" using i(1) by (simp add: orders_ok_def)
  moreover have "index_ok ?s" using i(2) unfolding index_ok_def opened_def by (fastforce simp: le_max_iff_disj)
  moreover have "cursor_ok cur ?s" "slots_ok c ?s"
    using i(3,4) by (simp_all add: cursor_ok_def slots_ok_def slots_of_def unsettled_def)
  ultimately show ?thesis by (simp add: mempool_core_def)
qed

text \<open>
  A block never panics. It expires some due orders and changes no other; its effect on the backlog up to any
  block that has been reached is to clear it or to reduce it by the budget.
\<close>

lemma next_block_ok:
  assumes cfg: "mempool_cfg_ok c" and inv: "mempool_inv c s" and bound: "Suc (mp_block s) < u32_max" and n: "n \<le> Suc (mp_block s)"
  obtains s' S where "next_block c s = Some s'" "mempool_inv c s'" "expired_from S (s\<lparr>mp_block := Suc (mp_block s)\<rparr>) s'"
    "\<And>b. orders_expiring_at s' b = orders_expiring_at s b - S" "next_expiry_bucket s \<le> next_expiry_bucket s'"
    "n < next_expiry_bucket s' \<or> backlog n (next_expiry_bucket s') s' + MAX_FINALISED_ORDERS_PER_BLOCK \<le> backlog n (next_expiry_bucket s) s"
proof -
  let ?s = "s\<lparr>mp_block := Suc (mp_block s)\<rparr>" and ?m = MAX_FINALISED_ORDERS_PER_BLOCK
  have core: "mempool_core c (next_expiry_bucket s) ?s" using inv advance_core by (simp add: mempool_inv_core)
  have m: "0 < ?m" by (simp add: MAX_FINALISED_ORDERS_PER_BLOCK_def)
  have eb: "Suc (mp_block s) = mp_block ?s" by simp
  obtain s1 cur f v S where r: "finalise_loop c (Suc (mp_block s)) ?m ?m (next_expiry_bucket s) 0 0 ?s = Some (s1, cur, f, v)"
    "mempool_core c cur s1" "expired_from S ?s s1" "next_expiry_bucket s \<le> cur"
    "\<forall>b. orders_expiring_at s1 b = orders_expiring_at ?s b - S"
    "n < cur \<or> backlog n cur s1 + min ?m ?m \<le> backlog n (next_expiry_bucket s) ?s"
    using finalise_loop_ok [OF cfg eb bound core n m, of ?m 0 0] by blast
  let ?s' = "s1\<lparr>next_expiry_bucket := cur\<rparr>"
  have "next_block c s = Some ?s'"
    using r(1) by (simp add: next_block_def mempool_on_initialize_def finalise_expired_orders_def Let_def)
  moreover have c': "mempool_core c cur ?s' = mempool_core c cur s1"
  proof -
    have "orders_ok c ?s' = orders_ok c s1" "index_ok ?s' = index_ok s1" "cursor_ok cur ?s' = cursor_ok cur s1"
      "slots_ok c ?s' = slots_ok c s1"
      by (simp_all add: orders_ok_def order_ok_def order_ranking_def best_energies_def index_ok_def opened_def cursor_ok_def
          slots_ok_def slots_of_def unsettled_def cong: reward_resolution.case_cong)
    then show ?thesis by (simp add: mempool_core_def)
  qed
  then have "mempool_inv c ?s'" using r(2) by (simp add: mempool_inv_core)
  moreover have "expired_from S ?s ?s'" using r(3) by (simp add: expired_from_def)
  moreover have "backlog n cur ?s' = backlog n cur s1" "backlog n (next_expiry_bucket s) ?s = backlog n (next_expiry_bucket s) s"
    by (simp_all add: backlog_def overdue_def)
  ultimately show ?thesis using that [of ?s' S] r(4-6) by simp
qed

lemma mempool_step_inv:
  assumes cfg: "mempool_cfg_ok c" and inv: "mempool_inv c s" and step: "mempool_step c s s'"
  shows "mempool_inv c s'"
  using step
proof (cases rule: mempool_step_cases)
  case (call og call)
  then show ?thesis using mempool_dispatch_inv [OF cfg inv] by blast
next
  case block
  then show ?thesis by (metis next_block_ok [OF cfg inv _ le0] option.sel)
next
  case (env e)
  then show ?thesis by (intro mempool_inv_frame [OF inv]) simp_all
qed

text \<open>A step of the pallet moves the reserves exactly with the escrow, covered or not.\<close>

lemma mempool_own_step_escrow:
  assumes cfg: "mempool_cfg_ok c" and inv: "mempool_inv c s" and step: "mempool_own_step c s s'"
  shows "escrow_moves c s s'"
  using step
proof cases
  case (call og call)
  then show ?thesis using mempool_dispatch_inv [OF cfg inv] by blast
next
  case block
  then obtain S where "expired_from S (s\<lparr>mp_block := Suc (mp_block s)\<rparr>) s'"
    by (metis next_block_ok [OF cfg inv _ le0] option.sel)
  from expired_escrow [OF this, of c] show ?thesis by (simp add: escrow_moves_def escrow_def unsettled_def)
qed

lemma mempool_reachable_inv: "mempool_cfg_ok c \<Longrightarrow> mempool_reachable c s \<Longrightarrow> mempool_inv c s"
  by (rotate_tac, induction rule: mempool_reachable.induct) (auto intro: build_inv mempool_step_inv)

lemma mempool_backed_escrow: "mempool_cfg_ok c \<Longrightarrow> mempool_backed c s \<Longrightarrow> escrow_ok c s"
proof (rotate_tac, induction rule: mempool_backed.induct)
  case (own s s')
  have "mempool_inv c s" using mempool_reachable_inv [OF own(4) mempool_backed_reachable [OF own(1)]] .
  then show ?case using mempool_own_step_escrow [OF own(4) _ own(2)] escrow_moves_ok own.IH own(4) by blast
next
  case (env s e)
  then show ?case by (simp add: escrow_ok_def escrow_def unsettled_def)
qed (auto intro: build_escrow)

subsection \<open>No call panics\<close>

lemma submit_no_panic:
  assumes cfg: "mempool_cfg_ok c" and inv: "mempool_inv c s"
  shows "submit_solution_inner c who oid sols payee s \<noteq> None"
proof
  assume "submit_solution_inner c who oid sols payee s = None"
  then obtain info o1 spec vs be bi where ck: "check_submission who oid sols payee s = Inr (info, o1, spec)"
    and sc: "score_submission c o1 spec sols s = Inr (vs, be, bi)" and none: "choose_solutions c (params o1) vs bi = None"
    by (auto simp: submit_solution_inner_def and_then_p_None_iff ensure_p_None_iff)
  obtain ts where t: "vs = filter (within_bound (params o1)) ts" "length ts \<le> mc_max_solutions c"
    "\<forall>t \<in> set ts. solves (params o1) t" "bi < length vs"
    by (rule score_submission_Inr [OF sc])
  have "length (ip_nodes (params o1)) \<le> mc_max_nodes c"
    using ck inv by (auto simp: check_submission_Inr mempool_inv_def orders_ok_def order_ok_def)
  moreover have "length vs \<le> mc_max_solutions c" using t(2) unfolding t(1) by (rule le_trans [OF length_filter_le])
  ultimately show False using choose_solutions_no_panic [of vs "params o1" c bi] t none cfg by (auto simp: mempool_cfg_ok_def)
qed

lemma claim_no_panic:
  assumes "mempool_inv c s" shows "claim_reward c og oid s \<noteq> None"
proof
  assume n: "claim_reward c og oid s = None"
  then obtain o1 ps where o1: "job_orders s oid = Some o1" "compute_payouts oid o1 s = Inr ps" "winner_summaries_from_payouts ps = None"
    by (auto simp: claim_reward_def and_then_p_None_iff ensure_p_None_iff Let_def split: option.splits prod.splits)
  have "order_ok c s oid o1" using assms o1(1) by (simp add: mempool_inv_def orders_ok_def)
  from compute_payouts_length [OF this o1(2)] show False using o1(3) by (simp add: winner_summaries_from_payouts_def)
qed

lemma dispatch_no_panic:
  assumes "mempool_cfg_ok c" "mempool_inv c s" shows "mempool_dispatch c og call s \<noteq> None"
  using submit_no_panic [OF assms] claim_no_panic [OF assms(2)]
  by (cases call) (auto simp: submit_solution_def submit_solution_with_payee_def and_then_p_None_iff)

subsection \<open>The life of an order\<close>

text \<open>What a step may do to an order: nothing, a new solution, expiry when due, or closure.\<close>

definition same_terms :: "'a job_order \<Rightarrow> 'a job_order \<Rightarrow> bool" where
  "same_terms o1 o2 \<longleftrightarrow>
     spec_id o2 = spec_id o1 \<and> proposer o2 = proposer o1 \<and> params o2 = params o1 \<and> reward o2 = reward o1 \<and>
     job_mode o2 = job_mode o1 \<and> resolution o2 = resolution o1 \<and> timing o2 = timing o1 \<and> delivery o2 = delivery o1 \<and>
     created_at o2 = created_at o1 \<and> (\<forall>f. first_solution_at o1 = Some f \<longrightarrow> first_solution_at o2 = Some f) \<and>
     solution_count o1 \<le> solution_count o2"

definition order_moves :: "block \<Rightarrow> 'a job_order \<Rightarrow> 'a job_order \<Rightarrow> bool" where
  "order_moves now o1 o2 \<longleftrightarrow>
     same_terms o1 o2 \<and>
     (status o2 = status o1 \<and> (status o1 \<noteq> Opened \<longrightarrow> o2 = o1) \<or>
      status o1 = Opened \<and> o2 = o1\<lparr>status := Expired\<rparr> \<and> order_expiry o1 \<le> now \<or>
      status o1 = Expired \<and> o2 = o1\<lparr>status := Closed\<rparr>)"

lemma order_moves_refl [simp]: "order_moves now o1 o1"
  by (simp add: order_moves_def same_terms_def)

lemma submit_moves:
  assumes "submit_solution_inner c who oid' sols payee s = Some (Inr s')" "job_orders s oid = Some o1" "solution_count o1 \<le> u32_max"
  shows "\<exists>o2. job_orders s' oid = Some o2 \<and> order_moves (mp_block s') o1 o2"
proof -
  obtain info o3 spec be sel d where ck: "check_submission who oid' sols payee s = Inr (info, o3, spec)"
    and acc: "accept_solution who oid' info o3 payee be sel d s = Inr s'"
    by (rule submit_solution_inner_Inr [OF assms(1)]) blast
  have o3: "job_orders s oid' = Some o3" "status o3 = Opened" using ck by (simp_all add: check_submission_Inr)
  show ?thesis
  proof (cases "oid' = oid")
    case True
    then have "order_moves (mp_block s') o1 (order_after who oid o1 s)"
      using o3 assms(2,3) by (auto simp: order_moves_def same_terms_def order_after_def sat_add_def)
    then show ?thesis using accept_solution_Inr(1) [OF acc] True o3(1) assms(2) by simp
  next
    case False
    then show ?thesis using accept_solution_Inr(1) [OF acc] assms(2) by simp
  qed
qed

lemma dispatch_moves:
  assumes inv: "orders_ok c s" and d: "mempool_dispatch c og call s = Some (Inr s')" and o1: "job_orders s oid = Some o1"
    and b: "solution_count o1 \<le> u32_max" "next_order_id s < u64_max"
  shows "\<exists>o2. job_orders s' oid = Some o2 \<and> order_moves (mp_block s') o1 o2"
proof (cases call)
  case (RegisterSolver ty)
  then show ?thesis using d o1 by (auto simp: register_solver_def mp_fields)
next
  case DeregisterSolver
  then show ?thesis using d o1 by (auto simp: deregister_solver_def mp_fields)
next
  case (RegisterJobSpec who name f v t)
  then have "insert_job_spec c who name f v t (mp_block s) True s = Inr s'" using d by (auto simp: register_job_spec_def)
  from insert_job_spec_Inr [OF this] show ?thesis using o1 by simp
next
  case (ProposeJob sid p r m res t d')
  then obtain who oid' where p: "do_propose_job c who sid p r m res t d' s = Inr (oid', s')" using d by (auto simp: propose_job_def)
  have "oid' \<noteq> oid" using do_propose_job_Inr(1) [OF p] inv o1 by (auto simp: orders_ok_def order_ok_def)
  then show ?thesis using do_propose_job_Inr(6) [OF p] o1 by simp
next
  case (ProposeJobWithPayeeRequirement sid p r m res t d' chain)
  then obtain who oid' s1 where p: "do_propose_job c who sid p r m res t d' s = Inr (oid', s1)"
    and s': "s' = emit_mp (PayeeRequirementSet oid' chain) (s1\<lparr>order_payee_requirements := (order_payee_requirements s1)(oid' \<mapsto> chain)\<rparr>)"
    using d by (auto simp: propose_job_with_payee_requirement_def)
  have "oid' \<noteq> oid" using do_propose_job_Inr(1) [OF p] inv o1 by (auto simp: orders_ok_def order_ok_def)
  then show ?thesis using do_propose_job_Inr(6) [OF p] o1 s' by (simp add: mp_fields)
next
  case (SubmitSolution oid' sols)
  then obtain who where "submit_solution_inner c who oid' sols None s = Some (Inr s')" using d by (auto simp: submit_solution_def)
  then show ?thesis by (rule submit_moves [OF _ o1 b(1)])
next
  case (SubmitSolutionWithPayee oid' sols payee)
  then obtain who where "submit_solution_inner c who oid' sols (Some payee) s = Some (Inr s')"
    using d by (auto simp: submit_solution_with_payee_def)
  then show ?thesis by (rule submit_moves [OF _ o1 b(1)])
next
  case (ClaimReward oid')
  then have "claim_reward c og oid' s = Some (Inr s')" using d by simp
  then obtain o3 s1 ps e sp where c: "job_orders s oid' = Some o3" "status o3 = Expired"
    "pay_winners c oid' (proposer o3) ps (s\<lparr>mp_env := e\<rparr>) = Inr s1"
    "s' = emit_mp (OrderClosed oid' True) ((close_order oid' o3 s1)\<lparr>job_specs := sp\<rparr>)"
    by (rule claim_reward_Inr) blast
  then show ?thesis using o1 pay_winners_fields [OF c(3)] by (auto simp: mp_fields order_moves_def same_terms_def)
next
  case (ReclaimOrder oid')
  then have "reclaim_order c og oid' s = Inr s'" using d by simp
  then obtain o3 e where "job_orders s oid' = Some o3" "status o3 = Expired"
    "s' = emit_mp (OrderClosed oid' False) (emit_mp (RewardReclaimed oid' (proposer o3) (reward o3)) (close_order oid' o3 (s\<lparr>mp_env := e\<rparr>)))"
    by (rule reclaim_order_Inr) blast
  then show ?thesis using o1 by (auto simp: mp_fields order_moves_def same_terms_def)
next
  case (PurgeResult oid')
  then show ?thesis using d o1 by (auto simp: purge_result_def mp_fields)
qed

lemma step_moves:
  assumes cfg: "mempool_cfg_ok c" and inv: "mempool_inv c s" and step: "mempool_step c s s'" and o1: "job_orders s oid = Some o1"
  shows "\<exists>o2. job_orders s' oid = Some o2 \<and> order_moves (mp_block s') o1 o2"
  using step
proof (cases rule: mempool_step_cases)
  case (call og call)
  have "orders_ok c s" "solution_count o1 \<le> u32_max" using inv o1 by (auto simp: mempool_inv_def orders_ok_def order_ok_def)
  then show ?thesis using dispatch_moves call o1 by blast
next
  case block
  then obtain S where "expired_from S (s\<lparr>mp_block := Suc (mp_block s)\<rparr>) s'"
    by (metis next_block_ok [OF cfg inv _ le0] option.sel)
  then show ?thesis using o1 by (cases "oid \<in> S") (auto simp: expired_from_def order_moves_def same_terms_def)
next
  case (env e)
  then show ?thesis using o1 by simp
qed

end
