(* ===== verification/Mempool_Theorems.thy ===== *)
theory Mempool_Theorems
  imports Mempool_Chain
begin

text \<open>
  What the mempool guarantees: accepted submissions are sound, the ranking holds the best solvers, orders live
  and die on schedule, rewards are escrowed and paid once, overdue orders are expired within a bounded
  number of blocks, and nothing panics.
\<close>

subsection \<open>Payment\<close>

definition paid_to :: "'a \<Rightarrow> ('a \<times> u128 \<times> i64) list \<Rightarrow> balance" where
  "paid_to x ps = sum_list (map (\<lambda>(w, a, e). if w = x then a else 0) ps)"

lemma pay_winners_free:
  assumes "transfer_laws (mc_currency c)" "pay_winners c oid from ps s = Inr s'" "x \<noteq> from"
  shows "free_balance (mc_currency c) (mp_env s') x = free_balance (mc_currency c) (mp_env s) x + paid_to x ps"
  using assms
proof (induction c oid "from" ps s rule: pay_winners.induct)
  case (2 c oid "from" winner payout energy rest s)
  show ?case
  proof (cases "payout = 0")
    case False
    then obtain e where e: "transfer (mc_currency c) from winner payout False (mp_env s) = Inr e"
      and r: "pay_winners c oid from rest (emit_mp (RewardClaimed oid winner payout) (credit_solver winner payout (s\<lparr>mp_env := e\<rparr>))) = Inr s'"
      using "2.prems"(2) by auto
    then show ?thesis
      using "2.IH"(2) [OF False "2.prems"(1) r "2.prems"(3)] transfer_moves(2) [OF "2.prems"(1) e "2.prems"(3)]
      by (simp add: paid_to_def mp_fields credit_solver_def)
  qed (use 2 in \<open>simp add: paid_to_def\<close>)
qed (simp add: paid_to_def)

lemma compute_payouts_fair:
  assumes ok: "order_ok c s oid o1" and ps: "compute_payouts oid o1 s = Inr ps"
  shows "fair_split (order_ranking oid o1 s) (reward o1) ps"
proof -
  have r: "reward o1 \<le> u128_max" "length (order_ranking oid o1 s) \<le> MAX_REWARD_WINNERS"
    using ok valid_resolution_limit [of "resolution o1"] by (auto simp: order_ok_def ranking_of_def min_le_iff_disj)
  show ?thesis
    using ps r top_n_equal_payouts_fair [of "order_ranking oid o1 s" "reward o1"]
      top_n_weighted_payouts_fair [of "order_ranking oid o1 s" "reward o1"]
    by (cases "resolution o1") (auto simp: compute_payouts_def order_ranking_def single_best_payouts_def fair_split_def)
qed

lemma compute_payouts_available:
  assumes ok: "order_ok c s oid o1" and "0 < solution_count o1"
  shows "\<exists>ps. compute_payouts oid o1 s = Inr ps"
proof -
  have "dom (order_solutions s oid) \<noteq> {}" using assms by (auto simp: order_ok_def)
  then have "card (dom (best_energies oid s)) \<noteq> 0"
    using ok by (auto simp: order_ok_def ranking_of_def best_energies_def dom_def)
  then have "order_ranking oid o1 s \<noteq> []"
    using ok valid_resolution_limit [of "resolution o1"] by (auto simp: order_ok_def ranking_of_def)
  then show ?thesis
    by (cases "resolution o1") (auto simp: order_ranking_def compute_payouts_def split: option.splits)
qed

subsection \<open>Runs\<close>

lemma run_inv: "mempool_cfg_ok c \<Longrightarrow> mempool_inv c s \<Longrightarrow> (mempool_step c)\<^sup>*\<^sup>* s t \<Longrightarrow> mempool_inv c t"
  by (rotate_tac 2, induction rule: rtranclp_induct) (auto intro: mempool_step_inv)

lemma run_closed:
  assumes "mempool_cfg_ok c" "mempool_inv c s" "(mempool_step c)\<^sup>*\<^sup>* s t" "job_orders s oid = Some o1" "status o1 = Closed"
  shows "job_orders t oid = Some o1"
  using assms(3)
proof (induction rule: rtranclp_induct)
  case (step t u)
  have "mempool_inv c t" using run_inv [OF assms(1,2) step(1)] .
  then obtain o2 where "job_orders u oid = Some o2" "order_moves (mp_block u) o1 o2"
    using step_moves [OF assms(1) _ step(2)] step.IH by blast
  then show ?case using assms(5) by (auto simp: order_moves_def)
qed (use assms(4) in simp)

lemma closed_no_settlement:
  assumes "job_orders s oid = Some o1" "status o1 = Closed"
  shows "claim_reward c og oid s \<noteq> Some (Inr s')" "reclaim_order c og oid s \<noteq> Inr s'"
  using assms by (auto simp: reclaim_order_def elim!: claim_reward_Inr)

subsection \<open>Liveness of expiry\<close>

text \<open>A call never touches the buckets that are due.\<close>

lemma submit_due:
  assumes "mempool_inv c s" "mp_block s < u32_max" "submit_solution_inner c who oid sols payee s = Some (Inr s')" "b \<le> mp_block s"
  shows "orders_expiring_at s' b = orders_expiring_at s b" "next_expiry_bucket s' = next_expiry_bucket s" "mp_block s' = mp_block s"
proof -
  obtain info o1 spec be sel d where ck: "check_submission who oid sols payee s = Inr (info, o1, spec)"
    and acc: "accept_solution who oid info o1 payee be sel d s = Inr s'"
    by (rule submit_solution_inner_Inr [OF assms(3)]) blast
  have "mp_block s < order_expiry o1" using ck by (simp add: check_submission_Inr)
  then have "first_solution_at o1 = None \<Longrightarrow> b < effective_expiry (created_at o1) None (timing o1)" using assms(4) by (simp add: order_expiry_def)
  moreover have "b < expiry_bucket s e" for e using assms(2,4) by (simp add: expiry_bucket_def sat_add_def)
  ultimately show "orders_expiring_at s' b = orders_expiring_at s b"
    using accept_solution_Inr(3) [OF acc] by (simp add: index_after_def Let_def) (metis nat_neq_iff)
  show "next_expiry_bucket s' = next_expiry_bucket s" "mp_block s' = mp_block s" using accept_solution_Inr(4,8) [OF acc] by simp_all
qed

lemma propose_due:
  assumes "mp_block s < u32_max" "do_propose_job c who sid p r m res t d s = Inr (oid, s')" "b \<le> mp_block s"
  shows "orders_expiring_at s' b = orders_expiring_at s b" "next_expiry_bucket s' = next_expiry_bucket s" "mp_block s' = mp_block s"
proof -
  note P = do_propose_job_Inr [OF assms(2)]
  have "b < expiry_bucket s e" for e using assms(1,3) by (simp add: expiry_bucket_def sat_add_def)
  then show "orders_expiring_at s' b = orders_expiring_at s b" using P(8) by (simp add: Let_def) (metis nat_neq_iff)
  show "next_expiry_bucket s' = next_expiry_bucket s" "mp_block s' = mp_block s" using P(11,12) by simp_all
qed

lemma dispatch_due:
  assumes inv: "mempool_inv c s" and bd: "mp_block s < u32_max" and d: "mempool_dispatch c og call s = Some (Inr s')" and b: "b \<le> mp_block s"
  shows "orders_expiring_at s' b = orders_expiring_at s b \<and> next_expiry_bucket s' = next_expiry_bucket s \<and> mp_block s' = mp_block s"
proof (cases call)
  case (RegisterJobSpec who name f v t)
  then show ?thesis using d by (auto simp: register_job_spec_def dest: insert_job_spec_Inr)
next
  case (ProposeJob sid p r m res t d')
  then obtain who oid where "do_propose_job c who sid p r m res t d' s = Inr (oid, s')" using d by (auto simp: propose_job_def)
  from propose_due [OF bd this b] show ?thesis by blast
next
  case (ProposeJobWithPayeeRequirement sid p r m res t d' chain)
  then obtain who oid s1 where p: "do_propose_job c who sid p r m res t d' s = Inr (oid, s1)"
    and s': "s' = emit_mp (PayeeRequirementSet oid chain) (s1\<lparr>order_payee_requirements := (order_payee_requirements s1)(oid \<mapsto> chain)\<rparr>)"
    using d by (auto simp: propose_job_with_payee_requirement_def)
  from propose_due [OF bd p b] show ?thesis by (simp add: s' mp_fields)
next
  case (SubmitSolution oid sols)
  then obtain who where "submit_solution_inner c who oid sols None s = Some (Inr s')" using d by (auto simp: submit_solution_def)
  from submit_due [OF inv bd this b] show ?thesis by blast
next
  case (SubmitSolutionWithPayee oid sols payee)
  then obtain who where "submit_solution_inner c who oid sols (Some payee) s = Some (Inr s')"
    using d by (auto simp: submit_solution_with_payee_def)
  from submit_due [OF inv bd this b] show ?thesis by blast
next
  case (ClaimReward oid)
  then have "claim_reward c og oid s = Some (Inr s')" using d by simp
  then obtain o1 ps e s1 sp where "pay_winners c oid (proposer o1) ps (s\<lparr>mp_env := e\<rparr>) = Inr s1"
    "s' = emit_mp (OrderClosed oid True) ((close_order oid o1 s1)\<lparr>job_specs := sp\<rparr>)" by (rule claim_reward_Inr) blast
  then show ?thesis using pay_winners_fields [of c oid "proposer o1" ps "s\<lparr>mp_env := e\<rparr>" s1] by (simp add: mp_fields)
next
  case (ReclaimOrder oid)
  then have "reclaim_order c og oid s = Inr s'" using d by simp
  then show ?thesis by (rule reclaim_order_Inr) (simp add: mp_fields)
qed (use d in \<open>auto simp: register_solver_def deregister_solver_def purge_result_def mp_fields\<close>)

text \<open>The progress of one step on the backlog up to a block that has been reached.\<close>

lemma step_progress:
  assumes cfg: "mempool_cfg_ok c" and inv: "mempool_inv c s" and step: "mempool_step c s t" and n: "n \<le> mp_block s"
  shows "mp_block s \<le> mp_block t" "next_expiry_bucket s \<le> next_expiry_bucket t"
    "n < next_expiry_bucket t \<or> backlog n (next_expiry_bucket t) t + MAX_FINALISED_ORDERS_PER_BLOCK * (mp_block t - mp_block s) \<le> backlog n (next_expiry_bucket s) s"
    "oid \<in> overdue n s \<Longrightarrow> opened t oid \<Longrightarrow> oid \<in> overdue n t"
proof -
  have "mp_block s \<le> mp_block t \<and> next_expiry_bucket s \<le> next_expiry_bucket t \<and>
    (n < next_expiry_bucket t \<or> backlog n (next_expiry_bucket t) t + MAX_FINALISED_ORDERS_PER_BLOCK * (mp_block t - mp_block s) \<le> backlog n (next_expiry_bucket s) s) \<and>
    (oid \<in> overdue n s \<longrightarrow> opened t oid \<longrightarrow> oid \<in> overdue n t)"
    using step
  proof (cases rule: mempool_step_cases)
    case (call og call)
    have "overdue n t = overdue n s" unfolding overdue_def by (rule SUP_cong) (use dispatch_due [OF inv call(4,1)] n in auto)
    then show ?thesis using dispatch_due [OF inv call(4,1), of 0] by (simp add: backlog_def)
  next
    case block
    have n': "n \<le> Suc (mp_block s)" using n by simp
    obtain s' S where b: "next_block c s = Some s'" "expired_from S (s\<lparr>mp_block := Suc (mp_block s)\<rparr>) s'"
      "\<And>b. orders_expiring_at s' b = orders_expiring_at s b - S" "next_expiry_bucket s \<le> next_expiry_bucket s'"
      "n < next_expiry_bucket s' \<or> backlog n (next_expiry_bucket s') s' + MAX_FINALISED_ORDERS_PER_BLOCK \<le> backlog n (next_expiry_bucket s) s"
      by (rule next_block_ok [OF cfg inv block(2) n']) blast
    have t: "t = s'" using b(1) block(1) by simp
    have "mp_block t = Suc (mp_block s)" using b(2) t by (simp add: expired_from_def)
    moreover have "oid \<in> S \<Longrightarrow> \<not> opened t oid" using b(2) t by (auto simp: expired_from_def opened_def)
    then have "oid \<in> overdue n s \<Longrightarrow> opened t oid \<Longrightarrow> oid \<in> overdue n t" using overdue_removed [OF b(3)] t by blast
    ultimately show ?thesis using b(4,5) t by simp
  next
    case (env e)
    then show ?thesis by (simp add: backlog_def overdue_def)
  qed
  then show "mp_block s \<le> mp_block t" "next_expiry_bucket s \<le> next_expiry_bucket t"
    "n < next_expiry_bucket t \<or> backlog n (next_expiry_bucket t) t + MAX_FINALISED_ORDERS_PER_BLOCK * (mp_block t - mp_block s) \<le> backlog n (next_expiry_bucket s) s"
    "oid \<in> overdue n s \<Longrightarrow> opened t oid \<Longrightarrow> oid \<in> overdue n t" by blast+
qed

lemma opened_back:
  assumes cfg: "mempool_cfg_ok c" and inv: "mempool_inv c s" and step: "mempool_step c s t" and o1: "job_orders s oid = Some o1"
    and op: "opened t oid" shows "opened s oid"
  using step_moves [OF cfg inv step o1] op o1 by (auto simp: opened_def order_moves_def)

lemma run_progress:
  assumes cfg: "mempool_cfg_ok c" and inv: "mempool_inv c s" and run: "(mempool_step c)\<^sup>*\<^sup>* s t" and n: "n \<le> mp_block s"
  shows "mp_block s \<le> mp_block t \<and>
    (n < next_expiry_bucket t \<or> backlog n (next_expiry_bucket t) t + MAX_FINALISED_ORDERS_PER_BLOCK * (mp_block t - mp_block s) \<le> backlog n (next_expiry_bucket s) s) \<and>
    (oid \<in> overdue n s \<and> opened t oid \<longrightarrow> oid \<in> overdue n t) \<and> (job_orders s oid \<noteq> None \<longrightarrow> job_orders t oid \<noteq> None)"
  using run
proof (induction rule: rtranclp_induct)
  case base
  then show ?case by simp
next
  case (step t u)
  have it: "mempool_inv c t" using run_inv [OF cfg inv step(1)] .
  have nt: "n \<le> mp_block t" using step.IH n by linarith
  note P = step_progress [OF cfg it step(2) nt]
  have "n < next_expiry_bucket u \<or>
    backlog n (next_expiry_bucket u) u + MAX_FINALISED_ORDERS_PER_BLOCK * (mp_block u - mp_block s) \<le> backlog n (next_expiry_bucket s) s"
  proof (cases "n < next_expiry_bucket u")
    case False
    have "mp_block u - mp_block s = (mp_block u - mp_block t) + (mp_block t - mp_block s)" using P(1) step.IH by linarith
    then have "MAX_FINALISED_ORDERS_PER_BLOCK * (mp_block u - mp_block s) =
        MAX_FINALISED_ORDERS_PER_BLOCK * (mp_block u - mp_block t) + MAX_FINALISED_ORDERS_PER_BLOCK * (mp_block t - mp_block s)"
      by (simp only: add_mult_distrib2)
    moreover have "\<not> n < next_expiry_bucket t" using False P(2) by simp
    ultimately show ?thesis using P(3) step.IH False by linarith
  qed blast
  moreover have "oid \<in> overdue n u" if "oid \<in> overdue n s" "opened u oid"
  proof -
    have "opened s oid" using that(1) inv by (auto simp: overdue_def mempool_inv_def dest: not_indexed)
    then have "job_orders t oid \<noteq> None" using step.IH by (auto simp: opened_def)
    then have "opened t oid" using opened_back [OF cfg it step(2)] that(2) by blast
    then show ?thesis using P(4) step.IH that by blast
  qed
  moreover have "job_orders t oid \<noteq> None \<Longrightarrow> job_orders u oid \<noteq> None" using step_moves [OF cfg it step(2)] by force
  ultimately show ?case using step.IH P(1) by force
qed

lemma run_cursor:
  assumes "mempool_cfg_ok c" "mempool_inv c s" "(mempool_step c)\<^sup>*\<^sup>* s t"
  shows "next_expiry_bucket s \<le> next_expiry_bucket t"
  using assms(3)
proof (induction rule: rtranclp_induct)
  case (step t u)
  then show ?case using step_progress(2) [OF assms(1) run_inv [OF assms(1,2) step(1)] step(2) le0] by simp
qed simp

lemma run_opened:
  assumes "mempool_cfg_ok c" "mempool_inv c s" "(mempool_step c)\<^sup>*\<^sup>* s t" "job_orders s oid \<noteq> None" "opened t oid"
  shows "opened s oid"
  using assms(3,5)
proof (induction rule: rtranclp_induct)
  case (step t u)
  have "job_orders t oid \<noteq> None" using run_progress [OF assms(1,2) step(1) le0] assms(4) by blast
  then show ?case using opened_back [OF assms(1) run_inv [OF assms(1,2) step(1)] step(2)] step by blast
qed simp

text \<open>The payments fail only with the error of a transfer of one of the shares, after those before it were made.\<close>

definition share_refused ::
    "('a, 'b, 'p) mempool_config \<Rightarrow> u64 \<Rightarrow> 'a \<Rightarrow> ('a \<times> u128 \<times> i64) list \<Rightarrow> ('a, 'b) mempool_state \<Rightarrow> nat \<Rightarrow> bool" where
  "share_refused c oid from ps s n \<longleftrightarrow>
     (\<exists>before w a en after s1. ps = before @ (w, a, en) # after \<and> 0 < a \<and> pay_winners c oid from before s = Inr s1 \<and>
        transfer (mc_currency c) from w a False (mp_env s1) = Inl n)"

lemma share_refused_Cons:
  assumes "share_refused c oid from ps s1 n"
    and "\<And>qs. pay_winners c oid from (p # qs) s = pay_winners c oid from qs s1"
  shows "share_refused c oid from (p # ps) s n"
  using assms unfolding share_refused_def by (metis append_Cons)

lemma pay_winners_result:
  "(\<exists>s'. pay_winners c oid from ps s = Inr s') \<or> (\<exists>n. pay_winners c oid from ps s = Inl (Other n) \<and> share_refused c oid from ps s n)"
proof (induction c oid "from" ps s rule: pay_winners.induct)
  case (2 c oid "from" winner payout energy rest s)
  show ?case
  proof (cases "payout = 0")
    case True
    then have "share_refused c oid from ((winner, payout, energy) # rest) s n" if "share_refused c oid from rest s n" for n
      by (intro share_refused_Cons [OF that]) simp
    then show ?thesis using "2.IH"(1) [OF True] True by auto
  next
    case False
    show ?thesis
    proof (cases "transfer (mc_currency c) from winner payout False (mp_env s)")
      case (Inl n)
      then have "share_refused c oid from ((winner, payout, energy) # rest) s n"
        using False unfolding share_refused_def by (intro exI [of _ "[]"]) auto
      then show ?thesis using False Inl by simp
    next
      case (Inr e)
      let ?s = "emit_mp (RewardClaimed oid winner payout) (credit_solver winner payout (s\<lparr>mp_env := e\<rparr>))"
      have "share_refused c oid from ((winner, payout, energy) # rest) s n" if "share_refused c oid from rest ?s n" for n
        using False Inr by (intro share_refused_Cons [OF that]) simp
      then show ?thesis using False Inr "2.IH"(2) [OF False, of e] by auto
    qed
  qed
qed simp

lemma unsettled_reward_le:
  assumes "orders_ok c s" "job_orders s oid = Some o1" "status o1 \<noteq> Closed" shows "reward o1 \<le> escrow s (proposer o1)"
proof -
  have "oid \<in> unsettled s (proposer o1)" using assms(2,3) by (simp add: unsettled_def)
  then show ?thesis unfolding escrow_def
    using assms(2) unsettled_finite [OF assms(1)] member_le_sum [of oid "unsettled s (proposer o1)" "\<lambda>i. reward (the (job_orders s i))"] by simp
qed

text \<open>Without enough reserve a release leaves a remainder, and the settlement is refused.\<close>

lemma unreserve_short:
  assumes "reserve_laws cur" "reserved_balance cur b who < d"
  obtains rest e where "unreserve cur who d b = (rest, e)" "0 < rest"
proof -
  have "fst (unreserve cur who d b) = d - min d (reserved_balance cur b who)"
    using assms(1) unfolding reserve_laws_def Let_def by blast
  then have "0 < fst (unreserve cur who d b)" using assms(2) by simp
  then show ?thesis using that by (metis prod.collapse)
qed

subsection \<open>Properties\<close>

text \<open>
  C5: a submission is accepted only from a registered, eligible solver, on an open order before its expiry, with a
  payee on the required chain. The stored solutions are among the transformed ones, each a spin assignment of
  the order's problem within its energy bound; the stored energy is the least Ising energy of all the
  transformed solutions, attained by the first stored one and strictly below the solver's previous one; the
  stored diversity is that of the stored set and the order's minimum count and diversity are met.
\<close>

theorem accepted_solution_sound:
  assumes "mempool_cfg_ok c" "mempool_reachable c s" "submit_solution_inner c who oid sols payee s = Some (Inr s')"
  shows "\<exists>info o1 spec ts js.
    solvers s who = Some info \<and> job_orders s oid = Some o1 \<and> job_specs s (spec_id o1) = Some spec \<and>
    status o1 = Opened \<and> mp_block s < order_expiry o1 \<and> solver_is_eligible who (solver_type info) (job_mode o1) \<and>
    (\<forall>chain. order_payee_requirements s oid = Some chain \<longrightarrow> (\<exists>addr. payee = Some (PayeeV1 chain addr))) \<and>
    outcome_result (transform_solutions (mc_vm c (mp_env s)) (transform_program spec) sols) = Inr ts \<and>
    order_solutions s' oid who = Some js \<and> order_payees s' oid who = payee \<and>
    set (js_solutions js) \<subseteq> set ts \<and> (\<forall>sol \<in> set (js_solutions js). solves (params o1) sol \<and> within_bound (params o1) sol) \<and>
    js_best_energy js = Min (order_energy (params o1) ` set ts) \<and>
    js_best_energy js = order_energy (params o1) (hd (js_solutions js)) \<and>
    (\<forall>old. order_solutions s oid who = Some old \<longrightarrow> js_best_energy js < js_best_energy old) \<and>
    calculate_diversity (js_solutions js) = Some (Inr (js_diversity js)) \<and>
    (\<forall>k. ip_min_solutions (params o1) = Some k \<longrightarrow> k \<le> length (js_solutions js)) \<and>
    (\<forall>k. ip_min_diversity (params o1) = Some k \<longrightarrow> k \<le> js_diversity js)"
proof -
  obtain info o1 spec vs be bi sel d where ck: "check_submission who oid sols payee s = Inr (info, o1, spec)"
    and sc: "score_submission c o1 spec sols s = Inr (vs, be, bi)"
    and better: "\<And>old. order_solutions s oid who = Some old \<Longrightarrow> be < js_best_energy old"
    and ch: "choose_solutions c (params o1) vs bi = Some (Inr (sel, d))"
    and acc: "accept_solution who oid info o1 payee be sel d s = Inr s'"
    by (rule submit_solution_inner_Inr [OF assms(3)]) blast
  note K = ck [unfolded check_submission_Inr]
  obtain ts where t: "outcome_result (transform_solutions (mc_vm c (mp_env s)) (transform_program spec) sols) = Inr ts"
    "vs = filter (within_bound (params o1)) ts" "\<forall>t \<in> set ts. solves (params o1) t" "bi < length vs"
    "be = order_energy (params o1) (vs ! bi)" "be = Min (order_energy (params o1) ` set ts)"
    by (rule score_submission_Inr [OF sc])
  have "length (ip_nodes (params o1)) \<le> u32_max"
    using mempool_reachable_inv [OF assms(1,2)] K assms(1) by (fastforce simp: mempool_inv_def orders_ok_def order_ok_def mempool_cfg_ok_def)
  note C = choose_solutions_Inr [OF ch _ this t(4)]
  have v: "\<forall>v \<in> set vs. solves (params o1) v" using t(2,3) by simp
  have payee: "\<exists>addr. payee = Some (PayeeV1 chain addr)" if "order_payee_requirements s oid = Some chain" for chain
  proof -
    have "check_payee (Some chain) payee = Inr ()" using K that by simp
    then obtain p where "payee = Some p" "payee_chain_id p = chain" by (auto simp: check_payee_def)
    then show ?thesis by (cases p) auto
  qed
  let ?js = "new_solution who info sel be d s"
  have js: "order_solutions s' oid who = Some ?js" "order_payees s' oid who = payee" using accept_solution_Inr(2,11) [OF acc] by simp_all
  show ?thesis
    by (rule exI [of _ info], rule exI [of _ o1], rule exI [of _ spec], rule exI [of _ ts], rule exI [of _ ?js])
      (use K payee t js C [OF v] better in auto)
qed

text \<open>
  C6: in every reachable state, the ranking of each order (the front runner, or the top solvers) is exactly the
  ranking of the accepted solutions: at most as many entries as the order rewards, sorted by energy, each
  solver once with its own best energy, all solvers while there is room, and nobody left out has a lower
  energy than one who is in. It is empty only while nothing was accepted.
\<close>

theorem ranking_holds_best:
  assumes "mempool_cfg_ok c" "mempool_reachable c s" "job_orders s oid = Some o1"
  shows "ranking_of (winner_limit (resolution o1)) (best_energies oid s) (order_ranking oid o1 s) \<and>
    (order_ranking oid o1 s = [] \<longleftrightarrow> solution_count o1 = 0)"
proof -
  have ok: "order_ok c s oid o1" using mempool_reachable_inv [OF assms(1,2)] assms(3) by (simp add: mempool_inv_def orders_ok_def)
  have d: "dom (best_energies oid s) = dom (order_solutions s oid)" by (auto simp: best_energies_def)
  have "0 < winner_limit (resolution o1)" using ok valid_resolution_limit by (auto simp: order_ok_def)
  then have "length (order_ranking oid o1 s) = 0 \<longleftrightarrow> solution_count o1 = 0"
    using ok d by (auto simp: order_ok_def ranking_of_def u32_max_def)
  then show ?thesis using ok by (simp add: order_ok_def)
qed

text \<open>
  C7: the life of an order. No step removes an order or changes its terms. An open order stays open or, in a block at
  or after its effective expiry, becomes expired; an expired order stays as it is or is closed; a closed
  order never changes. So an order that is no longer open has always reached its expiry.
\<close>

theorem order_lifecycle:
  assumes "mempool_cfg_ok c" "mempool_reachable c s" "mempool_step c s t" "job_orders s oid = Some o1"
  shows "\<exists>o2. job_orders t oid = Some o2 \<and> order_moves (mp_block t) o1 o2 \<and> (status o2 \<noteq> Opened \<longrightarrow> order_expiry o2 \<le> mp_block t)"
proof -
  have inv: "mempool_inv c s" by (rule mempool_reachable_inv [OF assms(1,2)])
  obtain o2 where o2: "job_orders t oid = Some o2" "order_moves (mp_block t) o1 o2" using step_moves [OF assms(1) inv assms(3,4)] by blast
  moreover have "order_ok c t oid o2" using mempool_step_inv [OF assms(1) inv assms(3)] o2(1) by (simp add: mempool_inv_def orders_ok_def)
  ultimately show ?thesis by (auto simp: order_ok_def)
qed

text \<open>
  C17: the indexes are exact in every reachable state: \<open>OpenOrders\<close> holds the open orders; each of them is in one
  expiry bucket, that of its expiry while this lies ahead; no bucket behind the cursor has entries; a proposer's
  slots are its unsettled orders, each once and within the limit, and the key is gone when there are none. Every
  call and block of the pallet changes the reserved balance of an account by exactly as much as the rewards of
  its unsettled orders; so unless another pallet has taken from the reserves, they cover these rewards.
\<close>

theorem mempool_indexes_exact:
  assumes "mempool_cfg_ok c" "mempool_reachable c s"
  shows "open_orders s = {oid. opened s oid} \<and>
    (\<forall>oid o1. job_orders s oid = Some o1 \<and> status o1 = Opened \<longrightarrow>
       (\<exists>!b. oid \<in> orders_expiring_at s b) \<and> (mp_block s < order_expiry o1 \<longrightarrow> oid \<in> orders_expiring_at s (order_expiry o1))) \<and>
    (\<forall>b < next_expiry_bucket s. orders_expiring_at s b = {}) \<and>
    (\<forall>x. distinct (slots_of x s) \<and> set (slots_of x s) = unsettled s x \<and> length (slots_of x s) \<le> mc_max_orders_per_proposer c \<and>
       proposer_orders s x \<noteq> Some []) \<and>
    (\<forall>t x. mempool_own_step c s t \<longrightarrow>
       reserved_balance (mc_currency c) (mp_env t) x + escrow s x = reserved_balance (mc_currency c) (mp_env s) x + escrow t x) \<and>
    (mempool_backed c s \<longrightarrow> (\<forall>x. escrow s x \<le> reserved_balance (mc_currency c) (mp_env s) x))"
proof -
  have inv: "index_ok s" "cursor_ok (next_expiry_bucket s) s" "slots_ok c s"
    using mempool_reachable_inv [OF assms] by (simp_all add: mempool_inv_def)
  have "\<forall>t x. mempool_own_step c s t \<longrightarrow>
       reserved_balance (mc_currency c) (mp_env t) x + escrow s x = reserved_balance (mc_currency c) (mp_env s) x + escrow t x"
    using mempool_own_step_escrow [OF assms(1) mempool_reachable_inv [OF assms]] by (simp add: escrow_moves_def)
  moreover have "mempool_backed c s \<longrightarrow> (\<forall>x. escrow s x \<le> reserved_balance (mc_currency c) (mp_env s) x)"
    using mempool_backed_escrow [OF assms(1)] by (simp add: escrow_ok_def)
  moreover
  have "(\<exists>!b. oid \<in> orders_expiring_at s b) \<and> (mp_block s < order_expiry o1 \<longrightarrow> oid \<in> orders_expiring_at s (order_expiry o1))"
    if "job_orders s oid = Some o1" "status o1 = Opened" for oid o1
    using live_bucket [OF inv(1) that] inv(1) that unfolding index_ok_def opened_def by blast
  ultimately show ?thesis using inv by (auto simp: index_ok_def cursor_ok_def slots_ok_def)
qed

text \<open>
  C8: a successful claim pays out exactly the reward: the proposer's reserve falls by it and every other account
  receives its share of a fair split among the ranked solvers; the order is closed, and no later claim or
  reclaim of it, by anybody after any further steps, succeeds.
\<close>

theorem claim_pays_once:
  assumes "mempool_cfg_ok c" "mempool_reachable c s" "claim_reward c og oid s = Some (Inr s')" "(mempool_step c)\<^sup>*\<^sup>* s' t"
  shows "\<exists>o1 ps. job_orders s oid = Some o1 \<and> status o1 = Expired \<and> fair_split (order_ranking oid o1 s) (reward o1) ps \<and>
    (\<forall>x. x \<noteq> proposer o1 \<longrightarrow>
       free_balance (mc_currency c) (mp_env s') x = free_balance (mc_currency c) (mp_env s) x + paid_to x ps) \<and>
    reserved_balance (mc_currency c) (mp_env s') (proposer o1) + reward o1 = reserved_balance (mc_currency c) (mp_env s) (proposer o1) \<and>
    job_orders t oid = Some (o1\<lparr>status := Closed\<rparr>) \<and>
    (\<forall>og' t'. claim_reward c og' oid t \<noteq> Some (Inr t') \<and> reclaim_order c og' oid t \<noteq> Inr t')"
proof -
  have inv: "mempool_inv c s" by (rule mempool_reachable_inv [OF assms(1,2)])
  obtain o1 ps e s1 sp where o1: "job_orders s oid = Some o1" "status o1 = Expired" and ps: "compute_payouts oid o1 s = Inr ps"
    and e: "unreserve (mc_currency c) (proposer o1) (reward o1) (mp_env s) = (0, e)"
    and s1: "pay_winners c oid (proposer o1) ps (s\<lparr>mp_env := e\<rparr>) = Inr s1"
    and s': "s' = emit_mp (OrderClosed oid True) ((close_order oid o1 s1)\<lparr>job_specs := sp\<rparr>)"
    by (rule claim_reward_Inr [OF assms(3)])
  have laws: "reserve_laws (mc_currency c)" "transfer_laws (mc_currency c)" using assms(1) by (simp_all add: mempool_cfg_ok_def)
  have env: "mp_env s' = mp_env s1" and jo: "job_orders s' oid = Some (o1\<lparr>status := Closed\<rparr>)" by (simp_all add: s' mp_fields)
  have "fair_split (order_ranking oid o1 s) (reward o1) ps"
  proof (rule compute_payouts_fair [OF _ ps])
    show "order_ok c s oid o1" using inv o1(1) by (simp add: mempool_inv_def orders_ok_def)
  qed
  moreover have "free_balance (mc_currency c) (mp_env s') x = free_balance (mc_currency c) (mp_env s) x + paid_to x ps" if "x \<noteq> proposer o1" for x
    using pay_winners_free [OF laws(2) s1 that] unreserve_all(3) [OF laws(1) e, of x] that env by simp
  moreover have "reserved_balance (mc_currency c) (mp_env s') (proposer o1) + reward o1 = reserved_balance (mc_currency c) (mp_env s) (proposer o1)"
    using pay_winners_reserved [OF laws(2) s1, of "proposer o1"] unreserve_all(1,2) [OF laws(1) e] env by simp
  moreover have "job_orders t oid = Some (o1\<lparr>status := Closed\<rparr>)"
    using run_closed [OF assms(1) claim_inv(1) [OF assms(1) inv assms(3)] assms(4) jo] by simp
  ultimately show ?thesis using o1 closed_no_settlement by (intro exI [of _ o1] exI [of _ ps]) fastforce
qed

text \<open>
  C18: how an expired order is settled, whatever other pallets have done to the balances. If the proposer's reserve
  covers the reward, the proposer's reclaim of an order without solutions succeeds, frees the whole reward, closes
  the order and gives up its slot; and anybody's claim of an order with solutions succeeds, unless the transfer
  of one of the shares of the fair split is refused, whose error it then returns. If the reserve has been
  taken, both fail with \<open>RewardReserveMissing\<close> and nothing changes. While no other pallet takes from the
  reserves, they do cover the reward.
\<close>

theorem expired_orders_settle:
  assumes "mempool_cfg_ok c" "mempool_reachable c s" "job_orders s oid = Some o1" "status o1 = Expired"
  shows "(mempool_backed c s \<longrightarrow> reward o1 \<le> reserved_balance (mc_currency c) (mp_env s) (proposer o1)) \<and>
    (reward o1 \<le> reserved_balance (mc_currency c) (mp_env s) (proposer o1) \<longrightarrow>
      (solution_count o1 = 0 \<longrightarrow> (\<exists>s'. reclaim_order c (Signed (proposer o1)) oid s = Inr s' \<and>
         free_balance (mc_currency c) (mp_env s') (proposer o1) = free_balance (mc_currency c) (mp_env s) (proposer o1) + reward o1 \<and>
         job_orders s' oid = Some (o1\<lparr>status := Closed\<rparr>) \<and> oid \<notin> set (slots_of (proposer o1) s'))) \<and>
      (0 < solution_count o1 \<longrightarrow> (\<exists>ps e. fair_split (order_ranking oid o1 s) (reward o1) ps \<and>
         unreserve (mc_currency c) (proposer o1) (reward o1) (mp_env s) = (0, e) \<and>
         ((\<exists>s'. claim_reward c (Signed who) oid s = Some (Inr s')) \<or>
          (\<exists>n. claim_reward c (Signed who) oid s = Some (Inl (Other n)) \<and> share_refused c oid (proposer o1) ps (s\<lparr>mp_env := e\<rparr>) n))))) \<and>
    (reserved_balance (mc_currency c) (mp_env s) (proposer o1) < reward o1 \<longrightarrow>
      (solution_count o1 = 0 \<longrightarrow> reclaim_order c (Signed (proposer o1)) oid s = Inl (Module RewardReserveMissing)) \<and>
      (0 < solution_count o1 \<longrightarrow> claim_reward c (Signed who) oid s = Some (Inl (Module RewardReserveMissing))))"
proof (intro conjI impI)
  have inv: "mempool_inv c s" by (rule mempool_reachable_inv [OF assms(1,2)])
  have ok: "orders_ok c s" "order_ok c s oid o1" using inv assms(3) by (auto simp: mempool_inv_def orders_ok_def)
  have laws: "reserve_laws (mc_currency c)" using assms(1) by (simp add: mempool_cfg_ok_def)
  let ?R = "reserved_balance (mc_currency c) (mp_env s) (proposer o1)"
  show "reward o1 \<le> ?R" if "mempool_backed c s"
    using unsettled_reward_le [OF ok(1) assms(3)] assms(4) mempool_backed_escrow [OF assms(1) that]
    by (auto simp: escrow_ok_def intro: le_trans)
  show "\<exists>s'. reclaim_order c (Signed (proposer o1)) oid s = Inr s' \<and>
      free_balance (mc_currency c) (mp_env s') (proposer o1) = free_balance (mc_currency c) (mp_env s) (proposer o1) + reward o1 \<and>
      job_orders s' oid = Some (o1\<lparr>status := Closed\<rparr>) \<and> oid \<notin> set (slots_of (proposer o1) s')"
    if cov: "reward o1 \<le> ?R" and cnt: "solution_count o1 = 0"
  proof -
    obtain e where e: "unreserve (mc_currency c) (proposer o1) (reward o1) (mp_env s) = (0, e)" using unreserve_covered [OF laws cov] by blast
    moreover have "oid \<notin> set (slots_of (proposer o1) (emit_mp ev1 (emit_mp ev2 (close_order oid o1 (s\<lparr>mp_env := e\<rparr>)))))" for ev1 ev2
      using slots_of_cong [of "emit_mp ev1 (emit_mp ev2 (close_order oid o1 (s\<lparr>mp_env := e\<rparr>)))" "close_order oid o1 (s\<lparr>mp_env := e\<rparr>)" "proposer o1"]
      by (simp add: mp_fields)
    ultimately show ?thesis using cnt assms(3,4) unreserve_all(3) [OF laws e, of "proposer o1"] by (simp add: reclaim_order_def mp_fields)
  qed
  have claim: "\<exists>ps. fair_split (order_ranking oid o1 s) (reward o1) ps \<and> length ps \<le> MAX_REWARD_WINNERS \<and> compute_payouts oid o1 s = Inr ps"
    if "0 < solution_count o1"
    using compute_payouts_available [OF ok(2) that] compute_payouts_fair [OF ok(2)] compute_payouts_length [OF ok(2)] by blast
  obtain sp where sp: "job_specs s (spec_id o1) = Some sp" using ok(2) by (auto simp: order_ok_def)
  show "\<exists>ps e. fair_split (order_ranking oid o1 s) (reward o1) ps \<and> unreserve (mc_currency c) (proposer o1) (reward o1) (mp_env s) = (0, e) \<and>
      ((\<exists>s'. claim_reward c (Signed who) oid s = Some (Inr s')) \<or>
       (\<exists>n. claim_reward c (Signed who) oid s = Some (Inl (Other n)) \<and> share_refused c oid (proposer o1) ps (s\<lparr>mp_env := e\<rparr>) n))"
    if cov: "reward o1 \<le> ?R" and cnt: "0 < solution_count o1"
  proof -
    obtain e where e: "unreserve (mc_currency c) (proposer o1) (reward o1) (mp_env s) = (0, e)" using unreserve_covered [OF laws cov] by blast
    obtain ps where ps: "fair_split (order_ranking oid o1 s) (reward o1) ps" "length ps \<le> MAX_REWARD_WINNERS" "compute_payouts oid o1 s = Inr ps"
      using claim [OF cnt] by blast
    have "(\<exists>s'. claim_reward c (Signed who) oid s = Some (Inr s')) \<or>
       (\<exists>n. claim_reward c (Signed who) oid s = Some (Inl (Other n)) \<and> share_refused c oid (proposer o1) ps (s\<lparr>mp_env := e\<rparr>) n)"
      using assms(3,4) ps e cnt sp pay_winners_result [of c oid "proposer o1" ps "s\<lparr>mp_env := e\<rparr>"]
      by (auto simp: claim_reward_def ensure_p_def winner_summaries_from_payouts_def validate_result_def Let_def)
    then show ?thesis using ps(1) e by blast
  qed
  show "reclaim_order c (Signed (proposer o1)) oid s = Inl (Module RewardReserveMissing)" if "?R < reward o1" "solution_count o1 = 0"
    using assms(3,4) that(2) by (auto intro: unreserve_short [OF laws that(1)] simp: reclaim_order_def ensure_def)
  show "claim_reward c (Signed who) oid s = Some (Inl (Module RewardReserveMissing))" if short: "?R < reward o1" and cnt: "0 < solution_count o1"
  proof -
    obtain rest e where e: "unreserve (mc_currency c) (proposer o1) (reward o1) (mp_env s) = (rest, e)" "0 < rest"
      by (rule unreserve_short [OF laws short])
    obtain ps where ps: "length ps \<le> MAX_REWARD_WINNERS" "compute_payouts oid o1 s = Inr ps" using claim [OF cnt] by blast
    then show ?thesis using assms(3,4) e cnt sp
      by (simp add: claim_reward_def ensure_p_def winner_summaries_from_payouts_def validate_result_def)
  qed
qed

text \<open>
  C9: overdue orders are always expired. Every order still open when a block starts whose number has reached its effective
  expiry is no longer open once as many blocks have been executed as are needed, at eight orders or empty
  buckets each, for the orders and buckets that were due by then; whatever calls are made meanwhile.
\<close>

theorem overdue_orders_expire:
  assumes "mempool_cfg_ok c" "mempool_reachable c s" "job_orders s oid = Some o1"
    and "next_block c s = Some s1" "Suc (mp_block s) < u32_max" "(mempool_step c)\<^sup>*\<^sup>* s1 t"
    and "order_expiry o1 \<le> mp_block s1"
    and "backlog (mp_block s1) (next_expiry_bucket s) s \<le> MAX_FINALISED_ORDERS_PER_BLOCK * (mp_block t - mp_block s)"
  shows "\<exists>o2. job_orders t oid = Some o2 \<and> status o2 \<noteq> Opened"
proof -
  have inv: "mempool_inv c s" by (rule mempool_reachable_inv [OF assms(1,2)])
  let ?N = "Suc (mp_block s)"
  obtain S where b: "mempool_inv c s1" "expired_from S (s\<lparr>mp_block := ?N\<rparr>) s1" "\<And>b. orders_expiring_at s1 b = orders_expiring_at s b - S"
    "?N < next_expiry_bucket s1 \<or> backlog ?N (next_expiry_bucket s1) s1 + MAX_FINALISED_ORDERS_PER_BLOCK \<le> backlog ?N (next_expiry_bucket s) s"
    using next_block_ok [OF assms(1) inv assms(5) order_refl] assms(4) by (metis option.inject)
  have N: "mp_block s1 = ?N" using b(2) by (simp add: expired_from_def)
  note R = run_progress [OF assms(1) b(1) assms(6), of ?N oid, unfolded N, simplified]
  have it: "mempool_inv c t" by (rule run_inv [OF assms(1) b(1) assms(6)])
  have len: "mp_block t - mp_block s = Suc (mp_block t - ?N)" using R by linarith
  have cur: "?N < next_expiry_bucket t \<or> backlog ?N (next_expiry_bucket t) t = 0"
  proof (cases "?N < next_expiry_bucket s1")
    case True
    have "next_expiry_bucket s1 \<le> next_expiry_bucket t" by (rule run_cursor [OF assms(1) b(1) assms(6)])
    then show ?thesis using True by simp
  next
    case False
    then show ?thesis using R b(4) assms(8) N len by auto
  qed
  have empty: "overdue ?N t = {}"
  proof -
    have c: "\<forall>b < next_expiry_bucket t. orders_expiring_at t b = {}" using it by (simp add: mempool_inv_def cursor_ok_def)
    have "?N < next_expiry_bucket t" using cur by (auto simp: backlog_def)
    then show ?thesis using c by (auto simp: overdue_def)
  qed
  have "job_orders s1 oid \<noteq> None" using b(2) assms(3) by (auto simp: expired_from_def)
  then obtain o2 where o2: "job_orders t oid = Some o2" using R by auto
  have "status o2 \<noteq> Opened"
  proof
    assume "status o2 = Opened"
    then have op: "opened t oid" using o2 by (simp add: opened_def)
    then have op1: "opened s1 oid" using run_opened [OF assms(1) b(1) assms(6)] \<open>job_orders s1 oid \<noteq> None\<close> by blast
    then have "status o1 = Opened" "oid \<notin> S" using b(2) assms(3) by (auto simp: opened_def expired_from_def split: if_splits)
    then obtain b0 where "oid \<in> orders_expiring_at s b0" using inv assms(3) unfolding mempool_inv_def index_ok_def opened_def by blast
    moreover from this obtain o' where "job_orders s oid = Some o'" "b0 \<le> max (order_expiry o') ?N"
      using inv index_entry by (metis mempool_inv_def)
    ultimately have "oid \<in> overdue ?N s1" using assms(3,7) N b(3) \<open>oid \<notin> S\<close> by (auto simp: overdue_def)
    then show False using R op empty by blast
  qed
  then show ?thesis using o2 by blast
qed

text \<open>
  C19: no call, whatever its origin and arguments, and no block hook panics in a reachable state: every index and every
  bounded-vector conversion of the submission, settlement and expiry code succeeds.
\<close>

theorem mempool_never_panics:
  assumes "mempool_cfg_ok c" "mempool_reachable c s"
  shows "mempool_dispatch c og call s \<noteq> None \<and> (Suc (mp_block s) < u32_max \<longrightarrow> next_block c s \<noteq> None)"
  using dispatch_no_panic [OF assms(1) mempool_reachable_inv [OF assms]] next_block_ok [OF assms(1) mempool_reachable_inv [OF assms] _ le0]
  by (metis option.distinct(1))

end
