(* ===== verification/Mempool_Migration.thy ===== *)
theory Mempool_Migration
  imports Mempool_Inv
begin

text \<open>
  The storage migration of the mempool: the wipe from before version 2, and the expiry index that version 3 builds
  over the orders already open.
\<close>

lemma index_open_order_fields [mp_fields]:
  "same_ranking s (index_open_order oid s)" "same_orders s (index_open_order oid s)"
  "next_expiry_bucket (index_open_order oid s) = next_expiry_bucket s" "job_specs (index_open_order oid s) = job_specs s"
  "mp_env (index_open_order oid s) = mp_env s" "solvers (index_open_order oid s) = solvers s"
  "order_payees (index_open_order oid s) = order_payees s"
  by (simp_all add: index_open_order_def mp_fields split: option.splits)

lemma index_fold_fields:
  "same_ranking s (fold index_open_order ids s)" "same_orders s (fold index_open_order ids s)"
  "job_specs (fold index_open_order ids s) = job_specs s" "mp_env (fold index_open_order ids s) = mp_env s"
  by (induction ids arbitrary: s) (simp_all add: mp_fields)

definition due_at :: "('a, 'b) mempool_state \<Rightarrow> u64 \<Rightarrow> block \<Rightarrow> bool" where
  "due_at s oid b \<longleftrightarrow> (\<exists>o1. job_orders s oid = Some o1 \<and> status o1 = Opened \<and> b = expiry_bucket s (order_expiry o1))"

lemma index_open_order_bucket:
  "orders_expiring_at (index_open_order oid s) b = orders_expiring_at s b \<union> (if due_at s oid b then {oid} else {})"
  by (cases "job_orders s oid") (simp_all add: index_open_order_def due_at_def mp_fields)

lemma index_fold_buckets:
  "orders_expiring_at (fold index_open_order ids s) b = orders_expiring_at s b \<union> {oid \<in> set ids. due_at s oid b}"
proof (induction ids arbitrary: s)
  case (Cons oid ids)
  have "due_at (index_open_order oid s) i b = due_at s i b" for i by (simp add: due_at_def expiry_bucket_def mp_fields)
  then have "orders_expiring_at (fold index_open_order (oid # ids) s) b =
      orders_expiring_at s b \<union> (if due_at s oid b then {oid} else {}) \<union> {i \<in> set ids. due_at s i b}"
    by (simp add: Cons.IH index_open_order_bucket)
  then show ?case by auto
qed simp

text \<open>
  the upgrade leaves a pallet at the current version alone. From version 2, whose orders have no expiry index, it
  changes no order, no ranking and no balance; afterwards every open order is in exactly one bucket, at its expiry
  or, if it is overdue, in the block being initialised, and the cursor stands before all of them. From before
  version 2 it leaves exactly the canonical default specification, on an otherwise empty pallet.
\<close>

theorem mempool_upgrade_indexes:
  assumes iter: "\<And>S. finite S \<Longrightarrow> set (mc_iter c S) = S" and now: "mp_block s < u32_max"
    and v2: "mp_version s = 2 \<Longrightarrow> finite (open_orders s) \<and> open_orders s = {oid. opened s oid} \<and> (\<forall>b. orders_expiring_at s b = {})"
  defines "s' \<equiv> mempool_on_runtime_upgrade c s"
  shows "(mp_version s \<ge> 4 \<longrightarrow> s' = s) \<and>
    (mp_version s = 2 \<longrightarrow> index_ok s' \<and> cursor_ok (next_expiry_bucket s') s' \<and> same_orders s s' \<and> same_ranking s s' \<and>
       job_specs s' = job_specs s \<and> mp_env s' = mp_env s \<and> mp_version s' = 4) \<and>
    (mp_version s < 2 \<longrightarrow> dom (job_specs s') = {default_ising_spec_id c} \<and>
       job_orders s' = Map.empty \<and> solvers s' = Map.empty \<and> next_order_id s' = 0 \<and> mp_env s' = mp_env s \<and> mp_version s' = 4)"
proof -
  have cur: "s' = s" if "mp_version s \<ge> 4" using that by (simp add: s'_def mempool_on_runtime_upgrade_def MEMPOOL_STORAGE_VERSION_def)
  have two: "index_ok s' \<and> cursor_ok (next_expiry_bucket s') s' \<and> same_orders s s' \<and> same_ranking s s' \<and>
       job_specs s' = job_specs s \<and> mp_env s' = mp_env s \<and> mp_version s' = 4" if v: "mp_version s = 2"
  proof -
  let ?f = "fold index_open_order (mc_iter c (open_orders s)) s" and ?n = "Suc (mp_block s)"
  have s': "s' = ?f\<lparr>next_expiry_bucket := ?n, mp_version := 4\<rparr>"
    using v now by (simp add: s'_def mempool_on_runtime_upgrade_def MEMPOOL_STORAGE_VERSION_def index_open_orders_for_expiry_def sat_add_def)
  have eb: "expiry_bucket s e = max e ?n" for e using now by (simp add: expiry_bucket_def sat_add_def)
  have ix: "orders_expiring_at s' b = {oid. \<exists>o1. job_orders s oid = Some o1 \<and> status o1 = Opened \<and> b = max (order_expiry o1) ?n}" for b
    using v2 [OF v] iter [of "open_orders s"] by (auto simp: s' index_fold_buckets due_at_def eb opened_def)
  have same: "same_orders s s'" "same_ranking s s'" "job_specs s' = job_specs s" "mp_env s' = mp_env s" "mp_version s' = 4"
    using index_fold_fields [where ids = "mc_iter c (open_orders s)" and s = s] by (simp_all add: s')
  have op: "opened s' = opened s" using same(1) by (simp add: opened_def fun_eq_iff)
  have "index_ok s'" unfolding index_ok_def
  proof (intro conjI allI impI)
    show "open_orders s' = {oid. opened s' oid}" using same(1) v2 [OF v] op by simp
    show "\<exists>!b. oid \<in> orders_expiring_at s' b" if "opened s' oid" for oid using that unfolding op by (auto simp: opened_def ix)
  qed (use same(1) ix in auto)
  moreover have "cursor_ok (next_expiry_bucket s') s'" using same(1) ix by (auto simp: cursor_ok_def s')
  ultimately show ?thesis using same by blast
  qed
  have wiped: "dom (job_specs s') = {default_ising_spec_id c} \<and> job_orders s' = Map.empty \<and> solvers s' = Map.empty \<and>
       next_order_id s' = 0 \<and> mp_env s' = mp_env s \<and> mp_version s' = 4" if v: "mp_version s < 2"
  proof -
  let ?w = "empty_mempool 0 (mp_events s) (mp_block s) (mp_env s)"
  obtain s1 where s1: "insert_default_ising_spec c (mc_default_builder c) False ?w = Inr s1"
    by (simp add: insert_default_ising_spec_def insert_job_spec_def Let_def validate_programs_def empty_mempool_def)
  then have f: "dom (job_specs s1) = {default_ising_spec_id c}" "job_orders s1 = Map.empty" "solvers s1 = Map.empty"
    "next_order_id s1 = 0" "mp_env s1 = mp_env s" "open_orders s1 = {}"
    by (auto simp: insert_default_ising_spec_def insert_job_spec_def Let_def empty_mempool_def default_ising_spec_id_def split: if_splits)
  have "s' = (index_open_orders_for_expiry c s1)\<lparr>mp_version := 4\<rparr>"
    using v s1 by (simp add: s'_def mempool_on_runtime_upgrade_def MEMPOOL_STORAGE_VERSION_def)
  moreover have "mc_iter c {} = []" using iter [of "{}"] by simp
  ultimately have "s' = s1\<lparr>next_expiry_bucket := sat_add u32_max (mp_block s1) 1, mp_version := 4\<rparr>"
    using f(6) by (simp add: index_open_orders_for_expiry_def)
  then show ?thesis using f by simp
  qed
  show ?thesis using cur two wiped by blast
qed

end
