(* ===== verification/Mempool_Examples.thy ===== *)
theory Mempool_Examples
  imports Mempool_Theorems Mempool_Migration
begin

text \<open>
  A concrete run of the mempool: one proposer, one solver, an order that is solved, expires in the next block and is
  claimed. The witnesses of the mempool's properties apply them along it.
\<close>

definition demo_mempool :: "(nat, nat ledger, nat) mempool_config" where
  "demo_mempool =
     \<lparr>mc_currency = ledger_ops, mc_max_nodes = 4, mc_max_edges = 4, mc_max_solutions = 4, mc_max_bid_miners = 2,
      mc_max_orders_per_proposer = 2, mc_max_deadline_blocks = 100, mc_max_block_wait = 50, mc_min_reward = 10,
      mc_result_ttl_blocks = 5, mc_default_builder = 7, mc_vm = \<lambda>_. demo_vm,
      mc_hash_of = \<lambda>(n, f, v, t). (case t of None \<Rightarrow> [] | Some h \<Rightarrow> h), mc_iter = sorted_list_of_set\<rparr>"

lemma demo_mempool_ok: "mempool_cfg_ok demo_mempool"
  using ledger_reserve_laws ledger_transfer_laws demo_vm_laws
  by (simp add: mempool_cfg_ok_def demo_mempool_def u32_max_def)

definition demo_params :: ising_params where
  "demo_params = \<lparr>ip_nodes = [7, 9], ip_edges = [(7, 9)], h_values = [0, 0], j_values = [-1000], ip_max_energy = Some 0,
     ip_min_diversity = None, ip_min_solutions = Some 1\<rparr>"

definition demo_job_spec :: "nat job_spec" where
  "demo_job_spec = \<lparr>builder = 7, spec_name = DEFAULT_ISING_SPEC_NAME, spec_formulation = IsingFormulation, validation_program = None,
     transform_program = None, spec_registered_at = 0, total_orders = 0, successful_orders = 0\<rparr>"

definition demo_mp_ledger :: "balance \<Rightarrow> balance \<Rightarrow> balance \<Rightarrow> nat ledger" where
  "demo_mp_ledger free1 reserved1 free2 = \<lparr>free_of = (\<lambda>_. 5)(1 := free1, 2 := free2), reserved_of = (\<lambda>_. 0)(1 := reserved1), issued = 2000\<rparr>"

definition m0 :: "(nat, nat ledger) mempool_state" where
  "m0 = (empty_mempool 4 [] 0 (demo_mp_ledger 1000 0 5))\<lparr>job_specs := [[] \<mapsto> demo_job_spec]\<rparr>"

definition demo_solver :: "u64 \<Rightarrow> balance \<Rightarrow> nat solver_info" where
  "demo_solver n r = \<lparr>si_account = 2, solver_type = Gpu, si_registered_at = 0, solutions_submitted = n, si_rewards_earned = r\<rparr>"

definition m1 where "m1 = m0\<lparr>solvers := [2 \<mapsto> demo_solver 0 0], mp_events := [SolverRegistered 2 Gpu]\<rparr>"

definition demo_timing :: order_timing where
  "demo_timing = \<lparr>deadline_blocks = 5, block_wait = 0\<rparr>"

definition demo_order :: "order_status \<Rightarrow> block option \<Rightarrow> u32 \<Rightarrow> nat job_order" where
  "demo_order st f n = \<lparr>spec_id = [], proposer = 1, params = demo_params, reward = 100, job_mode = Open, resolution = TopNEqual 3,
     timing = demo_timing, delivery = Callback [1], status = st, created_at = 0, first_solution_at = f, solution_count = n\<rparr>"

definition propose_call :: "nat mempool_call" where
  "propose_call = ProposeJob [] demo_params 100 Open (TopNEqual 3) demo_timing (Callback [1])"

definition m2 where
  "m2 = m1\<lparr>job_specs := [[] \<mapsto> demo_job_spec\<lparr>total_orders := 1\<rparr>], job_orders := [0 \<mapsto> demo_order Opened None 0], next_order_id := 1,
     open_orders := {0}, orders_expiring_at := (\<lambda>_. {})(5 := {0}), proposer_orders := [1 \<mapsto> [0]], mp_env := demo_mp_ledger 900 100 5,
     mp_events := [SolverRegistered 2 Gpu, JobProposed 0 [] 1 100 5 0]\<rparr>"

abbreviation (input) "submit_call \<equiv> SubmitSolution 0 [[1, -1], [1, 1]]"

definition demo_solution :: "nat job_solution" where
  "demo_solution = \<lparr>js_solver = 2, js_solver_type = Gpu, js_solutions = [[1, 1]], js_best_energy = -1000, js_diversity = 0,
     js_num_valid = 1, js_submitted_at = 0\<rparr>"

definition m3 where
  "m3 = m2\<lparr>job_orders := [0 \<mapsto> demo_order Opened (Some 0) 1], orders_expiring_at := (\<lambda>_. {})(1 := {0}),
     order_solutions := (\<lambda>_. Map.empty)(0 := [2 \<mapsto> demo_solution]), order_top_solvers := (\<lambda>_. [])(0 := [\<lparr>solver = 2, rank_energy = -1000\<rparr>]),
     solvers := [2 \<mapsto> demo_solver 1 0],
     mp_events := [SolverRegistered 2 Gpu, JobProposed 0 [] 1 100 5 0, FirstSolutionReceived 0 2 0, BlockWaitStarted 0 0 0,
       FrontRunnerChanged 0 2 (-1000), SolutionAccepted 0 2 (-1000) 0]\<rparr>"

lemmas demo_defs = m0_def m1_def m2_def m3_def empty_mempool_def demo_mempool_def demo_job_spec_def demo_order_def demo_timing_def
  demo_params_def demo_solver_def demo_solution_def emit_mp_def sat_add_def u32_max_def u64_max_def

lemma m0_backed: "mempool_backed demo_mempool m0"
proof (rule mempool_backed.genesis [of _ "Some 7" "demo_mp_ledger 1000 0 5"])
  show "mempool_build demo_mempool (Some 7) (demo_mp_ledger 1000 0 5) = Some m0"
    by (simp add: mempool_build_def insert_default_ising_spec_def insert_job_spec_def job_spec_id_def validate_programs_def
        MEMPOOL_STORAGE_VERSION_def demo_defs)
qed

lemma m1_step: "mempool_dispatch demo_mempool (Signed 2) (RegisterSolver Gpu) m0 = Some (Inr m1)"
  by (simp add: register_solver_def demo_defs)

lemma m2_step: "mempool_dispatch demo_mempool (Signed 1) propose_call m1 = Some (Inr m2)"
proof -
  have "check_proposal demo_mempool [] demo_params 100 Open (TopNEqual 3) demo_timing (Callback [1]) m1 = Inr ()"
    by (simp add: check_proposal_def validate_topology_consistency_Nil_iff in_allowed_def edges_known_def valid_winner_count_def
        MAX_REWARD_WINNERS_def demo_defs)
  then show ?thesis
    by (simp add: propose_call_def propose_job_def do_propose_job_def slots_of_def ledger_ops_def ledger_reserve_def demo_mp_ledger_def
        schedule_expiry_def expiry_bucket_def Let_def demo_defs fun_eq_iff)
qed

lemma m3_step: "mempool_dispatch demo_mempool (Signed 2) submit_call m2 = Some (Inr m3)"
proof -
  have check: "check_submission 2 0 [[1, -1], [1, 1]] None m2 = Inr (demo_solver 0 0, demo_order Opened None 0, demo_job_spec\<lparr>total_orders := 1\<rparr>)"
    by (simp add: check_submission_Inr check_payee_def order_expiry_def effective_expiry_def demo_defs)
  have ix: "topology_index_new [7, 9] [(7, 9)] = Inr \<lparr>positions = [(7, 0), (9, 1)]\<rparr>"
    by (simp add: topology_index_new_def)
  have en: "energy_of_solution_indexed [1, -1] [0, 0] [(7, 9)] [-1000] \<lparr>positions = [(7, 0), (9, 1)]\<rparr> = Inr 1000"
    "energy_of_solution_indexed [1, 1] [0, 0] [(7, 9)] [-1000] \<lparr>positions = [(7, 0), (9, 1)]\<rparr> = Inr (-1000)"
    by (simp_all add: energy_of_solution_indexed_def validate_shape_lengths_def index_len_def index_position_def ensure_valid_spins_def
        checked_add_i64_def in_i64_def i64_min_def i64_max_def)
  have score: "score_submission demo_mempool (demo_order Opened None 0) (demo_job_spec\<lparr>total_orders := 1\<rparr>) [[1, -1], [1, 1]] m2 =
      Inr ([[1, 1]], -1000, 0)"
    using ix en by (simp add: score_submission_def transform_solutions_def demo_order_def demo_params_def demo_job_spec_def demo_mempool_def i64_max_def)
  have choose: "choose_solutions demo_mempool demo_params [[1, 1]] 0 = Some (Inr ([[1, 1]], 0))"
    by (simp add: choose_solutions_def target_count_def demo_params_def demo_mempool_def select_from_best_def select_from_loop.simps
        calculate_diversity_def ensure_p_def)
  have prev: "order_solutions m2 0 2 = None" by (simp add: demo_defs)
  have p: "params (demo_order Opened None 0) = demo_params" by (simp add: demo_order_def)
  have "accept_solution 2 0 (demo_solver 0 0) (demo_order Opened None 0) None (-1000) [[1, 1]] 0 m2 = Inr m3"
    by (simp add: accept_solution_def start_block_wait_def effective_expiry_def remove_expiry_def schedule_expiry_def expiry_bucket_def
        update_ranking_def update_top_solvers_def update_ranked_solvers_def MAX_REWARD_WINNERS_def set_payee_def Let_def demo_defs fun_eq_iff)
  then show ?thesis using check score choose prev p by (simp add: submit_solution_def submit_solution_inner_def ensure_p_def)
qed

definition demo_winner :: "nat winner_summary" where
  "demo_winner = \<lparr>ws_solver = 2, ws_energy = -1000, ws_amount = 100\<rparr>"

definition m4 where
  "m4 = m3\<lparr>mp_block := 1, job_orders := [0 \<mapsto> demo_order Expired (Some 0) 1], open_orders := {}, orders_expiring_at := (\<lambda>_. {}),
     next_expiry_bucket := 2, mp_events := mp_events m3 @ [OrderExpired 0, ResultReady 0 [1] [demo_winner]]\<rparr>"

definition m5 where
  "m5 = m4\<lparr>job_specs := [[] \<mapsto> demo_job_spec\<lparr>total_orders := 1, successful_orders := 1\<rparr>], job_orders := [0 \<mapsto> demo_order Closed (Some 0) 1],
     proposer_orders := Map.empty, solvers := [2 \<mapsto> demo_solver 1 100], mp_env := demo_mp_ledger 900 0 105,
     mp_events := mp_events m4 @ [RewardClaimed 0 2 100, OrderClosed 0 True]\<rparr>"

lemma demo_payouts: "top_n_equal_payouts [\<lparr>solver = 2, rank_energy = -1000\<rparr>] 100 = [(2, 100, -1000)]"
  by (simp add: top_n_equal_payouts_def Let_def)

lemma m4_step: "next_block demo_mempool m3 = Some m4"
proof -
  let ?s = "m3\<lparr>mp_block := Suc 0\<rparr>" and ?s' = "m4\<lparr>next_expiry_bucket := 0\<rparr>"
  have b: "orders_expiring_at ?s 0 = {}" "orders_expiring_at ?s 1 = {0}" "mc_iter demo_mempool = sorted_list_of_set" "next_expiry_bucket m3 = 0"
    by (simp_all add: demo_defs)
  have f: "finalise_all 1 [0] ?s = Some ?s'"
    by (simp add: finalise_order_def compute_payouts_def demo_payouts winner_summaries_from_payouts_def MAX_REWARD_WINNERS_def
        persist_result_if_needed_def emit_result_ready_def remove_expiry_def m4_def demo_winner_def Let_def demo_defs fun_eq_iff)
  have sa: "sat_add u32_max 0 (Suc 0) = 1" "sat_add u32_max 1 (Suc 0) = 2" by (simp_all add: sat_add_def u32_max_def)
  have l1: "finalise_loop demo_mempool 1 8 (Suc k) 0 fin vis ?s =
      finalise_loop demo_mempool 1 8 k 1 (sat_add u32_max fin 0) (sat_add u64_max vis 1) ?s" for k fin vis
    using b(1,3) sa by simp
  have l2: "finalise_loop demo_mempool 1 8 (Suc k) 1 fin vis ?s =
      finalise_loop demo_mempool 1 7 k 2 (sat_add u32_max fin 1) (sat_add u64_max vis 1) ?s'" for k fin vis
    using b(2,3) f sa by (simp del: finalise_all.simps)
  have l3: "finalise_loop demo_mempool 1 7 (Suc k) 2 fin vis ?s' = Some (?s', 2, fin, vis)" for k fin vis by simp
  have e: "8 = Suc (Suc (Suc 5))" by simp
  have "\<exists>f v. finalise_loop demo_mempool 1 8 (Suc (Suc (Suc 5))) 0 0 0 ?s = Some (?s', 2, f, v)"
    unfolding l1 l2 l3 by blast
  then have "\<exists>f v. finalise_loop demo_mempool 1 8 8 0 0 0 ?s = Some (?s', 2, f, v)" unfolding e [symmetric] .
  then show ?thesis using b(4)
    by (auto simp: next_block_def mempool_on_initialize_def finalise_expired_orders_def MAX_FINALISED_ORDERS_PER_BLOCK_def m4_def demo_defs)
qed

lemma m5_step: "mempool_dispatch demo_mempool (Signed 9) (ClaimReward 0) m4 = Some (Inr m5)"
  by (simp add: claim_reward_def compute_payouts_def demo_payouts winner_summaries_from_payouts_def validate_result_def
      ledger_ops_def ledger_unreserve_def ledger_transfer_def credit_solver_def close_order_def release_proposer_slot_def
      MAX_REWARD_WINNERS_def demo_mp_ledger_def u128_max_def ensure_p_def m5_def m4_def Let_def demo_defs fun_eq_iff)

subsection \<open>The states of the run are reachable\<close>

lemma demo_bounds: "next_order_id m0 < u64_max" "mp_block m0 < u32_max" "next_order_id m1 < u64_max" "mp_block m1 < u32_max"
  "next_order_id m2 < u64_max" "mp_block m2 < u32_max" "Suc (mp_block m3) < u32_max"
  by (simp_all add: demo_defs)

lemma m1_backed: "mempool_backed demo_mempool m1"
  by (rule mempool_backed.own [OF m0_backed mempool_own_step.call [OF m1_step _ demo_bounds(1,2)]]) simp

lemma m2_backed: "mempool_backed demo_mempool m2"
  by (rule mempool_backed.own [OF m1_backed mempool_own_step.call [OF m2_step _ demo_bounds(3,4)]])
    (simp add: propose_call_def demo_params_def demo_mempool_def u128_max_def)

lemma m2_m3: "mempool_own_step demo_mempool m2 m3"
  by (rule mempool_own_step.call [OF m3_step _ demo_bounds(5,6)]) simp

lemma m3_m4: "mempool_own_step demo_mempool m3 m4"
  by (rule mempool_own_step.block [OF m4_step demo_bounds(7)])

lemmas m3_backed = mempool_backed.own [OF m2_backed m2_m3]
lemmas m4_backed = mempool_backed.own [OF m3_backed m3_m4]

lemmas demo_reachable = m1_backed [THEN mempool_backed_reachable] m2_backed [THEN mempool_backed_reachable]
  m3_backed [THEN mempool_backed_reachable] m4_backed [THEN mempool_backed_reachable]

subsection \<open>Witnesses\<close>

theorem accepted_solution_sound_witness:
  "\<exists>o1 js. job_orders m2 0 = Some o1 \<and> order_solutions m3 0 2 = Some js \<and> js_best_energy js = order_energy (params o1) (hd (js_solutions js)) \<and>
     calculate_diversity (js_solutions js) = Some (Inr (js_diversity js))"
proof -
  have "submit_solution_inner demo_mempool 2 0 [[1, -1], [1, 1]] None m2 = Some (Inr m3)" using m3_step by (simp add: submit_solution_def)
  from accepted_solution_sound [OF demo_mempool_ok demo_reachable(2) this] show ?thesis by blast
qed

theorem ranking_holds_best_witness:
  "ranking_of 3 (best_energies 0 m3) [\<lparr>solver = 2, rank_energy = -1000\<rparr>]"
proof -
  have o1: "job_orders m3 0 = Some (demo_order Opened (Some 0) 1)" by (simp add: demo_defs)
  have "order_ranking 0 (demo_order Opened (Some 0) 1) m3 = [\<lparr>solver = 2, rank_energy = -1000\<rparr>]" "resolution (demo_order Opened (Some 0) 1) = TopNEqual 3"
    by (simp_all add: order_ranking_def demo_defs)
  then show ?thesis using ranking_holds_best [OF demo_mempool_ok demo_reachable(3) o1] by simp
qed

theorem order_lifecycle_witness:
  "\<exists>o2. job_orders m4 0 = Some o2 \<and> order_moves (mp_block m4) (demo_order Opened (Some 0) 1) o2 \<and> (status o2 \<noteq> Opened \<longrightarrow> order_expiry o2 \<le> mp_block m4)"
proof (rule order_lifecycle [OF demo_mempool_ok demo_reachable(3) mempool_step.own [OF m3_m4]])
  show "job_orders m3 0 = Some (demo_order Opened (Some 0) 1)" by (simp add: demo_defs)
qed

theorem mempool_indexes_exact_witness:
  "open_orders m2 = {oid. opened m2 oid} \<and> set (slots_of 1 m2) = unsettled m2 1 \<and> escrow m2 1 \<le> reserved_balance ledger_ops (mp_env m2) 1 \<and>
   reserved_balance ledger_ops (mp_env m3) 1 + escrow m2 1 = reserved_balance ledger_ops (mp_env m2) 1 + escrow m3 1"
  using mempool_indexes_exact [OF demo_mempool_ok demo_reachable(2)] m2_backed m2_m3 by (simp add: demo_mempool_def)

theorem claim_pays_once_witness:
  "\<exists>o1 ps. job_orders m4 0 = Some o1 \<and> fair_split (order_ranking 0 o1 m4) (reward o1) ps \<and>
     (\<forall>x. x \<noteq> proposer o1 \<longrightarrow> free_balance ledger_ops (mp_env m5) x = free_balance ledger_ops (mp_env m4) x + paid_to x ps) \<and>
     (\<forall>og' t'. claim_reward demo_mempool og' 0 m5 \<noteq> Some (Inr t'))"
proof -
  have "claim_reward demo_mempool (Signed 9) 0 m4 = Some (Inr m5)" using m5_step by simp
  from claim_pays_once [OF demo_mempool_ok demo_reachable(4) this rtranclp.rtrancl_refl] show ?thesis by (auto simp: demo_mempool_def)
qed

theorem expired_orders_settle_witness:
  "((\<exists>s'. claim_reward demo_mempool (Signed 3) 0 m4 = Some (Inr s')) \<or> (\<exists>n. claim_reward demo_mempool (Signed 3) 0 m4 = Some (Inl (Other n)))) \<and>
   claim_reward demo_mempool (Signed 3) 0 (m4\<lparr>mp_env := demo_mp_ledger 900 0 5\<rparr>) = Some (Inl (Module RewardReserveMissing))"
proof -
  let ?o = "demo_order Expired (Some 0) 1" and ?t = "m4\<lparr>mp_env := demo_mp_ledger 900 0 5\<rparr>"
  have o: "job_orders m4 0 = Some ?o" "status ?o = Expired" "0 < solution_count ?o" by (simp_all add: m4_def demo_defs)
  have r: "mempool_reachable demo_mempool ?t" by (rule mempool_reachable.step [OF demo_reachable(4) mempool_step.env])
  have "reserved_balance (mc_currency demo_mempool) (mp_env ?t) (proposer ?o) < reward ?o"
    by (simp add: demo_defs demo_mp_ledger_def ledger_ops_def)
  moreover have "job_orders ?t 0 = Some ?o" using o(1) by simp
  ultimately have "claim_reward demo_mempool (Signed 3) 0 ?t = Some (Inl (Module RewardReserveMissing))"
    using expired_orders_settle [OF demo_mempool_ok r _ o(2), of 0 3] o(3) by blast
  then show ?thesis using expired_orders_settle [OF demo_mempool_ok demo_reachable(4) o(1,2), of 3] o(3) m4_backed by blast
qed

theorem overdue_orders_expire_witness:
  "\<exists>o2. job_orders m4 0 = Some o2 \<and> status o2 \<noteq> Opened"
proof (rule overdue_orders_expire [OF demo_mempool_ok demo_reachable(3) _ m4_step demo_bounds(7) rtranclp.rtrancl_refl])
  show "job_orders m3 0 = Some (demo_order Opened (Some 0) 1)" by (simp add: demo_defs)
  show "order_expiry (demo_order Opened (Some 0) 1) \<le> mp_block m4"
    by (simp add: m4_def order_expiry_def effective_expiry_def demo_defs)
  have "overdue 1 m3 = {0}" by (auto simp: overdue_def demo_defs)
  then show "backlog (mp_block m4) (next_expiry_bucket m3) m3 \<le> MAX_FINALISED_ORDERS_PER_BLOCK * (mp_block m4 - mp_block m3)"
    by (simp add: backlog_def MAX_FINALISED_ORDERS_PER_BLOCK_def m4_def) (simp add: demo_defs)
qed

theorem mempool_never_panics_witness:
  "mempool_dispatch demo_mempool (Signed 3) (SubmitSolution 0 [[1, 1, 1]]) m3 \<noteq> None \<and> next_block demo_mempool m3 \<noteq> None"
  using mempool_never_panics [OF demo_mempool_ok demo_reachable(3)] demo_bounds(7) by blast

theorem mempool_upgrade_indexes_witness:
  "index_ok (mempool_on_runtime_upgrade demo_mempool (m2\<lparr>mp_version := 2, orders_expiring_at := \<lambda>_. {}\<rparr>)) \<and>
   job_orders (mempool_on_runtime_upgrade demo_mempool (m2\<lparr>mp_version := 2, orders_expiring_at := \<lambda>_. {}\<rparr>)) = job_orders m2"
proof -
  let ?s = "m2\<lparr>mp_version := 2, orders_expiring_at := \<lambda>_. {}\<rparr>"
  have "open_orders m2 = {oid. opened m2 oid}" "opened ?s = opened m2" "finite (open_orders m2)"
    by (auto simp: opened_def demo_defs fun_eq_iff split: if_splits)
  then show ?thesis
    using mempool_upgrade_indexes [of demo_mempool ?s] demo_bounds(6) by (simp add: demo_mempool_def)
qed

end
