(* ===== verification/Miner_Registry.thy ===== *)
theory Miner_Registry
  imports Pow_Chain
begin

text \<open>
  \<open>pallets/miner-registry/src/lib.rs\<close> and \<open>migrations.rs\<close>: node descriptors with their deposits, and the participation
  of miners in qblocks. \<open>mr_env\<close> is the state of the other pallets: balances act on it and the
  qblock numbering is read from it. The hash, the SCALE encoding of a payload and the order of the
  keys of a storage prefix are parameters.
\<close>

subsection \<open>Data\<close>

definition NODE_DESCRIPTOR_SCHEMA_V1 :: nat where "NODE_DESCRIPTOR_SCHEMA_V1 = 1"
definition NODE_DESCRIPTOR_SCHEMA_V2 :: nat where "NODE_DESCRIPTOR_SCHEMA_V2 = 2"

datatype log_level = LogDebug | LogInfo | LogWarning | LogError

datatype miner_kind = KCpu | KGpu | KQpuDwave | KQpuIbm | KQpuIonq | KQpuPasqal | KAsic | KMetal

record os_info =
  os_system :: bytes
  os_release :: bytes
  os_machine :: bytes

record cpu_info =
  logical_cores :: "u32 option"
  physical_cores :: "u32 option"
  cpu_brand :: bytes
  cpu_arch :: bytes

record gpu_info =
  gpu_index :: nat
  gpu_vendor :: bytes
  gpu_name :: bytes
  gpu_memory_mb :: "u32 option"
  utilization_pct :: "nat option"

record system_info =
  si_os :: os_info
  si_cpu :: cpu_info
  si_memory_mb :: "u32 option"
  si_gpus :: "gpu_info list"

record runtime_info =
  python :: bytes
  quip_version :: bytes
  protocol_version :: u32
  in_docker :: bool
  docker_image :: "bytes option"

record miner_spec =
  ms_kind :: miner_kind
  ms_label :: "bytes option"
  ms_backend :: "bytes option"
  ms_device_id :: "bytes option"

record node_descriptor_v1_input =
  v1_node_id :: bytes
  v1_node_name :: bytes
  v1_public_host :: "bytes option"
  v1_public_port :: "nat option"
  v1_rpc_endpoints :: "bytes list"
  v1_auto_mine :: bool
  v1_log_level :: log_level
  v1_miners :: "miner_spec list"

record node_descriptor_v2_input =
  v2_node_id :: bytes
  v2_node_name :: bytes
  v2_public_host :: "bytes option"
  v2_public_port :: "nat option"
  v2_rpc_endpoints :: "bytes list"
  v2_auto_mine :: bool
  v2_log_level :: log_level
  v2_miners :: "miner_spec list"
  v2_system_info :: "system_info option"
  v2_runtime :: "runtime_info option"

datatype node_descriptor_input = V1 node_descriptor_v1_input | V2 node_descriptor_v2_input

record node_descriptor =
  nd_schema_version :: nat
  nd_node_id :: bytes
  nd_node_name :: bytes
  nd_public_host :: "bytes option"
  nd_public_port :: "nat option"
  nd_rpc_endpoints :: "bytes list"
  nd_auto_mine :: bool
  nd_log_level :: log_level
  nd_miners :: "miner_spec list"
  nd_payload_hash :: h256
  nd_updated_at :: nat
  nd_deposit :: balance
  nd_system_info :: "system_info option"
  nd_runtime :: "runtime_info option"

record participation_record =
  pt_qblock_id :: u64
  pt_kind :: miner_kind
  pt_budget_seconds :: "u32 option"
  pt_updated_at :: nat

datatype registry_error =
    EmptyNodeId | EmptyNodeName | EmptyPublicHost | EmptyRpcEndpoint | EmptyMinerLabel | EmptyMinerBackend
  | EmptyMinerDeviceId | EmptyOsSystem | EmptyCpuBrand | EmptyCpuArch | EmptyGpuVendor | EmptyGpuName
  | InvalidGpuUtilization | EmptyPythonVersion | EmptyQuipVersion | EmptyDockerImage | NoMiners | InvalidPort
  | DescriptorNotFound | DescriptorRequired | InvalidQBlockId | DuplicateParticipation

datatype 'a registry_event =
    DescriptorUpdated 'a h256 u32
  | DescriptorCleared 'a
  | MinerParticipated u64 'a miner_kind "u32 option"

record ('a, 'b) registry_config =
  mr_currency :: "('a, 'b) currency_ops"
  mr_latest_qblock_id :: "'b \<Rightarrow> u64 option"
  deposit_base :: balance
  deposit_per_byte :: balance
  mr_blake2_256 :: "bytes \<Rightarrow> h256"
  encode_input :: "node_descriptor_input \<Rightarrow> bytes"
  mr_iter :: "'a set \<Rightarrow> 'a list"

record ('a, 'b) registry_state =
  node_descriptors :: "'a \<rightharpoonup> node_descriptor"
  latest_participation :: "'a \<rightharpoonup> participation_record"
  participants_by :: "u64 \<Rightarrow> ('a \<rightharpoonup> participation_record)"
  participant_count :: "u64 \<Rightarrow> u32"
  mr_events :: "'a registry_event list"
  mr_block :: nat
  mr_env :: 'b

type_synonym ('a, 'b) registry_result = "registry_error dispatch_error + ('a, 'b) registry_state"

definition emit_mr :: "'a registry_event \<Rightarrow> ('a, 'b) registry_state \<Rightarrow> ('a, 'b) registry_state" where
  "emit_mr ev s = s\<lparr>mr_events := mr_events s @ [ev]\<rparr>"

definition candidate_qblock_id :: "u64 option \<Rightarrow> u64" where
  "candidate_qblock_id latest = sat_add u64_max (case latest of Some n \<Rightarrow> n | None \<Rightarrow> 0) 1"

subsection \<open>Validation\<close>

definition nonempty_opt :: "bytes option \<Rightarrow> bool" where
  "nonempty_opt x = (case x of Some b \<Rightarrow> b \<noteq> [] | None \<Rightarrow> True)"

text \<open>Loops that check each element in turn and stop at the first error.\<close>

fun check_each :: "('x \<Rightarrow> 'e + unit) \<Rightarrow> 'x list \<Rightarrow> 'e + unit" where
  "check_each f [] = Inr ()"
| "check_each f (x # xs) = and_then (f x) (\<lambda>_. check_each f xs)"

definition validate_node_identity ::
    "bytes \<Rightarrow> bytes \<Rightarrow> bytes option \<Rightarrow> nat option \<Rightarrow> bytes list \<Rightarrow> registry_error dispatch_error + unit" where
  "validate_node_identity node_id node_name public_host public_port rpc_endpoints =
     ensure (node_id \<noteq> []) (Module EmptyNodeId)
     (ensure (node_name \<noteq> []) (Module EmptyNodeName)
     (ensure (nonempty_opt public_host) (Module EmptyPublicHost)
     (ensure (case public_port of Some port \<Rightarrow> port > 0 | None \<Rightarrow> True) (Module InvalidPort)
       (check_each (\<lambda>endpoint. ensure (endpoint \<noteq> []) (Module EmptyRpcEndpoint) (Inr ())) rpc_endpoints))))"

definition validate_miner :: "miner_spec \<Rightarrow> registry_error dispatch_error + unit" where
  "validate_miner miner =
     ensure (nonempty_opt (ms_label miner)) (Module EmptyMinerLabel)
     (ensure (nonempty_opt (ms_backend miner)) (Module EmptyMinerBackend)
     (ensure (nonempty_opt (ms_device_id miner)) (Module EmptyMinerDeviceId) (Inr ())))"

definition validate_miners :: "miner_spec list \<Rightarrow> registry_error dispatch_error + unit" where
  "validate_miners specs = ensure (specs \<noteq> []) (Module NoMiners) (check_each validate_miner specs)"

definition validate_gpu :: "gpu_info \<Rightarrow> registry_error dispatch_error + unit" where
  "validate_gpu gpu =
     ensure (gpu_vendor gpu \<noteq> []) (Module EmptyGpuVendor)
     (ensure (gpu_name gpu \<noteq> []) (Module EmptyGpuName)
     (ensure (case utilization_pct gpu of Some u \<Rightarrow> u \<le> 100 | None \<Rightarrow> True) (Module InvalidGpuUtilization) (Inr ())))"

definition validate_system_info :: "system_info \<Rightarrow> registry_error dispatch_error + unit" where
  "validate_system_info si =
     ensure (os_system (si_os si) \<noteq> []) (Module EmptyOsSystem)
     (ensure (cpu_brand (si_cpu si) \<noteq> []) (Module EmptyCpuBrand)
     (ensure (cpu_arch (si_cpu si) \<noteq> []) (Module EmptyCpuArch) (check_each validate_gpu (si_gpus si))))"

definition validate_runtime :: "runtime_info \<Rightarrow> registry_error dispatch_error + unit" where
  "validate_runtime rt =
     ensure (python rt \<noteq> []) (Module EmptyPythonVersion)
     (ensure (quip_version rt \<noteq> []) (Module EmptyQuipVersion)
     (ensure (nonempty_opt (docker_image rt)) (Module EmptyDockerImage) (Inr ())))"

subsection \<open>Payload length and deposit\<close>

definition opt_len :: "bytes option \<Rightarrow> usize" where
  "opt_len x = (case x of Some b \<Rightarrow> length b | None \<Rightarrow> 0)"

text \<open>Running sums of lengths, saturating at \<open>usize\<close>.\<close>

definition add_len :: "usize \<Rightarrow> usize \<Rightarrow> usize" where
  "add_len total_bytes n = sat_add u64_max total_bytes n"

definition descriptor_payload_len ::
    "bytes \<Rightarrow> bytes \<Rightarrow> bytes option \<Rightarrow> bytes list \<Rightarrow> miner_spec list \<Rightarrow> u32" where
  "descriptor_payload_len node_id node_name public_host rpc_endpoints specs =
     (let b0 = add_len (length node_id) (length node_name);
          b1 = add_len b0 (opt_len public_host);
          b2 = fold (\<lambda>e b. add_len b (length e)) rpc_endpoints b1;
          b3 = fold (\<lambda>m b. add_len (add_len (add_len b (opt_len (ms_label m))) (opt_len (ms_backend m))) (opt_len (ms_device_id m)))
                 specs b2
      in min b3 u32_max)"

definition system_info_payload_len :: "system_info \<Rightarrow> u32" where
  "system_info_payload_len si =
     (let b0 = add_len (add_len (add_len (add_len (length (os_system (si_os si))) (length (os_release (si_os si))))
                 (length (os_machine (si_os si)))) (length (cpu_brand (si_cpu si)))) (length (cpu_arch (si_cpu si)));
          b1 = fold (\<lambda>g b. add_len (add_len b (length (gpu_vendor g))) (length (gpu_name g))) (si_gpus si) b0
      in min b1 u32_max)"

definition runtime_payload_len :: "runtime_info \<Rightarrow> u32" where
  "runtime_payload_len rt =
     min (add_len (add_len (length (python rt)) (length (quip_version rt))) (opt_len (docker_image rt))) u32_max"

definition descriptor_deposit :: "('a, 'b) registry_config \<Rightarrow> u32 \<Rightarrow> balance" where
  "descriptor_deposit c payload_len = sat_add u128_max (deposit_base c) (sat_mul u128_max (deposit_per_byte c) payload_len)"

definition validate_and_store_v1 ::
    "('a, 'b) registry_config \<Rightarrow> node_descriptor_v1_input \<Rightarrow> nat \<Rightarrow> registry_error dispatch_error + node_descriptor \<times> u32" where
  "validate_and_store_v1 c i now =
     and_then (validate_node_identity (v1_node_id i) (v1_node_name i) (v1_public_host i) (v1_public_port i) (v1_rpc_endpoints i)) (\<lambda>_.
     and_then (validate_miners (v1_miners i)) (\<lambda>_.
     let payload_len = descriptor_payload_len (v1_node_id i) (v1_node_name i) (v1_public_host i) (v1_rpc_endpoints i) (v1_miners i)
     in Inr (\<lparr>nd_schema_version = NODE_DESCRIPTOR_SCHEMA_V1, nd_node_id = v1_node_id i, nd_node_name = v1_node_name i,
              nd_public_host = v1_public_host i, nd_public_port = v1_public_port i, nd_rpc_endpoints = v1_rpc_endpoints i,
              nd_auto_mine = v1_auto_mine i, nd_log_level = v1_log_level i, nd_miners = v1_miners i,
              nd_payload_hash = replicate 32 0, nd_updated_at = now, nd_deposit = descriptor_deposit c payload_len,
              nd_system_info = None, nd_runtime = None\<rparr>, payload_len)))"

definition validate_and_store_v2 ::
    "('a, 'b) registry_config \<Rightarrow> node_descriptor_v2_input \<Rightarrow> nat \<Rightarrow> registry_error dispatch_error + node_descriptor \<times> u32" where
  "validate_and_store_v2 c i now =
     and_then (validate_node_identity (v2_node_id i) (v2_node_name i) (v2_public_host i) (v2_public_port i) (v2_rpc_endpoints i)) (\<lambda>_.
     and_then (validate_miners (v2_miners i)) (\<lambda>_.
     let len0 = descriptor_payload_len (v2_node_id i) (v2_node_name i) (v2_public_host i) (v2_rpc_endpoints i) (v2_miners i) in
     and_then (case v2_system_info i of
                 Some si \<Rightarrow> and_then (validate_system_info si) (\<lambda>_. Inr (sat_add u32_max len0 (system_info_payload_len si)))
               | None \<Rightarrow> Inr len0) (\<lambda>len1.
     and_then (case v2_runtime i of
                 Some rt \<Rightarrow> and_then (validate_runtime rt) (\<lambda>_. Inr (sat_add u32_max len1 (runtime_payload_len rt)))
               | None \<Rightarrow> Inr len1) (\<lambda>payload_len.
     Inr (\<lparr>nd_schema_version = NODE_DESCRIPTOR_SCHEMA_V2, nd_node_id = v2_node_id i, nd_node_name = v2_node_name i,
           nd_public_host = v2_public_host i, nd_public_port = v2_public_port i, nd_rpc_endpoints = v2_rpc_endpoints i,
           nd_auto_mine = v2_auto_mine i, nd_log_level = v2_log_level i, nd_miners = v2_miners i,
           nd_payload_hash = replicate 32 0, nd_updated_at = now, nd_deposit = descriptor_deposit c payload_len,
           nd_system_info = v2_system_info i, nd_runtime = v2_runtime i\<rparr>, payload_len)))))"

fun validate_and_store_descriptor ::
    "('a, 'b) registry_config \<Rightarrow> node_descriptor_input \<Rightarrow> nat \<Rightarrow> registry_error dispatch_error + node_descriptor \<times> u32" where
  "validate_and_store_descriptor c (V1 i) now = validate_and_store_v1 c i now"
| "validate_and_store_descriptor c (V2 i) now = validate_and_store_v2 c i now"

subsection \<open>Calls\<close>

text \<open>The assertion on the remainder is compiled into debug builds only; a release build ignores it.\<close>

definition replace_descriptor ::
    "('a, 'b) registry_config \<Rightarrow> 'a \<Rightarrow> node_descriptor \<Rightarrow> h256 \<Rightarrow> ('a, 'b) registry_state \<Rightarrow> ('a, 'b) registry_result" where
  "replace_descriptor c who d payload_hash s =
     (let previous_deposit = (case node_descriptors s who of Some p \<Rightarrow> nd_deposit p | None \<Rightarrow> 0);
          next_deposit = nd_deposit d;
          store = (\<lambda>e. s\<lparr>mr_env := e, node_descriptors := (node_descriptors s)(who \<mapsto> d\<lparr>nd_payload_hash := payload_hash\<rparr>)\<rparr>)
      in if next_deposit > previous_deposit
         then and_then (map_err Other (reserve (mr_currency c) who (sat_sub next_deposit previous_deposit) (mr_env s))) (\<lambda>e. Inr (store e))
         else if previous_deposit > next_deposit
         then Inr (store (snd (unreserve (mr_currency c) who (sat_sub previous_deposit next_deposit) (mr_env s))))
         else Inr (store (mr_env s)))"

definition set_descriptor ::
    "('a, 'b) registry_config \<Rightarrow> 'a raw_origin \<Rightarrow> node_descriptor_input \<Rightarrow> ('a, 'b) registry_state \<Rightarrow> ('a, 'b) registry_result" where
  "set_descriptor c origin descriptor s =
     and_then (ensure_signed origin) (\<lambda>who.
     let payload_hash = mr_blake2_256 c (encode_input c descriptor) in
     and_then (validate_and_store_descriptor c descriptor (mr_block s)) (\<lambda>(stored, payload_len).
     and_then (replace_descriptor c who stored payload_hash s) (\<lambda>s'.
     Inr (emit_mr (DescriptorUpdated who payload_hash payload_len) s'))))"

definition clear_descriptor ::
    "('a, 'b) registry_config \<Rightarrow> 'a raw_origin \<Rightarrow> ('a, 'b) registry_state \<Rightarrow> ('a, 'b) registry_result" where
  "clear_descriptor c origin s =
     and_then (ensure_signed origin) (\<lambda>who.
     and_then (ok_or (node_descriptors s who) (Module DescriptorNotFound)) (\<lambda>d.
     Inr (emit_mr (DescriptorCleared who)
       (s\<lparr>node_descriptors := (node_descriptors s)(who := None),
          mr_env := snd (unreserve (mr_currency c) who (nd_deposit d) (mr_env s)),
          latest_participation := (latest_participation s)(who := None)\<rparr>))))"

definition participate ::
    "('a, 'b) registry_config \<Rightarrow> 'a raw_origin \<Rightarrow> u64 \<Rightarrow> miner_kind \<Rightarrow> u32 option \<Rightarrow> ('a, 'b) registry_state \<Rightarrow> ('a, 'b) registry_result" where
  "participate c origin qblock_id kind budget s =
     and_then (ensure_signed origin) (\<lambda>who.
     ensure (node_descriptors s who \<noteq> None) (Module DescriptorRequired)
     (ensure (qblock_id = candidate_qblock_id (mr_latest_qblock_id c (mr_env s))) (Module InvalidQBlockId)
     (ensure (case latest_participation s who of Some r \<Rightarrow> pt_qblock_id r \<noteq> qblock_id | None \<Rightarrow> True) (Module DuplicateParticipation)
     (let r = \<lparr>pt_qblock_id = qblock_id, pt_kind = kind, pt_budget_seconds = budget, pt_updated_at = mr_block s\<rparr>
      in Inr (emit_mr (MinerParticipated qblock_id who kind budget)
           (s\<lparr>latest_participation := (latest_participation s)(who \<mapsto> r),
              participants_by := (participants_by s)(qblock_id := (participants_by s qblock_id)(who \<mapsto> r)),
              participant_count := (participant_count s)(qblock_id := sat_add u32_max (participant_count s qblock_id) 1)\<rparr>))))))"

definition participant_count_by_qblock :: "u64 \<Rightarrow> ('a, 'b) registry_state \<Rightarrow> u32" where
  "participant_count_by_qblock q s = participant_count s q"

definition participants_by_qblock ::
    "('a :: linorder, 'b) registry_config \<Rightarrow> u64 \<Rightarrow> 'a option \<Rightarrow> u32 \<Rightarrow> ('a, 'b) registry_state \<Rightarrow> ('a \<times> participation_record) list" where
  "participants_by_qblock c q start_after limit s =
     (let lim = min limit 1000
      in if lim = 0 then []
         else take lim (sort_key fst (filter (\<lambda>(a, r). case start_after of Some cursor \<Rightarrow> a > cursor | None \<Rightarrow> True)
                (map (\<lambda>a. (a, the (participants_by s q a))) (mr_iter c (dom (participants_by s q)))))))"

text \<open>
  \<open>InnerMigrateToV2\<close>: \<open>drained\<close> is what the storage iterator yields of the old records while it removes every record.
\<close>

definition migrate_to_v2 ::
    "('a, 'b) registry_config \<Rightarrow> ('a \<times> node_descriptor) list \<Rightarrow> ('a, 'b) registry_state \<Rightarrow> ('a, 'b) registry_state" where
  "migrate_to_v2 c drained s =
     s\<lparr>node_descriptors := Map.empty,
       mr_env := fold (\<lambda>(who, d) e. snd (unreserve (mr_currency c) who (nd_deposit d) e)) drained (mr_env s)\<rparr>"

end
