(* ===== verification/Registry_Theorems.thy ===== *)
theory Registry_Theorems
  imports Miner_Registry
begin

text \<open>
  What holds in every state that the miner registry reaches: descriptors are valid, their deposits follow
  the size of the payload and are held in reserve, and participation is recorded under the candidate qblock.
  The numbering of qblocks is an interface (\<open>QBlockIdProvider\<close>) that quantum-pow implements.
\<close>

subsection \<open>Runs\<close>

datatype registry_call = SetDescriptor node_descriptor_input | ClearDescriptor | Participate u64 miner_kind "u32 option"

fun registry_dispatch ::
    "('a, 'b) registry_config \<Rightarrow> 'a raw_origin \<Rightarrow> registry_call \<Rightarrow> ('a, 'b) registry_state \<Rightarrow> ('a, 'b) registry_result" where
  "registry_dispatch c origin (SetDescriptor i) s = set_descriptor c origin i s"
| "registry_dispatch c origin ClearDescriptor s = clear_descriptor c origin s"
| "registry_dispatch c origin (Participate q k b) s = participate c origin q k b s"

definition held :: "('a, 'b) registry_state \<Rightarrow> 'a \<Rightarrow> balance" where
  "held s who = (case node_descriptors s who of Some d \<Rightarrow> nd_deposit d | None \<Rightarrow> 0)"

definition empty_registry :: "'b \<Rightarrow> ('a, 'b) registry_state" where
  "empty_registry e =
     \<lparr>node_descriptors = Map.empty, latest_participation = Map.empty, participants_by = (\<lambda>_. Map.empty),
      participant_count = (\<lambda>_. 0), mr_events = [], mr_block = 0, mr_env = e\<rparr>"

text \<open>
  The other pallets move the chain along by \<open>advances\<close>. What they reserve is their own: they leave the
  deposits held for descriptors in reserve.
\<close>

inductive registry_reachable ::
    "('a, 'b) registry_config \<Rightarrow> ('b \<Rightarrow> 'b \<Rightarrow> bool) \<Rightarrow> ('a, 'b) registry_state \<Rightarrow> bool" for c advances where
  start: "registry_reachable c advances (empty_registry e)"
| call: "registry_reachable c advances s \<Longrightarrow> registry_dispatch c o1 k s = Inr s' \<Longrightarrow> registry_reachable c advances s'"
| others: "registry_reachable c advances s \<Longrightarrow> advances (mr_env s) e \<Longrightarrow>
    (\<And>who. held s who \<le> reserved_balance (mr_currency c) e who) \<Longrightarrow>
    registry_reachable c advances (s\<lparr>mr_env := e, mr_block := n\<rparr>)"

subsection \<open>Valid descriptors and the size of their payload\<close>

lemma check_each_Inr [simp]: "check_each f xs = Inr u \<longleftrightarrow> (\<forall>x \<in> set xs. f x = Inr ())"
  by (induction xs) auto

text \<open>The bytes a descriptor is charged for: the lengths of its variable-length fields.\<close>

definition miner_bytes :: "miner_spec \<Rightarrow> nat" where
  "miner_bytes m = opt_len (ms_label m) + opt_len (ms_backend m) + opt_len (ms_device_id m)"

definition system_bytes :: "system_info \<Rightarrow> nat" where
  "system_bytes si = length (os_system (si_os si)) + length (os_release (si_os si)) + length (os_machine (si_os si)) +
     length (cpu_brand (si_cpu si)) + length (cpu_arch (si_cpu si)) +
     (\<Sum>g \<leftarrow> si_gpus si. length (gpu_vendor g) + length (gpu_name g))"

definition runtime_bytes :: "runtime_info \<Rightarrow> nat" where
  "runtime_bytes rt = length (python rt) + length (quip_version rt) + opt_len (docker_image rt)"

definition descriptor_bytes :: "node_descriptor \<Rightarrow> nat" where
  "descriptor_bytes d = length (nd_node_id d) + length (nd_node_name d) + opt_len (nd_public_host d) +
     sum_list (map length (nd_rpc_endpoints d)) + sum_list (map miner_bytes (nd_miners d)) +
     (case nd_system_info d of Some si \<Rightarrow> system_bytes si | None \<Rightarrow> 0) +
     (case nd_runtime d of Some rt \<Rightarrow> runtime_bytes rt | None \<Rightarrow> 0)"

definition identity_valid :: "bytes \<Rightarrow> bytes \<Rightarrow> bytes option \<Rightarrow> nat option \<Rightarrow> bytes list \<Rightarrow> bool" where
  "identity_valid i n h p es \<longleftrightarrow> i \<noteq> [] \<and> n \<noteq> [] \<and> h \<noteq> Some [] \<and> p \<noteq> Some 0 \<and> [] \<notin> set es"

definition miner_valid :: "miner_spec \<Rightarrow> bool" where
  "miner_valid m \<longleftrightarrow> ms_label m \<noteq> Some [] \<and> ms_backend m \<noteq> Some [] \<and> ms_device_id m \<noteq> Some []"

definition system_valid :: "system_info \<Rightarrow> bool" where
  "system_valid si \<longleftrightarrow> os_system (si_os si) \<noteq> [] \<and> cpu_brand (si_cpu si) \<noteq> [] \<and> cpu_arch (si_cpu si) \<noteq> [] \<and>
     (\<forall>g \<in> set (si_gpus si). gpu_vendor g \<noteq> [] \<and> gpu_name g \<noteq> [] \<and> (\<forall>u. utilization_pct g = Some u \<longrightarrow> u \<le> 100))"

definition runtime_valid :: "runtime_info \<Rightarrow> bool" where
  "runtime_valid rt \<longleftrightarrow> python rt \<noteq> [] \<and> quip_version rt \<noteq> [] \<and> docker_image rt \<noteq> Some []"

definition descriptor_valid :: "node_descriptor \<Rightarrow> bool" where
  "descriptor_valid d \<longleftrightarrow>
     identity_valid (nd_node_id d) (nd_node_name d) (nd_public_host d) (nd_public_port d) (nd_rpc_endpoints d) \<and>
     nd_miners d \<noteq> [] \<and> (\<forall>m \<in> set (nd_miners d). miner_valid m) \<and>
     pred_option system_valid (nd_system_info d) \<and> pred_option runtime_valid (nd_runtime d) \<and>
     (nd_schema_version d = 1 \<and> nd_system_info d = None \<and> nd_runtime d = None \<or> nd_schema_version d = 2)"

lemma nonempty_opt_iff: "nonempty_opt x \<longleftrightarrow> x \<noteq> Some []"
  by (auto simp: nonempty_opt_def split: option.splits)

lemma fold_add_len:
  assumes "\<And>x b. g x b = sat_add u64_max b (f x)"
  shows "fold g xs (min b u64_max) = min (b + sum_list (map f xs)) u64_max"
proof (induction xs arbitrary: b)
  case (Cons x xs)
  have "g x (min b u64_max) = min (b + f x) u64_max" by (simp add: assms sat_add_def)
  then show ?case using Cons.IH [of "b + f x"] by (simp add: add.assoc)
qed simp

lemma add_len_min [simp]: "add_len (min a u64_max) b = min (a + b) u64_max"
  by (simp add: add_len_def sat_add_def)

lemma add_len_two: "add_len a b = min (a + b) u64_max"
  by (simp add: add_len_def sat_add_def)

lemma min_widths [simp]: "min (min a u64_max) u32_max = min a u32_max" "min u64_max u32_max = u32_max"
  by (simp_all add: range_simps)

lemma descriptor_payload_len_sum:
  "descriptor_payload_len i n h es specs =
     min (length i + length n + opt_len h + sum_list (map length es) + sum_list (map miner_bytes specs)) u32_max"
proof -
  have e: "fold (\<lambda>e b. add_len b (length e)) es (min b u64_max) = min (b + sum_list (map length es)) u64_max" for b
    by (rule fold_add_len) (simp add: add_len_def)
  have m: "fold (\<lambda>m b. add_len (add_len (add_len b (opt_len (ms_label m))) (opt_len (ms_backend m))) (opt_len (ms_device_id m)))
      specs (min b u64_max) = min (b + sum_list (map miner_bytes specs)) u64_max" for b
    by (rule fold_add_len) (simp add: add_len_two miner_bytes_def sat_add_def add.assoc)
  show ?thesis by (simp add: descriptor_payload_len_def Let_def e m add_len_two [of "length i"])
qed

lemma system_info_payload_len_sum: "system_info_payload_len si = min (system_bytes si) u32_max"
proof -
  have g: "fold (\<lambda>g b. add_len (add_len b (length (gpu_vendor g))) (length (gpu_name g))) gs (min b u64_max) =
      min (b + (\<Sum>g \<leftarrow> gs. length (gpu_vendor g) + length (gpu_name g))) u64_max" for gs b
    by (rule fold_add_len) (simp add: add_len_two sat_add_def add.assoc)
  show ?thesis
    by (simp add: system_info_payload_len_def Let_def g add_len_two [of "length (os_system (si_os si))"] system_bytes_def)
qed

lemma runtime_payload_len_sum: "runtime_payload_len rt = min (runtime_bytes rt) u32_max"
  by (simp add: runtime_payload_len_def add_len_two [of "length (python rt)"] runtime_bytes_def)

lemmas payload_sums = descriptor_payload_len_sum system_info_payload_len_sum runtime_payload_len_sum

lemma sat_add_mins: "sat_add m (min a m) (min b m) = min (a + b) m"
  by (simp add: sat_add_def)

lemma validate_node_identity_iff: "validate_node_identity i n h p es = Inr u \<longleftrightarrow> identity_valid i n h p es"
  by (cases p) (auto simp: validate_node_identity_def identity_valid_def nonempty_opt_iff)

lemma validate_miners_iff: "validate_miners specs = Inr u \<longleftrightarrow> specs \<noteq> [] \<and> (\<forall>m \<in> set specs. miner_valid m)"
  by (simp add: validate_miners_def validate_miner_def miner_valid_def nonempty_opt_iff)

lemma validate_gpu_iff:
  "validate_gpu g = Inr u \<longleftrightarrow> gpu_vendor g \<noteq> [] \<and> gpu_name g \<noteq> [] \<and> (\<forall>u. utilization_pct g = Some u \<longrightarrow> u \<le> 100)"
  by (cases "utilization_pct g") (simp_all add: validate_gpu_def)

lemma validate_system_info_iff: "validate_system_info si = Inr u \<longleftrightarrow> system_valid si"
  by (simp add: validate_system_info_def system_valid_def validate_gpu_iff)

lemma validate_runtime_iff: "validate_runtime rt = Inr u \<longleftrightarrow> runtime_valid rt"
  by (simp add: validate_runtime_def runtime_valid_def nonempty_opt_iff)

lemmas validate_iffs = validate_node_identity_iff validate_miners_iff validate_system_info_iff validate_runtime_iff

lemma validate_and_store_ok:
  assumes "validate_and_store_descriptor c i now = Inr (d, n)"
  shows "descriptor_valid d \<and> n = min (descriptor_bytes d) u32_max \<and> nd_deposit d = descriptor_deposit c n"
proof (cases i)
  case (V1 x)
  with assms show ?thesis
    by (auto simp: validate_and_store_v1_def validate_iffs Let_def payload_sums
        descriptor_valid_def descriptor_bytes_def NODE_DESCRIPTOR_SCHEMA_V1_def)
next
  case (V2 x)
  show ?thesis using assms V2
    by (cases "v2_system_info x"; cases "v2_runtime x")
      (simp_all add: validate_and_store_v2_def validate_iffs Let_def payload_sums sat_add_mins
        descriptor_valid_def descriptor_bytes_def NODE_DESCRIPTOR_SCHEMA_V2_def, auto simp: add.assoc)
qed

subsection \<open>Deposits\<close>

definition deposits_ok :: "('a, 'b) registry_config \<Rightarrow> ('a, 'b) registry_state \<Rightarrow> bool" where
  "deposits_ok c s \<longleftrightarrow>
     (\<forall>who d. node_descriptors s who = Some d \<longrightarrow>
        descriptor_valid d \<and> nd_deposit d = descriptor_deposit c (min (descriptor_bytes d) u32_max)) \<and>
     (\<forall>who. held s who \<le> reserved_balance (mr_currency c) (mr_env s) who)"

lemma replace_descriptor_Inr:
  assumes "replace_descriptor c who d h s = Inr s'" "reserve_laws (mr_currency c)"
    and held: "held s who \<le> reserved_balance (mr_currency c) (mr_env s) who"
  shows "node_descriptors s' = (node_descriptors s)(who \<mapsto> d\<lparr>nd_payload_hash := h\<rparr>)"
    "reserved_balance (mr_currency c) (mr_env s') who + held s who =
     reserved_balance (mr_currency c) (mr_env s) who + nd_deposit d"
    "x \<noteq> who \<Longrightarrow> reserved_balance (mr_currency c) (mr_env s') x = reserved_balance (mr_currency c) (mr_env s) x"
    "s' = s\<lparr>mr_env := mr_env s', node_descriptors := node_descriptors s'\<rparr>"
proof -
  let ?cur = "mr_currency c" and ?p = "held s who"
  consider e where "?p < nd_deposit d" "reserve ?cur who (nd_deposit d - ?p) (mr_env s) = Inr e" "mr_env s' = e"
    | "nd_deposit d < ?p" "mr_env s' = snd (unreserve ?cur who (?p - nd_deposit d) (mr_env s))"
    | "nd_deposit d = ?p" "mr_env s' = mr_env s"
    using assms(1) by (auto simp: replace_descriptor_def Let_def held_def split: if_splits option.splits)
  then have "reserved_balance ?cur (mr_env s') who + ?p = reserved_balance ?cur (mr_env s) who + nd_deposit d \<and>
      (x \<noteq> who \<longrightarrow> reserved_balance ?cur (mr_env s') x = reserved_balance ?cur (mr_env s) x)"
  proof cases
    case (1 e)
    then show ?thesis using reserve_moves(1) [OF assms(2) 1(2)] by simp
  next
    case 2
    obtain e where u: "unreserve ?cur who (?p - nd_deposit d) (mr_env s) = (0, e)"
      using unreserve_covered [OF assms(2), of "?p - nd_deposit d"] held by fastforce
    show ?thesis using unreserve_all(1,2) [OF assms(2) u] 2 u held by simp
  qed simp
  then show "reserved_balance ?cur (mr_env s') who + ?p = reserved_balance ?cur (mr_env s) who + nd_deposit d"
    "x \<noteq> who \<Longrightarrow> reserved_balance ?cur (mr_env s') x = reserved_balance ?cur (mr_env s) x"
    by simp_all
  show "node_descriptors s' = (node_descriptors s)(who \<mapsto> d\<lparr>nd_payload_hash := h\<rparr>)"
    "s' = s\<lparr>mr_env := mr_env s', node_descriptors := node_descriptors s'\<rparr>"
    using assms(1) by (auto simp: replace_descriptor_def Let_def split: if_splits)
qed

lemma set_descriptor_Inr:
  assumes "set_descriptor c o1 i s = Inr s'"
  obtains who d n h t where "o1 = Signed who" "validate_and_store_descriptor c i (mr_block s) = Inr (d, n)"
    "replace_descriptor c who d h s = Inr t" "s' = emit_mr (DescriptorUpdated who h n) t"
  using assms by (auto simp: set_descriptor_def Let_def split: prod.splits)

lemma emit_mr_fields [simp]:
  "node_descriptors (emit_mr ev s) = node_descriptors s" "latest_participation (emit_mr ev s) = latest_participation s"
  "participants_by (emit_mr ev s) = participants_by s" "participant_count (emit_mr ev s) = participant_count s"
  "mr_env (emit_mr ev s) = mr_env s" "held (emit_mr ev s) = held s"
  by (simp_all add: emit_mr_def held_def fun_eq_iff)

lemma set_descriptor_moves:
  assumes "set_descriptor c (Signed who) i s = Inr s'" "reserve_laws (mr_currency c)" "deposits_ok c s"
  shows "deposits_ok c s' \<and> (\<exists>d. node_descriptors s' who = Some d) \<and>
    reserved_balance (mr_currency c) (mr_env s') who + held s who =
    reserved_balance (mr_currency c) (mr_env s) who + held s' who"
  using assms(1)
proof (rule set_descriptor_Inr)
  fix who' d n h t
  assume w: "Signed who = Signed who'" and v: "validate_and_store_descriptor c i (mr_block s) = Inr (d, n)"
    and r: "replace_descriptor c who' d h s = Inr t" and s': "s' = emit_mr (DescriptorUpdated who' h n) t"
  from w r have r: "replace_descriptor c who d h s = Inr t" by simp
  have hd: "held s who \<le> reserved_balance (mr_currency c) (mr_env s) who" using assms(3) by (simp add: deposits_ok_def)
  note m = replace_descriptor_Inr [OF r assms(2) hd]
  have ok: "descriptor_valid (d\<lparr>nd_payload_hash := h\<rparr>) \<and>
      nd_deposit (d\<lparr>nd_payload_hash := h\<rparr>) = descriptor_deposit c (min (descriptor_bytes (d\<lparr>nd_payload_hash := h\<rparr>)) u32_max)"
    using validate_and_store_ok [OF v] by (simp add: descriptor_valid_def descriptor_bytes_def)
  have h1: "held t who = nd_deposit d" "\<And>x. x \<noteq> who \<Longrightarrow> held t x = held s x" by (simp_all add: held_def m(1))
  have "held t x \<le> reserved_balance (mr_currency c) (mr_env t) x" for x
  proof (cases "x = who")
    case True
    then show ?thesis using m(2) hd h1(1) by simp
  next
    case False
    then show ?thesis using m(3) [OF False] h1(2) [OF False] assms(3) by (simp add: deposits_ok_def)
  qed
  moreover have "\<forall>x e. node_descriptors t x = Some e \<longrightarrow> descriptor_valid e \<and>
      nd_deposit e = descriptor_deposit c (min (descriptor_bytes e) u32_max)"
    using assms(3) ok unfolding deposits_ok_def m(1) by auto
  ultimately have "deposits_ok c s'" unfolding s' deposits_ok_def by simp
  then show ?thesis using m(1,2) h1(1) s' by simp
qed

lemma clear_descriptor_moves:
  assumes "node_descriptors s who = Some d" "reserve_laws (mr_currency c)" "deposits_ok c s"
  shows "\<exists>s'. clear_descriptor c (Signed who) s = Inr s' \<and> node_descriptors s' = (node_descriptors s)(who := None) \<and>
    latest_participation s' who = None \<and> deposits_ok c s' \<and>
    reserved_balance (mr_currency c) (mr_env s') who + nd_deposit d = reserved_balance (mr_currency c) (mr_env s) who \<and>
    free_balance (mr_currency c) (mr_env s') who = free_balance (mr_currency c) (mr_env s) who + nd_deposit d"
proof -
  have "held s who \<le> reserved_balance (mr_currency c) (mr_env s) who" using assms(3) by (simp add: deposits_ok_def)
  then have le: "nd_deposit d \<le> reserved_balance (mr_currency c) (mr_env s) who" using assms(1) by (simp add: held_def)
  from unreserve_covered [OF assms(2) le] obtain e where u: "unreserve (mr_currency c) who (nd_deposit d) (mr_env s) = (0, e)"
    by blast
  note m = unreserve_all [OF assms(2) u]
  define s' where "s' = emit_mr (DescriptorCleared who)
    (s\<lparr>node_descriptors := (node_descriptors s)(who := None), mr_env := e,
       latest_participation := (latest_participation s)(who := None)\<rparr>)"
  have "clear_descriptor c (Signed who) s = Inr s'" by (simp add: clear_descriptor_def assms(1) u s'_def)
  moreover have "deposits_ok c s'" using assms(3) m(2) by (auto simp: deposits_ok_def s'_def held_def)
  ultimately show ?thesis using m(2,3) [of who] le by (auto simp: s'_def)
qed

lemma participate_Inr:
  assumes "participate c o1 q k b s = Inr s'"
  obtains who r where "o1 = Signed who" "node_descriptors s who \<noteq> None"
    "q = candidate_qblock_id (mr_latest_qblock_id c (mr_env s))" "pt_qblock_id r = q"
    "s' = emit_mr (MinerParticipated q who k b) (s\<lparr>latest_participation := (latest_participation s)(who \<mapsto> r),
       participants_by := (participants_by s)(q := (participants_by s q)(who \<mapsto> r)),
       participant_count := (participant_count s)(q := sat_add u32_max (participant_count s q) 1)\<rparr>)"
proof -
  from assms obtain who where w: "o1 = Signed who" by (auto simp: participate_def)
  let ?r = "\<lparr>pt_qblock_id = q, pt_kind = k, pt_budget_seconds = b, pt_updated_at = mr_block s\<rparr>"
  show thesis by (rule that [of who ?r]) (use assms w in \<open>auto simp: participate_def Let_def\<close>)
qed

lemma registry_dispatch_deposits:
  assumes "registry_dispatch c o1 k s = Inr s'" "reserve_laws (mr_currency c)" "deposits_ok c s"
  shows "deposits_ok c s'"
proof (cases k)
  case (SetDescriptor i)
  with assms(1) have *: "set_descriptor c o1 i s = Inr s'" by simp
  then obtain who where "o1 = Signed who" by (auto simp: set_descriptor_def)
  with * show ?thesis using set_descriptor_moves assms(2,3) by fast
next
  case ClearDescriptor
  with assms(1) obtain who d where "o1 = Signed who" "node_descriptors s who = Some d"
    "clear_descriptor c (Signed who) s = Inr s'"
    by (auto simp: clear_descriptor_def)
  then show ?thesis using clear_descriptor_moves [OF _ assms(2,3)] by fastforce
next
  case (Participate q kd b)
  with assms(1) have "participate c o1 q kd b s = Inr s'" by simp
  then show ?thesis by (rule participate_Inr) (use assms(3) in \<open>auto simp: deposits_ok_def held_def\<close>)
qed

lemma registry_reachable_deposits:
  assumes "registry_reachable c adv s" "reserve_laws (mr_currency c)" shows "deposits_ok c s"
  using assms(1)
proof (induction rule: registry_reachable.induct)
  case (start e)
  then show ?case by (simp add: deposits_ok_def empty_registry_def held_def)
next
  case (call s o1 k s')
  then show ?case using registry_dispatch_deposits assms(2) by blast
next
  case (others s e n)
  then show ?case by (simp add: deposits_ok_def held_def)
qed

subsection \<open>Participation\<close>

definition participation_ok :: "u64 \<Rightarrow> ('a, 'b) registry_state \<Rightarrow> bool" where
  "participation_ok cand s \<longleftrightarrow>
     (\<forall>q who r. participants_by s q who = Some r \<longrightarrow> pt_qblock_id r = q \<and> 1 \<le> q \<and> q \<le> cand) \<and>
     (\<forall>who r. latest_participation s who = Some r \<longrightarrow>
        node_descriptors s who \<noteq> None \<and> participants_by s (pt_qblock_id r) who = Some r \<and>
        (\<forall>q. participants_by s q who \<noteq> None \<longrightarrow> q \<le> pt_qblock_id r)) \<and>
     (\<forall>q. finite (dom (participants_by s q)) \<and> min (card (dom (participants_by s q))) u32_max \<le> participant_count s q)"

lemma candidate_ge_1: "1 \<le> candidate_qblock_id l"
  by (simp add: candidate_qblock_id_def sat_add_def u64_max_def)

lemma participation_ok_mono: "participation_ok a s \<Longrightarrow> a \<le> b \<Longrightarrow> participation_ok b s"
  unfolding participation_ok_def by (meson order_trans)

lemma participation_ok_cong:
  "participants_by s' = participants_by s \<Longrightarrow> latest_participation s' = latest_participation s \<Longrightarrow>
   participant_count s' = participant_count s \<Longrightarrow> dom (node_descriptors s) \<subseteq> dom (node_descriptors s') \<Longrightarrow>
   participation_ok a s \<Longrightarrow> participation_ok a s'"
  unfolding participation_ok_def by (auto simp: domIff subset_iff)

lemma participate_ok:
  assumes "participate c o1 q k b s = Inr s'"
    and ok: "participation_ok (candidate_qblock_id (mr_latest_qblock_id c (mr_env s))) s"
  shows "participation_ok (candidate_qblock_id (mr_latest_qblock_id c (mr_env s))) s' \<and> mr_env s' = mr_env s"
  using assms(1)
proof (rule participate_Inr)
  fix who r
  assume d: "node_descriptors s who \<noteq> None" and q: "q = candidate_qblock_id (mr_latest_qblock_id c (mr_env s))"
    and r: "pt_qblock_id r = q"
    and s': "s' = emit_mr (MinerParticipated q who k b) (s\<lparr>latest_participation := (latest_participation s)(who \<mapsto> r),
       participants_by := (participants_by s)(q := (participants_by s q)(who \<mapsto> r)),
       participant_count := (participant_count s)(q := sat_add u32_max (participant_count s q) 1)\<rparr>)"
  have p: "participants_by s' = (participants_by s)(q := (participants_by s q)(who \<mapsto> r))"
    "latest_participation s' = (latest_participation s)(who \<mapsto> r)" "node_descriptors s' = node_descriptors s"
    "participant_count s' = (participant_count s)(q := sat_add u32_max (participant_count s q) 1)" "mr_env s' = mr_env s"
    by (simp_all add: s')
  have pb: "\<And>q' x r'. participants_by s q' x = Some r' \<Longrightarrow> pt_qblock_id r' = q' \<and> 1 \<le> q' \<and> q' \<le> q"
    and lp: "\<And>x r'. latest_participation s x = Some r' \<Longrightarrow> node_descriptors s x \<noteq> None \<and>
        participants_by s (pt_qblock_id r') x = Some r' \<and> (\<forall>q'. participants_by s q' x \<noteq> None \<longrightarrow> q' \<le> pt_qblock_id r')"
    and ct: "\<And>q'. finite (dom (participants_by s q')) \<and> min (card (dom (participants_by s q'))) u32_max \<le> participant_count s q'"
    using ok unfolding participation_ok_def q [symmetric] by blast+
  have "min (card (dom ((participants_by s q)(who \<mapsto> r)))) u32_max \<le> sat_add u32_max (participant_count s q) 1"
    using ct [of q] card_insert_le_m1 by (auto simp: sat_add_def card_insert_if)
  then have 3: "finite (dom (participants_by s' q')) \<and> min (card (dom (participants_by s' q'))) u32_max \<le> participant_count s' q'" for q'
    using ct [of q'] by (cases "q' = q") (simp_all add: p)
  have 1: "pt_qblock_id r' = q' \<and> 1 \<le> q' \<and> q' \<le> q" if "participants_by s' q' x = Some r'" for q' x r'
    using that pb r candidate_ge_1 q by (auto simp: p split: if_splits)
  have 2: "node_descriptors s' x \<noteq> None \<and> participants_by s' (pt_qblock_id r') x = Some r' \<and>
      (\<forall>q'. participants_by s' q' x \<noteq> None \<longrightarrow> q' \<le> pt_qblock_id r')" if l: "latest_participation s' x = Some r'" for x r'
  proof (cases "x = who")
    case True
    with l have "r' = r" by (simp add: p)
    moreover have "q' \<le> q" if "participants_by s' q' x \<noteq> None" for q' using that 1 [of q' x] by blast
    ultimately show ?thesis using True d r by (simp add: p(1,3))
  next
    case False
    with l have "latest_participation s x = Some r'" by (simp add: p)
    moreover have "participants_by s' q' x = participants_by s q' x" for q' using False by (simp add: p)
    ultimately show ?thesis using lp [of x r'] by (simp add: p(3))
  qed
  have "participation_ok q s'" unfolding participation_ok_def
    by (intro conjI allI) (use 1 2 3 in \<open>simp_all\<close>)
  then show ?thesis using p(5) q by simp
qed

text \<open>
  \<open>QBlockIdProvider\<close>: as the chain advances the candidate never falls, and moving balances does not renumber.
\<close>

locale qblock_numbering =
  fixes latest :: "'b \<Rightarrow> u64 option" and advances :: "'b \<Rightarrow> 'b \<Rightarrow> bool" and cur :: "('a, 'b) currency_ops"
  assumes advances_candidate: "advances e e' \<Longrightarrow> candidate_qblock_id (latest e) \<le> candidate_qblock_id (latest e')"
    and reserve_latest: "reserve cur who d e = Inr e' \<Longrightarrow> latest e' = latest e"
    and unreserve_latest: "latest (snd (unreserve cur who d e)) = latest e"
begin

lemma set_descriptor_latest:
  assumes "set_descriptor c o1 i s = Inr s'" "mr_currency c = cur"
  shows "latest (mr_env s') = latest (mr_env s) \<and> participants_by s' = participants_by s \<and>
    latest_participation s' = latest_participation s \<and> participant_count s' = participant_count s \<and>
    dom (node_descriptors s) \<subseteq> dom (node_descriptors s')"
  using assms(1)
proof (rule set_descriptor_Inr)
  fix who d n h t
  assume r: "replace_descriptor c who d h s = Inr t" and s': "s' = emit_mr (DescriptorUpdated who h n) t"
  from r have "latest (mr_env t) = latest (mr_env s)"
    using unreserve_latest by (auto simp: replace_descriptor_def Let_def assms(2) split: if_splits dest: reserve_latest)
  moreover from r have "participants_by t = participants_by s \<and> latest_participation t = latest_participation s \<and>
      participant_count t = participant_count s \<and> dom (node_descriptors s) \<subseteq> dom (node_descriptors t)"
    by (auto simp: replace_descriptor_def Let_def split: if_splits)
  ultimately show ?thesis by (simp add: s')
qed

lemma clear_descriptor_ok:
  assumes "clear_descriptor c o1 s = Inr s'" "mr_currency c = cur" "participation_ok m s"
  shows "latest (mr_env s') = latest (mr_env s) \<and> participation_ok m s'"
proof -
  from assms(1) obtain who d where d: "o1 = Signed who" "node_descriptors s who = Some d"
    by (auto simp: clear_descriptor_def)
  have s': "s' = emit_mr (DescriptorCleared who)
       (s\<lparr>node_descriptors := (node_descriptors s)(who := None), mr_env := snd (unreserve cur who (nd_deposit d) (mr_env s)),
          latest_participation := (latest_participation s)(who := None)\<rparr>)"
    using assms(1) d by (simp add: clear_descriptor_def assms(2))
  show ?thesis using assms(3) unfolding s' participation_ok_def by (simp add: unreserve_latest)
qed

lemma dispatch_participation:
  assumes "registry_dispatch c o1 k s = Inr s'" "mr_currency c = cur" "mr_latest_qblock_id c = latest"
    and "participation_ok (candidate_qblock_id (latest (mr_env s))) s"
  shows "participation_ok (candidate_qblock_id (latest (mr_env s'))) s'"
proof (cases k)
  case (SetDescriptor i)
  with assms(1) have "set_descriptor c o1 i s = Inr s'" by simp
  from set_descriptor_latest [OF this assms(2)] assms(4) show ?thesis by (auto intro: participation_ok_cong)
next
  case ClearDescriptor
  with assms clear_descriptor_ok show ?thesis by fastforce
next
  case (Participate q kd b)
  with assms(1) have "participate c o1 q kd b s = Inr s'" by simp
  from participate_ok [OF this] assms(3,4) show ?thesis by simp
qed

lemma reachable_participation:
  assumes "registry_reachable c advances s" "mr_currency c = cur" "mr_latest_qblock_id c = latest"
  shows "participation_ok (candidate_qblock_id (latest (mr_env s))) s"
  using assms(1)
proof (induction rule: registry_reachable.induct)
  case (start e)
  then show ?case by (simp add: participation_ok_def empty_registry_def)
next
  case (call s o1 k s')
  then show ?case using dispatch_participation assms(2,3) by blast
next
  case (others s e n)
  have "participation_ok (candidate_qblock_id (latest e)) s"
    using participation_ok_mono others.IH advances_candidate [OF others.hyps(2)] by blast
  then show ?case by (auto intro: participation_ok_cong)
qed

end

text \<open>quantum-pow provides the numbering: its blocks, calls and hooks, and anything the other pallets do to the balances.\<close>

definition pow_moves :: "('a, 'b, 'r) pow_config \<Rightarrow> ('a, 'b) pow_state \<Rightarrow> ('a, 'b) pow_state \<Rightarrow> bool" where
  "pow_moves pc s s' \<longleftrightarrow> (\<exists>p. s' = open_block pc p s) \<or> (\<exists>oc. s' = apply_call pc oc s) \<or>
     s' = on_finalize pc (block_number s) s \<or> (\<exists>e. s' = s\<lparr>env := e\<rparr>)"

definition through_pow :: "('a, 'b) currency_ops \<Rightarrow> ('a, ('a, 'b) pow_state) currency_ops" where
  "through_pow cur =
     \<lparr>free_balance = (\<lambda>s. free_balance cur (env s)), reserved_balance = (\<lambda>s. reserved_balance cur (env s)),
      total_issuance = (\<lambda>s. total_issuance cur (env s)), minimum_balance = minimum_balance cur,
      reserve = (\<lambda>who d s. map_sum id (\<lambda>e. s\<lparr>env := e\<rparr>) (reserve cur who d (env s))),
      unreserve = (\<lambda>who d s. let (r, e) = unreserve cur who d (env s) in (r, s\<lparr>env := e\<rparr>)),
      transfer = (\<lambda>src dst d keep s. map_sum id (\<lambda>e. s\<lparr>env := e\<rparr>) (transfer cur src dst d keep (env s))),
      deposit_creating = (\<lambda>who d s. let (p, e) = deposit_creating cur who d (env s) in (p, s\<lparr>env := e\<rparr>))\<rparr>"

lemma latest_of_count: "candidate_qblock_id (latest_qblock_id s) = sat_add u64_max (qblock_count s) 1"
  by (simp add: candidate_qblock_id_def latest_qblock_id_def)

lemma apply_call_count: "qblock_count (apply_call pc oc s) = qblock_count s"
  by (rule apply_call_cases [of pc oc s]) (auto dest: dispatch_same_block)

lemma on_finalize_count:
  "qblock_count (on_finalize pc n s) = (if block_best_proof s = None then qblock_count s else sat_add u64_max (qblock_count s) 1)"
  by (cases "block_best_proof s") (simp_all add: on_finalize_None on_finalize_Some)

interpretation pow_numbering: qblock_numbering latest_qblock_id "pow_moves pc" "through_pow cur" for pc cur
proof
  fix e e' :: "('a, 'b) pow_state"
  assume "pow_moves pc e e'"
  then have "qblock_count e' = qblock_count e \<or> qblock_count e' = sat_add u64_max (qblock_count e) 1"
    by (auto simp: pow_moves_def apply_call_count on_finalize_count)
  then show "candidate_qblock_id (latest_qblock_id e) \<le> candidate_qblock_id (latest_qblock_id e')"
    by (auto simp: latest_of_count sat_add_def)
next
  fix who :: 'a and d and e e' :: "('a, 'b) pow_state"
  show "reserve (through_pow cur) who d e = Inr e' \<Longrightarrow> latest_qblock_id e' = latest_qblock_id e"
    by (cases "reserve cur who d (env e)") (auto simp: through_pow_def latest_qblock_id_def)
  show "latest_qblock_id (snd (unreserve (through_pow cur) who d e)) = latest_qblock_id e"
    by (simp add: through_pow_def latest_qblock_id_def case_prod_unfold Let_def)
qed

subsection \<open>Pagination\<close>

definition enumerates :: "('a set \<Rightarrow> 'a list) \<Rightarrow> bool" where
  "enumerates it \<longleftrightarrow> (\<forall>A. finite A \<longrightarrow> distinct (it A) \<and> set (it A) = A)"

text \<open>All participants of a qblock in ascending order, from after a cursor.\<close>

definition participants_after ::
    "u64 \<Rightarrow> 'a option \<Rightarrow> ('a :: linorder, 'b) registry_state \<Rightarrow> ('a \<times> participation_record) list" where
  "participants_after q start s =
     map (\<lambda>a. (a, the (participants_by s q a)))
       (filter (\<lambda>a. case start of Some cursor \<Rightarrow> a > cursor | None \<Rightarrow> True)
         (sorted_list_of_set (dom (participants_by s q))))"

lemma sort_key_map_fst: "sort_key fst (map (\<lambda>a. (a, f a)) xs) = map (\<lambda>a. (a, f a)) (sort (xs :: 'a :: linorder list))"
proof -
  have "insort_key fst (a, f a) (map (\<lambda>a. (a, f a)) ys) = map (\<lambda>a. (a, f a)) (insort a ys)" for a ys
    by (induction ys) auto
  then show ?thesis by (induction xs) (simp_all add: sort_key_def)
qed

lemma participants_by_qblock_take:
  assumes "enumerates (mr_iter c)" "finite (dom (participants_by s q))"
  shows "participants_by_qblock c q start limit s = take (min limit 1000) (participants_after q start s)"
proof -
  let ?it = "mr_iter c (dom (participants_by s q))" and ?P = "\<lambda>a. case start of Some cursor \<Rightarrow> a > cursor | None \<Rightarrow> True"
    and ?f = "\<lambda>a. (a, the (participants_by s q a))"
  have it: "sort ?it = sorted_list_of_set (dom (participants_by s q))"
    using assms sorted_list_of_set_sort_remdups [of ?it] by (simp add: enumerates_def distinct_remdups_id)
  have "filter (\<lambda>(a, r). ?P a) (map ?f ?it) = map ?f (filter ?P ?it)" by (simp add: filter_map comp_def)
  then have "sort_key fst (filter (\<lambda>(a, r). ?P a) (map ?f ?it)) = participants_after q start s"
    by (simp add: sort_key_map_fst participants_after_def it [symmetric] filter_sort)
  then show ?thesis by (simp add: participants_by_qblock_def Let_def)
qed

lemma sorted_filter_after:
  assumes "sorted xs" "distinct xs" "n < length xs"
  shows "filter (\<lambda>a. a > xs ! n) xs = drop (Suc n) (xs :: 'a :: linorder list)"
proof -
  have "filter (\<lambda>a. a > xs ! n) (take (Suc n) xs) = []"
    using assms by (auto simp: filter_empty_conv in_set_conv_nth not_less sorted_iff_nth_mono)
  moreover have "filter (\<lambda>a. a > xs ! n) (drop (Suc n) xs) = drop (Suc n) xs"
  proof (rule filter_True, rule ballI)
    fix x assume "x \<in> set (drop (Suc n) xs)"
    then obtain i where i: "i < length xs - Suc n" "x = xs ! (Suc n + i)" by (auto simp: in_set_conv_nth)
    then have "xs ! n \<le> x" "xs ! n \<noteq> x"
      using assms by (auto simp: sorted_iff_nth_mono nth_eq_iff_index_eq)
    then show "xs ! n < x" by simp
  qed
  ultimately show ?thesis by (metis append_Nil append_take_drop_id filter_append)
qed

lemma participants_after_page:
  assumes "n < length (participants_after q start s)"
  shows "participants_after q (Some (fst (participants_after q start s ! n))) s = drop (Suc n) (participants_after q start s)"
proof -
  let ?all = "sorted_list_of_set (dom (participants_by s q))"
  define xs where "xs = filter (\<lambda>a. case start of Some cursor \<Rightarrow> a > cursor | None \<Rightarrow> True) ?all"
  have n: "n < length xs" using assms by (simp add: participants_after_def xs_def)
  have sd: "sorted xs" "distinct xs" unfolding xs_def by (simp_all add: sorted_filter [of id, simplified])
  have "case start of Some cursor \<Rightarrow> xs ! n > cursor | None \<Rightarrow> True"
    using nth_mem [OF n] unfolding xs_def set_filter by blast
  then have "filter (\<lambda>a. a > xs ! n) ?all = filter (\<lambda>a. a > xs ! n) xs"
    unfolding xs_def filter_filter by (intro filter_cong) (auto split: option.splits)
  also have "\<dots> = drop (Suc n) xs" by (rule sorted_filter_after [OF sd n])
  finally show ?thesis using n by (simp add: participants_after_def xs_def drop_map)
qed

subsection \<open>Properties\<close>

text \<open>
  C21: in every reachable state each stored descriptor is valid, its deposit is the one for the total length of
  its variable-length fields, and the owner's reserve covers it; replacing a descriptor changes the reserve by
  exactly the difference of the deposits, and clearing it always succeeds and frees exactly the deposit.
\<close>

theorem descriptor_deposits_exact:
  assumes "registry_reachable c adv s" "reserve_laws (mr_currency c)"
  defines "reserved t who \<equiv> reserved_balance (mr_currency c) (mr_env t) who"
    and "free t who \<equiv> free_balance (mr_currency c) (mr_env t) who"
  shows "(\<forall>who d. node_descriptors s who = Some d \<longrightarrow> descriptor_valid d \<and>
      nd_deposit d = descriptor_deposit c (min (descriptor_bytes d) u32_max) \<and> nd_deposit d \<le> reserved s who \<and>
      (\<exists>s'. clear_descriptor c (Signed who) s = Inr s' \<and> node_descriptors s' who = None \<and>
         latest_participation s' who = None \<and> reserved s' who + nd_deposit d = reserved s who \<and>
         free s' who = free s who + nd_deposit d)) \<and>
    (\<forall>who i s'. set_descriptor c (Signed who) i s = Inr s' \<longrightarrow>
      (\<exists>d. node_descriptors s' who = Some d \<and> reserved s' who + held s who = reserved s who + nd_deposit d))"
proof -
  note ok = registry_reachable_deposits [OF assms(1,2)]
  have "descriptor_valid d \<and> nd_deposit d = descriptor_deposit c (min (descriptor_bytes d) u32_max) \<and>
      nd_deposit d \<le> reserved s who" if d: "node_descriptors s who = Some d" for who d
  proof -
    have "held s who \<le> reserved s who" using ok by (simp add: deposits_ok_def reserved_def)
    then show ?thesis using ok d by (simp add: deposits_ok_def held_def)
  qed
  moreover have "\<exists>s'. clear_descriptor c (Signed who) s = Inr s' \<and> node_descriptors s' who = None \<and>
      latest_participation s' who = None \<and> reserved s' who + nd_deposit d = reserved s who \<and>
      free s' who = free s who + nd_deposit d" if d: "node_descriptors s who = Some d" for who d
    using clear_descriptor_moves [OF d assms(2) ok] unfolding reserved_def free_def by auto
  moreover have "\<exists>d. node_descriptors s' who = Some d \<and> reserved s' who + held s who = reserved s who + nd_deposit d"
    if "set_descriptor c (Signed who) i s = Inr s'" for who i s'
    using set_descriptor_moves [OF that assms(2) ok] unfolding reserved_def held_def [of s'] by auto
  ultimately show ?thesis by blast
qed

text \<open>
  C22: whatever quantum-pow and the other pallets do, participation records stand under the qblock they name, between 1 and the
  current candidate; an account's latest record is the record of the highest qblock it took part in, and only accounts
  with a descriptor have one; the participant count is never below the number of accounts recorded (up to its width).
\<close>

theorem participation_recorded:
  assumes "registry_reachable c (pow_moves pc) s" "mr_currency c = through_pow cur" "mr_latest_qblock_id c = latest_qblock_id"
  shows "(\<forall>q who r. participants_by s q who = Some r \<longrightarrow>
       pt_qblock_id r = q \<and> 1 \<le> q \<and> q \<le> candidate_qblock_id (latest_qblock_id (mr_env s))) \<and>
    (\<forall>who r. latest_participation s who = Some r \<longrightarrow> node_descriptors s who \<noteq> None \<and>
       participants_by s (pt_qblock_id r) who = Some r \<and> (\<forall>q. participants_by s q who \<noteq> None \<longrightarrow> q \<le> pt_qblock_id r)) \<and>
    (\<forall>q. finite (dom (participants_by s q)) \<and>
       min (card (dom (participants_by s q))) u32_max \<le> participant_count_by_qblock q s)"
  using pow_numbering.reachable_participation [OF assms(1-3)]
  unfolding participation_ok_def participant_count_by_qblock_def by assumption

text \<open>
  a page of participants holds the first \<open>min limit 1000\<close> participants after the cursor in ascending order of accounts,
  each with its record, and a page asked for after the last account of a page continues exactly where it ended.
\<close>

theorem participant_pages_continue:
  fixes q limit :: nat and start :: "'a :: linorder option"
  assumes "registry_reachable c (pow_moves pc) s" "mr_currency c = through_pow cur" "mr_latest_qblock_id c = latest_qblock_id"
    and "enumerates (mr_iter c)"
  defines "page st \<equiv> participants_by_qblock c q st limit s" and "after st \<equiv> participants_after q st s"
  shows "page start = take (min limit 1000) (after start) \<and>
    set (after None) = {(who, r). participants_by s q who = Some r} \<and> sorted_wrt (\<lambda>x y. fst x < fst y) (after None) \<and>
    (page start \<noteq> [] \<longrightarrow>
       page (Some (fst (last (page start)))) = take (min limit 1000) (drop (length (page start)) (after start)))"
proof -
  have fin: "finite (dom (participants_by s q))"
    using pow_numbering.reachable_participation [OF assms(1-3)] by (simp add: participation_ok_def)
  have page: "page st = take (min limit 1000) (after st)" for st
    unfolding page_def after_def by (rule participants_by_qblock_take [OF assms(4) fin])
  have "set (after None) = {(who, r). participants_by s q who = Some r}"
    using fin by (auto simp: after_def participants_after_def)
  moreover have "sorted_wrt (\<lambda>x y. fst x < fst y) (after None)"
    using strict_sorted_list_of_set by (simp add: after_def participants_after_def sorted_wrt_map)
  moreover have "page (Some (fst (last (page start)))) = take (min limit 1000) (drop (length (page start)) (after start))"
    if ne: "page start \<noteq> []"
  proof -
    let ?n = "length (page start) - 1"
    have le: "length (page start) \<le> length (after start)" "length (page start) > 0" using ne by (simp_all add: page)
    then have n: "?n < length (after start)" "Suc ?n = length (page start)" by linarith+
    have "length (page start) \<le> min limit 1000" unfolding page length_take by (rule min.cobounded2)
    then have "?n < min limit 1000" using le(2) by linarith
    then have "page start ! ?n = after start ! ?n" unfolding page by (simp only: nth_take)
    then have "last (page start) = after start ! ?n" using ne by (simp add: last_conv_nth)
    note n = n this
    show ?thesis using participants_after_page [of ?n q start s] n by (simp add: page [of "Some _"] after_def)
  qed
  ultimately show ?thesis using page by blast
qed

end
