(* ===== verification/Registry_Examples.thy ===== *)
theory Registry_Examples
  imports Registry_Theorems Pow_Examples
begin

text \<open>
  Concrete runs of the miner registry over quantum-pow: a miner files a descriptor and declares participation.
  The theorems of the registry are applied to them, and one run shows that a participant can be counted twice.
\<close>

definition demo_registry :: "(nat, (nat, (nat, nat ledger) emission_state) pow_state) registry_config" where
  "demo_registry =
     \<lparr>mr_currency = through_pow (through_emission ledger_ops), mr_latest_qblock_id = latest_qblock_id, deposit_base = 10,
      deposit_per_byte = 2, mr_blake2_256 = (\<lambda>b. b), encode_input = (\<lambda>_. []), mr_iter = sorted_list_of_set\<rparr>"

definition demo_input :: node_descriptor_input where
  "demo_input = V1 \<lparr>v1_node_id = [1, 2], v1_node_name = [3], v1_public_host = None, v1_public_port = Some 30333,
     v1_rpc_endpoints = [[4, 5]], v1_auto_mine = True, v1_log_level = LogInfo,
     v1_miners = [\<lparr>ms_kind = KCpu, ms_label = Some [6], ms_backend = None, ms_device_id = None\<rparr>]\<rparr>"

definition registry_apply ::
    "('a, 'b) registry_config \<Rightarrow> 'a raw_origin \<times> registry_call \<Rightarrow> ('a, 'b) registry_state \<Rightarrow> ('a, 'b) registry_state" where
  "registry_apply c oc s = (case registry_dispatch c (fst oc) (snd oc) s of Inr s' \<Rightarrow> s' | Inl _ \<Rightarrow> s)"

definition demo_run :: "(nat raw_origin \<times> registry_call) list \<Rightarrow> (nat, (nat, (nat, nat ledger) emission_state) pow_state) registry_state" where
  "demo_run calls = fold (registry_apply demo_registry) calls (empty_registry (genesis demo_env))"

lemma registry_apply_reachable:
  "registry_reachable c adv s \<Longrightarrow> registry_reachable c adv (registry_apply c oc s)"
  by (cases "registry_dispatch c (fst oc) (snd oc) s") (auto simp: registry_apply_def intro: registry_reachable.call)

lemma demo_run_reachable: "registry_reachable demo_registry adv (demo_run calls)"
proof -
  have "registry_reachable demo_registry adv s \<Longrightarrow> registry_reachable demo_registry adv (fold (registry_apply demo_registry) calls s)" for s
    by (induction calls arbitrary: s) (auto intro: registry_apply_reachable)
  from this [OF registry_reachable.start] show ?thesis unfolding demo_run_def .
qed

lemma through_pow_simps [simp]:
  "free_balance (through_pow cur) s = free_balance cur (env s)"
  "reserved_balance (through_pow cur) s = reserved_balance cur (env s)"
  "reserve (through_pow cur) who d s = map_sum id (\<lambda>e. s\<lparr>env := e\<rparr>) (reserve cur who d (env s))"
  "unreserve (through_pow cur) who d s = map_prod id (\<lambda>e. s\<lparr>env := e\<rparr>) (unreserve cur who d (env s))"
  by (simp_all add: through_pow_def map_prod_def case_prod_unfold Let_def)

lemma through_pow_laws:
  assumes "reserve_laws cur" shows "reserve_laws (through_pow cur)"
proof -
  have r: "reserve (through_pow cur) who d s = Inr s' \<Longrightarrow> reserve cur who d (env s) = Inr (env s')" for who d s s'
    by (cases "reserve cur who d (env s)") auto
  show ?thesis using assms unfolding reserve_laws_def by (auto simp: Let_def simp del: through_pow_simps(3) dest!: r)
qed

lemma demo_registry_laws: "reserve_laws (mr_currency demo_registry)"
  unfolding demo_registry_def by (simp add: through_pow_laws through_emission_laws ledger_reserve_laws)

lemmas registry_eval = registry_apply_def demo_input_def demo_registry_def set_descriptor_def validate_and_store_v1_def
  validate_node_identity_def validate_miners_def validate_miner_def nonempty_opt_def replace_descriptor_def payload_sums
  miner_bytes_def opt_len_def descriptor_deposit_def emit_mr_def empty_registry_def genesis_def demo_env_def demo_ledger_def
  demo_emission_state_def ledger_ops_def ledger_reserve_def ledger_unreserve_def sat_add_def sat_mul_def Let_def
  participate_def clear_descriptor_def candidate_qblock_id_def latest_qblock_id_def range_simps

definition demo_filed :: "(nat raw_origin \<times> registry_call) list" where
  "demo_filed = [(Signed 1, SetDescriptor demo_input)]"

definition demo_joined :: "(nat raw_origin \<times> registry_call) list" where
  "demo_joined = [(Signed 1, SetDescriptor demo_input), (Signed 1, Participate 1 KCpu None)]"

lemma demo_filed_state:
  "\<exists>d. node_descriptors (demo_run demo_filed) 1 = Some d \<and> nd_deposit d = 22"
  by (simp add: demo_run_def demo_filed_def registry_eval)

lemma demo_joined_state:
  "dom (participants_by (demo_run demo_joined) 1) = {1}" "participant_count (demo_run demo_joined) 1 = 1"
  "latest_participation (demo_run demo_joined) 1 =
     Some \<lparr>pt_qblock_id = 1, pt_kind = KCpu, pt_budget_seconds = None, pt_updated_at = 0\<rparr>"
  by (simp_all add: demo_run_def demo_joined_def registry_eval)

theorem descriptor_deposits_exact_witness:
  "\<exists>s'. clear_descriptor demo_registry (Signed 1) (demo_run demo_filed) = Inr s' \<and>
     reserved_balance (mr_currency demo_registry) (mr_env s') 1 + 22 =
     reserved_balance (mr_currency demo_registry) (mr_env (demo_run demo_filed)) 1"
  using descriptor_deposits_exact [OF demo_run_reachable demo_registry_laws] demo_filed_state by metis

theorem participation_recorded_witness:
  "node_descriptors (demo_run demo_joined) 1 \<noteq> None \<and> 1 \<le> participant_count_by_qblock 1 (demo_run demo_joined)"
proof -
  have "mr_currency demo_registry = through_pow (through_emission ledger_ops)"
    "mr_latest_qblock_id demo_registry = latest_qblock_id" by (simp_all add: demo_registry_def)
  note p = participation_recorded [OF demo_run_reachable [where adv = "pow_moves demo_config"] this, of demo_joined]
  have "min (card (dom (participants_by (demo_run demo_joined) 1))) u32_max \<le> participant_count_by_qblock 1 (demo_run demo_joined)"
    using p by blast
  then have "1 \<le> participant_count_by_qblock 1 (demo_run demo_joined)" unfolding demo_joined_state by (simp add: u32_max_def)
  moreover have "node_descriptors (demo_run demo_joined) 1 \<noteq> None" using p demo_joined_state(3) by blast
  ultimately show ?thesis by simp
qed

theorem participant_pages_continue_witness:
  "participants_by_qblock demo_registry 1 None 5 (demo_run demo_joined) =
     take 5 (participants_after 1 None (demo_run demo_joined)) \<and>
   set (participants_after 1 None (demo_run demo_joined)) =
     {(who, r). participants_by (demo_run demo_joined) 1 who = Some r}"
proof -
  have "mr_currency demo_registry = through_pow (through_emission ledger_ops)"
    "mr_latest_qblock_id demo_registry = latest_qblock_id" "enumerates (mr_iter demo_registry)"
    by (simp_all add: demo_registry_def enumerates_def)
  from participant_pages_continue [OF demo_run_reachable [where adv = "pow_moves demo_config"] this, of 1 None 5 demo_joined]
  show ?thesis by simp
qed

text \<open>
  Clearing a descriptor forgets the latest participation, so an account that files again may declare the same
  qblock a second time: one participant is counted twice.
\<close>

definition demo_again :: "(nat raw_origin \<times> registry_call) list" where
  "demo_again = demo_joined @ [(Signed 1, ClearDescriptor)] @ demo_joined"

theorem participation_counted_twice:
  "dom (participants_by (demo_run demo_again) 1) = {1} \<and> participant_count_by_qblock 1 (demo_run demo_again) = 2"
  by (simp add: demo_run_def demo_again_def demo_joined_def registry_eval participant_count_by_qblock_def)

end
