(* ===== verification/Xqvm.thy ===== *)
theory Xqvm
  imports Frame
begin

text \<open>
  \<open>pallets/xqvm/src/lib.rs\<close>: the on-chain store of XQVM programs with its deposits, the control-flow bounds checked before
  verification, and metered execution. The virtual machine (container, decoder, verifier and interpreter) is a
  third-party crate, and the held balance belongs to the balances pallet: both are functions of the configuration.
\<close>

subsection \<open>Data of the virtual machine that the pallet matches on\<close>

datatype verifier_error =
    V_TruncatedInstruction | V_BadOpcode | V_UndefinedJumpTarget | V_NoActiveLoop | V_UnmatchedLoop | V_ReadUnsetRegister
  | V_RegisterTypeMismatch | V_StackUnderflow | V_StackOverflowRisk | V_LoopStackImbalance | V_StackDepthMismatch

datatype run_error =
    E_StackUnderflow | E_StackOverflow | E_DivisionByZero | E_StepLimitExceeded | E_BadOpcode | E_TruncatedInstruction
  | E_RegisterType | E_IncompatibleType | E_MemoryLimitExceeded | E_UnsetRegister | E_ArithmeticOverflow
  | E_IndexOutOfBounds | E_NoActiveLoop | E_UnmatchedLoop | E_LoopStackOverflow | E_BadJumpTarget | E_InvalidLabel
  | E_CallDataIndex | E_OutputIndex | E_SizeMismatch | E_VecLengthMismatch | E_InvalidShift | E_InvalidGridDimensions
  | E_InvalidIntegerK | E_SampleOutOfDomain | E_InvalidAllocation | E_TraceFailed

datatype instruction = Target | Jump1 | Jump2 | JumpI1 | JumpI2 | Range | Iter | Next | OtherInstruction nat

datatype vm_output = IntOut i64 | OtherOut

subsection \<open>Errors, events, configuration and storage\<close>

datatype xqvm_error =
    InvalidBytecode | VerifierBadInstruction | VerifierUndefinedJumpTarget | VerifierLoopImbalance | VerifierReadUnsetRegister
  | VerifierRegisterTypeMismatch | VerifierStackFault | TooManyBlocks | LoopNestingTooDeep | ProgramAlreadyExists
  | ProgramNotFound | NotProgramOwner | StepLimitTooHigh | ZeroStepLimit | TooManyOutputSlots | VmStackUnderflow
  | VmStackOverflow | VmDivisionByZero | VmStepLimitExceeded | VmMemoryLimitExceeded | VmBadBytecode | VmRegisterType
  | VmUnsetRegister | VmArithmeticOverflow | VmIndexOutOfBounds | VmLoopStructure | VmLoopStackOverflow | VmBadJump
  | VmCallDataIndex | VmOutputIndex | VmSizeMismatch | VmInvalidShift | VmInvalidGridDimensions | VmInvalidIntegerK
  | VmInvalidAllocation | VmTraceFailed | VmSampleOutOfDomain

datatype ('a, 'h) xqvm_event =
    ProgramStored 'h 'a u32 balance
  | ProgramRemoved 'h 'a balance
  | ProgramEvicted 'h 'a balance
  | ProgramExecuted 'a 'h u64 "i64 list"

text \<open>\<open>MutateHold\<close> for the pallet's own reason; \<open>release\<close> is at best effort and returns the amount released.\<close>

record ('a, 'b) hold_ops =
  balance_on_hold :: "'b \<Rightarrow> 'a \<Rightarrow> balance"
  hold :: "'a \<Rightarrow> balance \<Rightarrow> 'b \<Rightarrow> nat + 'b"
  release :: "'a \<Rightarrow> balance \<Rightarrow> 'b \<Rightarrow> nat + (balance \<times> 'b)"

text \<open>Weights have a reference time and a proof size.\<close>

type_synonym weight = "u64 \<times> u64"

definition weight_add :: "weight \<Rightarrow> weight \<Rightarrow> weight" where
  "weight_add v w = (sat_add u64_max (fst v) (fst w), sat_add u64_max (snd v) (snd w))"

definition weight_mul :: "weight \<Rightarrow> u64 \<Rightarrow> weight" where
  "weight_mul w n = (sat_mul u64_max (fst w) n, sat_mul u64_max (snd w) n)"

definition weight_le :: "weight \<Rightarrow> weight \<Rightarrow> bool" where
  "weight_le v w \<longleftrightarrow> fst v \<le> fst w \<and> snd v \<le> snd w"

record ('a, 'b, 'h, 'p) xqvm_config =
  xq_currency :: "('a, 'b) hold_ops"
  xq_deposit_base :: balance
  xq_deposit_per_byte :: balance
  max_program_size :: u32
  max_program_blocks :: u32
  max_loop_depth :: u32
  max_output_slots :: u32
  xq_max_vm_memory :: u64
  max_step_limit :: u64
  weight_per_step :: weight
  store_program_weight :: "u32 \<Rightarrow> u32 \<Rightarrow> weight"
  remove_program_weight :: "u32 \<Rightarrow> weight"
  evict_program_weight :: "u32 \<Rightarrow> weight"
  execute_weight :: "u32 \<Rightarrow> weight"
  xq_hash :: "bytes \<Rightarrow> 'h"
  xq_decode :: "bytes \<Rightarrow> 'p option"
  program_code :: "'p \<Rightarrow> bytes"
  instruction_stream :: "bytes \<Rightarrow> (unit + instruction) list"
  xq_verify :: "'p \<Rightarrow> verifier_error + unit"
  vm_run :: "u64 \<Rightarrow> u64 \<Rightarrow> u32 \<Rightarrow> i64 list \<Rightarrow> 'p \<Rightarrow> (run_error + unit) \<times> u64 \<times> vm_output list"

record ('a, 'b, 'h) xqvm_state =
  programs :: "'h \<rightharpoonup> bytes"
  program_owner :: "'h \<rightharpoonup> 'a"
  program_deposit :: "'h \<rightharpoonup> balance"
  xq_events :: "('a, 'h) xqvm_event list"
  xq_env :: 'b

type_synonym ('a, 'b, 'h) xqvm_result = "xqvm_error dispatch_error + ('a, 'b, 'h) xqvm_state \<times> weight"

definition emit_xq :: "('a, 'h) xqvm_event \<Rightarrow> ('a, 'b, 'h) xqvm_state \<Rightarrow> ('a, 'b, 'h) xqvm_state" where
  "emit_xq ev s = s\<lparr>xq_events := xq_events s @ [ev]\<rparr>"

subsection \<open>Error mapping\<close>

fun map_verifier_error :: "verifier_error \<Rightarrow> xqvm_error" where
  "map_verifier_error V_TruncatedInstruction = VerifierBadInstruction"
| "map_verifier_error V_BadOpcode = VerifierBadInstruction"
| "map_verifier_error V_UndefinedJumpTarget = VerifierUndefinedJumpTarget"
| "map_verifier_error V_NoActiveLoop = VerifierLoopImbalance"
| "map_verifier_error V_UnmatchedLoop = VerifierLoopImbalance"
| "map_verifier_error V_ReadUnsetRegister = VerifierReadUnsetRegister"
| "map_verifier_error V_RegisterTypeMismatch = VerifierRegisterTypeMismatch"
| "map_verifier_error V_StackUnderflow = VerifierStackFault"
| "map_verifier_error V_StackOverflowRisk = VerifierStackFault"
| "map_verifier_error V_LoopStackImbalance = VerifierStackFault"
| "map_verifier_error V_StackDepthMismatch = VerifierStackFault"

fun map_vm_error :: "run_error \<Rightarrow> xqvm_error" where
  "map_vm_error E_StackUnderflow = VmStackUnderflow"
| "map_vm_error E_StackOverflow = VmStackOverflow"
| "map_vm_error E_DivisionByZero = VmDivisionByZero"
| "map_vm_error E_StepLimitExceeded = VmStepLimitExceeded"
| "map_vm_error E_BadOpcode = VmBadBytecode"
| "map_vm_error E_TruncatedInstruction = VmBadBytecode"
| "map_vm_error E_RegisterType = VmRegisterType"
| "map_vm_error E_IncompatibleType = VmRegisterType"
| "map_vm_error E_MemoryLimitExceeded = VmMemoryLimitExceeded"
| "map_vm_error E_UnsetRegister = VmUnsetRegister"
| "map_vm_error E_ArithmeticOverflow = VmArithmeticOverflow"
| "map_vm_error E_IndexOutOfBounds = VmIndexOutOfBounds"
| "map_vm_error E_NoActiveLoop = VmLoopStructure"
| "map_vm_error E_UnmatchedLoop = VmLoopStructure"
| "map_vm_error E_LoopStackOverflow = VmLoopStackOverflow"
| "map_vm_error E_BadJumpTarget = VmBadJump"
| "map_vm_error E_InvalidLabel = VmBadJump"
| "map_vm_error E_CallDataIndex = VmCallDataIndex"
| "map_vm_error E_OutputIndex = VmOutputIndex"
| "map_vm_error E_SizeMismatch = VmSizeMismatch"
| "map_vm_error E_VecLengthMismatch = VmSizeMismatch"
| "map_vm_error E_InvalidShift = VmInvalidShift"
| "map_vm_error E_InvalidGridDimensions = VmInvalidGridDimensions"
| "map_vm_error E_InvalidIntegerK = VmInvalidIntegerK"
| "map_vm_error E_SampleOutOfDomain = VmSampleOutOfDomain"
| "map_vm_error E_InvalidAllocation = VmInvalidAllocation"
| "map_vm_error E_TraceFailed = VmTraceFailed"

subsection \<open>The control-flow shape\<close>

record control_flow_shape =
  blocks :: u32
  loop_depth :: u32

text \<open>The walk over the instructions; a structural fault (\<open>Inl\<close>) ends it.\<close>

fun shape_walk :: "(unit + instruction) list \<Rightarrow> u32 \<Rightarrow> bool \<Rightarrow> u32 \<Rightarrow> u32 \<Rightarrow> control_flow_shape" where
  "shape_walk [] b pending d ld = \<lparr>blocks = b, loop_depth = ld\<rparr>"
| "shape_walk (Inl e # rest) b pending d ld = \<lparr>blocks = b, loop_depth = ld\<rparr>"
| "shape_walk (Inr i # rest) b pending d ld =
     (case i of
        Target \<Rightarrow> shape_walk rest (if pending then b else sat_add u32_max b 1) False d ld
      | Jump1 \<Rightarrow> shape_walk rest (sat_add u32_max b 1) True d ld
      | Jump2 \<Rightarrow> shape_walk rest (sat_add u32_max b 1) True d ld
      | JumpI1 \<Rightarrow> shape_walk rest (sat_add u32_max b 1) True d ld
      | JumpI2 \<Rightarrow> shape_walk rest (sat_add u32_max b 1) True d ld
      | Range \<Rightarrow> (let d' = sat_add u32_max d 1 in shape_walk rest (sat_add u32_max b 1) True d' (max ld d'))
      | Iter \<Rightarrow> (let d' = sat_add u32_max d 1 in shape_walk rest (sat_add u32_max b 1) True d' (max ld d'))
      | Next \<Rightarrow> shape_walk rest (sat_add u32_max b 1) True (sat_sub d 1) ld
      | OtherInstruction _ \<Rightarrow> shape_walk rest b False d ld)"

definition shape_of :: "(unit + instruction) list \<Rightarrow> control_flow_shape" where
  "shape_of stream = shape_walk stream 1 True 0 0"

subsection \<open>Calls\<close>

definition deposit_for :: "('a, 'b, 'h, 'p) xqvm_config \<Rightarrow> u32 \<Rightarrow> balance" where
  "deposit_for c len = sat_add u128_max (xq_deposit_base c) (sat_mul u128_max (xq_deposit_per_byte c) len)"

definition store_program ::
    "('a, 'b, 'h, 'p) xqvm_config \<Rightarrow> 'a raw_origin \<Rightarrow> bytes \<Rightarrow> ('a, 'b, 'h) xqvm_state \<Rightarrow> ('a, 'b, 'h) xqvm_result" where
  "store_program c origin bytecode s =
     and_then (ensure_signed origin) (\<lambda>who.
     and_then (ok_or (xq_decode c bytecode) (Module InvalidBytecode)) (\<lambda>program.
     let shape = shape_of (instruction_stream c (program_code c program)) in
     ensure (blocks shape \<le> max_program_blocks c) (Module TooManyBlocks)
     (ensure (loop_depth shape \<le> max_loop_depth c) (Module LoopNestingTooDeep)
     (and_then (map_err (\<lambda>e. Module (map_verifier_error e)) (xq_verify c program)) (\<lambda>_.
      let h = xq_hash c bytecode in
      ensure (programs s h = None) (Module ProgramAlreadyExists)
      (let len = length bytecode; deposit = deposit_for c len in
       and_then (map_err Other (hold (xq_currency c) who deposit (xq_env s))) (\<lambda>e.
       Inr (emit_xq (ProgramStored h who len deposit)
              (s\<lparr>xq_env := e, programs := (programs s)(h \<mapsto> bytecode), program_owner := (program_owner s)(h \<mapsto> who),
                 program_deposit := (program_deposit s)(h \<mapsto> deposit)\<rparr>),
            store_program_weight c len (blocks shape)))))))))"

definition do_remove ::
    "('a, 'b, 'h, 'p) xqvm_config \<Rightarrow> 'h \<Rightarrow> 'a \<Rightarrow> ('a, 'b, 'h) xqvm_state \<Rightarrow>
     xqvm_error dispatch_error + ('a, 'b, 'h) xqvm_state \<times> u32 \<times> balance" where
  "do_remove c h owner s =
     and_then (ok_or (programs s h) (Module ProgramNotFound)) (\<lambda>bytecode.
     let len = length bytecode; recorded = (case program_deposit s h of Some d \<Rightarrow> d | None \<Rightarrow> 0) in
     and_then (map_err Other (release (xq_currency c) owner recorded (xq_env s))) (\<lambda>(released, e).
     Inr (s\<lparr>programs := (programs s)(h := None), program_deposit := (program_deposit s)(h := None), xq_env := e,
            program_owner := (program_owner s)(h := None)\<rparr>, len, released)))"

definition remove_program ::
    "('a, 'b, 'h, 'p) xqvm_config \<Rightarrow> 'a raw_origin \<Rightarrow> 'h \<Rightarrow> ('a, 'b, 'h) xqvm_state \<Rightarrow> ('a, 'b, 'h) xqvm_result" where
  "remove_program c origin h s =
     and_then (ensure_signed origin) (\<lambda>who.
     and_then (ok_or (program_owner s h) (Module ProgramNotFound)) (\<lambda>owner.
     ensure (owner = who) (Module NotProgramOwner)
     (and_then (do_remove c h owner s) (\<lambda>(s', len, deposit).
      Inr (emit_xq (ProgramRemoved h owner deposit) s', remove_program_weight c len)))))"

definition evict_program ::
    "('a, 'b, 'h, 'p) xqvm_config \<Rightarrow> 'a raw_origin \<Rightarrow> 'h \<Rightarrow> ('a, 'b, 'h) xqvm_state \<Rightarrow> ('a, 'b, 'h) xqvm_result" where
  "evict_program c origin h s =
     and_then (ensure_root origin) (\<lambda>_.
     and_then (ok_or (program_owner s h) (Module ProgramNotFound)) (\<lambda>owner.
     and_then (do_remove c h owner s) (\<lambda>(s', len, deposit).
     Inr (emit_xq (ProgramEvicted h owner deposit) s', evict_program_weight c len))))"

definition output_value :: "vm_output \<Rightarrow> i64" where
  "output_value r = (case r of IntOut v \<Rightarrow> v | OtherOut \<Rightarrow> 0)"

text \<open>\<open>None\<close> when the outputs do not fit the bound of the event, where the code panics.\<close>

definition execute ::
    "('a, 'b, 'h, 'p) xqvm_config \<Rightarrow> 'a raw_origin \<Rightarrow> 'h \<Rightarrow> i64 list \<Rightarrow> u32 \<Rightarrow> u64 \<Rightarrow> ('a, 'b, 'h) xqvm_state \<Rightarrow>
     ('a, 'b, 'h) xqvm_result option" where
  "execute c origin h calldata output_slots step_limit s =
     (case and_then (ensure_signed origin) (\<lambda>who.
           ensure (step_limit > 0) (Module ZeroStepLimit)
           (ensure (step_limit \<le> max_step_limit c) (Module StepLimitTooHigh)
           (ensure (output_slots \<le> max_output_slots c) (Module TooManyOutputSlots)
           (and_then (ok_or (programs s h) (Module ProgramNotFound)) (\<lambda>bytecode.
            and_then (ok_or (xq_decode c bytecode) (Module VmBadBytecode)) (\<lambda>program.
            Inr (who, length bytecode, program))))))) of
        Inl e \<Rightarrow> Some (Inl e)
      | Inr (who, program_len, program) \<Rightarrow>
          (case vm_run c (xq_max_vm_memory c) step_limit output_slots calldata program of
             (Inl e, _, _) \<Rightarrow> Some (Inl (Module (map_vm_error e)))
           | (Inr _, steps, outs) \<Rightarrow>
               (let outputs = map output_value outs
                in if length outputs \<le> max_output_slots c
                   then Some (Inr (emit_xq (ProgramExecuted who h steps outputs) s,
                                   weight_add (execute_weight c program_len) (weight_mul (weight_per_step c) steps)))
                   else None)))"

text \<open>The weights charged before dispatch.\<close>

definition store_program_charge :: "('a, 'b, 'h, 'p) xqvm_config \<Rightarrow> bytes \<Rightarrow> weight" where
  "store_program_charge c bytecode = store_program_weight c (length bytecode) (max_program_blocks c)"

definition remove_program_charge :: "('a, 'b, 'h, 'p) xqvm_config \<Rightarrow> weight" where
  "remove_program_charge c = remove_program_weight c (max_program_size c)"

definition evict_program_charge :: "('a, 'b, 'h, 'p) xqvm_config \<Rightarrow> weight" where
  "evict_program_charge c = evict_program_weight c (max_program_size c)"

definition execute_charge :: "('a, 'b, 'h, 'p) xqvm_config \<Rightarrow> u64 \<Rightarrow> weight" where
  "execute_charge c step_limit = weight_add (execute_weight c (max_program_size c)) (weight_mul (weight_per_step c) step_limit)"

end
