(* ===== verification/Xqvm_Theorems.thy ===== *)
theory Xqvm_Theorems
  imports Xqvm
begin

text \<open>
  What the program store guarantees: the shape check counts the verifier's basic blocks, every stored program was
  admitted and is backed by a held deposit, only its owner or root removes it, and execution is metered.
\<close>

subsection \<open>The shape check counts leaders and nesting\<close>

definition decoded_prefix :: "(unit + instruction) list \<Rightarrow> instruction list" where
  "decoded_prefix stream = map projr (takeWhile (\<lambda>x. \<not> isl x) stream)"

fun ends_block :: "instruction \<Rightarrow> bool" where
  "ends_block Target = False"
| "ends_block (OtherInstruction _) = False"
| "ends_block _ = True"

definition leaders_from :: "bool \<Rightarrow> instruction list \<Rightarrow> nat set" where
  "leaders_from p is = (if p then {0} else {}) \<union> {k. k < length is \<and> is ! k = Target} \<union> Suc ` {k. k < length is \<and> ends_block (is ! k)}"

text \<open>The set of leaders: the entry, every target, and the position after every jump and loop instruction.\<close>

definition leaders :: "instruction list \<Rightarrow> nat set" where
  "leaders is = leaders_from True is"

fun nesting :: "nat \<Rightarrow> instruction list \<Rightarrow> nat" where
  "nesting d [] = d"
| "nesting d (Range # is) = nesting (Suc d) is"
| "nesting d (Iter # is) = nesting (Suc d) is"
| "nesting d (Next # is) = nesting (d - 1) is"
| "nesting d (_ # is) = nesting d is"

fun deepest :: "nat \<Rightarrow> instruction list \<Rightarrow> nat" where
  "deepest d [] = d"
| "deepest d (i # is) = max d (deepest (nesting d [i]) is)"

lemma leaders_from_Cons:
  "leaders_from p (i # is) = (if p \<or> i = Target then {0} else {}) \<union> Suc ` leaders_from (ends_block i) is"
proof -
  have "{k. k < length (i # is) \<and> (i # is) ! k = Target} =
      (if i = Target then {0} else {}) \<union> Suc ` {k. k < length is \<and> is ! k = Target}"
    by (auto simp: image_iff less_Suc_eq_0_disj)
  moreover have "{k. k < length (i # is) \<and> ends_block ((i # is) ! k)} =
      (if ends_block i then {0} else {}) \<union> Suc ` {k. k < length is \<and> ends_block (is ! k)}"
    by (auto simp: image_iff less_Suc_eq_0_disj)
  ultimately show ?thesis unfolding leaders_from_def by (auto simp: image_Un)
qed

lemma finite_leaders_from [simp]: "finite (leaders_from p is)"
  by (simp add: leaders_from_def)

lemma card_leaders_from_Cons:
  "card (leaders_from p (i # is)) = of_bool (p \<or> i = Target) + card (leaders_from (ends_block i) is)"
proof -
  have "card ((if p \<or> i = Target then {0} else {}) \<union> Suc ` leaders_from (ends_block i) is) =
      card (if p \<or> i = Target then {0 :: nat} else {}) + card (Suc ` leaders_from (ends_block i) is)"
    by (rule card_Un_disjoint) auto
  then show ?thesis unfolding leaders_from_Cons by (simp add: card_image)
qed

lemma leaders_from_pending: "0 < card (leaders_from True is)"
  by (simp add: card_gt_0_iff leaders_from_def)

lemma card_leaders_le: "card (leaders_from p is) \<le> length is + of_bool p"
proof (induction "is" arbitrary: p)
  case (Cons i "is")
  have "of_bool (p \<or> i = Target) + card (leaders_from (ends_block i) is) \<le>
      of_bool (p \<or> i = Target) + (length is + of_bool (ends_block i))" using Cons by simp
  also have "\<dots> \<le> length (i # is) + of_bool p" by (cases i) auto
  finally show ?case by (simp add: card_leaders_from_Cons)
qed (simp add: leaders_from_def)

lemma deepest_ge: "d \<le> deepest d is"
  by (cases "is") auto

text \<open>As long as the counters do not saturate the walk adds the leaders that follow and the deepest nesting.\<close>

lemma shape_walk_counts:
  assumes "b + length (decoded_prefix st) \<le> u32_max" "d + length (decoded_prefix st) \<le> u32_max" "d \<le> ld"
  shows "shape_walk st b p d ld =
    \<lparr>blocks = b + card (leaders_from p (decoded_prefix st)) - of_bool p, loop_depth = max ld (deepest d (decoded_prefix st))\<rparr>"
  using assms
proof (induction st b p d ld rule: shape_walk.induct)
  case (3 i rest b p d ld)
  have pre: "decoded_prefix (Inr k # rest) = k # decoded_prefix rest" for k by (simp add: decoded_prefix_def)
  note len = "3.prems" [unfolded pre]
  let ?r = "decoded_prefix rest"
  have b1: "sat_add u32_max b (Suc 0) = Suc b" "sat_add u32_max d (Suc 0) = Suc d" using len by (simp_all add: sat_add_def)
  have c: "0 < card (leaders_from True ?r)" by (rule leaders_from_pending)
  have dg: "d \<le> deepest d ?r" "Suc d \<le> deepest (Suc d) ?r" by (rule deepest_ge)+
  show ?case
  proof (cases i)
    case Target
    have "shape_walk rest (if p then b else sat_add u32_max b 1) False d ld =
        \<lparr>blocks = (if p then b else Suc b) + card (leaders_from False ?r), loop_depth = max ld (deepest d ?r)\<rparr>"
      using "3.IH"(1) [OF Target] len by (simp add: b1)
    then show ?thesis using Target dg len by (simp add: pre card_leaders_from_Cons)
  next
    case Jump1
    then show ?thesis using "3.IH"(2) [OF Jump1] len c dg by (simp add: pre card_leaders_from_Cons b1)
  next
    case Jump2
    then show ?thesis using "3.IH"(3) [OF Jump2] len c dg by (simp add: pre card_leaders_from_Cons b1)
  next
    case JumpI1
    then show ?thesis using "3.IH"(4) [OF JumpI1] len c dg by (simp add: pre card_leaders_from_Cons b1)
  next
    case JumpI2
    then show ?thesis using "3.IH"(5) [OF JumpI2] len c dg by (simp add: pre card_leaders_from_Cons b1)
  next
    case Range
    then show ?thesis using "3.IH"(6) [OF Range refl] len c dg by (simp add: pre card_leaders_from_Cons b1 max_def)
  next
    case Iter
    then show ?thesis using "3.IH"(7) [OF Iter refl] len c dg by (simp add: pre card_leaders_from_Cons b1 max_def)
  next
    case Next
    then show ?thesis using "3.IH"(8) [OF Next] len c dg by (simp add: pre card_leaders_from_Cons b1 max_def)
  next
    case (OtherInstruction n)
    then show ?thesis using "3.IH"(9) [OF OtherInstruction] len dg by (simp add: pre card_leaders_from_Cons)
  qed
qed (simp_all add: decoded_prefix_def leaders_from_def max_def)

lemma deepest_is_Max: "deepest d is = Max ((\<lambda>k. nesting d (take k is)) ` {..length is})"
proof (induction "is" arbitrary: d)
  case (Cons i "is")
  have n: "nesting d (i # take k is) = nesting (nesting d [i]) (take k is)" for k by (cases i) simp_all
  have "(\<lambda>k. nesting d (take k (i # is))) ` {..length (i # is)} =
      insert d ((\<lambda>k. nesting (nesting d [i]) (take k is)) ` {..length is})"
    by (simp add: atMost_Suc_eq_insert_0 image_image n)
  then show ?case using Cons [of "nesting d [i]"] by (simp add: Max_insert)
qed simp

subsection \<open>Runs\<close>

text \<open>
  What \<open>MutateHold\<close> documents for a reason of its own: a hold adds the amount, a release at best effort of an
  amount that is on hold returns all of it, and no other account's hold changes.
\<close>

definition hold_laws :: "('a, 'b) hold_ops \<Rightarrow> bool" where
  "hold_laws cur \<longleftrightarrow>
     (\<forall>who d b b'. hold cur who d b = Inr b' \<longrightarrow>
        (\<forall>x. balance_on_hold cur b' x = balance_on_hold cur b x + (if x = who then d else 0))) \<and>
     (\<forall>who d b. d \<le> balance_on_hold cur b who \<longrightarrow>
        (\<exists>b'. release cur who d b = Inr (d, b') \<and>
           (\<forall>x. balance_on_hold cur b' x = balance_on_hold cur b x - (if x = who then d else 0))))"

datatype 'h xqvm_call = StoreProgram bytes | RemoveProgram 'h | EvictProgram 'h | Execute 'h "i64 list" u32 u64

fun xqvm_dispatch ::
    "('a, 'b, 'h, 'p) xqvm_config \<Rightarrow> 'a raw_origin \<Rightarrow> 'h xqvm_call \<Rightarrow> ('a, 'b, 'h) xqvm_state \<Rightarrow> ('a, 'b, 'h) xqvm_result option" where
  "xqvm_dispatch c origin (StoreProgram b) s = Some (store_program c origin b s)"
| "xqvm_dispatch c origin (RemoveProgram h) s = Some (remove_program c origin h s)"
| "xqvm_dispatch c origin (EvictProgram h) s = Some (evict_program c origin h s)"
| "xqvm_dispatch c origin (Execute h cd n lim) s = execute c origin h cd n lim s"

fun xqvm_charge :: "('a, 'b, 'h, 'p) xqvm_config \<Rightarrow> 'h xqvm_call \<Rightarrow> weight" where
  "xqvm_charge c (StoreProgram b) = store_program_charge c b"
| "xqvm_charge c (RemoveProgram h) = remove_program_charge c"
| "xqvm_charge c (EvictProgram h) = evict_program_charge c"
| "xqvm_charge c (Execute h cd n lim) = execute_charge c lim"

text \<open>The bytecode argument is a vector bounded by the configuration.\<close>

fun xqvm_call_typed :: "('a, 'b, 'h, 'p) xqvm_config \<Rightarrow> 'h xqvm_call \<Rightarrow> bool" where
  "xqvm_call_typed c (StoreProgram b) \<longleftrightarrow> length b \<le> max_program_size c"
| "xqvm_call_typed c _ \<longleftrightarrow> True"

inductive xqvm_reachable :: "('a, 'b, 'h, 'p) xqvm_config \<Rightarrow> ('a, 'b, 'h) xqvm_state \<Rightarrow> bool" for c where
  start: "(\<And>who. balance_on_hold (xq_currency c) e who = 0) \<Longrightarrow>
    xqvm_reachable c \<lparr>programs = Map.empty, program_owner = Map.empty, program_deposit = Map.empty, xq_events = [], xq_env = e\<rparr>"
| call: "xqvm_reachable c s \<Longrightarrow> xqvm_call_typed c k \<Longrightarrow> xqvm_dispatch c o1 k s = Some (Inr (s', w)) \<Longrightarrow> xqvm_reachable c s'"
| others: "xqvm_reachable c s \<Longrightarrow> (\<And>who. balance_on_hold (xq_currency c) e who = balance_on_hold (xq_currency c) (xq_env s) who) \<Longrightarrow>
    xqvm_reachable c (s\<lparr>xq_env := e\<rparr>)"

definition admissible :: "('a, 'b, 'h, 'p) xqvm_config \<Rightarrow> bytes \<Rightarrow> bool" where
  "admissible c b \<longleftrightarrow> length b \<le> max_program_size c \<and>
     (\<exists>p. xq_decode c b = Some p \<and> xq_verify c p = Inr () \<and>
        blocks (shape_of (instruction_stream c (program_code c p))) \<le> max_program_blocks c \<and>
        loop_depth (shape_of (instruction_stream c (program_code c p))) \<le> max_loop_depth c)"

definition owned :: "('a, 'b, 'h) xqvm_state \<Rightarrow> 'a \<Rightarrow> 'h set" where
  "owned s who = {h. program_owner s h = Some who}"

definition xqvm_inv :: "('a, 'b, 'h, 'p) xqvm_config \<Rightarrow> ('a, 'b, 'h) xqvm_state \<Rightarrow> bool" where
  "xqvm_inv c s \<longleftrightarrow>
     finite (dom (programs s)) \<and> dom (program_owner s) = dom (programs s) \<and>
     (\<forall>h b. programs s h = Some b \<longrightarrow> h = xq_hash c b \<and> admissible c b \<and> program_deposit s h = Some (deposit_for c (length b))) \<and>
     (\<forall>who. balance_on_hold (xq_currency c) (xq_env s) who = (\<Sum>h \<in> owned s who. the (program_deposit s h)))"

lemma owned_finite: "xqvm_inv c s \<Longrightarrow> finite (owned s who)"
proof -
  assume "xqvm_inv c s"
  then have "finite (dom (program_owner s))" unfolding xqvm_inv_def by simp
  moreover have "owned s who \<subseteq> dom (program_owner s)" by (auto simp: owned_def)
  ultimately show ?thesis by (rule finite_subset [rotated])
qed

lemma owner_iff: "xqvm_inv c s \<Longrightarrow> program_owner s h = None \<longleftrightarrow> programs s h = None"
  unfolding xqvm_inv_def by (metis domIff)

lemma emit_xq_fields [simp]:
  "programs (emit_xq ev s) = programs s" "program_owner (emit_xq ev s) = program_owner s"
  "program_deposit (emit_xq ev s) = program_deposit s" "xq_env (emit_xq ev s) = xq_env s" "owned (emit_xq ev s) = owned s"
  by (simp_all add: emit_xq_def owned_def fun_eq_iff)

lemma xqvm_inv_emit [simp]: "xqvm_inv c (emit_xq ev s) = xqvm_inv c s"
  by (simp add: xqvm_inv_def)

lemma store_program_Inr:
  assumes "store_program c o1 b s = Inr (s', w)"
  obtains who p e where "o1 = Signed who" "xq_decode c b = Some p" "xq_verify c p = Inr ()"
    "blocks (shape_of (instruction_stream c (program_code c p))) \<le> max_program_blocks c"
    "loop_depth (shape_of (instruction_stream c (program_code c p))) \<le> max_loop_depth c"
    "programs s (xq_hash c b) = None" "hold (xq_currency c) who (deposit_for c (length b)) (xq_env s) = Inr e"
    "s' = emit_xq (ProgramStored (xq_hash c b) who (length b) (deposit_for c (length b)))
        (s\<lparr>xq_env := e, programs := (programs s)(xq_hash c b \<mapsto> b), program_owner := (program_owner s)(xq_hash c b \<mapsto> who),
           program_deposit := (program_deposit s)(xq_hash c b \<mapsto> deposit_for c (length b))\<rparr>)"
    "w = store_program_weight c (length b) (blocks (shape_of (instruction_stream c (program_code c p))))"
  using assms by (auto simp: store_program_def Let_def)

lemma store_program_inv:
  assumes "store_program c o1 b s = Inr (s', w)" "length b \<le> max_program_size c" "hold_laws (xq_currency c)" "xqvm_inv c s"
  shows "xqvm_inv c s'"
  using assms(1)
proof (rule store_program_Inr)
  fix who p e
  assume ok: "xq_decode c b = Some p" "xq_verify c p = Inr ()"
    "blocks (shape_of (instruction_stream c (program_code c p))) \<le> max_program_blocks c"
    "loop_depth (shape_of (instruction_stream c (program_code c p))) \<le> max_loop_depth c"
    and new: "programs s (xq_hash c b) = None" and h: "hold (xq_currency c) who (deposit_for c (length b)) (xq_env s) = Inr e"
    and s': "s' = emit_xq (ProgramStored (xq_hash c b) who (length b) (deposit_for c (length b)))
        (s\<lparr>xq_env := e, programs := (programs s)(xq_hash c b \<mapsto> b), program_owner := (program_owner s)(xq_hash c b \<mapsto> who),
           program_deposit := (program_deposit s)(xq_hash c b \<mapsto> deposit_for c (length b))\<rparr>)"
  let ?k = "xq_hash c b" and ?d = "deposit_for c (length b)"
  have adm: "admissible c b" using ok assms(2) by (auto simp: admissible_def)
  have none: "program_owner s ?k = None" using owner_iff [OF assms(4)] new by blast
  have held: "balance_on_hold (xq_currency c) e x = balance_on_hold (xq_currency c) (xq_env s) x + (if x = who then ?d else 0)" for x
    using assms(3) h by (simp add: hold_laws_def)
  have own: "owned s' x = (if x = who then insert ?k (owned s x) else owned s x)" for x
    using none by (auto simp: owned_def s')
  have notin: "?k \<notin> owned s x" for x using none by (simp add: owned_def)
  have deps: "(\<Sum>h \<in> owned s x. the (program_deposit s' h)) = (\<Sum>h \<in> owned s x. the (program_deposit s h))" for x
    by (rule sum.cong) (use notin in \<open>auto simp: s'\<close>)
  have "balance_on_hold (xq_currency c) (xq_env s') x = (\<Sum>h \<in> owned s' x. the (program_deposit s' h))" for x
  proof -
    have "balance_on_hold (xq_currency c) (xq_env s) x = (\<Sum>h \<in> owned s x. the (program_deposit s h))"
      using assms(4) by (simp add: xqvm_inv_def)
    moreover have "the (program_deposit s' ?k) = ?d" "xq_env s' = e" by (simp_all add: s')
    ultimately show ?thesis
      using held [of x] own [of x] deps [of x] owned_finite [OF assms(4)] notin by (cases "x = who") simp_all
  qed
  moreover have "finite (dom (programs s'))" "dom (program_owner s') = dom (programs s')"
    using assms(4) by (simp_all add: xqvm_inv_def s')
  moreover have "h = xq_hash c x \<and> admissible c x \<and> program_deposit s' h = Some (deposit_for c (length x))"
    if "programs s' h = Some x" for h x
    using that assms(4) adm by (cases "h = ?k") (simp_all add: xqvm_inv_def s')
  ultimately show ?thesis unfolding xqvm_inv_def by blast
qed

text \<open>Removal of a stored program: it succeeds, and releases exactly the deposit of the program.\<close>

lemma do_remove_ok:
  assumes "program_owner s h = Some owner" "hold_laws (xq_currency c)" "xqvm_inv c s"
  obtains b e where "programs s h = Some b"
    "do_remove c h owner s = Inr (s\<lparr>programs := (programs s)(h := None), program_deposit := (program_deposit s)(h := None),
       xq_env := e, program_owner := (program_owner s)(h := None)\<rparr>, length b, deposit_for c (length b))"
    "deposit_for c (length b) \<le> balance_on_hold (xq_currency c) (xq_env s) owner"
    "\<And>x. balance_on_hold (xq_currency c) e x =
       balance_on_hold (xq_currency c) (xq_env s) x - (if x = owner then deposit_for c (length b) else 0)"
proof -
  from assms(1,3) obtain b where b: "programs s h = Some b" by (metis owner_iff not_None_eq)
  have d: "program_deposit s h = Some (deposit_for c (length b))" using assms(3) b by (simp add: xqvm_inv_def)
  have "the (program_deposit s h) \<le> (\<Sum>k \<in> owned s owner. the (program_deposit s k))"
    by (rule member_le_sum) (use assms(1) owned_finite [OF assms(3)] in \<open>simp_all add: owned_def\<close>)
  then have le: "deposit_for c (length b) \<le> balance_on_hold (xq_currency c) (xq_env s) owner"
    using assms(3) d by (simp add: xqvm_inv_def)
  from assms(2) le obtain e where e: "release (xq_currency c) owner (deposit_for c (length b)) (xq_env s) = Inr (deposit_for c (length b), e)"
    "\<And>x. balance_on_hold (xq_currency c) e x =
       balance_on_hold (xq_currency c) (xq_env s) x - (if x = owner then deposit_for c (length b) else 0)"
    unfolding hold_laws_def by blast
  show thesis by (rule that [OF b _ le e(2)]) (simp add: do_remove_def b d e(1))
qed

lemma do_remove_inv:
  assumes "program_owner s h = Some owner" "do_remove c h owner s = Inr (s', n, d)" "hold_laws (xq_currency c)" "xqvm_inv c s"
  shows "xqvm_inv c s' \<and> programs s' = (programs s)(h := None) \<and> program_owner s' = (program_owner s)(h := None) \<and>
    balance_on_hold (xq_currency c) (xq_env s') owner + d = balance_on_hold (xq_currency c) (xq_env s) owner \<and>
    (\<exists>b. programs s h = Some b \<and> n = length b \<and> d = deposit_for c (length b))"
proof (rule do_remove_ok [OF assms(1,3,4)])
  fix b e
  assume b: "programs s h = Some b"
    and r: "do_remove c h owner s = Inr (s\<lparr>programs := (programs s)(h := None), program_deposit := (program_deposit s)(h := None),
       xq_env := e, program_owner := (program_owner s)(h := None)\<rparr>, length b, deposit_for c (length b))"
    and le: "deposit_for c (length b) \<le> balance_on_hold (xq_currency c) (xq_env s) owner"
    and e: "\<And>x. balance_on_hold (xq_currency c) e x =
       balance_on_hold (xq_currency c) (xq_env s) x - (if x = owner then deposit_for c (length b) else 0)"
  from r assms(2) have s': "s' = s\<lparr>programs := (programs s)(h := None), program_deposit := (program_deposit s)(h := None),
       xq_env := e, program_owner := (program_owner s)(h := None)\<rparr>" "n = length b" "d = deposit_for c (length b)"
    by simp_all
  have dep: "program_deposit s h = Some d" using assms(4) b by (simp add: xqvm_inv_def s'(3))
  have own: "owned s' x = owned s x - {h}" for x by (auto simp: owned_def s'(1))
  have sums: "(\<Sum>k \<in> owned s x - {h}. the (program_deposit s' k)) = (\<Sum>k \<in> owned s x - {h}. the (program_deposit s k))" for x
    by (rule sum.cong) (auto simp: s'(1))
  have "balance_on_hold (xq_currency c) (xq_env s') x = (\<Sum>k \<in> owned s' x. the (program_deposit s' k))" for x
  proof -
    have all: "balance_on_hold (xq_currency c) (xq_env s) x = (\<Sum>k \<in> owned s x. the (program_deposit s k))"
      using assms(4) by (simp add: xqvm_inv_def)
    show ?thesis
    proof (cases "x = owner")
      case True
      then have "h \<in> owned s x" using assms(1) by (simp add: owned_def)
      from sum.remove [OF owned_finite [OF assms(4)] this, of "\<lambda>k. the (program_deposit s k)"]
      show ?thesis using all e [of x] True dep sums own by (simp add: s'(1) s'(3) [symmetric])
    next
      case False
      then have "h \<notin> owned s x" using assms(1) by (simp add: owned_def)
      then show ?thesis using all e [of x] False sums [of x] own by (simp add: s'(1))
    qed
  qed
  moreover have "finite (dom (programs s'))" "dom (program_owner s') = dom (programs s')"
    using assms(4) by (simp_all add: xqvm_inv_def s'(1))
  moreover have "k = xq_hash c x \<and> admissible c x \<and> program_deposit s' k = Some (deposit_for c (length x))"
    if "programs s' k = Some x" for k x
    using that assms(4) by (cases "k = h") (simp_all add: xqvm_inv_def s'(1))
  ultimately have "xqvm_inv c s'" unfolding xqvm_inv_def by blast
  then show ?thesis using e [of owner] le b by (simp add: s')
qed

lemma remove_program_Inr:
  assumes "remove_program c o1 h s = Inr (s', w)"
  obtains owner t n d where "o1 = Signed owner" "program_owner s h = Some owner" "do_remove c h owner s = Inr (t, n, d)"
    "s' = emit_xq (ProgramRemoved h owner d) t" "w = remove_program_weight c n"
  using assms by (auto simp: remove_program_def split: prod.splits)

lemma evict_program_Inr:
  assumes "evict_program c o1 h s = Inr (s', w)"
  obtains owner t n d where "o1 = Root" "program_owner s h = Some owner" "do_remove c h owner s = Inr (t, n, d)"
    "s' = emit_xq (ProgramEvicted h owner d) t" "w = evict_program_weight c n"
  using assms by (auto simp: evict_program_def split: prod.splits)

lemma execute_Inr:
  assumes "execute c o1 h cd n lim s = Some (Inr (s', w))"
  obtains who b p steps outs where "o1 = Signed who" "0 < lim" "lim \<le> max_step_limit c" "programs s h = Some b" "xq_decode c b = Some p"
    "vm_run c (xq_max_vm_memory c) lim n cd p = (Inr (), steps, outs)"
    "s' = emit_xq (ProgramExecuted who h steps (map output_value outs)) s"
    "w = weight_add (execute_weight c (length b)) (weight_mul (weight_per_step c) steps)"
  using assms by (auto simp: execute_def Let_def split: sum.splits prod.splits if_splits)

lemma xqvm_dispatch_inv:
  assumes "xqvm_dispatch c o1 k s = Some (Inr (s', w))" "xqvm_call_typed c k" "hold_laws (xq_currency c)" "xqvm_inv c s"
  shows "xqvm_inv c s'"
proof (cases k)
  case (StoreProgram b)
  with assms show ?thesis using store_program_inv by simp
next
  case (RemoveProgram h)
  with assms(1) have "remove_program c o1 h s = Inr (s', w)" by simp
  then show ?thesis by (rule remove_program_Inr) (use do_remove_inv assms(3,4) in fastforce)
next
  case (EvictProgram h)
  with assms(1) have "evict_program c o1 h s = Inr (s', w)" by simp
  then show ?thesis by (rule evict_program_Inr) (use do_remove_inv assms(3,4) in fastforce)
next
  case (Execute h cd n lim)
  with assms(1) have "execute c o1 h cd n lim s = Some (Inr (s', w))" by simp
  then show ?thesis by (rule execute_Inr) (use assms(4) in simp)
qed

lemma xqvm_reachable_inv:
  assumes "xqvm_reachable c s" "hold_laws (xq_currency c)" shows "xqvm_inv c s"
  using assms(1)
proof (induction rule: xqvm_reachable.induct)
  case (start e)
  then show ?case by (simp add: xqvm_inv_def owned_def)
next
  case (call s k o1 s' w)
  then show ?case using xqvm_dispatch_inv assms(2) by blast
next
  case (others s e)
  then show ?case by (simp add: xqvm_inv_def owned_def)
qed

subsection \<open>Metering\<close>

text \<open>
  What the machine documents: it stops within the step limit and has the number of output slots it was given. The
  benchmarked weights grow with the length of the program and its blocks.
\<close>

definition run_laws :: "('a, 'b, 'h, 'p) xqvm_config \<Rightarrow> bool" where
  "run_laws c \<longleftrightarrow> (\<forall>mem lim n cd p r st outs. vm_run c mem lim n cd p = (r, st, outs) \<longrightarrow> st \<le> lim \<and> length outs = n)"

definition weights_monotone :: "('a, 'b, 'h, 'p) xqvm_config \<Rightarrow> bool" where
  "weights_monotone c \<longleftrightarrow>
     (\<forall>n x y. x \<le> y \<longrightarrow> weight_le (store_program_weight c n x) (store_program_weight c n y)) \<and>
     (\<forall>x y. x \<le> y \<longrightarrow> weight_le (remove_program_weight c x) (remove_program_weight c y) \<and>
        weight_le (evict_program_weight c x) (evict_program_weight c y) \<and> weight_le (execute_weight c x) (execute_weight c y))"

lemma weight_add_mono: "weight_le v v' \<Longrightarrow> weight_le w w' \<Longrightarrow> weight_le (weight_add v w) (weight_add v' w')"
  by (auto simp: weight_le_def weight_add_def sat_add_def)

lemma weight_mul_mono: "m \<le> n \<Longrightarrow> weight_le (weight_mul w m) (weight_mul w n)"
  by (auto simp: weight_le_def weight_mul_def sat_mul_def intro: min.coboundedI1 mult_le_mono2)

lemma stored_len: "xqvm_inv c s \<Longrightarrow> programs s h = Some b \<Longrightarrow> length b \<le> max_program_size c"
  by (simp add: xqvm_inv_def admissible_def)

lemma removed_weight:
  assumes "program_owner s h = Some owner" "do_remove c h owner s = Inr (t, n, d)" "hold_laws (xq_currency c)" "xqvm_inv c s"
  shows "n \<le> max_program_size c"
  using do_remove_inv [OF assms] stored_len [OF assms(4)] by blast

lemma execute_no_panic:
  assumes "run_laws c" shows "execute c o1 h cd n lim s \<noteq> None"
proof
  assume "execute c o1 h cd n lim s = None"
  then obtain p st outs where "vm_run c (xq_max_vm_memory c) lim n cd p = (Inr (), st, outs)" "n \<le> max_output_slots c"
    "\<not> length (map output_value outs) \<le> max_output_slots c"
    by (auto simp: execute_def Let_def split: sum.splits prod.splits if_splits)
  then show False using assms unfolding run_laws_def by fastforce
qed

subsection \<open>Properties\<close>

text \<open>
  for every instruction stream of fewer than 2^32 - 1 instructions the shape check counts exactly the basic-block
  leaders as a set (the entry, every target, and the position after every jump or loop instruction, up to the
  first structural fault) and the deepest nesting of open loops.
\<close>

theorem shape_counts_leaders:
  assumes "length (decoded_prefix stream) < u32_max"
  shows "blocks (shape_of stream) = card (leaders (decoded_prefix stream)) \<and>
    loop_depth (shape_of stream) =
      Max ((\<lambda>k. nesting 0 (take k (decoded_prefix stream))) ` {..length (decoded_prefix stream)})"
proof -
  have "shape_of stream = \<lparr>blocks = 1 + card (leaders_from True (decoded_prefix stream)) - of_bool True,
      loop_depth = max 0 (deepest 0 (decoded_prefix stream))\<rparr>"
    unfolding shape_of_def by (rule shape_walk_counts) (use assms in simp_all)
  then show ?thesis by (simp add: leaders_def deepest_is_Max)
qed

text \<open>
  C23: in every reachable state each stored program is addressed by the hash of its bytes, decodes, passed the verifier within the
  block and nesting bounds, and has an owner; the hold of an account is exactly the sum of the deposits of the
  programs it owns, each the deposit for the length of its bytes.
\<close>

theorem stored_programs_backed:
  assumes "xqvm_reachable c s" "hold_laws (xq_currency c)"
  shows "(\<forall>h b. programs s h = Some b \<longrightarrow> h = xq_hash c b \<and> admissible c b \<and> program_owner s h \<noteq> None \<and>
      program_deposit s h = Some (deposit_for c (length b))) \<and>
    (\<forall>who. balance_on_hold (xq_currency c) (xq_env s) who =
      (\<Sum>h \<in> {h. program_owner s h = Some who}. deposit_for c (length (the (programs s h)))))"
proof -
  note inv = xqvm_reachable_inv [OF assms]
  have prog: "h = xq_hash c b \<and> admissible c b \<and> program_owner s h \<noteq> None \<and> program_deposit s h = Some (deposit_for c (length b))"
    if "programs s h = Some b" for h b
    using that inv owner_iff [OF inv, of h] by (simp add: xqvm_inv_def)
  have "balance_on_hold (xq_currency c) (xq_env s) who = (\<Sum>h \<in> owned s who. the (program_deposit s h))" for who
    using inv by (simp add: xqvm_inv_def)
  also have "\<dots> who = (\<Sum>h \<in> owned s who. deposit_for c (length (the (programs s h))))" for who
  proof (rule sum.cong)
    fix h assume "h \<in> owned s who"
    then obtain b where "programs s h = Some b" using owner_iff [OF inv, of h] by (auto simp: owned_def)
    then show "the (program_deposit s h) = deposit_for c (length (the (programs s h)))" using prog by simp
  qed simp
  finally show ?thesis using prog unfolding owned_def by blast
qed

text \<open>
  C36: a stored program leaves the store only by the call of its owner or of root that names it, which releases exactly its
  deposit to the owner; the owner's removal always succeeds, another account's is refused.
\<close>

theorem programs_removed_by_owner_or_root:
  assumes "xqvm_reachable c s" "hold_laws (xq_currency c)" "programs s h = Some b" "program_owner s h = Some owner"
  shows "(\<forall>o1 k s' w. xqvm_dispatch c o1 k s = Some (Inr (s', w)) \<longrightarrow>
      programs s' h = Some b \<and> program_owner s' h = Some owner \<or>
      (k = RemoveProgram h \<and> o1 = Signed owner \<or> k = EvictProgram h \<and> o1 = Root) \<and> programs s' h = None \<and>
      balance_on_hold (xq_currency c) (xq_env s') owner + deposit_for c (length b) = balance_on_hold (xq_currency c) (xq_env s) owner) \<and>
    (\<exists>s' w. remove_program c (Signed owner) h s = Inr (s', w)) \<and>
    (\<forall>who. who \<noteq> owner \<longrightarrow> remove_program c (Signed who) h s = Inl (Module NotProgramOwner))"
proof -
  note inv = xqvm_reachable_inv [OF assms(1,2)]
  have own: "x = owner" if "program_owner s h = Some x" for x using that assms(4) by simp
  have gone: "(if x = h then programs t h = None \<and> balance_on_hold (xq_currency c) (xq_env t) owner + deposit_for c (length b) =
        balance_on_hold (xq_currency c) (xq_env s) owner else programs t h = Some b \<and> program_owner t h = Some owner)"
    if "program_owner s x = Some x'" "do_remove c x x' s = Inr (t, n, e)" for x x' t n e
  proof -
    note m = do_remove_inv [OF that assms(2) inv]
    show ?thesis using m assms(3,4) own that(1) by (cases "x = h") auto
  qed
  have "programs s' h = Some b \<and> program_owner s' h = Some owner \<or>
      (k = RemoveProgram h \<and> o1 = Signed owner \<or> k = EvictProgram h \<and> o1 = Root) \<and> programs s' h = None \<and>
      balance_on_hold (xq_currency c) (xq_env s') owner + deposit_for c (length b) = balance_on_hold (xq_currency c) (xq_env s) owner"
    if d: "xqvm_dispatch c o1 k s = Some (Inr (s', w))" for o1 k s' w
  proof (cases k)
    case (StoreProgram x)
    with d have "store_program c o1 x s = Inr (s', w)" by simp
    then show ?thesis by (rule store_program_Inr) (use assms(3,4) in auto)
  next
    case (RemoveProgram x)
    with d have "remove_program c o1 x s = Inr (s', w)" by simp
    then show ?thesis
    proof (rule remove_program_Inr)
      fix x' t n e
      assume r: "o1 = Signed x'" "program_owner s x = Some x'" "do_remove c x x' s = Inr (t, n, e)" "s' = emit_xq (ProgramRemoved x x' e) t"
      from gone [OF r(2,3)] r(1,2,4) RemoveProgram own show ?thesis by (cases "x = h") simp_all
    qed
  next
    case (EvictProgram x)
    with d have "evict_program c o1 x s = Inr (s', w)" by simp
    then show ?thesis
    proof (rule evict_program_Inr)
      fix x' t n e
      assume r: "o1 = Root" "program_owner s x = Some x'" "do_remove c x x' s = Inr (t, n, e)" "s' = emit_xq (ProgramEvicted x x' e) t"
      from gone [OF r(2,3)] r(1,2,4) EvictProgram own show ?thesis by (cases "x = h") simp_all
    qed
  next
    case (Execute x cd n lim)
    with d have "execute c o1 x cd n lim s = Some (Inr (s', w))" by simp
    then show ?thesis by (rule execute_Inr) (use assms(3,4) in simp)
  qed
  moreover have "\<exists>s' w. remove_program c (Signed owner) h s = Inr (s', w)"
    by (rule do_remove_ok [OF assms(4,2) inv]) (simp add: remove_program_def assms(4))
  moreover have "remove_program c (Signed who) h s = Inl (Module NotProgramOwner)" if "who \<noteq> owner" for who
    using that by (simp add: remove_program_def assms(4))
  ultimately show ?thesis by blast
qed

text \<open>
  no call panics, and the weight a successful call is finally charged never exceeds what was charged before
  dispatch; an execution uses at most the requested steps, which are positive and within the configured limit, runs a stored
  program, and changes nothing but the events.
\<close>

theorem calls_metered:
  assumes "xqvm_reachable c s" "hold_laws (xq_currency c)" "run_laws c" "weights_monotone c" "xqvm_call_typed c k"
  shows "xqvm_dispatch c o1 k s \<noteq> None \<and>
    (\<forall>s' w. xqvm_dispatch c o1 k s = Some (Inr (s', w)) \<longrightarrow> weight_le w (xqvm_charge c k)) \<and>
    (\<forall>h cd n lim s' w. k = Execute h cd n lim \<and> xqvm_dispatch c o1 k s = Some (Inr (s', w)) \<longrightarrow>
      (\<exists>who steps outputs. s' = emit_xq (ProgramExecuted who h steps outputs) s \<and> steps \<le> lim \<and> 0 < lim \<and>
         lim \<le> max_step_limit c \<and> length outputs = n \<and> programs s h \<noteq> None))"
proof -
  note inv = xqvm_reachable_inv [OF assms(1,2)]
  have "xqvm_dispatch c o1 k s \<noteq> None" using execute_no_panic [OF assms(3)] by (cases k) simp_all
  moreover have "weight_le w (xqvm_charge c k)" if d: "xqvm_dispatch c o1 k s = Some (Inr (s', w))" for s' w
  proof (cases k)
    case (StoreProgram b)
    with d have "store_program c o1 b s = Inr (s', w)" by simp
    then show ?thesis
      by (rule store_program_Inr) (use assms(4) StoreProgram in \<open>simp add: weights_monotone_def store_program_charge_def\<close>)
  next
    case (RemoveProgram h)
    with d have "remove_program c o1 h s = Inr (s', w)" by simp
    then show ?thesis by (rule remove_program_Inr)
      (use assms(4) removed_weight [OF _ _ assms(2) inv] RemoveProgram in \<open>simp add: weights_monotone_def remove_program_charge_def\<close>)
  next
    case (EvictProgram h)
    with d have "evict_program c o1 h s = Inr (s', w)" by simp
    then show ?thesis by (rule evict_program_Inr)
      (use assms(4) removed_weight [OF _ _ assms(2) inv] EvictProgram in \<open>simp add: weights_monotone_def evict_program_charge_def\<close>)
  next
    case (Execute h cd n lim)
    with d have "execute c o1 h cd n lim s = Some (Inr (s', w))" by simp
    then show ?thesis
    proof (rule execute_Inr)
      fix b p steps outs
      assume "programs s h = Some b" and v: "vm_run c (xq_max_vm_memory c) lim n cd p = (Inr (), steps, outs)"
        and w: "w = weight_add (execute_weight c (length b)) (weight_mul (weight_per_step c) steps)"
      then have "length b \<le> max_program_size c" "steps \<le> lim" using stored_len [OF inv] assms(3) by (auto simp: run_laws_def)
      then have "weight_le (execute_weight c (length b)) (execute_weight c (max_program_size c))"
        "weight_le (weight_mul (weight_per_step c) steps) (weight_mul (weight_per_step c) lim)"
        using assms(4) by (simp_all add: weights_monotone_def weight_mul_mono)
      then show ?thesis using Execute by (simp add: w execute_charge_def weight_add_mono)
    qed
  qed
  moreover have "\<exists>who steps outputs. s' = emit_xq (ProgramExecuted who h steps outputs) s \<and> steps \<le> lim \<and> 0 < lim \<and>
         lim \<le> max_step_limit c \<and> length outputs = n \<and> programs s h \<noteq> None"
    if "k = Execute h cd n lim" "xqvm_dispatch c o1 k s = Some (Inr (s', w))" for h cd n lim s' w
  proof -
    from that have "execute c o1 h cd n lim s = Some (Inr (s', w))" by simp
    then show ?thesis
    proof (rule execute_Inr)
      fix who b p steps outs
      assume v: "vm_run c (xq_max_vm_memory c) lim n cd p = (Inr (), steps, outs)" and l: "0 < lim" "lim \<le> max_step_limit c"
        and b: "programs s h = Some b" and s': "s' = emit_xq (ProgramExecuted who h steps (map output_value outs)) s"
      from v assms(3) have "steps \<le> lim" "length (map output_value outs) = n" by (simp_all add: run_laws_def)
      then show ?thesis using s' l b by blast
    qed
  qed
  ultimately show ?thesis by blast
qed

end
