(* ===== verification/Xqvm_Mempool.thy ===== *)
theory Xqvm_Mempool
  imports Xqvm_Theorems Mempool_Vm
begin

text \<open>
  The program store as the source of the mempool's transform programs (\<open>QuantumProgramSource\<close> in \<open>runtime/src/configs/mod.rs\<close>),
  with both pallets on the same virtual machine, and concrete runs of the store.
\<close>

definition quantum_program_source :: "('a, 'b, mhash) xqvm_state \<Rightarrow> mhash \<Rightarrow> bytes option" where
  "quantum_program_source s h = programs s h"

definition wired :: "('a, 'b, mhash, 'p) xqvm_config \<Rightarrow> 'p vm_ops \<Rightarrow> ('a, 'b, mhash) xqvm_state \<Rightarrow> 'p vm_ops" where
  "wired c v s = v\<lparr>program_source := quantum_program_source s, decode_program := xq_decode c, verify_program := (\<lambda>p. xq_verify c p = Inr ())\<rparr>"

lemma check_programs_stored:
  assumes "xqvm_inv c s"
  shows "check_programs (wired c v s) hs =
    (if \<forall>h \<in> set hs. programs s h \<noteq> None then Inr () else Inl (Module mempool_error.VmProgramNotFound))"
proof (induction hs)
  case (Cons h hs)
  show ?case
  proof (cases "programs s h")
    case None
    then show ?thesis by (simp add: wired_def quantum_program_source_def)
  next
    case (Some b)
    then have "admissible c b" using assms by (simp add: xqvm_inv_def)
    then obtain p where "xq_decode c b = Some p" "xq_verify c p = Inr ()" by (auto simp: admissible_def)
    with Some Cons.IH show ?thesis by (simp add: wired_def quantum_program_source_def)
  qed
qed simp

lemma transform_loop_wired: "transform_loop (wired c v s) p ss st acc = transform_loop v p ss st acc"
  by (induction ss arbitrary: st acc) (simp_all add: wired_def Let_def split: prod.splits sum.splits list.splits reg_val.splits)

lemma transform_stored:
  assumes "xqvm_inv c s" "programs s h = Some code"
  shows "\<exists>p. xq_decode c code = Some p \<and> xq_verify c p = Inr () \<and>
    transform_solutions (wired c v s) (Some h) ss =
      \<lparr>outcome_result = fst (transform_loop v p ss 0 []), steps_used = snd (transform_loop v p ss 0 [])\<rparr>"
proof -
  have "admissible c code" using assms by (simp add: xqvm_inv_def)
  then obtain p where "xq_decode c code = Some p" "xq_verify c p = Inr ()" by (auto simp: admissible_def)
  moreover have "program_source (wired c v s) = programs s" "decode_program (wired c v s) = xq_decode c"
    by (simp_all add: wired_def quantum_program_source_def fun_eq_iff)
  ultimately show ?thesis using assms(2) by (simp add: transform_solutions_def transform_loop_wired case_prod_beta)
qed

text \<open>
  C24: the program store serves the mempool. What the mempool finds under a hash has that hash and has passed the
  admission checks, and running it as a transform is running the program it decodes to, so neither of the
  errors for missing or bad bytecode can occur. A job specification is accepted exactly when the programs it
  names are in the store. If the program under a hash transforms some solutions differently in two states of the
  chain, the two stored byte strings are a collision of the hash function.
\<close>

theorem stored_programs_serve_mempool:
  assumes "xqvm_reachable c s" "xqvm_reachable c s'" "hold_laws (xq_currency c)"
  shows "(\<forall>h code. program_source (wired c v s) h = Some code \<longrightarrow> xq_hash c code = h \<and> admissible c code \<and>
      (\<exists>p. xq_decode c code = Some p \<and> xq_verify c p = Inr () \<and> transform_solutions (wired c v s) (Some h) ss =
         \<lparr>outcome_result = fst (transform_loop v p ss 0 []), steps_used = snd (transform_loop v p ss 0 [])\<rparr>)) \<and>
    validate_programs (wired c v s) validation transform =
      (if \<forall>h \<in> set_option validation \<union> set_option transform. program_source (wired c v s) h \<noteq> None then Inr ()
       else Inl (Module mempool_error.VmProgramNotFound)) \<and>
    (\<forall>h code code'. program_source (wired c v s) h = Some code \<and> program_source (wired c v s') h = Some code' \<longrightarrow>
       transform_solutions (wired c v s') (Some h) ss = transform_solutions (wired c v s) (Some h) ss \<or>
       code \<noteq> code' \<and> xq_hash c code = xq_hash c code')"
proof -
  note inv = xqvm_reachable_inv [OF assms(1,3)] and inv' = xqvm_reachable_inv [OF assms(2,3)]
  have src: "program_source (wired c v x) = programs x" for x by (simp add: wired_def quantum_program_source_def fun_eq_iff)
  have "set ((case validation of Some h \<Rightarrow> [h] | None \<Rightarrow> []) @ (case transform of Some h \<Rightarrow> [h] | None \<Rightarrow> [])) =
      set_option validation \<union> set_option transform"
    by (cases validation; cases transform) auto
  then have "validate_programs (wired c v s) validation transform =
      (if \<forall>h \<in> set_option validation \<union> set_option transform. programs s h \<noteq> None then Inr ()
       else Inl (Module mempool_error.VmProgramNotFound))"
    unfolding validate_programs_def check_programs_stored [OF inv] by presburger
  moreover have "transform_solutions (wired c v s') (Some h) ss = transform_solutions (wired c v s) (Some h) ss \<or>
      code \<noteq> code' \<and> xq_hash c code = xq_hash c code'"
    if "programs s h = Some code" "programs s' h = Some code'" for h code code'
  proof (cases "code = code'")
    case True
    then show ?thesis using transform_stored [OF inv that(1), of v ss] transform_stored [OF inv' that(2), of v ss] by auto
  next
    case False
    then show ?thesis using that inv inv' by (auto simp: xqvm_inv_def)
  qed
  moreover have "xq_hash c code = h \<and> admissible c code" if "programs s h = Some code" for h code
    using that inv by (auto simp: xqvm_inv_def)
  ultimately show ?thesis using transform_stored [OF inv] unfolding src by blast
qed

subsection \<open>A concrete store\<close>

definition demo_opcode :: "u8 \<Rightarrow> instruction" where
  "demo_opcode b = (if b = 1 then Target else if b = 2 then Range else if b = 3 then Next else OtherInstruction (unat b))"

definition demo_holds :: "(nat, nat \<Rightarrow> nat) hold_ops" where
  "demo_holds = \<lparr>balance_on_hold = (\<lambda>b. b), hold = (\<lambda>who d b. Inr (b(who := b who + d))),
     release = (\<lambda>who d b. Inr (min d (b who), b(who := b who - min d (b who))))\<rparr>"

definition demo_xqvm :: "(nat, nat \<Rightarrow> nat, mhash, bytes) xqvm_config" where
  "demo_xqvm =
     \<lparr>xq_currency = demo_holds, xq_deposit_base = 10, xq_deposit_per_byte = 1, max_program_size = 100, max_program_blocks = 8,
      max_loop_depth = 2, max_output_slots = 4, xq_max_vm_memory = 1000, max_step_limit = 50, weight_per_step = (3, 0),
      store_program_weight = (\<lambda>n b. (n + b, n)), remove_program_weight = (\<lambda>n. (n, n)), evict_program_weight = (\<lambda>n. (n, n)),
      execute_weight = (\<lambda>n. (n, n)), xq_hash = (\<lambda>b. b), xq_decode = Some, program_code = (\<lambda>p. p),
      instruction_stream = map (\<lambda>b. Inr (demo_opcode b)), xq_verify = (\<lambda>_. Inr ()),
      vm_run = (\<lambda>mem lim n cd p. (Inr (), min lim (length p), replicate n (IntOut 7)))\<rparr>"

definition demo_code :: bytes where "demo_code = [2, 9, 3]"

definition demo_empty :: "(nat, nat \<Rightarrow> nat, mhash) xqvm_state" where
  "demo_empty = \<lparr>programs = Map.empty, program_owner = Map.empty, program_deposit = Map.empty, xq_events = [], xq_env = (\<lambda>_. 0)\<rparr>"

definition demo_stored :: "(nat, nat \<Rightarrow> nat, mhash) xqvm_state" where
  "demo_stored = \<lparr>programs = [demo_code \<mapsto> demo_code], program_owner = [demo_code \<mapsto> 1], program_deposit = [demo_code \<mapsto> 13],
     xq_events = [ProgramStored demo_code 1 3 13], xq_env = (\<lambda>_. 0)(1 := 13)\<rparr>"

lemma demo_xqvm_laws: "hold_laws (xq_currency demo_xqvm)" "run_laws demo_xqvm" "weights_monotone demo_xqvm"
  by (simp_all add: demo_xqvm_def demo_holds_def hold_laws_def run_laws_def weights_monotone_def weight_le_def)

lemma demo_shape: "shape_of (map (\<lambda>b. Inr (demo_opcode b)) demo_code) = \<lparr>blocks = 3, loop_depth = 1\<rparr>"
  by (simp add: shape_of_def demo_code_def demo_opcode_def sat_add_def u32_max_def)

lemma demo_store: "store_program demo_xqvm (Signed 1) demo_code demo_empty = Inr (demo_stored, (6, 3))"
proof -
  have "length demo_code = 3" by (simp add: demo_code_def)
  then show ?thesis using demo_shape
    by (simp add: store_program_def demo_xqvm_def demo_empty_def Let_def deposit_for_def demo_holds_def emit_xq_def demo_stored_def
        sat_add_def sat_mul_def u128_max_def fun_eq_iff)
qed

lemma demo_empty_reachable: "xqvm_reachable demo_xqvm demo_empty"
  unfolding demo_empty_def by (rule xqvm_reachable.start) (simp add: demo_xqvm_def demo_holds_def)

lemma demo_stored_reachable: "xqvm_reachable demo_xqvm demo_stored"
proof (rule xqvm_reachable.call [OF demo_empty_reachable])
  show "xqvm_call_typed demo_xqvm (StoreProgram demo_code)" by (simp add: demo_xqvm_def demo_code_def)
  show "xqvm_dispatch demo_xqvm (Signed 1) (StoreProgram demo_code) demo_empty = Some (Inr (demo_stored, (6, 3)))"
    unfolding xqvm_dispatch.simps demo_store ..
qed

lemma demo_stored_fields: "programs demo_stored demo_code = Some demo_code" "program_owner demo_stored demo_code = Some 1"
  by (simp_all add: demo_stored_def)

theorem shape_counts_leaders_witness:
  "card (leaders (decoded_prefix (map (\<lambda>b. Inr (demo_opcode b)) demo_code))) = 3"
proof -
  have "length (decoded_prefix (map (\<lambda>b. Inr (demo_opcode b)) demo_code)) < u32_max"
    by (simp add: decoded_prefix_def demo_code_def u32_max_def)
  from shape_counts_leaders [OF this] show ?thesis by (simp add: demo_shape)
qed

theorem stored_programs_backed_witness:
  "admissible demo_xqvm demo_code \<and> balance_on_hold (xq_currency demo_xqvm) (xq_env demo_stored) 1 =
     (\<Sum>h \<in> {h. program_owner demo_stored h = Some 1}. deposit_for demo_xqvm (length (the (programs demo_stored h))))"
  using stored_programs_backed [OF demo_stored_reachable demo_xqvm_laws(1)] demo_stored_fields(1) by blast

theorem programs_removed_by_owner_or_root_witness:
  "remove_program demo_xqvm (Signed 2) demo_code demo_stored = Inl (Module NotProgramOwner)"
  using programs_removed_by_owner_or_root [OF demo_stored_reachable demo_xqvm_laws(1) demo_stored_fields] by simp

theorem calls_metered_witness:
  "case xqvm_dispatch demo_xqvm (Signed 3) (Execute demo_code [1] 2 20) demo_stored of
     None \<Rightarrow> False | Some (Inl _) \<Rightarrow> True | Some (Inr (s', w)) \<Rightarrow> weight_le w (execute_charge demo_xqvm 20)"
proof -
  let ?r = "xqvm_dispatch demo_xqvm (Signed 3) (Execute demo_code [1] 2 20) demo_stored"
  have "xqvm_call_typed demo_xqvm (Execute demo_code [1] 2 20)" by simp
  from calls_metered [OF demo_stored_reachable demo_xqvm_laws(1-3) this, of "Signed 3"]
  have "?r \<noteq> None" "\<forall>s' w. ?r = Some (Inr (s', w)) \<longrightarrow> weight_le w (execute_charge demo_xqvm 20)"
    unfolding xqvm_charge.simps by blast+
  then show ?thesis by (auto split: option.splits sum.splits)
qed

definition demo_machine :: "bytes vm_ops" where
  "demo_machine = \<lparr>program_source = (\<lambda>_. None), decode_program = Some, verify_program = (\<lambda>_. True),
     run_program = (\<lambda>mem lim p xs. (Inr (), min lim 1, [VecInt xs])), max_vm_memory = 1000, max_transform_steps = 50\<rparr>"

theorem stored_programs_serve_mempool_witness:
  "validate_programs (wired demo_xqvm demo_machine demo_stored) None (Some demo_code) = Inr () \<and>
   outcome_result (transform_solutions (wired demo_xqvm demo_machine demo_stored) (Some demo_code) [[1, 1]]) = Inr [[1, 1]]"
proof -
  have src: "program_source (wired demo_xqvm demo_machine demo_stored) demo_code = Some demo_code"
    using demo_stored_fields(1) by (simp add: wired_def quantum_program_source_def)
  note T = stored_programs_serve_mempool [OF demo_stored_reachable demo_stored_reachable demo_xqvm_laws(1)]
  have "validate_programs (wired demo_xqvm demo_machine demo_stored) None (Some demo_code) = Inr ()"
    using T [of demo_machine "[]" None "Some demo_code"] src by simp
  moreover have "\<exists>p. outcome_result (transform_solutions (wired demo_xqvm demo_machine demo_stored) (Some demo_code) [[1, 1]]) =
      fst (transform_loop demo_machine p [[1, 1]] 0 [])"
    using T [of demo_machine "[[1, 1]]" None None] src by fastforce
  then have "outcome_result (transform_solutions (wired demo_xqvm demo_machine demo_stored) (Some demo_code) [[1, 1]]) = Inr [[1, 1]]"
    by (auto simp: demo_machine_def)
  ultimately show ?thesis by blast
qed

end
