(* ===== verification/Root_Calls.thy ===== *)
theory Root_Calls
  imports Validator_Admission
begin

text \<open>
  \<open>CouncilRootCalls\<close> in \<open>runtime/src/configs/slashing.rs\<close>: which calls the council may dispatch as root. The check walks the
  tree of nested calls with limits on depth and work. The runtime's call type is modelled by the variants that
  this check and the filter of proxies distinguish; every other call is one of \<open>Utility_other\<close> and \<open>OtherCall\<close>.
\<close>

datatype runtime_call =
    Vesting_force_vested_transfer | Vesting_force_remove_vesting_schedule | Staking_manual_slash
  | System_set_storage | System_kill_storage | System_kill_prefix
  | Proxy_proxy runtime_call | Proxy_proxy_announced runtime_call
  | Multisig_as_multi runtime_call | Multisig_as_multi_threshold_1 runtime_call
  | ValidatorAdmission_dispatch_as_root runtime_call
  | Revive_eth_substrate_call runtime_call | Revive_dispatch_as_fallback_account runtime_call
  | Foundation_execute runtime_call | Foundation_propose runtime_call
  | Utility_batch "runtime_call list" | Utility_batch_all "runtime_call list" | Utility_force_batch "runtime_call list"
  | Utility_as_derivative runtime_call | Utility_dispatch_as runtime_call | Utility_dispatch_as_fallible runtime_call
  | Utility_with_weight runtime_call | Utility_if_else runtime_call runtime_call
  | Utility_other nat
  | Balances_transfer_allow_death | Balances_transfer_keep_alive | Balances_transfer_all
  | OtherCall nat

text \<open>The result carries the number of calls that may still be inspected.\<close>

fun allowed :: "runtime_call \<Rightarrow> nat \<Rightarrow> u32 \<Rightarrow> root_call_error + u32"
  and allowed_calls :: "runtime_call list \<Rightarrow> nat \<Rightarrow> u32 \<Rightarrow> root_call_error + u32" where
  "allowed call depth remaining =
     (if depth > 8 then Inl DepthLimit
      else if remaining = 0 then Inl CallLimit
      else let r = sat_sub remaining 1; d = sat_add u8_max depth 1 in
        case call of
          Vesting_force_vested_transfer \<Rightarrow> Inl Denied
        | Vesting_force_remove_vesting_schedule \<Rightarrow> Inl Denied
        | Staking_manual_slash \<Rightarrow> Inl Denied
        | System_set_storage \<Rightarrow> Inl Denied
        | System_kill_storage \<Rightarrow> Inl Denied
        | System_kill_prefix \<Rightarrow> Inl Denied
        | Proxy_proxy c \<Rightarrow> allowed c d r
        | Proxy_proxy_announced c \<Rightarrow> allowed c d r
        | Multisig_as_multi c \<Rightarrow> allowed c d r
        | Multisig_as_multi_threshold_1 c \<Rightarrow> allowed c d r
        | ValidatorAdmission_dispatch_as_root c \<Rightarrow> allowed c d r
        | Revive_eth_substrate_call c \<Rightarrow> allowed c d r
        | Revive_dispatch_as_fallback_account c \<Rightarrow> allowed c d r
        | Foundation_execute c \<Rightarrow> allowed c d r
        | Foundation_propose c \<Rightarrow> allowed c d r
        | Utility_batch cs \<Rightarrow> allowed_calls cs d r
        | Utility_batch_all cs \<Rightarrow> allowed_calls cs d r
        | Utility_force_batch cs \<Rightarrow> allowed_calls cs d r
        | Utility_as_derivative c \<Rightarrow> allowed c d r
        | Utility_dispatch_as c \<Rightarrow> allowed c d r
        | Utility_dispatch_as_fallible c \<Rightarrow> allowed c d r
        | Utility_with_weight c \<Rightarrow> allowed c d r
        | Utility_if_else c f \<Rightarrow> (case allowed c d r of Inl e \<Rightarrow> Inl e | Inr r' \<Rightarrow> allowed f d r')
        | Utility_other _ \<Rightarrow> Inl Denied
        | Balances_transfer_allow_death \<Rightarrow> Inr r
        | Balances_transfer_keep_alive \<Rightarrow> Inr r
        | Balances_transfer_all \<Rightarrow> Inr r
        | OtherCall _ \<Rightarrow> Inr r)"
| "allowed_calls [] depth remaining = Inr remaining"
| "allowed_calls (c # cs) depth remaining =
     (case allowed c depth remaining of Inl e \<Rightarrow> Inl e | Inr r \<Rightarrow> allowed_calls cs depth r)"

definition council_root_calls_check :: "runtime_call \<Rightarrow> root_call_error + unit" where
  "council_root_calls_check call = (case allowed call 0 256 of Inl e \<Rightarrow> Inl e | Inr _ \<Rightarrow> Inr ())"

subsection \<open>The tree of calls\<close>

fun inner_calls :: "runtime_call \<Rightarrow> runtime_call list" where
  "inner_calls (Proxy_proxy c) = [c]"
| "inner_calls (Proxy_proxy_announced c) = [c]"
| "inner_calls (Multisig_as_multi c) = [c]"
| "inner_calls (Multisig_as_multi_threshold_1 c) = [c]"
| "inner_calls (ValidatorAdmission_dispatch_as_root c) = [c]"
| "inner_calls (Revive_eth_substrate_call c) = [c]"
| "inner_calls (Revive_dispatch_as_fallback_account c) = [c]"
| "inner_calls (Foundation_execute c) = [c]"
| "inner_calls (Foundation_propose c) = [c]"
| "inner_calls (Utility_batch cs) = cs"
| "inner_calls (Utility_batch_all cs) = cs"
| "inner_calls (Utility_force_batch cs) = cs"
| "inner_calls (Utility_as_derivative c) = [c]"
| "inner_calls (Utility_dispatch_as c) = [c]"
| "inner_calls (Utility_dispatch_as_fallible c) = [c]"
| "inner_calls (Utility_with_weight c) = [c]"
| "inner_calls (Utility_if_else c f) = [c, f]"
| "inner_calls _ = []"

text \<open>A call stands in the tree at a depth, once for every place it occurs.\<close>

inductive call_at :: "runtime_call \<Rightarrow> nat \<Rightarrow> runtime_call \<Rightarrow> bool" where
  here: "call_at c 0 c"
| inside: "c' \<in> set (inner_calls c) \<Longrightarrow> call_at c' n x \<Longrightarrow> call_at c (Suc n) x"

fun forbidden :: "runtime_call \<Rightarrow> bool" where
  "forbidden Vesting_force_vested_transfer = True"
| "forbidden Vesting_force_remove_vesting_schedule = True"
| "forbidden Staking_manual_slash = True"
| "forbidden System_set_storage = True"
| "forbidden System_kill_storage = True"
| "forbidden System_kill_prefix = True"
| "forbidden (Utility_other _) = True"
| "forbidden _ = False"

lemma inner_calls_smaller: "c' \<in> set (inner_calls c) \<Longrightarrow> size c' < size c"
  by (cases c) (auto simp: size_list_estimation' less_Suc_eq_le)

function calls_in :: "runtime_call \<Rightarrow> nat" where
  "calls_in c = Suc (sum_list (map calls_in (inner_calls c)))"
  by auto
termination by (relation "measure size") (simp_all add: inner_calls_smaller)

declare calls_in.simps [simp del]

text \<open>\<open>allowed\<close> by the shape of the call only.\<close>

lemma allowed_unfold:
  "allowed call depth remaining =
     (if depth > 8 then Inl DepthLimit else if remaining = 0 then Inl CallLimit
      else if forbidden call then Inl Denied else allowed_calls (inner_calls call) (Suc depth) (remaining - 1))"
  by (cases call) (auto simp: sat_add_def u8_max_def Let_def split: sum.split)

declare allowed.simps [simp del]

lemma call_at_iff:
  "call_at c n x \<longleftrightarrow> n = 0 \<and> x = c \<or> (\<exists>m. n = Suc m \<and> (\<exists>c' \<in> set (inner_calls c). call_at c' m x))"
  by (subst call_at.simps) auto

text \<open>A tree that passes from depth \<open>d\<close> on: nothing forbidden in it and no call deeper than eight.\<close>

definition passes :: "nat \<Rightarrow> runtime_call \<Rightarrow> bool" where
  "passes d c \<longleftrightarrow> (\<forall>n x. call_at c n x \<longrightarrow> \<not> forbidden x \<and> d + n \<le> 8)"

lemma passes_unfold: "passes d c \<longleftrightarrow> \<not> forbidden c \<and> d \<le> 8 \<and> (\<forall>c' \<in> set (inner_calls c). passes (Suc d) c')"
proof
  assume p: "passes d c"
  have "passes (Suc d) c'" if "c' \<in> set (inner_calls c)" for c'
    unfolding passes_def using p that call_at.inside [OF that] unfolding passes_def by fastforce
  then show "\<not> forbidden c \<and> d \<le> 8 \<and> (\<forall>c' \<in> set (inner_calls c). passes (Suc d) c')"
    using p call_at.here [of c] unfolding passes_def by fastforce
next
  assume r: "\<not> forbidden c \<and> d \<le> 8 \<and> (\<forall>c' \<in> set (inner_calls c). passes (Suc d) c')"
  show "passes d c" unfolding passes_def
  proof (intro allI impI)
    fix n x assume "call_at c n x"
    then show "\<not> forbidden x \<and> d + n \<le> 8" using r unfolding call_at_iff [of c] passes_def by fastforce
  qed
qed

lemma allowed_calls_iff:
  assumes "\<And>c d r r'. c \<in> set cs \<Longrightarrow> allowed c d r = Inr r' \<longleftrightarrow> passes d c \<and> calls_in c \<le> r \<and> r' = r - calls_in c"
  shows "allowed_calls cs d r = Inr r' \<longleftrightarrow>
    (\<forall>c \<in> set cs. passes d c) \<and> sum_list (map calls_in cs) \<le> r \<and> r' = r - sum_list (map calls_in cs)"
  using assms
proof (induction cs arbitrary: r)
  case (Cons c cs)
  have ih: "allowed_calls cs d k = Inr r' \<longleftrightarrow>
      (\<forall>c \<in> set cs. passes d c) \<and> sum_list (map calls_in cs) \<le> k \<and> r' = k - sum_list (map calls_in cs)" for k
    using Cons by simp
  have "allowed_calls (c # cs) d r = Inr r' \<longleftrightarrow> (\<exists>k. allowed c d r = Inr k \<and> allowed_calls cs d k = Inr r')"
    unfolding allowed_calls.simps(2) by (cases "allowed c d r") simp_all
  also have "\<dots> \<longleftrightarrow> passes d c \<and> calls_in c \<le> r \<and> allowed_calls cs d (r - calls_in c) = Inr r'"
    using Cons.prems [of c] by auto
  finally show ?case by (auto simp: ih)
qed auto

lemma allowed_iff: "allowed c d r = Inr r' \<longleftrightarrow> passes d c \<and> calls_in c \<le> r \<and> r' = r - calls_in c"
proof (induction "size c" arbitrary: c d r r' rule: less_induct)
  case less
  have ih: "allowed_calls (inner_calls c) (Suc d) k = Inr r' \<longleftrightarrow>
      (\<forall>x \<in> set (inner_calls c). passes (Suc d) x) \<and> sum_list (map calls_in (inner_calls c)) \<le> k \<and>
      r' = k - sum_list (map calls_in (inner_calls c))" for k
    by (rule allowed_calls_iff) (rule less, rule inner_calls_smaller)
  show ?case
  proof (cases "d > 8 \<or> r = 0 \<or> forbidden c")
    case True
    then have "\<nexists>k. allowed c d r = Inr k" by (subst allowed_unfold) auto
    moreover have "\<not> (passes d c \<and> calls_in c \<le> r)"
      using True passes_unfold [of d c] calls_in.simps [of c] by auto
    ultimately show ?thesis by blast
  next
    case False
    then have eq: "allowed c d r = allowed_calls (inner_calls c) (Suc d) (r - 1)" by (subst allowed_unfold) simp
    show ?thesis unfolding eq ih using False by (subst passes_unfold) (auto simp: calls_in.simps [of c])
  qed
qed

subsection \<open>The policy\<close>

text \<open>
  C25: the council may dispatch a call as root exactly when no call anywhere in its tree is a storage write, a manual
  slash, a forced vesting change or a utility call the check does not know, no call is nested deeper than
  eight, and the tree has at most 256 calls; the council's root dispatch refuses every other call.
\<close>

theorem council_root_calls_exact:
  fixes c :: "('a, 'b, runtime_call) admission_config" and call :: runtime_call
  assumes "root_call_filter c = council_root_calls_check"
  shows "(council_root_calls_check call = Inr () \<longleftrightarrow>
      (\<forall>n x. call_at call n x \<longrightarrow> \<not> forbidden x \<and> n \<le> 8) \<and> calls_in call \<le> 256) \<and>
    ((\<exists>n x. call_at call n x \<and> forbidden x) \<longrightarrow> (\<forall>s' origin s. dispatch_as_root c origin call s \<noteq> Inr s'))"
proof -
  have ok: "council_root_calls_check call = Inr () \<longleftrightarrow> passes 0 call \<and> calls_in call \<le> 256"
  proof -
    have "council_root_calls_check call = Inr () \<longleftrightarrow> (\<exists>r. allowed call 0 256 = Inr r)"
      unfolding council_root_calls_check_def by (cases "allowed call 0 256") simp_all
    then show ?thesis unfolding allowed_iff by blast
  qed
  moreover have "dispatch_as_root c origin call s \<noteq> Inr s'" if "call_at call n x" "forbidden x" for n x s' origin s
  proof -
    have "council_root_calls_check call \<noteq> Inr ()" using ok that unfolding passes_def by blast
    then obtain e where "council_root_calls_check call = Inl e"
      by (cases "council_root_calls_check call") auto
    then show ?thesis by (cases "ensure_origin (foundation_origin c) origin :: admission_error dispatch_error + unit")
      (simp_all add: dispatch_as_root_def assms)
  qed
  ultimately show ?thesis unfolding passes_def by auto
qed

definition demo_policy :: "(nat, unit, runtime_call) admission_config" where
  "demo_policy = \<lparr>foundation_origin = (\<lambda>o1. o1 = Root), max_authorities = 2, root_call_filter = council_root_calls_check,
     graduation_ready = (\<lambda>_. False), on_removal = (\<lambda>_ b. Inr b), dispatch_root = (\<lambda>_ s. Inr s)\<rparr>"

theorem council_root_calls_exact_witness:
  "council_root_calls_check (Utility_batch [OtherCall 0, Proxy_proxy Staking_manual_slash]) = Inl Denied \<and>
   (\<forall>s' origin s. dispatch_as_root demo_policy origin (Utility_batch [OtherCall 0, Proxy_proxy Staking_manual_slash]) s \<noteq> Inr s')"
proof -
  have "root_call_filter demo_policy = council_root_calls_check" by (simp add: demo_policy_def)
  note p = council_root_calls_exact [OF this, of "Utility_batch [OtherCall 0, Proxy_proxy Staking_manual_slash]"]
  have "call_at (Proxy_proxy Staking_manual_slash) (Suc 0) Staking_manual_slash"
    by (rule call_at.inside [where c' = Staking_manual_slash]) (simp_all add: call_at.here)
  then have "call_at (Utility_batch [OtherCall 0, Proxy_proxy Staking_manual_slash]) (Suc (Suc 0)) Staking_manual_slash"
    by (rule call_at.inside [rotated]) simp
  then have "\<exists>n x. call_at (Utility_batch [OtherCall 0, Proxy_proxy Staking_manual_slash]) n x \<and> forbidden x" by force
  then show ?thesis using p by (simp add: council_root_calls_check_def allowed.simps sat_add_def u8_max_def)
qed

end
