(* ===== verification/Staking_Rewards.thy ===== *)
theory Staking_Rewards
  imports Emission
begin

text \<open>
  \<open>runtime/src/configs/staking_rewards.rs\<close>: the fixed budget that staking may pay for an era, in proportion to its duration. Together
  with the emission controller it shares one annual amount.
\<close>

definition UNIT :: balance where "UNIT = 1000000000000"

definition StakingAnnualEmission :: balance where
  "StakingAnnualEmission = sat_mul u128_max STAKING_ANNUAL_EMISSION_QUIP UNIT"

text \<open>The stake and the issuance do not enter the budget; nothing is left over.\<close>

definition era_payout :: "balance \<Rightarrow> balance \<Rightarrow> u64 \<Rightarrow> balance \<times> balance" where
  "era_payout total_staked issuance era_duration_millis =
     (sat_mul u128_max StakingAnnualEmission era_duration_millis div MILLISECONDS_PER_YEAR, 0)"

text \<open>The compile-time assertions on the runtime's constants.\<close>

definition budgets_consistent :: "('a, 'b) emission_config \<Rightarrow> bool" where
  "budgets_consistent c \<longleftrightarrow>
     annual_emission c = StakingAnnualEmission * 3 \<and> annual_emission c + StakingAnnualEmission = ANNUAL_EMISSION_QUIP * UNIT"

lemma staking_annual: "StakingAnnualEmission = 10000000000000000000"
  by (simp add: StakingAnnualEmission_def STAKING_ANNUAL_EMISSION_QUIP_def ANNUAL_EMISSION_QUIP_def STAKING_SHARE_PERCENT_def
      UNIT_def sat_mul_def u128_max_def)

lemma year_millis: "MILLISECONDS_PER_YEAR = 31536000000"
  by (simp add: MILLISECONDS_PER_YEAR_def YEAR_SECONDS_def)

text \<open>The product fits in 128 bits for every duration that fits in 64, so it is never saturated.\<close>

lemma era_payout_exact:
  assumes "d \<le> u64_max"
  shows "era_payout st i d = (StakingAnnualEmission * d div MILLISECONDS_PER_YEAR, 0)"
proof -
  have "StakingAnnualEmission * d \<le> StakingAnnualEmission * u64_max" using assms by (rule mult_le_mono2)
  also have "\<dots> \<le> u128_max" by (simp add: staking_annual u64_max_def u128_max_def)
  finally show ?thesis by (simp add: era_payout_def sat_mul_def)
qed

lemma sum_floors_bounds:
  fixes a y :: nat
  assumes "0 < y"
  shows "sum_list (map (\<lambda>d. a * d div y) ds) \<le> a * sum_list ds div y"
    "a * sum_list ds div y \<le> sum_list (map (\<lambda>d. a * d div y) ds) + length ds"
proof (induction ds)
  case (Cons d ds)
  let ?s = "sum_list ds"
  have split: "a * (d + ?s) div y = (a * d + a * ?s) div y" by (simp add: algebra_simps)
  have lo: "a * d div y + a * ?s div y \<le> (a * d + a * ?s) div y" using div_add1_eq [of "a * d" "a * ?s" y] by simp
  have hi: "(a * d + a * ?s) div y \<le> a * d div y + a * ?s div y + 1"
  proof -
    have "(a * d + a * ?s) div y = a * d div y + a * ?s div y + (a * d mod y + a * ?s mod y) div y" by (rule div_add1_eq)
    moreover have "(a * d mod y + a * ?s mod y) div y \<le> 1"
    proof -
      have "a * d mod y < y" "a * ?s mod y < y" using assms by simp_all
      then have "a * d mod y + a * ?s mod y < 2 * y" by linarith
      then have "(a * d mod y + a * ?s mod y) div y < 2" by (rule less_mult_imp_div_less)
      then show ?thesis by simp
    qed
    ultimately show ?thesis by linarith
  qed
  { case 1 show ?case using Cons(1) lo split by simp
  next
    case 2 show ?case using Cons(2) hi split by simp }
qed simp_all

text \<open>
  over any sequence of eras whose durations add up to \<open>t\<close> seconds, whatever was staked and issued, the staking budgets and
  the controller's entitlement together stay within the annual emission of 40 million units in proportion to
  the time, and miss it by at most one smallest unit per era plus two; no budget saturates.
\<close>

theorem emission_shares_one_budget:
  fixes eras :: "(balance \<times> balance \<times> u64) list"
  assumes "budgets_consistent c" "\<And>st i d. (st, i, d) \<in> set eras \<Longrightarrow> d \<le> u64_max"
    and "sum_list (map (snd \<circ> snd) eras) = 1000 * t" "entitlement c t = Some e"
  defines "paid \<equiv> sum_list (map (\<lambda>(st, i, d). fst (era_payout st i d)) eras)"
    and "annual \<equiv> ANNUAL_EMISSION_QUIP * UNIT"
  shows "e + paid \<le> annual * t div YEAR_SECONDS \<and> annual * t div YEAR_SECONDS \<le> e + paid + length eras + 2"
proof -
  let ?S = StakingAnnualEmission and ?Y = YEAR_SECONDS
  have "paid = sum_list (map (\<lambda>d. ?S * d div MILLISECONDS_PER_YEAR) (map (snd \<circ> snd) eras))"
    unfolding paid_def using assms(2)
    by (intro arg_cong [where f = sum_list]) (auto simp: era_payout_exact)
  then have paid: "paid \<le> ?S * (1000 * t) div MILLISECONDS_PER_YEAR" "?S * (1000 * t) div MILLISECONDS_PER_YEAR \<le> paid + length eras"
    using sum_floors_bounds [of MILLISECONDS_PER_YEAR ?S "map (snd \<circ> snd) eras"] assms(3) by (simp_all add: year_millis)
  have secs: "?S * (1000 * t) div MILLISECONDS_PER_YEAR = ?S * t div ?Y"
  proof -
    have "?S * (1000 * t) = 1000 * (?S * t)" "MILLISECONDS_PER_YEAR = 1000 * ?Y" by (simp_all add: MILLISECONDS_PER_YEAR_def)
    then show ?thesis using div_mult_mult1 [of 1000 "?S * t" ?Y] by presburger
  qed
  have e: "e = annual_emission c * t div ?Y" by (rule entitlement_Some [OF assms(4)])
  have sum: "annual * t = annual_emission c * t + ?S * t"
    using assms(1) by (simp add: annual_def budgets_consistent_def add_mult_distrib [symmetric])
  have "annual * t div ?Y = e + ?S * t div ?Y + (annual_emission c * t mod ?Y + ?S * t mod ?Y) div ?Y"
    unfolding sum e by (rule div_add1_eq)
  moreover have "(annual_emission c * t mod ?Y + ?S * t mod ?Y) div ?Y \<le> 1"
  proof -
    have "annual_emission c * t mod ?Y < ?Y" "?S * t mod ?Y < ?Y" by simp_all
    then have "annual_emission c * t mod ?Y + ?S * t mod ?Y < 2 * ?Y" by linarith
    then have "(annual_emission c * t mod ?Y + ?S * t mod ?Y) div ?Y < 2" by (rule less_mult_imp_div_less)
    then show ?thesis by simp
  qed
  ultimately show ?thesis using paid secs by linarith
qed

theorem emission_shares_one_budget_witness:
  "30000000000000000000 + sum_list (map (\<lambda>(st, i, d). fst (era_payout st i d)) (replicate 365 (5, 7, 86400000)))
     \<le> (ANNUAL_EMISSION_QUIP * UNIT) * YEAR_SECONDS div YEAR_SECONDS"
proof -
  have year: "YEAR_SECONDS = 31536000" by (simp add: YEAR_SECONDS_def)
  have "entitlement demo_emission YEAR_SECONDS = Some (annual_emission demo_emission * YEAR_SECONDS div YEAR_SECONDS)"
    by (rule entitlement_total) (simp_all add: demo_annual year u128_max_def)
  then have e: "entitlement demo_emission YEAR_SECONDS = Some 30000000000000000000" by (simp add: demo_annual)
  have b: "budgets_consistent demo_emission"
    by (simp add: budgets_consistent_def demo_annual staking_annual ANNUAL_EMISSION_QUIP_def UNIT_def)
  have "sum_list (map (snd \<circ> snd) (replicate 365 (5 :: nat, 7 :: nat, 86400000))) = 1000 * YEAR_SECONDS"
    by (simp add: year sum_list_replicate)
  moreover have "\<And>st i d. (st, i, d) \<in> set (replicate 365 (5 :: nat, 7 :: nat, 86400000 :: nat)) \<Longrightarrow> d \<le> u64_max"
    by (simp add: u64_max_def)
  ultimately show ?thesis using emission_shares_one_budget [OF b _ _ e, of "replicate 365 (5, 7, 86400000)"] by blast
qed

end
