(* ===== verification/Offence_Guard.thy ===== *)
theory Offence_Guard
  imports Frame
begin

text \<open>
  The report-age guard of \<open>runtime/src/configs/slashing.rs\<close>: an equivocation report is passed on only when the slash it
  leads to can still be queued. The staking pallet's era bookkeeping is read through a record; the reporter
  behind the guard is a function of its own state.
\<close>

subsection \<open>The guard\<close>

definition SessionsPerEra :: u32 where "SessionsPerEra = 6"
definition BondingDuration :: u32 where "BondingDuration = 28"
definition SLASH_DEFER_ERAS :: u32 where "SLASH_DEFER_ERAS = 27"

definition ReportLongevity :: "u64 \<Rightarrow> u64" where
  "ReportLongevity epoch_duration = BondingDuration * SessionsPerEra * epoch_duration"

record staking_eras =
  active_era :: "u32 option"
  eras_start_session :: "u32 \<rightharpoonup> u32"
  bonded_eras :: "(u32 \<times> u32) list"

definition has_pending_slash_bucket :: "staking_eras \<Rightarrow> u32 \<Rightarrow> bool" where
  "has_pending_slash_bucket st session =
     (case active_era st of
        None \<Rightarrow> False
      | Some active \<Rightarrow>
          (case eras_start_session st active of
             None \<Rightarrow> False
           | Some start \<Rightarrow>
               (case (if session \<ge> start then Some active
                      else map_option fst (find (\<lambda>(_, s). s \<le> session) (rev (bonded_eras st)))) of
                  None \<Rightarrow> False
                | Some era \<Rightarrow>
                    (case Option.bind (checked_add u32_max era SLASH_DEFER_ERAS) (\<lambda>e. checked_add u32_max e 1) of
                       None \<Rightarrow> False
                     | Some apply_era \<Rightarrow> apply_era > active))))"

datatype offence_error = DuplicateReport | OffenceOther nat

definition report_offence ::
    "(u32 \<Rightarrow> 'r \<Rightarrow> 'b \<Rightarrow> offence_error + 'b) \<Rightarrow> staking_eras \<Rightarrow> u32 \<Rightarrow> 'r \<Rightarrow> 'b \<Rightarrow> offence_error + 'b" where
  "report_offence historical st session report b =
     (if \<not> has_pending_slash_bucket st session then Inl (OffenceOther 0) else historical session report b)"

definition initialize_offences :: "nat \<Rightarrow> nat" where
  "initialize_offences version = (if version = 0 then 1 else version)"

subsection \<open>What the guard accepts\<close>

text \<open>
  What staking documents of its bookkeeping: sessions are numbered through the eras, and the first session is kept of
  every era of the bonding duration before the active one.
\<close>

definition eras_recorded :: "staking_eras \<Rightarrow> u32 \<Rightarrow> (u32 \<Rightarrow> u32) \<Rightarrow> bool" where
  "eras_recorded st active first \<longleftrightarrow>
     active_era st = Some active \<and> eras_start_session st active = Some (first active) \<and> strict_mono first \<and>
     bonded_eras st = map (\<lambda>e. (e, first e)) [active - BondingDuration ..< Suc active]"

lemma find_rev_bonded:
  fixes first :: "nat \<Rightarrow> nat"
  assumes "strict_mono first"
  shows "map_option fst (find (\<lambda>(_, s). s \<le> session) (rev (map (\<lambda>e. (e, first e)) [lo ..< hi]))) = Some era \<longleftrightarrow>
    lo \<le> era \<and> era < hi \<and> first era \<le> session \<and> (\<forall>e. era < e \<and> e < hi \<longrightarrow> session < first e)"
proof (induction hi)
  case (Suc hi)
  show ?case
  proof (cases "lo \<le> hi")
    case True
    show ?thesis
    proof (cases "first hi \<le> session")
      case True
      with \<open>lo \<le> hi\<close> show ?thesis by (auto simp: less_Suc_eq not_less)
    next
      case False
      with \<open>lo \<le> hi\<close> have "map_option fst (find (\<lambda>(_, s). s \<le> session) (rev (map (\<lambda>e. (e, first e)) [lo ..< Suc hi]))) = Some era \<longleftrightarrow>
          lo \<le> era \<and> era < hi \<and> first era \<le> session \<and> (\<forall>e. era < e \<and> e < hi \<longrightarrow> session < first e)"
        using Suc by simp
      also have "\<dots> \<longleftrightarrow> lo \<le> era \<and> era < Suc hi \<and> first era \<le> session \<and> (\<forall>e. era < e \<and> e < Suc hi \<longrightarrow> session < first e)"
        using False by (auto simp: less_Suc_eq not_le)
      finally show ?thesis .
    qed
  qed auto
qed auto

text \<open>The era a session belongs to, among those up to the active one.\<close>

definition era_of :: "(u32 \<Rightarrow> u32) \<Rightarrow> u32 \<Rightarrow> u32 \<Rightarrow> u32 \<Rightarrow> bool" where
  "era_of first active session era \<longleftrightarrow> era \<le> active \<and> first era \<le> session \<and> (era < active \<longrightarrow> session < first (Suc era))"

lemma era_of_not_less:
  assumes "strict_mono first" "era_of first active session x" "era_of first active session y"
  shows "\<not> x < y"
proof
  assume "x < y"
  then have "first (Suc x) \<le> first y" by (simp only: strict_mono_less_eq [OF assms(1)] Suc_le_eq)
  then show False using assms(2,3) \<open>x < y\<close> by (simp add: era_of_def)
qed

lemma era_of_unique:
  assumes "strict_mono first" "era_of first active session x" "era_of first active session y"
  shows "x = y"
  using era_of_not_less [OF assms] era_of_not_less [OF assms(1) assms(3) assms(2)] by linarith

lemma era_of_recent:
  assumes "strict_mono first"
  shows "(\<exists>era. era_of first active session era \<and> active < era + 28) \<longleftrightarrow> first (active - 27) \<le> session"
proof
  assume "\<exists>era. era_of first active session era \<and> active < era + 28"
  then obtain era where era: "era_of first active session era" "active < era + 28" by blast
  from era(2) have "active - 27 \<le> era" by linarith
  then have "first (active - 27) \<le> first era" by (simp only: strict_mono_less_eq [OF assms])
  with era(1) show "first (active - 27) \<le> session" by (simp add: era_of_def)
next
  assume s: "first (active - 27) \<le> session"
  define A where "A = {e. e \<le> active \<and> first e \<le> session}"
  have A: "finite A" "active - 27 \<in> A" using s by (simp_all add: A_def)
  have "A \<noteq> {}" using A(2) by blast
  then have m: "Max A \<in> A" by (rule Max_in [OF A(1)])
  have ge: "active - 27 \<le> Max A" by (rule Max_ge [OF A])
  have "Suc (Max A) \<notin> A"
  proof
    assume "Suc (Max A) \<in> A"
    from Max_ge [OF A(1) this] show False by simp
  qed
  then have "era_of first active session (Max A)" using m by (auto simp: A_def era_of_def not_le less_Suc_eq_le)
  moreover have "active < Max A + 28" using ge by linarith
  ultimately show "\<exists>era. era_of first active session era \<and> active < era + 28" by blast
qed

lemma find_era:
  assumes "eras_recorded st active first"
  shows "map_option fst (find (\<lambda>(_, s). s \<le> session) (rev (bonded_eras st))) = Some era \<longleftrightarrow>
    active - 28 \<le> era \<and> era_of first active session era"
proof -
  from assms have st: "bonded_eras st = map (\<lambda>e. (e, first e)) [active - 28 ..< Suc active]" and mono: "strict_mono first"
    by (simp_all add: eras_recorded_def BondingDuration_def)
  have "first x \<le> first y" if "x \<le> y" for x y using that by (simp only: strict_mono_less_eq [OF mono])
  then show ?thesis unfolding st find_rev_bonded [OF mono] era_of_def
    by (auto simp: less_Suc_eq_le Suc_le_eq intro: less_le_trans)
qed

lemma pending_iff_era_of:
  assumes r: "eras_recorded st active first" and "active + 28 \<le> u32_max"
  shows "has_pending_slash_bucket st session \<longleftrightarrow> (\<exists>era. era_of first active session era \<and> active < era + 28)"
proof -
  from r have st: "active_era st = Some active" "eras_start_session st active = Some (first active)" and mono: "strict_mono first"
    by (simp_all add: eras_recorded_def)
  have due: "(case Option.bind (checked_add u32_max era SLASH_DEFER_ERAS) (\<lambda>e. checked_add u32_max e 1) of
       None \<Rightarrow> False | Some apply_era \<Rightarrow> apply_era > active) \<longleftrightarrow> active < era + 28" if "era \<le> active" for era
    using that assms(2) by (simp add: checked_add_def SLASH_DEFER_ERAS_def add.commute)
  show ?thesis
  proof (cases "first active \<le> session")
    case True
    then have "has_pending_slash_bucket st session" using due [of active] by (simp add: has_pending_slash_bucket_def st)
    moreover have "era_of first active session active" using True by (simp add: era_of_def)
    ultimately show ?thesis by (metis less_add_same_cancel1 zero_less_numeral)
  next
    case late: False
    show ?thesis
    proof (cases "map_option fst (find (\<lambda>(_, s). s \<le> session) (rev (bonded_eras st)))")
      case None
      then have "\<not> (era_of first active session era \<and> active < era + 28)" for era
        using find_era [OF r, of session era] by auto
      with None late show ?thesis by (simp add: has_pending_slash_bucket_def st)
    next
      case (Some era)
      then have era: "era_of first active session era" using find_era [OF r] by simp
      then have "has_pending_slash_bucket st session \<longleftrightarrow> active < era + 28"
        using due [of era] late unfolding has_pending_slash_bucket_def st option.case Some by (simp add: era_of_def)
      then show ?thesis using era era_of_unique [OF mono era] by blast
    qed
  qed
qed

text \<open>
  with staking's bookkeeping as documented, a report is passed on exactly when its session belongs to one of the
  last 28 eras, the active one included: its slash is due in a later era than the active one, and the era is within
  the bonding duration. Any other report leaves the state behind the guard unchanged.
\<close>

theorem reports_guarded_by_age:
  fixes first :: "u32 \<Rightarrow> u32"
  assumes "eras_recorded st active first" "active + 28 \<le> u32_max"
  shows "(has_pending_slash_bucket st session \<longleftrightarrow> first (active - 27) \<le> session) \<and>
    (has_pending_slash_bucket st session \<longleftrightarrow>
       (\<exists>era \<le> active. first era \<le> session \<and> (era < active \<longrightarrow> session < first (Suc era)) \<and>
          active < era + SLASH_DEFER_ERAS + 1 \<and> active < era + BondingDuration)) \<and>
    (\<forall>historical report b b'. report_offence historical st session report b = Inr b' \<longrightarrow>
       first (active - 27) \<le> session \<and> historical session report b = Inr b')"
proof -
  have "strict_mono first" using assms(1) by (simp add: eras_recorded_def)
  then show ?thesis using pending_iff_era_of [OF assms, of session] era_of_recent [of first active session]
    by (auto simp: era_of_def report_offence_def SLASH_DEFER_ERAS_def BondingDuration_def split: if_splits)
qed

definition demo_eras :: staking_eras where
  "demo_eras = \<lparr>active_era = Some 30, eras_start_session = (\<lambda>e. Some (6 * e)), bonded_eras = map (\<lambda>e. (e, 6 * e)) [2 ..< 31]\<rparr>"

theorem reports_guarded_by_age_witness:
  "\<not> has_pending_slash_bucket demo_eras 17 \<and> has_pending_slash_bucket demo_eras 18"
proof -
  have "eras_recorded demo_eras 30 (\<lambda>e. 6 * e)"
    by (simp add: eras_recorded_def demo_eras_def BondingDuration_def strict_mono_def)
  moreover have "(30 :: nat) + 28 \<le> u32_max" by (simp add: u32_max_def)
  ultimately have "has_pending_slash_bucket demo_eras 17 \<longleftrightarrow> 6 * (30 - 27) \<le> (17 :: nat)"
    "has_pending_slash_bucket demo_eras 18 \<longleftrightarrow> 6 * (30 - 27) \<le> (18 :: nat)"
    using reports_guarded_by_age [of demo_eras 30 "\<lambda>e. 6 * e"] by (metis, metis)
  then show ?thesis by simp
qed

end
