(* ===== verification/Admission_Election.thy ===== *)
theory Admission_Election
  imports Validator_Admission Offence_Guard "HOL-Library.Product_Lexorder"
begin

text \<open>
  The admission-first elections of the runtime: the snapshot of targets and voters (\<open>AdmissionData\<close> in
  \<open>runtime/src/configs/validator_onboarding.rs\<close>) and the guard around the multi-block election with its scheduler
  (\<open>runtime/src/configs/election.rs\<close>). The staking and election pallets are third-party: their storage is read
  through a record and their operations are functions of the configuration.
\<close>

subsection \<open>Constants\<close>

definition MaxAdmittedAuthorities :: u32 where "MaxAdmittedAuthorities = 64"
definition MaxValidatorSetCap :: u32 where "MaxValidatorSetCap = 50"
definition Pages :: u32 where "Pages = 1"
definition PlanningSession :: u32 where "PlanningSession = 3"
definition MaxNominators :: u32 where "MaxNominators = 1024"
definition VoterSnapshotPerBlock :: u32 where "VoterSnapshotPerBlock = 1100"
definition TargetSnapshotPerBlock :: u32 where "TargetSnapshotPerBlock = 64"
definition MaxVotesPerVoter :: u32 where "MaxVotesPerVoter = 16"
definition SignedPhase :: u32 where "SignedPhase = 0"
definition SignedValidationPhase :: u32 where "SignedValidationPhase = 0"
definition UnsignedPhase :: u32 where "UnsignedPhase = 300"

subsection \<open>The data provider\<close>

record 'a nomination =
  nom_targets :: "'a list"
  suppressed :: bool

record 'a staking_view =
  view_approved :: "'a set"
  staking_validators :: "'a set"
  next_keys :: "'a set"
  nominators_iter :: "('a \<times> 'a nomination) list"
  weight_of :: "'a \<Rightarrow> u64"
  staking_desired_targets :: "string + u32"

record provider_bounds =
  count_bound :: "u32 option"
  size_bound :: "u32 option"

type_synonym 'a voter = "'a \<times> u64 \<times> 'a list"

record 'a encoding_ops =
  slice_exhausted :: "provider_bounds \<Rightarrow> 'a list \<Rightarrow> bool"
  voter_size :: "'a voter \<Rightarrow> usize"
  compact_size :: "u32 \<Rightarrow> usize"

text \<open>The admitted set is ordered, so it is walked in ascending order.\<close>

definition candidates :: "'a :: linorder staking_view \<Rightarrow> 'a list" where
  "candidates v = filter (\<lambda>who. who \<in> staking_validators v \<and> who \<in> next_keys v) (sorted_list_of_set (view_approved v))"

definition electable_targets :: "'a :: linorder encoding_ops \<Rightarrow> provider_bounds \<Rightarrow> nat \<Rightarrow> 'a staking_view \<Rightarrow> string + 'a list" where
  "electable_targets enc bounds page v =
     (if page \<noteq> 0 then Inl ''only one election page is supported''
      else let targets = candidates v in
        if slice_exhausted enc bounds targets then Inl ''approved target snapshot exceeds bounds'' else Inr targets)"

text \<open>
  The entries of the heap, \<open>(Reverse(stake), account, votes)\<close>, in their order: more stake first, then the lower
  account. The standard library's heap is its contents in ascending order; \<open>pop\<close> takes the greatest.
\<close>

definition voter_key :: "'a voter \<Rightarrow> int \<times> 'a" where
  "voter_key x = (- int (fst (snd x)), fst x)"

definition heap_push :: "'a :: linorder voter \<Rightarrow> 'a voter list \<Rightarrow> 'a voter list" where
  "heap_push x heap = insort_key voter_key x heap"

definition heap_pop :: "'a voter list \<Rightarrow> 'a voter list" where
  "heap_pop heap = butlast heap"

definition self_voters :: "'a :: linorder staking_view \<Rightarrow> 'a voter list" where
  "self_voters v = filter (\<lambda>(_, stake, _). stake > 0) (map (\<lambda>who. (who, weight_of v who, [who])) (candidates v))"

fun scan_nominators ::
    "'a :: linorder staking_view \<Rightarrow> 'a list \<Rightarrow> usize \<Rightarrow> ('a \<times> 'a nomination) list \<Rightarrow> 'a voter list \<Rightarrow> u32 \<Rightarrow> string + 'a voter list \<times> u32" where
  "scan_nominators v targets slots [] heap eligible = Inr (heap, eligible)"
| "scan_nominators v targets slots ((nominator, nominations) # rest) heap eligible =
     (if suppressed nominations \<or> nominator \<in> set targets then scan_nominators v targets slots rest heap eligible
      else let votes = filter (\<lambda>t. t \<in> set targets) (nom_targets nominations) in
        if votes = [] then scan_nominators v targets slots rest heap eligible
        else let stake = weight_of v nominator in
          if stake = 0 then scan_nominators v targets slots rest heap eligible
          else if length votes > MaxVotesPerVoter then Inl ''nomination exceeds the vote bound''
          else let heap' = (if slots > 0
                            then let h = heap_push (nominator, stake, votes) heap in if length h > slots then heap_pop h else h
                            else heap)
               in scan_nominators v targets slots rest heap' (sat_add u32_max eligible 1))"

function trim_voters :: "'a encoding_ops \<Rightarrow> usize \<Rightarrow> usize \<Rightarrow> 'a voter list \<Rightarrow> usize \<Rightarrow> 'a voter list" where
  "trim_voters enc self_votes size_limit voters payload =
     (if length voters > self_votes \<and> sat_add u64_max payload (compact_size enc (length voters)) > size_limit
      then if voters = [] then voters
           else trim_voters enc self_votes size_limit (butlast voters) (sat_sub payload (voter_size enc (last voters)))
      else voters)"
  by auto
termination by (relation "measure (\<lambda>(_, _, _, voters, _). length voters)") auto

declare trim_voters.simps [simp del]

text \<open>The voters, and the event \<open>ElectionVotersTruncated\<close> when not all eligible ones are retained.\<close>

definition electing_voters ::
    "'a :: linorder encoding_ops \<Rightarrow> provider_bounds \<Rightarrow> nat \<Rightarrow> 'a staking_view \<Rightarrow> string + 'a voter list \<times> (u32 \<times> u32) option" where
  "electing_voters enc bounds page v =
     (if page \<noteq> 0 then Inl ''only one election page is supported''
      else let targets = candidates v; own = self_voters v;
               limit = (case count_bound bounds of None \<Rightarrow> VoterSnapshotPerBlock | Some b \<Rightarrow> min b VoterSnapshotPerBlock);
               self_votes = length own; slots = sat_sub limit self_votes
        in and_then (scan_nominators v targets slots (nominators_iter v) [] self_votes) (\<lambda>(heap, eligible).
             let voters = own @ heap;
                 retained = (case size_bound bounds of
                     None \<Rightarrow> voters
                   | Some n \<Rightarrow> trim_voters enc self_votes n voters (fold (\<lambda>x t. sat_add u64_max t (voter_size enc x)) voters 0))
             in Inr (retained, if length retained < eligible then Some (eligible, length retained) else None)))"

definition desired_targets :: "'a :: linorder staking_view \<Rightarrow> string + u32" where
  "desired_targets v =
     and_then (staking_desired_targets v) (\<lambda>desired.
     ensure (\<not> desired > MaxValidatorSetCap) ''requested validator count exceeds the admitted validator set cap''
       (Inr (min desired (length (candidates v)))))"

text \<open>A nominator limit that was never set becomes zero on upgrade. Abstentions in the Foundation count as no.\<close>

definition initialize_staking_limits :: "u32 option \<Rightarrow> u32 option" where
  "initialize_staking_limits max_nominators_count = (if max_nominators_count = None then Some 0 else max_nominators_count)"

definition default_vote :: "bool option \<Rightarrow> u32 \<Rightarrow> u32 \<Rightarrow> u32 \<Rightarrow> bool" where
  "default_vote prime yes no len = False"

subsection \<open>The multi-block election\<close>

datatype phase = Snapshot nat | Unsigned nat | OtherPhase nat

datatype forcing = NotForcing | ForceNew | ForceNone | ForceAlways

datatype election_error = ElectionOther string | PalletError nat

record ('a, 'm) mbe_ops =
  mbe_status_ok :: "'m \<Rightarrow> bool"
  mbe_phase :: "'m \<Rightarrow> phase"
  mbe_rotate :: "'m \<Rightarrow> nat + 'm"
  mbe_start :: "'m \<Rightarrow> nat + 'm"
  mbe_elect :: "nat \<Rightarrow> 'm \<Rightarrow> (nat + ('a \<times> 'a voter list) list) \<times> 'm"
  mbe_forcing :: "'m \<Rightarrow> forcing"

text \<open>Error 0 is \<open>could not restart admission election\<close>.\<close>

definition invalidate_on_removal :: "('a, 'm) mbe_ops \<Rightarrow> 'm \<Rightarrow> nat + 'm" where
  "invalidate_on_removal ops m =
     (if mbe_status_ok ops m
      then and_then (mbe_rotate ops m) (\<lambda>m'. if mbe_forcing ops m' \<noteq> ForceNone then map_err (\<lambda>_. 0) (mbe_start ops m') else Inr m')
      else Inr m)"

text \<open>Errors here do not roll the election pallet back: the state is returned with every result.\<close>

definition admission_elect ::
    "('a, 'm) mbe_ops \<Rightarrow> nat \<Rightarrow> 'a set \<Rightarrow> 'm \<Rightarrow> (election_error + ('a \<times> 'a voter list) list) \<times> 'm" where
  "admission_elect ops page admitted m =
     (case mbe_phase ops m of
        Snapshot _ \<Rightarrow> (Inl (ElectionOther ''snapshot not ready''), m)
      | ph \<Rightarrow>
          if (case ph of Unsigned left \<Rightarrow> left \<ge> sat_sub UnsignedPhase 1 | _ \<Rightarrow> False)
          then (Inl (ElectionOther ''unsigned phase just opened''), m)
          else (case mbe_elect ops page m of
                  (Inl e, m') \<Rightarrow> (Inl (PalletError e), m')
                | (Inr supports, m') \<Rightarrow>
                    if list_ex (\<lambda>(who, _). who \<notin> admitted) supports
                    then (case mbe_start ops m' of
                            Inl e \<Rightarrow> (Inl (PalletError e), m')
                          | Inr m'' \<Rightarrow> (Inl (ElectionOther ''election winner no longer admitted''), m''))
                    else (Inr supports, m')))"

record session_view =
  current_era :: "u32 option"
  era_start_session :: "u32 \<rightharpoonup> u32"
  current_session :: u32

definition era_origin :: "session_view \<Rightarrow> u32" where
  "era_origin v = (case Option.bind (current_era v) (era_start_session v) of Some s \<Rightarrow> s | None \<Rightarrow> 0)"

definition maybe_start :: "('a, 'm) mbe_ops \<Rightarrow> session_view \<Rightarrow> 'm \<Rightarrow> 'm" where
  "maybe_start ops v m =
     (if mbe_forcing ops m = ForceNone
      then if mbe_status_ok ops m then (case mbe_rotate ops m of Inl _ \<Rightarrow> m | Inr m' \<Rightarrow> m') else m
      else let due = (sat_sub (current_session v) (era_origin v) \<ge> PlanningSession \<or>
                      mbe_forcing ops m = ForceNew \<or> mbe_forcing ops m = ForceAlways)
           in if due \<and> \<not> mbe_status_ok ops m then (case mbe_start ops m of Inl _ \<Rightarrow> m | Inr m' \<Rightarrow> m') else m)"

text \<open>\<open>new_session\<close>: staking plans the session first.\<close>

definition new_session ::
    "('a, 'm) mbe_ops \<Rightarrow> (u32 \<Rightarrow> 'm \<Rightarrow> 'v \<times> session_view \<times> 'm) \<Rightarrow> u32 \<Rightarrow> 'm \<Rightarrow> 'v \<times> 'm" where
  "new_session ops historical_staking index m =
     (let (validators, v, m') = historical_staking index m in (validators, maybe_start ops v m'))"

definition assert_planning_window :: "u64 \<Rightarrow> u32 \<Rightarrow> u32 \<Rightarrow> bool" where
  "assert_planning_window epoch_duration slack round_blocks =
     (let deadline = sat_sub SessionsPerEra 1
      in PlanningSession < deadline \<and>
         sat_add u64_max round_blocks slack \<le> sat_mul u64_max (sat_sub deadline PlanningSession) epoch_duration)"

definition election_integrity_test :: "u64 \<Rightarrow> u32 \<Rightarrow> bool" where
  "election_integrity_test epoch_duration slack \<longleftrightarrow>
     Pages = 1 \<and> SignedPhase = 0 \<and> SignedValidationPhase = 0 \<and> UnsignedPhase \<ge> 2 \<and>
     VoterSnapshotPerBlock \<ge> sat_add u32_max TargetSnapshotPerBlock MaxNominators \<and>
     assert_planning_window epoch_duration slack
       (sat_add u32_max (sat_add u32_max (sat_add u32_max (sat_add u32_max Pages 1) SignedPhase) SignedValidationPhase) UnsignedPhase)"

end
