(* ===== verification/Election_Theorems.thy ===== *)
theory Election_Theorems
  imports Admission_Election
begin

text \<open>
  The admission-first elections: the voter snapshot is the ranking by stake, cut to the bounds; nobody outside the
  admitted set is ever elected; and rounds are started in time and never left open while eras are paused.
\<close>

subsection \<open>A heap that keeps the best entries\<close>

text \<open>
  The heap is used through its contents in ascending order: pushing inserts, popping drops the greatest.
\<close>

locale ranked_heap =
  fixes push :: "'v \<Rightarrow> 'q \<Rightarrow> 'q" and pop :: "'q \<Rightarrow> 'q" and ranking :: "'q \<Rightarrow> 'v list" and key :: "'v \<Rightarrow> 'b :: linorder"
  assumes ranking_push: "ranking (push x q) = insort_key key x (ranking q)"
    and ranking_pop: "ranking (pop q) = butlast (ranking q)"
begin

definition keep :: "nat \<Rightarrow> 'v \<Rightarrow> 'q \<Rightarrow> 'q" where
  "keep n x q = (let p = push x q in if length (ranking p) > n then pop p else p)"

lemma take_insort_key: "take n (insort_key key x (take n xs)) = take n (insort_key key x xs)"
proof (induction xs arbitrary: n)
  case (Cons y ys)
  then show ?case by (cases n) (auto simp: take_Cons')
qed simp

lemma ranking_keep:
  assumes "ranking q = take n (sort_key key xs)"
  shows "ranking (keep n x q) = take n (insort_key key x (sort_key key xs))"
proof -
  let ?r = "insort_key key x (ranking q)"
  have l: "length ?r \<le> Suc n" using assms by simp
  have "ranking (keep n x q) = take n ?r"
    using l by (auto simp: keep_def Let_def ranking_push ranking_pop butlast_conv_take le_Suc_eq)
  then show ?thesis using assms take_insort_key by simp
qed

lemma ranking_fold_keep:
  assumes "ranking q = take n (sort_key key ys)"
  shows "ranking (fold (keep n) xs q) = take n (sort_key key (rev xs @ ys))"
  using assms
proof (induction xs arbitrary: q ys)
  case (Cons x xs)
  have "ranking (keep n x q) = take n (sort_key key (x # ys))" using ranking_keep [OF Cons.prems] by simp
  then show ?case using Cons.IH [of "keep n x q" "x # ys"] by simp
qed simp

end

interpretation heap: ranked_heap heap_push heap_pop "\<lambda>h. h" voter_key
  by unfold_locales (simp_all add: heap_push_def heap_pop_def)

lemma voter_key_inj: "inj_on voter_key (set xs)" if "distinct (map fst xs)"
  using that by (auto simp: inj_on_def voter_key_def distinct_map dest: inj_onD)

lemma sort_voters_perm:
  assumes "mset xs = mset ys" "distinct (map fst xs)"
  shows "sort_key voter_key xs = sort_key voter_key ys"
  by (rule sort_key_inj_key_eq) (use assms voter_key_inj in \<open>auto\<close>)

subsection \<open>The snapshot of voters\<close>

text \<open>The nominators that count, with the votes that count.\<close>

definition eligible_nominator :: "'a :: linorder staking_view \<Rightarrow> 'a \<times> 'a nomination \<Rightarrow> bool" where
  "eligible_nominator v x = (case x of (who, n) \<Rightarrow> \<not> suppressed n \<and> who \<notin> set (candidates v) \<and>
     set (nom_targets n) \<inter> set (candidates v) \<noteq> {} \<and> weight_of v who > 0)"

definition nominator_vote :: "'a :: linorder staking_view \<Rightarrow> 'a \<times> 'a nomination \<Rightarrow> 'a voter" where
  "nominator_vote v x = (case x of (who, n) \<Rightarrow> (who, weight_of v who, filter (\<lambda>t. t \<in> set (candidates v)) (nom_targets n)))"

definition eligible_nominators :: "'a :: linorder staking_view \<Rightarrow> 'a voter list" where
  "eligible_nominators v = map (nominator_vote v) (filter (eligible_nominator v) (nominators_iter v))"

definition votes_bounded :: "'a staking_view \<Rightarrow> bool" where
  "votes_bounded v \<longleftrightarrow> (\<forall>(_, n) \<in> set (nominators_iter v). length (nom_targets n) \<le> MaxVotesPerVoter)"

lemma scan_nominators_ranked:
  assumes "\<forall>(_, n) \<in> set ns. length (nom_targets n) \<le> MaxVotesPerVoter" "e + length ns \<le> u32_max"
    "h = take slots (sort_key voter_key ys)"
  shows "scan_nominators v (candidates v) slots ns h e =
    Inr (take slots (sort_key voter_key (rev (map (nominator_vote v) (filter (eligible_nominator v) ns)) @ ys)),
         e + length (filter (eligible_nominator v) ns))"
  using assms
proof (induction ns arbitrary: h e ys)
  case (Cons x ns)
  obtain who n where x: "x = (who, n)" by force
  let ?votes = "filter (\<lambda>t. t \<in> set (candidates v)) (nom_targets n)"
  have votes: "?votes = [] \<longleftrightarrow> set (nom_targets n) \<inter> set (candidates v) = {}" by (auto simp: filter_empty_conv)
  have short: "length ?votes \<le> MaxVotesPerVoter" using Cons.prems(1) x le_trans [OF length_filter_le] by fastforce
  show ?case
  proof (cases "eligible_nominator v x")
    case False
    then have "scan_nominators v (candidates v) slots (x # ns) h e = scan_nominators v (candidates v) slots ns h e"
      using votes by (auto simp: x eligible_nominator_def Let_def)
    then show ?thesis using False Cons by (simp add: x)
  next
    case True
    let ?h = "if slots > 0 then heap.keep slots (nominator_vote v x) h else h"
    have h: "?h = take slots (sort_key voter_key (nominator_vote v x # ys))"
      using heap.ranking_keep [OF Cons.prems(3)] Cons.prems(3) by simp
    have "scan_nominators v (candidates v) slots (x # ns) h e = scan_nominators v (candidates v) slots ns ?h (Suc e)"
      using True votes short Cons.prems(2)
      by (simp add: x eligible_nominator_def nominator_vote_def Let_def heap.keep_def sat_add_def)
    then show ?thesis using True Cons.IH [OF _ _ h, of "Suc e"] Cons.prems by (simp add: x)
  qed
qed simp

text \<open>The encoded size of a list of voters, which fits a bound or not.\<close>

definition encoded_voters :: "'a encoding_ops \<Rightarrow> 'a voter list \<Rightarrow> nat" where
  "encoded_voters enc xs = sum_list (map (voter_size enc) xs) + compact_size enc (length xs)"

definition sizes_in_range :: "'a encoding_ops \<Rightarrow> 'a voter list \<Rightarrow> bool" where
  "sizes_in_range enc xs \<longleftrightarrow> (\<forall>k \<le> length xs. sum_list (map (voter_size enc) xs) + compact_size enc k \<le> u64_max)"

lemma payload_fold:
  "t + sum_list (map (voter_size enc) xs) \<le> u64_max \<Longrightarrow>
     fold (\<lambda>x t. sat_add u64_max t (voter_size enc x)) xs t = t + sum_list (map (voter_size enc) xs)"
  by (induction xs arbitrary: t) (simp_all add: sat_add_def)

lemma sizes_in_range_butlast: "sizes_in_range enc (xs @ [x]) \<Longrightarrow> sizes_in_range enc xs"
  unfolding sizes_in_range_def
proof (intro allI impI)
  fix k assume a: "\<forall>k \<le> length (xs @ [x]). sum_list (map (voter_size enc) (xs @ [x])) + compact_size enc k \<le> u64_max" "k \<le> length xs"
  then have "sum_list (map (voter_size enc) (xs @ [x])) + compact_size enc k \<le> u64_max" by simp
  then show "sum_list (map (voter_size enc) xs) + compact_size enc k \<le> u64_max" by simp
qed

lemma trim_voters_longest:
  assumes "sizes_in_range enc voters" "self_votes \<le> length voters"
  shows "\<exists>n. self_votes \<le> n \<and> n \<le> length voters \<and>
    trim_voters enc self_votes limit voters (sum_list (map (voter_size enc) voters)) = take n voters \<and>
    (n = self_votes \<or> encoded_voters enc (take n voters) \<le> limit) \<and>
    (\<forall>k. n < k \<and> k \<le> length voters \<longrightarrow> limit < encoded_voters enc (take k voters))"
  using assms
proof (induction voters rule: rev_induct)
  case Nil
  then show ?case by (simp add: trim_voters.simps)
next
  case (snoc x xs)
  let ?payload = "sum_list (map (voter_size enc) (xs @ [x]))"
  have sat: "sat_add u64_max ?payload (compact_size enc (length (xs @ [x]))) = encoded_voters enc (xs @ [x])"
    using snoc.prems(1) by (auto simp: sizes_in_range_def encoded_voters_def sat_add_def min_absorb1)
  show ?case
  proof (cases "length (xs @ [x]) > self_votes \<and> encoded_voters enc (xs @ [x]) > limit")
    case False
    then have "trim_voters enc self_votes limit (xs @ [x]) ?payload = xs @ [x]"
      using sat by (subst trim_voters.simps) auto
    then show ?thesis using False snoc.prems(2) by (intro exI [of _ "length (xs @ [x])"]) auto
  next
    case True
    then have step: "trim_voters enc self_votes limit (xs @ [x]) ?payload =
        trim_voters enc self_votes limit xs (sum_list (map (voter_size enc) xs))"
      using sat by (subst trim_voters.simps) (simp add: sat_sub_def)
    from True have "self_votes \<le> length xs" by simp
    then obtain n where n: "self_votes \<le> n" "n \<le> length xs"
      "trim_voters enc self_votes limit xs (sum_list (map (voter_size enc) xs)) = take n xs"
      "n = self_votes \<or> encoded_voters enc (take n xs) \<le> limit"
      "\<forall>k. n < k \<and> k \<le> length xs \<longrightarrow> limit < encoded_voters enc (take k xs)"
      using snoc.IH [OF sizes_in_range_butlast [OF snoc.prems(1)]] by blast
    have "limit < encoded_voters enc (take k (xs @ [x]))" if "n < k" "k \<le> length (xs @ [x])" for k
      using that n(5) True by (cases "k = length (xs @ [x])") auto
    then show ?thesis using n step by (intro exI [of _ n]) auto
  qed
qed

text \<open>The voters before the size bound is applied.\<close>

definition ranked_voters :: "provider_bounds \<Rightarrow> 'a :: linorder staking_view \<Rightarrow> 'a voter list" where
  "ranked_voters bounds v =
     self_voters v @
     take ((case count_bound bounds of None \<Rightarrow> VoterSnapshotPerBlock | Some b \<Rightarrow> min b VoterSnapshotPerBlock) - length (self_voters v))
       (sort_key voter_key (eligible_nominators v))"

definition voters_in_range :: "'a :: linorder encoding_ops \<Rightarrow> provider_bounds \<Rightarrow> 'a staking_view \<Rightarrow> bool" where
  "voters_in_range enc bounds v \<longleftrightarrow> distinct (map fst (nominators_iter v)) \<and> votes_bounded v \<and>
     length (self_voters v) + length (nominators_iter v) \<le> u32_max \<and> sizes_in_range enc (ranked_voters bounds v)"

lemma eligible_nominators_distinct:
  "distinct (map fst (nominators_iter v)) \<Longrightarrow> distinct (map fst (eligible_nominators v))"
proof -
  assume d: "distinct (map fst (nominators_iter v))"
  have "map fst (eligible_nominators v) = map fst (filter (eligible_nominator v) (nominators_iter v))"
    by (simp add: eligible_nominators_def nominator_vote_def split_beta comp_def)
  then show ?thesis using d by (simp add: distinct_map_filter)
qed

definition cut_voters :: "'a :: linorder encoding_ops \<Rightarrow> provider_bounds \<Rightarrow> 'a staking_view \<Rightarrow> 'a voter list" where
  "cut_voters enc bounds v = (let r = ranked_voters bounds v in case size_bound bounds of None \<Rightarrow> r
     | Some k \<Rightarrow> trim_voters enc (length (self_voters v)) k r (fold (\<lambda>x t. sat_add u64_max t (voter_size enc x)) r 0))"

definition truncation :: "'a :: linorder staking_view \<Rightarrow> nat \<Rightarrow> (u32 \<times> u32) option" where
  "truncation v n = (let eligible = length (self_voters v) + length (eligible_nominators v)
     in if n < eligible then Some (eligible, n) else None)"

lemma electing_voters_cut:
  assumes "voters_in_range enc bounds v"
  shows "electing_voters enc bounds 0 v = Inr (cut_voters enc bounds v, truncation v (length (cut_voters enc bounds v)))"
proof -
  let ?own = "self_voters v"
  let ?limit = "case count_bound bounds of None \<Rightarrow> VoterSnapshotPerBlock | Some b \<Rightarrow> min b VoterSnapshotPerBlock"
  let ?slots = "?limit - length ?own"
  have r: "distinct (map fst (nominators_iter v))" "votes_bounded v" "length ?own + length (nominators_iter v) \<le> u32_max"
    using assms by (simp_all add: voters_in_range_def)
  have "scan_nominators v (candidates v) ?slots (nominators_iter v) [] (length ?own) =
      Inr (take ?slots (sort_key voter_key (eligible_nominators v)), length ?own + length (eligible_nominators v))"
    using scan_nominators_ranked [of "nominators_iter v" "length ?own" "[]" ?slots "[]" v] r(2,3)
      sort_voters_perm [of "rev (eligible_nominators v)" "eligible_nominators v"] eligible_nominators_distinct [OF r(1)]
    by (simp add: votes_bounded_def eligible_nominators_def rev_map [symmetric] distinct_map del: rev_map)
  then show ?thesis
    unfolding electing_voters_def Let_def cut_voters_def truncation_def ranked_voters_def sat_sub_eq by simp
qed

text \<open>Where the ranking is cut.\<close>

definition cut_at :: "'a :: linorder encoding_ops \<Rightarrow> provider_bounds \<Rightarrow> 'a staking_view \<Rightarrow> nat \<Rightarrow> bool" where
  "cut_at enc bounds v n \<longleftrightarrow> (let r = ranked_voters bounds v; own = length (self_voters v) in
     own \<le> n \<and> n \<le> length r \<and>
     (case size_bound bounds of
        None \<Rightarrow> n = length r
      | Some limit \<Rightarrow> (n = own \<or> encoded_voters enc (take n r) \<le> limit) \<and>
          (\<forall>k \<in> {Suc n..length r}. limit < encoded_voters enc (take k r))))"

lemma cut_voters_at:
  assumes "voters_in_range enc bounds v"
  shows "\<exists>n. cut_voters enc bounds v = take n (ranked_voters bounds v) \<and> cut_at enc bounds v n"
proof -
  let ?own = "length (self_voters v)" and ?r = "ranked_voters bounds v"
  have r: "sizes_in_range enc ?r" using assms by (simp add: voters_in_range_def)
  have len: "?own \<le> length ?r" by (simp add: ranked_voters_def)
  show ?thesis
  proof (cases "size_bound bounds")
    case None
    then show ?thesis using len by (intro exI [of _ "length ?r"]) (simp add: cut_voters_def cut_at_def)
  next
    case (Some k)
    have "sum_list (map (voter_size enc) ?r) \<le> u64_max" using r by (force simp: sizes_in_range_def)
    then have payload: "fold (\<lambda>x t. sat_add u64_max t (voter_size enc x)) ?r 0 = sum_list (map (voter_size enc) ?r)"
      using payload_fold [of 0 enc ?r] by simp
    from trim_voters_longest [OF r len, of k] obtain n where n: "?own \<le> n" "n \<le> length ?r"
      "cut_voters enc bounds v = take n ?r" "n = ?own \<or> encoded_voters enc (take n ?r) \<le> k"
      "\<forall>j. n < j \<and> j \<le> length ?r \<longrightarrow> k < encoded_voters enc (take j ?r)"
      unfolding cut_voters_def Let_def Some payload option.case by blast
    then show ?thesis using Some by (intro exI [of _ n]) (simp add: cut_at_def Suc_le_eq)
  qed
qed

lemma self_voters_set:
  "(who, stake, votes) \<in> set (self_voters v) \<longleftrightarrow> who \<in> set (candidates v) \<and> stake = weight_of v who \<and> 0 < stake \<and> votes = [who]"
  by (auto simp: self_voters_def)

lemma eligible_nominators_set:
  assumes "(who, stake, votes) \<in> set (eligible_nominators v)"
  shows "who \<notin> set (candidates v)" "stake = weight_of v who" "0 < stake" "votes \<noteq> []" "set votes \<subseteq> set (candidates v)"
  using assms by (auto simp: eligible_nominators_def nominator_vote_def eligible_nominator_def filter_empty_conv)

lemma ranked_voters_set:
  assumes "(who, stake, votes) \<in> set (ranked_voters bounds v)"
  shows "stake = weight_of v who" "0 < stake" "votes \<noteq> []" "set votes \<subseteq> set (candidates v)"
proof -
  have "(who, stake, votes) \<in> set (self_voters v) \<or> (who, stake, votes) \<in> set (eligible_nominators v)"
    using assms by (auto simp: ranked_voters_def dest: in_set_takeD)
  then have "stake = weight_of v who \<and> 0 < stake \<and> votes \<noteq> [] \<and> set votes \<subseteq> set (candidates v)"
    using eligible_nominators_set [of who stake votes v] by (auto simp: self_voters_set)
  then show "stake = weight_of v who" "0 < stake" "votes \<noteq> []" "set votes \<subseteq> set (candidates v)" by auto
qed

lemma ranked_voters_perm:
  assumes "mset (nominators_iter v) = mset ns" "distinct (map fst (nominators_iter v))"
  shows "ranked_voters bounds (v\<lparr>nominators_iter := ns\<rparr>) = ranked_voters bounds v"
    "length (eligible_nominators (v\<lparr>nominators_iter := ns\<rparr>)) = length (eligible_nominators v)"
    "self_voters (v\<lparr>nominators_iter := ns\<rparr>) = self_voters v"
proof -
  let ?w = "v\<lparr>nominators_iter := ns\<rparr>"
  have c: "candidates ?w = candidates v" by (simp add: candidates_def)
  have fun_eq: "eligible_nominator ?w = eligible_nominator v" "nominator_vote ?w = nominator_vote v"
    by (simp_all add: fun_eq_iff eligible_nominator_def nominator_vote_def c split: prod.splits)
  have m: "mset (eligible_nominators v) = mset (eligible_nominators ?w)"
    using assms(1) by (simp add: eligible_nominators_def fun_eq)
  then show "length (eligible_nominators ?w) = length (eligible_nominators v)" by (metis mset_eq_length)
  show own: "self_voters ?w = self_voters v" by (simp add: self_voters_def c)
  show "ranked_voters bounds ?w = ranked_voters bounds v"
    using sort_voters_perm [OF m eligible_nominators_distinct [OF assms(2)]] own by (simp add: ranked_voters_def)
qed

text \<open>
  C26: the one-pass scan with its bounded heap computes a ranking: the snapshot is a prefix of the approved
  validators' own votes followed by the best eligible nominators in order of stake, lower accounts first among
  equals, up to the count bound. The own votes are always kept; without a size bound everything is, with one the
  longest prefix that fits. Every vote is for a candidate and carries the voter's stake, the event reports the
  truncation exactly, and the order in which storage is walked does not matter.
\<close>

theorem voter_snapshot_ranked:
  assumes "voters_in_range enc bounds v"
  shows "(\<exists>n. electing_voters enc bounds 0 v = Inr (take n (ranked_voters bounds v), truncation v n) \<and> cut_at enc bounds v n) \<and>
    (\<forall>(who, stake, votes) \<in> set (ranked_voters bounds v).
       stake = weight_of v who \<and> 0 < stake \<and> votes \<noteq> [] \<and> set votes \<subseteq> set (candidates v)) \<and>
    (\<forall>ns. mset ns = mset (nominators_iter v) \<longrightarrow>
       electing_voters enc bounds 0 (v\<lparr>nominators_iter := ns\<rparr>) = electing_voters enc bounds 0 v)"
proof (intro conjI allI impI)
  obtain n where n: "cut_voters enc bounds v = take n (ranked_voters bounds v)" "cut_at enc bounds v n"
    using cut_voters_at [OF assms] by blast
  then have "length (cut_voters enc bounds v) = n" by (simp add: cut_at_def Let_def)
  then show "\<exists>n. electing_voters enc bounds 0 v = Inr (take n (ranked_voters bounds v), truncation v n) \<and> cut_at enc bounds v n"
    using n electing_voters_cut [OF assms] by auto
next
  show "\<forall>(who, stake, votes) \<in> set (ranked_voters bounds v).
      stake = weight_of v who \<and> 0 < stake \<and> votes \<noteq> [] \<and> set votes \<subseteq> set (candidates v)"
    using ranked_voters_set by fast
next
  fix ns assume m: "mset ns = mset (nominators_iter v)"
  let ?w = "v\<lparr>nominators_iter := ns\<rparr>"
  have d: "distinct (map fst (nominators_iter v))" using assms by (simp add: voters_in_range_def)
  note perm = ranked_voters_perm [OF m [symmetric] d]
  have "mset (map fst ns) = mset (map fst (nominators_iter v))" using m by simp
  then have "distinct (map fst ns)" using d mset_eq_imp_distinct_iff by blast
  moreover have "set ns = set (nominators_iter v)" "length ns = length (nominators_iter v)"
    using m mset_eq_setD mset_eq_length by blast+
  ultimately have "voters_in_range enc bounds ?w"
    using assms perm by (simp add: voters_in_range_def votes_bounded_def)
  moreover have "cut_voters enc bounds ?w = cut_voters enc bounds v" "\<And>n. truncation ?w n = truncation v n"
    unfolding cut_voters_def truncation_def perm by (rule refl)+
  ultimately show "electing_voters enc bounds 0 ?w = electing_voters enc bounds 0 v"
    using electing_voters_cut assms by metis
qed

subsection \<open>Who can be elected\<close>

definition votes_within :: "'a set \<Rightarrow> 'a voter list \<Rightarrow> bool" where
  "votes_within targets voters \<longleftrightarrow> (\<forall>(_, _, votes) \<in> set voters. set votes \<subseteq> targets)"

lemma votes_within_mono: "votes_within T ys \<Longrightarrow> set xs \<subseteq> set ys \<Longrightarrow> votes_within T xs"
  by (fastforce simp: votes_within_def)

lemma scan_votes_within:
  assumes "scan_nominators v targets slots ns h e = Inr (h', e')" "votes_within (set targets) h"
  shows "votes_within (set targets) h'"
  using assms
proof (induction v targets slots ns h e rule: scan_nominators.induct)
  case (2 v targets slots nominator nominations rest heap eligible)
  let ?x = "(nominator, weight_of v nominator, filter (\<lambda>t. t \<in> set targets) (nom_targets nominations))"
  have "votes_within (set targets) (heap_push ?x heap)"
    using 2(6) by (auto simp: votes_within_def heap_push_def set_insort_key)
  then have "votes_within (set targets) (heap_pop (heap_push ?x heap))" "votes_within (set targets) (heap_push ?x heap)"
    by (auto intro: votes_within_mono simp: heap_pop_def dest: in_set_butlastD)
  with 2 show ?case by (auto simp: Let_def split: if_splits)
qed simp

lemma trim_voters_subset: "set (trim_voters enc own limit voters payload) \<subseteq> set voters"
proof (induction enc own limit voters payload rule: trim_voters.induct)
  case (1 enc own limit voters payload)
  then show ?case
    by (subst trim_voters.simps) (auto dest: in_set_butlastD subsetD)
qed

lemma electing_voters_within:
  assumes "electing_voters enc bounds page v = Inr (voters, ev)"
  shows "votes_within (set (candidates v)) voters"
proof -
  obtain h e slots where h: "scan_nominators v (candidates v) slots (nominators_iter v) [] (length (self_voters v)) = Inr (h, e)"
    "set voters \<subseteq> set (self_voters v @ h)"
    using assms trim_voters_subset by (fastforce simp: electing_voters_def Let_def split: if_splits option.splits)
  have "votes_within (set (candidates v)) h" using scan_votes_within [OF h(1)] by (simp add: votes_within_def)
  moreover have "votes_within (set (candidates v)) (self_voters v)" by (auto simp: votes_within_def self_voters_def)
  ultimately have "votes_within (set (candidates v)) (self_voters v @ h)" by (auto simp: votes_within_def)
  then show ?thesis using h(2) votes_within_mono by blast
qed

lemma electable_targets_Inr: "electable_targets enc bounds page v = Inr targets \<Longrightarrow> targets = candidates v"
  by (auto simp: electable_targets_def Let_def split: if_splits)

lemma admission_elect_admitted:
  assumes "admission_elect ops page admitted m = (Inr supports, m')"
  shows "fst ` set supports \<subseteq> admitted"
  using assms by (auto simp: admission_elect_def list_ex_iff split: phase.splits if_splits prod.splits sum.splits)

text \<open>A call that does not approve the account, neither itself nor in what it dispatches as root.\<close>

fun not_approving :: "('a, 'b, 'k) admission_config \<Rightarrow> 'a \<Rightarrow> ('a, 'k) admission_call \<Rightarrow> bool" where
  "not_approving c who (Approve x) \<longleftrightarrow> x \<noteq> who"
| "not_approving c who (DispatchAsRoot k) \<longleftrightarrow> (\<forall>s s'. dispatch_root c k s = Inr s' \<longrightarrow> who \<notin> approved s \<longrightarrow> who \<notin> approved s')"
| "not_approving c who _ \<longleftrightarrow> True"

lemma dispatch_keeps_out:
  assumes "admission_dispatch c origin call s = Inr s'" "not_approving c who call" "who \<notin> approved s"
  shows "who \<notin> approved s'"
proof (cases call)
  case (DispatchAsRoot k)
  then have "dispatch_as_root c origin k s = Inr s'" using assms(1) by simp
  then show ?thesis
  proof (cases rule: dispatch_as_root_Inr)
    case (2 s1)
    then show ?thesis using assms(2,3) DispatchAsRoot by auto
  qed (use assms(3) in simp)
qed (use assms in \<open>auto simp: approve_def remove_def advance_def try_insert_def Let_def split: if_splits\<close>)

lemma run_keeps_out:
  assumes "who \<notin> approved s" "\<forall>(origin, call) \<in> set calls. not_approving c who call"
  shows "who \<notin> approved (admission_run c calls s)"
  using assms(2) unfolding admission_run_def
proof (induction calls rule: rev_induct)
  case Nil
  then show ?case using assms(1) by simp
next
  case (snoc oc calls)
  let ?s = "fold (admission_step c) calls s"
  have out: "who \<notin> approved ?s" and other: "not_approving c who (snd oc)" using snoc by (auto split: prod.splits)
  have "who \<notin> approved (admission_step c oc ?s)"
  proof (rule admission_step_cases [of c oc ?s])
    assume "admission_step c oc ?s = ?s"
    then show ?thesis using out by simp
  next
    assume d: "admission_dispatch c (fst oc) (snd oc) ?s = Inr (admission_step c oc ?s)"
    then show ?thesis by (rule dispatch_keeps_out [OF _ other out])
  qed
  then show ?case by simp
qed

text \<open>
  C27: once the Foundation has removed a validator, and for as long as no call, nor a root dispatch, approves it
  again, whatever else is called, it is no candidate of a snapshot, no vote counts for it, and no election that is accepted has it among
  the winners, not even one solved from a snapshot taken before the removal.
\<close>

theorem removed_never_elected:
  assumes removed: "remove c origin who s = Inr s1"
    and calls: "\<forall>(origin, call) \<in> set calls. not_approving c who call"
    and ok: "admission_ok c s" and view: "view_approved v = approved (admission_run c calls s1)"
  shows "who \<notin> set (candidates v) \<and>
    (\<forall>enc bounds page targets. electable_targets enc bounds page v = Inr targets \<longrightarrow> who \<notin> set targets) \<and>
    (\<forall>enc bounds page voters ev. electing_voters enc bounds page v = Inr (voters, ev) \<longrightarrow>
       (\<forall>(_, _, votes) \<in> set voters. who \<notin> set votes)) \<and>
    (\<forall>page m supports m'. admission_elect ops page (view_approved v) m = (Inr supports, m') \<longrightarrow> who \<notin> fst ` set supports)"
proof -
  have "who \<notin> approved s1" "finite (approved s1)"
    using removed ok by (auto simp: remove_def Let_def admission_ok_def)
  then have out: "who \<notin> view_approved v" using run_keeps_out [OF _ calls] view by simp
  then have cand: "who \<notin> set (candidates v)"
    by (cases "finite (view_approved v)") (auto simp: candidates_def)
  show ?thesis
  proof (intro conjI allI impI)
    show "who \<notin> set (candidates v)" by (rule cand)
  next
    fix enc bounds page targets assume "electable_targets enc bounds page v = Inr targets"
    then show "who \<notin> set targets" using electable_targets_Inr cand by blast
  next
    fix enc bounds page voters ev assume "electing_voters enc bounds page v = Inr (voters, ev)"
    from electing_voters_within [OF this] show "\<forall>(_, _, votes) \<in> set voters. who \<notin> set votes"
      using cand by (auto simp: votes_within_def)
  next
    fix page m supports m' assume "admission_elect ops page (view_approved v) m = (Inr supports, m')"
    from admission_elect_admitted [OF this] show "who \<notin> fst ` set supports" using out by blast
  qed
qed

subsection \<open>The rounds\<close>

text \<open>
  What the multi-block election pallet documents: rotating an open round closes it, starting opens one when none is
  open, and neither touches the staking pallet's forcing flag.
\<close>

definition mbe_laws :: "('a, 'm) mbe_ops \<Rightarrow> bool" where
  "mbe_laws ops \<longleftrightarrow>
     (\<forall>m. mbe_status_ok ops m \<longrightarrow>
        (\<exists>m'. mbe_rotate ops m = Inr m' \<and> \<not> mbe_status_ok ops m' \<and> mbe_forcing ops m' = mbe_forcing ops m)) \<and>
     (\<forall>m. \<not> mbe_status_ok ops m \<longrightarrow>
        (\<exists>m'. mbe_start ops m = Inr m' \<and> mbe_status_ok ops m' \<and> mbe_forcing ops m' = mbe_forcing ops m))"

text \<open>
  Rounds are numbered: rotating ends the numbered round, and with it its snapshot and queued solution; starting begins
  a round under the current number with the snapshot of its pages.
\<close>

definition mbe_rounds :: "('a, 'm) mbe_ops \<Rightarrow> ('m \<Rightarrow> nat) \<Rightarrow> bool" where
  "mbe_rounds ops round_no \<longleftrightarrow>
     (\<forall>m m'. mbe_rotate ops m = Inr m' \<longrightarrow> round_no m' = Suc (round_no m)) \<and>
     (\<forall>m m'. mbe_start ops m = Inr m' \<longrightarrow> round_no m' = round_no m \<and> mbe_phase ops m' = Snapshot Pages)"

lemma mbe_rotate_closes:
  assumes "mbe_laws ops" "mbe_status_ok ops m"
  obtains m' where "mbe_rotate ops m = Inr m'" "\<not> mbe_status_ok ops m'" "mbe_forcing ops m' = mbe_forcing ops m"
  using assms unfolding mbe_laws_def by blast

lemma mbe_start_opens:
  assumes "mbe_laws ops" "\<not> mbe_status_ok ops m"
  obtains m' where "mbe_start ops m = Inr m'" "mbe_status_ok ops m'" "mbe_forcing ops m' = mbe_forcing ops m"
  using assms unfolding mbe_laws_def by blast

definition round_due :: "('a, 'm) mbe_ops \<Rightarrow> session_view \<Rightarrow> 'm \<Rightarrow> bool" where
  "round_due ops v m \<longleftrightarrow> mbe_forcing ops m \<noteq> ForceNone \<and>
     (era_origin v + PlanningSession \<le> current_session v \<or> mbe_forcing ops m \<in> {ForceNew, ForceAlways})"

lemma maybe_start_status:
  assumes laws: "mbe_laws ops" "mbe_rounds ops round_no"
  defines "m2 \<equiv> \<lambda>v m. maybe_start ops v m"
  shows "mbe_status_ok ops (m2 v m) \<longleftrightarrow> mbe_forcing ops m \<noteq> ForceNone \<and> (mbe_status_ok ops m \<or> round_due ops v m)"
    "mbe_forcing ops (m2 v m) = mbe_forcing ops m"
    "mbe_status_ok ops m \<Longrightarrow> mbe_forcing ops m \<noteq> ForceNone \<Longrightarrow> m2 v m = m"
    "mbe_status_ok ops m \<Longrightarrow> mbe_forcing ops m = ForceNone \<Longrightarrow> round_no (m2 v m) = Suc (round_no m)"
    "\<not> mbe_status_ok ops m \<Longrightarrow> round_due ops v m \<Longrightarrow> round_no (m2 v m) = round_no m \<and> mbe_phase ops (m2 v m) = Snapshot Pages"
proof -
  have due: "(sat_sub (current_session v) (era_origin v) \<ge> PlanningSession) = (era_origin v + PlanningSession \<le> current_session v)"
    by (auto simp: PlanningSession_def)
  have "(mbe_status_ok ops (m2 v m) \<longleftrightarrow> mbe_forcing ops m \<noteq> ForceNone \<and> (mbe_status_ok ops m \<or> round_due ops v m)) \<and>
    mbe_forcing ops (m2 v m) = mbe_forcing ops m \<and>
    (mbe_status_ok ops m \<and> mbe_forcing ops m \<noteq> ForceNone \<longrightarrow> m2 v m = m) \<and>
    (mbe_status_ok ops m \<and> mbe_forcing ops m = ForceNone \<longrightarrow> round_no (m2 v m) = Suc (round_no m)) \<and>
    (\<not> mbe_status_ok ops m \<and> round_due ops v m \<longrightarrow> round_no (m2 v m) = round_no m \<and> mbe_phase ops (m2 v m) = Snapshot Pages)"
  proof (cases "mbe_status_ok ops m")
    case True
    then obtain m' where m': "mbe_rotate ops m = Inr m'" "\<not> mbe_status_ok ops m'" "mbe_forcing ops m' = mbe_forcing ops m"
      by (rule mbe_rotate_closes [OF laws(1)])
    moreover have "round_no m' = Suc (round_no m)" using laws(2) m'(1) by (simp add: mbe_rounds_def)
    ultimately show ?thesis using True by (simp add: m2_def maybe_start_def Let_def)
  next
    case False
    then obtain m' where m': "mbe_start ops m = Inr m'" "mbe_status_ok ops m'" "mbe_forcing ops m' = mbe_forcing ops m"
      by (rule mbe_start_opens [OF laws(1)])
    moreover have "round_no m' = round_no m" "mbe_phase ops m' = Snapshot Pages" using laws(2) m'(1) by (simp_all add: mbe_rounds_def)
    ultimately show ?thesis using False unfolding m2_def maybe_start_def Let_def due round_due_def by auto
  qed
  then show "mbe_status_ok ops (m2 v m) \<longleftrightarrow> mbe_forcing ops m \<noteq> ForceNone \<and> (mbe_status_ok ops m \<or> round_due ops v m)"
    "mbe_forcing ops (m2 v m) = mbe_forcing ops m"
    "mbe_status_ok ops m \<Longrightarrow> mbe_forcing ops m \<noteq> ForceNone \<Longrightarrow> m2 v m = m"
    "mbe_status_ok ops m \<Longrightarrow> mbe_forcing ops m = ForceNone \<Longrightarrow> round_no (m2 v m) = Suc (round_no m)"
    "\<not> mbe_status_ok ops m \<Longrightarrow> round_due ops v m \<Longrightarrow> round_no (m2 v m) = round_no m \<and> mbe_phase ops (m2 v m) = Snapshot Pages"
    by blast+
qed

lemma invalidate_on_removal_status:
  assumes laws: "mbe_laws ops" "mbe_rounds ops round_no"
  shows "\<exists>m'. invalidate_on_removal ops m = Inr m' \<and> mbe_forcing ops m' = mbe_forcing ops m \<and>
    (mbe_status_ok ops m' \<longleftrightarrow> mbe_status_ok ops m \<and> mbe_forcing ops m \<noteq> ForceNone) \<and>
    (if mbe_status_ok ops m
     then round_no m' = Suc (round_no m) \<and> (mbe_forcing ops m \<noteq> ForceNone \<longrightarrow> mbe_phase ops m' = Snapshot Pages)
     else m' = m)"
proof (cases "mbe_status_ok ops m")
  case True
  then obtain m1 where m1: "mbe_rotate ops m = Inr m1" "\<not> mbe_status_ok ops m1" "mbe_forcing ops m1 = mbe_forcing ops m"
    by (rule mbe_rotate_closes [OF laws(1)])
  then obtain m2 where m2: "mbe_start ops m1 = Inr m2" "mbe_status_ok ops m2" "mbe_forcing ops m2 = mbe_forcing ops m1"
    using mbe_start_opens [OF laws(1)] by blast
  have "round_no m1 = Suc (round_no m)" "round_no m2 = round_no m1" "mbe_phase ops m2 = Snapshot Pages"
    using laws(2) m1(1) m2(1) by (simp_all add: mbe_rounds_def)
  with True m1 m2 show ?thesis by (auto simp: invalidate_on_removal_def)
qed (simp add: invalidate_on_removal_def)

text \<open>
  C28: after every session change a round of the election is open exactly when eras are not paused and it was open
  before, its planning session has come or an era is forced; an open round is left alone, a pause ends it, and a new
  one begins with its snapshot. The removal of a validator while a round is open ends that round, so that its snapshot
  and solutions are dropped, and unless eras are paused begins the next round with a fresh snapshot; without an open
  round nothing changes. On both networks the phases of a round and the required slack fit between the planning session
  and the session in which staking asks for the winners.
\<close>

theorem rounds_open_in_time:
  assumes "mbe_laws ops" "mbe_rounds ops round_no" "(epoch_duration, slack) \<in> {(2400, 1200), (600, 300)}"
  shows "(let (validators, v, m1) = historical index m; (validators', m2) = new_session ops historical index m in
      validators' = validators \<and> mbe_forcing ops m2 = mbe_forcing ops m1 \<and>
      (mbe_status_ok ops m2 \<longleftrightarrow> mbe_forcing ops m1 \<noteq> ForceNone \<and> (mbe_status_ok ops m1 \<or> round_due ops v m1)) \<and>
      (mbe_status_ok ops m1 \<and> mbe_forcing ops m1 \<noteq> ForceNone \<longrightarrow> m2 = m1) \<and>
      (mbe_status_ok ops m1 \<and> mbe_forcing ops m1 = ForceNone \<longrightarrow> round_no m2 = Suc (round_no m1)) \<and>
      (\<not> mbe_status_ok ops m1 \<and> round_due ops v m1 \<longrightarrow> round_no m2 = round_no m1 \<and> mbe_phase ops m2 = Snapshot Pages)) \<and>
    (\<exists>m'. invalidate_on_removal ops m = Inr m' \<and> mbe_forcing ops m' = mbe_forcing ops m \<and>
      (mbe_status_ok ops m' \<longleftrightarrow> mbe_status_ok ops m \<and> mbe_forcing ops m \<noteq> ForceNone) \<and>
      (if mbe_status_ok ops m
       then round_no m' = Suc (round_no m) \<and> (mbe_forcing ops m \<noteq> ForceNone \<longrightarrow> mbe_phase ops m' = Snapshot Pages)
       else m' = m)) \<and>
    election_integrity_test epoch_duration slack \<and>
    Pages + 1 + SignedPhase + SignedValidationPhase + UnsignedPhase + slack \<le>
      (SessionsPerEra - 1 - PlanningSession) * epoch_duration"
proof -
  have "election_integrity_test epoch_duration slack \<and>
    Pages + 1 + SignedPhase + SignedValidationPhase + UnsignedPhase + slack \<le>
      (SessionsPerEra - 1 - PlanningSession) * epoch_duration"
    using assms(3) by (auto simp: election_integrity_test_def assert_planning_window_def sat_add_def sat_mul_def Pages_def SignedPhase_def
      SignedValidationPhase_def UnsignedPhase_def SessionsPerEra_def PlanningSession_def VoterSnapshotPerBlock_def
      TargetSnapshotPerBlock_def MaxNominators_def u32_max_def u64_max_def)
  note fits = this
  obtain validators v m1 where h: "historical index m = (validators, v, m1)" by (rule prod_cases3)
  then have n: "new_session ops historical index m = (validators, maybe_start ops v m1)" by (simp add: new_session_def)
  note st = maybe_start_status [OF assms(1,2), where v = v and m = m1]
  show ?thesis using fits st invalidate_on_removal_status [OF assms(1,2), of m] unfolding h n Let_def prod.case by blast
qed

end
