(* ===== verification/Election_Examples.thy ===== *)
theory Election_Examples
  imports Election_Theorems
begin

text \<open>A small network for the election theorems: two approved validators and three nominators.\<close>

definition demo_view :: "nat staking_view" where
  "demo_view = \<lparr>view_approved = {1, 2, 3}, staking_validators = {1, 2, 9}, next_keys = {1, 2, 9},
     nominators_iter = [(10, \<lparr>nom_targets = [1, 9], suppressed = False\<rparr>), (11, \<lparr>nom_targets = [2], suppressed = False\<rparr>),
       (12, \<lparr>nom_targets = [1, 2], suppressed = False\<rparr>), (13, \<lparr>nom_targets = [3], suppressed = False\<rparr>)],
     weight_of = (\<lambda>a. if a < 10 then 100 else a), staking_desired_targets = Inr 5\<rparr>"

definition demo_bounds :: provider_bounds where
  "demo_bounds = \<lparr>count_bound = Some 4, size_bound = Some 45\<rparr>"

definition demo_enc :: "nat encoding_ops" where
  "demo_enc = \<lparr>slice_exhausted = (\<lambda>b xs. False), voter_size = (\<lambda>(_, _, votes). 10 + length votes), compact_size = (\<lambda>_. 1)\<rparr>"

lemma demo_candidates [simp]: "candidates demo_view = [1, 2]"
proof -
  have "sorted_list_of_set {1, 2, 3 :: nat} = [1, 2, 3]" by (simp add: sorted_list_of_set_insert_remove)
  then show ?thesis by (simp add: candidates_def demo_view_def)
qed

lemma demo_fields [simp]:
  "nominators_iter demo_view = [(10, \<lparr>nom_targets = [1, 9], suppressed = False\<rparr>), (11, \<lparr>nom_targets = [2], suppressed = False\<rparr>),
     (12, \<lparr>nom_targets = [1, 2], suppressed = False\<rparr>), (13, \<lparr>nom_targets = [3], suppressed = False\<rparr>)]"
  "weight_of demo_view a = (if a < 10 then 100 else a)" "size_bound demo_bounds = Some 45" "count_bound demo_bounds = Some 4"
  by (simp_all add: demo_view_def demo_bounds_def)

lemma demo_self_voters [simp]: "self_voters demo_view = [(1, 100, [1]), (2, 100, [2])]"
  by (simp add: self_voters_def)

lemma demo_eligible [simp]: "eligible_nominators demo_view = [(10, 10, [1]), (11, 11, [2]), (12, 12, [1, 2])]"
  by (simp add: eligible_nominators_def eligible_nominator_def nominator_vote_def)

lemma demo_ranked [simp]: "ranked_voters demo_bounds demo_view = [(1, 100, [1]), (2, 100, [2]), (12, 12, [1, 2]), (11, 11, [2])]"
  by (simp add: ranked_voters_def VoterSnapshotPerBlock_def voter_key_def less_eq_prod_def)

theorem voter_snapshot_ranked_witness:
  "electing_voters demo_enc demo_bounds 0 demo_view = Inr ([(1, 100, [1]), (2, 100, [2]), (12, 12, [1, 2])], Some (5, 3)) \<and>
   (\<exists>n. electing_voters demo_enc demo_bounds 0 demo_view = Inr (take n (ranked_voters demo_bounds demo_view), truncation demo_view n) \<and>
      cut_at demo_enc demo_bounds demo_view n)"
proof -
  have "voters_in_range demo_enc demo_bounds demo_view"
    by (simp add: voters_in_range_def sizes_in_range_def votes_bounded_def MaxVotesPerVoter_def demo_enc_def u32_max_def u64_max_def)
  from voter_snapshot_ranked [OF this] have
    n: "\<exists>n. electing_voters demo_enc demo_bounds 0 demo_view = Inr (take n (ranked_voters demo_bounds demo_view), truncation demo_view n) \<and>
      cut_at demo_enc demo_bounds demo_view n" by blast
  then obtain n where n': "electing_voters demo_enc demo_bounds 0 demo_view = Inr (take n (ranked_voters demo_bounds demo_view), truncation demo_view n)"
    "cut_at demo_enc demo_bounds demo_view n" by blast
  have "n = 3"
  proof -
    let ?size = "\<lambda>k. encoded_voters demo_enc (take k (ranked_voters demo_bounds demo_view))"
    have own: "length (self_voters demo_view) = 2" "length (ranked_voters demo_bounds demo_view) = 4" by simp_all
    have cut: "2 \<le> n" "n \<le> 4" "n = 2 \<or> ?size n \<le> 45" "\<forall>k \<in> {Suc n..4}. 45 < ?size k"
      using n'(2) unfolding cut_at_def Let_def own demo_fields option.case by blast+
    have size: "?size 3 = 35" "?size 4 = 46" by (simp_all add: encoded_voters_def demo_enc_def)
    have "n \<noteq> 2"
    proof
      assume "n = 2"
      then have "3 \<in> {Suc n..4}" by simp
      then have "45 < ?size 3" by (rule bspec [OF cut(4)])
      then show False using size(1) by linarith
    qed
    moreover have "n \<noteq> 4"
    proof
      assume "n = 4"
      then have "?size 4 \<le> 45" using cut(3) by (simp only:) simp
      then show False using size(2) by linarith
    qed
    ultimately show ?thesis using cut(1,2) by linarith
  qed
  then show ?thesis using n n'(1) by (simp add: truncation_def)
qed

text \<open>The state of the election: the number of the round, its phase while it is open, and the forcing flag.\<close>

definition demo_mbe :: "(nat, nat \<times> phase option \<times> forcing) mbe_ops" where
  "demo_mbe = \<lparr>mbe_status_ok = (\<lambda>(r, p, f). p \<noteq> None), mbe_phase = (\<lambda>(r, p, f). case p of Some ph \<Rightarrow> ph | None \<Rightarrow> OtherPhase 0),
     mbe_rotate = (\<lambda>(r, p, f). Inr (Suc r, None, f)), mbe_start = (\<lambda>(r, p, f). if p \<noteq> None then Inl 1 else Inr (r, Some (Snapshot Pages), f)),
     mbe_elect = (\<lambda>page (r, p, f). (Inr [(1, []), (2, [])], (Suc r, None, f))), mbe_forcing = (\<lambda>(r, p, f). f)\<rparr>"

lemma demo_mbe_laws: "mbe_laws demo_mbe" "mbe_rounds demo_mbe fst"
  by (auto simp: mbe_laws_def mbe_rounds_def demo_mbe_def split: if_splits)

definition demo_wired :: "(nat, nat \<times> phase option \<times> forcing, nat) admission_config" where
  "demo_wired = \<lparr>foundation_origin = (\<lambda>og. og = Root), max_authorities = 64, root_call_filter = (\<lambda>_. Inr ()),
     graduation_ready = (\<lambda>_. False), on_removal = (\<lambda>ap. invalidate_on_removal demo_mbe), dispatch_root = (\<lambda>k s. Inr s)\<rparr>"

definition demo_admitted :: "(nat, nat \<times> phase option \<times> forcing) admission_state" where
  "demo_admitted = \<lparr>mode = FoundationOnly, approved = {1, 2, 3}, admission_events = [], runtime = (4, Some (Unsigned 10), NotForcing)\<rparr>"

definition demo_removed :: "(nat, nat \<times> phase option \<times> forcing) admission_state" where
  "demo_removed = \<lparr>mode = FoundationOnly, approved = {1, 3}, admission_events = [Removed 2], runtime = (5, Some (Snapshot Pages), NotForcing)\<rparr>"

lemma demo_remove: "Validator_Admission.remove demo_wired Root 2 demo_admitted = Inr demo_removed"
proof -
  have "{1, 2, 3} - {2} = {1, 3 :: nat}" by auto
  then show ?thesis
    by (simp add: remove_def demo_wired_def demo_admitted_def demo_removed_def emit_admission_def
      invalidate_on_removal_def demo_mbe_def Let_def ensure_origin_def)
qed

theorem removed_never_elected_witness:
  "2 \<notin> set (candidates (demo_view\<lparr>view_approved := {1, 3, 9}\<rparr>)) \<and>
   fst (admission_elect demo_mbe 0 {1, 3, 9} (5, Some (Unsigned 10), NotForcing)) = Inl (ElectionOther ''election winner no longer admitted'')"
proof -
  let ?calls = "[(Root, Approve 9), (Signed 5, Remove 1), (Root, DispatchAsRoot 0)] :: (nat raw_origin \<times> (nat, nat) admission_call) list"
  let ?v = "demo_view\<lparr>view_approved := {1, 3, 9}\<rparr>"
  have run: "approved (admission_run demo_wired ?calls demo_removed) = {1, 3, 9}"
    by (auto simp: admission_run_def admission_step_def approve_def remove_def dispatch_as_root_def try_insert_def demo_wired_def demo_removed_def
      emit_admission_def ensure_origin_def)
  have ok: "admission_ok demo_wired demo_admitted" by (simp add: admission_ok_def demo_wired_def demo_admitted_def)
  have view: "view_approved ?v = approved (admission_run demo_wired ?calls demo_removed)" using run by simp
  have calls: "\<forall>(origin, call) \<in> set ?calls. not_approving demo_wired 2 call" by (simp add: demo_wired_def)
  have "2 \<notin> set (candidates ?v)"
    using removed_never_elected [OF demo_remove calls ok view] by (rule conjunct1)
  moreover have "fst (admission_elect demo_mbe 0 {1, 3, 9} (5, Some (Unsigned 10), NotForcing)) = Inl (ElectionOther ''election winner no longer admitted'')"
    by (simp add: admission_elect_def demo_mbe_def UnsignedPhase_def)
  ultimately show ?thesis by blast
qed

theorem rounds_open_in_time_witness:
  "mbe_status_ok demo_mbe (snd (new_session demo_mbe
      (\<lambda>i m. ((), \<lparr>current_era = Some 4, era_start_session = [4 \<mapsto> 24], current_session = 27\<rparr>, m)) 28 (4, None, NotForcing))) \<and>
   (\<exists>m'. invalidate_on_removal demo_mbe (4, Some (Unsigned 10), NotForcing) = Inr m' \<and> fst m' = 5 \<and> mbe_phase demo_mbe m' = Snapshot Pages) \<and>
   election_integrity_test 600 300"
proof -
  let ?h = "\<lambda>i m. ((), \<lparr>current_era = Some 4, era_start_session = [4 \<mapsto> 24], current_session = 27\<rparr>, m)"
  have e: "(600, 300) \<in> {(2400, 1200), (600, 300 :: nat)}" by simp
  note r = rounds_open_in_time [OF demo_mbe_laws e, of ?h 28 "(4, None, NotForcing)"]
    and q = rounds_open_in_time [OF demo_mbe_laws e, of ?h 28 "(4, Some (Unsigned 10), NotForcing)"]
  have "election_integrity_test 600 300" using r by blast
  moreover have "round_due demo_mbe \<lparr>current_era = Some 4, era_start_session = [4 \<mapsto> 24], current_session = 27\<rparr> (4, None, NotForcing)"
    by (simp add: round_due_def demo_mbe_def era_origin_def PlanningSession_def)
  moreover have f: "mbe_forcing demo_mbe (4, None, NotForcing) = NotForcing"
    "mbe_forcing demo_mbe (4, Some (Unsigned 10), NotForcing) = NotForcing"
    "mbe_status_ok demo_mbe (4, Some (Unsigned 10), NotForcing)" by (simp_all add: demo_mbe_def)
  moreover have "\<exists>m'. invalidate_on_removal demo_mbe (4, Some (Unsigned 10), NotForcing) = Inr m' \<and> fst m' = 5 \<and>
      mbe_phase demo_mbe m' = Snapshot Pages" using conjunct1 [OF conjunct2 [OF q]] f by auto
  ultimately show ?thesis using conjunct1 [OF r] by (simp add: split_beta Let_def)
qed

end
