(* ===== verification/Transaction_Crypto.thy ===== *)
theory Transaction_Crypto
  imports Prelude
begin

text \<open>
  \<open>crates/transaction-crypto-core/src/lib.rs\<close> and \<open>crates/transaction-crypto/src/lib.rs\<close>: the byte-level signature
  envelope of transactions, the account derived from a public key, signing from seeds, and the secret-URI reader.
  The signature suite, the hash and the mnemonic scheme are third-party crates and functions of a record.
  Text is a list of Unicode scalar values, read as UTF-8 where the code reads its bytes.
\<close>

unbundle bit_operations_syntax

subsection \<open>Constants and errors\<close>

type_synonym chars = "nat list"

record hybrid_suite =
  public_len :: usize
  secret_len :: usize
  max_signature_len :: usize
  min_falcon512_sig_len :: usize
  keypair_from_seed :: "bytes \<Rightarrow> (bytes \<times> bytes) option"
  sign_deterministic :: "bytes \<Rightarrow> bytes \<Rightarrow> bytes \<Rightarrow> bytes \<Rightarrow> (usize \<times> bytes) option"
  delta_verify :: "bytes \<Rightarrow> bytes \<Rightarrow> bytes \<Rightarrow> bytes \<Rightarrow> bool"
  blake2b :: "usize \<Rightarrow> bytes \<Rightarrow> bytes"
  mnemonic_entropy :: "chars \<Rightarrow> bytes option"
  seed_from_entropy :: "bytes \<Rightarrow> chars \<Rightarrow> bytes option"

definition MASTER_SEED_LEN :: usize where "MASTER_SEED_LEN = 32"
definition CLASSICAL_SIGNATURE_LEN :: usize where "CLASSICAL_SIGNATURE_LEN = 64"
definition DELTA_LEN :: usize where "DELTA_LEN = 1"
definition ACCOUNT_ID_LEN :: usize where "ACCOUNT_ID_LEN = 32"

definition MIN_HYBRID_SIGNATURE_LEN :: "hybrid_suite \<Rightarrow> usize" where
  "MIN_HYBRID_SIGNATURE_LEN hs = CLASSICAL_SIGNATURE_LEN + DELTA_LEN + min_falcon512_sig_len hs"

definition ACCOUNT_ID_DOMAIN :: bytes where
  "ACCOUNT_ID_DOMAIN = map of_char ''quip-account-v1''"

definition SUBSTRATE_PAIR_SIGNATURE_CONTEXT :: bytes where
  "SUBSTRATE_PAIR_SIGNATURE_CONTEXT = map of_char ''quip/substrate-pair-signature/v1''"

datatype hybrid_tx_crypto_error =
    InvalidLength (expected: usize) (actual: usize)
  | InvalidPublicKey
  | InvalidSecretKey
  | InvalidSeed
  | SigningFailed
  | InvalidMnemonic
  | UnsupportedDerivationPath

type_synonym 'a hybrid_result = "hybrid_tx_crypto_error + 'a"

definition exact_array :: "usize \<Rightarrow> bytes \<Rightarrow> bytes hybrid_result" where
  "exact_array n bs = (if length bs = n then Inr bs else Inl (InvalidLength n (length bs)))"

subsection \<open>The envelope\<close>

definition signature_wire_len :: "hybrid_suite \<Rightarrow> bytes \<Rightarrow> usize" where
  "signature_wire_len hs signature = MIN_HYBRID_SIGNATURE_LEN hs + unat (signature ! CLASSICAL_SIGNATURE_LEN)"

text \<open>\<open>None\<close> when the slice is out of range, which panics.\<close>

definition validate_signature_padding :: "hybrid_suite \<Rightarrow> bytes \<Rightarrow> usize hybrid_result option" where
  "validate_signature_padding hs signature =
     (let wire_len = signature_wire_len hs signature in
      if wire_len > length signature then None
      else if list_ex (\<lambda>byte. byte \<noteq> 0) (drop wire_len signature)
           then Some (Inl (InvalidLength wire_len (max_signature_len hs)))
           else Some (Inr wire_len))"

record hybrid_tx_signature_bytes =
  env_public :: bytes
  env_signature :: bytes

definition envelope_new :: "hybrid_suite \<Rightarrow> bytes \<Rightarrow> bytes \<Rightarrow> hybrid_tx_signature_bytes hybrid_result option" where
  "envelope_new hs public signature =
     (case exact_array (public_len hs) public of
        Inl e \<Rightarrow> Some (Inl e)
      | Inr p \<Rightarrow>
          (case exact_array (max_signature_len hs) signature of
             Inl e \<Rightarrow> Some (Inl e)
           | Inr s \<Rightarrow> map_option (\<lambda>r. and_then r (\<lambda>_. Inr \<lparr>env_public = p, env_signature = s\<rparr>)) (validate_signature_padding hs s)))"

definition account_id_from_public_bytes :: "hybrid_suite \<Rightarrow> bytes \<Rightarrow> bytes" where
  "account_id_from_public_bytes hs public = blake2b hs ACCOUNT_ID_LEN (ACCOUNT_ID_DOMAIN @ public)"

definition derived_account_id :: "hybrid_suite \<Rightarrow> hybrid_tx_signature_bytes \<Rightarrow> bytes" where
  "derived_account_id hs e = account_id_from_public_bytes hs (env_public e)"

definition envelope_verify :: "hybrid_suite \<Rightarrow> hybrid_tx_signature_bytes \<Rightarrow> bytes \<Rightarrow> bool option" where
  "envelope_verify hs e message =
     map_option (\<lambda>r. case r of
         Inl _ \<Rightarrow> False
       | Inr wire_len \<Rightarrow> delta_verify hs (env_public e) message SUBSTRATE_PAIR_SIGNATURE_CONTEXT (take wire_len (env_signature e)))
       (validate_signature_padding hs (env_signature e))"

text \<open>SCALE writes the two arrays one after the other; reading takes as many bytes and leaves the rest.\<close>

definition encode_envelope :: "hybrid_tx_signature_bytes \<Rightarrow> bytes" where
  "encode_envelope e = env_public e @ env_signature e"

definition decode_envelope :: "hybrid_suite \<Rightarrow> bytes \<Rightarrow> hybrid_tx_signature_bytes hybrid_result option" where
  "decode_envelope hs bs =
     (if length bs < public_len hs + max_signature_len hs
      then Some (Inl (InvalidLength (public_len hs + max_signature_len hs) (length bs)))
      else envelope_new hs (take (public_len hs) bs) (take (max_signature_len hs) (drop (public_len hs) bs)))"

subsection \<open>Keys and signing\<close>

definition public_key_from_seed :: "hybrid_suite \<Rightarrow> bytes \<Rightarrow> bytes hybrid_result" where
  "public_key_from_seed hs seed =
     and_then (exact_array MASTER_SEED_LEN seed) (\<lambda>seed.
     and_then (ok_or (keypair_from_seed hs seed) InvalidSeed) (\<lambda>(secret, public). Inr public))"

definition sign_payload_with_arrays ::
    "hybrid_suite \<Rightarrow> bytes \<Rightarrow> bytes \<Rightarrow> bytes \<Rightarrow> hybrid_tx_signature_bytes hybrid_result option" where
  "sign_payload_with_arrays hs secret public payload =
     (case sign_deterministic hs secret payload SUBSTRATE_PAIR_SIGNATURE_CONTEXT [] of
        None \<Rightarrow> Some (Inl SigningFailed)
      | Some (wire_len, signature) \<Rightarrow>
          if wire_len \<noteq> signature_wire_len hs signature then Some (Inl SigningFailed)
          else envelope_new hs public signature)"

definition sign_payload_from_seed :: "hybrid_suite \<Rightarrow> bytes \<Rightarrow> bytes \<Rightarrow> hybrid_tx_signature_bytes hybrid_result option" where
  "sign_payload_from_seed hs seed payload =
     (case exact_array MASTER_SEED_LEN seed of
        Inl e \<Rightarrow> Some (Inl e)
      | Inr seed \<Rightarrow>
          (case keypair_from_seed hs seed of
             None \<Rightarrow> Some (Inl InvalidSeed)
           | Some (secret, public) \<Rightarrow> sign_payload_with_arrays hs secret public payload))"

definition sign_payload_from_secret ::
    "hybrid_suite \<Rightarrow> bytes \<Rightarrow> bytes \<Rightarrow> bytes \<Rightarrow> hybrid_tx_signature_bytes hybrid_result option" where
  "sign_payload_from_secret hs secret public payload =
     (case exact_array (secret_len hs) secret of
        Inl e \<Rightarrow> Some (Inl e)
      | Inr s \<Rightarrow>
          (case exact_array (public_len hs) public of
             Inl e \<Rightarrow> Some (Inl e)
           | Inr p \<Rightarrow> sign_payload_with_arrays hs s p payload))"

subsection \<open>Secret URIs\<close>

text \<open>The standard library's \<open>split_once\<close>, \<open>strip_prefix\<close>, \<open>trim\<close> and UTF-8.\<close>

fun split_once :: "chars \<Rightarrow> chars \<Rightarrow> (chars \<times> chars) option" where
  "split_once pat [] = (if pat = [] then Some ([], []) else None)"
| "split_once pat (c # cs) =
     (if take (length pat) (c # cs) = pat then Some ([], drop (length pat) (c # cs))
      else map_option (\<lambda>(a, b). (c # a, b)) (split_once pat cs))"

definition strip_prefix :: "chars \<Rightarrow> chars \<Rightarrow> chars option" where
  "strip_prefix p s = (if take (length p) s = p then Some (drop (length p) s) else None)"

definition is_whitespace :: "nat \<Rightarrow> bool" where
  "is_whitespace c \<longleftrightarrow> (9 \<le> c \<and> c \<le> 13) \<or> c \<in> {32, 133, 160, 5760, 8232, 8233, 8239, 8287, 12288} \<or> (8192 \<le> c \<and> c \<le> 8202)"

definition trim :: "chars \<Rightarrow> chars" where
  "trim s = rev (dropWhile is_whitespace (rev (dropWhile is_whitespace s)))"

definition utf8_char :: "nat \<Rightarrow> bytes" where
  "utf8_char c =
     map of_nat (if c < 128 then [c]
       else if c < 2048 then [192 + c div 64, 128 + c mod 64]
       else if c < 65536 then [224 + c div 4096, 128 + c div 64 mod 64, 128 + c mod 64]
       else [240 + c div 262144, 128 + c div 4096 mod 64, 128 + c div 64 mod 64, 128 + c mod 64])"

definition utf8 :: "chars \<Rightarrow> bytes" where
  "utf8 s = concat (map utf8_char s)"

definition hex_digit :: "u8 \<Rightarrow> u8 hybrid_result" where
  "hex_digit ch =
     (if 48 \<le> ch \<and> ch \<le> 57 then Inr (ch - 48)
      else if 97 \<le> ch \<and> ch \<le> 102 then Inr (ch - 97 + 10)
      else if 65 \<le> ch \<and> ch \<le> 70 then Inr (ch - 65 + 10)
      else Inl InvalidSeed)"

definition decode_seed_hex :: "chars \<Rightarrow> bytes hybrid_result" where
  "decode_seed_hex hex =
     (let bs = utf8 hex in
      if length bs \<noteq> MASTER_SEED_LEN * 2 then Inl InvalidSeed
      else collect_res (\<lambda>index.
             and_then (hex_digit (bs ! (index * 2))) (\<lambda>hi.
             and_then (hex_digit (bs ! (index * 2 + 1))) (\<lambda>lo. Inr (push_bit 4 hi OR lo)))) [0 ..< MASTER_SEED_LEN])"

definition master_seed_from_mnemonic :: "hybrid_suite \<Rightarrow> chars \<Rightarrow> chars option \<Rightarrow> bytes hybrid_result" where
  "master_seed_from_mnemonic hs phrase password =
     and_then (ok_or (mnemonic_entropy hs phrase) InvalidMnemonic) (\<lambda>entropy.
     and_then (ok_or (seed_from_entropy hs entropy (case password of None \<Rightarrow> [] | Some p \<Rightarrow> p)) InvalidMnemonic) (\<lambda>big_seed.
       Inr (take MASTER_SEED_LEN big_seed)))"

definition text_of :: "string \<Rightarrow> chars" where
  "text_of s = map of_char s"

definition master_seed_from_secret_uri :: "hybrid_suite \<Rightarrow> chars \<Rightarrow> bytes hybrid_result" where
  "master_seed_from_secret_uri hs uri =
     (let (phrase, password) = (case split_once (text_of ''///'') uri of
          Some (phrase, password) \<Rightarrow> (phrase, Some password)
        | None \<Rightarrow> (uri, None));
          phrase = trim phrase
      in case (case strip_prefix (text_of ''0x'') phrase of Some h \<Rightarrow> Some h | None \<Rightarrow> strip_prefix (text_of ''0X'') phrase) of
           Some hex \<Rightarrow> decode_seed_hex hex
         | None \<Rightarrow>
             if of_char CHR ''/'' \<in> set phrase then Inl UnsupportedDerivationPath
             else master_seed_from_mnemonic hs phrase password)"

subsection \<open>The runtime's signature\<close>

text \<open>
  The runtime's key and signature types wrap the same bytes. Their signing and verification are third-party:
  \<open>pair_verify signature message public\<close>.
\<close>

definition account_id_from_public :: "hybrid_suite \<Rightarrow> bytes \<Rightarrow> bytes" where
  "account_id_from_public hs public = account_id_from_public_bytes hs public"

definition tx_sign :: "hybrid_suite \<Rightarrow> ('k \<Rightarrow> bytes) \<Rightarrow> ('k \<Rightarrow> bytes \<Rightarrow> bytes) \<Rightarrow> 'k \<Rightarrow> bytes \<Rightarrow> hybrid_tx_signature_bytes option" where
  "tx_sign hs pair_public pair_sign pair message =
     (case envelope_new hs (pair_public pair) (pair_sign pair message) of Some (Inr e) \<Rightarrow> Some e | _ \<Rightarrow> None)"

definition tx_verify ::
    "hybrid_suite \<Rightarrow> (bytes \<Rightarrow> bytes \<Rightarrow> bytes \<Rightarrow> bool) \<Rightarrow> hybrid_tx_signature_bytes \<Rightarrow> bytes \<Rightarrow> bytes \<Rightarrow> bool" where
  "tx_verify hs pair_verify sig msg signer =
     (if account_id_from_public hs (env_public sig) \<noteq> signer then False
      else pair_verify (env_signature sig) msg (env_public sig))"

end
