(* ===== verification/Crypto_Theorems.thy ===== *)
theory Crypto_Theorems
  imports Transaction_Crypto
begin

text \<open>
  The envelope has one encoding per signature, what is signed verifies for the derived account and no other, and the
  secret-URI reader inverts hexadecimal and never accepts a derivation path.
\<close>

unbundle bit_operations_syntax

subsection \<open>The envelope\<close>

text \<open>
  What the suite documents: a signature is as long as its minimum plus the byte after the classical part, at most
  the maximal length; key generation and signing fill arrays of the declared lengths, signing leaves zeros behind the
  signature, and a signature made with the secret key of a seed verifies under its public key.
\<close>

definition suite_laws :: "hybrid_suite \<Rightarrow> bool" where
  "suite_laws hs \<longleftrightarrow>
     MIN_HYBRID_SIGNATURE_LEN hs + 255 \<le> max_signature_len hs \<and>
     (\<forall>seed secret public. keypair_from_seed hs seed = Some (secret, public) \<longrightarrow>
        length secret = secret_len hs \<and> length public = public_len hs) \<and>
     (\<forall>secret m ctx aux wire_len sig. sign_deterministic hs secret m ctx aux = Some (wire_len, sig) \<longrightarrow>
        length sig = max_signature_len hs \<and> wire_len = signature_wire_len hs sig \<and> (\<forall>b \<in> set (drop wire_len sig). b = 0)) \<and>
     (\<forall>seed secret public m ctx aux wire_len sig. keypair_from_seed hs seed = Some (secret, public) \<longrightarrow>
        sign_deterministic hs secret m ctx aux = Some (wire_len, sig) \<longrightarrow> delta_verify hs public m ctx (take wire_len sig)) \<and>
     (\<forall>entropy password big. seed_from_entropy hs entropy password = Some big \<longrightarrow> length big = 64)"

lemma suite_lawsD:
  assumes "suite_laws hs"
  shows "MIN_HYBRID_SIGNATURE_LEN hs + 255 \<le> max_signature_len hs"
    "keypair_from_seed hs seed = Some (secret, public) \<Longrightarrow> length public = public_len hs"
    "sign_deterministic hs secret m ctx aux = Some (wire_len, sig) \<Longrightarrow>
       length sig = max_signature_len hs \<and> wire_len = signature_wire_len hs sig \<and> (\<forall>b \<in> set (drop wire_len sig). b = 0)"
    "keypair_from_seed hs seed = Some (secret, public) \<Longrightarrow> sign_deterministic hs secret m ctx aux = Some (wire_len, sig) \<Longrightarrow>
       delta_verify hs public m ctx (take wire_len sig)"
    "seed_from_entropy hs entropy password = Some big \<Longrightarrow> length big = 64"
proof -
  note a = assms [unfolded suite_laws_def]
  show "MIN_HYBRID_SIGNATURE_LEN hs + 255 \<le> max_signature_len hs" using a by (elim conjE)
  show "keypair_from_seed hs seed = Some (secret, public) \<Longrightarrow> length public = public_len hs"
    using a by (elim conjE) blast
  show "sign_deterministic hs secret m ctx aux = Some (wire_len, sig) \<Longrightarrow>
       length sig = max_signature_len hs \<and> wire_len = signature_wire_len hs sig \<and> (\<forall>b \<in> set (drop wire_len sig). b = 0)"
    using a by (elim conjE) presburger
  show "keypair_from_seed hs seed = Some (secret, public) \<Longrightarrow> sign_deterministic hs secret m ctx aux = Some (wire_len, sig) \<Longrightarrow>
       delta_verify hs public m ctx (take wire_len sig)"
    using a by (elim conjE) presburger
  show "seed_from_entropy hs entropy password = Some big \<Longrightarrow> length big = 64" using a by (elim conjE) presburger
qed

definition canonical :: "hybrid_suite \<Rightarrow> hybrid_tx_signature_bytes \<Rightarrow> bool" where
  "canonical hs e \<longleftrightarrow> length (env_public e) = public_len hs \<and> length (env_signature e) = max_signature_len hs \<and>
     (\<forall>b \<in> set (drop (signature_wire_len hs (env_signature e)) (env_signature e)). b = 0)"

lemma wire_len_in_range:
  assumes "suite_laws hs"
  shows "signature_wire_len hs sig \<le> max_signature_len hs"
proof -
  have "unat (sig ! CLASSICAL_SIGNATURE_LEN) < 256" using unsigned_less [of "sig ! CLASSICAL_SIGNATURE_LEN"] by simp
  then show ?thesis using suite_lawsD(1) [OF assms] by (simp add: signature_wire_len_def)
qed

lemma validate_signature_padding_eq:
  assumes "suite_laws hs" "length sig = max_signature_len hs"
  shows "validate_signature_padding hs sig =
    Some (if \<forall>b \<in> set (drop (signature_wire_len hs sig) sig). b = 0 then Inr (signature_wire_len hs sig)
          else Inl (InvalidLength (signature_wire_len hs sig) (max_signature_len hs)))"
  using wire_len_in_range [OF assms(1), of sig] assms(2)
  by (auto simp: validate_signature_padding_def Let_def list_ex_iff)

lemma envelope_new_eq:
  assumes "suite_laws hs"
  shows "envelope_new hs p s \<noteq> None"
    "envelope_new hs p s = Some (Inr e) \<longleftrightarrow> canonical hs e \<and> e = \<lparr>env_public = p, env_signature = s\<rparr>"
  using validate_signature_padding_eq [OF assms, of s]
  by (auto simp: envelope_new_def exact_array_def canonical_def split: if_splits)

lemma decode_envelope_eq:
  assumes "suite_laws hs"
  shows "decode_envelope hs bs \<noteq> None"
    "decode_envelope hs bs = Some (Inr e) \<longleftrightarrow>
       canonical hs e \<and> public_len hs + max_signature_len hs \<le> length bs \<and>
       encode_envelope e = take (public_len hs + max_signature_len hs) bs"
proof -
  show "decode_envelope hs bs \<noteq> None" using envelope_new_eq(1) [OF assms] by (simp add: decode_envelope_def)
  let ?P = "public_len hs" and ?S = "max_signature_len hs"
  have "encode_envelope e = take (?P + ?S) bs \<longleftrightarrow> e = \<lparr>env_public = take ?P bs, env_signature = take ?S (drop ?P bs)\<rparr>"
    if "canonical hs e" "?P + ?S \<le> length bs"
  proof -
    have "take (?P + ?S) bs = take ?P bs @ take ?S (drop ?P bs)" by (simp add: take_add)
    moreover have "length (env_public e) = length (take ?P bs)" using that by (simp add: canonical_def)
    ultimately have "encode_envelope e = take (?P + ?S) bs \<longleftrightarrow> env_public e = take ?P bs \<and> env_signature e = take ?S (drop ?P bs)"
      by (simp add: encode_envelope_def)
    then show ?thesis by auto
  qed
  then show "decode_envelope hs bs = Some (Inr e) \<longleftrightarrow>
      canonical hs e \<and> ?P + ?S \<le> length bs \<and> encode_envelope e = take (?P + ?S) bs"
    using envelope_new_eq(2) [OF assms, of "take ?P bs" "take ?S (drop ?P bs)" e]
    by (auto simp: decode_envelope_def)
qed

lemma canonical_by_wire:
  assumes "suite_laws hs" "canonical hs e" "canonical hs f" "env_public e = env_public f"
    "take (signature_wire_len hs (env_signature e)) (env_signature e) = take (signature_wire_len hs (env_signature f)) (env_signature f)"
  shows "e = f"
proof -
  let ?w = "signature_wire_len hs (env_signature e)" and ?v = "signature_wire_len hs (env_signature f)"
  have len: "length (env_signature e) = max_signature_len hs" "length (env_signature f) = max_signature_len hs"
    "?w \<le> max_signature_len hs" "?v \<le> max_signature_len hs"
    using assms(2,3) wire_len_in_range [OF assms(1)] by (simp_all add: canonical_def)
  then have w: "?w = ?v" using arg_cong [OF assms(5), of length] by simp
  have zeros: "drop ?w (env_signature e) = replicate (max_signature_len hs - ?w) 0"
    "drop ?v (env_signature f) = replicate (max_signature_len hs - ?v) 0"
    using assms(2,3) len by (auto simp: canonical_def intro!: replicate_eqI)
  have "env_signature e = env_signature f"
    using assms(5) zeros w append_take_drop_id [of ?w "env_signature e"] append_take_drop_id [of ?v "env_signature f"] by metis
  then show ?thesis using assms(4) by simp
qed

lemma decode_envelope_prefix:
  assumes "suite_laws hs"
  shows "decode_envelope hs bs = Some (Inr e) \<longleftrightarrow> canonical hs e \<and> (\<exists>rest. bs = encode_envelope e @ rest)"
proof
  assume "decode_envelope hs bs = Some (Inr e)"
  then have d: "canonical hs e" "encode_envelope e = take (public_len hs + max_signature_len hs) bs"
    using decode_envelope_eq(2) [OF assms] by blast+
  moreover have "\<exists>rest. bs = encode_envelope e @ rest" using d(2) append_take_drop_id by metis
  ultimately show "canonical hs e \<and> (\<exists>rest. bs = encode_envelope e @ rest)" by blast
next
  assume "canonical hs e \<and> (\<exists>rest. bs = encode_envelope e @ rest)"
  then obtain rest where c: "canonical hs e" "bs = encode_envelope e @ rest" by blast
  then have "length (encode_envelope e) = public_len hs + max_signature_len hs" by (simp add: canonical_def encode_envelope_def)
  then have "take (public_len hs + max_signature_len hs) bs = encode_envelope e" "public_len hs + max_signature_len hs \<le> length bs"
    using c(2) by simp_all
  then show "decode_envelope hs bs = Some (Inr e)" using c(1) decode_envelope_eq(2) [OF assms] by metis
qed

text \<open>
  C32: decoding never panics. It accepts exactly the inputs that begin with the encoding of an envelope whose
  signature is followed by zeros only, ignores what comes after it, and returns that envelope; an input of
  exactly the length of an envelope is accepted only as the one encoding of what it decodes to. An envelope of the
  right lengths that verifies is of this form, and two such envelopes with equal public keys and equal
  signature bytes before the padding are equal.
\<close>

theorem envelope_canonical:
  assumes "suite_laws hs"
  shows "decode_envelope hs bs \<noteq> None \<and>
    (\<forall>e. decode_envelope hs bs = Some (Inr e) \<longleftrightarrow>
       canonical hs e \<and> (\<exists>rest. bs = encode_envelope e @ rest)) \<and>
    (length bs = public_len hs + max_signature_len hs \<longrightarrow>
       (\<forall>e. decode_envelope hs bs = Some (Inr e) \<longleftrightarrow> canonical hs e \<and> bs = encode_envelope e)) \<and>
    (\<forall>e m. length (env_public e) = public_len hs \<longrightarrow> length (env_signature e) = max_signature_len hs \<longrightarrow>
       envelope_verify hs e m = Some True \<longrightarrow> canonical hs e) \<and>
    (\<forall>e f. canonical hs e \<longrightarrow> canonical hs f \<longrightarrow> env_public e = env_public f \<longrightarrow>
       take (signature_wire_len hs (env_signature e)) (env_signature e) =
       take (signature_wire_len hs (env_signature f)) (env_signature f) \<longrightarrow> e = f)"
proof (intro conjI allI impI)
  show "decode_envelope hs bs \<noteq> None" by (rule decode_envelope_eq(1) [OF assms])
next
  fix e show "decode_envelope hs bs = Some (Inr e) \<longleftrightarrow> canonical hs e \<and> (\<exists>rest. bs = encode_envelope e @ rest)"
    by (rule decode_envelope_prefix [OF assms])
next
  fix e assume "length bs = public_len hs + max_signature_len hs"
  then show "decode_envelope hs bs = Some (Inr e) \<longleftrightarrow> canonical hs e \<and> bs = encode_envelope e"
    unfolding decode_envelope_prefix [OF assms] by (auto simp: canonical_def encode_envelope_def)
next
  fix e m assume len: "length (env_public e) = public_len hs" "length (env_signature e) = max_signature_len hs"
    and v: "envelope_verify hs e m = Some True"
  then show "canonical hs e"
    by (auto simp: envelope_verify_def validate_signature_padding_eq [OF assms len(2)] canonical_def split: if_splits)
next
  fix e f assume "canonical hs e" "canonical hs f" "env_public e = env_public f"
    "take (signature_wire_len hs (env_signature e)) (env_signature e) = take (signature_wire_len hs (env_signature f)) (env_signature f)"
  then show "e = f" by (rule canonical_by_wire [OF assms])
qed

subsection \<open>Signing\<close>

lemma sign_payload_from_seed_Inr:
  assumes "suite_laws hs" "sign_payload_from_seed hs seed payload = Some (Inr e)"
  obtains secret wire_len where "length seed = 32" "keypair_from_seed hs seed = Some (secret, env_public e)"
    "sign_deterministic hs secret payload SUBSTRATE_PAIR_SIGNATURE_CONTEXT [] = Some (wire_len, env_signature e)" "canonical hs e"
proof -
  have len: "length seed = 32" using assms(2) by (simp add: sign_payload_from_seed_def exact_array_def MASTER_SEED_LEN_def split: if_splits)
  then have s: "sign_payload_from_seed hs seed payload = (case keypair_from_seed hs seed of None \<Rightarrow> Some (Inl InvalidSeed)
      | Some (secret, public) \<Rightarrow> sign_payload_with_arrays hs secret public payload)"
    by (simp add: sign_payload_from_seed_def exact_array_def MASTER_SEED_LEN_def)
  then obtain secret public where k: "keypair_from_seed hs seed = Some (secret, public)"
    using assms(2) by (cases "keypair_from_seed hs seed") auto
  with s assms(2) have w: "sign_payload_with_arrays hs secret public payload = Some (Inr e)" by simp
  then obtain wire_len sig where sd: "sign_deterministic hs secret payload SUBSTRATE_PAIR_SIGNATURE_CONTEXT [] = Some (wire_len, sig)"
    by (cases "sign_deterministic hs secret payload SUBSTRATE_PAIR_SIGNATURE_CONTEXT []") (auto simp: sign_payload_with_arrays_def)
  with w have "envelope_new hs public sig = Some (Inr e)" by (simp add: sign_payload_with_arrays_def split: if_splits)
  then have "canonical hs e" "e = \<lparr>env_public = public, env_signature = sig\<rparr>" using envelope_new_eq(2) [OF assms(1)] by blast+
  then show thesis using that len k sd by simp
qed

lemma sign_payload_from_seed_ok:
  assumes laws: "suite_laws hs" and k: "length seed = 32" "keypair_from_seed hs seed = Some (secret, public)"
    and s: "sign_deterministic hs secret payload SUBSTRATE_PAIR_SIGNATURE_CONTEXT [] = Some (wire_len, sig)"
  shows "sign_payload_from_seed hs seed payload = Some (Inr \<lparr>env_public = public, env_signature = sig\<rparr>)"
proof -
  have "length public = public_len hs" "length sig = max_signature_len hs" "wire_len = signature_wire_len hs sig"
    "\<forall>b \<in> set (drop wire_len sig). b = 0"
    using suite_lawsD(2) [OF laws k(2)] suite_lawsD(3) [OF laws s] by blast+
  then have "canonical hs \<lparr>env_public = public, env_signature = sig\<rparr>" "wire_len = signature_wire_len hs sig"
    by (simp_all add: canonical_def)
  then show ?thesis using k s envelope_new_eq(2) [OF laws, of public sig]
    by (simp add: sign_payload_from_seed_def sign_payload_with_arrays_def exact_array_def MASTER_SEED_LEN_def)
qed

text \<open>
  C31: signing with a seed succeeds exactly when the seed has 32 bytes and the suite can derive its keys and sign; the
  envelope then carries the public key of the seed, verifies for the payload, survives encoding, and is accepted
  by the runtime for the account derived from that key and for no other account.
\<close>

theorem signed_payload_verifies:
  assumes laws: "suite_laws hs"
    and wrapper: "\<And>p s m. pair_verify s m p = (envelope_verify hs \<lparr>env_public = p, env_signature = s\<rparr> m = Some True)"
  shows "((\<exists>e. sign_payload_from_seed hs seed payload = Some (Inr e)) \<longleftrightarrow>
      length seed = 32 \<and> (\<exists>secret public. keypair_from_seed hs seed = Some (secret, public) \<and>
        sign_deterministic hs secret payload SUBSTRATE_PAIR_SIGNATURE_CONTEXT [] \<noteq> None)) \<and>
    (\<forall>e. sign_payload_from_seed hs seed payload = Some (Inr e) \<longrightarrow>
      public_key_from_seed hs seed = Inr (env_public e) \<and> envelope_verify hs e payload = Some True \<and>
      decode_envelope hs (encode_envelope e) = Some (Inr e) \<and>
      (\<forall>signer. tx_verify hs pair_verify e payload signer \<longleftrightarrow> signer = derived_account_id hs e))"
proof (intro conjI allI impI)
  show "(\<exists>e. sign_payload_from_seed hs seed payload = Some (Inr e)) \<longleftrightarrow>
      length seed = 32 \<and> (\<exists>secret public. keypair_from_seed hs seed = Some (secret, public) \<and>
        sign_deterministic hs secret payload SUBSTRATE_PAIR_SIGNATURE_CONTEXT [] \<noteq> None)"
  proof
    assume "\<exists>e. sign_payload_from_seed hs seed payload = Some (Inr e)"
    then obtain e where "sign_payload_from_seed hs seed payload = Some (Inr e)" by blast
    from sign_payload_from_seed_Inr [OF laws this] show "length seed = 32 \<and> (\<exists>secret public. keypair_from_seed hs seed = Some (secret, public) \<and>
        sign_deterministic hs secret payload SUBSTRATE_PAIR_SIGNATURE_CONTEXT [] \<noteq> None)" by (metis option.discI)
  next
    assume "length seed = 32 \<and> (\<exists>secret public. keypair_from_seed hs seed = Some (secret, public) \<and>
        sign_deterministic hs secret payload SUBSTRATE_PAIR_SIGNATURE_CONTEXT [] \<noteq> None)"
    then show "\<exists>e. sign_payload_from_seed hs seed payload = Some (Inr e)" using sign_payload_from_seed_ok [OF laws] by fastforce
  qed
next
  fix e assume "sign_payload_from_seed hs seed payload = Some (Inr e)"
  then obtain secret wire_len where e: "length seed = 32" "keypair_from_seed hs seed = Some (secret, env_public e)"
    "sign_deterministic hs secret payload SUBSTRATE_PAIR_SIGNATURE_CONTEXT [] = Some (wire_len, env_signature e)" "canonical hs e"
    by (rule sign_payload_from_seed_Inr [OF laws])
  show "public_key_from_seed hs seed = Inr (env_public e)"
    using e by (simp add: public_key_from_seed_def exact_array_def MASTER_SEED_LEN_def)
  have "wire_len = signature_wire_len hs (env_signature e)" using suite_lawsD(3) [OF laws e(3)] by blast
  moreover have "delta_verify hs (env_public e) payload SUBSTRATE_PAIR_SIGNATURE_CONTEXT (take wire_len (env_signature e))"
    by (rule suite_lawsD(4) [OF laws e(2,3)])
  moreover have "validate_signature_padding hs (env_signature e) = Some (Inr (signature_wire_len hs (env_signature e)))"
    using e(4) validate_signature_padding_eq [OF laws, of "env_signature e"] by (simp add: canonical_def)
  ultimately show v: "envelope_verify hs e payload = Some True" by (simp add: envelope_verify_def)
  show "decode_envelope hs (encode_envelope e) = Some (Inr e)"
    using e(4) decode_envelope_eq(2) [OF laws, of "encode_envelope e" e] by (simp add: canonical_def encode_envelope_def)
  fix signer
  have "envelope_verify hs \<lparr>env_public = env_public e, env_signature = env_signature e\<rparr> payload = Some True"
  proof -
    have "\<lparr>env_public = env_public e, env_signature = env_signature e\<rparr> = e" by simp
    then show ?thesis using v by (rule ssubst)
  qed
  then show "tx_verify hs pair_verify e payload signer \<longleftrightarrow> signer = derived_account_id hs e"
    by (auto simp: tx_verify_def wrapper account_id_from_public_def derived_account_id_def)
qed

subsection \<open>Secret URIs\<close>

abbreviation slash :: nat where "slash \<equiv> 47"

lemma text_simps: "text_of ''///'' = [slash, slash, slash]" "text_of ''0x'' = [48, 120]" "text_of ''0X'' = [48, 88]"
  "of_char CHR ''/'' = (47 :: nat)"
  by (simp_all add: text_of_def)

lemma split_once_Some: "split_once pat xs = Some (a, b) \<Longrightarrow> xs = a @ pat @ b"
proof (induction pat xs arbitrary: a b rule: split_once.induct)
  case (2 pat c cs)
  show ?case
  proof (cases "take (length pat) (c # cs) = pat")
    case True
    then show ?thesis using 2(2) append_take_drop_id [of "length pat" "c # cs"] by (simp del: append_take_drop_id)
  next
    case False
    then show ?thesis using 2 by auto
  qed
qed (auto split: if_splits)

lemma split_once_first: "x \<notin> set a \<Longrightarrow> split_once (x # pat) (a @ (x # pat) @ b) = Some (a, b)"
  by (induction a) (auto simp: take_Cons')

lemma split_once_None: "x \<notin> set a \<Longrightarrow> split_once (x # pat) a = None"
  by (induction a) (auto simp: take_Cons')

lemma trim_split: "\<exists>l r. xs = l @ trim xs @ r \<and> (\<forall>c \<in> set l \<union> set r. is_whitespace c)"
proof -
  let ?y = "dropWhile is_whitespace xs"
  have "xs = takeWhile is_whitespace xs @ ?y" by simp
  moreover have "?y = trim xs @ rev (takeWhile is_whitespace (rev ?y))"
    unfolding trim_def by (metis rev_append rev_rev_ident takeWhile_dropWhile_id)
  ultimately have "xs = takeWhile is_whitespace xs @ trim xs @ rev (takeWhile is_whitespace (rev ?y))" by metis
  then show ?thesis by (metis Un_iff set_rev set_takeWhileD)
qed

lemma trim_core:
  assumes "\<forall>c \<in> set l \<union> set r. is_whitespace c" "core \<noteq> []" "\<not> is_whitespace (hd core)" "\<not> is_whitespace (last core)"
  shows "trim (l @ core @ r) = core"
proof -
  have "dropWhile is_whitespace (l @ core @ r) = core @ r"
    using assms by (cases core) (auto simp: dropWhile_append)
  moreover have "dropWhile is_whitespace (rev r @ rev core) = rev core"
    using assms by (cases core rule: rev_cases) (auto simp: dropWhile_append)
  ultimately show ?thesis by (simp add: trim_def)
qed

lemma slash_not_whitespace: "\<not> is_whitespace slash"
  by (simp add: is_whitespace_def)

text \<open>The digits of a byte, in either case.\<close>

definition hex_char_of :: "nat \<Rightarrow> nat \<Rightarrow> bool" where
  "hex_char_of d c \<longleftrightarrow> (d < 10 \<and> c = 48 + d) \<or> (10 \<le> d \<and> d < 16 \<and> (c = 87 + d \<or> c = 55 + d))"

definition hex_text_of :: "bytes \<Rightarrow> chars \<Rightarrow> bool" where
  "hex_text_of seed digits \<longleftrightarrow> length digits = 2 * length seed \<and>
     (\<forall>i < length seed. hex_char_of (unat (seed ! i) div 16) (digits ! (i * 2)) \<and> hex_char_of (unat (seed ! i) mod 16) (digits ! (i * 2 + 1)))"

lemma utf8_ascii: "\<forall>c \<in> set s. c < 128 \<Longrightarrow> utf8 s = map of_nat s"
  by (induction s) (auto simp: utf8_def utf8_char_def)

lemma hex_digit_iff: "hex_digit b = Inr d \<longleftrightarrow> unat d < 16 \<and> hex_char_of (unat d) (unat b)"
proof -
  have eq: "x = d \<longleftrightarrow> unat x = unat d" for x :: u8 by (simp add: word_unat_eq_iff)
  have sub: "b - 97 + 10 = b - 87" "b - 65 + 10 = b - 55" by simp_all
  show ?thesis
  proof (cases "48 \<le> b \<and> b \<le> 57 \<or> 97 \<le> b \<and> b \<le> 102 \<or> 65 \<le> b \<and> b \<le> 70")
    case True
    then show ?thesis
      unfolding hex_digit_def sub hex_char_of_def word_le_nat_alt by (auto simp: eq unat_sub_if')
  next
    case False
    then show ?thesis
      unfolding hex_digit_def hex_char_of_def word_le_nat_alt by auto
  qed
qed

lemma nibbles:
  assumes "unat hi < 16" "unat lo < 16"
  shows "push_bit 4 hi OR lo = b \<longleftrightarrow> unat hi = unat b div 16 \<and> unat lo = unat (b :: u8) mod 16"
proof -
  have "unat (take_bit 4 lo) = take_bit 4 (unat lo)" by (rule unsigned_take_bit_eq)
  then have "unat (take_bit 4 lo) = unat lo" using assms(2) by (simp add: take_bit_nat_eq_self)
  then have lo: "take_bit 4 lo = lo" by (simp add: word_unat_eq_iff)
  have "\<not> bit (push_bit 4 hi) n \<or> \<not> bit lo n" for n
    using bit_take_bit_iff [of 4 lo n] unfolding lo by (auto simp: bit_push_bit_iff)
  then have "push_bit 4 hi OR lo = push_bit 4 hi + lo" by (rule disjunctive_add [symmetric])
  moreover have "unat (push_bit 4 hi + lo) = unat hi * 16 + unat lo"
    using assms by (simp add: push_bit_eq_mult unat_word_ariths)
  ultimately have "push_bit 4 hi OR lo = b \<longleftrightarrow> unat hi * 16 + unat lo = unat b" by (simp add: word_unat_eq_iff)
  moreover have "h * 16 + l = n \<longleftrightarrow> h = n div 16 \<and> l = n mod 16" if "l < 16" for h l n :: nat
    using that by auto
  ultimately show ?thesis using assms(2) by simp
qed

lemma hex_byte_iff:
  "and_then (hex_digit x) (\<lambda>hi. and_then (hex_digit y) (\<lambda>lo. Inr (push_bit 4 hi OR lo))) = Inr b \<longleftrightarrow>
     hex_char_of (unat b div 16) (unat x) \<and> hex_char_of (unat b mod 16) (unat y)"
proof
  assume "and_then (hex_digit x) (\<lambda>hi. and_then (hex_digit y) (\<lambda>lo. Inr (push_bit 4 hi OR lo))) = Inr b"
  then obtain hi lo where "hex_digit x = Inr hi" "hex_digit y = Inr lo" "push_bit 4 hi OR lo = b" by auto
  then show "hex_char_of (unat b div 16) (unat x) \<and> hex_char_of (unat b mod 16) (unat y)"
    using nibbles by (auto simp: hex_digit_iff)
next
  assume h: "hex_char_of (unat b div 16) (unat x) \<and> hex_char_of (unat b mod 16) (unat y)"
  have b: "unat b < 256" using unsigned_less [of b] by simp
  define hi lo :: u8 where "hi = of_nat (unat b div 16)" and "lo = of_nat (unat b mod 16)"
  have u: "unat hi = unat b div 16" "unat lo = unat b mod 16"
    using b by (simp_all add: hi_def lo_def unat_of_nat)
  then have "hex_digit x = Inr hi" "hex_digit y = Inr lo" "push_bit 4 hi OR lo = b"
    using h b nibbles [of hi lo b] by (auto simp: hex_digit_iff)
  then show "and_then (hex_digit x) (\<lambda>hi. and_then (hex_digit y) (\<lambda>lo. Inr (push_bit 4 hi OR lo))) = Inr b" by simp
qed

lemma utf8_ascii_bytes:
  assumes "\<forall>c \<in> set s. c < 1114112" "\<forall>b \<in> set (utf8 s). unat b < 128"
  shows "\<forall>c \<in> set s. c < 128"
proof
  fix c assume c: "c \<in> set s"
  have "unat (hd (utf8_char c)) < 128" using assms(2) c by (auto simp: utf8_def utf8_char_def)
  moreover have "c < 1114112" using assms(1) c by blast
  ultimately show "c < 128"
    by (auto simp: utf8_char_def unat_of_nat unat_word_ariths split: if_splits)
qed

lemma hex_char_of_ascii: "hex_char_of d c \<Longrightarrow> c < 128 \<and> c \<noteq> slash"
  by (auto simp: hex_char_of_def)

lemma hex_text_of_chars:
  assumes "hex_text_of seed digits" "c \<in> set digits"
  shows "c < 128 \<and> c \<noteq> slash"
proof -
  obtain k where k: "k < length digits" "digits ! k = c" using assms(2) by (auto simp: in_set_conv_nth)
  define i where "i = k div 2"
  have i: "i < length seed" using k(1) assms(1) by (auto simp: hex_text_of_def i_def)
  have "k = i * 2 \<or> k = i * 2 + 1" unfolding i_def by linarith
  then show ?thesis using k(2) i assms(1) hex_char_of_ascii unfolding hex_text_of_def by blast
qed

lemma decode_seed_hex_iff:
  assumes valid: "\<forall>c \<in> set digits. c < 1114112"
  shows "decode_seed_hex digits = Inr seed \<longleftrightarrow> length seed = 32 \<and> hex_text_of seed digits"
proof
  assume d: "decode_seed_hex digits = Inr seed"
  let ?bs = "utf8 digits"
  have len: "length ?bs = 64" using d by (auto simp: decode_seed_hex_def Let_def MASTER_SEED_LEN_def split: if_splits)
  then have c: "collect_res (\<lambda>i. and_then (hex_digit (?bs ! (i * 2))) (\<lambda>hi. and_then (hex_digit (?bs ! (i * 2 + 1))) (\<lambda>lo. Inr (push_bit 4 hi OR lo)))) [0 ..< 32] = Inr seed"
    using d by (simp add: decode_seed_hex_def Let_def MASTER_SEED_LEN_def)
  have seed: "length seed = 32" using collect_res_length [OF c] by simp
  have h: "hex_char_of (unat (seed ! i) div 16) (unat (?bs ! (i * 2))) \<and> hex_char_of (unat (seed ! i) mod 16) (unat (?bs ! (i * 2 + 1)))"
    if "i < 32" for i
    using collect_res_nth [OF c, of i] that by (simp only: length_upt nth_upt hex_byte_iff) simp
  then have raw: "hex_text_of seed (map unat ?bs)" using seed len by (simp add: hex_text_of_def)
  have "\<forall>b \<in> set ?bs. unat b < 128" using hex_text_of_chars [OF raw] by auto
  then have ascii: "\<forall>c \<in> set digits. c < 128" by (rule utf8_ascii_bytes [OF valid])
  have "map unat ?bs = map (\<lambda>c. c) digits"
    unfolding utf8_ascii [OF ascii] map_map by (rule map_cong [OF refl]) (use ascii in \<open>fastforce simp: unat_of_nat\<close>)
  then show "length seed = 32 \<and> hex_text_of seed digits" using raw seed by simp
next
  assume s: "length seed = 32 \<and> hex_text_of seed digits"
  have ascii: "\<forall>c \<in> set digits. c < 128" using s hex_text_of_chars by blast
  let ?bs = "utf8 digits"
  have bs: "?bs = map of_nat digits" by (rule utf8_ascii [OF ascii])
  have u: "unat (?bs ! k) = digits ! k" if "k < 64" for k
  proof -
    have "k < length digits" using s that by (simp add: hex_text_of_def)
    moreover from this have "digits ! k < 256" using ascii nth_mem by fastforce
    ultimately show ?thesis by (simp add: bs unat_of_nat)
  qed
  have "collect_res (\<lambda>i. and_then (hex_digit (?bs ! (i * 2))) (\<lambda>hi. and_then (hex_digit (?bs ! (i * 2 + 1))) (\<lambda>lo. Inr (push_bit 4 hi OR lo)))) [0 ..< 32] =
      Inr (map ((!) seed) [0 ..< 32])"
  proof (rule collect_res_ok)
    fix i :: nat assume "i \<in> set [0 ..< 32]"
    then have i: "i < 32" by simp
    show "and_then (hex_digit (?bs ! (i * 2))) (\<lambda>hi. and_then (hex_digit (?bs ! (i * 2 + 1))) (\<lambda>lo. Inr (push_bit 4 hi OR lo))) = Inr (seed ! i)"
      unfolding hex_byte_iff using s i u [of "i * 2"] u [of "i * 2 + 1"] by (simp add: hex_text_of_def)
  qed
  moreover have "map ((!) seed) [0 ..< 32] = seed" using s by (metis map_nth)
  ultimately show "decode_seed_hex digits = Inr seed" using s
    by (simp add: decode_seed_hex_def Let_def MASTER_SEED_LEN_def bs hex_text_of_def)
qed

text \<open>The part before the password, without a slash, and the password.\<close>

definition secret_phrase :: "chars \<Rightarrow> chars \<Rightarrow> chars option \<Rightarrow> bool" where
  "secret_phrase uri phrase password \<longleftrightarrow> slash \<notin> set phrase \<and>
     (case password of None \<Rightarrow> uri = phrase | Some p \<Rightarrow> uri = phrase @ [slash, slash, slash] @ p)"

definition hex_prefixed :: "chars \<Rightarrow> chars \<Rightarrow> bool" where
  "hex_prefixed s digits \<longleftrightarrow> s = 48 # 120 # digits \<or> s = 48 # 88 # digits"

lemma strip_hex_prefix:
  "(case strip_prefix (text_of ''0x'') s of Some h \<Rightarrow> Some h | None \<Rightarrow> strip_prefix (text_of ''0X'') s) = Some digits \<longleftrightarrow> hex_prefixed s digits"
  unfolding text_simps strip_prefix_def hex_prefixed_def
  by (cases s; cases "tl s") auto

lemma set_trim: "set (trim s) \<subseteq> set s"
  using trim_split [of s] by (metis Un_iff set_append subsetI)

lemma slash_in_trim: "slash \<in> set s \<Longrightarrow> slash \<in> set (trim s)"
  using trim_split [of s] slash_not_whitespace by (metis Un_iff set_append)

lemma secret_uri_split:
  assumes "secret_phrase uri phrase password"
  shows "master_seed_from_secret_uri hs uri =
    (case (case strip_prefix (text_of ''0x'') (trim phrase) of Some h \<Rightarrow> Some h | None \<Rightarrow> strip_prefix (text_of ''0X'') (trim phrase)) of
       Some hex \<Rightarrow> decode_seed_hex hex
     | None \<Rightarrow> master_seed_from_mnemonic hs (trim phrase) password)"
proof -
  have "slash \<notin> set phrase" using assms by (simp add: secret_phrase_def)
  then have "slash \<notin> set (trim phrase)" using set_trim by blast
  moreover have "split_once [slash, slash, slash] uri = map_option (\<lambda>p. (phrase, p)) password"
    using assms split_once_first [of slash phrase "[slash, slash]"] split_once_None [of slash phrase "[slash, slash]"]
    by (cases password) (auto simp: secret_phrase_def)
  moreover have "uri = phrase" if "password = None" using assms that by (simp add: secret_phrase_def)
  ultimately show ?thesis unfolding master_seed_from_secret_uri_def text_simps(1,4)
    by (cases password) (simp_all add: Let_def split: option.split)
qed

lemma mnemonic_seed_length:
  "suite_laws hs \<Longrightarrow> master_seed_from_mnemonic hs phrase password = Inr seed \<Longrightarrow> length seed = 32"
  by (auto simp: master_seed_from_mnemonic_def MASTER_SEED_LEN_def dest: suite_lawsD(5))

lemma secret_uri_Inr:
  assumes valid: "\<forall>c \<in> set uri. c < 1114112" and r: "master_seed_from_secret_uri hs uri = Inr seed"
  obtains phrase password where "secret_phrase uri phrase password"
proof -
  obtain phrase password where p: "(case split_once (text_of ''///'') uri of Some (phrase, password) \<Rightarrow> (phrase, Some password) | None \<Rightarrow> (uri, None)) = (phrase, password)"
    by force
  then have u: "case password of None \<Rightarrow> uri = phrase | Some q \<Rightarrow> uri = phrase @ [slash, slash, slash] @ q"
    using split_once_Some [of "[slash, slash, slash]" uri] by (auto simp: text_simps split: option.splits prod.splits)
  then have sub: "set (trim phrase) \<subseteq> set uri" using set_trim [of phrase] by (auto split: option.splits)
  let ?hex = "case strip_prefix (text_of ''0x'') (trim phrase) of Some h \<Rightarrow> Some h | None \<Rightarrow> strip_prefix (text_of ''0X'') (trim phrase)"
  have res: "(case ?hex of Some hex \<Rightarrow> decode_seed_hex hex
      | None \<Rightarrow> if slash \<in> set (trim phrase) then Inl UnsupportedDerivationPath else master_seed_from_mnemonic hs (trim phrase) password) = Inr seed"
    using r p unfolding master_seed_from_secret_uri_def text_simps(4) by (simp add: Let_def)
  have "slash \<notin> set (trim phrase)"
  proof (cases ?hex)
    case None
    show ?thesis using res unfolding None option.case by (auto split: if_splits)
  next
    case (Some digits)
    then have pre: "hex_prefixed (trim phrase) digits" by (simp only: strip_hex_prefix)
    then have "\<forall>c \<in> set digits. c < 1114112" using sub valid by (auto simp: hex_prefixed_def)
    moreover have "decode_seed_hex digits = Inr seed" using res unfolding Some option.case .
    ultimately have "slash \<notin> set digits" using decode_seed_hex_iff hex_text_of_chars by blast
    then show ?thesis using pre by (auto simp: hex_prefixed_def)
  qed
  then have "slash \<notin> set phrase" using slash_in_trim by blast
  then have "secret_phrase uri phrase password" using u by (simp add: secret_phrase_def)
  then show thesis by (rule that)
qed

text \<open>
  a secret URI gives a seed, always of 32 bytes, only when no slash precedes the password separator, so derivation
  paths are never accepted; a hexadecimal URI gives exactly the seed its 64 digits spell, in either case; any
  other gives what the mnemonic scheme makes of the trimmed phrase and the password.
\<close>

theorem secret_uri_seed:
  assumes laws: "suite_laws hs" and valid: "\<forall>c \<in> set uri. c < 1114112"
  shows "(\<forall>seed. master_seed_from_secret_uri hs uri = Inr seed \<longrightarrow>
      length seed = 32 \<and> (\<exists>phrase password. secret_phrase uri phrase password)) \<and>
    (\<forall>phrase password. secret_phrase uri phrase password \<longrightarrow>
      (\<forall>digits seed. hex_prefixed (trim phrase) digits \<longrightarrow>
         (master_seed_from_secret_uri hs uri = Inr seed \<longleftrightarrow> length seed = 32 \<and> hex_text_of seed digits)) \<and>
      ((\<nexists>digits. hex_prefixed (trim phrase) digits) \<longrightarrow>
         master_seed_from_secret_uri hs uri = master_seed_from_mnemonic hs (trim phrase) password))"
proof -
  have hex: "master_seed_from_secret_uri hs uri = decode_seed_hex digits \<and> (\<forall>c \<in> set digits. c < 1114112)"
    if p: "secret_phrase uri phrase password" and h: "hex_prefixed (trim phrase) digits" for phrase password digits
  proof -
    have "set digits \<subseteq> set (trim phrase)" using h by (auto simp: hex_prefixed_def)
    also have "\<dots> \<subseteq> set uri" using set_trim [of phrase] p by (auto simp: secret_phrase_def split: option.splits)
    finally show ?thesis using secret_uri_split [OF p, of hs] iffD2 [OF strip_hex_prefix h] valid by auto
  qed
  have words: "master_seed_from_secret_uri hs uri = master_seed_from_mnemonic hs (trim phrase) password"
    if p: "secret_phrase uri phrase password" and h: "\<nexists>digits. hex_prefixed (trim phrase) digits" for phrase password
  proof -
    have "(case strip_prefix (text_of ''0x'') (trim phrase) of Some h \<Rightarrow> Some h | None \<Rightarrow> strip_prefix (text_of ''0X'') (trim phrase)) = None"
      using h strip_hex_prefix [of "trim phrase"] by (metis not_None_eq)
    then show ?thesis using secret_uri_split [OF p, of hs] by simp
  qed
  have "length seed = 32 \<and> (\<exists>phrase password. secret_phrase uri phrase password)"
    if r: "master_seed_from_secret_uri hs uri = Inr seed" for seed
  proof -
    obtain phrase password where p: "secret_phrase uri phrase password" by (rule secret_uri_Inr [OF valid r])
    show ?thesis
    proof (cases "\<exists>digits. hex_prefixed (trim phrase) digits")
      case True
      then show ?thesis using hex [OF p] decode_seed_hex_iff r p by metis
    next
      case False
      then show ?thesis using words [OF p] mnemonic_seed_length [OF laws] r p by metis
    qed
  qed
  then show ?thesis using hex words decode_seed_hex_iff by (intro conjI allI impI) (blast | metis)+
qed

subsection \<open>A concrete suite\<close>

text \<open>A toy suite that satisfies the laws: the secret is the seed, the public key its first byte, and a signature 64 copies of the
  public key, a zero length byte and the length of the message.\<close>

definition toy_sign :: "u8 \<Rightarrow> bytes \<Rightarrow> bytes" where
  "toy_sign k m = replicate 64 k @ [0, of_nat (length m)]"

definition toy_suite :: hybrid_suite where
  "toy_suite = \<lparr>public_len = 1, secret_len = 32, max_signature_len = 321, min_falcon512_sig_len = 1,
     keypair_from_seed = (\<lambda>seed. if length seed = 32 then Some (seed, [hd seed]) else None),
     sign_deterministic = (\<lambda>secret m ctx aux. Some (66, toy_sign (hd secret) m @ replicate 255 0)),
     delta_verify = (\<lambda>public m ctx sig. sig = toy_sign (hd public) m),
     blake2b = (\<lambda>n bs. take n (rev bs @ replicate n 0)),
     mnemonic_entropy = (\<lambda>phrase. if phrase = [] then None else Some (utf8 phrase)),
     seed_from_entropy = (\<lambda>entropy password. Some (take 64 (entropy @ utf8 password @ replicate 64 0)))\<rparr>"

lemma toy_suite_laws: "suite_laws toy_suite"
  by (auto simp: suite_laws_def toy_suite_def toy_sign_def MIN_HYBRID_SIGNATURE_LEN_def CLASSICAL_SIGNATURE_LEN_def DELTA_LEN_def
      signature_wire_len_def nth_append split: if_splits)

theorem envelope_canonical_witness:
  "decode_envelope toy_suite (7 # toy_sign 7 [1, 2] @ replicate 255 0 @ [5]) =
     Some (Inr \<lparr>env_public = [7], env_signature = toy_sign 7 [1, 2] @ replicate 255 0\<rparr>)"
proof -
  let ?e = "\<lparr>env_public = [7], env_signature = toy_sign 7 [1, 2] @ replicate 255 0\<rparr>"
  have "canonical toy_suite ?e"
    by (simp add: canonical_def toy_suite_def toy_sign_def signature_wire_len_def MIN_HYBRID_SIGNATURE_LEN_def CLASSICAL_SIGNATURE_LEN_def
        DELTA_LEN_def nth_append)
  moreover have "7 # toy_sign 7 [1, 2] @ replicate 255 0 @ [5] = encode_envelope ?e @ [5]" by (simp add: encode_envelope_def)
  ultimately show ?thesis using envelope_canonical [OF toy_suite_laws] by blast
qed

theorem signed_payload_verifies_witness:
  "\<exists>e. sign_payload_from_seed toy_suite (replicate 32 7) [1, 2] = Some (Inr e) \<and>
     tx_verify toy_suite (\<lambda>s m p. envelope_verify toy_suite \<lparr>env_public = p, env_signature = s\<rparr> m = Some True) e [1, 2] (derived_account_id toy_suite e)"
proof -
  have s: "length (replicate 32 7 :: bytes) = 32"
    "keypair_from_seed toy_suite (replicate 32 7) = Some (replicate 32 7, [7])"
    "sign_deterministic toy_suite (replicate 32 7) [1, 2] SUBSTRATE_PAIR_SIGNATURE_CONTEXT [] \<noteq> None"
    by (simp_all add: toy_suite_def)
  note t = signed_payload_verifies [OF toy_suite_laws, where seed = "replicate 32 7" and payload = "[1, 2]",
      of "\<lambda>s m p. envelope_verify toy_suite \<lparr>env_public = p, env_signature = s\<rparr> m = Some True", OF refl]
  show ?thesis using conjunct1 [OF t] conjunct2 [OF t] s by blast
qed

lemma concat_replicate_pair: "concat (replicate n [a, b]) = map (\<lambda>i. if even i then a else b) [0 ..< 2 * n]"
proof (induction n)
  case (Suc n)
  have "concat (replicate (Suc n) [a, b]) = concat (replicate n [a, b]) @ [a, b]"
    by (simp flip: replicate_append_same)
  then show ?case by (simp add: Suc)
qed simp

theorem secret_uri_seed_witness:
  "master_seed_from_secret_uri toy_suite (text_of '' 0x'' @ concat (replicate 32 (text_of ''aF'')) @ text_of ''///pw'') = Inr (replicate 32 0xAF)"
proof -
  let ?digits = "concat (replicate 32 [97, 70]) :: chars"
  let ?uri = "[32, 48, 120] @ ?digits @ [47, 47, 47, 112, 119] :: chars"
  have uri: "text_of '' 0x'' @ concat (replicate 32 (text_of ''aF'')) @ text_of ''///pw'' = ?uri" by (simp add: text_of_def)
  have d: "?digits = map (\<lambda>i. if even i then 97 else 70) [0 ..< 64]" using concat_replicate_pair [of 32 "97 :: nat" 70] by simp
  have valid: "\<forall>c \<in> set ?uri. c < 1114112" by auto
  have p: "secret_phrase ?uri ([32, 48, 120] @ ?digits) (Some [112, 119])" by (auto simp: secret_phrase_def)
  have "trim ([32] @ ([48, 120] @ ?digits) @ []) = [48, 120] @ ?digits"
    by (rule trim_core) (auto simp: is_whitespace_def d last_map last_conv_nth)
  then have h: "hex_prefixed (trim ([32, 48, 120] @ ?digits)) ?digits" by (simp add: hex_prefixed_def)
  have "hex_text_of (replicate 32 0xAF) ?digits"
    unfolding d by (simp add: hex_text_of_def hex_char_of_def)
  then show ?thesis unfolding uri using secret_uri_seed [OF toy_suite_laws valid] p h by (metis length_replicate)
qed

end
