(* ===== verification/Genesis.thy ===== *)
theory Genesis
  imports Solution_Validation Faucet_Ops Evm_Chain_Id Staking_Rewards Admission_Election "HOL-Library.Char_ord" "HOL-Library.List_Lexorder"
begin

text \<open>
  \<open>runtime/src/genesis_config_presets.rs\<close> with \<open>mainnet_allocation.rs\<close>: the genesis presets and the gate in front of the
  mainnet's. The hash behind placeholder accounts, the derivation of keys from seeds, the development keyring, the
  committed keys of the testnet's operators and the vesting pallet's own check of a schedule are third-party and fields
  of a record; consensus keys are identified with their encodings. \<open>None\<close> is a panic. The patch is a record with the fields
  that the builder sets; its rendering as JSON is left out.
\<close>

subsection \<open>Inputs\<close>

record vesting_info =
  locked :: balance
  per_block :: balance
  starting_block :: u32

record ('a, 'b, 'g) genesis_ops =
  placeholder_hash :: "string list \<Rightarrow> 'a"
  revive_account :: 'a
  tx_account_from_seed :: "string \<Rightarrow> 'a"
  babe_authority_from_seed :: "string \<Rightarrow> 'b"
  grandpa_authority_from_seed :: "string \<Rightarrow> 'g"
  sr25519_seed :: "string \<Rightarrow> string"
  ed25519_seed :: "string \<Rightarrow> string"
  sr25519_keyring :: "string list"
  sr25519_derivation :: "string \<Rightarrow> string"
  testnet_authorities :: "('a \<times> 'b \<times> 'g) list"
  schedule_is_valid :: "vesting_info \<Rightarrow> bool"

definition MILLI_UNIT :: balance where "MILLI_UNIT = 1000000000"
definition EXISTENTIAL_DEPOSIT :: balance where "EXISTENTIAL_DEPOSIT = MILLI_UNIT"
definition VALIDATOR_BOND :: balance where "VALIDATOR_BOND = 2000 * UNIT"
definition TEST_CURRENCY_ENDOWMENT :: balance where "TEST_CURRENCY_ENDOWMENT = 2 ^ 60"
definition MAINNET_CHAIN_ID :: u64 where "MAINNET_CHAIN_ID = 20049"
definition MinVestedTransfer :: balance where "MinVestedTransfer = 100 * EXISTENTIAL_DEPOSIT"
definition MAX_VESTING_SCHEDULES :: u32 where "MAX_VESTING_SCHEDULES = 28"
definition TESTNET_RELAUNCH_FAUCET_BUDGET :: u128 where "TESTNET_RELAUNCH_FAUCET_BUDGET = 1000000000 * UNIT"

definition MAINNET_COUNCIL_LABELS :: "string list" where
  "MAINNET_COUNCIL_LABELS = [''Rick'', ''Colton'', ''Vik'', ''Roman'', ''David'', ''BVI Admin'']"

definition MAINNET_COUNCIL_PLACEHOLDERS :: "string list" where
  "MAINNET_COUNCIL_PLACEHOLDERS = [''Rick'', ''Colton'', ''Vik'', ''Roman'', ''David'', ''BVI Admin'']"

definition MAINNET_VALIDATOR_LABELS :: "string list" where
  "MAINNET_VALIDATOR_LABELS = [''Validator 1'', ''Validator 2'', ''Validator 3'', ''Validator 4'', ''Validator 5'']"

definition MAINNET_VALIDATOR_FLOAT :: "balance option" where "MAINNET_VALIDATOR_FLOAT = Some (10 * UNIT)"
definition MAINNET_COUNCIL_FLOAT :: "balance option" where "MAINNET_COUNCIL_FLOAT = Some (10 * UNIT)"
definition MAINNET_SPEC_BUILDER_FLOAT :: "balance option" where "MAINNET_SPEC_BUILDER_FLOAT = Some (10 * UNIT)"
definition MAINNET_ALLOCATION_TOTAL :: "balance option" where "MAINNET_ALLOCATION_TOTAL = None"
definition MAINNET_ALLOCATION_RECIPIENTS :: "'a list option" where "MAINNET_ALLOCATION_RECIPIENTS = None"

record 'a genesis_roles =
  foundation_members :: "'a list"
  role_faucet_authority :: 'a
  ising_spec_builder :: 'a
  require_council_disjoint :: bool

record 'a genesis_funding =
  fund_balances :: "('a \<times> balance) list"
  fund_faucet_state :: faucet_status
  fund_faucet_authority :: "'a option"
  fund_faucet_budget :: u128

record ('a, 'b, 'g) network_config =
  nc_members :: "'a list"
  nc_mode :: admission_mode
  nc_approved :: "'a list"
  nc_validator_count :: u32
  nc_minimum_validator_count :: u32
  nc_max_validator_count :: "u32 option"
  nc_max_nominator_count :: "u32 option"
  nc_min_validator_bond :: balance
  nc_min_nominator_bond :: balance
  nc_stakers :: "('a \<times> 'a \<times> balance) list"
  nc_force_era :: forcing
  nc_chain_id :: u64
  nc_balances :: "('a \<times> balance) list"
  nc_session_keys :: "('a \<times> 'a \<times> ('b \<times> 'g)) list"
  nc_ising_spec_builder :: "'a option"
  nc_faucet_state :: faucet_status
  nc_faucet_authority :: "'a option"
  nc_emission_enabled :: bool
  nc_emission_start :: "u64 option"
  nc_routes :: "(u32 \<times> perbill) list"
  nc_faucet_budget :: u128

subsection \<open>The common builder\<close>

definition assert_council_disjoint :: "'a list \<Rightarrow> 'a list \<Rightarrow> bool \<Rightarrow> string + unit" where
  "assert_council_disjoint council operators require =
     (if \<not> require then Inr ()
      else case find (\<lambda>who. who \<in> set operators) council of
             Some _ \<Rightarrow> Inl ''council member is also a validator operator''
           | None \<Rightarrow> Inr ())"

definition network_genesis ::
    "('a \<times> 'b \<times> 'g) list \<Rightarrow> 'a genesis_funding \<Rightarrow> 'a genesis_roles \<Rightarrow> u64 \<Rightarrow> u32 \<Rightarrow> ('a, 'b, 'g) network_config option" where
  "network_genesis initial_authorities funding roles chain_id minimum_validator_count =
     (let approved = map fst initial_authorities; members = foundation_members roles in
      if initial_authorities = [] \<or> length initial_authorities > 32 then None
      else if minimum_validator_count < 1 \<or> minimum_validator_count > length initial_authorities then None
      else if card (set approved) \<noteq> length approved then None
      else if \<not> list_all (\<lambda>who. list_ex (\<lambda>(account, balance). account = who \<and> balance > VALIDATOR_BOND) (fund_balances funding)) approved then None
      else if card (set (map fst (fund_balances funding))) \<noteq> length (fund_balances funding) then None
      else if members = [] then None
      else if card (set members) \<noteq> length members then None
      else if assert_council_disjoint members approved (require_council_disjoint roles) \<noteq> Inr () then None
      else if length members > 32 then None
      else Some \<lparr>nc_members = members, nc_mode = FoundationOnly, nc_approved = approved,
             nc_validator_count = length approved, nc_minimum_validator_count = minimum_validator_count,
             nc_max_validator_count = None, nc_max_nominator_count = Some MaxNominators,
             nc_min_validator_bond = 2000 * UNIT, nc_min_nominator_bond = 10 * UNIT,
             nc_stakers = map (\<lambda>who. (who, who, 2000 * UNIT)) approved, nc_force_era = NotForcing,
             nc_chain_id = chain_id, nc_balances = fund_balances funding,
             nc_session_keys = map (\<lambda>(account, babe, grandpa). (account, account, (babe, grandpa))) initial_authorities,
             nc_ising_spec_builder = Some (ising_spec_builder roles),
             nc_faucet_state = fund_faucet_state funding, nc_faucet_authority = fund_faucet_authority funding,
             nc_emission_enabled = True, nc_emission_start = None,
             nc_routes = [(ISING_SUBNET, 500000000), (QVRF_SUBNET, 500000000)],
             nc_faucet_budget = fund_faucet_budget funding\<rparr>)"

definition testnet_genesis ::
    "('a \<times> 'b \<times> 'g) list \<Rightarrow> 'a list \<Rightarrow> 'a genesis_roles \<Rightarrow> u64 \<Rightarrow> u32 \<Rightarrow> ('a, 'b, 'g) network_config option" where
  "testnet_genesis initial_authorities endowed_accounts roles chain_id minimum_validator_count =
     network_genesis initial_authorities
       \<lparr>fund_balances = map (\<lambda>a. (a, TEST_CURRENCY_ENDOWMENT)) endowed_accounts, fund_faucet_state = Enabled,
        fund_faucet_authority = Some (role_faucet_authority roles), fund_faucet_budget = 1000000000 * UNIT\<rparr>
       roles chain_id minimum_validator_count"

subsection \<open>The allocation plan\<close>

record 'a allocation_tranche =
  recipient :: 'a
  issue_at :: u32
  schedule :: vesting_info

record 'a allocation_terms =
  cadence_blocks :: u32
  tranches :: "'a allocation_tranche list"

record 'a mainnet_allocation =
  alloc_total :: "balance option"
  custody :: 'a
  recipients :: "'a list option"
  terms :: "'a allocation_terms option"

definition mainnet_placeholder :: "('a, 'b, 'g) genesis_ops \<Rightarrow> string \<Rightarrow> string \<Rightarrow> 'a" where
  "mainnet_placeholder go role label = placeholder_hash go [''quip/genesis-placeholder/v1'', ''mainnet'', role, label]"

definition custody_placeholder :: "('a, 'b, 'g) genesis_ops \<Rightarrow> 'a" where
  "custody_placeholder go = mainnet_placeholder go ''custody'' ''Allocation''"

definition reserved_mainnet_accounts :: "('a, 'b, 'g) genesis_ops \<Rightarrow> 'a list" where
  "reserved_mainnet_accounts go =
     map (mainnet_placeholder go ''council'') MAINNET_COUNCIL_LABELS @
     map (mainnet_placeholder go ''validator'') MAINNET_VALIDATOR_LABELS @
     [mainnet_placeholder go ''spec-builder'' ''Ising''] @ [custody_placeholder go]"

definition alloc_unresolved :: "('a, 'b, 'g) genesis_ops \<Rightarrow> 'a mainnet_allocation" where
  "alloc_unresolved go = \<lparr>alloc_total = MAINNET_ALLOCATION_TOTAL, custody = custody_placeholder go,
     recipients = MAINNET_ALLOCATION_RECIPIENTS, terms = None\<rparr>"

definition fail :: "string \<Rightarrow> string" where
  "fail reason = ''mainnet genesis blocked: '' @ reason"

definition checked_sub :: "nat \<Rightarrow> nat \<Rightarrow> nat option" where
  "checked_sub a b = (if b \<le> a then Some (a - b) else None)"

definition checked_div :: "nat \<Rightarrow> nat \<Rightarrow> nat option" where
  "checked_div a b = (if b = 0 then None else Some (a div b))"

definition try_u32 :: "nat \<Rightarrow> u32 option" where
  "try_u32 n = (if n \<le> u32_max then Some n else None)"

definition tranche_end :: "vesting_info \<Rightarrow> string + u32" where
  "tranche_end sch =
     and_then (ok_or (Option.bind (checked_sub (locked sch) 1) (\<lambda>n.
                      Option.bind (checked_div n (per_block sch)) (\<lambda>n.
                      Option.bind (checked_add u128_max n 1) try_u32)))
                (fail ''allocation tranche end block overflows'')) (\<lambda>duration.
     ok_or (checked_add u32_max (starting_block sch) duration) (fail ''allocation tranche end block overflows''))"

fun check_tranches ::
    "('a, 'b, 'g) genesis_ops \<Rightarrow> 'a set \<Rightarrow> u32 \<Rightarrow> 'a allocation_tranche list \<Rightarrow> ('a \<rightharpoonup> u32 \<times> u32) \<Rightarrow> u128 \<Rightarrow>
     string + ('a \<rightharpoonup> u32 \<times> u32) \<times> u128" where
  "check_tranches go listed cadence [] plan planned = Inr (plan, planned)"
| "check_tranches go listed cadence (t # ts) plan planned =
     ensure (recipient t \<in> listed) (fail ''allocation tranche names an unlisted recipient'')
     (ensure (\<not> (issue_at t = 0 \<or> starting_block (schedule t) < issue_at t \<or> \<not> schedule_is_valid go (schedule t) \<or>
                 locked (schedule t) < MinVestedTransfer))
       (fail ''allocation tranche has unusable amount, rate or start'')
     (and_then (tranche_end (schedule t)) (\<lambda>_.
      and_then (case plan (recipient t) of
                  Some (previous, n_schedules) \<Rightarrow>
                    ensure (checked_add u32_max previous cadence = Some (issue_at t)) (fail ''allocation tranche cadence is inconsistent'')
                      (ok_or (checked_add u32_max n_schedules 1) (fail ''allocation schedule count overflows''))
                | None \<Rightarrow> Inr 1) (\<lambda>n_schedules.
      ensure (\<not> n_schedules > MAX_VESTING_SCHEDULES) (fail ''allocation plan exceeds the per-recipient schedule cap'')
      (and_then (ok_or (checked_add u128_max planned (locked (schedule t))) (fail ''allocation tranche total overflows'')) (\<lambda>planned'.
         check_tranches go listed cadence ts (plan(recipient t \<mapsto> (issue_at t, n_schedules))) planned'))))))"

definition alloc_validate :: "('a, 'b, 'g) genesis_ops \<Rightarrow> 'a mainnet_allocation \<Rightarrow> 'a list \<Rightarrow> string + balance" where
  "alloc_validate go al operational =
     and_then (ok_or (alloc_total al) (fail ''MAINNET_ALLOCATION_TOTAL is TBD'')) (\<lambda>total.
     ensure (\<not> total < EXISTENTIAL_DEPOSIT) (fail ''MAINNET_ALLOCATION_TOTAL must fund a usable custody account'')
     (let reserved = reserved_mainnet_accounts go; revive = revive_account go in
      ensure (custody al \<notin> set reserved) (fail ''unresolved mainnet custody placeholder'')
     (ensure (\<not> (custody al \<in> set operational \<or> custody al = revive)) (fail ''mainnet custody must be a dedicated account'')
     (and_then (ok_or (recipients al) (fail ''MAINNET_ALLOCATION_RECIPIENTS is TBD'')) (\<lambda>rs.
      ensure (\<not> (rs = [] \<or> card (set rs) \<noteq> length rs \<or> list_ex (\<lambda>r. r \<in> set reserved \<or> r = custody al \<or> r = revive) rs))
        (fail ''MAINNET_ALLOCATION_RECIPIENTS must be distinct resolved accounts separate from custody and Revive'')
     (and_then (ok_or (terms al) (fail ''MAINNET_ALLOCATION_TERMS is TBD'')) (\<lambda>tm.
      ensure (\<not> (cadence_blocks tm = 0 \<or> tranches tm = [])) (fail ''allocation terms need a positive cadence and explicit tranches'')
     (and_then (check_tranches go (set rs) (cadence_blocks tm) (tranches tm) Map.empty 0) (\<lambda>(plan, planned).
      ensure (card (dom plan) = card (set rs)) (fail ''allocation plan omits a recipient'')
     (and_then (ok_or (checked_sub total planned) (fail ''allocation tranches exceed custody funding'')) (\<lambda>residual.
      ensure (\<not> (residual \<noteq> 0 \<and> residual < EXISTENTIAL_DEPOSIT)) (fail ''allocation plan leaves a dust custody residual'')
        (Inr total))))))))))))"

subsection \<open>The mainnet gate\<close>

record ('a, 'b, 'g) mainnet_validator =
  stash :: 'a
  session_keys :: "('b \<times> 'g) option"

record ('a, 'b, 'g) mainnet_inputs =
  council :: "'a list"
  council_placeholders :: "string list"
  mn_validators :: "('a, 'b, 'g) mainnet_validator list"
  spec_builder :: 'a
  validator_float :: "balance option"
  council_float :: "balance option"
  spec_builder_float :: "balance option"
  allocation :: "'a mainnet_allocation"

definition mainnet_inputs :: "('a, 'b, 'g) genesis_ops \<Rightarrow> ('a, 'b, 'g) mainnet_inputs" where
  "mainnet_inputs go = \<lparr>council = map (mainnet_placeholder go ''council'') MAINNET_COUNCIL_LABELS,
     council_placeholders = MAINNET_COUNCIL_PLACEHOLDERS,
     mn_validators = map (\<lambda>label. \<lparr>stash = mainnet_placeholder go ''validator'' label, session_keys = None\<rparr>) MAINNET_VALIDATOR_LABELS,
     spec_builder = mainnet_placeholder go ''spec-builder'' ''Ising'', validator_float = MAINNET_VALIDATOR_FLOAT,
     council_float = MAINNET_COUNCIL_FLOAT, spec_builder_float = MAINNET_SPEC_BUILDER_FLOAT, allocation = alloc_unresolved go\<rparr>"

definition resolved_float :: "balance option \<Rightarrow> string \<Rightarrow> string + balance" where
  "resolved_float value name =
     and_then (ok_or value (''mainnet genesis blocked: '' @ name @ '' is TBD'')) (\<lambda>v.
     ensure (\<not> (v = 0 \<or> v < EXISTENTIAL_DEPOSIT))
       (''mainnet genesis blocked: '' @ name @ '' must fund a usable operational account'') (Inr v))"

definition validate_session_keys :: "('a \<times> 'b \<times> 'g) list \<Rightarrow> string + unit" where
  "validate_session_keys authorities =
     (let babe = set (map (\<lambda>(_, key, _). key) authorities); grandpa = set (map (\<lambda>(_, _, key). key) authorities) in
      if card babe \<noteq> length authorities \<or> card grandpa \<noteq> length authorities
      then Inl ''genesis blocked: duplicate BABE or GRANDPA session key'' else Inr ())"

fun collision_with :: "string \<Rightarrow> 'a \<times> 'b \<times> 'g \<Rightarrow> nat \<Rightarrow> ('a \<times> 'b \<times> 'g) list \<Rightarrow> string + unit" where
  "collision_with source forbidden index [] = Inr ()"
| "collision_with source forbidden index ((who, babe, grandpa) # rest) =
     (case (if who = fst forbidden then Some ''stash''
            else if babe = fst (snd forbidden) then Some ''BABE key''
            else if grandpa = snd (snd forbidden) then Some ''GRANDPA key''
            else None) of
        Some kind \<Rightarrow> Inl (''mainnet genesis blocked: Validator '' @ show_nat (index + 1) @ '' '' @ kind @ '' is reused from '' @ source)
      | None \<Rightarrow> collision_with source forbidden (index + 1) rest)"

fun collisions :: "(string \<times> 'a \<times> 'b \<times> 'g) list \<Rightarrow> ('a \<times> 'b \<times> 'g) list \<Rightarrow> string + unit" where
  "collisions [] authorities = Inr ()"
| "collisions ((source, keys) # rest) authorities =
     and_then (collision_with source keys 0 authorities) (\<lambda>_. collisions rest authorities)"

text \<open>Both derivations of every key of the ring, collected in an ordered set.\<close>

definition dev_seeds :: "('a, 'b, 'g) genesis_ops \<Rightarrow> string list" where
  "dev_seeds go = sort (remdups (concat (map (\<lambda>key. [sr25519_seed go key, ''//'' @ sr25519_derivation go key]) (sr25519_keyring go))))"

definition forbidden_keys :: "('a, 'b, 'g) genesis_ops \<Rightarrow> (string \<times> 'a \<times> 'b \<times> 'g) list" where
  "forbidden_keys go =
     map (\<lambda>keys. (''testnet operator'', keys)) (testnet_authorities go) @
     map (\<lambda>seed. (''standard dev keyring'', tx_account_from_seed go seed, babe_authority_from_seed go seed, grandpa_authority_from_seed go seed))
       (dev_seeds go)"

definition validate_mainnet_network_keys :: "('a, 'b, 'g) genesis_ops \<Rightarrow> ('a \<times> 'b \<times> 'g) list \<Rightarrow> string + unit" where
  "validate_mainnet_network_keys go authorities = collisions (forbidden_keys go) authorities"

fun checked_total :: "nat \<Rightarrow> ('a \<times> balance) list \<Rightarrow> nat option" where
  "checked_total acc [] = Some acc"
| "checked_total acc ((_, amount) # rest) = Option.bind (checked_add u128_max acc amount) (\<lambda>t. checked_total t rest)"

definition validate_mainnet_funding ::
    "('a, 'b, 'g) genesis_ops \<Rightarrow> 'a genesis_funding \<Rightarrow> 'a list \<Rightarrow> 'a list \<Rightarrow> 'a \<Rightarrow> 'a \<Rightarrow> balance \<Rightarrow> string + unit" where
  "validate_mainnet_funding go funding validators seats spec custodian allocation_total =
     (let expected = set (validators @ seats @ [spec] @ [custodian]); actual = set (map fst (fund_balances funding)) in
      ensure (\<not> (card expected \<noteq> 13 \<or> card actual \<noteq> length (fund_balances funding) \<or> actual \<noteq> expected))
        (fail ''endowments must be exactly five validators, six council seats, one dedicated spec builder and one custody account'')
     (ensure (\<not> list_ex (\<lambda>(who, amount). who = custodian \<and> amount \<noteq> allocation_total) (fund_balances funding))
        (fail ''custody endowment must equal the allocation total'')
     (ensure (\<not> list_ex (\<lambda>(account, _). account \<in> set (reserved_mainnet_accounts go)) (fund_balances funding))
        (fail ''reserved placeholder account in endowments'')
     (ensure (\<not> list_ex (\<lambda>(_, amount). amount = TEST_CURRENCY_ENDOWMENT) (fund_balances funding))
        (fail ''testnet-default endowment is forbidden'')
     (ensure (\<not> list_ex (\<lambda>(account, amount). amount < EXISTENTIAL_DEPOSIT \<or> (account \<in> set validators \<and> amount \<le> VALIDATOR_BOND)) (fund_balances funding))
        (fail ''unusable float or validator endowment not above its bond'')
     (and_then (ok_or (checked_total EXISTENTIAL_DEPOSIT (fund_balances funding)) (fail ''total issuance overflows'')) (\<lambda>_.
      ensure (\<not> (fund_faucet_state funding \<noteq> PermanentlyDisabled \<or> fund_faucet_authority funding \<noteq> None \<or> fund_faucet_budget funding \<noteq> 0))
        (fail ''faucet must be PermanentlyDisabled with no authority and zero budget'')
        (Inr ()))))))))"

fun authorities_of :: "nat \<Rightarrow> ('a, 'b, 'g) mainnet_validator list \<Rightarrow> string + ('a \<times> 'b \<times> 'g) list" where
  "authorities_of i [] = Inr []"
| "authorities_of i (v # vs) =
     (case session_keys v of
        None \<Rightarrow> Inl (''mainnet genesis blocked: Validator '' @ show_nat (i + 1) @ '' BABE/GRANDPA session keys are TBD'')
      | Some (babe, grandpa) \<Rightarrow> and_then (authorities_of (i + 1) vs) (\<lambda>rest. Inr ((stash v, babe, grandpa) # rest)))"

definition join_comma :: "string list \<Rightarrow> string" where
  "join_comma xs = (case xs of [] \<Rightarrow> [] | y # ys \<Rightarrow> y @ concat (map (\<lambda>l. '', '' @ l) ys))"

definition mainnet_funding ::
    "'a list \<Rightarrow> balance \<Rightarrow> 'a list \<Rightarrow> balance \<Rightarrow> 'a \<Rightarrow> balance \<Rightarrow> 'a \<Rightarrow> balance \<Rightarrow> 'a genesis_funding" where
  "mainnet_funding validators stash_balance seats seat_float spec spec_float custodian allocation_total =
     \<lparr>fund_balances = map (\<lambda>a. (a, stash_balance)) validators @ map (\<lambda>a. (a, seat_float)) seats @
        [(spec, spec_float)] @ [(custodian, allocation_total)],
      fund_faucet_state = PermanentlyDisabled, fund_faucet_authority = None, fund_faucet_budget = 0\<rparr>"

definition mainnet_checks ::
    "('a, 'b, 'g) genesis_ops \<Rightarrow> ('a, 'b, 'g) mainnet_inputs \<Rightarrow> string + ('a \<times> 'b \<times> 'g) list \<times> 'a genesis_funding" where
  "mainnet_checks go inputs =
     (let seats = council inputs; validators = map stash (mn_validators inputs); spec = spec_builder inputs;
          actual = {label \<in> set MAINNET_COUNCIL_LABELS. mainnet_placeholder go ''council'' label \<in> set seats};
          declared = set (council_placeholders inputs) in
      ensure (\<not> (actual \<noteq> declared \<or> card declared \<noteq> length (council_placeholders inputs)))
        (fail ''MAINNET_COUNCIL_PLACEHOLDERS does not match the configured placeholder seats'')
     (ensure (declared = {}) (fail (''unresolved council placeholders: '' @ join_comma (council_placeholders inputs)))
     (ensure (\<not> (length seats \<noteq> 6 \<or> card (set seats) \<noteq> 6 \<or> length validators \<noteq> 5 \<or> card (set validators) \<noteq> 5))
        (fail ''exactly six distinct council seats and five distinct validators are required'')
     (and_then (assert_council_disjoint seats validators True) (\<lambda>_.
      ensure (\<not> (spec \<in> set seats \<or> spec \<in> set validators)) (fail ''Ising spec builder must be a dedicated account'')
     (ensure (\<not> list_ex (\<lambda>a. a \<in> set (reserved_mainnet_accounts go)) (validators @ seats @ [spec]))
        (fail ''unresolved validator, council or spec-builder placeholder account'')
     (and_then (authorities_of 0 (mn_validators inputs)) (\<lambda>authorities.
      and_then (validate_session_keys authorities) (\<lambda>_.
      and_then (resolved_float (validator_float inputs) ''MAINNET_VALIDATOR_FLOAT'') (\<lambda>vf.
      and_then (resolved_float (council_float inputs) ''MAINNET_COUNCIL_FLOAT'') (\<lambda>cf.
      and_then (resolved_float (spec_builder_float inputs) ''MAINNET_SPEC_BUILDER_FLOAT'') (\<lambda>sf.
      and_then (ok_or (checked_add u128_max VALIDATOR_BOND vf) (fail ''validator bond plus float overflows'')) (\<lambda>stash_balance.
      and_then (alloc_validate go (allocation inputs) (validators @ seats @ [spec])) (\<lambda>allocation_total.
      let funding = mainnet_funding validators stash_balance seats cf spec sf (custody (allocation inputs)) allocation_total in
      and_then (validate_mainnet_funding go funding validators seats spec (custody (allocation inputs)) allocation_total) (\<lambda>_.
      and_then (validate_mainnet_network_keys go authorities) (\<lambda>_. Inr (authorities, funding)))))))))))))))))"

definition mainnet_genesis ::
    "('a, 'b, 'g) genesis_ops \<Rightarrow> ('a, 'b, 'g) mainnet_inputs \<Rightarrow> (string + ('a, 'b, 'g) network_config) option" where
  "mainnet_genesis go inputs =
     (case mainnet_checks go inputs of
        Inl e \<Rightarrow> Some (Inl e)
      | Inr (authorities, funding) \<Rightarrow>
          map_option Inr (network_genesis authorities funding
            \<lparr>foundation_members = council inputs, role_faucet_authority = spec_builder inputs,
             ising_spec_builder = spec_builder inputs, require_council_disjoint = True\<rparr> MAINNET_CHAIN_ID 3))"

definition quip_mainnet_config_genesis :: "('a, 'b, 'g) genesis_ops \<Rightarrow> (string + ('a, 'b, 'g) network_config) option" where
  "quip_mainnet_config_genesis go = mainnet_genesis go (mainnet_inputs go)"

subsection \<open>The other presets\<close>

definition keyring_authority :: "('a, 'b, 'g) genesis_ops \<Rightarrow> string \<Rightarrow> 'a \<times> 'b \<times> 'g" where
  "keyring_authority go name = (tx_account_from_seed go (sr25519_seed go name), babe_authority_from_seed go (sr25519_seed go name),
     grandpa_authority_from_seed go (ed25519_seed go name))"

definition development_roles :: "('a, 'b, 'g) genesis_ops \<Rightarrow> 'a genesis_roles" where
  "development_roles go =
     (let alice = tx_account_from_seed go (sr25519_seed go ''Alice'') in
      \<lparr>foundation_members = [alice], role_faucet_authority = alice, ising_spec_builder = alice, require_council_disjoint = False\<rparr>)"

definition development_config_genesis :: "('a, 'b, 'g) genesis_ops \<Rightarrow> ('a, 'b, 'g) network_config option" where
  "development_config_genesis go =
     testnet_genesis [keyring_authority go ''Alice'']
       (map (\<lambda>name. tx_account_from_seed go (sr25519_seed go name)) [''Alice'', ''Bob'', ''AliceStash'', ''BobStash''])
       (development_roles go) LOCAL_CHAIN_ID 1"

definition keyring_accounts :: "('a, 'b, 'g) genesis_ops \<Rightarrow> 'a list" where
  "keyring_accounts go = map (\<lambda>v. tx_account_from_seed go (sr25519_seed go v))
     (filter (\<lambda>v. v \<noteq> ''One'' \<and> v \<noteq> ''Two'') (sr25519_keyring go))"

definition local_config_genesis :: "('a, 'b, 'g) genesis_ops \<Rightarrow> ('a, 'b, 'g) network_config option" where
  "local_config_genesis go =
     testnet_genesis (map (keyring_authority go) [''Alice'', ''Bob'']) (keyring_accounts go) (development_roles go) LOCAL_CHAIN_ID 1"

definition local_three_validator_config_genesis :: "('a, 'b, 'g) genesis_ops \<Rightarrow> ('a, 'b, 'g) network_config option" where
  "local_three_validator_config_genesis go =
     testnet_genesis (map (keyring_authority go) [''Alice'', ''Bob'', ''Charlie'']) (keyring_accounts go) (development_roles go) LOCAL_CHAIN_ID 1"

definition quip_testnet_config_genesis :: "('a, 'b, 'g) genesis_ops \<Rightarrow> ('a, 'b, 'g) network_config option" where
  "quip_testnet_config_genesis go =
     (let authorities = testnet_authorities go; accounts = map fst authorities in
      case accounts of
        [] \<Rightarrow> None
      | op1 # _ \<Rightarrow> testnet_genesis authorities accounts
          \<lparr>foundation_members = accounts, role_faucet_authority = op1, ising_spec_builder = op1, require_council_disjoint = False\<rparr>
          TESTNET_CHAIN_ID 3)"

definition testnet_relaunch_genesis ::
    "('a, 'b, 'g) genesis_ops \<Rightarrow> ('a \<times> 'a \<times> 'a) option \<Rightarrow> (string + ('a, 'b, 'g) network_config) option" where
  "testnet_relaunch_genesis go deferred =
     (case deferred of
        None \<Rightarrow> Some (Inl ''testnet relaunch genesis blocked: TESTNET_RELAUNCH_COUNCIL_TBD needs three real council account IDs provisioned through QUI-2080'')
      | Some (a, b, c) \<Rightarrow>
          let seats = [a, b, c]; authorities = testnet_authorities go; operators = map fst authorities in
          if card (set seats) \<noteq> 3 then Some (Inl ''testnet relaunch genesis blocked: three distinct council seats are required'')
          else if list_ex (\<lambda>account. account \<in> set (reserved_mainnet_accounts go)) seats
               then Some (Inl ''testnet relaunch genesis blocked: reserved placeholder council account'')
          else (case validate_session_keys authorities of
                  Inl e \<Rightarrow> Some (Inl e)
                | Inr _ \<Rightarrow>
                    (case assert_council_disjoint seats operators True of
                       Inl reason \<Rightarrow> Some (Inl (''testnet relaunch genesis blocked: '' @ reason))
                     | Inr _ \<Rightarrow>
                         (case operators of
                            [] \<Rightarrow> None
                          | op1 # _ \<Rightarrow> map_option Inr (network_genesis authorities
                              \<lparr>fund_balances = map (\<lambda>a. (a, TEST_CURRENCY_ENDOWMENT)) (operators @ seats), fund_faucet_state = Enabled,
                               fund_faucet_authority = Some op1, fund_faucet_budget = TESTNET_RELAUNCH_FAUCET_BUDGET\<rparr>
                              \<lparr>foundation_members = seats, role_faucet_authority = op1, ising_spec_builder = op1, require_council_disjoint = True\<rparr>
                              TESTNET_CHAIN_ID 3)))))"

definition quip_testnet_relaunch_config_genesis :: "('a, 'b, 'g) genesis_ops \<Rightarrow> (string + ('a, 'b, 'g) network_config) option" where
  "quip_testnet_relaunch_config_genesis go = testnet_relaunch_genesis go None"

definition rehearsal_config_genesis :: "('a :: linorder, 'b, 'g) genesis_ops \<Rightarrow> ('a, 'b, 'g) network_config option" where
  "rehearsal_config_genesis go =
     (let seeds = [''//Alice'', ''//Bob'', ''//Charlie'', ''//Dave'']; eve = tx_account_from_seed go ''//Eve'' in
      testnet_genesis
        (map (\<lambda>seed. (tx_account_from_seed go seed, babe_authority_from_seed go seed, grandpa_authority_from_seed go seed)) seeds)
        (map (tx_account_from_seed go) seeds @ [eve])
        \<lparr>foundation_members = sort (map (tx_account_from_seed go) (take 3 seeds)), role_faucet_authority = eve,
         ising_spec_builder = tx_account_from_seed go ''//Alice'', require_council_disjoint = False\<rparr>
        LOCAL_CHAIN_ID 4)"

text \<open>
  A refused export panics with the reason. The first two names are the framework's: \<open>DEV_RUNTIME_PRESET\<close> and
  \<open>LOCAL_TESTNET_RUNTIME_PRESET\<close>.
\<close>

definition or_refuse :: "(string + 'c) option \<Rightarrow> 'c option option" where
  "or_refuse r = (case r of Some (Inr g) \<Rightarrow> Some (Some g) | _ \<Rightarrow> None)"

definition get_preset :: "('a :: linorder, 'b, 'g) genesis_ops \<Rightarrow> string \<Rightarrow> ('a, 'b, 'g) network_config option option" where
  "get_preset go name =
     (if name = ''development'' then map_option Some (development_config_genesis go)
      else if name = ''local_testnet'' then map_option Some (local_config_genesis go)
      else if name = ''local_three_validator'' then map_option Some (local_three_validator_config_genesis go)
      else if name = ''quip_testnet'' then map_option Some (quip_testnet_config_genesis go)
      else if name = ''quip-mainnet'' then or_refuse (quip_mainnet_config_genesis go)
      else if name = ''quip-testnet-relaunch'' then or_refuse (quip_testnet_relaunch_config_genesis go)
      else if name = ''validator_rehearsal'' then map_option Some (rehearsal_config_genesis go)
      else Some None)"

definition preset_names :: "string list" where
  "preset_names = [''development'', ''local_testnet'', ''local_three_validator'', ''quip_testnet'', ''quip-mainnet'',
     ''quip-testnet-relaunch'', ''validator_rehearsal'']"

end
