(* ===== verification/Genesis_Theorems.thy ===== *)
theory Genesis_Theorems
  imports Genesis
begin

text \<open>
  The genesis gate: what an exported mainnet looks like, that passing the gate means every assertion behind it holds
  and the pallets' own builders accept the result, what the allocation plan guarantees, and which presets refuse.
\<close>

subsection \<open>The builder\<close>

lemma card_set_length_iff: "card (set xs) = length xs \<longleftrightarrow> distinct xs"
  by (metis card_distinct distinct_card)

lemma assert_council_disjoint_iff:
  "assert_council_disjoint seats operators require = Inr () \<longleftrightarrow> (require \<longrightarrow> set seats \<inter> set operators = {})"
  by (auto simp: assert_council_disjoint_def find_None_iff find_Some_iff dest: nth_mem split: option.splits)

definition buildable :: "('a \<times> 'b \<times> 'g) list \<Rightarrow> 'a genesis_funding \<Rightarrow> 'a genesis_roles \<Rightarrow> u32 \<Rightarrow> bool" where
  "buildable authorities funding roles minimum \<longleftrightarrow>
     authorities \<noteq> [] \<and> length authorities \<le> 32 \<and> 1 \<le> minimum \<and> minimum \<le> length authorities \<and>
     distinct (map fst authorities) \<and>
     (\<forall>who \<in> set (map fst authorities). \<exists>b > VALIDATOR_BOND. (who, b) \<in> set (fund_balances funding)) \<and>
     distinct (map fst (fund_balances funding)) \<and>
     foundation_members roles \<noteq> [] \<and> distinct (foundation_members roles) \<and> length (foundation_members roles) \<le> 32 \<and>
     (require_council_disjoint roles \<longrightarrow> set (foundation_members roles) \<inter> set (map fst authorities) = {})"

lemma network_genesis_None_iff:
  "network_genesis authorities funding roles chain_id minimum = None \<longleftrightarrow> \<not> buildable authorities funding roles minimum"
proof -
  have funded: "list_all (\<lambda>who. list_ex (\<lambda>(account, balance). account = who \<and> balance > VALIDATOR_BOND) (fund_balances funding)) (map fst authorities)
    \<longleftrightarrow> (\<forall>who \<in> set (map fst authorities). \<exists>b > VALIDATOR_BOND. (who, b) \<in> set (fund_balances funding))"
    by (fastforce simp: list_all_iff list_ex_iff)
  have "card (set (map fst xs)) = length xs \<longleftrightarrow> distinct (map fst xs)" for xs :: "('x \<times> 'y) list"
    using card_set_length_iff [of "map fst xs"] by simp
  then show ?thesis
    unfolding network_genesis_def Let_def funded card_set_length_iff length_map assert_council_disjoint_iff buildable_def
    by (simp only: if_split_eq1 not_le not_less option.distinct card_set_length_iff [of "map fst _"]) auto
qed

lemma network_genesis_Some:
  assumes "network_genesis authorities funding roles chain_id minimum = Some g"
  shows "nc_members g = foundation_members roles" "nc_mode g = FoundationOnly" "nc_approved g = map fst authorities"
    "nc_validator_count g = length authorities" "nc_minimum_validator_count g = minimum"
    "nc_stakers g = map (\<lambda>who. (who, who, VALIDATOR_BOND)) (map fst authorities)" "nc_chain_id g = chain_id"
    "nc_balances g = fund_balances funding"
    "nc_session_keys g = map (\<lambda>(account, babe, grandpa). (account, account, (babe, grandpa))) authorities"
    "nc_faucet_state g = fund_faucet_state funding" "nc_faucet_authority g = fund_faucet_authority funding"
    "nc_emission_enabled g" "nc_emission_start g = None" "nc_routes g = [(ISING_SUBNET, 500000000), (QVRF_SUBNET, 500000000)]"
    "nc_faucet_budget g = fund_faucet_budget funding" "nc_ising_spec_builder g = Some (ising_spec_builder roles)"
  using assms unfolding network_genesis_def Let_def by (auto simp: VALIDATOR_BOND_def split: if_splits)

subsection \<open>The allocation plan\<close>

definition tranche_ok :: "('a, 'b, 'g) genesis_ops \<Rightarrow> 'a set \<Rightarrow> 'a allocation_tranche \<Rightarrow> bool" where
  "tranche_ok go listed t \<longleftrightarrow> recipient t \<in> listed \<and> 0 < issue_at t \<and> issue_at t \<le> starting_block (schedule t) \<and>
     schedule_is_valid go (schedule t) \<and> MinVestedTransfer \<le> locked (schedule t) \<and> 0 < per_block (schedule t) \<and>
     starting_block (schedule t) + (locked (schedule t) - 1) div per_block (schedule t) + 1 \<le> u32_max"

text \<open>The issue blocks of one recipient, in the order of the plan.\<close>

definition issues :: "'a \<Rightarrow> 'a allocation_tranche list \<Rightarrow> u32 list" where
  "issues r ts = map issue_at (filter (\<lambda>t. recipient t = r) ts)"

definition issues_ok :: "u32 \<Rightarrow> u32 list \<Rightarrow> bool" where
  "issues_ok cadence xs \<longleftrightarrow> length xs \<le> MAX_VESTING_SCHEDULES \<and> (\<forall>k < length xs. xs ! k = hd xs + k * cadence \<and> xs ! k \<le> u32_max)"

lemma issues_simps: "issues r [] = []"
  "issues r (ts @ [t]) = (if recipient t = r then issues r ts @ [issue_at t] else issues r ts)"
  by (simp_all add: issues_def)

lemma tranche_end_Inr:
  assumes "tranche_end sch = Inr e"
  shows "0 < per_block sch" "0 < locked sch" "starting_block sch + (locked sch - 1) div per_block sch + 1 \<le> u32_max"
  using assms
  by (auto simp: tranche_end_def checked_sub_def checked_div_def try_u32_def checked_add_def Option.bind_eq_Some_conv Suc_le_eq split: if_splits)

lemma check_tranches_append:
  "check_tranches go listed cadence (xs @ ys) plan planned =
     and_then (check_tranches go listed cadence xs plan planned) (\<lambda>(p, n). check_tranches go listed cadence ys p n)"
proof (induction xs arbitrary: plan planned)
  case (Cons t xs)
  have assoc: "and_then (and_then x f) g = and_then x (\<lambda>v. and_then (f v) g)" for x :: "string + 'x" and f :: "'x \<Rightarrow> string + 'y" and g :: "'y \<Rightarrow> string + 'z"
    by (cases x) simp_all
  have push: "and_then (ensure b e x) g = ensure b e (and_then x g)" for b e and x :: "string + 'x" and g :: "'x \<Rightarrow> string + 'z"
    by (cases b) simp_all
  have IH: "check_tranches go listed cadence (xs @ ys) p = (\<lambda>m. and_then (check_tranches go listed cadence xs p m)
      (\<lambda>(p, n). check_tranches go listed cadence ys p n))" for p
    by (rule ext) (rule Cons.IH)
  show ?case by (simp only: append_Cons check_tranches.simps IH assoc push)
qed simp

lemma issues_ok_snoc:
  assumes "issues_ok cadence xs" "xs = [] \<or> last xs + cadence = x" "length xs < MAX_VESTING_SCHEDULES" "x \<le> u32_max"
  shows "issues_ok cadence (xs @ [x])"
proof (cases "xs = []")
  case True
  then show ?thesis using assms(3,4) by (simp add: issues_ok_def)
next
  case False
  then have "last xs = hd xs + (length xs - 1) * cadence" using assms(1) by (simp add: issues_ok_def last_conv_nth)
  moreover obtain n where "length xs = Suc n" using False by (cases xs) auto
  ultimately have "x = hd xs + length xs * cadence" using assms(2) False by simp
  then show ?thesis using assms(1,3,4) False by (auto simp: issues_ok_def nth_append less_Suc_eq)
qed

lemma check_tranches_Inr:
  assumes "check_tranches go listed cadence ts Map.empty 0 = Inr (plan, planned)" "\<forall>t \<in> set ts. issue_at t \<le> u32_max"
  shows "planned = (\<Sum>t \<leftarrow> ts. locked (schedule t)) \<and> (\<forall>t \<in> set ts. tranche_ok go listed t) \<and>
    (\<forall>r. issues_ok cadence (issues r ts) \<and>
       plan r = (if issues r ts = [] then None else Some (last (issues r ts), length (issues r ts))))"
  using assms
proof (induction ts arbitrary: plan planned rule: rev_induct)
  case Nil
  then show ?case by (auto simp: issues_simps issues_ok_def)
next
  case (snoc t ts)
  obtain p n where pn: "check_tranches go listed cadence ts Map.empty 0 = Inr (p, n)"
    and step: "check_tranches go listed cadence [t] p n = Inr (plan, planned)"
    using snoc.prems(1) unfolding check_tranches_append by auto
  have IH: "n = (\<Sum>t \<leftarrow> ts. locked (schedule t))" "\<forall>t \<in> set ts. tranche_ok go listed t"
    "\<And>r. issues_ok cadence (issues r ts)" "\<And>r. p r = (if issues r ts = [] then None else Some (last (issues r ts), length (issues r ts)))"
    using snoc.IH [OF pn] snoc.prems(2) by auto
  let ?r = "recipient t"
  obtain e k where e: "tranche_end (schedule t) = Inr e" "k \<le> MAX_VESTING_SCHEDULES" "plan = p(?r \<mapsto> (issue_at t, k))"
    "planned = n + locked (schedule t)"
    and first: "p ?r = None \<Longrightarrow> k = 1"
    and next': "\<And>q m. p ?r = Some (q, m) \<Longrightarrow> q + cadence = issue_at t \<and> k = m + 1"
    and ok: "?r \<in> listed" "0 < issue_at t" "issue_at t \<le> starting_block (schedule t)" "schedule_is_valid go (schedule t)"
      "MinVestedTransfer \<le> locked (schedule t)"
  proof -
    assume r: "\<And>e k. tranche_end (schedule t) = Inr e \<Longrightarrow> k \<le> MAX_VESTING_SCHEDULES \<Longrightarrow> plan = p(?r \<mapsto> (issue_at t, k)) \<Longrightarrow>
      planned = n + locked (schedule t) \<Longrightarrow> (p ?r = None \<Longrightarrow> k = 1) \<Longrightarrow>
      (\<And>q m. p ?r = Some (q, m) \<Longrightarrow> q + cadence = issue_at t \<and> k = m + 1) \<Longrightarrow> ?r \<in> listed \<Longrightarrow> 0 < issue_at t \<Longrightarrow>
      issue_at t \<le> starting_block (schedule t) \<Longrightarrow> schedule_is_valid go (schedule t) \<Longrightarrow> MinVestedTransfer \<le> locked (schedule t) \<Longrightarrow> thesis"
    show thesis
      using step by (cases "p ?r") (auto simp: checked_add_def not_less split: if_splits intro!: r)
  qed
  have t: "tranche_ok go listed t" using ok tranche_end_Inr [OF e(1)] by (simp add: tranche_ok_def)
  have k: "k = length (issues ?r ts) + 1" "issues ?r ts = [] \<or> last (issues ?r ts) + cadence = issue_at t"
    using first next' IH(4) [of ?r] by (auto split: if_splits)
  have "issues_ok cadence (issues ?r ts @ [issue_at t])"
    by (rule issues_ok_snoc [OF IH(3) k(2)]) (use e(2) k(1) snoc.prems(2) in auto)
  then have "issues_ok cadence (issues r (ts @ [t]))" for r using IH(3) by (auto simp: issues_simps)
  then show ?case using IH t e(3,4) k(1) by (auto simp: issues_simps)
qed

text \<open>What a validated plan is.\<close>

definition plan_sound :: "('a, 'b, 'g) genesis_ops \<Rightarrow> 'a mainnet_allocation \<Rightarrow> balance \<Rightarrow> bool" where
  "plan_sound go al amount \<longleftrightarrow> (case (recipients al, terms al) of
     (Some rs, Some tm) \<Rightarrow>
       rs \<noteq> [] \<and> distinct rs \<and> custody al \<notin> set rs \<and> revive_account go \<notin> set rs \<and>
       set rs \<inter> set (reserved_mainnet_accounts go) = {} \<and> 0 < cadence_blocks tm \<and>
       (\<forall>t \<in> set (tranches tm). tranche_ok go (set rs) t) \<and>
       (\<forall>r \<in> set rs. issues r (tranches tm) \<noteq> [] \<and> issues_ok (cadence_blocks tm) (issues r (tranches tm))) \<and>
       (let planned = (\<Sum>t \<leftarrow> tranches tm. locked (schedule t)) in
        planned = amount \<or> planned + EXISTENTIAL_DEPOSIT \<le> amount)
   | _ \<Rightarrow> False)"

definition allocation_typed :: "'a mainnet_allocation \<Rightarrow> bool" where
  "allocation_typed al \<longleftrightarrow> (\<forall>tm. terms al = Some tm \<longrightarrow> (\<forall>t \<in> set (tranches tm). issue_at t \<le> u32_max))"

lemma alloc_validate_Inr:
  assumes "alloc_validate go al operational = Inr amount" "allocation_typed al"
  shows "alloc_total al = Some amount" "EXISTENTIAL_DEPOSIT \<le> amount" "custody al \<notin> set (reserved_mainnet_accounts go)"
    "custody al \<notin> set operational" "custody al \<noteq> revive_account go" "plan_sound go al amount"
proof -
  from assms(1) obtain rs tm plan planned where a:
    "alloc_total al = Some amount" "EXISTENTIAL_DEPOSIT \<le> amount" "custody al \<notin> set (reserved_mainnet_accounts go)"
    "custody al \<notin> set operational" "custody al \<noteq> revive_account go"
    "recipients al = Some rs" "rs \<noteq> []" "card (set rs) = length rs"
    "\<not> list_ex (\<lambda>r. r \<in> set (reserved_mainnet_accounts go) \<or> r = custody al \<or> r = revive_account go) rs"
    "terms al = Some tm" "cadence_blocks tm \<noteq> 0"
    "check_tranches go (set rs) (cadence_blocks tm) (tranches tm) Map.empty 0 = Inr (plan, planned)"
    "card (dom plan) = card (set rs)" "planned \<le> amount" "amount - planned = 0 \<or> EXISTENTIAL_DEPOSIT \<le> amount - planned"
    by (auto simp: alloc_validate_def Let_def checked_sub_def not_less split: if_splits)
  have typed: "\<forall>t \<in> set (tranches tm). issue_at t \<le> u32_max" using assms(2) a(10) by (simp add: allocation_typed_def)
  have loop: "planned = (\<Sum>t \<leftarrow> tranches tm. locked (schedule t))" "\<forall>t \<in> set (tranches tm). tranche_ok go (set rs) t"
    "\<And>r. issues_ok (cadence_blocks tm) (issues r (tranches tm))"
    "\<And>r. plan r = (if issues r (tranches tm) = [] then None else Some (last (issues r (tranches tm)), length (issues r (tranches tm))))"
    using check_tranches_Inr [OF a(12) typed] by blast+
  have sub: "dom plan \<subseteq> set rs"
  proof
    fix r assume "r \<in> dom plan"
    then have "issues r (tranches tm) \<noteq> []" using loop(4) [of r] by (auto split: if_splits)
    then show "r \<in> set rs" using loop(2) by (auto simp: issues_def tranche_ok_def filter_empty_conv)
  qed
  then have "dom plan = set rs" using a(13) by (simp add: card_subset_eq)
  then have "issues r (tranches tm) \<noteq> []" if "r \<in> set rs" for r using that loop(4) [of r] by (auto split: if_splits)
  moreover have "distinct rs" using a(8) card_set_length_iff by blast
  moreover have "custody al \<notin> set rs" "revive_account go \<notin> set rs" "set rs \<inter> set (reserved_mainnet_accounts go) = {}"
    using a(9) by (auto simp: list_ex_iff)
  moreover have "planned = amount \<or> planned + EXISTENTIAL_DEPOSIT \<le> amount" using a(14,15) by linarith
  ultimately show "plan_sound go al amount" unfolding plan_sound_def a(6,10) Let_def
    using a(7,11) loop by simp
  show "alloc_total al = Some amount" "EXISTENTIAL_DEPOSIT \<le> amount" "custody al \<notin> set (reserved_mainnet_accounts go)"
    "custody al \<notin> set operational" "custody al \<noteq> revive_account go" by (rule a(1-5))+
qed

subsection \<open>The gate\<close>

lemma collision_with_Inr:
  "collision_with source f i authorities = Inr () \<longleftrightarrow>
     (\<forall>(who, babe, grandpa) \<in> set authorities. who \<noteq> fst f \<and> babe \<noteq> fst (snd f) \<and> grandpa \<noteq> snd (snd f))"
  by (induction source f i authorities rule: collision_with.induct) auto

lemma collisions_Inr:
  "collisions fs authorities = Inr () \<longleftrightarrow>
     (\<forall>(_, w, b, g) \<in> set fs. \<forall>(who, babe, grandpa) \<in> set authorities. who \<noteq> w \<and> babe \<noteq> b \<and> grandpa \<noteq> g)"
proof (induction fs authorities rule: collisions.induct)
  case (2 source keys rest authorities)
  have "collisions ((source, keys) # rest) authorities = Inr () \<longleftrightarrow>
      collision_with source keys 0 authorities = Inr () \<and> collisions rest authorities = Inr ()" by auto
  then show ?case using 2 by (auto simp: collision_with_Inr split: prod.splits)
qed simp

lemma checked_total_Some: "checked_total acc xs = Some n \<Longrightarrow> acc \<le> u128_max \<Longrightarrow> n = acc + (\<Sum>(_, a) \<leftarrow> xs. a) \<and> n \<le> u128_max"
  by (induction acc xs rule: checked_total.induct) (auto simp: checked_add_def Option.bind_eq_Some_conv split: if_splits)

lemma authorities_of_Inr:
  "authorities_of i vs = Inr authorities \<Longrightarrow> map fst authorities = map stash vs \<and>
     map (\<lambda>(_, b, g). Some (b, g)) authorities = map session_keys vs"
  by (induction i vs arbitrary: authorities rule: authorities_of.induct) (auto split: option.splits)

lemma validate_session_keys_Inr:
  "validate_session_keys authorities = Inr () \<longleftrightarrow>
     distinct (map (\<lambda>(_, b, _). b) authorities) \<and> distinct (map (\<lambda>(_, _, g). g) authorities)"
proof -
  have "card (set (map f authorities)) = length authorities \<longleftrightarrow> distinct (map f authorities)" for f :: "'a \<times> 'b \<times> 'c \<Rightarrow> 'x"
    using card_set_length_iff [of "map f authorities"] by simp
  then show ?thesis unfolding validate_session_keys_def Let_def
    using card_set_length_iff [of "map (\<lambda>(_, b, _). b) authorities"] card_set_length_iff [of "map (\<lambda>(_, _, g). g) authorities"]
    by (auto split: if_splits)
qed

lemma resolved_float_Inr: "resolved_float v name = Inr x \<longleftrightarrow> v = Some x \<and> EXISTENTIAL_DEPOSIT \<le> x"
  by (auto simp: resolved_float_def EXISTENTIAL_DEPOSIT_def MILLI_UNIT_def)

lemma mainnet_checks_Inr:
  fixes go :: "('a, 'b, 'g) genesis_ops"
  assumes "mainnet_checks go inputs = Inr (authorities, funding)"
  defines "validators \<equiv> map stash (mn_validators inputs)" and "seats \<equiv> council inputs" and "spec \<equiv> spec_builder inputs"
    and "cust \<equiv> custody (allocation inputs)"
  obtains vf cf sf amount where
    "length seats = 6" "distinct seats" "length validators = 5" "distinct validators" "set seats \<inter> set validators = {}"
    "spec \<notin> set seats" "spec \<notin> set validators"
    "authorities_of 0 (mn_validators inputs) = Inr authorities" "validate_session_keys authorities = Inr ()"
    "EXISTENTIAL_DEPOSIT \<le> vf" "EXISTENTIAL_DEPOSIT \<le> cf" "EXISTENTIAL_DEPOSIT \<le> sf"
    "alloc_validate go (allocation inputs) (validators @ seats @ [spec]) = Inr amount"
    "funding = mainnet_funding validators (VALIDATOR_BOND + vf) seats cf spec sf cust amount"
    "validate_mainnet_funding go funding validators seats spec cust amount = Inr ()"
    "validate_mainnet_network_keys go authorities = Inr ()"
proof -
  let ?mk = "\<lambda>sb cf sf amount. mainnet_funding validators sb seats cf spec sf cust amount"
  obtain auth vf cf sf sb amount u1 u2 u3 u4 where r:
    "\<not> (length seats \<noteq> 6 \<or> card (set seats) \<noteq> 6 \<or> length validators \<noteq> 5 \<or> card (set validators) \<noteq> 5)"
    "assert_council_disjoint seats validators True = Inr u1" "\<not> (spec \<in> set seats \<or> spec \<in> set validators)"
    "authorities_of 0 (mn_validators inputs) = Inr auth" "validate_session_keys auth = Inr u2"
    "resolved_float (validator_float inputs) ''MAINNET_VALIDATOR_FLOAT'' = Inr vf"
    "resolved_float (council_float inputs) ''MAINNET_COUNCIL_FLOAT'' = Inr cf"
    "resolved_float (spec_builder_float inputs) ''MAINNET_SPEC_BUILDER_FLOAT'' = Inr sf"
    "checked_add u128_max VALIDATOR_BOND vf = Some sb"
    "alloc_validate go (allocation inputs) (validators @ seats @ [spec]) = Inr amount"
    "validate_mainnet_funding go (?mk sb cf sf amount) validators seats spec cust amount = Inr u3"
    "validate_mainnet_network_keys go auth = Inr u4" "(Inr (auth, ?mk sb cf sf amount) :: string + _) = Inr (authorities, funding)"
    using assms(1) unfolding mainnet_checks_def Let_def and_then_Inr_iff ensure_Inr_iff ok_or_Inr_iff
      validators_def [symmetric] seats_def [symmetric] spec_def [symmetric] cust_def [symmetric]
    by (elim conjE exE) (rule that)
  have floats: "EXISTENTIAL_DEPOSIT \<le> vf" "EXISTENTIAL_DEPOSIT \<le> cf" "EXISTENTIAL_DEPOSIT \<le> sf"
    using r(6-8) unfolding resolved_float_Inr by blast+
  have sb: "sb = VALIDATOR_BOND + vf" using r(9) by (simp add: checked_add_def split: if_splits)
  have eq: "authorities = auth" "funding = ?mk sb cf sf amount" using r(13) by simp_all
  have "distinct seats" "distinct validators" using r(1) card_set_length_iff [of seats] card_set_length_iff [of validators] by simp_all
  then show thesis
    by (intro that [of vf cf sf amount]) (use r(1-5,10-12) floats sb eq in \<open>simp_all add: assert_council_disjoint_iff\<close>)
qed

lemma mainnet_funding_fields:
  "map fst (fund_balances (mainnet_funding vs sb cs cf sp sf cu am)) = vs @ cs @ [sp, cu]"
  "fund_faucet_state (mainnet_funding vs sb cs cf sp sf cu am) = PermanentlyDisabled"
  "fund_faucet_authority (mainnet_funding vs sb cs cf sp sf cu am) = None"
  "fund_faucet_budget (mainnet_funding vs sb cs cf sp sf cu am) = 0"
  "who \<in> set vs \<Longrightarrow> (who, sb) \<in> set (fund_balances (mainnet_funding vs sb cs cf sp sf cu am))"
  "(cu, am) \<in> set (fund_balances (mainnet_funding vs sb cs cf sp sf cu am))"
  by (simp_all add: mainnet_funding_def comp_def)

lemma validate_mainnet_funding_Inr:
  assumes "validate_mainnet_funding go funding vs cs sp cu am = Inr ()"
  shows "\<forall>(account, amount) \<in> set (fund_balances funding). account \<notin> set (reserved_mainnet_accounts go) \<and>
      amount \<noteq> TEST_CURRENCY_ENDOWMENT \<and> EXISTENTIAL_DEPOSIT \<le> amount"
    "EXISTENTIAL_DEPOSIT + (\<Sum>(_, a) \<leftarrow> fund_balances funding. a) \<le> u128_max"
proof -
  obtain n u where r: "\<not> list_ex (\<lambda>(account, _). account \<in> set (reserved_mainnet_accounts go)) (fund_balances funding)"
    "\<not> list_ex (\<lambda>(_, amount). amount = TEST_CURRENCY_ENDOWMENT) (fund_balances funding)"
    "\<not> list_ex (\<lambda>(account, amount). amount < EXISTENTIAL_DEPOSIT \<or> (account \<in> set vs \<and> amount \<le> VALIDATOR_BOND)) (fund_balances funding)"
    "checked_total EXISTENTIAL_DEPOSIT (fund_balances funding) = Some n" "(Inr () :: string + unit) = Inr u"
    using assms unfolding validate_mainnet_funding_def Let_def and_then_Inr_iff ensure_Inr_iff ok_or_Inr_iff
    by (elim conjE exE) (rule that)
  show "\<forall>(account, amount) \<in> set (fund_balances funding). account \<notin> set (reserved_mainnet_accounts go) \<and>
      amount \<noteq> TEST_CURRENCY_ENDOWMENT \<and> EXISTENTIAL_DEPOSIT \<le> amount"
    using r(1-3) by (fastforce simp: list_ex_iff)
  have "EXISTENTIAL_DEPOSIT \<le> u128_max" by (simp add: EXISTENTIAL_DEPOSIT_def MILLI_UNIT_def u128_max_def)
  then show "EXISTENTIAL_DEPOSIT + (\<Sum>(_, a) \<leftarrow> fund_balances funding. a) \<le> u128_max"
    using checked_total_Some [OF r(4)] by blast
qed

text \<open>What an exported mainnet is.\<close>

definition keys_fresh :: "('a, 'b, 'g) genesis_ops \<Rightarrow> ('a, 'b, 'g) network_config \<Rightarrow> bool" where
  "keys_fresh go g \<longleftrightarrow>
     distinct (map (\<lambda>(_, _, b, _). b) (nc_session_keys g)) \<and> distinct (map (\<lambda>(_, _, _, k). k) (nc_session_keys g)) \<and>
     map fst (nc_session_keys g) = nc_approved g \<and>
     (\<forall>(who, _, babe, grandpa) \<in> set (nc_session_keys g).
        (\<forall>(w, b, k) \<in> set (testnet_authorities go). who \<noteq> w \<and> babe \<noteq> b \<and> grandpa \<noteq> k) \<and>
        (\<forall>name \<in> set (sr25519_keyring go). \<forall>seed \<in> {sr25519_seed go name, ''//'' @ sr25519_derivation go name}.
           who \<noteq> tx_account_from_seed go seed \<and> babe \<noteq> babe_authority_from_seed go seed \<and> grandpa \<noteq> grandpa_authority_from_seed go seed))"

definition launch_ok :: "('a, 'b, 'g) genesis_ops \<Rightarrow> 'a mainnet_allocation \<Rightarrow> ('a, 'b, 'g) network_config \<Rightarrow> bool" where
  "launch_ok go al g \<longleftrightarrow>
     length (nc_approved g) = 5 \<and> length (nc_members g) = 6 \<and> nc_minimum_validator_count g = 3 \<and> nc_chain_id g = MAINNET_CHAIN_ID \<and>
     (\<exists>spec. nc_ising_spec_builder g = Some spec \<and>
        map fst (nc_balances g) = nc_approved g @ nc_members g @ [spec, custody al] \<and>
        distinct (nc_approved g @ nc_members g @ [spec, custody al])) \<and>
     (\<forall>(account, amount) \<in> set (nc_balances g). account \<notin> set (reserved_mainnet_accounts go) \<and>
        amount \<noteq> TEST_CURRENCY_ENDOWMENT \<and> EXISTENTIAL_DEPOSIT \<le> amount) \<and>
     (\<forall>(who, _, bond) \<in> set (nc_stakers g). \<exists>b > bond. (who, b) \<in> set (nc_balances g)) \<and>
     EXISTENTIAL_DEPOSIT + (\<Sum>(_, a) \<leftarrow> nc_balances g. a) \<le> u128_max \<and>
     (\<exists>amount. (custody al, amount) \<in> set (nc_balances g) \<and> plan_sound go al amount) \<and>
     nc_faucet_state g = PermanentlyDisabled \<and> nc_faucet_authority g = None \<and> nc_faucet_budget g = 0 \<and> keys_fresh go g"

lemma keys_fresh_of_checks:
  assumes "validate_session_keys authorities = Inr ()" "validate_mainnet_network_keys go authorities = Inr ()"
    "nc_approved g = map fst authorities"
    "nc_session_keys g = map (\<lambda>(account, babe, grandpa). (account, account, (babe, grandpa))) authorities"
  shows "keys_fresh go g"
proof -
  have fresh: "\<forall>(_, w, b, k) \<in> set (forbidden_keys go). \<forall>(who, babe, grandpa) \<in> set authorities. who \<noteq> w \<and> babe \<noteq> b \<and> grandpa \<noteq> k"
    using assms(2) unfolding validate_mainnet_network_keys_def collisions_Inr .
  have at: "who \<noteq> w \<and> babe \<noteq> b \<and> grandpa \<noteq> k"
    if "(src, w, b, k) \<in> set (forbidden_keys go)" "(who, babe, grandpa) \<in> set authorities" for src w b k who babe grandpa
    using bspec [OF fresh that(1)] that(2) by auto
  have ops: "who \<noteq> w \<and> babe \<noteq> b \<and> grandpa \<noteq> k"
    if "(w, b, k) \<in> set (testnet_authorities go)" "(who, babe, grandpa) \<in> set authorities" for w b k who babe grandpa
  proof -
    have "(''testnet operator'', w, b, k) \<in> set (forbidden_keys go)" unfolding forbidden_keys_def set_append set_map using that(1) by blast
    then show ?thesis by (rule at [OF _ that(2)])
  qed
  have dev: "who \<noteq> tx_account_from_seed go seed \<and> babe \<noteq> babe_authority_from_seed go seed \<and> grandpa \<noteq> grandpa_authority_from_seed go seed"
    if "name \<in> set (sr25519_keyring go)" "seed = sr25519_seed go name \<or> seed = ''//'' @ sr25519_derivation go name"
      "(who, babe, grandpa) \<in> set authorities" for name seed who babe grandpa
  proof -
    have "seed \<in> set (dev_seeds go)" using that(1,2) by (auto simp: dev_seeds_def)
    then have "(''standard dev keyring'', tx_account_from_seed go seed, babe_authority_from_seed go seed, grandpa_authority_from_seed go seed)
        \<in> set (forbidden_keys go)" unfolding forbidden_keys_def set_append set_map by blast
    then show ?thesis by (rule at [OF _ that(3)])
  qed
  have "map (\<lambda>(_, _, b, _). b) (nc_session_keys g) = map (\<lambda>(_, b, _). b) authorities"
    "map (\<lambda>(_, _, _, k). k) (nc_session_keys g) = map (\<lambda>(_, _, k). k) authorities"
    "map fst (nc_session_keys g) = nc_approved g"
    unfolding assms(3,4) by (simp_all add: comp_def split_beta)
  moreover have "distinct (map (\<lambda>(_, b, _). b) authorities)" "distinct (map (\<lambda>(_, _, k). k) authorities)"
    using assms(1) validate_session_keys_Inr by blast+
  moreover have each: "(\<forall>(w, b, k) \<in> set (testnet_authorities go). who \<noteq> w \<and> babe \<noteq> b \<and> grandpa \<noteq> k) \<and>
      (\<forall>name \<in> set (sr25519_keyring go). \<forall>seed \<in> {sr25519_seed go name, ''//'' @ sr25519_derivation go name}.
         who \<noteq> tx_account_from_seed go seed \<and> babe \<noteq> babe_authority_from_seed go seed \<and> grandpa \<noteq> grandpa_authority_from_seed go seed)"
    if a: "(who, babe, grandpa) \<in> set authorities" for who babe grandpa
  proof (intro conjI ballI)
    fix x assume "x \<in> set (testnet_authorities go)"
    then show "case x of (w, b, k) \<Rightarrow> who \<noteq> w \<and> babe \<noteq> b \<and> grandpa \<noteq> k" using ops [OF _ a] by (cases x rule: prod_cases3) simp
  next
    fix name seed assume "name \<in> set (sr25519_keyring go)" "seed \<in> {sr25519_seed go name, ''//'' @ sr25519_derivation go name}"
    then have "who \<noteq> tx_account_from_seed go seed \<and> babe \<noteq> babe_authority_from_seed go seed \<and> grandpa \<noteq> grandpa_authority_from_seed go seed"
      using dev [OF _ _ a] by simp
    then show "who \<noteq> tx_account_from_seed go seed" "babe \<noteq> babe_authority_from_seed go seed" "grandpa \<noteq> grandpa_authority_from_seed go seed"
      by blast+
  qed
  have "\<forall>(who, _, babe, grandpa) \<in> set (nc_session_keys g).
        (\<forall>(w, b, k) \<in> set (testnet_authorities go). who \<noteq> w \<and> babe \<noteq> b \<and> grandpa \<noteq> k) \<and>
        (\<forall>name \<in> set (sr25519_keyring go). \<forall>seed \<in> {sr25519_seed go name, ''//'' @ sr25519_derivation go name}.
           who \<noteq> tx_account_from_seed go seed \<and> babe \<noteq> babe_authority_from_seed go seed \<and> grandpa \<noteq> grandpa_authority_from_seed go seed)"
  proof
    fix x assume "x \<in> set (nc_session_keys g)"
    then obtain who babe grandpa where x: "(who, babe, grandpa) \<in> set authorities" "x = (who, who, babe, grandpa)"
      unfolding assms(4) by auto
    show "case x of (who, _, babe, grandpa) \<Rightarrow>
        (\<forall>(w, b, k) \<in> set (testnet_authorities go). who \<noteq> w \<and> babe \<noteq> b \<and> grandpa \<noteq> k) \<and>
        (\<forall>name \<in> set (sr25519_keyring go). \<forall>seed \<in> {sr25519_seed go name, ''//'' @ sr25519_derivation go name}.
           who \<noteq> tx_account_from_seed go seed \<and> babe \<noteq> babe_authority_from_seed go seed \<and> grandpa \<noteq> grandpa_authority_from_seed go seed)"
      unfolding x(2) prod.case by (rule each [OF x(1)])
  qed
  ultimately show ?thesis by (simp only: keys_fresh_def simp_thms)
qed

lemma gate_passed:
  assumes checks: "mainnet_checks go inputs = Inr (authorities, funding)" and typed: "allocation_typed (allocation inputs)"
    and roles: "foundation_members roles = council inputs" "ising_spec_builder roles = spec_builder inputs"
  shows "\<exists>g. network_genesis authorities funding roles MAINNET_CHAIN_ID 3 = Some g \<and> launch_ok go (allocation inputs) g"
proof -
  let ?vs = "map stash (mn_validators inputs)" and ?cs = "council inputs" and ?sp = "spec_builder inputs" and ?cu = "custody (allocation inputs)"
  obtain vf cf sf amount where c: "length ?cs = 6" "distinct ?cs" "length ?vs = 5" "distinct ?vs" "set ?cs \<inter> set ?vs = {}"
    "?sp \<notin> set ?cs" "?sp \<notin> set ?vs"
    "authorities_of 0 (mn_validators inputs) = Inr authorities" "validate_session_keys authorities = Inr ()"
    "EXISTENTIAL_DEPOSIT \<le> vf" "EXISTENTIAL_DEPOSIT \<le> cf" "EXISTENTIAL_DEPOSIT \<le> sf"
    "alloc_validate go (allocation inputs) (?vs @ ?cs @ [?sp]) = Inr amount"
    "funding = mainnet_funding ?vs (VALIDATOR_BOND + vf) ?cs cf ?sp sf ?cu amount"
    "validate_mainnet_funding go funding ?vs ?cs ?sp ?cu amount = Inr ()"
    "validate_mainnet_network_keys go authorities = Inr ()"
    by (rule mainnet_checks_Inr [OF checks])
  have auth: "map fst authorities = ?vs" using authorities_of_Inr [OF c(8)] by blast
  have cust: "?cu \<notin> set (?vs @ ?cs @ [?sp])" "plan_sound go (allocation inputs) amount"
    using alloc_validate_Inr(4,6) [OF c(13) typed] by blast+
  have "VALIDATOR_BOND < VALIDATOR_BOND + vf" using c(10) by (simp add: EXISTENTIAL_DEPOSIT_def MILLI_UNIT_def)
  then have bonded: "\<exists>b > VALIDATOR_BOND. (who, b) \<in> set (fund_balances funding)" if "who \<in> set ?vs" for who
    using mainnet_funding_fields(5) [OF that] c(14) by blast
  have d: "distinct (?vs @ ?cs @ [?sp, ?cu])" using c cust(1) by auto
  have fst: "map fst (fund_balances funding) = ?vs @ ?cs @ [?sp, ?cu]" unfolding c(14) by (rule mainnet_funding_fields(1))
  have "length authorities = 5" using arg_cong [OF auth, of length] c(3) by simp
  then have "buildable authorities funding roles 3"
    unfolding buildable_def auth fst roles using bonded c d by auto
  then obtain g where g: "network_genesis authorities funding roles MAINNET_CHAIN_ID 3 = Some g"
    using network_genesis_None_iff by blast
  note f = network_genesis_Some [OF g, unfolded auth roles]
  have "keys_fresh go g" by (rule keys_fresh_of_checks [OF c(9,16)]) (use network_genesis_Some [OF g] in auto)
  moreover have "\<exists>b. (?cu, b) \<in> set (nc_balances g) \<and> plan_sound go (allocation inputs) b"
    using cust(2) mainnet_funding_fields(6) c(14) f(8) by metis
  moreover have "\<forall>(who, _, bond) \<in> set (nc_stakers g). \<exists>b > bond. (who, b) \<in> set (nc_balances g)"
    unfolding f(6,8) using bonded by auto
  moreover have "nc_faucet_state g = PermanentlyDisabled" "nc_faucet_authority g = None" "nc_faucet_budget g = 0"
    unfolding f c(14) by (rule mainnet_funding_fields(2-4))+
  moreover have "length (nc_approved g) = 5" "length (nc_members g) = 6" "nc_minimum_validator_count g = 3" "nc_chain_id g = MAINNET_CHAIN_ID"
    using c(1,3) by (simp_all only: f)
  moreover have "\<exists>spec. nc_ising_spec_builder g = Some spec \<and> map fst (nc_balances g) = nc_approved g @ nc_members g @ [spec, ?cu] \<and>
      distinct (nc_approved g @ nc_members g @ [spec, ?cu])"
    unfolding f(1,3,8,16) fst using d by blast
  moreover have "\<forall>(account, amount) \<in> set (nc_balances g). account \<notin> set (reserved_mainnet_accounts go) \<and>
        amount \<noteq> TEST_CURRENCY_ENDOWMENT \<and> EXISTENTIAL_DEPOSIT \<le> amount"
    unfolding f(8) by (rule validate_mainnet_funding_Inr(1) [OF c(15)])
  moreover have "EXISTENTIAL_DEPOSIT + (\<Sum>(_, a) \<leftarrow> nc_balances g. a) \<le> u128_max"
    unfolding f(8) by (rule validate_mainnet_funding_Inr(2) [OF c(15)])
  ultimately have "launch_ok go (allocation inputs) g" unfolding launch_ok_def by (intro conjI)
  with g show ?thesis by blast
qed

lemma insert_distinct_ok:
  assumes "distinct xs" "set xs \<inter> acc = {}" "finite acc" "card acc + length xs \<le> n"
  shows "insert_distinct n xs acc = Some (acc \<union> set xs)"
  using assms by (induction xs arbitrary: acc) (auto simp: try_insert_def)

lemma admission_build_ok:
  assumes "distinct xs" "length xs \<le> max_authorities ac"
  shows "\<exists>s. admission_build ac FoundationOnly xs b = Some s \<and> approved s = set xs \<and> mode s = FoundationOnly"
  using insert_distinct_ok [of xs "{}" "max_authorities ac"] assms by (simp add: admission_build_def)

text \<open>
  C29: the export of the mainnet never panics: a passed gate implies every assertion of the builder. An exported mainnet has five
  validators and six council seats that are thirteen different accounts together with the specification builder and
  the custody account, the only endowed ones and none a placeholder; validators hold more than their bond, the issuance
  fits, the faucet is closed for good, session keys are distinct and none is known from the testnet or a
  development seed, and custody holds exactly the amount of a sound allocation plan. The pallets' own genesis builders accept it.
\<close>

theorem mainnet_export_sound:
  assumes "allocation_typed (allocation inputs)"
  shows "mainnet_genesis go inputs \<noteq> None \<and>
    (\<forall>g. mainnet_genesis go inputs = Some (Inr g) \<longrightarrow>
       launch_ok go (allocation inputs) g \<and>
       (\<forall>(ac :: ('a, 'm, 'k) admission_config) b. 5 \<le> max_authorities ac \<longrightarrow>
          (\<exists>s. admission_build ac (nc_mode g) (nc_approved g) b = Some s \<and> approved s = set (nc_approved g) \<and> mode s = FoundationOnly)) \<and>
       (\<forall>e :: 'n. \<exists>s. faucet_build (nc_faucet_state g) (nc_faucet_authority g) e = Some s \<and> stored_status s = Some PermanentlyDisabled) \<and>
       (\<forall>(ec :: ('a, 'o) emission_config) b. 2 \<le> max_subnets ec \<longrightarrow> 0 < annual_emission ec \<longrightarrow>
          emission_build ec (nc_emission_enabled g) (nc_emission_start g) (nc_routes g) (nc_faucet_budget g) b \<noteq> None) \<and>
       chain_id_build (nc_chain_id g) = Some (Some MAINNET_CHAIN_ID))"
proof (cases "mainnet_checks go inputs")
  case (Inl e)
  then show ?thesis by (simp add: mainnet_genesis_def)
next
  case (Inr r)
  obtain authorities funding where r: "r = (authorities, funding)" by force
  let ?roles = "\<lparr>foundation_members = council inputs, role_faucet_authority = spec_builder inputs,
             ising_spec_builder = spec_builder inputs, require_council_disjoint = True\<rparr>"
  from gate_passed [OF Inr [unfolded r] assms, of ?roles] obtain g where
    g: "network_genesis authorities funding ?roles MAINNET_CHAIN_ID 3 = Some g" "launch_ok go (allocation inputs) g" by auto
  then have m: "mainnet_genesis go inputs = Some (Inr g)" by (simp add: mainnet_genesis_def Inr r)
  note f = network_genesis_Some [OF g(1)]
  have d: "distinct (nc_approved g)" "length (nc_approved g) = 5" using g(2) by (auto simp: launch_ok_def)
  have "\<exists>s. admission_build ac (nc_mode g) (nc_approved g) b = Some s \<and> approved s = set (nc_approved g) \<and> mode s = FoundationOnly"
    if "5 \<le> max_authorities ac" for ac :: "('a, 'm, 'k) admission_config" and b
    using admission_build_ok [OF d(1), of ac b] d(2) that by (simp add: f(2))
  moreover have "\<exists>s. faucet_build (nc_faucet_state g) (nc_faucet_authority g) e = Some s \<and> stored_status s = Some PermanentlyDisabled" for e :: 'n
    using g(2) by (simp add: launch_ok_def faucet_build_def)
  moreover have "emission_build ec (nc_emission_enabled g) (nc_emission_start g) (nc_routes g) (nc_faucet_budget g) b \<noteq> None"
    if "2 \<le> max_subnets ec" "0 < annual_emission ec" for ec :: "('a, 'o) emission_config" and b
    using that by (simp add: f emission_build_def valid_routes_def ISING_SUBNET_def QVRF_SUBNET_def)
  moreover have "chain_id_build (nc_chain_id g) = Some (Some MAINNET_CHAIN_ID)"
    by (simp add: f chain_id_build_def MAINNET_CHAIN_ID_def)
  ultimately show ?thesis using m g(2) by auto
qed

subsection \<open>The other presets\<close>

lemma unresolved_mainnet:
  "quip_mainnet_config_genesis go =
     Some (Inl (fail ''unresolved council placeholders: Rick, Colton, Vik, Roman, David, BVI Admin''))"
proof -
  let ?L = "set MAINNET_COUNCIL_LABELS"
  have "{label \<in> ?L. mainnet_placeholder go ''council'' label \<in> set (council (mainnet_inputs go))} = ?L"
    by (auto simp: mainnet_inputs_def)
  moreover have "set (council_placeholders (mainnet_inputs go)) = ?L" "council_placeholders (mainnet_inputs go) = MAINNET_COUNCIL_LABELS"
    by (simp_all add: mainnet_inputs_def MAINNET_COUNCIL_PLACEHOLDERS_def MAINNET_COUNCIL_LABELS_def)
  moreover have "card ?L = length MAINNET_COUNCIL_LABELS" unfolding card_set_length_iff by (simp add: MAINNET_COUNCIL_LABELS_def)
  moreover have "?L \<noteq> {}" "join_comma MAINNET_COUNCIL_LABELS = ''Rick, Colton, Vik, Roman, David, BVI Admin''"
    by (simp_all add: MAINNET_COUNCIL_LABELS_def join_comma_def)
  ultimately have "mainnet_checks go (mainnet_inputs go) =
      Inl (fail (''unresolved council placeholders: '' @ ''Rick, Colton, Vik, Roman, David, BVI Admin''))"
    unfolding mainnet_checks_def Let_def by (simp only: ensure_simps simp_thms)
  then show ?thesis by (simp add: quip_mainnet_config_genesis_def mainnet_genesis_def)
qed

lemma endowed_above_bond: "VALIDATOR_BOND < TEST_CURRENCY_ENDOWMENT"
  by (simp add: VALIDATOR_BOND_def TEST_CURRENCY_ENDOWMENT_def UNIT_def)

lemma testnet_buildable:
  assumes "fund_balances funding = map (\<lambda>a. (a, TEST_CURRENCY_ENDOWMENT)) accounts" "set (map fst authorities) \<subseteq> set accounts"
  shows "buildable authorities funding roles minimum \<longleftrightarrow>
    length authorities \<le> 32 \<and> 1 \<le> minimum \<and> minimum \<le> length authorities \<and> distinct (map fst authorities) \<and> distinct accounts \<and>
    foundation_members roles \<noteq> [] \<and> distinct (foundation_members roles) \<and> length (foundation_members roles) \<le> 32 \<and>
    (require_council_disjoint roles \<longrightarrow> set (foundation_members roles) \<inter> set (map fst authorities) = {})"
proof -
  have "\<forall>who \<in> set (map fst authorities). \<exists>b > VALIDATOR_BOND. (who, b) \<in> set (fund_balances funding)"
    unfolding assms(1) using assms(2) endowed_above_bond by auto
  moreover have "map fst (fund_balances funding) = accounts" by (simp add: assms(1) comp_def)
  ultimately show ?thesis unfolding buildable_def by (cases authorities) auto
qed

lemma quip_testnet_built:
  "quip_testnet_config_genesis go \<noteq> None \<longleftrightarrow>
     3 \<le> length (testnet_authorities go) \<and> length (testnet_authorities go) \<le> 32 \<and> distinct (map fst (testnet_authorities go))"
proof (cases "testnet_authorities go")
  case Nil
  then show ?thesis by (simp add: quip_testnet_config_genesis_def)
next
  case (Cons a rest)
  define accounts where "accounts = map fst (testnet_authorities go)"
  define roles where "roles = \<lparr>foundation_members = accounts, role_faucet_authority = fst a, ising_spec_builder = fst a, require_council_disjoint = False\<rparr>"
  have "quip_testnet_config_genesis go = testnet_genesis (testnet_authorities go) accounts roles TESTNET_CHAIN_ID 3"
    unfolding quip_testnet_config_genesis_def Let_def accounts_def roles_def by (simp add: Cons)
  then have "quip_testnet_config_genesis go \<noteq> None \<longleftrightarrow> buildable (testnet_authorities go)
      \<lparr>fund_balances = map (\<lambda>a. (a, TEST_CURRENCY_ENDOWMENT)) accounts, fund_faucet_state = Enabled,
        fund_faucet_authority = Some (role_faucet_authority roles), fund_faucet_budget = 1000000000 * UNIT\<rparr> roles 3"
    unfolding testnet_genesis_def by (simp add: network_genesis_None_iff)
  also have "\<dots> \<longleftrightarrow> 3 \<le> length (testnet_authorities go) \<and> length (testnet_authorities go) \<le> 32 \<and> distinct accounts"
    by (subst testnet_buildable [where accounts = accounts]) (auto simp: accounts_def roles_def Cons)
  finally show ?thesis unfolding accounts_def .
qed

lemma relaunch_exported:
  assumes ops: "quip_testnet_config_genesis go \<noteq> None"
  shows "(\<exists>g. testnet_relaunch_genesis go (Some (a, b, c)) = Some (Inr g)) \<longleftrightarrow>
    distinct [a, b, c] \<and> set [a, b, c] \<inter> set (reserved_mainnet_accounts go) = {} \<and>
    set [a, b, c] \<inter> set (map fst (testnet_authorities go)) = {} \<and>
    distinct (map (\<lambda>(_, k, _). k) (testnet_authorities go)) \<and> distinct (map (\<lambda>(_, _, k). k) (testnet_authorities go))"
proof -
  let ?A = "testnet_authorities go"
  define seats where "seats = [a, b, c]"
  have o3: "3 \<le> length ?A" "length ?A \<le> 32" "distinct (map fst ?A)" using ops quip_testnet_built by blast+
  then obtain op1 rest where op1: "map fst ?A = op1 # rest" by (cases ?A) auto
  define funding where "funding = \<lparr>fund_balances = map (\<lambda>a. (a, TEST_CURRENCY_ENDOWMENT)) ((op1 # rest) @ seats), fund_faucet_state = Enabled,
      fund_faucet_authority = Some op1, fund_faucet_budget = TESTNET_RELAUNCH_FAUCET_BUDGET\<rparr>"
  define roles where "roles = \<lparr>foundation_members = seats, role_faucet_authority = op1, ising_spec_builder = op1, require_council_disjoint = True\<rparr>"
  have fb: "fund_balances funding = map (\<lambda>a. (a, TEST_CURRENCY_ENDOWMENT)) (map fst ?A @ seats)" by (simp add: funding_def op1)
  have built: "network_genesis ?A funding roles TESTNET_CHAIN_ID 3 \<noteq> None \<longleftrightarrow> distinct seats \<and> set seats \<inter> set (map fst ?A) = {}"
    unfolding network_genesis_None_iff not_not
    by (subst testnet_buildable [OF fb]) (use o3 in \<open>auto simp: roles_def seats_def\<close>)
  have card3: "card (set seats) = 3 \<longleftrightarrow> distinct seats" using card_set_length_iff [of seats] by (simp add: seats_def numeral_3_eq_3)
  have e: "testnet_relaunch_genesis go (Some (a, b, c)) =
     (if card (set seats) \<noteq> 3 then Some (Inl ''testnet relaunch genesis blocked: three distinct council seats are required'')
      else if list_ex (\<lambda>account. account \<in> set (reserved_mainnet_accounts go)) seats
        then Some (Inl ''testnet relaunch genesis blocked: reserved placeholder council account'')
      else (case validate_session_keys ?A of Inl e \<Rightarrow> Some (Inl e)
        | Inr _ \<Rightarrow> (case assert_council_disjoint seats (map fst ?A) True of
              Inl reason \<Rightarrow> Some (Inl (''testnet relaunch genesis blocked: '' @ reason))
            | Inr _ \<Rightarrow> map_option Inr (network_genesis ?A funding roles TESTNET_CHAIN_ID 3))))"
    by (simp only: testnet_relaunch_genesis_def Let_def option.case prod.case op1 list.case funding_def roles_def seats_def)
  show ?thesis unfolding seats_def [symmetric]
  proof (cases "validate_session_keys ?A = Inr () \<and> assert_council_disjoint seats (map fst ?A) True = Inr ()")
    case True
    then have "distinct (map (\<lambda>(_, k, _). k) ?A)" "distinct (map (\<lambda>(_, _, k). k) ?A)" "set seats \<inter> set (map fst ?A) = {}"
      using validate_session_keys_Inr [of ?A] assert_council_disjoint_iff [of seats "map fst ?A" True] by simp_all
    then show "(\<exists>g. testnet_relaunch_genesis go (Some (a, b, c)) = Some (Inr g)) \<longleftrightarrow>
      distinct seats \<and> set seats \<inter> set (reserved_mainnet_accounts go) = {} \<and> set seats \<inter> set (map fst ?A) = {} \<and>
      distinct (map (\<lambda>(_, k, _). k) ?A) \<and> distinct (map (\<lambda>(_, _, k). k) ?A)"
      unfolding e card3 using True built by (auto simp: list_ex_iff)
  next
    case False
    then have "\<not> (distinct (map (\<lambda>(_, k, _). k) ?A) \<and> distinct (map (\<lambda>(_, _, k). k) ?A) \<and> set seats \<inter> set (map fst ?A) = {})"
      using validate_session_keys_Inr [of ?A] assert_council_disjoint_iff [of seats "map fst ?A" True] by blast
    moreover have "\<nexists>g. testnet_relaunch_genesis go (Some (a, b, c)) = Some (Inr g)"
      unfolding e using False by (auto split: sum.splits)
    ultimately show "(\<exists>g. testnet_relaunch_genesis go (Some (a, b, c)) = Some (Inr g)) \<longleftrightarrow>
      distinct seats \<and> set seats \<inter> set (reserved_mainnet_accounts go) = {} \<and> set seats \<inter> set (map fst ?A) = {} \<and>
      distinct (map (\<lambda>(_, k, _). k) ?A) \<and> distinct (map (\<lambda>(_, _, k). k) ?A)" by blast
  qed
qed

text \<open>
  C30: as committed, the mainnet and the relaunch presets refuse to be exported, the mainnet's with the list of unresolved council
  seats, whatever accounts the placeholders hash to; unknown names give nothing; the public testnet's preset builds exactly for three
  to 32 different operators; and a relaunch with a council given is exported exactly for three different seats that are no
  placeholder and no operator and operators with distinct keys.
\<close>

theorem presets_guarded:
  fixes go :: "('a :: linorder, 'b, 'g) genesis_ops"
  shows "quip_mainnet_config_genesis go =
      Some (Inl (fail ''unresolved council placeholders: Rick, Colton, Vik, Roman, David, BVI Admin'')) \<and>
    get_preset go ''quip-mainnet'' = None \<and> get_preset go ''quip-testnet-relaunch'' = None \<and>
    (name \<notin> set preset_names \<longrightarrow> get_preset go name = Some None) \<and>
    (quip_testnet_config_genesis go \<noteq> None \<longleftrightarrow>
       3 \<le> length (testnet_authorities go) \<and> length (testnet_authorities go) \<le> 32 \<and> distinct (map fst (testnet_authorities go))) \<and>
    (quip_testnet_config_genesis go \<noteq> None \<longrightarrow>
       ((\<exists>g. testnet_relaunch_genesis go (Some (a, b, c)) = Some (Inr g)) \<longleftrightarrow>
          distinct [a, b, c] \<and> {a, b, c} \<inter> set (reserved_mainnet_accounts go) = {} \<and>
          {a, b, c} \<inter> set (map fst (testnet_authorities go)) = {} \<and>
          distinct (map (\<lambda>(_, k, _). k) (testnet_authorities go)) \<and> distinct (map (\<lambda>(_, _, k). k) (testnet_authorities go))))"
proof (intro conjI impI)
  show "quip_mainnet_config_genesis go = Some (Inl (fail ''unresolved council placeholders: Rick, Colton, Vik, Roman, David, BVI Admin''))"
    by (rule unresolved_mainnet)
  show "get_preset go ''quip-mainnet'' = None" by (simp add: get_preset_def or_refuse_def unresolved_mainnet)
  show "get_preset go ''quip-testnet-relaunch'' = None"
    by (simp add: get_preset_def or_refuse_def quip_testnet_relaunch_config_genesis_def testnet_relaunch_genesis_def)
  show "get_preset go name = Some None" if "name \<notin> set preset_names" using that by (auto simp: get_preset_def preset_names_def)
  show "quip_testnet_config_genesis go \<noteq> None \<longleftrightarrow>
       3 \<le> length (testnet_authorities go) \<and> length (testnet_authorities go) \<le> 32 \<and> distinct (map fst (testnet_authorities go))"
    by (rule quip_testnet_built)
  show "(\<exists>g. testnet_relaunch_genesis go (Some (a, b, c)) = Some (Inr g)) \<longleftrightarrow>
      distinct [a, b, c] \<and> {a, b, c} \<inter> set (reserved_mainnet_accounts go) = {} \<and>
      {a, b, c} \<inter> set (map fst (testnet_authorities go)) = {} \<and>
      distinct (map (\<lambda>(_, k, _). k) (testnet_authorities go)) \<and> distinct (map (\<lambda>(_, _, k). k) (testnet_authorities go))"
    if "quip_testnet_config_genesis go \<noteq> None" using relaunch_exported [OF that] by simp
qed

subsection \<open>A launch\<close>

text \<open>Accounts are numbers; every placeholder hashes to account 0.\<close>

definition demo_genesis :: "(nat, nat, nat) genesis_ops" where
  "demo_genesis = \<lparr>placeholder_hash = (\<lambda>_. 0), revive_account = 99, tx_account_from_seed = (\<lambda>s. 100 + length s),
     babe_authority_from_seed = (\<lambda>s. 100 + length s), grandpa_authority_from_seed = (\<lambda>s. 100 + length s),
     sr25519_seed = (\<lambda>v. ''//'' @ v), ed25519_seed = (\<lambda>v. ''//'' @ v), sr25519_keyring = [''Alice'', ''AliceStash''],
     sr25519_derivation = (\<lambda>v. if v = ''AliceStash'' then ''Alice//stash'' else v),
     testnet_authorities = [(201, 201, 201), (202, 202, 202), (203, 203, 203)], schedule_is_valid = (\<lambda>v. 0 < locked v \<and> 0 < per_block v)\<rparr>"

definition demo_allocation :: "nat mainnet_allocation" where
  "demo_allocation = \<lparr>alloc_total = Some (100 * UNIT), custody = 30, recipients = Some [31],
     terms = Some \<lparr>cadence_blocks = 10, tranches =
       [\<lparr>recipient = 31, issue_at = 1, schedule = \<lparr>locked = 20 * UNIT, per_block = UNIT, starting_block = 10\<rparr>\<rparr>,
        \<lparr>recipient = 31, issue_at = 11, schedule = \<lparr>locked = 20 * UNIT, per_block = UNIT, starting_block = 20\<rparr>\<rparr>]\<rparr>\<rparr>"

definition demo_launch :: "(nat, nat, nat) mainnet_inputs" where
  "demo_launch = \<lparr>council = [1, 2, 3, 4, 5, 6], council_placeholders = [],
     mn_validators = [\<lparr>stash = 11, session_keys = Some (11, 11)\<rparr>, \<lparr>stash = 12, session_keys = Some (12, 12)\<rparr>,
       \<lparr>stash = 13, session_keys = Some (13, 13)\<rparr>, \<lparr>stash = 14, session_keys = Some (14, 14)\<rparr>, \<lparr>stash = 15, session_keys = Some (15, 15)\<rparr>],
     spec_builder = 20, validator_float = Some (10 * UNIT), council_float = Some (10 * UNIT), spec_builder_float = Some (10 * UNIT),
     allocation = demo_allocation\<rparr>"

lemma demo_reserved: "set (reserved_mainnet_accounts demo_genesis) = {0}"
  by (simp add: reserved_mainnet_accounts_def mainnet_placeholder_def custody_placeholder_def demo_genesis_def MAINNET_COUNCIL_LABELS_def
      MAINNET_VALIDATOR_LABELS_def)

lemmas demo_units = UNIT_def EXISTENTIAL_DEPOSIT_def MILLI_UNIT_def VALIDATOR_BOND_def TEST_CURRENCY_ENDOWMENT_def MinVestedTransfer_def
  u128_max_def u32_max_def MAX_VESTING_SCHEDULES_def

lemma demo_alloc: "alloc_validate demo_genesis demo_allocation [11, 12, 13, 14, 15, 1, 2, 3, 4, 5, 6, 20] = Inr (100 * UNIT)"
  unfolding alloc_validate_def demo_reserved Let_def
  by (simp add: demo_allocation_def demo_genesis_def tranche_end_def checked_sub_def checked_div_def try_u32_def checked_add_def demo_units)

lemma demo_authorities:
  "authorities_of 0 (mn_validators demo_launch) = Inr [(11, 11, 11), (12, 12, 12), (13, 13, 13), (14, 14, 14), (15, 15, 15)]"
  by (simp add: demo_launch_def)

lemma demo_funding:
  "validate_mainnet_funding demo_genesis
     (mainnet_funding [11, 12, 13, 14, 15] (2010 * UNIT) [1, 2, 3, 4, 5, 6] (10 * UNIT) 20 (10 * UNIT) 30 (100 * UNIT))
     [11, 12, 13, 14, 15] [1, 2, 3, 4, 5, 6] 20 30 (100 * UNIT) = Inr ()"
  unfolding validate_mainnet_funding_def demo_reserved Let_def mainnet_funding_def
  by (simp add: checked_add_def demo_units)

lemma demo_launch_checks:
  "mainnet_checks demo_genesis demo_launch = Inr ([(11, 11, 11), (12, 12, 12), (13, 13, 13), (14, 14, 14), (15, 15, 15)],
     mainnet_funding [11, 12, 13, 14, 15] (2010 * UNIT) [1, 2, 3, 4, 5, 6] (10 * UNIT) 20 (10 * UNIT) 30 (100 * UNIT))"
proof -
  have f: "map stash (mn_validators demo_launch) = [11, 12, 13, 14, 15]" "council demo_launch = [1, 2, 3, 4, 5, 6]"
    "spec_builder demo_launch = 20" "allocation demo_launch = demo_allocation" "council_placeholders demo_launch = []"
    "custody demo_allocation = 30" "validator_float demo_launch = Some (10 * UNIT)" "council_float demo_launch = Some (10 * UNIT)"
    "spec_builder_float demo_launch = Some (10 * UNIT)" "\<And>label. mainnet_placeholder demo_genesis ''council'' label = 0"
    by (simp_all add: demo_launch_def demo_allocation_def mainnet_placeholder_def demo_genesis_def)
  have u: "checked_add u128_max VALIDATOR_BOND (10 * UNIT) = Some (2010 * UNIT)" "EXISTENTIAL_DEPOSIT \<le> 10 * UNIT" "UNIT \<noteq> 0"
    by (simp_all add: demo_units checked_add_def)
  have keys: "validate_session_keys [(11, 11, 11), (12, 12, 12), (13, 13, 13), (14, 14, 14), (15 :: nat, 15 :: nat, 15 :: nat)] = Inr ()"
    by (simp add: validate_session_keys_Inr)
  have fresh: "validate_mainnet_network_keys demo_genesis [(11, 11, 11), (12, 12, 12), (13, 13, 13), (14, 14, 14), (15, 15, 15)] = Inr ()"
    unfolding validate_mainnet_network_keys_def collisions_Inr by (auto simp: forbidden_keys_def dev_seeds_def demo_genesis_def)
  have floats: "resolved_float (Some (10 * UNIT)) name = Inr (10 * UNIT)" for name using u(2) by (simp add: resolved_float_Inr)
  have disjoint: "assert_council_disjoint [1, 2, 3, 4, 5, 6 :: nat] [11, 12, 13, 14, 15] True = Inr ()" by (simp add: assert_council_disjoint_iff)
  show ?thesis
    unfolding mainnet_checks_def Let_def f demo_authorities demo_reserved floats disjoint
    using keys fresh demo_alloc demo_funding u by simp
qed

theorem mainnet_export_sound_witness:
  "\<exists>g. mainnet_genesis demo_genesis demo_launch = Some (Inr g) \<and> launch_ok demo_genesis demo_allocation g"
proof -
  have typed: "allocation_typed (allocation demo_launch)"
    by (simp add: allocation_typed_def demo_launch_def demo_allocation_def u32_max_def)
  note t = mainnet_export_sound [OF typed, of demo_genesis]
  have "mainnet_genesis demo_genesis demo_launch \<noteq> None" using t by (rule conjunct1)
  then obtain g where "mainnet_genesis demo_genesis demo_launch = Some (Inr g)"
    unfolding mainnet_genesis_def demo_launch_checks by auto
  moreover have "allocation demo_launch = demo_allocation" by (simp add: demo_launch_def)
  ultimately show ?thesis using t by auto
qed

theorem presets_guarded_witness:
  "get_preset demo_genesis ''unknown'' = Some None \<and> (\<exists>g. testnet_relaunch_genesis demo_genesis (Some (1, 2, 3)) = Some (Inr g))"
proof -
  note t = presets_guarded [of demo_genesis "''unknown''" 1 2 3]
  have "''unknown'' \<notin> set preset_names" by (simp add: preset_names_def)
  then have "get_preset demo_genesis ''unknown'' = Some None" using t by blast
  moreover have a: "testnet_authorities demo_genesis = [(201, 201, 201), (202, 202, 202), (203, 203, 203)]" by (simp add: demo_genesis_def)
  then have "quip_testnet_config_genesis demo_genesis \<noteq> None" using t by simp
  moreover have "distinct [1, 2, 3 :: nat]" "{1, 2, 3} \<inter> set (reserved_mainnet_accounts demo_genesis) = {}"
    "{1, 2, 3} \<inter> set (map fst (testnet_authorities demo_genesis)) = {}"
    "distinct (map (\<lambda>(_, k, _). k) (testnet_authorities demo_genesis))" "distinct (map (\<lambda>(_, _, k). k) (testnet_authorities demo_genesis))"
    unfolding a demo_reserved by simp_all
  ultimately show ?thesis using t by blast
qed

end
