(* ===== verification/Call_Weights.thy ===== *)
theory Call_Weights
  imports Xqvm_Theorems Mempool_Submit Pow_Chain
begin

text \<open>
  The weights that calls declare before dispatch and return after it: \<open>weights.rs\<close> and the measured tables of the xqvm,
  mempool and quantum-pow pallets, and the mempool's check of its own weights against the block. Costs of the
  database, the arithmetic of ratios and the builder of block limits belong to the framework and are fields of
  \<open>weight_env\<close>.
\<close>

subsection \<open>The framework's side\<close>

definition weight_sub :: "weight \<Rightarrow> weight \<Rightarrow> weight" where
  "weight_sub v w = (sat_sub (fst v) (fst w), sat_sub (snd v) (snd w))"

definition weight_max :: "weight \<Rightarrow> weight \<Rightarrow> weight" where
  "weight_max v w = (max (fst v) (fst w), max (snd v) (snd w))"

record weight_spec =
  ws_base_block :: weight
  ws_base_extrinsic :: weight
  ws_normal_max_total :: weight
  ws_operational_max_total :: weight
  ws_operational_reserved :: weight
  ws_avg_block_initialization :: nat

record block_limits =
  max_block :: weight
  normal_max_total :: "weight option"
  normal_max_extrinsic :: "weight option"

record weight_env =
  db_reads :: "u64 \<Rightarrow> weight"
  db_writes :: "u64 \<Rightarrow> weight"
  ref_time_per_second :: u64
  ref_time_per_nanos :: u64
  ratio_mul :: "nat \<Rightarrow> nat \<Rightarrow> nat"
  build_limits :: "weight_spec \<Rightarrow> block_limits"

definition weight_ratio :: "weight_env \<Rightarrow> nat \<Rightarrow> weight \<Rightarrow> weight" where
  "weight_ratio e r w = (ratio_mul e r (fst w), ratio_mul e r (snd w))"

text \<open>
  What the weights rely on: a picosecond is the unit of time, an access to the database costs at most the 100 microseconds of a write and
  has no proof size, ratios in parts per billion round to a neighbour, and the builder derives the limits of the normal class:
  an extrinsic may use what the average initialisation and the base cost of an extrinsic leave.
\<close>

definition weight_laws :: "weight_env \<Rightarrow> bool" where
  "weight_laws e \<longleftrightarrow>
     ref_time_per_second e = 10 ^ 12 \<and> ref_time_per_nanos e = 1000 \<and>
     (\<forall>n. fst (db_reads e n) \<le> n * 10 ^ 8 \<and> snd (db_reads e n) = 0) \<and>
     (\<forall>n. fst (db_writes e n) \<le> n * 10 ^ 8 \<and> snd (db_writes e n) = 0) \<and>
     (\<forall>r x. r * x div 10 ^ 9 \<le> ratio_mul e r x \<and> ratio_mul e r x \<le> (r * x + 999999999) div 10 ^ 9) \<and>
     (\<forall>sp. normal_max_total (build_limits e sp) = Some (ws_normal_max_total sp) \<and>
       normal_max_extrinsic (build_limits e sp) =
         Some (weight_sub (weight_sub (ws_normal_max_total sp)
             (weight_ratio e (ws_avg_block_initialization sp) (weight_max (ws_normal_max_total sp) (ws_operational_max_total sp))))
           (ws_base_extrinsic sp)))"

subsection \<open>xqvm\<close>

definition xqvm_store_program_weight :: "weight_env \<Rightarrow> u32 \<Rightarrow> u32 \<Rightarrow> weight" where
  "xqvm_store_program_weight e s b =
     weight_add (weight_add (weight_add (weight_add (75953000, 69037)
       (weight_mul (144012, 0) s)) (weight_mul (5249929, 0) b)) (db_reads e 2)) (db_writes e 4)"

definition xqvm_execute_weight :: "weight_env \<Rightarrow> u32 \<Rightarrow> weight" where
  "xqvm_execute_weight e s = weight_add (weight_add (16348300, 69037) (weight_mul (14331, 0) s)) (db_reads e 1)"

definition xqvm_execute_step_weight :: "weight_env \<Rightarrow> u32 \<Rightarrow> weight" where
  "xqvm_execute_step_weight e t = weight_add (weight_add (17599105, 69037) (weight_mul (17929, 0) t)) (db_reads e 1)"

definition xqvm_remove_program_weight :: "weight_env \<Rightarrow> u32 \<Rightarrow> weight" where
  "xqvm_remove_program_weight e s =
     weight_add (weight_add (weight_add (63034829, 69037) (weight_mul (504, 0) s)) (db_reads e 4)) (db_writes e 4)"

definition xqvm_evict_program_weight :: "weight_env \<Rightarrow> u32 \<Rightarrow> weight" where
  "xqvm_evict_program_weight e s =
     weight_add (weight_add (weight_add (64119642, 69037) (weight_mul (491, 0) s)) (db_reads e 4)) (db_writes e 4)"

subsection \<open>quantum-pow\<close>

definition submit_proof_dimension_weight :: "u32 \<Rightarrow> u32 \<Rightarrow> u32 \<Rightarrow> weight" where
  "submit_proof_dimension_weight nodes edges solutions =
     (let node_cost = weight_mul (1200, 0) nodes;
          edge_cost = weight_mul (2400, 0) edges;
          solution_node_cost = weight_mul (weight_mul (6000, 0) solutions) nodes;
          solution_edge_cost = weight_mul (weight_mul (19100, 0) solutions) edges;
          solution_squared_cost = weight_mul (weight_mul (weight_mul (1200, 0) solutions) solutions) nodes;
          node_edge_cost = weight_mul (weight_mul (535, 0) nodes) edges
      in weight_add (weight_add (weight_add (weight_add (weight_add node_cost edge_cost) solution_node_cost)
           solution_edge_cost) solution_squared_cost) node_edge_cost)"

definition measured_submit_proof_weight :: "weight_env \<Rightarrow> u32 \<Rightarrow> u32 \<Rightarrow> u32 \<Rightarrow> weight" where
  "measured_submit_proof_weight e n ed s =
     weight_add (weight_add (weight_add (weight_add (4352766000, 423913)
       (weight_mul (1332441, 0) ed)) (weight_mul (1999116615, 0) s)) (db_reads e 10)) (db_writes e 3)"

definition submit_proof_weight :: "weight_env \<Rightarrow> u32 \<Rightarrow> u32 \<Rightarrow> u32 \<Rightarrow> weight" where
  "submit_proof_weight e n ed s =
     weight_add (weight_add (measured_submit_proof_weight e 0 0 0) (submit_proof_dimension_weight n ed s)) (db_reads e 1)"

text \<open>The weight a proof is charged: the dimensions come from the registered topology.\<close>

definition submit_proof_charge :: "weight_env \<Rightarrow> quantum_proof \<Rightarrow> ('a, 'b) pow_state \<Rightarrow> weight" where
  "submit_proof_charge e p s =
     (let (nodes, edges) = (case registered_topologies s (qp_topology_hash p) of
              Some t \<Rightarrow> (length (tm_nodes t), length (tm_edges t))
            | None \<Rightarrow> (0, 0))
      in submit_proof_weight e nodes edges (length (qp_solutions p)))"

subsection \<open>quantum-compute-mempool: measured weights\<close>

text \<open>The arguments that the measured functions ignore are left out.\<close>

definition measured_propose_job :: "weight_env \<Rightarrow> u32 \<Rightarrow> u32 \<Rightarrow> weight" where
  "measured_propose_job e n ed =
     weight_add (weight_add (weight_add (weight_add (522415000, 3770)
       (weight_mul (255289, 0) n)) (weight_mul (80308, 0) ed)) (db_reads e 3)) (db_writes e 6)"

definition measured_propose_job_with_payee_requirement :: "weight_env \<Rightarrow> u32 \<Rightarrow> u32 \<Rightarrow> weight" where
  "measured_propose_job_with_payee_requirement e n ed =
     weight_add (weight_add (weight_add (weight_add (520171000, 3770)
       (weight_mul (260354, 0) n)) (weight_mul (79328, 0) ed)) (db_reads e 3)) (db_writes e 7)"

definition measured_submit_solution :: "weight_env \<Rightarrow> u32 \<Rightarrow> u32 \<Rightarrow> weight" where
  "measured_submit_solution e ed s =
     weight_add (weight_add (weight_add (weight_add (3951325000, 644411)
       (weight_mul (836262, 0) ed)) (weight_mul (2020892398, 0) s)) (db_reads e 7)) (db_writes e 6)"

definition measured_submit_solution_with_payee :: "weight_env \<Rightarrow> u32 \<Rightarrow> u32 \<Rightarrow> weight" where
  "measured_submit_solution_with_payee e ed s =
     weight_add (weight_add (weight_add (weight_add (3970020000, 644411)
       (weight_mul (837185, 0) ed)) (weight_mul (1997750983, 0) s)) (db_reads e 7)) (db_writes e 7)"

definition measured_submit_solution_replacement :: "weight_env \<Rightarrow> u32 \<Rightarrow> u32 \<Rightarrow> weight" where
  "measured_submit_solution_replacement e ed s =
     weight_add (weight_add (weight_add (weight_add (4109132000, 644411)
       (weight_mul (830117, 0) ed)) (weight_mul (2001483708, 0) s)) (db_reads e 7)) (db_writes e 5)"

definition measured_submit_solution_clear_payee :: "weight_env \<Rightarrow> u32 \<Rightarrow> u32 \<Rightarrow> weight" where
  "measured_submit_solution_clear_payee e ed s =
     weight_add (weight_add (weight_add (weight_add (4112488000, 644411)
       (weight_mul (829941, 0) ed)) (weight_mul (2008209676, 0) s)) (db_reads e 7)) (db_writes e 5)"

definition measured_claim_reward :: "weight_env \<Rightarrow> weight" where
  "measured_claim_reward e = weight_add (weight_add (2403366000, 644411) (db_reads e 69)) (db_writes e 69)"

definition measured_claim_reward_dust :: "weight_env \<Rightarrow> weight" where
  "measured_claim_reward_dust e = weight_add (weight_add (2416570000, 644411) (db_reads e 69)) (db_writes e 69)"

definition measured_reclaim_order :: "weight_env \<Rightarrow> weight" where
  "measured_reclaim_order e = weight_add (weight_add (700537000, 644411) (db_reads e 2)) (db_writes e 3)"

subsection \<open>quantum-compute-mempool: proof floors\<close>

definition CLAIM_REWARD_PROOF_FLOOR :: u64 where "CLAIM_REWARD_PROOF_FLOOR = 1024 * 1024"
definition RECLAIM_ORDER_PROOF_FLOOR :: u64 where "RECLAIM_ORDER_PROOF_FLOOR = 1024 * 1024"
definition PROPOSE_JOB_PROOF_FLOOR :: u64 where "PROPOSE_JOB_PROOF_FLOOR = 1024 * 1024"
definition SUBMIT_SOLUTION_PROOF_FLOOR :: u64 where "SUBMIT_SOLUTION_PROOF_FLOOR = 1024 * 1024"
definition TRIE_OVERHEAD_PER_KEY :: u64 where "TRIE_OVERHEAD_PER_KEY = (8 + 2) * 15 * 33"

lemmas proof_floors = CLAIM_REWARD_PROOF_FLOOR_def RECLAIM_ORDER_PROOF_FLOOR_def PROPOSE_JOB_PROOF_FLOOR_def
  SUBMIT_SOLUTION_PROOF_FLOOR_def TRIE_OVERHEAD_PER_KEY_def

text \<open>
  Maximal sizes of storage entries come from the framework's \<open>storage_info\<close>: one entry per prefix, each with an optional
  bound. \<open>None\<close> is the panic of the assertion or of \<open>expect\<close>.
\<close>

datatype settlement_storage =
    StJobOrders | StJobSpecs | StProposerOrders | StOrderTopSolvers | StOrderFrontRunner | StAccount | StSolvers
  | StOpenOrders | StTotalIssuance | StNextOrderId | StOrdersExpiringAt | StOrderPayeeRequirements | StOrderSolutions
  | StOrderPayees

type_synonym storage_sizes = "settlement_storage \<Rightarrow> u32 option list"

definition storage_key_envelope :: "storage_sizes \<Rightarrow> settlement_storage \<Rightarrow> u64 option" where
  "storage_key_envelope info st =
     (case info st of [Some bytes_max] \<Rightarrow> Some (sat_add u64_max bytes_max TRIE_OVERHEAD_PER_KEY) | _ \<Rightarrow> None)"

definition envelope_add :: "u64 option \<Rightarrow> u64 option \<Rightarrow> u64 option" where
  "envelope_add a b = Option.bind a (\<lambda>x. map_option (sat_add u64_max x) b)"

definition envelope_max :: "u64 option \<Rightarrow> u64 option \<Rightarrow> u64 option" where
  "envelope_max a b = Option.bind a (\<lambda>x. map_option (max x) b)"

definition envelope_mul :: "u64 option \<Rightarrow> u64 \<Rightarrow> u64 option" where
  "envelope_mul a n = map_option (\<lambda>x. sat_mul u64_max x n) a"

definition claim_reward_proof_envelope :: "storage_sizes \<Rightarrow> u64 option" where
  "claim_reward_proof_envelope info =
     (let env = storage_key_envelope info; winners = MAX_REWARD_WINNERS in
      envelope_add (envelope_add (envelope_add (envelope_add (envelope_add (envelope_add (envelope_add
        (env StJobOrders) (env StJobSpecs)) (env StProposerOrders))
        (envelope_max (env StOrderTopSolvers) (env StOrderFrontRunner)))
        (envelope_mul (env StAccount) (sat_add u64_max winners 1)))
        (envelope_mul (env StSolvers) winners))
        (env StOpenOrders)) (env StTotalIssuance))"

definition reclaim_order_proof_envelope :: "storage_sizes \<Rightarrow> u64 option" where
  "reclaim_order_proof_envelope info =
     (let env = storage_key_envelope info in
      envelope_add (envelope_add (envelope_add (envelope_add
        (env StJobOrders) (env StProposerOrders)) (env StAccount)) (env StOpenOrders)) (env StTotalIssuance))"

text \<open>A block number takes four bytes.\<close>

definition propose_job_proof_envelope :: "storage_sizes \<Rightarrow> u64 option" where
  "propose_job_proof_envelope info =
     (let env = storage_key_envelope info in
      envelope_add (envelope_add (envelope_add (envelope_add (envelope_add (envelope_add (envelope_add (envelope_add
        (env StJobOrders) (env StJobSpecs)) (env StProposerOrders)) (env StAccount)) (env StNextOrderId))
        (env StOpenOrders)) (env StOrdersExpiringAt)) (env StOrderPayeeRequirements)) (Some (4 + TRIE_OVERHEAD_PER_KEY)))"

definition submit_solution_proof_envelope :: "storage_sizes \<Rightarrow> u64 option" where
  "submit_solution_proof_envelope info =
     (let env = storage_key_envelope info in
      envelope_add (envelope_add (envelope_add (envelope_add (envelope_add (envelope_add (envelope_add (envelope_add
        (env StJobOrders) (env StJobSpecs)) (env StSolvers)) (env StOrderSolutions))
        (envelope_max (env StOrderTopSolvers) (env StOrderFrontRunner)))
        (envelope_mul (env StOrdersExpiringAt) 2)) (env StOrderPayeeRequirements)) (env StOrderPayees))
        (Some (4 + TRIE_OVERHEAD_PER_KEY)))"

definition covers :: "u64 \<Rightarrow> u64 option \<Rightarrow> bool" where
  "covers fl envelope = (case envelope of Some x \<Rightarrow> x \<le> fl | None \<Rightarrow> False)"

subsection \<open>quantum-compute-mempool: declared weights\<close>

definition with_claim_reward_proof_floor :: "weight \<Rightarrow> weight" where
  "with_claim_reward_proof_floor w = weight_max w (0, CLAIM_REWARD_PROOF_FLOOR)"

definition with_reclaim_order_proof_floor :: "weight \<Rightarrow> weight" where
  "with_reclaim_order_proof_floor w = weight_max w (0, RECLAIM_ORDER_PROOF_FLOOR)"

definition with_propose_job_proof_floor :: "weight \<Rightarrow> weight" where
  "with_propose_job_proof_floor w = weight_max w (0, PROPOSE_JOB_PROOF_FLOOR)"

definition with_submit_solution_proof_floor :: "weight \<Rightarrow> weight" where
  "with_submit_solution_proof_floor w = weight_max w (0, SUBMIT_SOLUTION_PROOF_FLOOR)"

definition claim_reward_weight :: "weight_env \<Rightarrow> weight" where
  "claim_reward_weight e = with_claim_reward_proof_floor (weight_max (measured_claim_reward e) (measured_claim_reward_dust e))"

definition reclaim_order_weight :: "weight_env \<Rightarrow> weight" where
  "reclaim_order_weight e = with_reclaim_order_proof_floor (measured_reclaim_order e)"

definition propose_job_weight :: "weight_env \<Rightarrow> u32 \<Rightarrow> u32 \<Rightarrow> weight" where
  "propose_job_weight e n ed = with_propose_job_proof_floor (measured_propose_job e n ed)"

definition propose_job_with_payee_requirement_weight :: "weight_env \<Rightarrow> u32 \<Rightarrow> u32 \<Rightarrow> weight" where
  "propose_job_with_payee_requirement_weight e n ed =
     with_propose_job_proof_floor (measured_propose_job_with_payee_requirement e n ed)"

text \<open>One bound for every kind of submission.\<close>

definition submit_solution_weight :: "weight_env \<Rightarrow> u32 \<Rightarrow> u32 \<Rightarrow> weight" where
  "submit_solution_weight e ed s =
     with_submit_solution_proof_floor
       (weight_max (weight_max (weight_max (measured_submit_solution e ed s) (measured_submit_solution_with_payee e ed s))
          (measured_submit_solution_replacement e ed s)) (measured_submit_solution_clear_payee e ed s))"

text \<open>The prices of the virtual machine in the mempool's configuration.\<close>

record vm_prices =
  vm_weight_per_step :: weight
  vm_program_lookup_weight :: weight

definition transform_weight :: "vm_prices \<Rightarrow> u64 \<Rightarrow> bool \<Rightarrow> weight" where
  "transform_weight v steps has_program =
     weight_add (weight_mul (vm_weight_per_step v) steps) (if has_program then vm_program_lookup_weight v else (0, 0))"

text \<open>The charge of a submission before dispatch.\<close>

definition submit_solution_charge :: "weight_env \<Rightarrow> ('a, 'b, 'p) mempool_config \<Rightarrow> vm_prices \<Rightarrow> u64 \<Rightarrow> weight" where
  "submit_solution_charge e c v max_steps =
     weight_add (submit_solution_weight e (mc_max_edges c) (mc_max_solutions c)) (transform_weight v max_steps True)"

text \<open>
  The two variables that \<open>submit_solution_inner\<close> leaves to its caller whether it succeeds or fails: the steps
  used and whether there was a program. They stay at their initial values when an admission check or the index fails.
\<close>

definition submission_meter ::
    "('a, 'b, 'p) mempool_config \<Rightarrow> 'a \<Rightarrow> u64 \<Rightarrow> i8 list list \<Rightarrow> winner_payee option \<Rightarrow> ('a, 'b) mempool_state \<Rightarrow> u64 \<times> bool" where
  "submission_meter c who order_id solutions payee s =
     (case check_submission who order_id solutions payee s of
        Inl _ \<Rightarrow> (0, False)
      | Inr (info, order, spec) \<Rightarrow>
          (case topology_index_new (ip_nodes (params order)) (ip_edges (params order)) of
             Inl _ \<Rightarrow> (0, False)
           | Inr topology \<Rightarrow>
               (steps_used (transform_solutions (mc_vm c (mp_env s)) (transform_program spec) solutions),
                transform_program spec \<noteq> None)))"

definition submit_solution_post_weight ::
    "weight_env \<Rightarrow> vm_prices \<Rightarrow> ('a, 'b, 'p) mempool_config \<Rightarrow> 'a \<Rightarrow> u64 \<Rightarrow> i8 list list \<Rightarrow> winner_payee option \<Rightarrow>
     ('a, 'b) mempool_state \<Rightarrow> weight" where
  "submit_solution_post_weight e v c who order_id solutions payee s =
     (let base = submit_solution_weight e (mc_max_edges c) (mc_max_solutions c);
          (steps, has_program) = submission_meter c who order_id solutions payee s
      in weight_add base (transform_weight v steps has_program))"

subsection \<open>The check of the mempool's integrity test\<close>

definition declared_weight_ok :: "block_limits \<Rightarrow> weight \<times> u64 \<Rightarrow> bool" where
  "declared_weight_ok limits entry =
     (let (w, fl) = entry in
      fl \<le> snd w \<and>
      weight_le w (case normal_max_extrinsic limits of Some m \<Rightarrow> m | None \<Rightarrow> max_block limits) \<and>
      weight_le w (case normal_max_total limits of Some m \<Rightarrow> m | None \<Rightarrow> max_block limits))"

definition check_claim_reward_weight ::
    "weight_env \<Rightarrow> storage_sizes \<Rightarrow> block_limits \<Rightarrow> ('a, 'b, 'p) mempool_config \<Rightarrow> vm_prices \<Rightarrow> u64 \<Rightarrow> bool" where
  "check_claim_reward_weight e info limits c v max_steps \<longleftrightarrow>
     MAX_REWARD_WINNERS = 32 \<and>
     covers CLAIM_REWARD_PROOF_FLOOR (claim_reward_proof_envelope info) \<and>
     covers RECLAIM_ORDER_PROOF_FLOOR (reclaim_order_proof_envelope info) \<and>
     covers SUBMIT_SOLUTION_PROOF_FLOOR (submit_solution_proof_envelope info) \<and>
     covers PROPOSE_JOB_PROOF_FLOOR (propose_job_proof_envelope info) \<and>
     list_all (declared_weight_ok limits)
       [(propose_job_weight e (mc_max_nodes c) (mc_max_edges c), PROPOSE_JOB_PROOF_FLOOR),
        (propose_job_with_payee_requirement_weight e (mc_max_nodes c) (mc_max_edges c), PROPOSE_JOB_PROOF_FLOOR),
        (claim_reward_weight e, CLAIM_REWARD_PROOF_FLOOR),
        (reclaim_order_weight e, RECLAIM_ORDER_PROOF_FLOOR),
        (weight_add (submit_solution_weight e (mc_max_edges c) (mc_max_solutions c)) (transform_weight v max_steps True),
         SUBMIT_SOLUTION_PROOF_FLOOR),
        (weight_add (submit_solution_weight e (mc_max_edges c) (mc_max_solutions c)) (transform_weight v max_steps True),
         SUBMIT_SOLUTION_PROOF_FLOOR)]"

end
