(* ===== verification/Runtime_Config.thy ===== *)
theory Runtime_Config
  imports Call_Weights Genesis
begin

text \<open>
  The constants of \<open>runtime/src/configs/mod.rs\<close> for the program store, the mempool, the proof-of-work pallet and the emission
  controller, with the limits of a block and the step price and limit derived from them. Each configuration keeps
  the third-party functions of its argument.
\<close>

subsection \<open>Limits of a block\<close>

definition NORMAL_DISPATCH_RATIO :: nat where "NORMAL_DISPATCH_RATIO = 750000000"
definition AVERAGE_ON_INITIALIZE_RATIO :: nat where "AVERAGE_ON_INITIALIZE_RATIO = 100000000"

definition BlockExecutionWeight :: "weight_env \<Rightarrow> weight" where
  "BlockExecutionWeight e = (sat_mul u64_max (ref_time_per_nanos e) 435519, 0)"

definition ExtrinsicBaseWeight :: "weight_env \<Rightarrow> weight" where
  "ExtrinsicBaseWeight e = (sat_mul u64_max (ref_time_per_nanos e) 323359, 0)"

definition RuntimeBlockWeights :: "weight_env \<Rightarrow> block_limits" where
  "RuntimeBlockWeights e =
     (let max_block = (2 * ref_time_per_second e, u64_max);
          normal_max = weight_ratio e NORMAL_DISPATCH_RATIO max_block
      in build_limits e
           \<lparr>ws_base_block = BlockExecutionWeight e, ws_base_extrinsic = ExtrinsicBaseWeight e,
            ws_normal_max_total = normal_max, ws_operational_max_total = max_block,
            ws_operational_reserved = weight_sub max_block normal_max,
            ws_avg_block_initialization = AVERAGE_ON_INITIALIZE_RATIO\<rparr>)"

subsection \<open>The program store\<close>

definition MICRO_UNIT :: balance where "MICRO_UNIT = 1000000"
definition StorageDepositPerItem :: balance where "StorageDepositPerItem = 200 * MILLI_UNIT"
definition StorageDepositPerByte :: balance where "StorageDepositPerByte = 10 * MICRO_UNIT"
definition MaxProgramSize :: u32 where "MaxProgramSize = 65536"
definition MaxProgramBlocks :: u32 where "MaxProgramBlocks = 2048"
definition MaxLoopDepth :: u32 where "MaxLoopDepth = 32"
definition MaxOutputSlots :: u32 where "MaxOutputSlots = 256"
definition MaxVmMemory :: u64 where "MaxVmMemory = 16 * 1024 * 1024"

definition XqvmWeightPerStep :: "weight_env \<Rightarrow> weight" where
  "XqvmWeightPerStep e = weight_mul (weight_sub (xqvm_execute_step_weight e 1) (xqvm_execute_step_weight e 0)) 2"

definition MaxStepLimit :: "weight_env \<Rightarrow> u64" where
  "MaxStepLimit e =
     (let limits = RuntimeBlockWeights e;
          normal = (case normal_max_total limits of Some m \<Rightarrow> m | None \<Rightarrow> max_block limits);
          budget = fst normal div 2;
          base = fst (xqvm_execute_weight e MaxProgramSize);
          per_step = max (fst (XqvmWeightPerStep e)) 1
      in sat_sub budget base div per_step)"

definition runtime_xqvm_config :: "weight_env \<Rightarrow> ('a, 'b, 'h, 'p) xqvm_config \<Rightarrow> ('a, 'b, 'h, 'p) xqvm_config" where
  "runtime_xqvm_config e c =
     c\<lparr>xq_deposit_base := StorageDepositPerItem, xq_deposit_per_byte := StorageDepositPerByte,
       max_program_size := MaxProgramSize, max_program_blocks := MaxProgramBlocks, max_loop_depth := MaxLoopDepth,
       max_output_slots := MaxOutputSlots, xq_max_vm_memory := MaxVmMemory, max_step_limit := MaxStepLimit e,
       weight_per_step := XqvmWeightPerStep e, store_program_weight := xqvm_store_program_weight e,
       remove_program_weight := xqvm_remove_program_weight e, evict_program_weight := xqvm_evict_program_weight e,
       execute_weight := xqvm_execute_weight e\<rparr>"

subsection \<open>The mempool\<close>

definition QuantumMaxSolutions :: u32 where "QuantumMaxSolutions = 20"
definition QuantumMaxTransformSteps :: u64 where "QuantumMaxTransformSteps = 5000000"

definition QuantumProgramLookupWeight :: "weight_env \<Rightarrow> weight" where
  "QuantumProgramLookupWeight e = weight_mul (xqvm_execute_weight e MaxProgramSize) QuantumMaxSolutions"

definition QuantumProgramValidationWeight :: "weight_env \<Rightarrow> weight" where
  "QuantumProgramValidationWeight e = xqvm_store_program_weight e MaxProgramSize MaxProgramBlocks"

definition runtime_vm_prices :: "weight_env \<Rightarrow> vm_prices" where
  "runtime_vm_prices e =
     \<lparr>vm_weight_per_step = XqvmWeightPerStep e, vm_program_lookup_weight = QuantumProgramLookupWeight e\<rparr>"

definition runtime_mempool_config :: "('a, 'b, 'p) mempool_config \<Rightarrow> ('a, 'b, 'p) mempool_config" where
  "runtime_mempool_config c =
     c\<lparr>mc_max_nodes := 5000, mc_max_edges := 50000, mc_max_solutions := QuantumMaxSolutions, mc_max_bid_miners := 16,
       mc_max_orders_per_proposer := 32, mc_max_deadline_blocks := 1000, mc_max_block_wait := 100,
       mc_min_reward := UNIT, mc_result_ttl_blocks := 10000,
       mc_vm := (\<lambda>e. (mc_vm c e)\<lparr>max_vm_memory := MaxVmMemory, max_transform_steps := QuantumMaxTransformSteps\<rparr>)\<rparr>"

subsection \<open>Proof of work and emission\<close>

definition QuantumPowMaxNodes :: u32 where "QuantumPowMaxNodes = 5000"
definition QuantumPowMaxEdges :: u32 where "QuantumPowMaxEdges = 50000"
definition QuantumPowMaxSolutions :: u32 where "QuantumPowMaxSolutions = 32"

definition runtime_pow_config :: "('a, 'b, 'r) pow_config \<Rightarrow> ('a, 'b, 'r) pow_config" where
  "runtime_pow_config c =
     c\<lparr>max_nodes := QuantumPowMaxNodes, max_allowed_values := 32, min_nodes := 16, epoch_length := 100,
       miner_deposit := UNIT, const_block_reward := UNIT, min_block_reward := UNIT div 10, max_block_reward := 100 * UNIT,
       const_target_proof_blocks := 100, min_target_proof_blocks := 80, max_target_proof_blocks := 400,
       max_proofs_per_block := 8, curve_c_easy_milli := 700, curve_c_knee_milli := 725, curve_c_hard_milli := 750\<rparr>"

definition ControllerAnnualEmission :: balance where
  "ControllerAnnualEmission = sat_mul u128_max CONTROLLER_ANNUAL_EMISSION_QUIP UNIT"

definition runtime_emission_config :: "('a, 'b) emission_config \<Rightarrow> ('a, 'b) emission_config" where
  "runtime_emission_config c =
     c\<lparr>annual_emission := ControllerAnnualEmission, pot_id := map of_char ''qp/emiss'', max_subnets := 32\<rparr>"

end
