(* ===== verification/Runtime_Budgets.thy ===== *)
theory Runtime_Budgets
  imports Runtime_Config
begin

text \<open>
  The weights against the block: what the virtual machine may spend, what a submission to the mempool reserves and gives
  back, and that a block has room for the proofs the proof-of-work pallet admits.
\<close>

subsection \<open>Weights as bounds\<close>

lemma weight_add_bound: "fst (weight_add v w) \<le> fst v + fst w" "snd (weight_add v w) \<le> snd v + snd w"
  by (simp_all add: weight_add_def sat_add_def)

lemma weight_mul_bound: "fst (weight_mul w n) \<le> fst w * n" "snd (weight_mul w n) \<le> snd w * n"
  by (simp_all add: weight_mul_def sat_mul_def)

lemma weight_max_fst [simp]: "fst (weight_max v w) = max (fst v) (fst w)" "snd (weight_max v w) = max (snd v) (snd w)"
  by (simp_all add: weight_max_def)

lemma weight_sub_fst [simp]: "fst (weight_sub v w) = fst v - fst w" "snd (weight_sub v w) = snd v - snd w"
  by (simp_all add: weight_sub_def)

lemma weight_le_refl [simp]: "weight_le w w"
  by (simp add: weight_le_def)

lemma weight_le_trans: "weight_le u v \<Longrightarrow> weight_le v w \<Longrightarrow> weight_le u w"
  by (auto simp: weight_le_def)

text \<open>Bounds of sums and products are computed from the bounds of their parts.\<close>

lemma fst_weight_add_le: "fst v \<le> a \<Longrightarrow> fst w \<le> b \<Longrightarrow> fst (weight_add v w) \<le> a + b"
  using weight_add_bound(1) [of v w] by linarith

lemma snd_weight_add_le: "snd v \<le> a \<Longrightarrow> snd w \<le> b \<Longrightarrow> snd (weight_add v w) \<le> a + b"
  using weight_add_bound(2) [of v w] by linarith

lemma fst_weight_mul_le: "fst w \<le> a \<Longrightarrow> n \<le> k \<Longrightarrow> fst (weight_mul w n) \<le> a * k"
  using weight_mul_bound(1) [of w n] mult_le_mono [of "fst w" a n k] by linarith

lemma snd_weight_mul_le: "snd w \<le> a \<Longrightarrow> n \<le> k \<Longrightarrow> snd (weight_mul w n) \<le> a * k"
  using weight_mul_bound(2) [of w n] mult_le_mono [of "snd w" a n k] by linarith

lemma fst_weight_add_id: "fst v + fst w \<le> u64_max \<Longrightarrow> fst (weight_add v w) = fst v + fst w"
  by (simp add: weight_add_def sat_add_def)

lemma fst_weight_mul_id: "fst w * n \<le> u64_max \<Longrightarrow> fst (weight_mul w n) = fst w * n"
  by (simp add: weight_mul_def sat_mul_def)

lemma weight_laws_db:
  assumes "weight_laws e"
  shows "fst (db_reads e n) \<le> n * 10 ^ 8" "snd (db_reads e n) \<le> 0" "fst (db_writes e n) \<le> n * 10 ^ 8" "snd (db_writes e n) \<le> 0"
  using assms by (simp_all add: weight_laws_def)

lemma parts_le: "fst (a, b) \<le> a" "snd (a, b) \<le> b" for a b :: nat
  by simp_all

lemmas weight_bounds = fst_weight_add_le snd_weight_add_le fst_weight_mul_le snd_weight_mul_le parts_le order_refl

subsection \<open>The limits of the normal class\<close>

lemma normal_limits:
  assumes "weight_laws e"
  obtains mt me where "normal_max_total (RuntimeBlockWeights e) = Some mt" "normal_max_extrinsic (RuntimeBlockWeights e) = Some me"
    "fst mt = 1500000000000" "10 ^ 19 \<le> snd mt" "fst me = 1299676641000" "10 ^ 19 \<le> snd me"
proof -
  let ?max = "(2 * ref_time_per_second e, u64_max)"
  let ?mt = "weight_ratio e NORMAL_DISPATCH_RATIO ?max"
  let ?init = "weight_ratio e AVERAGE_ON_INITIALIZE_RATIO (weight_max ?mt ?max)"
  let ?me = "weight_sub (weight_sub ?mt ?init) (ExtrinsicBaseWeight e)"
  have sec: "ref_time_per_second e = 10 ^ 12" "ref_time_per_nanos e = 1000"
    and r: "r * x div 10 ^ 9 \<le> ratio_mul e r x" "ratio_mul e r x \<le> (r * x + 999999999) div 10 ^ 9" for r x
    using assms by (simp_all add: weight_laws_def)
  have mt: "fst ?mt = 1500000000000" "snd ?mt \<le> u64_max" "13835058055282163711 \<le> snd ?mt"
    using r [of 750000000 "2 * 10 ^ 12"] r [of 750000000 u64_max]
    by (simp_all add: weight_ratio_def NORMAL_DISPATCH_RATIO_def sec u64_max_def)
  then have top: "weight_max ?mt ?max = ?max" by (auto simp: weight_max_def sec)
  have init: "fst ?init = 200000000000" "snd ?init \<le> 1844674407370955162"
    unfolding top using r [of 100000000 "2 * 10 ^ 12"] r [of 100000000 u64_max]
    by (simp_all add: weight_ratio_def AVERAGE_ON_INITIALIZE_RATIO_def sec u64_max_def)
  have base: "ExtrinsicBaseWeight e = (323359000, 0)" by (simp add: ExtrinsicBaseWeight_def sec sat_mul_def u64_max_def)
  have "normal_max_total (RuntimeBlockWeights e) = Some ?mt" "normal_max_extrinsic (RuntimeBlockWeights e) = Some ?me"
    using assms by (simp_all add: RuntimeBlockWeights_def weight_laws_def Let_def)
  moreover have "fst ?me = 1299676641000" "10 ^ 19 \<le> snd ?me" "10 ^ 19 \<le> snd ?mt" using mt init base by simp_all
  ultimately show ?thesis using that mt(1) by blast
qed

subsection \<open>The virtual machine\<close>

lemma step_price:
  assumes "weight_laws e"
  shows "XqvmWeightPerStep e = (35858, 0)"
    "fst (weight_sub (xqvm_execute_step_weight e 1) (xqvm_execute_step_weight e 0)) = 17929"
proof -
  have r: "fst (db_reads e 1) \<le> 10 ^ 8" "snd (db_reads e 1) = 0" using weight_laws_db [OF assms, of 1] by simp_all
  obtain x where x: "db_reads e 1 = (x, 0)" "x \<le> 10 ^ 8" using r by (cases "db_reads e 1") auto
  have one: "xqvm_execute_step_weight e 1 = (17617034 + x, 69037)" "xqvm_execute_step_weight e 0 = (17599105 + x, 69037)"
    using x by (simp_all add: xqvm_execute_step_weight_def weight_add_def weight_mul_def sat_add_def sat_mul_def u64_max_def)
  show "XqvmWeightPerStep e = (35858, 0)"
    unfolding XqvmWeightPerStep_def one by (simp add: weight_sub_def weight_mul_def sat_mul_def u64_max_def)
  show "fst (weight_sub (xqvm_execute_step_weight e 1) (xqvm_execute_step_weight e 0)) = 17929" unfolding one by simp
qed

lemma execute_base:
  assumes "weight_laws e"
  shows "fst (xqvm_execute_weight e MaxProgramSize) \<le> 1055544716" "snd (xqvm_execute_weight e MaxProgramSize) \<le> 69037"
proof -
  note b = weight_bounds weight_laws_db [OF assms]
  have "fst (xqvm_execute_weight e MaxProgramSize) \<le> 16348300 + 14331 * MaxProgramSize + 1 * 10 ^ 8"
    unfolding xqvm_execute_weight_def by (intro b)
  then show "fst (xqvm_execute_weight e MaxProgramSize) \<le> 1055544716" by (simp add: MaxProgramSize_def)
  have "snd (xqvm_execute_weight e MaxProgramSize) \<le> 69037 + 0 * MaxProgramSize + 0"
    unfolding xqvm_execute_weight_def by (intro b)
  then show "snd (xqvm_execute_weight e MaxProgramSize) \<le> 69037" by simp
qed

text \<open>The step limit is the largest one whose execution fits half of the normal budget.\<close>

lemma step_limit_exact:
  assumes "weight_laws e"
  shows "fst (xqvm_execute_weight e MaxProgramSize) + 35858 * n \<le> 750000000000 \<longleftrightarrow> n \<le> MaxStepLimit e"
proof -
  let ?b = "fst (xqvm_execute_weight e MaxProgramSize)"
  obtain mt where "normal_max_total (RuntimeBlockWeights e) = Some mt" "fst mt = 1500000000000"
    by (rule normal_limits [OF assms])
  then have "MaxStepLimit e = (750000000000 - ?b) div 35858" using step_price(1) [OF assms] by (simp add: MaxStepLimit_def Let_def)
  moreover have "n \<le> (750000000000 - ?b) div 35858 \<longleftrightarrow> n * 35858 \<le> 750000000000 - ?b" by (rule less_eq_div_iff_mult_less_eq) simp
  ultimately show ?thesis using execute_base(1) [OF assms] by auto
qed

lemma execute_charge_fst:
  assumes "weight_laws e" "n \<le> Suc (MaxStepLimit e)"
  shows "fst (execute_charge (runtime_xqvm_config e c) n) = fst (xqvm_execute_weight e MaxProgramSize) + 35858 * n"
proof -
  have "fst (xqvm_execute_weight e MaxProgramSize) + 35858 * MaxStepLimit e \<le> 750000000000"
    using step_limit_exact [OF assms(1), of "MaxStepLimit e"] by simp
  then have "fst (xqvm_execute_weight e MaxProgramSize) + 35858 * n \<le> 750000035858" using assms(2) by linarith
  then show ?thesis
    by (simp add: execute_charge_def runtime_xqvm_config_def step_price(1) [OF assms(1)] weight_add_def weight_mul_def
        sat_add_def sat_mul_def u64_max_def)
qed

lemma runtime_weights_monotone: "weights_monotone (runtime_xqvm_config e c)"
  by (simp add: weights_monotone_def runtime_xqvm_config_def xqvm_store_program_weight_def xqvm_remove_program_weight_def
      xqvm_evict_program_weight_def xqvm_execute_weight_def weight_add_mono weight_mul_mono)

lemma store_charge_bound:
  assumes "weight_laws e" "b \<le> MaxProgramSize"
  shows "fst (xqvm_store_program_weight e b MaxProgramBlocks) \<le> 30000000000" "snd (xqvm_store_program_weight e b MaxProgramBlocks) \<le> 69037"
proof -
  note b = weight_bounds weight_laws_db [OF assms(1)] assms(2)
  have "fst (xqvm_store_program_weight e b MaxProgramBlocks) \<le>
    75953000 + 144012 * MaxProgramSize + 5249929 * MaxProgramBlocks + 2 * 10 ^ 8 + 4 * 10 ^ 8"
    unfolding xqvm_store_program_weight_def by (intro b)
  then show "fst (xqvm_store_program_weight e b MaxProgramBlocks) \<le> 30000000000"
    by (simp add: MaxProgramSize_def MaxProgramBlocks_def)
  have "snd (xqvm_store_program_weight e b MaxProgramBlocks) \<le> 69037 + 0 * MaxProgramSize + 0 * MaxProgramBlocks + 0 + 0"
    unfolding xqvm_store_program_weight_def by (intro b)
  then show "snd (xqvm_store_program_weight e b MaxProgramBlocks) \<le> 69037" by simp
qed

lemma removal_charge_bounds:
  assumes "weight_laws e"
  shows "fst (xqvm_remove_program_weight e MaxProgramSize) \<le> 30000000000" "snd (xqvm_remove_program_weight e MaxProgramSize) \<le> 69037"
    "fst (xqvm_evict_program_weight e MaxProgramSize) \<le> 30000000000" "snd (xqvm_evict_program_weight e MaxProgramSize) \<le> 69037"
proof -
  note b = weight_bounds weight_laws_db [OF assms]
  have "fst (xqvm_remove_program_weight e MaxProgramSize) \<le> 63034829 + 504 * MaxProgramSize + 4 * 10 ^ 8 + 4 * 10 ^ 8"
    unfolding xqvm_remove_program_weight_def by (intro b)
  then show "fst (xqvm_remove_program_weight e MaxProgramSize) \<le> 30000000000" by (simp add: MaxProgramSize_def)
  have "fst (xqvm_evict_program_weight e MaxProgramSize) \<le> 64119642 + 491 * MaxProgramSize + 4 * 10 ^ 8 + 4 * 10 ^ 8"
    unfolding xqvm_evict_program_weight_def by (intro b)
  then show "fst (xqvm_evict_program_weight e MaxProgramSize) \<le> 30000000000" by (simp add: MaxProgramSize_def)
  have "snd (xqvm_remove_program_weight e MaxProgramSize) \<le> 69037 + 0 * MaxProgramSize + 0 + 0"
    "snd (xqvm_evict_program_weight e MaxProgramSize) \<le> 69037 + 0 * MaxProgramSize + 0 + 0"
    unfolding xqvm_remove_program_weight_def xqvm_evict_program_weight_def by (intro b)+
  then show "snd (xqvm_remove_program_weight e MaxProgramSize) \<le> 69037" "snd (xqvm_evict_program_weight e MaxProgramSize) \<le> 69037"
    by simp_all
qed

text \<open>What a call of the program store is charged, when its step limit is admitted.\<close>

lemma xqvm_charge_bounds:
  assumes "weight_laws e" "xqvm_call_typed (runtime_xqvm_config e c) k"
    and "\<And>h cd n lim. k = Execute h cd n lim \<Longrightarrow> lim \<le> MaxStepLimit e"
  shows "fst (xqvm_charge (runtime_xqvm_config e c) k) \<le> 750000000000" "snd (xqvm_charge (runtime_xqvm_config e c) k) \<le> 69037"
proof -
  have "fst (xqvm_charge (runtime_xqvm_config e c) k) \<le> 750000000000 \<and> snd (xqvm_charge (runtime_xqvm_config e c) k) \<le> 69037"
  proof (cases k)
    case (Execute h cd n lim)
    with assms(3) have l: "lim \<le> MaxStepLimit e" by blast
    have "snd (execute_charge (runtime_xqvm_config e c) lim) \<le> 69037 + 0 * lim"
      unfolding execute_charge_def by (intro weight_bounds)
        (simp_all add: runtime_xqvm_config_def execute_base(2) [OF assms(1)] step_price(1) [OF assms(1)])
    then show ?thesis using Execute l execute_charge_fst [OF assms(1), of lim c] step_limit_exact [OF assms(1), of lim] by simp
  next
    case (StoreProgram b)
    with assms(2) have "length b \<le> MaxProgramSize" by (simp add: runtime_xqvm_config_def)
    from store_charge_bound [OF assms(1) this] StoreProgram show ?thesis
      by (simp add: store_program_charge_def runtime_xqvm_config_def)
  qed (use removal_charge_bounds [OF assms(1)] in \<open>simp_all add: remove_program_charge_def evict_program_charge_def runtime_xqvm_config_def\<close>)
  then show "fst (xqvm_charge (runtime_xqvm_config e c) k) \<le> 750000000000" "snd (xqvm_charge (runtime_xqvm_config e c) k) \<le> 69037"
    by blast+
qed

text \<open>
  C33: With the runtime's constants and measured weights, every call of the program store that succeeds returns a
  weight within its charge, and the charge is within half of what a block grants to normal extrinsics and within the
  limit of a single one. The step price is above the measured cost of a step, and the step limit is the largest
  that keeps an execution of the longest program within that half.
\<close>

theorem vm_execution_fits_block:
  assumes "weight_laws e" "run_laws c" "hold_laws (xq_currency c)"
    and "xqvm_reachable (runtime_xqvm_config e c) s" "xqvm_call_typed (runtime_xqvm_config e c) k"
    and "xqvm_dispatch (runtime_xqvm_config e c) o1 k s = Some (Inr (s', w))"
  shows "\<exists>mt me. normal_max_total (RuntimeBlockWeights e) = Some mt \<and> normal_max_extrinsic (RuntimeBlockWeights e) = Some me \<and>
    weight_le w (xqvm_charge (runtime_xqvm_config e c) k) \<and> weight_le (xqvm_charge (runtime_xqvm_config e c) k) me \<and>
    2 * fst (xqvm_charge (runtime_xqvm_config e c) k) \<le> fst mt \<and>
    fst mt < 2 * fst (execute_charge (runtime_xqvm_config e c) (MaxStepLimit e + 1)) \<and>
    fst (weight_sub (xqvm_execute_step_weight e 1) (xqvm_execute_step_weight e 0)) < fst (XqvmWeightPerStep e)"
proof -
  let ?c = "runtime_xqvm_config e c"
  obtain mt me where l: "normal_max_total (RuntimeBlockWeights e) = Some mt" "normal_max_extrinsic (RuntimeBlockWeights e) = Some me"
    "fst mt = 1500000000000" "fst me = 1299676641000" "10 ^ 19 \<le> snd me" by (rule normal_limits [OF assms(1)])
  have "run_laws ?c" "hold_laws (xq_currency ?c)" using assms(2,3) by (simp_all add: run_laws_def runtime_xqvm_config_def)
  note m = calls_metered [OF assms(4) this(2,1) runtime_weights_monotone assms(5), of o1]
  have lim: "\<And>h cd n lim. k = Execute h cd n lim \<Longrightarrow> lim \<le> MaxStepLimit e"
    using m assms(6) by (fastforce simp: runtime_xqvm_config_def)
  have b: "fst (xqvm_charge ?c k) \<le> 750000000000" "snd (xqvm_charge ?c k) \<le> 69037"
    by (rule xqvm_charge_bounds [OF assms(1,5)], erule lim)+
  have w: "weight_le w (xqvm_charge ?c k)" using m assms(6) by blast
  have "750000000000 < fst (execute_charge ?c (MaxStepLimit e + 1))"
    using execute_charge_fst [OF assms(1), of "MaxStepLimit e + 1" c] step_limit_exact [OF assms(1), of "MaxStepLimit e + 1"] by simp
  moreover have "weight_le (xqvm_charge ?c k) me" using b l by (auto simp: weight_le_def)
  ultimately show ?thesis using l b w step_price [OF assms(1)] by auto
qed

subsection \<open>The mempool\<close>

lemma covers_env: "info st = [Some n] \<Longrightarrow> n \<le> k \<Longrightarrow> covers (k + 4950) (storage_key_envelope info st)"
  by (simp add: covers_def storage_key_envelope_def TRIE_OVERHEAD_PER_KEY_def sat_add_def)

lemma covers_add: "covers n a \<Longrightarrow> covers m b \<Longrightarrow> covers (n + m) (envelope_add a b)"
  by (auto simp: covers_def envelope_add_def sat_add_def split: option.splits)

lemma covers_max: "covers n a \<Longrightarrow> covers n b \<Longrightarrow> covers n (envelope_max a b)"
  by (auto simp: covers_def envelope_max_def split: option.splits)

lemma covers_mul: "covers n a \<Longrightarrow> covers (n * k) (envelope_mul a k)"
  by (auto simp: covers_def envelope_mul_def sat_mul_def intro: min.coboundedI1 split: option.splits)

lemma covers_const: "covers n (Some n)"
  by (simp add: covers_def)

lemma covers_mono: "covers n a \<Longrightarrow> n \<le> m \<Longrightarrow> covers m a"
  by (auto simp: covers_def split: option.splits)

text \<open>
  The maximal sizes of the storage entries as they are noted with the measurements; the front runner is one entry of
  the ranking.
\<close>

fun measured_size :: "settlement_storage \<Rightarrow> u32" where
  "measured_size StJobOrders = 640946"
| "measured_size StJobSpecs = 297"
| "measured_size StProposerOrders = 305"
| "measured_size StOrderTopSolvers = 1305"
| "measured_size StOrderFrontRunner = 1305"
| "measured_size StAccount = 128"
| "measured_size StSolvers = 109"
| "measured_size StOpenOrders = 24"
| "measured_size StTotalIssuance = 16"
| "measured_size StNextOrderId = 8"
| "measured_size StOrdersExpiringAt = 28"
| "measured_size StOrderPayeeRequirements = 32"
| "measured_size StOrderSolutions = 100166"
| "measured_size StOrderPayees = 101"

definition sizes_as_measured :: "storage_sizes \<Rightarrow> bool" where
  "sizes_as_measured info \<longleftrightarrow> (\<forall>st. \<exists>n. info st = [Some n] \<and> n \<le> measured_size st)"

lemma sizes_covered: "sizes_as_measured info \<Longrightarrow> covers (measured_size st + 4950) (storage_key_envelope info st)"
  unfolding sizes_as_measured_def using covers_env [of info st _ "measured_size st"] by blast

lemma floors_cover:
  assumes "sizes_as_measured info"
  shows "covers CLAIM_REWARD_PROOF_FLOOR (claim_reward_proof_envelope info)"
    "covers RECLAIM_ORDER_PROOF_FLOOR (reclaim_order_proof_envelope info)"
    "covers PROPOSE_JOB_PROOF_FLOOR (propose_job_proof_envelope info)"
    "covers SUBMIT_SOLUTION_PROOF_FLOOR (submit_solution_proof_envelope info)"
proof -
  note sz = sizes_covered [OF assms, THEN covers_mono]
  note r = covers_add covers_mul covers_const sizes_covered [OF assms]
  have m: "covers (1305 + 4950) (envelope_max (storage_key_envelope info StOrderTopSolvers) (storage_key_envelope info StOrderFrontRunner))"
    by (rule covers_max; rule sz; simp)
  show "covers CLAIM_REWARD_PROOF_FLOOR (claim_reward_proof_envelope info)"
    unfolding claim_reward_proof_envelope_def Let_def
    by (rule covers_mono, (rule m r)+) (simp add: proof_floors MAX_REWARD_WINNERS_def sat_add_def u64_max_def)
  show "covers RECLAIM_ORDER_PROOF_FLOOR (reclaim_order_proof_envelope info)"
    unfolding reclaim_order_proof_envelope_def Let_def by (rule covers_mono, (rule m r)+) (simp add: proof_floors)
  show "covers PROPOSE_JOB_PROOF_FLOOR (propose_job_proof_envelope info)"
    unfolding propose_job_proof_envelope_def Let_def by (rule covers_mono, (rule m r)+) (simp add: proof_floors)
  show "covers SUBMIT_SOLUTION_PROOF_FLOOR (submit_solution_proof_envelope info)"
    unfolding submit_solution_proof_envelope_def Let_def by (rule covers_mono, (rule m r)+) (simp add: proof_floors)
qed

lemma declared_ok:
  assumes "weight_laws e" "fl \<le> snd w" "fst w \<le> 10 ^ 12" "snd w \<le> 10 ^ 18"
  shows "declared_weight_ok (RuntimeBlockWeights e) (w, fl)"
proof -
  obtain mt me where "normal_max_total (RuntimeBlockWeights e) = Some mt" "normal_max_extrinsic (RuntimeBlockWeights e) = Some me"
    "fst mt = 1500000000000" "10 ^ 19 \<le> snd mt" "fst me = 1299676641000" "10 ^ 19 \<le> snd me"
    by (rule normal_limits [OF assms(1)])
  then show ?thesis using assms(2-4) by (simp add: declared_weight_ok_def weight_le_def)
qed

lemma measured_proposals_bound:
  assumes "weight_laws e"
  shows "fst (measured_propose_job e 5000 50000) \<le> 10 ^ 11" "snd (measured_propose_job e 5000 50000) \<le> 10 ^ 7"
    "fst (measured_propose_job_with_payee_requirement e 5000 50000) \<le> 10 ^ 11"
    "snd (measured_propose_job_with_payee_requirement e 5000 50000) \<le> 10 ^ 7"
proof -
  note b = weight_bounds weight_laws_db [OF assms]
  show "fst (measured_propose_job e 5000 50000) \<le> 10 ^ 11" unfolding measured_propose_job_def by (rule order_trans, (rule b)+) simp
  show "snd (measured_propose_job e 5000 50000) \<le> 10 ^ 7" unfolding measured_propose_job_def by (rule order_trans, (rule b)+) simp
  show "fst (measured_propose_job_with_payee_requirement e 5000 50000) \<le> 10 ^ 11"
    unfolding measured_propose_job_with_payee_requirement_def by (rule order_trans, (rule b)+) simp
  show "snd (measured_propose_job_with_payee_requirement e 5000 50000) \<le> 10 ^ 7"
    unfolding measured_propose_job_with_payee_requirement_def by (rule order_trans, (rule b)+) simp
qed

lemma measured_settlements_bound:
  assumes "weight_laws e"
  shows "fst (measured_claim_reward e) \<le> 10 ^ 12" "snd (measured_claim_reward e) \<le> 10 ^ 7"
    "fst (measured_claim_reward_dust e) \<le> 10 ^ 12" "snd (measured_claim_reward_dust e) \<le> 10 ^ 7"
    "fst (measured_reclaim_order e) \<le> 10 ^ 12" "snd (measured_reclaim_order e) \<le> 10 ^ 7"
  unfolding measured_claim_reward_def measured_claim_reward_dust_def measured_reclaim_order_def
  by (rule order_trans, (rule weight_bounds weight_laws_db [OF assms])+, simp)+

lemma measured_submissions_bound:
  assumes "weight_laws e"
  shows "fst (measured_submit_solution e 50000 20) \<le> 2 * 10 ^ 11" "snd (measured_submit_solution e 50000 20) \<le> 10 ^ 7"
    "fst (measured_submit_solution_with_payee e 50000 20) \<le> 2 * 10 ^ 11" "snd (measured_submit_solution_with_payee e 50000 20) \<le> 10 ^ 7"
    "fst (measured_submit_solution_replacement e 50000 20) \<le> 2 * 10 ^ 11" "snd (measured_submit_solution_replacement e 50000 20) \<le> 10 ^ 7"
    "fst (measured_submit_solution_clear_payee e 50000 20) \<le> 2 * 10 ^ 11" "snd (measured_submit_solution_clear_payee e 50000 20) \<le> 10 ^ 7"
  unfolding measured_submit_solution_def measured_submit_solution_with_payee_def measured_submit_solution_replacement_def
    measured_submit_solution_clear_payee_def
  by (rule order_trans, (rule weight_bounds weight_laws_db [OF assms])+, simp)+

lemma submission_weight_bounds:
  assumes "weight_laws e"
  shows "fst (submit_solution_weight e 50000 20) \<le> 2 * 10 ^ 11" "snd (submit_solution_weight e 50000 20) \<le> 10 ^ 7"
    "SUBMIT_SOLUTION_PROOF_FLOOR \<le> snd (submit_solution_weight e 50000 20)"
  using measured_submissions_bound [OF assms]
  by (simp_all add: submit_solution_weight_def with_submit_solution_proof_floor_def proof_floors)

lemma transform_weight_bounds:
  assumes "weight_laws e"
  shows "fst (transform_weight (runtime_vm_prices e) QuantumMaxTransformSteps True) \<le> 3 * 10 ^ 11"
    "snd (transform_weight (runtime_vm_prices e) QuantumMaxTransformSteps True) \<le> 10 ^ 7"
proof -
  note b = weight_bounds execute_base [OF assms]
  have "fst (transform_weight (runtime_vm_prices e) QuantumMaxTransformSteps True) \<le> 35858 * QuantumMaxTransformSteps + 1055544716 * QuantumMaxSolutions"
    unfolding transform_weight_def runtime_vm_prices_def QuantumProgramLookupWeight_def step_price(1) [OF assms] if_True vm_prices.simps
    by (rule b)+
  then show "fst (transform_weight (runtime_vm_prices e) QuantumMaxTransformSteps True) \<le> 3 * 10 ^ 11"
    by (simp add: QuantumMaxTransformSteps_def QuantumMaxSolutions_def)
  have "snd (transform_weight (runtime_vm_prices e) QuantumMaxTransformSteps True) \<le> 0 * QuantumMaxTransformSteps + 69037 * QuantumMaxSolutions"
    unfolding transform_weight_def runtime_vm_prices_def QuantumProgramLookupWeight_def step_price(1) [OF assms] if_True vm_prices.simps
    by (rule b)+
  then show "snd (transform_weight (runtime_vm_prices e) QuantumMaxTransformSteps True) \<le> 10 ^ 7"
    by (simp add: QuantumMaxSolutions_def)
qed

lemma runtime_mempool_dims:
  "mc_max_nodes (runtime_mempool_config c) = 5000" "mc_max_edges (runtime_mempool_config c) = 50000"
  "mc_max_solutions (runtime_mempool_config c) = 20"
  by (simp_all add: runtime_mempool_config_def QuantumMaxSolutions_def)

lemma mempool_weight_check:
  assumes e: "weight_laws e" and "sizes_as_measured info"
  shows "check_claim_reward_weight e info (RuntimeBlockWeights e) (runtime_mempool_config c) (runtime_vm_prices e) QuantumMaxTransformSteps"
proof -
  let ?sub = "weight_add (submit_solution_weight e 50000 20) (transform_weight (runtime_vm_prices e) QuantumMaxTransformSteps True)"
  note ok = declared_ok [OF e]
  have "fst ?sub \<le> 2 * 10 ^ 11 + 3 * 10 ^ 11" "snd ?sub \<le> 10 ^ 7 + 10 ^ 7"
    by (rule weight_bounds submission_weight_bounds [OF e] transform_weight_bounds [OF e])+
  moreover have "SUBMIT_SOLUTION_PROOF_FLOOR \<le> snd ?sub"
    using submission_weight_bounds [OF e] by (simp add: weight_add_def sat_add_def proof_floors u64_max_def)
  ultimately have "declared_weight_ok (RuntimeBlockWeights e) (?sub, SUBMIT_SOLUTION_PROOF_FLOOR)" by (intro ok) simp_all
  moreover have "declared_weight_ok (RuntimeBlockWeights e) (propose_job_weight e 5000 50000, PROPOSE_JOB_PROOF_FLOOR)"
    "declared_weight_ok (RuntimeBlockWeights e) (propose_job_with_payee_requirement_weight e 5000 50000, PROPOSE_JOB_PROOF_FLOOR)"
    using measured_proposals_bound [OF e]
    by (intro ok; simp add: propose_job_weight_def propose_job_with_payee_requirement_weight_def with_propose_job_proof_floor_def proof_floors)+
  moreover have "declared_weight_ok (RuntimeBlockWeights e) (claim_reward_weight e, CLAIM_REWARD_PROOF_FLOOR)"
    "declared_weight_ok (RuntimeBlockWeights e) (reclaim_order_weight e, RECLAIM_ORDER_PROOF_FLOOR)"
    using measured_settlements_bound [OF e]
    by (intro ok; simp add: claim_reward_weight_def reclaim_order_weight_def with_claim_reward_proof_floor_def
        with_reclaim_order_proof_floor_def proof_floors)+
  ultimately show ?thesis using floors_cover [OF assms(2)]
    by (simp add: check_claim_reward_weight_def runtime_mempool_dims MAX_REWARD_WINNERS_def)
qed

lemma submission_meter_bound:
  assumes "vm_laws (mc_vm c (mp_env s))"
  shows "fst (submission_meter c who oid sols payee s) \<le> max_transform_steps (mc_vm c (mp_env s))"
  using adapter.metered [OF assms] by (simp add: submission_meter_def split: sum.split prod.split)

text \<open>
  C34: With the runtime's constants the mempool's check of its own weights passes: the proof floors cover the storage
  that settlement may touch, and every declared weight has its floor and fits a block. A submission, accepted or
  rejected, is finally charged at most what it reserved.
\<close>

theorem submission_metered:
  assumes "weight_laws e" "sizes_as_measured info" "vm_laws (mc_vm (runtime_mempool_config c) (mp_env s))"
  shows "check_claim_reward_weight e info (RuntimeBlockWeights e) (runtime_mempool_config c) (runtime_vm_prices e) QuantumMaxTransformSteps \<and>
    weight_le (submit_solution_post_weight e (runtime_vm_prices e) (runtime_mempool_config c) who oid sols payee s)
      (submit_solution_charge e (runtime_mempool_config c) (runtime_vm_prices e) QuantumMaxTransformSteps)"
proof -
  let ?c = "runtime_mempool_config c"
  obtain steps prog where m: "submission_meter ?c who oid sols payee s = (steps, prog)" by fastforce
  then have "steps \<le> QuantumMaxTransformSteps"
    using submission_meter_bound [OF assms(3), of who oid sols payee] by (simp add: runtime_mempool_config_def)
  moreover have "weight_le (if prog then w else (0, 0)) w" for w :: weight by (simp add: weight_le_def)
  ultimately have "weight_le (transform_weight v steps prog) (transform_weight v QuantumMaxTransformSteps True)" for v
    unfolding transform_weight_def if_True by (intro weight_add_mono weight_mul_mono)
  then show ?thesis using mempool_weight_check [OF assms(1,2)] m
    by (simp add: submit_solution_post_weight_def submit_solution_charge_def weight_add_mono)
qed

subsection \<open>Proofs of work\<close>

lemma dimension_weight_bound:
  assumes "n \<le> QuantumPowMaxNodes" "ed \<le> QuantumPowMaxEdges" "k \<le> QuantumPowMaxSolutions"
  shows "fst (submit_proof_dimension_weight n ed k) \<le> 171540000000" "snd (submit_proof_dimension_weight n ed k) \<le> 0"
proof -
  have "fst (submit_proof_dimension_weight n ed k) \<le>
    1200 * QuantumPowMaxNodes + 2400 * QuantumPowMaxEdges + 6000 * QuantumPowMaxSolutions * QuantumPowMaxNodes +
    19100 * QuantumPowMaxSolutions * QuantumPowMaxEdges + 1200 * QuantumPowMaxSolutions * QuantumPowMaxSolutions * QuantumPowMaxNodes +
    535 * QuantumPowMaxNodes * QuantumPowMaxEdges"
    unfolding submit_proof_dimension_weight_def Let_def by (rule weight_bounds(1-6) assms)+
  then show "fst (submit_proof_dimension_weight n ed k) \<le> 171540000000"
    by (simp add: QuantumPowMaxNodes_def QuantumPowMaxEdges_def QuantumPowMaxSolutions_def)
  have "snd (submit_proof_dimension_weight n ed k) \<le> 0 * QuantumPowMaxNodes + 0 * QuantumPowMaxEdges +
    0 * QuantumPowMaxSolutions * QuantumPowMaxNodes + 0 * QuantumPowMaxSolutions * QuantumPowMaxEdges +
    0 * QuantumPowMaxSolutions * QuantumPowMaxSolutions * QuantumPowMaxNodes + 0 * QuantumPowMaxNodes * QuantumPowMaxEdges"
    unfolding submit_proof_dimension_weight_def Let_def by (rule weight_bounds(1-6) assms)+
  then show "snd (submit_proof_dimension_weight n ed k) \<le> 0" by simp
qed

text \<open>The bounded vectors of the stored topologies.\<close>

definition topologies_typed :: "('a, 'b) pow_state \<Rightarrow> bool" where
  "topologies_typed s \<longleftrightarrow> (\<forall>h t. registered_topologies s h = Some t \<longrightarrow>
     length (tm_nodes t) \<le> QuantumPowMaxNodes \<and> length (tm_edges t) \<le> QuantumPowMaxEdges)"

lemma proof_charge_bound:
  assumes "weight_laws e"
    and "topologies_typed s"
    and "length (qp_solutions p) \<le> QuantumPowMaxSolutions"
  shows "fst (weight_add (ExtrinsicBaseWeight e) (submit_proof_charge e p s)) \<le> 180000000000 \<and>
    snd (weight_add (ExtrinsicBaseWeight e) (submit_proof_charge e p s)) \<le> 423913"
proof -
  note b = weight_bounds weight_laws_db [OF assms(1)]
  have x: "fst (ExtrinsicBaseWeight e) \<le> 323359000" "snd (ExtrinsicBaseWeight e) \<le> 0"
    using assms(1) by (simp_all add: ExtrinsicBaseWeight_def weight_laws_def sat_mul_def)
  obtain n ed where d: "submit_proof_charge e p s = submit_proof_weight e n ed (length (qp_solutions p))"
    "n \<le> QuantumPowMaxNodes" "ed \<le> QuantumPowMaxEdges"
    using assms(2) unfolding topologies_typed_def by (cases "registered_topologies s (qp_topology_hash p)") (auto simp: submit_proof_charge_def)
  note dw = dimension_weight_bound [OF d(2,3) assms(3)]
  have "fst (weight_add (ExtrinsicBaseWeight e) (submit_proof_weight e n ed (length (qp_solutions p)))) \<le>
      323359000 + (4352766000 + 1332441 * 0 + 1999116615 * 0 + 10 * 10 ^ 8 + 3 * 10 ^ 8 + 171540000000 + 1 * 10 ^ 8)"
    "snd (weight_add (ExtrinsicBaseWeight e) (submit_proof_weight e n ed (length (qp_solutions p)))) \<le>
      0 + (423913 + 0 * 0 + 0 * 0 + 0 + 0 + 0 + 0)"
    unfolding submit_proof_weight_def measured_submit_proof_weight_def by (rule x dw b)+
  then show ?thesis unfolding d(1) by simp
qed

lemma fold_weights_bound:
  assumes "\<And>x. x \<in> set xs \<Longrightarrow> fst (f x) \<le> a \<and> snd (f x) \<le> b"
  shows "fst (fold (\<lambda>x. weight_add (f x)) xs w) \<le> fst w + length xs * a \<and>
    snd (fold (\<lambda>x. weight_add (f x)) xs w) \<le> snd w + length xs * b"
  using assms
proof (induction xs arbitrary: w)
  case (Cons x xs)
  have "fst (weight_add (f x) w) \<le> a + fst w" "snd (weight_add (f x) w) \<le> b + snd w"
    using Cons.prems [of x] by (auto intro: weight_bounds)
  then show ?case using Cons.IH [of "weight_add (f x) w"] Cons.prems by fastforce
qed simp

text \<open>
  C35: The proof-of-work pallet's integrity test passes with the runtime's constants, and a block has room for all the
  proofs the pallet admits: the charges of as many proofs as its quota, each of the largest dimensions its types allow
  and with the base cost of an extrinsic, fit what the block grants to normal extrinsics.
\<close>

theorem proof_quota_fits_block:
  assumes "weight_laws e"
    and "\<And>p. p \<in> set ps \<Longrightarrow> length (qp_solutions p) \<le> QuantumPowMaxSolutions"
    and "topologies_typed s"
    and "length ps \<le> max_proofs_per_block (runtime_pow_config c)"
  shows "integrity_test (runtime_pow_config c) \<and>
    (\<exists>mt. normal_max_total (RuntimeBlockWeights e) = Some mt \<and>
       weight_le (fold (\<lambda>p. weight_add (weight_add (ExtrinsicBaseWeight e) (submit_proof_charge e p s))) ps (0, 0)) mt)"
proof -
  let ?w = "\<lambda>p. weight_add (ExtrinsicBaseWeight e) (submit_proof_charge e p s)"
  obtain mt where mt: "normal_max_total (RuntimeBlockWeights e) = Some mt" "fst mt = 1500000000000" "10 ^ 19 \<le> snd mt"
    by (rule normal_limits [OF assms(1)])
  have "fst (?w p) \<le> 180000000000 \<and> snd (?w p) \<le> 423913" if "p \<in> set ps" for p
    using proof_charge_bound [OF assms(1,3) assms(2) [OF that]] by blast
  from fold_weights_bound [of ps ?w 180000000000 423913 "(0, 0)"] this mt assms(4)
  have "weight_le (fold (\<lambda>p. weight_add (?w p)) ps (0, 0)) mt" by (auto simp: weight_le_def runtime_pow_config_def)
  moreover have "integrity_test (runtime_pow_config c)"
    by (simp add: integrity_test_def runtime_pow_config_def FAST_PROOF_BLOCKS_def UNIT_def)
  ultimately show ?thesis using mt by blast
qed

end
