(* ===== verification/Runtime_Examples.thy ===== *)
theory Runtime_Examples
  imports Runtime_Budgets Xqvm_Mempool Mempool_Examples Pow_Examples
begin

text \<open>
  The block budgets on concrete data: database costs of 25 and 100 microseconds, the store of a small program, a
  submission to the mempool and eight proofs in a block.
\<close>

definition demo_weights :: weight_env where
  "demo_weights =
     \<lparr>db_reads = (\<lambda>n. (n * 25000000, 0)), db_writes = (\<lambda>n. (n * 100000000, 0)), ref_time_per_second = 10 ^ 12, ref_time_per_nanos = 1000,
      ratio_mul = (\<lambda>r x. r * x div 10 ^ 9),
      build_limits = (\<lambda>sp. let top = weight_max (ws_normal_max_total sp) (ws_operational_max_total sp);
          init = (ws_avg_block_initialization sp * fst top div 10 ^ 9, ws_avg_block_initialization sp * snd top div 10 ^ 9)
        in \<lparr>max_block = top, normal_max_total = Some (ws_normal_max_total sp),
            normal_max_extrinsic = Some (weight_sub (weight_sub (ws_normal_max_total sp) init) (ws_base_extrinsic sp))\<rparr>)\<rparr>"

lemma demo_weights_laws: "weight_laws demo_weights"
  by (simp add: weight_laws_def demo_weights_def weight_ratio_def Let_def div_le_mono)

abbreviation (input) "demo_store_cfg \<equiv> runtime_xqvm_config demo_weights demo_xqvm"

lemma demo_runtime_store:
  "\<exists>s' w. xqvm_dispatch demo_store_cfg (Signed 1) (StoreProgram demo_code) demo_empty = Some (Inr (s', w))"
  using demo_shape
  by (simp add: store_program_def runtime_xqvm_config_def demo_xqvm_def demo_empty_def Let_def demo_holds_def MaxProgramBlocks_def MaxLoopDepth_def)

theorem vm_execution_fits_block_witness:
  "\<exists>s' w mt me. xqvm_dispatch demo_store_cfg (Signed 1) (StoreProgram demo_code) demo_empty = Some (Inr (s', w)) \<and>
    normal_max_total (RuntimeBlockWeights demo_weights) = Some mt \<and> normal_max_extrinsic (RuntimeBlockWeights demo_weights) = Some me \<and>
    weight_le w (xqvm_charge demo_store_cfg (StoreProgram demo_code)) \<and>
    2 * fst (xqvm_charge demo_store_cfg (StoreProgram demo_code)) \<le> fst mt \<and>
    fst mt < 2 * fst (execute_charge demo_store_cfg (MaxStepLimit demo_weights + 1))"
proof -
  obtain s' w where d: "xqvm_dispatch demo_store_cfg (Signed 1) (StoreProgram demo_code) demo_empty = Some (Inr (s', w))"
    using demo_runtime_store by blast
  have r: "xqvm_reachable demo_store_cfg demo_empty"
    unfolding demo_empty_def by (rule xqvm_reachable.start) (simp add: runtime_xqvm_config_def demo_xqvm_def demo_holds_def)
  have t: "xqvm_call_typed demo_store_cfg (StoreProgram demo_code)"
    by (simp add: runtime_xqvm_config_def demo_code_def MaxProgramSize_def)
  from vm_execution_fits_block [OF demo_weights_laws demo_xqvm_laws(2,1) r t d] d show ?thesis by blast
qed

theorem submission_metered_witness:
  "check_claim_reward_weight demo_weights (\<lambda>st. [Some (measured_size st)]) (RuntimeBlockWeights demo_weights) (runtime_mempool_config demo_mempool)
     (runtime_vm_prices demo_weights) QuantumMaxTransformSteps \<and>
   weight_le (submit_solution_post_weight demo_weights (runtime_vm_prices demo_weights) (runtime_mempool_config demo_mempool) 2 0 [[1, 1]] None m2)
     (submit_solution_charge demo_weights (runtime_mempool_config demo_mempool) (runtime_vm_prices demo_weights) QuantumMaxTransformSteps)"
proof (rule submission_metered [OF demo_weights_laws])
  show "sizes_as_measured (\<lambda>st. [Some (measured_size st)])" by (simp add: sizes_as_measured_def)
  show "vm_laws (mc_vm (runtime_mempool_config demo_mempool) (mp_env m2))"
    using demo_vm_laws by (simp add: vm_laws_def runtime_mempool_config_def demo_mempool_def QuantumMaxTransformSteps_def u64_max_def)
qed

theorem proof_quota_fits_block_witness:
  "integrity_test (runtime_pow_config demo_config) \<and>
   (\<exists>mt. normal_max_total (RuntimeBlockWeights demo_weights) = Some mt \<and>
      weight_le (fold (\<lambda>p. weight_add (weight_add (ExtrinsicBaseWeight demo_weights)
          (submit_proof_charge demo_weights p ((genesis demo_env)\<lparr>registered_topologies := [demo_hash \<mapsto> demo_topology]\<rparr>))))
        (replicate 8 demo_proof) (0, 0)) mt)"
  by (rule proof_quota_fits_block [OF demo_weights_laws])
    (simp_all add: demo_proof_def QuantumPowMaxSolutions_def topologies_typed_def demo_topology_def QuantumPowMaxNodes_def
      QuantumPowMaxEdges_def runtime_pow_config_def)

end
