(* ===== verification/Runtime_Access.thy ===== *)
theory Runtime_Access
  imports Root_Calls
begin

text \<open>
  Code of \<open>runtime/src/configs/mod.rs\<close> and \<open>runtime/src/lib.rs\<close> that guards access and upgrades: the permissions of proxies, the
  guard on the code of a runtime upgrade, and the migration that creates the account of the contracts pallet.
\<close>

subsection \<open>Proxies\<close>

datatype proxy_type = ProxyAny | TransferOnly

definition proxy_type_default :: proxy_type where "proxy_type_default = ProxyAny"

fun proxy_filter :: "proxy_type \<Rightarrow> runtime_call \<Rightarrow> bool" where
  "proxy_filter ProxyAny call = True"
| "proxy_filter TransferOnly call =
     (case call of
        Balances_transfer_allow_death \<Rightarrow> True
      | Balances_transfer_keep_alive \<Rightarrow> True
      | Balances_transfer_all \<Rightarrow> True
      | _ \<Rightarrow> False)"

definition is_superset :: "proxy_type \<Rightarrow> proxy_type \<Rightarrow> bool" where
  "is_superset self other \<longleftrightarrow> self = ProxyAny \<or> self = other"

subsection \<open>The code of an upgrade\<close>

text \<open>
  Reading the version out of a blob and the default \<open>set_code\<close> are the framework's; \<open>None\<close> is a blob without a readable version.
\<close>

record 'b upgrade_ops =
  runtime_version :: "bytes \<Rightarrow> bytes option"
  decode_spec_name :: "bytes \<Rightarrow> string option"
  frame_set_code :: "bytes \<Rightarrow> 'b \<Rightarrow> string + 'b"

definition RUNTIME_IDENTITY_MISMATCH :: string where
  "RUNTIME_IDENTITY_MISMATCH = ''Runtime spec_name does not match this network''"

definition VERSION_spec_name :: string where "VERSION_spec_name = ''quip''"

definition set_code :: "'b upgrade_ops \<Rightarrow> bytes \<Rightarrow> 'b \<Rightarrow> string + 'b" where
  "set_code u code b =
     (let version = Option.bind (runtime_version u code) (decode_spec_name u) in
      if (case version of Some name \<Rightarrow> name \<noteq> VERSION_spec_name | None \<Rightarrow> False) then Inl RUNTIME_IDENTITY_MISMATCH
      else frame_set_code u code b)"

subsection \<open>The account of the contracts pallet\<close>

record ('a, 'b) account_ops =
  account_exists :: "'b \<Rightarrow> 'a \<Rightarrow> bool"
  mint_into :: "'a \<Rightarrow> balance \<Rightarrow> 'b \<Rightarrow> nat + 'b"
  least_balance :: balance

text \<open>\<open>None\<close> is the failed assertion. The result also counts the reads and writes charged.\<close>

definition initialize_revive_account :: "('a, 'b) account_ops \<Rightarrow> 'a \<Rightarrow> 'b \<Rightarrow> ('b \<times> nat \<times> nat) option" where
  "initialize_revive_account ops account b =
     (if account_exists ops b account then Some (b, 1, 0)
      else case mint_into ops account (least_balance ops) b of
          Inr b' \<Rightarrow> Some (b', 3, 2)
        | Inl _ \<Rightarrow> None)"

subsection \<open>Properties\<close>

lemma transfer_only_iff:
  "proxy_filter TransferOnly call \<longleftrightarrow>
     call \<in> {Balances_transfer_allow_death, Balances_transfer_keep_alive, Balances_transfer_all}"
  by (cases call) simp_all

text \<open>The order of proxy types is inclusion of what they permit; a transfer is no carrier of other calls.\<close>

lemma is_superset_iff: "is_superset a b \<longleftrightarrow> (\<forall>call. proxy_filter b call \<longrightarrow> proxy_filter a call)"
proof
  assume r: "\<forall>call. proxy_filter b call \<longrightarrow> proxy_filter a call"
  then have "proxy_filter b (OtherCall 0) \<longrightarrow> proxy_filter a (OtherCall 0)" by blast
  then show "is_superset a b" by (cases a; cases b) (simp_all add: is_superset_def)
qed (auto simp: is_superset_def)

lemma transfer_only_plain: "proxy_filter TransferOnly call \<Longrightarrow> call_at call n x \<longleftrightarrow> n = 0 \<and> x = call"
  unfolding call_at_iff [of call] transfer_only_iff by auto

lemma set_code_keeps_identity:
  assumes "set_code u code b = Inr b'"
  shows "frame_set_code u code b = Inr b' \<and>
    (\<forall>v name. runtime_version u code = Some v \<and> decode_spec_name u v = Some name \<longrightarrow> name = VERSION_spec_name)"
  using assms by (auto simp: set_code_def Let_def split: if_splits)

text \<open>What minting documents: after it the account exists.\<close>

definition mint_laws :: "('a, 'b) account_ops \<Rightarrow> bool" where
  "mint_laws ops \<longleftrightarrow> (\<forall>who b b'. mint_into ops who (least_balance ops) b = Inr b' \<longrightarrow> account_exists ops b' who)"

lemma revive_account_idempotent:
  assumes "mint_laws ops" "initialize_revive_account ops who b = Some (b', r, w)"
  shows "account_exists ops b' who \<and> initialize_revive_account ops who b' = Some (b', 1, 0)"
  using assms by (auto simp: initialize_revive_account_def mint_laws_def split: if_splits sum.splits)

end
