(* ===== verification/Runtime_Apis.thy ===== *)
theory Runtime_Apis
  imports Offence_Guard Pow_State
begin

text \<open>
  The functions of \<open>runtime/src/apis.rs\<close> that do more than forward: the two that submit equivocation reports, and the difficulty of
  the default topology.
\<close>

record ('proof, 'opaque, 'tx) report_ops =
  decode_membership :: "'opaque \<Rightarrow> u32 option"
  submit_unsigned_report :: "'proof \<Rightarrow> u32 \<Rightarrow> 'tx option"

definition babe_submit_report :: "('proof, 'opaque, 'tx) report_ops \<Rightarrow> staking_eras \<Rightarrow> 'proof \<Rightarrow> 'opaque \<Rightarrow> 'tx option" where
  "babe_submit_report ops st equivocation_proof key_owner_proof =
     Option.bind (decode_membership ops key_owner_proof) (\<lambda>session.
       if \<not> has_pending_slash_bucket st session then None else submit_unsigned_report ops equivocation_proof session)"

definition grandpa_submit_report :: "('proof, 'opaque, 'tx) report_ops \<Rightarrow> staking_eras \<Rightarrow> 'proof \<Rightarrow> 'opaque \<Rightarrow> 'tx option" where
  "grandpa_submit_report ops st equivocation_proof key_owner_proof =
     Option.bind (decode_membership ops key_owner_proof) (\<lambda>session.
       if \<not> has_pending_slash_bucket st session then None else submit_unsigned_report ops equivocation_proof session)"

definition api_current_difficulty :: "('a, 'b, 'r) pow_config \<Rightarrow> ('a, 'b) pow_state \<Rightarrow> difficulty_config" where
  "api_current_difficulty c s =
     (case default_topology s of Some h \<Rightarrow> current_difficulty_for c s h (block_number s) | None \<Rightarrow> default_difficulty)"

definition api_current_hardness :: "('a, 'b, 'r) pow_config \<Rightarrow> ('a, 'b) pow_state \<Rightarrow> difficulty_config" where
  "api_current_hardness c s =
     (case default_topology s of Some h \<Rightarrow> current_difficulty_for c s h (block_number s) | None \<Rightarrow> default_difficulty)"

text \<open>Whatever report the interface submits, the guard behind dispatch passes it on while the eras stay the same.\<close>

lemma submitted_report_passes_guard:
  assumes "babe_submit_report ops st p k = Some tx \<or> grandpa_submit_report ops st p k = Some tx"
  obtains session where "decode_membership ops k = Some session" "report_offence historical st session r b = historical session r b"
proof -
  from assms obtain session where "decode_membership ops k = Some session" "has_pending_slash_bucket st session"
    by (auto simp: babe_submit_report_def grandpa_submit_report_def bind_eq_Some_conv split: if_splits)
  then show thesis by (intro that [of session]) (simp_all add: report_offence_def)
qed

text \<open>What miners see of the default topology is the difficulty of its snapshot.\<close>

lemma api_difficulty_of_snapshot:
  "mining_snapshot_of c s None = Some sn \<Longrightarrow> api_current_difficulty c s = ms_difficulty sn \<and> api_current_hardness c s = ms_difficulty sn"
  by (auto simp: mining_snapshot_of_def default_topology_meta_def api_current_difficulty_def api_current_hardness_def
      bind_eq_Some_conv)

end
