(* ===== verification/Node.thy ===== *)
theory Node
  imports Genesis Transaction_Crypto
begin

text \<open>
  The parts of \<open>node/src\<close> that decide something themselves: which chain specification an identifier selects
  (\<open>command.rs\<close>, \<open>chain_spec.rs\<close>), and the command that puts a hybrid session key into the keystore
  (\<open>insert_hybrid_key.rs\<close>). Files, the Wasm binary, key derivation and the keystore are parameters.
\<close>

subsection \<open>Chain specifications\<close>

datatype chain_type = Development | Local | Live

record chain_spec =
  cs_name :: string
  cs_id :: string
  cs_type :: chain_type
  cs_preset :: "string option"

text \<open>A specification read from a file or from the embedded bytes carries its state, not the name of a preset.\<close>

record spec_sources =
  wasm_binary :: "bytes option"
  from_json_bytes :: "string + chain_spec"
  from_json_file :: "string \<Rightarrow> string + chain_spec"

definition build_spec :: "spec_sources \<Rightarrow> string \<Rightarrow> string \<Rightarrow> string \<Rightarrow> chain_type \<Rightarrow> string \<Rightarrow> string + chain_spec" where
  "build_spec src missing name ident ty preset =
     (case wasm_binary src of
        None \<Rightarrow> Inl missing
      | Some _ \<Rightarrow> Inr \<lparr>cs_name = name, cs_id = ident, cs_type = ty, cs_preset = Some preset\<rparr>)"

definition development_chain_spec :: "spec_sources \<Rightarrow> string + chain_spec" where
  "development_chain_spec src = build_spec src ''Development wasm not available'' ''Development'' ''dev'' Development ''development''"

definition local_chain_spec :: "spec_sources \<Rightarrow> string + chain_spec" where
  "local_chain_spec src =
     build_spec src ''Development wasm not available'' ''Local Testnet'' ''local_testnet'' Local ''local_testnet''"

definition local_three_validator_chain_spec :: "spec_sources \<Rightarrow> string + chain_spec" where
  "local_three_validator_chain_spec src =
     build_spec src ''Development wasm not available'' ''Local Testnet (3 Validators)'' ''local_three_validator'' Local ''local_three_validator''"

definition validator_rehearsal_chain_spec :: "spec_sources \<Rightarrow> string + chain_spec" where
  "validator_rehearsal_chain_spec src =
     build_spec src ''Rehearsal wasm not available'' ''Validator Rehearsal (4 Validators)'' ''validator_rehearsal'' Local ''validator_rehearsal''"

definition quip_testnet_chain_spec :: "spec_sources \<Rightarrow> string + chain_spec" where
  "quip_testnet_chain_spec src = from_json_bytes src"

definition load_spec :: "spec_sources \<Rightarrow> string \<Rightarrow> string + chain_spec" where
  "load_spec src ident =
     (if ident = ''dev'' then development_chain_spec src
      else if ident = ''local'' then local_chain_spec src
      else if ident \<in> {''rehearsal'', ''validator_rehearsal''} then validator_rehearsal_chain_spec src
      else if ident \<in> {''local3'', ''local-3'', ''local_three_validator''} then local_three_validator_chain_spec src
      else if ident \<in> {'''', ''quip-testnet'', ''quip_testnet'', ''testnet''} then quip_testnet_chain_spec src
      else from_json_file src ident)"

definition sources_typed :: "spec_sources \<Rightarrow> bool" where
  "sources_typed src \<longleftrightarrow> (\<forall>sp. from_json_bytes src = Inr sp \<longrightarrow> cs_preset sp = None) \<and>
     (\<forall>f sp. from_json_file src f = Inr sp \<longrightarrow> cs_preset sp = None)"

text \<open>
  The node never builds a public network from a preset: what it builds from one is a development or local chain, the
  preset is one the runtime lists, and the runtime answers for it with a genesis or not at all, never with "unknown".
\<close>

lemma load_spec_sources:
  "load_spec src ident \<in> {development_chain_spec src, local_chain_spec src, validator_rehearsal_chain_spec src,
     local_three_validator_chain_spec src, from_json_bytes src, from_json_file src ident}"
  unfolding load_spec_def quip_testnet_chain_spec_def by (simp only: insert_iff split: if_split) blast

lemma build_spec_Inr:
  "build_spec src missing name ident ty preset = Inr sp \<Longrightarrow> cs_type sp = ty \<and> cs_preset sp = Some preset"
  by (auto simp: build_spec_def split: option.splits)

lemma local_presets_answered:
  assumes "preset \<in> {''development'', ''local_testnet'', ''local_three_validator'', ''validator_rehearsal''}"
  shows "preset \<in> set preset_names" "get_preset go preset \<noteq> Some None"
    "preset \<notin> {''quip-mainnet'', ''quip_testnet'', ''quip-testnet-relaunch''}"
  using assms by (auto simp: preset_names_def get_preset_def)

lemma built_specs_resolve:
  assumes "sources_typed src" "load_spec src ident = Inr sp" "cs_preset sp = Some preset"
  shows "cs_type sp \<noteq> Live \<and> preset \<in> set preset_names \<and> get_preset go preset \<noteq> Some None \<and>
    preset \<notin> {''quip-mainnet'', ''quip_testnet'', ''quip-testnet-relaunch''}"
proof -
  note b = build_spec_Inr [of src _ _ _ _ _ sp]
  have "cs_type sp \<noteq> Live \<and> preset \<in> {''development'', ''local_testnet'', ''local_three_validator'', ''validator_rehearsal''}"
    using load_spec_sources [of src ident]
  proof (elim insertE emptyE)
    assume "load_spec src ident = development_chain_spec src"
    then show ?thesis using b assms(2,3) unfolding development_chain_spec_def by fastforce
  next
    assume "load_spec src ident = local_chain_spec src"
    then show ?thesis using b assms(2,3) unfolding local_chain_spec_def by fastforce
  next
    assume "load_spec src ident = validator_rehearsal_chain_spec src"
    then show ?thesis using b assms(2,3) unfolding validator_rehearsal_chain_spec_def by fastforce
  next
    assume "load_spec src ident = local_three_validator_chain_spec src"
    then show ?thesis using b assms(2,3) unfolding local_three_validator_chain_spec_def by fastforce
  qed (use assms in \<open>auto simp: sources_typed_def\<close>)
  then show ?thesis using local_presets_answered by blast
qed

subsection \<open>Inserting a session key\<close>

datatype hybrid_scheme = HybridBabeH444 | HybridGrandpaH244

record insert_hybrid_key_cmd =
  suri :: chars
  key_type :: "chars option"
  scheme :: hybrid_scheme

datatype cli_error = SuriFileUnreadable chars | SpecUnavailable | InvalidSuri hybrid_scheme | InvalidKeyType chars | KeystoreUnavailable | InsertFailed bytes

record 'k key_ops =
  is_file :: "chars \<Rightarrow> bool"
  read_to_string :: "chars \<Rightarrow> chars option"
  spec_available :: bool
  public_from_string :: "hybrid_scheme \<Rightarrow> chars \<Rightarrow> bytes option"
  BABE_KEY_TYPE :: bytes
  GRANDPA_KEY_TYPE :: bytes
  open_keystore :: "'k option"
  keystore_insert :: "bytes \<Rightarrow> chars \<Rightarrow> bytes \<Rightarrow> 'k \<Rightarrow> 'k option"

definition read_suri :: "'k key_ops \<Rightarrow> chars \<Rightarrow> cli_error + chars" where
  "read_suri ops text1 =
     (if is_file ops text1
      then (case read_to_string ops text1 of None \<Rightarrow> Inl (SuriFileUnreadable text1) | Some raw \<Rightarrow> Inr (trim raw))
      else Inr text1)"

text \<open>\<open>KeyTypeId::try_from\<close> takes exactly four bytes.\<close>

definition resolve_key_type :: "insert_hybrid_key_cmd \<Rightarrow> bytes \<Rightarrow> cli_error + bytes" where
  "resolve_key_type cmd default_type =
     (case key_type cmd of
        Some ty \<Rightarrow> if length (utf8 ty) = 4 then Inr (utf8 ty) else Inl (InvalidKeyType ty)
      | None \<Rightarrow> Inr default_type)"

definition insert_key_run :: "'k key_ops \<Rightarrow> insert_hybrid_key_cmd \<Rightarrow> cli_error + 'k" where
  "insert_key_run ops cmd =
     and_then (read_suri ops (suri cmd)) (\<lambda>secret.
     ensure (spec_available ops) SpecUnavailable
     (and_then (case scheme cmd of
          HybridBabeH444 \<Rightarrow>
            and_then (ok_or (public_from_string ops HybridBabeH444 secret) (InvalidSuri HybridBabeH444)) (\<lambda>pub.
            and_then (resolve_key_type cmd (BABE_KEY_TYPE ops)) (\<lambda>ty. Inr (ty, pub)))
        | HybridGrandpaH244 \<Rightarrow>
            and_then (ok_or (public_from_string ops HybridGrandpaH244 secret) (InvalidSuri HybridGrandpaH244)) (\<lambda>pub.
            and_then (resolve_key_type cmd (GRANDPA_KEY_TYPE ops)) (\<lambda>ty. Inr (ty, pub)))) (\<lambda>(ty, pub).
      and_then (ok_or (open_keystore ops) KeystoreUnavailable) (\<lambda>ks.
      ok_or (keystore_insert ops ty secret pub ks) (InsertFailed ty)))))"

text \<open>
  A key that is inserted is the public key of the secret in the command or in the file it names, under the identifier of
  the scheme's consensus engine unless another one of four bytes was given; the two schemes never share an identifier.
\<close>

lemma inserted_key_matches_scheme:
  assumes "insert_key_run ops cmd = Inr ks'"
  obtains secret pub ks where "read_suri ops (suri cmd) = Inr secret" "public_from_string ops (scheme cmd) secret = Some pub"
    "open_keystore ops = Some ks"
    "keystore_insert ops (case key_type cmd of Some ty \<Rightarrow> utf8 ty
       | None \<Rightarrow> (case scheme cmd of HybridBabeH444 \<Rightarrow> BABE_KEY_TYPE ops | HybridGrandpaH244 \<Rightarrow> GRANDPA_KEY_TYPE ops)) secret pub ks = Some ks'"
proof -
  from assms obtain secret where s: "read_suri ops (suri cmd) = Inr secret" unfolding insert_key_run_def and_then_Inr_iff by blast
  show thesis using assms that [OF s] unfolding insert_key_run_def s
    by (cases "scheme cmd") (auto simp: resolve_key_type_def and_then_Inr_iff ok_or_Inr_iff ensure_Inr_iff split: option.splits if_splits)
qed

end
