(* ===== verification/Spec2Isabelle.thy ===== *)
theory Spec2Isabelle
  imports Packed Diversity Ising Solution_Validation Pow_Examples Pow_Migration Faucet_Ops Slash_Policy Validator_Admission Evm_Chain_Id Mempool_Examples Registry_Examples Xqvm_Mempool Root_Calls Staking_Rewards Offence_Guard Election_Examples Crypto_Theorems Genesis_Theorems Runtime_Examples Runtime_Access Runtime_Apis Node
begin

text \<open>
  \<^bold>\<open>The program.\<close> The repository is a proof-of-work chain built on Substrate in which miners solve Ising
  problems on registered graphs, together with a market for such computations. Its parts, all under
  \<open>src/\<close>, and how they depend on each other:

  \<^item> \<open>crates/quantum-validation\<close>: the arithmetic shared by all of them: value specifications, the packed wire format of
    solutions, energies, diversity, generation of a problem from a nonce, validation of a solution.
  \<^item> \<open>pallets/quantum-pow\<close>: miners, topologies, difficulty, submitted proofs, the winner of a block and the qblocks. It
    calls the validation crate, and pays rewards through \<open>pallets/emission-controller\<close>, which also funds
    \<open>pallets/faucet-ops\<close>.
  \<^item> \<open>pallets/miner-registry\<close>: descriptors of mining nodes and their participation in qblocks, numbered by quantum-pow.
  \<^item> \<open>pallets/quantum-compute-mempool\<close>: job orders with an escrowed reward, solutions, ranking, expiry and payout. It calls
    the validation crate and, for the transform of a solution, programs kept by \<open>pallets/xqvm\<close>.
  \<^item> \<open>pallets/validator-admission\<close>, \<open>pallets/slash-policy\<close>, \<open>pallets/evm-chain-id\<close>: governance of validators, bounded
    council slashes, the chain identifier of the EVM.
  \<^item> \<open>runtime/src/configs\<close> and \<open>runtime/src/genesis_config_presets.rs\<close>: the code of the runtime itself: which calls the
    council may dispatch as root, the guard of offence reports, the staking budget, elections among admitted
    validators, the constants and weights, proxies and upgrades, and the genesis presets with the gate of the mainnet.
  \<^item> \<open>crates/transaction-crypto-core\<close> and \<open>crates/transaction-crypto\<close>: the hybrid signature of a transaction.

  \<^bold>\<open>Conventions.\<close> A pallet's storage is a record, a call is a function from configuration, origin, arguments and state to
  \<open>error + state\<close>, where \<open>Inl\<close> is the error after which the framework rolls the state back. A panic is \<open>None\<close> of an
  option around that. Constants of a \<open>Config\<close> trait and everything from third-party crates (balances, staking, hash
  functions, random generators, floating point, the virtual machine) are fields of a configuration record; what the
  code relies on there is a named predicate (\<open>issuance_laws\<close>, \<open>hold_laws\<close>, \<open>vm_laws\<close>, \<open>run_laws\<close> and so on) that a property
  assumes and its witness proves for a concrete instance. Unsigned integers are natural numbers with saturation,
  checked operations and wrap-around written out at their width; bytes and bit operations of the wire format use words.

  \<^bold>\<open>Theories.\<close>

  \<^item> \<open>Prelude\<close> (integers, options, lists) and \<open>Frame\<close> (origins, dispatch errors, guards, currencies) are shared.
  \<^item> \<open>Validation_Base\<close>, \<open>Puzzle_Spec\<close>, \<open>Packed\<close>, \<open>Energy\<close>, \<open>Diversity\<close>, \<open>Ising\<close>, \<open>Solution_Validation\<close> model
    \<open>crates/quantum-validation/src\<close>, one file each. They show the round trip of the packed format, what
    values any bytes decode to and that these are allowed, that the optimised energy is the sum of its definition, that
    selection is greedy and terminates, and exactly when a solution is valid and when its validation panics.
  \<^item> \<open>Difficulty\<close> (\<open>difficulty.rs\<close>), \<open>Pow_State\<close>, \<open>Pow_Calls\<close>, \<open>Pow_Proofs\<close>, \<open>Pow_Migration\<close> model quantum-pow; \<open>Pow_Chain\<close> has its
    invariant, blocks and reachable states, \<open>Pow_Theorems\<close>, \<open>Pow_Completeness\<close> and \<open>Pow_Rewards\<close> the properties (the bytes of an accepted
    proof decode to solutions of the puzzle of the round, a proof mined from the snapshot is accepted exactly when it meets
    the difficulty, the first best proof of a block wins, qblocks are numbered without gaps, the reward comes from the pot), \<open>Pow_Examples\<close> a concrete chain on which they are applied.
  \<^item> \<open>Emission\<close> and \<open>Faucet_Ops\<close>: whatever other pallets (staking among them) mint and burn, the controller's counters account
    for exactly what it issued, within the schedule; and the faucet never exceeds its budget.
  \<^item> \<open>Miner_Registry\<close>, \<open>Registry_Theorems\<close>, \<open>Registry_Examples\<close>: deposits match the stored descriptors, participation is
    recorded for existing qblocks only.
  \<^item> \<open>Xqvm\<close>, \<open>Xqvm_Theorems\<close>: every stored program passed the checks and is backed by a held deposit. \<open>Xqvm_Mempool\<close>: such a
    program is what the mempool's adapter finds under a hash, and two programs under one hash are a collision of the hash.
  \<^item> \<open>Mempool_Types\<close>, \<open>Mempool_Rewards\<close>, \<open>Mempool_Selection\<close>, \<open>Mempool_Vm\<close>, \<open>Mempool_State\<close>, \<open>Mempool_Calls\<close>, \<open>Mempool_Submit\<close>,
    \<open>Mempool_Settle\<close>, \<open>Mempool_Migration\<close> model the mempool; \<open>Mempool_Frame\<close>, \<open>Mempool_Inv\<close>, \<open>Mempool_Expiry\<close> and \<open>Mempool_Chain\<close> have
    what each call changes, the invariant, the expiry hook and the reachable states; \<open>Mempool_Theorems\<close> the properties:
    accepted solutions are sound, rankings are best first, orders move through their life cycle, a reward is paid
    exactly once or returned, overdue orders expire within a bounded number of blocks, nothing panics. In a reachable
    state other pallets may have changed the balances in any way, so the reserve of an order's reward may be gone, and
    the settlement then fails as the code says; \<open>mempool_backed\<close> singles out the states in which nobody took from the
    reserves. \<open>Mempool_Examples\<close> applies them.
  \<^item> \<open>Validator_Admission\<close>, \<open>Slash_Policy\<close>, \<open>Evm_Chain_Id\<close>: the admitted set changes only by its governed calls and no
    call moves the mode back; council slashes stay within the limits per motion and per window.
  \<^item> \<open>Root_Calls\<close> and \<open>Offence_Guard\<close> (\<open>configs/slashing.rs\<close>), \<open>Staking_Rewards\<close> (\<open>configs/staking_rewards.rs\<close>),
    \<open>Admission_Election\<close>, \<open>Election_Theorems\<close>, \<open>Election_Examples\<close> (\<open>configs/election.rs\<close> and \<open>configs/validator_onboarding.rs\<close>):
    the snapshot of voters is the ranking within its bounds, a removed validator is never elected, and a removal ends the
    open round and begins the next.
  \<^item> \<open>Call_Weights\<close> (the weights of the xqvm, mempool and quantum-pow pallets), \<open>Runtime_Config\<close> (the constants of
    \<open>configs/mod.rs\<close>), \<open>Runtime_Budgets\<close>, \<open>Runtime_Examples\<close>: executions of programs, submissions and the quota of proofs fit
    the block, and what is charged after a call is within what was charged before. \<open>Runtime_Access\<close>: proxies, the guard of
    \<open>set_code\<close>, and the account migration. \<open>Runtime_Apis\<close> (\<open>apis.rs\<close>): submitted reports pass the guard.
  \<^item> \<open>Node\<close> (\<open>node/src\<close>): the chain specifications resolve to presets of the runtime, and session keys are stored under the
    identifier of their scheme.
  \<^item> \<open>Genesis\<close>, \<open>Genesis_Theorems\<close>: the presets, the allocation plan and the gate of the mainnet export, which
    also refuses the keys of the testnet and of both derivations of the development keyring.
  \<^item> \<open>Transaction_Crypto\<close>, \<open>Crypto_Theorems\<close>: an envelope has one encoding, which decoding takes from the front of its
    input, what is signed verifies, and the reader of
    secret URIs.

  \<^bold>\<open>Interfaces.\<close> Where one part relies on another the contract is a locale, interpreted on the model's definitions:
  \<open>node_index\<close> (the topology index), \<open>value_source\<close> (value specifications), \<open>quantum_vm\<close> (the transform), \<open>mining_reward\<close>
  (subnet rewards), \<open>faucet_backend\<close> (the emission controller behind the faucet), \<open>qblock_numbering\<close> (quantum-pow behind the
  registry), \<open>ranked_heap\<close> (the bounded voter heap).

  \<^bold>\<open>Loops and bounds.\<close> There is no fuel. Loops are structural recursion, or recursive functions with a measure: the
  greedy selections (solutions still to select), the trimming of a snapshot (voters left), the walk over nested calls
  (size of the call). Block hooks process at most the code's own budget per block, and the liveness properties count the
  blocks they need.

  \<^bold>\<open>Not modelled.\<close> The benchmarks, the template pallet and the generated weight tables of the other pallets
  (scaffolding and measurements); try-runtime checks and tests; the wiring of third-party pallets in
  \<open>runtime/src/lib.rs\<close> and the runtime APIs that only forward to functions modelled here; \<open>runtime-testnet\<close>, a copy of
  \<open>runtime\<close> that differs in \<open>lib.rs\<close> and two timing constants, both of which are covered; the rest of \<open>node\<close> (networking,
  services); the Python and WebAssembly bindings of the crypto crate; the rendering of genesis as JSON.
\<close>

end
